(* ===== verification/Prelude.thy ===== *)
theory Prelude
  imports Main "HOL-Library.Word"
begin

text \<open>
  Shared vocabulary of the development: C strings as character lists without a NUL,
  the reads and searches the C library offers on them, the integer conversions the
  daemon uses, and the generic list lemmas the component theories rely on.

  A \<open>const char *\<close> argument is a \<open>string\<close> (the bytes before the terminating NUL);
  a pointer into it is an index, and \<open>char_at s i\<close> is the byte the pointer reads: the
  terminating NUL at \<open>i = length s\<close>.
\<close>

section \<open>Collections and types\<close>

named_theorems cstr_simps \<open>evaluation of C string reads and searches\<close>

type_synonym cstring = string

abbreviation NUL :: char where
  "NUL \<equiv> CHR 0x00"

abbreviation CR :: char where
  "CR \<equiv> CHR 0x0D"

abbreviation LF :: char where
  "LF \<equiv> CHR 0x0A"

abbreviation SPC :: char where
  "SPC \<equiv> CHR 0x20"

section \<open>Reading C strings\<close>

text \<open>\<open>*(s + i)\<close> for a C string \<open>s\<close>.\<close>

definition char_at :: "cstring \<Rightarrow> nat \<Rightarrow> char" where
  "char_at s i = (if i < length s then s ! i else NUL)"

text \<open>The bytes of a C string before its terminator contain no NUL.\<close>

definition nul_free :: "cstring \<Rightarrow> bool" where
  "nul_free s = (\<forall>c \<in> set s. c \<noteq> NUL)"

lemma char_at_Nil [cstr_simps]: "char_at [] i = NUL"
  by (simp add: char_at_def)

lemma char_at_Cons_0 [cstr_simps]: "char_at (c # s) 0 = c"
  by (simp add: char_at_def)

lemma char_at_Cons_Suc [cstr_simps]: "char_at (c # s) (Suc i) = char_at s i"
  by (simp add: char_at_def)

lemma char_at_end [simp]: "char_at s (length s) = NUL"
  by (simp add: char_at_def)

lemma char_at_ge: "length s \<le> i \<Longrightarrow> char_at s i = NUL"
  by (simp add: char_at_def)

lemma char_at_neq_NUL: "char_at s i \<noteq> NUL \<Longrightarrow> i < length s"
  by (simp add: char_at_def split: if_splits)

lemma char_at_NUL_iff: "nul_free s \<Longrightarrow> i \<le> length s \<Longrightarrow> char_at s i = NUL \<longleftrightarrow> i = length s"
  by (auto simp: char_at_def nul_free_def dest: nth_mem)

lemma nul_free_Nil [simp]: "nul_free []"
  by (simp add: nul_free_def)

lemma nul_free_Cons [simp]: "nul_free (c # s) \<longleftrightarrow> c \<noteq> NUL \<and> nul_free s"
  by (auto simp: nul_free_def)

lemma nul_free_append [simp]: "nul_free (s @ t) \<longleftrightarrow> nul_free s \<and> nul_free t"
  by (auto simp: nul_free_def)

lemma drop_eq_Cons_char_at: "i < length s \<Longrightarrow> drop i s = char_at s i # drop (Suc i) s"
  by (simp add: char_at_def Cons_nth_drop_Suc)

lemma distinct_remove1_filter: "distinct xs \<Longrightarrow> remove1 x xs = filter (\<lambda>y. y \<noteq> x) xs"
  by (induction xs) (auto intro: filter_True [symmetric])

section \<open>Searches and copies of the C library\<close>

text \<open>
  \<open>strchr(s, c)\<close> followed by the usual \<open>*t++ = '\\0'\<close>: the string before the first
  occurrence of \<open>c\<close> and the one after it; \<open>None\<close> when there is none.
\<close>

fun strchr_cut :: "char \<Rightarrow> cstring \<Rightarrow> (cstring \<times> cstring) option" where
  "strchr_cut c [] = None"
| "strchr_cut c (x # xs) =
     (if x = c then Some ([], xs)
      else case strchr_cut c xs of None \<Rightarrow> None | Some (a, b) \<Rightarrow> Some (x # a, b))"

text \<open>\<open>strrchr(s, c)\<close> with the same cut: the last occurrence.\<close>

fun strrchr_cut :: "char \<Rightarrow> cstring \<Rightarrow> (cstring \<times> cstring) option" where
  "strrchr_cut c [] = None"
| "strrchr_cut c (x # xs) =
     (case strrchr_cut c xs of
        Some (a, b) \<Rightarrow> Some (x # a, b)
      | None \<Rightarrow> if x = c then Some ([], xs) else None)"

lemma strchr_cut_None: "strchr_cut c s = None \<longleftrightarrow> c \<notin> set s"
  by (induction s) (auto split: option.splits)

lemma strchr_cut_append: "c \<notin> set a \<Longrightarrow> strchr_cut c (a @ c # b) = Some (a, b)"
  by (induction a) auto

lemma strchr_cut_SomeD: "strchr_cut c s = Some (a, b) \<Longrightarrow> s = a @ c # b \<and> c \<notin> set a"
  by (induction s arbitrary: a b) (auto split: option.splits if_splits)

lemma strchr_cut_Some:
  "strchr_cut c s = Some (a, b) \<longleftrightarrow> s = a @ c # b \<and> c \<notin> set a"
  by (auto simp: strchr_cut_append dest: strchr_cut_SomeD)

lemma strrchr_cut_None: "strrchr_cut c s = None \<longleftrightarrow> c \<notin> set s"
  by (induction s) (auto split: option.splits)

lemma strrchr_cut_append: "c \<notin> set b \<Longrightarrow> strrchr_cut c (a @ c # b) = Some (a, b)"
  by (induction a) (auto simp: strrchr_cut_None[THEN iffD2])

lemma strrchr_cut_SomeD: "strrchr_cut c s = Some (a, b) \<Longrightarrow> s = a @ c # b \<and> c \<notin> set b"
  by (induction s arbitrary: a b) (auto simp: strrchr_cut_None split: option.splits if_splits)

lemma strrchr_cut_Some:
  "strrchr_cut c s = Some (a, b) \<longleftrightarrow> s = a @ c # b \<and> c \<notin> set b"
  by (auto simp: strrchr_cut_append dest: strrchr_cut_SomeD)

text \<open>
  \<open>rb_strlcpy(dst, src, size)\<close> leaves at most \<open>size - 1\<close> bytes in \<open>dst\<close>
  (\<open>libratbox/src/tools.c\<close>); its return value is \<open>strlen(src)\<close>.
\<close>

definition strlcpy :: "cstring \<Rightarrow> nat \<Rightarrow> cstring" where
  "strlcpy src siz = take (siz - 1) src"

lemma length_strlcpy: "0 < siz \<Longrightarrow> length (strlcpy src siz) < siz"
  by (simp add: strlcpy_def)

lemma nul_free_strlcpy: "nul_free s \<Longrightarrow> nul_free (strlcpy s n)"
  by (auto simp: nul_free_def strlcpy_def dest: in_set_takeD)

section \<open>Decimal conversion\<close>

text \<open>
  \<open>atoi(s)\<close> is \<open>(int) strtol(s, NULL, 10)\<close>: white space, an optional sign, the leading
  decimal digits; \<open>strtol\<close> saturates at the ends of a 64-bit \<open>long\<close>, and the conversion
  to \<open>int\<close> keeps the low 32 bits, read as two's complement.
\<close>

definition is_c_space :: "char \<Rightarrow> bool" where
  "is_c_space c = (c = SPC \<or> (9 \<le> (of_char c :: nat) \<and> (of_char c :: nat) \<le> 13))"

definition is_c_digit :: "char \<Rightarrow> bool" where
  "is_c_digit c = (48 \<le> (of_char c :: nat) \<and> (of_char c :: nat) \<le> 57)"

definition digits_value :: "cstring \<Rightarrow> int" where
  "digits_value s =
     foldl (\<lambda>acc c. 10 * acc + (int (of_char c) - 48)) 0 (takeWhile is_c_digit s)"

definition strtol10 :: "cstring \<Rightarrow> int" where
  "strtol10 s =
     (let t = dropWhile is_c_space s;
          v = (case t of
                 [] \<Rightarrow> 0
               | c # r \<Rightarrow>
                   if c = CHR ''-'' then - digits_value r
                   else if c = CHR ''+'' then digits_value r
                   else digits_value t)
      in max (- (2 ^ 63)) (min (2 ^ 63 - 1) v))"

definition atoi :: "cstring \<Rightarrow> int" where
  "atoi s = signed_take_bit 31 (strtol10 s)"

lemma atoi_range: "- (2 ^ 31) \<le> atoi s \<and> atoi s < 2 ^ 31"
proof -
  have "- (2 ^ 31) \<le> signed_take_bit 31 (strtol10 s)"
    by (rule signed_take_bit_int_greater_eq_minus_exp)
  moreover have "signed_take_bit 31 (strtol10 s) < 2 ^ 31"
    by (rule signed_take_bit_int_less_exp)
  ultimately show ?thesis by (simp add: atoi_def)
qed

end
