(* ===== verification/Chars.thy ===== *)
theory Chars
  imports Prelude
begin

unbundle bit_operations_syntax

text \<open>
  The character tables of \<open>src/match.c\<close> and the predicates \<open>include/match.h\<close> builds on
  them: case folding by \<open>ToLowerTab\<close> and \<open>ToUpperTab\<close>, character classes by the bits
  of \<open>CharAttrs\<close>, and the case-insensitive comparison \<open>irccmp\<close>. The tables are the
  source's, entry by entry; the lemmas give the closed form of each predicate, so that
  other theories never look at a table.
\<close>

section \<open>Case folding\<close>

text \<open>
  Entries \<open>0x41\<close> to \<open>0x5e\<close> (the letters and the four characters after them) move by
  \<open>0x20\<close>; every other entry is its own index.
\<close>

definition ToLowerTab :: "nat list" where
  "ToLowerTab = [0..<0x41] @ [0x61..<0x7f] @ [0x5f..<0x100]"

definition ToUpperTab :: "nat list" where
  "ToUpperTab = [0..<0x61] @ [0x41..<0x5f] @ [0x7f..<0x100]"

definition ToLower :: "char \<Rightarrow> char" where
  "ToLower c = char_of (ToLowerTab ! of_char c)"

definition ToUpper :: "char \<Rightarrow> char" where
  "ToUpper c = char_of (ToUpperTab ! of_char c)"

lemma shifted_table_nth:
  "a + k \<le> c \<Longrightarrow> n < c \<Longrightarrow>
   ([0..<a] @ [b..<b + k] @ [a + k..<c]) ! n = (if a \<le> n \<and> n < a + k then n - a + b else n)"
  by (auto simp: nth_append)

lemma ToLowerTab_nth:
  "n < 256 \<Longrightarrow> ToLowerTab ! n = (if 0x41 \<le> n \<and> n < 0x5f then n + 0x20 else n)"
  using shifted_table_nth [of "0x41" 30 256 n "0x61"]
  by (simp add: ToLowerTab_def del: upt_rec_numeral)

lemma ToUpperTab_nth:
  "n < 256 \<Longrightarrow> ToUpperTab ! n = (if 0x61 \<le> n \<and> n < 0x7f then n - 0x20 else n)"
  using shifted_table_nth [of "0x61" 30 256 n "0x41"]
  by (simp add: ToUpperTab_def del: upt_rec_numeral)

lemma ToLower_eq [code]:
  "ToLower c = (let n = of_char c :: nat in
     if 0x41 \<le> n \<and> n < 0x5f then char_of (n + 0x20) else c)"
  by (simp add: ToLower_def ToLowerTab_nth Let_def)

lemma ToUpper_eq [code]:
  "ToUpper c = (let n = of_char c :: nat in
     if 0x61 \<le> n \<and> n < 0x7f then char_of (n - 0x20) else c)"
  by (simp add: ToUpper_def ToUpperTab_nth Let_def)

lemma of_char_ToLower:
  "(of_char (ToLower c) :: nat) =
     (if 0x41 \<le> (of_char c :: nat) \<and> (of_char c :: nat) < 0x5f
      then of_char c + 0x20 else of_char c)"
  by (simp add: ToLower_eq Let_def)

lemma of_char_ToUpper:
  "(of_char (ToUpper c) :: nat) =
     (if 0x61 \<le> (of_char c :: nat) \<and> (of_char c :: nat) < 0x7f
      then of_char c - 0x20 else of_char c)"
  by (auto simp: ToUpper_eq Let_def mod_less)

lemma char_eqI: "(of_char c :: nat) = of_char d \<Longrightarrow> c = d"
  by simp

lemma char_eqD: "c = d \<Longrightarrow> (of_char c :: nat) = of_char d"
  by simp

lemma ToLower_idem [simp]: "ToLower (ToLower c) = ToLower c"
  by (rule char_eqI) (simp add: of_char_ToLower del: of_char_eq_iff)

lemma ToUpper_idem [simp]: "ToUpper (ToUpper c) = ToUpper c"
  by (rule char_eqI) (auto simp add: of_char_ToUpper simp del: of_char_eq_iff)

lemma ToLower_ToUpper [simp]: "ToLower (ToUpper c) = ToLower c"
  by (rule char_eqI) (auto simp add: of_char_ToLower of_char_ToUpper simp del: of_char_eq_iff)

lemma ToUpper_ToLower [simp]: "ToUpper (ToLower c) = ToUpper c"
  by (rule char_eqI) (auto simp add: of_char_ToLower of_char_ToUpper simp del: of_char_eq_iff)

text \<open>Both folds identify the same characters.\<close>

lemma ToLower_eq_iff_ToUpper: "ToLower c = ToLower d \<longleftrightarrow> ToUpper c = ToUpper d"
  by (metis ToLower_ToUpper ToUpper_ToLower)

lemma ToLower_fixed: "(of_char c :: nat) < 0x41 \<Longrightarrow> ToLower c = c"
  by (simp add: ToLower_eq Let_def)

lemma ToUpper_fixed: "(of_char c :: nat) < 0x61 \<Longrightarrow> ToUpper c = c"
  by (simp add: ToUpper_eq Let_def)

lemma ToLower_eq_fixed: "(of_char d :: nat) < 0x41 \<Longrightarrow> ToLower c = d \<longleftrightarrow> c = d"
  using of_char_ToLower [of c] by (auto simp: ToLower_fixed split: if_splits)

lemma ToUpper_eq_fixed: "(of_char d :: nat) < 0x41 \<Longrightarrow> ToUpper c = d \<longleftrightarrow> c = d"
  using of_char_ToUpper [of c] by (auto simp: ToUpper_fixed split: if_splits)

section \<open>Character classes\<close>

type_synonym attr = "32 word"

abbreviation PRINT_C :: attr where
  "PRINT_C \<equiv> 0x001"

abbreviation CNTRL_C :: attr where
  "CNTRL_C \<equiv> 0x002"

abbreviation ALPHA_C :: attr where
  "ALPHA_C \<equiv> 0x004"

abbreviation PUNCT_C :: attr where
  "PUNCT_C \<equiv> 0x008"

abbreviation DIGIT_C :: attr where
  "DIGIT_C \<equiv> 0x010"

abbreviation SPACE_C :: attr where
  "SPACE_C \<equiv> 0x020"

abbreviation NICK_C :: attr where
  "NICK_C \<equiv> 0x040"

abbreviation CHAN_C :: attr where
  "CHAN_C \<equiv> 0x080"

abbreviation KWILD_C :: attr where
  "KWILD_C \<equiv> 0x100"

abbreviation CHANPFX_C :: attr where
  "CHANPFX_C \<equiv> 0x200"

abbreviation USER_C :: attr where
  "USER_C \<equiv> 0x400"

abbreviation HOST_C :: attr where
  "HOST_C \<equiv> 0x800"

abbreviation NONEOS_C :: attr where
  "NONEOS_C \<equiv> 0x1000"

abbreviation SERV_C :: attr where
  "SERV_C \<equiv> 0x2000"

abbreviation EOL_C :: attr where
  "EOL_C \<equiv> 0x4000"

abbreviation MWILD_C :: attr where
  "MWILD_C \<equiv> 0x8000"

abbreviation LET_C :: attr where
  "LET_C \<equiv> 0x10000"

abbreviation FCHAN_C :: attr where
  "FCHAN_C \<equiv> 0x20000"

text \<open>Entries \<open>0x00\<close> to \<open>0x7f\<close> of \<open>CharAttrs\<close>.\<close>

definition CharAttrs_00_7F :: "attr list" where
  "CharAttrs_00_7F = [
     CNTRL_C,
     CNTRL_C OR CHAN_C OR NONEOS_C,
     CNTRL_C OR CHAN_C OR FCHAN_C OR NONEOS_C,
     CNTRL_C OR CHAN_C OR FCHAN_C OR NONEOS_C,
     CNTRL_C OR CHAN_C OR NONEOS_C,
     CNTRL_C OR CHAN_C OR NONEOS_C,
     CNTRL_C OR CHAN_C OR NONEOS_C,
     CNTRL_C OR NONEOS_C,
     CNTRL_C OR CHAN_C OR NONEOS_C,
     CNTRL_C OR SPACE_C OR CHAN_C OR NONEOS_C,
     CNTRL_C OR SPACE_C OR CHAN_C OR NONEOS_C OR EOL_C,
     CNTRL_C OR SPACE_C OR CHAN_C OR NONEOS_C,
     CNTRL_C OR SPACE_C OR CHAN_C OR NONEOS_C,
     CNTRL_C OR SPACE_C OR CHAN_C OR NONEOS_C OR EOL_C,
     CNTRL_C OR CHAN_C OR NONEOS_C,
     CNTRL_C OR CHAN_C OR NONEOS_C,
     CNTRL_C OR CHAN_C OR NONEOS_C,
     CNTRL_C OR CHAN_C OR NONEOS_C,
     CNTRL_C OR CHAN_C OR NONEOS_C,
     CNTRL_C OR CHAN_C OR NONEOS_C,
     CNTRL_C OR CHAN_C OR NONEOS_C,
     CNTRL_C OR CHAN_C OR NONEOS_C,
     CNTRL_C OR CHAN_C OR FCHAN_C OR NONEOS_C,
     CNTRL_C OR CHAN_C OR NONEOS_C,
     CNTRL_C OR CHAN_C OR NONEOS_C,
     CNTRL_C OR CHAN_C OR NONEOS_C,
     CNTRL_C OR CHAN_C OR NONEOS_C,
     CNTRL_C OR CHAN_C OR NONEOS_C,
     CNTRL_C OR CHAN_C OR NONEOS_C,
     CNTRL_C OR CHAN_C OR FCHAN_C OR NONEOS_C,
     CNTRL_C OR CHAN_C OR NONEOS_C,
     CNTRL_C OR CHAN_C OR FCHAN_C OR NONEOS_C,
     PRINT_C OR SPACE_C,
     PRINT_C OR KWILD_C OR CHAN_C OR NONEOS_C,
     PRINT_C OR CHAN_C OR NONEOS_C,
     PRINT_C OR MWILD_C OR CHANPFX_C OR CHAN_C OR NONEOS_C,
     PRINT_C OR CHAN_C OR NONEOS_C OR USER_C,
     PRINT_C OR CHAN_C OR NONEOS_C,
     PRINT_C OR CHANPFX_C OR CHAN_C OR NONEOS_C,
     PRINT_C OR CHAN_C OR NONEOS_C,
     PRINT_C OR CHAN_C OR NONEOS_C,
     PRINT_C OR CHAN_C OR NONEOS_C,
     PRINT_C OR KWILD_C OR MWILD_C OR CHAN_C OR NONEOS_C OR SERV_C,
     PRINT_C OR CHAN_C OR NONEOS_C,
     PRINT_C OR NONEOS_C,
     PRINT_C OR NICK_C OR CHAN_C OR NONEOS_C OR USER_C OR HOST_C,
     PRINT_C OR KWILD_C OR CHAN_C OR NONEOS_C OR USER_C OR HOST_C OR SERV_C,
     PRINT_C OR KWILD_C OR CHAN_C OR NONEOS_C,
     PRINT_C OR DIGIT_C OR NICK_C OR CHAN_C OR NONEOS_C OR USER_C OR HOST_C,
     PRINT_C OR DIGIT_C OR NICK_C OR CHAN_C OR NONEOS_C OR USER_C OR HOST_C,
     PRINT_C OR DIGIT_C OR NICK_C OR CHAN_C OR NONEOS_C OR USER_C OR HOST_C,
     PRINT_C OR DIGIT_C OR NICK_C OR CHAN_C OR NONEOS_C OR USER_C OR HOST_C,
     PRINT_C OR DIGIT_C OR NICK_C OR CHAN_C OR NONEOS_C OR USER_C OR HOST_C,
     PRINT_C OR DIGIT_C OR NICK_C OR CHAN_C OR NONEOS_C OR USER_C OR HOST_C,
     PRINT_C OR DIGIT_C OR NICK_C OR CHAN_C OR NONEOS_C OR USER_C OR HOST_C,
     PRINT_C OR DIGIT_C OR NICK_C OR CHAN_C OR NONEOS_C OR USER_C OR HOST_C,
     PRINT_C OR DIGIT_C OR NICK_C OR CHAN_C OR NONEOS_C OR USER_C OR HOST_C,
     PRINT_C OR DIGIT_C OR NICK_C OR CHAN_C OR NONEOS_C OR USER_C OR HOST_C,
     PRINT_C OR CHAN_C OR NONEOS_C OR HOST_C,
     PRINT_C OR CHAN_C OR NONEOS_C,
     PRINT_C OR CHAN_C OR NONEOS_C,
     PRINT_C OR CHAN_C OR NONEOS_C,
     PRINT_C OR CHAN_C OR NONEOS_C,
     PRINT_C OR KWILD_C OR MWILD_C OR CHAN_C OR NONEOS_C,
     PRINT_C OR KWILD_C OR MWILD_C OR CHAN_C OR NONEOS_C,
     PRINT_C OR ALPHA_C OR LET_C OR NICK_C OR CHAN_C OR NONEOS_C OR USER_C OR HOST_C,
     PRINT_C OR ALPHA_C OR LET_C OR NICK_C OR CHAN_C OR NONEOS_C OR USER_C OR HOST_C,
     PRINT_C OR ALPHA_C OR LET_C OR NICK_C OR CHAN_C OR NONEOS_C OR USER_C OR HOST_C,
     PRINT_C OR ALPHA_C OR LET_C OR NICK_C OR CHAN_C OR NONEOS_C OR USER_C OR HOST_C,
     PRINT_C OR ALPHA_C OR LET_C OR NICK_C OR CHAN_C OR NONEOS_C OR USER_C OR HOST_C,
     PRINT_C OR ALPHA_C OR LET_C OR NICK_C OR CHAN_C OR NONEOS_C OR USER_C OR HOST_C,
     PRINT_C OR ALPHA_C OR LET_C OR NICK_C OR CHAN_C OR NONEOS_C OR USER_C OR HOST_C,
     PRINT_C OR ALPHA_C OR LET_C OR NICK_C OR CHAN_C OR NONEOS_C OR USER_C OR HOST_C,
     PRINT_C OR ALPHA_C OR LET_C OR NICK_C OR CHAN_C OR NONEOS_C OR USER_C OR HOST_C,
     PRINT_C OR ALPHA_C OR LET_C OR NICK_C OR CHAN_C OR NONEOS_C OR USER_C OR HOST_C,
     PRINT_C OR ALPHA_C OR LET_C OR NICK_C OR CHAN_C OR NONEOS_C OR USER_C OR HOST_C,
     PRINT_C OR ALPHA_C OR LET_C OR NICK_C OR CHAN_C OR NONEOS_C OR USER_C OR HOST_C,
     PRINT_C OR ALPHA_C OR LET_C OR NICK_C OR CHAN_C OR NONEOS_C OR USER_C OR HOST_C,
     PRINT_C OR ALPHA_C OR LET_C OR NICK_C OR CHAN_C OR NONEOS_C OR USER_C OR HOST_C,
     PRINT_C OR ALPHA_C OR LET_C OR NICK_C OR CHAN_C OR NONEOS_C OR USER_C OR HOST_C,
     PRINT_C OR ALPHA_C OR LET_C OR NICK_C OR CHAN_C OR NONEOS_C OR USER_C OR HOST_C,
     PRINT_C OR ALPHA_C OR LET_C OR NICK_C OR CHAN_C OR NONEOS_C OR USER_C OR HOST_C,
     PRINT_C OR ALPHA_C OR LET_C OR NICK_C OR CHAN_C OR NONEOS_C OR USER_C OR HOST_C,
     PRINT_C OR ALPHA_C OR LET_C OR NICK_C OR CHAN_C OR NONEOS_C OR USER_C OR HOST_C,
     PRINT_C OR ALPHA_C OR LET_C OR NICK_C OR CHAN_C OR NONEOS_C OR USER_C OR HOST_C,
     PRINT_C OR ALPHA_C OR LET_C OR NICK_C OR CHAN_C OR NONEOS_C OR USER_C OR HOST_C,
     PRINT_C OR ALPHA_C OR LET_C OR NICK_C OR CHAN_C OR NONEOS_C OR USER_C OR HOST_C,
     PRINT_C OR ALPHA_C OR LET_C OR NICK_C OR CHAN_C OR NONEOS_C OR USER_C OR HOST_C,
     PRINT_C OR ALPHA_C OR LET_C OR NICK_C OR CHAN_C OR NONEOS_C OR USER_C OR HOST_C,
     PRINT_C OR ALPHA_C OR LET_C OR NICK_C OR CHAN_C OR NONEOS_C OR USER_C OR HOST_C,
     PRINT_C OR ALPHA_C OR LET_C OR NICK_C OR CHAN_C OR NONEOS_C OR USER_C OR HOST_C,
     PRINT_C OR ALPHA_C OR NICK_C OR CHAN_C OR NONEOS_C OR USER_C,
     PRINT_C OR ALPHA_C OR NICK_C OR CHAN_C OR NONEOS_C OR USER_C,
     PRINT_C OR ALPHA_C OR NICK_C OR CHAN_C OR NONEOS_C OR USER_C,
     PRINT_C OR ALPHA_C OR NICK_C OR CHAN_C OR NONEOS_C OR USER_C,
     PRINT_C OR NICK_C OR CHAN_C OR NONEOS_C OR USER_C,
     PRINT_C OR NICK_C OR CHAN_C OR NONEOS_C OR USER_C,
     PRINT_C OR ALPHA_C OR LET_C OR NICK_C OR CHAN_C OR NONEOS_C OR USER_C OR HOST_C,
     PRINT_C OR ALPHA_C OR LET_C OR NICK_C OR CHAN_C OR NONEOS_C OR USER_C OR HOST_C,
     PRINT_C OR ALPHA_C OR LET_C OR NICK_C OR CHAN_C OR NONEOS_C OR USER_C OR HOST_C,
     PRINT_C OR ALPHA_C OR LET_C OR NICK_C OR CHAN_C OR NONEOS_C OR USER_C OR HOST_C,
     PRINT_C OR ALPHA_C OR LET_C OR NICK_C OR CHAN_C OR NONEOS_C OR USER_C OR HOST_C,
     PRINT_C OR ALPHA_C OR LET_C OR NICK_C OR CHAN_C OR NONEOS_C OR USER_C OR HOST_C,
     PRINT_C OR ALPHA_C OR LET_C OR NICK_C OR CHAN_C OR NONEOS_C OR USER_C OR HOST_C,
     PRINT_C OR ALPHA_C OR LET_C OR NICK_C OR CHAN_C OR NONEOS_C OR USER_C OR HOST_C,
     PRINT_C OR ALPHA_C OR LET_C OR NICK_C OR CHAN_C OR NONEOS_C OR USER_C OR HOST_C,
     PRINT_C OR ALPHA_C OR LET_C OR NICK_C OR CHAN_C OR NONEOS_C OR USER_C OR HOST_C,
     PRINT_C OR ALPHA_C OR LET_C OR NICK_C OR CHAN_C OR NONEOS_C OR USER_C OR HOST_C,
     PRINT_C OR ALPHA_C OR LET_C OR NICK_C OR CHAN_C OR NONEOS_C OR USER_C OR HOST_C,
     PRINT_C OR ALPHA_C OR LET_C OR NICK_C OR CHAN_C OR NONEOS_C OR USER_C OR HOST_C,
     PRINT_C OR ALPHA_C OR LET_C OR NICK_C OR CHAN_C OR NONEOS_C OR USER_C OR HOST_C,
     PRINT_C OR ALPHA_C OR LET_C OR NICK_C OR CHAN_C OR NONEOS_C OR USER_C OR HOST_C,
     PRINT_C OR ALPHA_C OR LET_C OR NICK_C OR CHAN_C OR NONEOS_C OR USER_C OR HOST_C,
     PRINT_C OR ALPHA_C OR LET_C OR NICK_C OR CHAN_C OR NONEOS_C OR USER_C OR HOST_C,
     PRINT_C OR ALPHA_C OR LET_C OR NICK_C OR CHAN_C OR NONEOS_C OR USER_C OR HOST_C,
     PRINT_C OR ALPHA_C OR LET_C OR NICK_C OR CHAN_C OR NONEOS_C OR USER_C OR HOST_C,
     PRINT_C OR ALPHA_C OR LET_C OR NICK_C OR CHAN_C OR NONEOS_C OR USER_C OR HOST_C,
     PRINT_C OR ALPHA_C OR LET_C OR NICK_C OR CHAN_C OR NONEOS_C OR USER_C OR HOST_C,
     PRINT_C OR ALPHA_C OR LET_C OR NICK_C OR CHAN_C OR NONEOS_C OR USER_C OR HOST_C,
     PRINT_C OR ALPHA_C OR LET_C OR NICK_C OR CHAN_C OR NONEOS_C OR USER_C OR HOST_C,
     PRINT_C OR ALPHA_C OR LET_C OR NICK_C OR CHAN_C OR NONEOS_C OR USER_C OR HOST_C,
     PRINT_C OR ALPHA_C OR LET_C OR NICK_C OR CHAN_C OR NONEOS_C OR USER_C OR HOST_C,
     PRINT_C OR ALPHA_C OR LET_C OR NICK_C OR CHAN_C OR NONEOS_C OR USER_C OR HOST_C,
     PRINT_C OR ALPHA_C OR NICK_C OR CHAN_C OR NONEOS_C OR USER_C,
     PRINT_C OR ALPHA_C OR NICK_C OR CHAN_C OR NONEOS_C OR USER_C,
     PRINT_C OR ALPHA_C OR NICK_C OR CHAN_C OR NONEOS_C OR USER_C,
     PRINT_C OR ALPHA_C OR CHAN_C OR NONEOS_C OR USER_C,
     CHAN_C OR NONEOS_C]"

text \<open>Entries \<open>0x80\<close> to \<open>0xff\<close>: only \<open>0xa0\<close> differs from its neighbours.\<close>

definition CharAttrs_80_FF :: "attr list" where
  "CharAttrs_80_FF =
     replicate 32 (CHAN_C OR NONEOS_C) @ [CHAN_C OR FCHAN_C OR NONEOS_C]
     @ replicate 95 (CHAN_C OR NONEOS_C)"

definition CharAttrs :: "attr list" where
  "CharAttrs = CharAttrs_00_7F @ CharAttrs_80_FF"

definition has_attr :: "char \<Rightarrow> attr \<Rightarrow> bool" where
  "has_attr c f = (CharAttrs ! of_char c AND f \<noteq> 0)"

definition IsHostChar :: "char \<Rightarrow> bool" where
  "IsHostChar c = has_attr c (HOST_C)"

definition IsUserChar :: "char \<Rightarrow> bool" where
  "IsUserChar c = has_attr c (USER_C)"

definition IsChanPrefix :: "char \<Rightarrow> bool" where
  "IsChanPrefix c = has_attr c (CHANPFX_C)"

definition IsChanChar :: "char \<Rightarrow> bool" where
  "IsChanChar c = has_attr c (CHAN_C)"

definition IsFakeChanChar :: "char \<Rightarrow> bool" where
  "IsFakeChanChar c = has_attr c (FCHAN_C)"

definition IsKWildChar :: "char \<Rightarrow> bool" where
  "IsKWildChar c = has_attr c (KWILD_C)"

definition IsMWildChar :: "char \<Rightarrow> bool" where
  "IsMWildChar c = has_attr c (MWILD_C)"

definition IsNickChar :: "char \<Rightarrow> bool" where
  "IsNickChar c = has_attr c (NICK_C)"

definition IsServChar :: "char \<Rightarrow> bool" where
  "IsServChar c = has_attr c (NICK_C OR SERV_C)"

definition IsIdChar :: "char \<Rightarrow> bool" where
  "IsIdChar c = has_attr c (DIGIT_C OR LET_C)"

definition IsLetter :: "char \<Rightarrow> bool" where
  "IsLetter c = has_attr c (LET_C)"

definition IsSpace :: "char \<Rightarrow> bool" where
  "IsSpace c = has_attr c (SPACE_C)"

definition IsDigit :: "char \<Rightarrow> bool" where
  "IsDigit c = has_attr c (DIGIT_C)"

definition IsAlNum :: "char \<Rightarrow> bool" where
  "IsAlNum c = has_attr c (DIGIT_C OR ALPHA_C)"

definition IsEol :: "char \<Rightarrow> bool" where
  "IsEol c = has_attr c (EOL_C)"

section \<open>Closed forms of the character classes\<close>

text \<open>
  Each class is decided once for all 256 entries of the table by evaluation inside the
  kernel; \<open>attr_closed_form\<close> carries the result to every character.
\<close>

lemma attr_closed_form:
  assumes "map (\<lambda>a. a AND f \<noteq> 0) CharAttrs = map g [0..<256]"
  shows "has_attr c f = g (of_char c)"
proof -
  have "length CharAttrs = 256"
    using arg_cong [OF assms, of length] by (simp del: upt_rec_numeral)
  then show ?thesis
    using arg_cong [OF assms, of "\<lambda>xs. xs ! of_char c"]
    by (simp add: has_attr_def del: upt_rec_numeral)
qed

definition letter_code :: "nat \<Rightarrow> bool" where
  "letter_code n = ((65 \<le> n \<and> n \<le> 90) \<or> (97 \<le> n \<and> n \<le> 122))"

definition digit_code :: "nat \<Rightarrow> bool" where
  "digit_code n = (48 \<le> n \<and> n \<le> 57)"

lemma IsLetter_iff: "IsLetter c = letter_code (of_char c)"
  unfolding IsLetter_def by (rule attr_closed_form) code_simp

lemma IsDigit_iff: "IsDigit c = digit_code (of_char c)"
  unfolding IsDigit_def by (rule attr_closed_form) code_simp

lemma IsHostChar_iff:
  "IsHostChar c =
     (\<lambda>n. letter_code n \<or> digit_code n \<or> n = 45 \<or> n = 46 \<or> n = 58) (of_char c)"
  unfolding IsHostChar_def by (rule attr_closed_form) code_simp

lemma IsUserChar_iff:
  "IsUserChar c =
     (\<lambda>n. digit_code n \<or> n = 36 \<or> n = 45 \<or> n = 46 \<or> (65 \<le> n \<and> n \<le> 126)) (of_char c)"
  unfolding IsUserChar_def by (rule attr_closed_form) code_simp

lemma IsNickChar_iff:
  "IsNickChar c =
     (\<lambda>n. digit_code n \<or> n = 45 \<or> (65 \<le> n \<and> n \<le> 125)) (of_char c)"
  unfolding IsNickChar_def by (rule attr_closed_form) code_simp

lemma IsServChar_iff:
  "IsServChar c =
     (\<lambda>n. digit_code n \<or> n = 42 \<or> n = 45 \<or> n = 46 \<or> (65 \<le> n \<and> n \<le> 125)) (of_char c)"
  unfolding IsServChar_def by (rule attr_closed_form) code_simp

lemma IsAlNum_iff:
  "IsAlNum c =
     (\<lambda>n. digit_code n \<or> (65 \<le> n \<and> n \<le> 94) \<or> (97 \<le> n \<and> n \<le> 126)) (of_char c)"
  unfolding IsAlNum_def by (rule attr_closed_form) code_simp

lemma IsChanChar_iff:
  "IsChanChar c = (\<lambda>n::nat. n \<noteq> 0 \<and> n \<noteq> 7 \<and> n \<noteq> 32 \<and> n \<noteq> 44) (of_char c)"
  unfolding IsChanChar_def by (rule attr_closed_form) code_simp

lemma IsChanPrefix_iff: "IsChanPrefix c = (\<lambda>n::nat. n = 35 \<or> n = 38) (of_char c)"
  unfolding IsChanPrefix_def by (rule attr_closed_form) code_simp

lemma IsSpace_iff: "IsSpace c = (\<lambda>n::nat. n = 32 \<or> (9 \<le> n \<and> n \<le> 13)) (of_char c)"
  unfolding IsSpace_def by (rule attr_closed_form) code_simp

lemmas char_class_iffs =
  IsLetter_iff IsDigit_iff IsHostChar_iff IsUserChar_iff IsNickChar_iff IsServChar_iff
  IsAlNum_iff IsChanChar_iff IsChanPrefix_iff IsSpace_iff letter_code_def digit_code_def

declare char_class_iffs [code]

section \<open>Case-insensitive comparison\<close>

text \<open>
  \<open>irccmp\<close> walks both strings while the folded bytes agree and stops at the first
  difference or at the common terminator; its value is the difference of the folded bytes.
\<close>

fun irccmp :: "cstring \<Rightarrow> cstring \<Rightarrow> int" where
  "irccmp [] [] = 0"
| "irccmp [] (d # t) = - int (of_char (ToUpper d))"
| "irccmp (c # s) [] = int (of_char (ToUpper c))"
| "irccmp (c # s) (d # t) =
     (let res = int (of_char (ToUpper c)) - int (of_char (ToUpper d))
      in if res \<noteq> 0 then res else irccmp s t)"

definition irc_fold :: "cstring \<Rightarrow> cstring" where
  "irc_fold s = map ToUpper s"

lemma ToUpper_NUL_iff: "(of_char (ToUpper c) :: nat) = 0 \<longleftrightarrow> c = NUL"
proof -
  have "(of_char NUL :: nat) = 0" by simp
  then have "(of_char (ToUpper c) :: nat) = 0 \<longleftrightarrow> ToUpper c = NUL"
    by (metis of_char_eq_iff)
  then show ?thesis by (simp add: ToUpper_eq_fixed)
qed

lemma irccmp_0_iff:
  "nul_free s \<Longrightarrow> nul_free t \<Longrightarrow> irccmp s t = 0 \<longleftrightarrow> irc_fold s = irc_fold t"
  by (induction s t rule: irccmp.induct)
     (auto simp: irc_fold_def Let_def ToUpper_NUL_iff)

end
