(* ===== verification/Match.thy ===== *)
theory Match
  imports Chars
begin

unbundle bit_operations_syntax

text \<open>
  Wildcard matching, \<open>src/match.c\<close>: the loops of \<open>match\<close> and \<open>mask_match\<close> as a step
  function on the loop's five variables, run for at most \<open>MATCH_MAX_CALLS\<close> steps as in
  the source, and \<open>glob\<close>, the declarative meaning of a mask. The lemmas show that one
  step keeps the value of \<open>glob\<close> for what is left to match, that every pointer stays
  inside its string, and that the number of steps is bounded; the theorems on \<open>match\<close>
  and \<open>mask_match\<close> are instances.
\<close>

section \<open>The loop\<close>

text \<open>
  The local variables \<open>m\<close>, \<open>n\<close>, \<open>ma\<close>, \<open>na\<close> (indices into mask and name) and \<open>wild\<close>.
\<close>

record match_state =
  mt_m :: nat
  mt_n :: nat
  mt_ma :: nat
  mt_na :: nat
  mt_wild :: bool

definition MATCH_MAX_CALLS :: nat where
  "MATCH_MAX_CALLS = 512"

text \<open>\<open>while(*m == '*') m++;\<close>\<close>

function skip_stars :: "cstring \<Rightarrow> nat \<Rightarrow> nat" where
  "skip_stars s i = (if char_at s i = CHR ''*'' then skip_stars s (Suc i) else i)"
  by pat_completeness auto
termination
  by (relation "measure (\<lambda>(s, i). length s - i)") (auto simp: char_at_def split: if_splits)

declare skip_stars.simps [simp del]

text \<open>
  \<open>for(m--; (m > mask) && (*m == '?'); m--);\<close> from a position \<open>m\<close> that was just
  decremented, and the test \<open>*m == '*' && m > mask\<close> that follows it. For an empty mask
  the decrement leaves the string; the comparison \<open>m > mask\<close> then makes the test false.
\<close>

fun back_qmarks :: "cstring \<Rightarrow> nat \<Rightarrow> nat" where
  "back_qmarks s 0 = 0"
| "back_qmarks s (Suc i) = (if char_at s (Suc i) = CHR ''?'' then back_qmarks s i else Suc i)"

definition tail_star :: "cstring \<Rightarrow> nat \<Rightarrow> bool" where
  "tail_star pat m =
     (case m of
        0 \<Rightarrow> False
      | Suc i \<Rightarrow> let j = back_qmarks pat i in char_at pat j = CHR ''*'' \<and> 0 < j)"

text \<open>
  The comparison at the end of the loop body. \<open>ceq c d\<close> says that mask character \<open>c\<close>
  accepts name character \<open>d\<close>. \<open>Inl\<close> is a return value, \<open>Inr\<close> the state of the next
  iteration.
\<close>

definition wild_cmp ::
  "(char \<Rightarrow> char \<Rightarrow> bool) \<Rightarrow> cstring \<Rightarrow> cstring \<Rightarrow> match_state \<Rightarrow> bool + match_state" where
  "wild_cmp ceq pat name s =
     (if \<not> ceq (char_at pat (mt_m s)) (char_at name (mt_n s)) then
        (if \<not> mt_wild s then Inl False
         else Inr (s\<lparr>mt_m := mt_ma s, mt_n := Suc (mt_na s), mt_na := Suc (mt_na s)\<rparr>))
      else Inr (s\<lparr>
        mt_m := (if char_at pat (mt_m s) \<noteq> NUL then Suc (mt_m s) else mt_m s),
        mt_n := (if char_at name (mt_n s) \<noteq> NUL then Suc (mt_n s) else mt_n s)\<rparr>))"

text \<open>The first block of the body: a run of stars becomes the new restart point.\<close>

definition wild_star :: "cstring \<Rightarrow> match_state \<Rightarrow> match_state" where
  "wild_star pat s =
     (if char_at pat (mt_m s) = CHR ''*'' then
        (let j = skip_stars pat (mt_m s)
         in s\<lparr>mt_m := j, mt_wild := True, mt_ma := j, mt_na := mt_n s\<rparr>)
      else s)"

text \<open>
  The whole body. \<open>tail\<close> says whether the shortcut for a mask that ends in a star and
  question marks is present: \<open>match\<close> has it, \<open>mask_match\<close> has not.
\<close>

definition wild_step ::
  "(char \<Rightarrow> char \<Rightarrow> bool) \<Rightarrow> bool \<Rightarrow> cstring \<Rightarrow> cstring \<Rightarrow> match_state \<Rightarrow> bool + match_state" where
  "wild_step ceq tail pat name s0 =
     (let s = wild_star pat s0 in
      if char_at pat (mt_m s) = NUL then
        (if char_at name (mt_n s) = NUL then Inl True
         else if tail \<and> tail_star pat (mt_m s) then Inl True
         else if \<not> mt_wild s then Inl False
         else wild_cmp ceq pat name
                (s\<lparr>mt_m := mt_ma s, mt_n := Suc (mt_na s), mt_na := Suc (mt_na s)\<rparr>))
      else if char_at name (mt_n s) = NUL then
        Inl (char_at pat (skip_stars pat (mt_m s)) = NUL)
      else wild_cmp ceq pat name s)"

text \<open>\<open>while(calls++ < MATCH_MAX_CALLS)\<close>, and \<open>return 0\<close> after it.\<close>

fun wild_loop ::
  "(char \<Rightarrow> char \<Rightarrow> bool) \<Rightarrow> bool \<Rightarrow> cstring \<Rightarrow> cstring \<Rightarrow> nat \<Rightarrow> match_state \<Rightarrow> bool" where
  "wild_loop ceq tail pat name 0 s = False"
| "wild_loop ceq tail pat name (Suc calls) s =
     (case wild_step ceq tail pat name s of
        Inl r \<Rightarrow> r
      | Inr s' \<Rightarrow> wild_loop ceq tail pat name calls s')"

definition match_init :: match_state where
  "match_init = \<lparr>mt_m = 0, mt_n = 0, mt_ma = 0, mt_na = 0, mt_wild = False\<rparr>"

text \<open>\<open>ToLower(*m) != ToLower(*n) && *m != '?'\<close>, negated.\<close>

definition match_ceq :: "char \<Rightarrow> char \<Rightarrow> bool" where
  "match_ceq c d = (ToLower c = ToLower d \<or> c = CHR ''?'')"

text \<open>\<open>ToLower(*m) != ToLower(*n) && (*m != '?' || *n == '*')\<close>, negated.\<close>

definition mask_match_ceq :: "char \<Rightarrow> char \<Rightarrow> bool" where
  "mask_match_ceq c d = (ToLower c = ToLower d \<or> (c = CHR ''?'' \<and> d \<noteq> CHR ''*''))"

definition match :: "cstring \<Rightarrow> cstring \<Rightarrow> bool" where
  "match pat name =
     (if char_at pat 0 = CHR ''*'' \<and> char_at pat 1 = NUL then True
      else wild_loop match_ceq True pat name MATCH_MAX_CALLS match_init)"

definition mask_match :: "cstring \<Rightarrow> cstring \<Rightarrow> bool" where
  "mask_match pat name =
     (if char_at pat 0 = CHR ''*'' \<and> char_at pat 1 = NUL then True
      else wild_loop mask_match_ceq False pat name MATCH_MAX_CALLS match_init)"

section \<open>The meaning of a pat\<close>

text \<open>A star stands for any string, any other mask character for one accepted character.\<close>

fun glob :: "(char \<Rightarrow> char \<Rightarrow> bool) \<Rightarrow> cstring \<Rightarrow> cstring \<Rightarrow> bool" where
  "glob ceq [] n = (n = [])"
| "glob ceq (c # m) [] = (c = CHR ''*'' \<and> glob ceq m [])"
| "glob ceq (c # m) (d # n) =
     (if c = CHR ''*'' then glob ceq m (d # n) \<or> glob ceq (c # m) n
      else ceq c d \<and> glob ceq m n)"

abbreviation star_free :: "cstring \<Rightarrow> bool" where
  "star_free s \<equiv> CHR ''*'' \<notin> set s"

lemma glob_star: "glob ceq (CHR ''*'' # m) n \<longleftrightarrow> (\<exists>k \<le> length n. glob ceq m (drop k n))"
proof (induction n)
  case Nil
  then show ?case by simp
next
  case (Cons d n)
  show ?case
  proof
    assume "glob ceq (CHR ''*'' # m) (d # n)"
    then consider "glob ceq m (d # n)" | "\<exists>k \<le> length n. glob ceq m (drop k n)"
      using Cons.IH by auto
    then show "\<exists>k \<le> length (d # n). glob ceq m (drop k (d # n))"
    proof cases
      case 1
      then show ?thesis by (intro exI [of _ 0]) simp
    next
      case 2
      then obtain k where "k \<le> length n" "glob ceq m (drop k n)" by blast
      then show ?thesis by (intro exI [of _ "Suc k"]) simp
    qed
  next
    assume "\<exists>k \<le> length (d # n). glob ceq m (drop k (d # n))"
    then obtain k where k: "k \<le> length (d # n)" "glob ceq m (drop k (d # n))" by blast
    then show "glob ceq (CHR ''*'' # m) (d # n)"
      using Cons.IH by (cases k) auto
  qed
qed

lemma glob_star_drop:
  "glob ceq (CHR ''*'' # m) (drop k n) \<Longrightarrow> glob ceq (CHR ''*'' # m) n"
proof -
  assume "glob ceq (CHR ''*'' # m) (drop k n)"
  then obtain j where "j \<le> length n - k" "glob ceq m (drop (j + k) n)"
    by (auto simp: glob_star)
  then show ?thesis
    by (cases "k \<le> length n")
       (auto simp: glob_star intro: exI [of _ "j + k"] exI [of _ "length n"])
qed

lemma glob_star_star [simp]:
  "glob ceq (CHR ''*'' # CHR ''*'' # m) n = glob ceq (CHR ''*'' # m) n"
proof
  assume "glob ceq (CHR ''*'' # CHR ''*'' # m) n"
  then show "glob ceq (CHR ''*'' # m) n"
    using glob_star [of ceq "CHR ''*'' # m" n] glob_star_drop by blast
next
  assume "glob ceq (CHR ''*'' # m) n"
  then show "glob ceq (CHR ''*'' # CHR ''*'' # m) n"
    using glob_star [of ceq "CHR ''*'' # m" n] by (metis drop0 le0)
qed

lemma glob_star_unfold:
  "n \<noteq> [] \<Longrightarrow> glob ceq (CHR ''*'' # m) n \<longleftrightarrow> glob ceq m n \<or> glob ceq (CHR ''*'' # m) (tl n)"
  by (cases n) auto

text \<open>A star-free prefix of the mask is matched character by character.\<close>

lemma glob_prefix:
  "star_free s \<Longrightarrow> list_all2 ceq s t \<Longrightarrow> glob ceq (s @ m) (t @ n) = glob ceq m n"
  by (induction s t rule: list_induct2') auto

lemma glob_prefixD:
  "star_free s \<Longrightarrow> glob ceq (s @ m) n \<Longrightarrow> length s \<le> length n \<and> glob ceq m (drop (length s) n)"
proof (induction s arbitrary: n)
  case Nil
  then show ?case by simp
next
  case (Cons c s)
  then show ?case by (cases n) auto
qed

lemma glob_min_length: "glob ceq m n \<Longrightarrow> length (filter (\<lambda>c. c \<noteq> CHR ''*'') m) \<le> length n"
  by (induction ceq m n rule: glob.induct) (auto split: if_splits)

text \<open>
  The heart of the algorithm: once a star-free segment was matched at its leftmost place,
  a following star may start there.
\<close>

lemma glob_leftmost:
  assumes "star_free s" "list_all2 ceq s t"
  shows "glob ceq (CHR ''*'' # s @ CHR ''*'' # m) (t @ n) = glob ceq (CHR ''*'' # m) n"
proof
  assume "glob ceq (CHR ''*'' # s @ CHR ''*'' # m) (t @ n)"
  then obtain k where "glob ceq (s @ CHR ''*'' # m) (drop k (t @ n))"
    by (auto simp: glob_star)
  then have "glob ceq (CHR ''*'' # m) (drop (length s) (drop k (t @ n)))"
    using assms(1) glob_prefixD by blast
  moreover have "drop (length s) (drop k (t @ n)) = drop k (drop (length t) (t @ n))"
    by (simp only: list_all2_lengthD [OF assms(2)] drop_drop add.commute)
  ultimately have "glob ceq (CHR ''*'' # m) (drop k n)"
    by simp
  then show "glob ceq (CHR ''*'' # m) n"
    by (rule glob_star_drop)
next
  assume "glob ceq (CHR ''*'' # m) n"
  then have "glob ceq (s @ CHR ''*'' # m) (t @ n)"
    using assms by (simp add: glob_prefix)
  then show "glob ceq (CHR ''*'' # s @ CHR ''*'' # m) (t @ n)"
    by (metis drop0 glob_star le0)
qed

section \<open>The loop invariant\<close>

text \<open>The stretch of the mask matched since the restart point, and its counterpart.\<close>

abbreviation mseg :: "cstring \<Rightarrow> match_state \<Rightarrow> cstring" where
  "mseg pat s \<equiv> take (mt_m s - mt_ma s) (drop (mt_ma s) pat)"

abbreviation nseg :: "cstring \<Rightarrow> match_state \<Rightarrow> cstring" where
  "nseg name s \<equiv> take (mt_n s - mt_na s) (drop (mt_na s) name)"

text \<open>Every pointer of the loop is inside its string (the terminator included).\<close>

definition wild_bounds :: "cstring \<Rightarrow> cstring \<Rightarrow> match_state \<Rightarrow> bool" where
  "wild_bounds pat name s =
     (mt_ma s \<le> mt_m s \<and> mt_m s \<le> length pat \<and> mt_na s \<le> mt_n s \<and> mt_n s \<le> length name \<and>
      mt_m s + mt_na s = mt_n s + mt_ma s)"

text \<open>What the loop still has to decide: the value of the whole match.\<close>

definition wild_goal ::
  "(char \<Rightarrow> char \<Rightarrow> bool) \<Rightarrow> cstring \<Rightarrow> cstring \<Rightarrow> match_state \<Rightarrow> bool" where
  "wild_goal ceq pat name s =
     (if mt_wild s then glob ceq (CHR ''*'' # drop (mt_ma s) pat) (drop (mt_na s) name)
      else glob ceq pat name)"

definition wild_inv ::
  "(char \<Rightarrow> char \<Rightarrow> bool) \<Rightarrow> cstring \<Rightarrow> cstring \<Rightarrow> match_state \<Rightarrow> bool" where
  "wild_inv ceq pat name s =
     (wild_bounds pat name s \<and>
      list_all2 ceq (mseg pat s) (nseg name s) \<and> star_free (mseg pat s) \<and>
      (if mt_wild s then 0 < mt_ma s \<and> char_at pat (mt_ma s - 1) = CHR ''*''
       else mt_ma s = 0 \<and> mt_na s = 0) \<and>
      glob ceq pat name = wild_goal ceq pat name s)"

text \<open>The number of iterations left, at most.\<close>

definition wild_measure :: "cstring \<Rightarrow> cstring \<Rightarrow> match_state \<Rightarrow> nat" where
  "wild_measure pat name s =
     (length name - mt_na s) * (length pat + 2) + (length pat - mt_m s)"

lemmas wild_defs = wild_inv_def wild_bounds_def wild_goal_def

lemma drop_seg:
  "a \<le> b \<Longrightarrow> drop a xs = take (b - a) (drop a xs) @ drop b xs"
  by (metis append_take_drop_id drop_drop le_add_diff_inverse2)

lemma wild_inv_drops:
  assumes "wild_inv ceq pat name s"
  shows "drop (mt_ma s) pat = mseg pat s @ drop (mt_m s) pat"
    and "drop (mt_na s) name = nseg name s @ drop (mt_n s) name"
proof -
  have "mt_ma s \<le> mt_m s" "mt_na s \<le> mt_n s" using assms by (simp_all add: wild_defs)
  then show "drop (mt_ma s) pat = mseg pat s @ drop (mt_m s) pat"
    and "drop (mt_na s) name = nseg name s @ drop (mt_n s) name"
    by (simp_all only: drop_seg [symmetric])
qed

text \<open>At the restart point itself the rest of the match is what follows the segment.\<close>

lemma glob_at_restart:
  assumes "wild_inv ceq pat name s"
  shows "glob ceq (drop (mt_ma s) pat) (drop (mt_na s) name) =
         glob ceq (drop (mt_m s) pat) (drop (mt_n s) name)"
proof -
  have "star_free (mseg pat s)" "list_all2 ceq (mseg pat s) (nseg name s)"
    using assms by (simp_all add: wild_inv_def)
  then have "glob ceq (mseg pat s @ drop (mt_m s) pat) (nseg name s @ drop (mt_n s) name) =
      glob ceq (drop (mt_m s) pat) (drop (mt_n s) name)"
    by (rule glob_prefix)
  then show ?thesis by (simp only: wild_inv_drops [OF assms, symmetric])
qed

lemma wild_goal_here:
  assumes "wild_inv ceq pat name s" "\<not> mt_wild s"
  shows "glob ceq pat name = glob ceq (drop (mt_m s) pat) (drop (mt_n s) name)"
  using glob_at_restart [OF assms(1)] assms by (simp add: wild_inv_def)

text \<open>Moving the restart point one name character on, when it cannot match here.\<close>

lemma wild_restart:
  assumes inv: "wild_inv ceq pat name s" and w: "mt_wild s"
    and no: "\<not> glob ceq (drop (mt_m s) pat) (drop (mt_n s) name)" and lt: "mt_na s < length name"
  shows "wild_inv ceq pat name
           (s\<lparr>mt_m := mt_ma s, mt_n := Suc (mt_na s), mt_na := Suc (mt_na s)\<rparr>)"
proof -
  have "glob ceq (CHR ''*'' # drop (mt_ma s) pat) (drop (mt_na s) name) =
        glob ceq (CHR ''*'' # drop (mt_ma s) pat) (tl (drop (mt_na s) name))"
    using glob_star_unfold [of "drop (mt_na s) name" ceq "drop (mt_ma s) pat"]
      glob_at_restart [OF inv] no lt by simp
  then show ?thesis
    using inv w lt by (auto simp: wild_defs tl_drop drop_Suc)
qed

lemma wild_measure_mono:
  "mt_na s \<le> mt_na t \<Longrightarrow> mt_m s \<le> mt_m t \<Longrightarrow> wild_measure pat name t \<le> wild_measure pat name s"
  unfolding wild_measure_def by (intro add_mono mult_le_mono1) auto

lemma wild_restart_measure:
  "mt_na s < length name \<Longrightarrow>
   wild_measure pat name (s\<lparr>mt_m := mt_ma s, mt_n := Suc (mt_na s), mt_na := Suc (mt_na s)\<rparr>)
   < wild_measure pat name s"
proof -
  assume lt: "mt_na s < length name"
  then obtain k where "length name - mt_na s = Suc k" "length name - Suc (mt_na s) = k"
    by (metis Suc_diff_Suc)
  then show ?thesis by (simp add: wild_measure_def)
qed

section \<open>One iteration\<close>

lemma star_in_range: "char_at s i = CHR ''*'' \<Longrightarrow> i < length s"
  by (rule char_at_neq_NUL) simp

lemma skip_stars_le: "i \<le> length s \<Longrightarrow> i \<le> skip_stars s i \<and> skip_stars s i \<le> length s"
proof (induction s i rule: skip_stars.induct)
  case (1 s i)
  show ?case
  proof (cases "char_at s i = CHR ''*''")
    case True
    then have "Suc i \<le> length s" by (simp add: star_in_range Suc_leI)
    with "1.IH" [OF True] have "Suc i \<le> skip_stars s (Suc i) \<and> skip_stars s (Suc i) \<le> length s"
      by blast
    with True show ?thesis by (simp add: skip_stars.simps [of s i])
  next
    case False
    with "1.prems" show ?thesis by (simp add: skip_stars.simps [of s i])
  qed
qed

lemma skip_stars_stop: "char_at s (skip_stars s i) \<noteq> CHR ''*''"
proof (induction s i rule: skip_stars.induct)
  case (1 s i)
  then show ?case
    by (cases "char_at s i = CHR ''*''") (simp_all add: skip_stars.simps [of s i])
qed

lemma skip_stars_id: "char_at s i \<noteq> CHR ''*'' \<Longrightarrow> skip_stars s i = i"
  by (simp add: skip_stars.simps)

lemma skip_stars_prev:
  "char_at s i = CHR ''*'' \<Longrightarrow>
   i < skip_stars s i \<and> char_at s (skip_stars s i - 1) = CHR ''*''"
proof (induction s i rule: skip_stars.induct)
  case (1 s i)
  have eq: "skip_stars s i = skip_stars s (Suc i)"
    using "1.prems" by (simp add: skip_stars.simps [of s i])
  show ?case
  proof (cases "char_at s (Suc i) = CHR ''*''")
    case True
    with "1.IH" "1.prems" eq show ?thesis by simp
  next
    case False
    with "1.prems" eq show ?thesis by (simp add: skip_stars_id)
  qed
qed

lemma glob_skip_stars_aux:
  "glob ceq (CHR ''*'' # drop i s) n = glob ceq (CHR ''*'' # drop (skip_stars s i) s) n"
proof (induction s i rule: skip_stars.induct)
  case (1 s i)
  show ?case
  proof (cases "char_at s i = CHR ''*''")
    case True
    then have "drop i s = CHR ''*'' # drop (Suc i) s"
      using drop_eq_Cons_char_at [of i s] star_in_range by simp
    with "1.IH" [OF True] True show ?thesis by (simp add: skip_stars.simps [of s i])
  next
    case False
    then show ?thesis by (simp add: skip_stars_id)
  qed
qed

lemma glob_skip_stars:
  assumes "char_at s i = CHR ''*''"
  shows "glob ceq (drop i s) n = glob ceq (CHR ''*'' # drop (skip_stars s i) s) n"
proof -
  have "drop i s = CHR ''*'' # drop (Suc i) s"
    using drop_eq_Cons_char_at [of i s] star_in_range [OF assms] assms by simp
  moreover have "skip_stars s i = skip_stars s (Suc i)"
    using assms by (simp add: skip_stars.simps [of s i])
  ultimately show ?thesis using glob_skip_stars_aux [of ceq "Suc i" s n] by simp
qed

lemma wild_star_goal:
  assumes inv: "wild_inv ceq pat name s" and star: "char_at pat (mt_m s) = CHR ''*''"
  shows "glob ceq pat name =
         glob ceq (CHR ''*'' # drop (skip_stars pat (mt_m s)) pat) (drop (mt_n s) name)"
proof (cases "mt_wild s")
  case False
  then show ?thesis using wild_goal_here [OF inv] glob_skip_stars [OF star] by simp
next
  case True
  let ?r = "drop (Suc (mt_m s)) pat"
  have r: "drop (mt_m s) pat = CHR ''*'' # ?r"
    using drop_eq_Cons_char_at [of "mt_m s" pat] star_in_range [OF star] star by simp
  have "glob ceq pat name =
      glob ceq (CHR ''*'' # mseg pat s @ CHR ''*'' # ?r) (nseg name s @ drop (mt_n s) name)"
    using inv True r wild_inv_drops [OF inv] by (simp add: wild_inv_def wild_goal_def)
  also have "\<dots> = glob ceq (drop (mt_m s) pat) (drop (mt_n s) name)"
    unfolding r by (rule glob_leftmost) (use inv in \<open>simp_all add: wild_inv_def\<close>)
  finally show ?thesis using glob_skip_stars [OF star] by simp
qed

lemma wild_star_inv:
  assumes inv: "wild_inv ceq pat name s"
  shows "wild_inv ceq pat name (wild_star pat s)"
    and "char_at pat (mt_m (wild_star pat s)) \<noteq> CHR ''*''"
    and "wild_measure pat name (wild_star pat s) \<le> wild_measure pat name s"
proof -
  show "char_at pat (mt_m (wild_star pat s)) \<noteq> CHR ''*''"
    by (simp add: wild_star_def Let_def skip_stars_stop)
  have "wild_inv ceq pat name (wild_star pat s) \<and>
    wild_measure pat name (wild_star pat s) \<le> wild_measure pat name s"
  proof (cases "char_at pat (mt_m s) = CHR ''*''")
    case True
    let ?j = "skip_stars pat (mt_m s)"
    have j: "mt_m s < ?j" "?j \<le> length pat" "char_at pat (?j - 1) = CHR ''*''"
      using skip_stars_prev [OF True] skip_stars_le [of "mt_m s" pat] star_in_range [OF True]
      by auto
    have "mt_na s \<le> mt_n s" using inv by (simp add: wild_defs)
    then have "wild_measure pat name (wild_star pat s) \<le> wild_measure pat name s"
      using True j by (intro wild_measure_mono) (auto simp: wild_star_def Let_def)
    moreover have "wild_inv ceq pat name (wild_star pat s)"
      using inv True j wild_star_goal [OF inv True]
      by (simp add: wild_star_def Let_def wild_defs)
    ultimately show ?thesis by simp
  next
    case False
    then show ?thesis using inv by (simp add: wild_star_def)
  qed
  then show "wild_inv ceq pat name (wild_star pat s)"
    and "wild_measure pat name (wild_star pat s) \<le> wild_measure pat name s" by simp_all
qed

text \<open>
  What the comparison needs of \<open>ceq\<close>: a terminator accepts only a terminator.
\<close>

definition nul_strict :: "(char \<Rightarrow> char \<Rightarrow> bool) \<Rightarrow> bool" where
  "nul_strict ceq = (\<forall>d. ceq NUL d \<longleftrightarrow> d = NUL)"

lemma wild_advance:
  assumes inv: "wild_inv ceq pat name s" and m: "mt_m s < length pat" and n: "mt_n s < length name"
    and ns: "char_at pat (mt_m s) \<noteq> CHR ''*''"
    and eq: "ceq (char_at pat (mt_m s)) (char_at name (mt_n s))"
  shows "wild_inv ceq pat name (s\<lparr>mt_m := Suc (mt_m s), mt_n := Suc (mt_n s)\<rparr>)"
proof -
  have b: "mt_ma s \<le> mt_m s" "mt_na s \<le> mt_n s" using inv by (simp_all add: wild_defs)
  then have "take (Suc (mt_m s) - mt_ma s) (drop (mt_ma s) pat) = mseg pat s @ [char_at pat (mt_m s)]"
    and "take (Suc (mt_n s) - mt_na s) (drop (mt_na s) name) = nseg name s @ [char_at name (mt_n s)]"
    using m n by (simp_all add: Suc_diff_le take_Suc_conv_app_nth char_at_def)
  then show ?thesis
    using inv m n ns eq b by (auto simp: wild_defs list_all2_appendI)
qed

lemma wild_cmp_step:
  assumes inv: "wild_inv ceq pat name s" and ns: "char_at pat (mt_m s) \<noteq> CHR ''*''"
    and nf: "nul_free pat" "nul_free name" and strict: "nul_strict ceq"
    and pos: "mt_m s < length pat \<and> mt_n s < length name \<or> mt_wild s \<and> mt_m s = length pat \<and> mt_n s = mt_na s"
  shows "case wild_cmp ceq pat name s of
           Inl r \<Rightarrow> r = glob ceq pat name
         | Inr t \<Rightarrow> wild_inv ceq pat name t \<and>
             (wild_measure pat name t < wild_measure pat name s \<or>
              t = s \<and> mt_m s = length pat \<and> mt_n s = length name)"
proof (cases "mt_m s < length pat \<and> mt_n s < length name")
  case True
  then have d: "drop (mt_m s) pat = char_at pat (mt_m s) # drop (Suc (mt_m s)) pat"
    "drop (mt_n s) name = char_at name (mt_n s) # drop (Suc (mt_n s)) name"
    by (simp_all add: drop_eq_Cons_char_at)
  have nn: "char_at pat (mt_m s) \<noteq> NUL" "char_at name (mt_n s) \<noteq> NUL"
    using True nf by (simp_all add: char_at_NUL_iff)
  have na: "mt_na s < length name" using inv True by (simp add: wild_defs)
  show ?thesis
  proof (cases "ceq (char_at pat (mt_m s)) (char_at name (mt_n s))")
    case eq: True
    have "wild_measure pat name (s\<lparr>mt_m := Suc (mt_m s), mt_n := Suc (mt_n s)\<rparr>)
        < wild_measure pat name s"
      using True by (simp add: wild_measure_def) linarith
    then show ?thesis
      using wild_advance [OF inv _ _ ns eq] True eq nn by (simp add: wild_cmp_def)
  next
    case neq: False
    then have no: "\<not> glob ceq (drop (mt_m s) pat) (drop (mt_n s) name)"
      using ns by (simp add: d)
    then show ?thesis
      using neq wild_restart [OF inv _ no na] wild_restart_measure [OF na] wild_goal_here [OF inv]
      by (simp add: wild_cmp_def)
  qed
next
  case False
  with pos have w: "mt_wild s" "mt_m s = length pat" "mt_n s = mt_na s" by auto
  show ?thesis
  proof (cases "mt_n s = length name")
    case True
    then have "wild_cmp ceq pat name s = Inr s"
      using w strict by (cases s) (simp add: wild_cmp_def nul_strict_def char_at_ge)
    then show ?thesis using True w inv by simp
  next
    case neq: False
    with inv have na: "mt_na s < length name" using w by (simp add: wild_defs)
    then have "\<not> ceq NUL (char_at name (mt_n s))"
      using nf strict w by (simp add: nul_strict_def char_at_NUL_iff)
    moreover have "\<not> glob ceq (drop (mt_m s) pat) (drop (mt_n s) name)"
      using w na by simp
    ultimately show ?thesis
      using w wild_restart [OF inv w(1) _ na] wild_restart_measure [OF na]
      by (simp add: wild_cmp_def)
  qed
qed

text \<open>The shortcut for a mask that ends in a star and question marks is sound.\<close>

lemma back_qmarks_le: "back_qmarks s i \<le> i"
  by (induction i) auto

lemma back_qmarks_between: "back_qmarks s i < k \<Longrightarrow> k \<le> i \<Longrightarrow> char_at s k = CHR ''?''"
  by (induction i) (auto simp: le_Suc_eq split: if_splits)

lemma glob_qmarks:
  "\<forall>c \<in> set m. c = CHR ''?'' \<Longrightarrow> \<forall>d. d \<noteq> NUL \<longrightarrow> ceq (CHR ''?'') d \<Longrightarrow> nul_free n \<Longrightarrow>
   length n = length m \<Longrightarrow> glob ceq m n"
proof (induction m arbitrary: n)
  case Nil
  then show ?case by simp
next
  case (Cons c m)
  then show ?case by (cases n) auto
qed

lemma tail_star_glob:
  assumes inv: "wild_inv ceq pat name s" and ts: "tail_star pat (mt_m s)"
    and m: "mt_m s = length pat" and nf: "nul_free name"
    and q: "\<forall>d. d \<noteq> NUL \<longrightarrow> ceq (CHR ''?'') d"
  shows "glob ceq pat name"
proof -
  obtain i where i: "mt_m s = Suc i" using ts by (auto simp: tail_star_def split: nat.splits)
  define j where "j = back_qmarks pat i"
  have j: "char_at pat j = CHR ''*''" "0 < j" "j \<le> i"
    using ts i back_qmarks_le [of pat i] by (simp_all add: tail_star_def j_def Let_def)
  have seg: "drop (mt_ma s) pat = mseg pat s" and sf: "star_free (mseg pat s)"
    using wild_inv_drops(1) [OF inv] m inv by (simp_all add: wild_inv_def)
  have "j < mt_ma s"
  proof (rule ccontr)
    assume "\<not> j < mt_ma s"
    then have "char_at pat j \<in> set (drop (mt_ma s) pat)"
      using j i m by (auto simp: char_at_def in_set_conv_nth intro!: exI [of _ "j - mt_ma s"])
    then show False using sf seg j by simp
  qed
  then have w: "mt_wild s" and ma: "mt_ma s \<le> length pat"
    using inv m by (auto simp: wild_defs split: if_splits)
  have qs: "\<forall>c \<in> set (drop (mt_ma s) pat). c = CHR ''?''"
  proof
    fix c assume "c \<in> set (drop (mt_ma s) pat)"
    then obtain k where "k < length (drop (mt_ma s) pat)" "c = drop (mt_ma s) pat ! k"
      by (metis in_set_conv_nth)
    then have "mt_ma s + k < length pat" "c = char_at pat (mt_ma s + k)"
      using ma by (auto simp: char_at_def)
    then show "c = CHR ''?''"
      using back_qmarks_between [of pat i "mt_ma s + k"] \<open>j < mt_ma s\<close> i m by (simp add: j_def)
  qed
  define k where "k = length (drop (mt_na s) name) - length (drop (mt_ma s) pat)"
  have len: "length (drop (mt_ma s) pat) \<le> length (drop (mt_na s) name)"
    using inv m by (simp add: wild_defs) arith
  then have "glob ceq (drop (mt_ma s) pat) (drop k (drop (mt_na s) name))"
    using nf set_drop_subset [of "k + mt_na s" name]
    by (intro glob_qmarks qs q) (auto simp: k_def nul_free_def)
  then have "glob ceq (CHR ''*'' # drop (mt_ma s) pat) (drop (mt_na s) name)"
    unfolding glob_star by (intro exI [of _ k]) (simp add: k_def)
  then show ?thesis using inv w by (simp add: wild_inv_def wild_goal_def)
qed

text \<open>Mask left over at the end of the name: no match.\<close>

lemma name_end_glob:
  assumes inv: "wild_inv ceq pat name s" and m: "mt_m s < length pat"
    and ns: "char_at pat (mt_m s) \<noteq> CHR ''*''" and n: "mt_n s = length name"
  shows "\<not> glob ceq pat name"
proof (cases "mt_wild s")
  case False
  then show ?thesis
    using wild_goal_here [OF inv] drop_eq_Cons_char_at [OF m] ns n by simp
next
  case True
  let ?ne = "filter (\<lambda>c. c \<noteq> CHR ''*'')"
  have "drop (mt_ma s) pat = mseg pat s @ char_at pat (mt_m s) # drop (Suc (mt_m s)) pat"
    using wild_inv_drops(1) [OF inv] drop_eq_Cons_char_at [OF m] by simp
  then have "?ne (drop (mt_ma s) pat) =
      ?ne (mseg pat s @ char_at pat (mt_m s) # drop (Suc (mt_m s)) pat)"
    by (rule arg_cong)
  also have "\<dots> = ?ne (mseg pat s) @ char_at pat (mt_m s) # ?ne (drop (Suc (mt_m s)) pat)"
    using ns by simp
  finally have "length (?ne (mseg pat s)) < length (?ne (drop (mt_ma s) pat))"
    by simp
  moreover have "?ne (mseg pat s) = mseg pat s"
    using inv by (auto simp: wild_inv_def filter_id_conv)
  moreover have "length (mseg pat s) = length (drop (mt_na s) name)"
    using inv m n by (simp add: wild_defs) arith
  ultimately have "length (drop (mt_na s) name) < length (?ne (CHR ''*'' # drop (mt_ma s) pat))"
    by simp
  then have "\<not> glob ceq (CHR ''*'' # drop (mt_ma s) pat) (drop (mt_na s) name)"
    using glob_min_length by (metis not_le)
  then show ?thesis using inv True by (simp add: wild_inv_def wild_goal_def)
qed

text \<open>The character at the restart point is not a star, once the mask is past it.\<close>

lemma restart_not_star:
  assumes inv: "wild_inv ceq pat name s" and ns: "char_at pat (mt_m s) \<noteq> CHR ''*''"
  shows "char_at pat (mt_ma s) \<noteq> CHR ''*''"
proof (cases "mt_ma s = mt_m s")
  case True
  with ns show ?thesis by simp
next
  case False
  then have "mt_ma s < mt_m s" "mt_m s \<le> length pat" using inv by (simp_all add: wild_defs)
  then have "char_at pat (mt_ma s) \<in> set (mseg pat s)"
    by (auto simp: char_at_def in_set_conv_nth intro!: exI [of _ 0])
  then show ?thesis using inv by (auto simp: wild_inv_def)
qed

text \<open>One iteration returns the right answer or keeps the invariant and makes progress.\<close>

lemma wild_step_correct:
  assumes inv: "wild_inv ceq pat name s" and nf: "nul_free pat" "nul_free name"
    and strict: "nul_strict ceq" and q: "tail \<longrightarrow> (\<forall>d. d \<noteq> NUL \<longrightarrow> ceq (CHR ''?'') d)"
  shows "case wild_step ceq tail pat name s of
           Inl r \<Rightarrow> r = glob ceq pat name
         | Inr t \<Rightarrow> wild_inv ceq pat name t \<and> wild_measure pat name t < wild_measure pat name s"
proof -
  define u where "u = wild_star pat s"
  have u: "wild_inv ceq pat name u" "char_at pat (mt_m u) \<noteq> CHR ''*''"
    and mu: "wild_measure pat name u \<le> wild_measure pat name s"
    unfolding u_def using wild_star_inv [OF inv] by blast+
  have b: "mt_m u \<le> length pat" "mt_n u \<le> length name" "mt_na u \<le> mt_n u"
    using u by (simp_all add: wild_defs)
  note ends = char_at_NUL_iff [OF nf(1) b(1)] char_at_NUL_iff [OF nf(2) b(2)]
  consider (both) "mt_m u = length pat" "mt_n u = length name"
    | (mask) "mt_m u = length pat" "mt_n u < length name"
    | (name) "mt_m u < length pat" "mt_n u = length name"
    | (none) "mt_m u < length pat" "mt_n u < length name"
    using b by linarith
  then show ?thesis
  proof cases
    case both
    have "glob ceq pat name"
    proof (cases "mt_wild u")
      case True
      have "glob ceq (drop (mt_ma u) pat) (drop (mt_na u) name)"
        using glob_at_restart [OF u(1)] both by simp
      then show ?thesis
        using u True glob_star [of ceq "drop (mt_ma u) pat" "drop (mt_na u) name"]
        by (auto simp: wild_inv_def wild_goal_def intro: exI [of _ 0])
    qed (use wild_goal_here [OF u(1)] both in simp)
    then show ?thesis using both ends by (simp add: wild_step_def u_def [symmetric])
  next
    case mask
    have no: "\<not> glob ceq (drop (mt_m u) pat) (drop (mt_n u) name)" using mask by simp
    define v where "v = u\<lparr>mt_m := mt_ma u, mt_n := Suc (mt_na u), mt_na := Suc (mt_na u)\<rparr>"
    have na: "mt_na u < length name" using mask b by simp
    show ?thesis
    proof (cases "tail \<and> tail_star pat (mt_m u)")
      case True
      then show ?thesis
        using mask ends q tail_star_glob [OF u(1) _ mask(1) nf(2)]
        by (simp add: wild_step_def u_def [symmetric])
    next
      case nt: False
      show ?thesis
      proof (cases "mt_wild u")
        case False
        then show ?thesis
          using nt mask ends no wild_goal_here [OF u(1)]
          by (simp add: wild_step_def u_def [symmetric])
      next
        case w: True
        have v: "wild_inv ceq pat name v" and mv: "wild_measure pat name v < wild_measure pat name u"
          unfolding v_def using wild_restart [OF u(1) w no na] wild_restart_measure [OF na] by blast+
        have st: "wild_step ceq tail pat name s = wild_cmp ceq pat name v"
          using nt mask ends w by (auto simp: wild_step_def u_def [symmetric] v_def)
        have nsv: "char_at pat (mt_m v) \<noteq> CHR ''*''"
          using restart_not_star [OF u(1) u(2)] by (simp add: v_def)
        have pos: "mt_m v < length pat \<and> mt_n v < length name \<or>
            mt_wild v \<and> mt_m v = length pat \<and> mt_n v = mt_na v"
          using u(1) mask w by (auto simp: wild_defs v_def)
        show ?thesis
          unfolding st using wild_cmp_step [OF v nsv nf strict pos] mv mu
          by (auto split: sum.splits)
      qed
    qed
  next
    case name
    then show ?thesis
      using ends name_end_glob [OF u(1) name(1) u(2) name(2)] skip_stars_id [OF u(2)]
      by (simp add: wild_step_def u_def [symmetric])
  next
    case none
    then have "wild_step ceq tail pat name s = wild_cmp ceq pat name u"
      using ends by (simp add: wild_step_def u_def [symmetric])
    then show ?thesis
      using wild_cmp_step [OF u nf strict] none mu by (auto split: sum.splits)
  qed
qed

section \<open>The whole loop\<close>

lemma match_init_inv: "wild_inv ceq pat name match_init"
  by (simp add: wild_defs match_init_def)

lemma match_init_measure: "wild_measure pat name match_init < (length name + 1) * (length pat + 2)"
  by (simp add: wild_measure_def match_init_def)

text \<open>The states the loop goes through, and that all of them are inside the strings.\<close>

inductive wild_reach ::
  "(char \<Rightarrow> char \<Rightarrow> bool) \<Rightarrow> bool \<Rightarrow> cstring \<Rightarrow> cstring \<Rightarrow> match_state \<Rightarrow> bool"
  for ceq tail pat name where
  start: "wild_reach ceq tail pat name match_init"
| iter: "wild_reach ceq tail pat name s \<Longrightarrow> wild_step ceq tail pat name s = Inr t \<Longrightarrow>
    wild_reach ceq tail pat name t"

text \<open>
  The contract a character comparison has to meet for the loop to decide \<open>glob\<close>: the
  terminator accepts nothing else, and where the shortcut for trailing question marks is
  present a question mark accepts every character.
\<close>

locale wild_matcher =
  fixes ceq :: "char \<Rightarrow> char \<Rightarrow> bool" and tail :: bool
  assumes strict: "nul_strict ceq"
    and qmark: "tail \<longrightarrow> (\<forall>d. d \<noteq> NUL \<longrightarrow> ceq (CHR ''?'') d)"
begin

lemma loop_sound:
  assumes nf: "nul_free pat" "nul_free name"
  shows "wild_inv ceq pat name s \<Longrightarrow> wild_loop ceq tail pat name calls s \<Longrightarrow> glob ceq pat name"
proof (induction calls arbitrary: s)
  case 0
  then show ?case by simp
next
  case (Suc calls)
  then show ?case
    using wild_step_correct [OF Suc.prems(1) nf strict qmark] by (auto split: sum.splits)
qed

lemma loop_complete:
  assumes nf: "nul_free pat" "nul_free name"
  shows "wild_inv ceq pat name s \<Longrightarrow> wild_measure pat name s < calls \<Longrightarrow>
    wild_loop ceq tail pat name calls s = glob ceq pat name"
proof (induction calls arbitrary: s)
  case 0
  then show ?case by simp
next
  case (Suc calls)
  then show ?case
    using wild_step_correct [OF Suc.prems(1) nf strict qmark] by (auto split: sum.splits)
qed

lemma reach_inv:
  assumes nf: "nul_free pat" "nul_free name"
  shows "wild_reach ceq tail pat name s \<Longrightarrow> wild_inv ceq pat name s"
proof (induction rule: wild_reach.induct)
  case start
  show ?case by (rule match_init_inv)
next
  case (iter s t)
  then show ?case using wild_step_correct [OF iter.IH nf strict qmark] by simp
qed

lemma search_complete:
  assumes "nul_free pat" "nul_free name" "(length name + 1) * (length pat + 2) \<le> calls"
  shows "wild_loop ceq tail pat name calls match_init = glob ceq pat name"
  using assms match_init_measure [of pat name] by (intro loop_complete match_init_inv) auto

end

section \<open>The two matchers\<close>

lemma match_ceq_strict: "nul_strict match_ceq"
  by (auto simp: nul_strict_def match_ceq_def ToLower_eq_fixed ToLower_fixed
      dest: sym [of NUL] sym [of "ToLower NUL"])

lemma mask_match_ceq_strict: "nul_strict mask_match_ceq"
  by (auto simp: nul_strict_def mask_match_ceq_def ToLower_eq_fixed ToLower_fixed
      dest: sym [of NUL])

lemma match_ceq_qmark: "match_ceq (CHR ''?'') d"
  by (simp add: match_ceq_def)

interpretation match_m: wild_matcher match_ceq True
  by unfold_locales (simp_all add: match_ceq_strict match_ceq_qmark)

interpretation mask_m: wild_matcher mask_match_ceq False
  by unfold_locales (simp_all add: mask_match_ceq_strict)

lemma lone_star_glob:
  assumes "nul_free pat" "char_at pat 0 = CHR ''*''" "char_at pat 1 = NUL"
  shows "glob ceq pat n"
proof -
  have "pat = ''*''"
    using assms by (cases pat; cases "tl pat") (auto simp: char_at_def split: if_splits)
  then show ?thesis by (simp add: glob_star exI [of _ "length n"])
qed

lemma match_language:
  "nul_free pat \<Longrightarrow> nul_free name \<Longrightarrow> match pat name \<Longrightarrow> glob match_ceq pat name"
  using match_m.loop_sound [OF _ _ match_init_inv] lone_star_glob
  by (auto simp: match_def split: if_splits)

lemma mask_match_language:
  "nul_free pat \<Longrightarrow> nul_free name \<Longrightarrow> mask_match pat name \<Longrightarrow> glob mask_match_ceq pat name"
  using mask_m.loop_sound [OF _ _ match_init_inv] lone_star_glob
  by (auto simp: mask_match_def split: if_splits)

text \<open>
  A mask covers another: what \<open>mask_match\<close> compares as text, \<open>glob\<close> says about the names
  the two masks accept.
\<close>

lemma mask_ceq_star: "mask_match_ceq c d \<Longrightarrow> c \<noteq> CHR ''*'' \<Longrightarrow> d \<noteq> CHR ''*''"
  using ToLower_fixed [of "CHR ''*''"] ToLower_eq_fixed [of "CHR ''*''" c]
  by (auto simp: mask_match_ceq_def)

lemma mask_ceq_trans: "mask_match_ceq c d \<Longrightarrow> match_ceq d e \<Longrightarrow> match_ceq c e"
  using ToLower_fixed [of "CHR ''?''"] ToLower_eq_fixed [of "CHR ''?''" c]
  by (auto simp: mask_match_ceq_def match_ceq_def)

lemma glob_Cons_drop: "glob ceq (d # b) n \<Longrightarrow> \<exists>k. glob ceq b (drop k n)"
proof (cases "d = CHR ''*''")
  case False
  assume "glob ceq (d # b) n"
  with False show ?thesis by (cases n) (auto intro: exI [of _ 1])
qed (auto simp: glob_star)

lemma glob_covers:
  "glob mask_match_ceq a b \<Longrightarrow> glob match_ceq b n \<Longrightarrow> glob match_ceq a n"
proof (induction mask_match_ceq a b arbitrary: n rule: glob.induct)
  case (1 b)
  then show ?case by simp
next
  case (2 c a)
  then show ?case by (cases n) auto
next
  case (3 c a d b)
  show ?case
  proof (cases "c = CHR ''*''")
    case star: True
    then consider "glob mask_match_ceq a (d # b)" | "glob mask_match_ceq (c # a) b"
      using "3.prems" by auto
    then show ?thesis
    proof cases
      case 1
      then have "glob match_ceq a n" using "3.hyps"(1) "3.prems"(2) star by blast
      then show ?thesis using star glob_star [of match_ceq a n] by (auto intro: exI [of _ 0])
    next
      case 2
      obtain k where "glob match_ceq b (drop k n)"
        using glob_Cons_drop [OF "3.prems"(2)] by blast
      then have "glob match_ceq (c # a) (drop k n)" using "3.hyps"(2) 2 star by blast
      then show ?thesis using star glob_star_drop by metis
    qed
  next
    case False
    then have eq: "mask_match_ceq c d" and tl: "glob mask_match_ceq a b"
      using "3.prems"(1) by simp_all
    have "d \<noteq> CHR ''*''" using mask_ceq_star [OF eq False] .
    then obtain e n' where "n = e # n'" "match_ceq d e" "glob match_ceq b n'"
      using "3.prems"(2) by (cases n) auto
    then show ?thesis using False "3.hyps"(3) tl mask_ceq_trans [OF eq] by simp
  qed
qed

section \<open>Properties\<close>

text \<open>
  C27. Whatever the length of the strings, a positive answer of \<open>match\<close> is right: the name
  is in the language of the mask.
\<close>

theorem match_sound:
  assumes "nul_free pat" "nul_free name" "match pat name"
  shows "glob match_ceq pat name"
  using assms by (rule match_language)

theorem match_sound_witness: "glob match_ceq ''*!*@*.EXAMPLE.org'' ''nick!user@irc.example.ORG''"
  by (rule match_sound) (simp add: nul_free_def, simp add: nul_free_def, code_simp)

text \<open>
  C28. The bound on the iterations is no restriction for masks and names whose lengths
  satisfy \<open>(|name| + 1) * (|mask| + 2) \<le> MATCH_MAX_CALLS\<close>: there \<open>match\<close> decides the
  language of the mask.
\<close>

theorem match_decides:
  assumes "nul_free pat" "nul_free name"
    and "(length name + 1) * (length pat + 2) \<le> MATCH_MAX_CALLS"
  shows "match pat name = glob match_ceq pat name"
  using match_m.search_complete [OF assms] lone_star_glob [OF assms(1)]
  by (simp add: match_def)

theorem match_decides_witness:
  "match ''*!*@*.ru'' ''bot!x@a.RU'' = glob match_ceq ''*!*@*.ru'' ''bot!x@a.RU''"
  by (rule match_decides) (simp_all add: nul_free_def MATCH_MAX_CALLS_def)

text \<open>
  Beyond that bound the loop gives up: a host name of legal length is not matched by a
  mask whose language contains it.
\<close>

theorem match_gives_up:
  "glob match_ceq (''*'' @ replicate 10 (CHR ''a'') @ ''b'') (replicate 60 (CHR ''a'') @ ''b'') \<and>
   \<not> match (''*'' @ replicate 10 (CHR ''a'') @ ''b'') (replicate 60 (CHR ''a'') @ ''b'')"
  by (rule conjI) code_simp+

text \<open>
  The loop never reads outside its strings: in every iteration both cursors and both
  restart points are at most the index of the terminator.
\<close>

theorem match_in_bounds:
  assumes "nul_free pat" "nul_free name" "wild_reach match_ceq True pat name s"
  shows "mt_ma s \<le> mt_m s \<and> mt_m s \<le> length pat \<and> mt_na s \<le> mt_n s \<and> mt_n s \<le> length name"
  using match_m.reach_inv [OF assms] by (simp add: wild_defs)

theorem match_in_bounds_witness:
  "mt_ma match_init \<le> mt_m match_init \<and> mt_m match_init \<le> length ''a*'' \<and>
   mt_na match_init \<le> mt_n match_init \<and> mt_n match_init \<le> length ''ab''"
  by (rule match_in_bounds [OF _ _ wild_reach.start]) (simp_all add: nul_free_def)

text \<open>
  \<open>mask_match\<close> as the redundancy test of the ban lists: when it says that mask \<open>a\<close>
  covers mask \<open>b\<close>, every name \<open>match\<close> accepts for \<open>b\<close> is in the language of \<open>a\<close>.
\<close>

theorem mask_match_covers:
  assumes "nul_free a" "nul_free b" "nul_free name" "mask_match a b" "match b name"
  shows "glob match_ceq a name"
  using glob_covers mask_match_language [OF assms(1,2,4)] match_language [OF assms(2,3,5)]
  by blast

theorem mask_match_covers_witness: "glob match_ceq ''*!*@*.org'' ''a!b@c.ORG''"
  by (rule mask_match_covers [of _ "''*!b@*.org''"]) (simp_all add: nul_free_def, code_simp+)

end
