(* ===== verification/Masks.thy ===== *)
theory Masks
  imports Match
begin

unbundle bit_operations_syntax

text \<open>
  The rest of the string routines of \<open>src/match.c\<close>: \<open>match_esc\<close> (wildcards with
  escapes and character classes), \<open>collapse\<close> and \<open>collapse_esc\<close> (runs of stars),
  \<open>comp_with_mask\<close> (address prefixes) and the validity checks for host, user and server
  names.
\<close>

section \<open>Matching with escapes\<close>

text \<open>The variables of \<open>match\<close> and the counter \<open>quote\<close>.\<close>

record esc_state = match_state +
  es_quote :: nat

definition esc_init :: esc_state where
  "esc_init = \<lparr>mt_m = 0, mt_n = 0, mt_ma = 0, mt_na = 0, mt_wild = False, es_quote = 0\<rparr>"

text \<open>The computation of \<open>match1\<close>.\<close>

definition esc_accepts :: "nat \<Rightarrow> char \<Rightarrow> char \<Rightarrow> bool" where
  "esc_accepts quote c d =
     (if quote \<noteq> 0 then (if c = CHR ''s'' then d = SPC else ToLower c = ToLower d)
      else if c = CHR ''?'' then True
      else if c = CHR ''@'' then IsLetter d
      else if c = CHR ''#'' then IsDigit d
      else ToLower c = ToLower d)"

definition esc_cmp :: "cstring \<Rightarrow> cstring \<Rightarrow> esc_state \<Rightarrow> bool + esc_state" where
  "esc_cmp pat name s =
     (if esc_accepts (es_quote s) (char_at pat (mt_m s)) (char_at name (mt_n s)) then
        Inr (s\<lparr>
          mt_m := (if char_at pat (mt_m s) \<noteq> NUL then Suc (mt_m s) else mt_m s),
          mt_n := (if char_at name (mt_n s) \<noteq> NUL then Suc (mt_n s) else mt_n s)\<rparr>)
      else if \<not> mt_wild s then Inl False
      else Inr (s\<lparr>mt_m := mt_ma s, mt_n := Suc (mt_na s), mt_na := Suc (mt_na s)\<rparr>))"

text \<open>The body after the escape and star blocks.\<close>

definition esc_body :: "cstring \<Rightarrow> cstring \<Rightarrow> esc_state \<Rightarrow> bool + esc_state" where
  "esc_body pat name s =
     (if char_at pat (mt_m s) = NUL then
        (if char_at name (mt_n s) = NUL then Inl True
         else if es_quote s \<noteq> 0 then Inl False
         else if tail_star pat (mt_m s) then Inl True
         else if \<not> mt_wild s then Inl False
         else esc_cmp pat name
                (s\<lparr>mt_m := mt_ma s, mt_n := Suc (mt_na s), mt_na := Suc (mt_na s)\<rparr>))
      else if char_at name (mt_n s) = NUL then
        (if es_quote s \<noteq> 0 then Inl False
         else Inl (char_at pat (skip_stars pat (mt_m s)) = NUL))
      else esc_cmp pat name s)"

text \<open>
  One iteration: the quote counter runs 1, 2 and back to 0, so that exactly one character
  is read as quoted; both \<open>continue\<close> branches spend an iteration.
\<close>

definition esc_step :: "cstring \<Rightarrow> cstring \<Rightarrow> esc_state \<Rightarrow> bool + esc_state" where
  "esc_step pat name s0 =
     (let q1 = (if es_quote s0 \<noteq> 0 then Suc (es_quote s0) else 0);
          q = (if q1 = 3 then 0 else q1);
          s = s0\<lparr>es_quote := q\<rparr>
      in if char_at pat (mt_m s) = CHR 0x5C \<and> q = 0 then
           Inr (s\<lparr>mt_m := Suc (mt_m s), es_quote := 1\<rparr>)
         else if q = 0 \<and> char_at pat (mt_m s) = CHR ''*'' then
           (let j = skip_stars pat (mt_m s);
                t = s\<lparr>mt_m := j, mt_wild := True, mt_ma := j, mt_na := mt_n s\<rparr>
            in if char_at pat j = CHR 0x5C then
                 (if char_at pat (Suc j) = NUL then Inl False
                  else Inr (t\<lparr>mt_m := Suc j, es_quote := Suc q\<rparr>))
               else esc_body pat name t)
         else esc_body pat name s)"

fun esc_loop :: "cstring \<Rightarrow> cstring \<Rightarrow> nat \<Rightarrow> esc_state \<Rightarrow> bool" where
  "esc_loop pat name 0 s = False"
| "esc_loop pat name (Suc calls) s =
     (case esc_step pat name s of Inl r \<Rightarrow> r | Inr s' \<Rightarrow> esc_loop pat name calls s')"

definition match_esc :: "cstring \<Rightarrow> cstring \<Rightarrow> bool" where
  "match_esc pat name =
     (if char_at pat 0 = CHR ''*'' \<and> char_at pat 1 = NUL then True
      else esc_loop pat name MATCH_MAX_CALLS esc_init)"

text \<open>
  Without a backslash in the mask, \<open>quote\<close> stays 0 and the loop is the one of \<open>match\<close>
  with the character classes as its comparison.
\<close>

definition class_ceq :: "char \<Rightarrow> char \<Rightarrow> bool" where
  "class_ceq c d = esc_accepts 0 c d"

lemma class_ceq_strict: "nul_strict class_ceq"
  by (auto simp: nul_strict_def class_ceq_def esc_accepts_def ToLower_eq_fixed ToLower_fixed
      dest: sym [of NUL])

interpretation class_m: wild_matcher class_ceq True
  by unfold_locales (simp_all add: class_ceq_strict, simp add: class_ceq_def esc_accepts_def)

definition unquoted :: "match_state \<Rightarrow> esc_state" where
  "unquoted s = \<lparr>mt_m = mt_m s, mt_n = mt_n s, mt_ma = mt_ma s, mt_na = mt_na s,
     mt_wild = mt_wild s, es_quote = 0\<rparr>"

lemma no_backslash_at: "CHR 0x5C \<notin> set pat \<Longrightarrow> char_at pat i \<noteq> CHR 0x5C"
  by (auto simp: char_at_def dest: nth_mem)

lemma esc_cmp_unquoted:
  "esc_cmp pat name (unquoted s) = map_sum id unquoted (wild_cmp class_ceq pat name s)"
  by (simp add: esc_cmp_def wild_cmp_def unquoted_def class_ceq_def)

lemma esc_step_unquoted:
  assumes "CHR 0x5C \<notin> set pat"
  shows "esc_step pat name (unquoted s) = map_sum id unquoted (wild_step class_ceq True pat name s)"
proof -
  have body: "esc_body pat name (unquoted t) =
      (if char_at pat (mt_m t) = NUL then
        (if char_at name (mt_n t) = NUL then Inl True
         else if tail_star pat (mt_m t) then Inl True
         else if \<not> mt_wild t then Inl False
         else map_sum id unquoted (wild_cmp class_ceq pat name
                (t\<lparr>mt_m := mt_ma t, mt_n := Suc (mt_na t), mt_na := Suc (mt_na t)\<rparr>)))
      else if char_at name (mt_n t) = NUL then Inl (char_at pat (skip_stars pat (mt_m t)) = NUL)
      else map_sum id unquoted (wild_cmp class_ceq pat name t))" for t
    unfolding esc_cmp_unquoted [symmetric] by (simp add: esc_body_def unquoted_def)
  have "esc_step pat name (unquoted s) = esc_body pat name (unquoted (wild_star pat s))"
    using no_backslash_at [OF assms] by (simp add: esc_step_def wild_star_def unquoted_def Let_def)
  then show ?thesis by (simp add: body wild_step_def Let_def)
qed

lemma esc_loop_unquoted:
  "CHR 0x5C \<notin> set pat \<Longrightarrow>
   esc_loop pat name calls (unquoted s) = wild_loop class_ceq True pat name calls s"
  by (induction calls arbitrary: s) (simp_all add: esc_step_unquoted split: sum.split)

lemma match_esc_unquoted:
  "CHR 0x5C \<notin> set pat \<Longrightarrow> match_esc pat name =
     (if char_at pat 0 = CHR ''*'' \<and> char_at pat 1 = NUL then True
      else wild_loop class_ceq True pat name MATCH_MAX_CALLS match_init)"
  using esc_loop_unquoted [of pat name MATCH_MAX_CALLS match_init]
  by (simp add: match_esc_def unquoted_def match_init_def esc_init_def)

section \<open>Collapsing runs of stars\<close>

text \<open>
  \<open>collapse\<close>, rewriting the string in place; the flag is bit 0 of \<open>f\<close>: the last character
  kept was a star.
\<close>

fun collapse_loop :: "bool \<Rightarrow> cstring \<Rightarrow> cstring" where
  "collapse_loop f [] = []"
| "collapse_loop f (c # p) =
     (if c = CHR ''*'' then (if f then collapse_loop True p else CHR ''*'' # collapse_loop True p)
      else c # collapse_loop False p)"

definition collapse :: "cstring \<Rightarrow> cstring" where
  "collapse p = collapse_loop False p"

text \<open>\<open>collapse_esc\<close>: bit 0 (star) and bit 1 (backslash) of \<open>f\<close>.\<close>

fun collapse_esc_loop :: "bool \<Rightarrow> bool \<Rightarrow> cstring \<Rightarrow> cstring" where
  "collapse_esc_loop f1 f2 [] = []"
| "collapse_esc_loop f1 f2 (c # p) =
     (if \<not> f2 \<and> c = CHR ''*'' then
        (if f1 then collapse_esc_loop True f2 p else CHR ''*'' # collapse_esc_loop True f2 p)
      else if \<not> f2 \<and> c = CHR 0x5C then CHR 0x5C # collapse_esc_loop f1 True p
      else c # collapse_esc_loop False False p)"

definition collapse_esc :: "cstring \<Rightarrow> cstring" where
  "collapse_esc p = collapse_esc_loop False False p"

text \<open>No two adjacent stars.\<close>

fun collapsed :: "cstring \<Rightarrow> bool" where
  "collapsed (c # d # p) = (\<not> (c = CHR ''*'' \<and> d = CHR ''*'') \<and> collapsed (d # p))"
| "collapsed p = True"

lemma glob_Cons_cong:
  "(\<And>n. glob ceq a n = glob ceq b n) \<Longrightarrow> glob ceq (c # a) n = glob ceq (c # b) n"
  by (induction n) auto

lemma collapse_loop_glob:
  "glob ceq (CHR ''*'' # collapse_loop True p) n = glob ceq (CHR ''*'' # p) n \<and>
   glob ceq (collapse_loop False p) n = glob ceq p n"
proof (induction p arbitrary: n)
  case Nil
  then show ?case by simp
next
  case (Cons c p)
  have IH: "glob ceq (CHR ''*'' # collapse_loop True p) n = glob ceq (CHR ''*'' # p) n"
    "glob ceq (collapse_loop False p) n = glob ceq p n" for n
    using Cons by blast+
  have "glob ceq (c # collapse_loop False p) n = glob ceq (c # p) n" for n
    by (rule glob_Cons_cong) (rule IH)
  moreover from this have
    "glob ceq (CHR ''*'' # c # collapse_loop False p) n = glob ceq (CHR ''*'' # c # p) n"
    by (rule glob_Cons_cong)
  ultimately show ?case using IH by auto
qed

lemma collapse_loop_collapsed:
  "collapsed (CHR ''*'' # collapse_loop True p) \<and> collapsed (collapse_loop False p)"
proof (induction p)
  case Nil
  then show ?case by simp
next
  case (Cons c p)
  then show ?case by (cases "collapse_loop False p") auto
qed

lemma collapse_loop_id:
  "(collapsed (CHR ''*'' # p) \<longrightarrow> collapse_loop True p = p) \<and>
   (collapsed p \<longrightarrow> collapse_loop False p = p)"
proof (induction p)
  case Nil
  then show ?case by simp
next
  case (Cons c p)
  then show ?case by (cases p) auto
qed

lemma length_collapse_loop: "length (collapse_loop f p) \<le> length p"
  by (induction f p rule: collapse_loop.induct) auto

lemma set_collapse_loop: "set (collapse_loop f p) \<subseteq> set p"
  by (induction f p rule: collapse_loop.induct) auto

lemma collapse_esc_loop_plain:
  "CHR 0x5C \<notin> set p \<Longrightarrow> collapse_esc_loop f False p = collapse_loop f p"
  by (induction f p rule: collapse_loop.induct) auto

section \<open>Address prefixes\<close>

text \<open>
  \<open>comp_with_mask\<close> on two addresses as byte arrays: \<open>memcmp\<close> of the whole bytes, then
  the leading bits of the next byte under \<open>(-1) << (8 - mask % 8)\<close>.
\<close>

type_synonym byte = "8 word"

definition comp_with_mask :: "byte list \<Rightarrow> byte list \<Rightarrow> nat \<Rightarrow> bool" where
  "comp_with_mask addr dest bits =
     (if take (bits div 8) addr = take (bits div 8) dest then
        (let n = bits div 8; m = push_bit (8 - bits mod 8) (- 1) :: byte
         in bits mod 8 = 0 \<or> (addr ! n AND m) = (dest ! n AND m))
      else False)"

text \<open>Bit \<open>i\<close> of an address in network order.\<close>

definition addr_bit :: "byte list \<Rightarrow> nat \<Rightarrow> bool" where
  "addr_bit a i = bit (a ! (i div 8)) (7 - i mod 8)"

lemma byte_eq_bits: "(a :: byte) = b \<longleftrightarrow> (\<forall>j < 8. bit a (7 - j) = bit b (7 - j))"
proof
  assume r: "\<forall>j < 8. bit a (7 - j) = bit b (7 - j)"
  show "a = b"
  proof (rule bit_word_eqI)
    fix n assume "n < LENGTH(8)"
    then show "bit a n = bit b n" using r [rule_format, of "7 - n"] by simp
  qed
qed simp

lemma byte_high_bits:
  assumes "k < 8"
  shows "(a AND push_bit (8 - k) (- 1)) = (b AND push_bit (8 - k) (- 1 :: byte)) \<longleftrightarrow>
    (\<forall>j < k. bit a (7 - j) = bit b (7 - j))"
proof -
  have m: "bit (push_bit (8 - k) (- 1 :: byte)) (7 - j) \<longleftrightarrow> j < k" if "j < 8" for j
    using assms that by (auto simp: bit_simps)
  have "(a AND push_bit (8 - k) (- 1)) = (b AND push_bit (8 - k) (- 1 :: byte)) \<longleftrightarrow>
      (\<forall>j < 8. (bit a (7 - j) \<and> j < k) = (bit b (7 - j) \<and> j < k))"
    by (simp add: byte_eq_bits bit_and_iff m del: push_bit_minus_one_eq_not_mask)
  also have "\<dots> \<longleftrightarrow> (\<forall>j < k. bit a (7 - j) = bit b (7 - j))"
    using assms by (meson order_less_trans)
  finally show ?thesis .
qed

lemma addr_bit_split: "j < 8 \<Longrightarrow> addr_bit a (8 * n + j) = bit (a ! n) (7 - j)"
  by (simp add: addr_bit_def)

lemma less_div_mod: "i < k \<longleftrightarrow> i div 8 < k div 8 \<or> (i div 8 = k div 8 \<and> i mod 8 < k mod 8)"
  for i k :: nat
proof -
  have "r < 8 \<Longrightarrow> s < 8 \<Longrightarrow> 8 * a + r < 8 * b + s \<longleftrightarrow> a < b \<or> (a = b \<and> r < s)"
    for a b r s :: nat by arith
  from this [of "i mod 8" "k mod 8" "i div 8" "k div 8"] show ?thesis by simp
qed

lemma comp_with_mask_bits_aux:
  assumes "length addr = length dest" "bits \<le> 8 * length addr"
  shows "comp_with_mask addr dest bits \<longleftrightarrow> (\<forall>i < bits. addr_bit addr i = addr_bit dest i)"
proof -
  let ?n = "bits div 8" and ?k = "bits mod 8"
  have n: "?n \<le> length addr" using assms by linarith
  have whole: "take ?n addr = take ?n dest \<longleftrightarrow>
      (\<forall>q < ?n. \<forall>j < 8. addr_bit addr (8 * q + j) = addr_bit dest (8 * q + j))"
    using n assms by (simp add: list_eq_iff_nth_eq byte_eq_bits addr_bit_split)
  have part: "?k = 0 \<or> (addr ! ?n AND push_bit (8 - ?k) (- 1)) = (dest ! ?n AND push_bit (8 - ?k) (- 1)) \<longleftrightarrow>
      (\<forall>j < ?k. addr_bit addr (8 * ?n + j) = addr_bit dest (8 * ?n + j))"
    using byte_high_bits [of ?k "addr ! ?n" "dest ! ?n"] by (auto simp: addr_bit_split)
  have "(\<forall>i < bits. P i) \<longleftrightarrow> (\<forall>q < ?n. \<forall>j < 8. P (8 * q + j)) \<and> (\<forall>j < ?k. P (8 * ?n + j))"
    for P :: "nat \<Rightarrow> bool"
  proof (intro iffI conjI allI impI)
    fix i assume l: "(\<forall>q < ?n. \<forall>j < 8. P (8 * q + j)) \<and> (\<forall>j < ?k. P (8 * ?n + j))" and i: "i < bits"
    have "P (8 * (i div 8) + i mod 8)"
      using l i less_div_mod [of i bits] by (metis mod_less_divisor zero_less_numeral)
    then show "P i" by simp
  next
    fix q j :: nat assume "\<forall>i < bits. P i" "q < ?n" "j < 8"
    moreover from this(2,3) have "8 * q + j < bits" by linarith
    ultimately show "P (8 * q + j)" by blast
  next
    fix j assume "\<forall>i < bits. P i" "j < ?k"
    moreover from this(2) have "8 * ?n + j < bits"
      using mult_div_mod_eq [of 8 bits] by linarith
    ultimately show "P (8 * ?n + j)" by blast
  qed
  then show ?thesis using whole part by (simp add: comp_with_mask_def Let_def)
qed

section \<open>Validity checks\<close>

text \<open>\<open>valid_hostname\<close>: no leading separator, only host characters, some separator.\<close>

definition is_sep :: "char \<Rightarrow> bool" where
  "is_sep c = (c = CHR ''.'' \<or> c = CHR '':'')"

fun hostname_loop :: "nat \<Rightarrow> cstring \<Rightarrow> bool" where
  "hostname_loop found_sep [] = (found_sep \<noteq> 0)"
| "hostname_loop found_sep (c # p) =
     (if \<not> IsHostChar c then False
      else hostname_loop (if is_sep c then Suc found_sep else found_sep) p)"

definition valid_hostname :: "cstring \<Rightarrow> bool" where
  "valid_hostname hostname =
     (if is_sep (char_at hostname 0) then False else hostname_loop 0 hostname)"

text \<open>
  \<open>valid_username\<close>; \<open>dots_in_ident\<close> is \<open>ConfigFileEntry.dots_in_ident\<close>. The loop looks
  at the characters after the first one; \<open>p[1]\<close> of the last character is the terminator.
\<close>

fun username_loop :: "int \<Rightarrow> int \<Rightarrow> cstring \<Rightarrow> bool" where
  "username_loop dots_in_ident dots [] = True"
| "username_loop dots_in_ident dots (c # p) =
     (if c = CHR ''.'' \<and> dots_in_ident \<noteq> 0 then
        (if dots + 1 > dots_in_ident then False
         else if \<not> IsUserChar (char_at p 0) then False
         else username_loop dots_in_ident (dots + 1) p)
      else if \<not> IsUserChar c then False
      else username_loop dots_in_ident dots p)"

definition valid_username :: "int \<Rightarrow> cstring \<Rightarrow> bool" where
  "valid_username dots_in_ident username =
     (let p = (if char_at username 0 = CHR ''~'' then tl username else username)
      in if \<not> IsAlNum (char_at p 0) then False
         else username_loop dots_in_ident 0 (tl p))"

fun servername_loop :: "nat \<Rightarrow> cstring \<Rightarrow> bool" where
  "servername_loop dots [] = (dots \<noteq> 0)"
| "servername_loop dots (c # s) =
     (if \<not> IsServChar c then False
      else servername_loop (if c = CHR ''.'' then Suc dots else dots) s)"

definition valid_servername :: "cstring \<Rightarrow> bool" where
  "valid_servername s = servername_loop 0 s"

lemma hostname_loop_iff:
  "hostname_loop k p \<longleftrightarrow> (\<forall>c \<in> set p. IsHostChar c) \<and> (k \<noteq> 0 \<or> (\<exists>c \<in> set p. is_sep c))"
  by (induction p arbitrary: k) auto

lemma servername_loop_iff:
  "servername_loop k p \<longleftrightarrow> (\<forall>c \<in> set p. IsServChar c) \<and> (k \<noteq> 0 \<or> CHR ''.'' \<in> set p)"
  by (induction p arbitrary: k) auto

lemma username_loop_chars: "username_loop d k p \<Longrightarrow> \<forall>c \<in> set p. IsUserChar c"
  by (induction p arbitrary: k) (auto simp: char_class_iffs split: if_splits)

lemma username_loop_dots:
  "username_loop d k p \<Longrightarrow> d \<noteq> 0 \<Longrightarrow> k \<le> d \<Longrightarrow> k + int (count_list p (CHR ''.'')) \<le> d"
proof (induction p arbitrary: k)
  case (Cons c p)
  then show ?case by (fastforce split: if_splits)
qed simp

lemma username_loop_no_limit: "username_loop 0 k p \<longleftrightarrow> (\<forall>c \<in> set p. IsUserChar c)"
  by (induction p arbitrary: k) auto

section \<open>Properties\<close>

text \<open>
  On masks without a backslash \<open>match_esc\<close> decides the language in which \<open>?\<close>, \<open>@\<close>
  and \<open>#\<close> stand for any character, a letter and a digit, within the iteration bound.
\<close>

theorem match_esc_decides:
  assumes "nul_free pat" "nul_free name" "CHR 0x5C \<notin> set pat"
    and "(length name + 1) * (length pat + 2) \<le> MATCH_MAX_CALLS"
  shows "match_esc pat name = glob class_ceq pat name"
  using class_m.search_complete [OF assms(1,2,4)] lone_star_glob [OF assms(1)]
  by (simp add: match_esc_unquoted [OF assms(3)])

theorem match_esc_decides_witness:
  "match_esc ''*@##.net'' ''host42.NET'' = glob class_ceq ''*@##.net'' ''host42.NET''"
  by (rule match_esc_decides) (simp_all add: nul_free_def MATCH_MAX_CALLS_def)

text \<open>
  With escapes the routine is wrong in both directions. The shortcut for trailing
  stars does not know about quoting: the mask \<open>\\*\<close>, a literal star, accepts every string
  that starts with a star. And a restart at an escape compares the backslash itself: the
  mask \<open>*\\a\<close>, any string that ends in \<open>a\<close>, rejects \<open>aa\<close>.
\<close>

theorem match_esc_escape_errors:
  "match_esc [CHR 0x5C, CHR ''*''] ''*x'' \<and> \<not> match_esc [CHR ''*'', CHR 0x5C, CHR ''a''] ''aa'' \<and>
   match_esc [CHR ''*'', CHR 0x5C, CHR ''a''] ''a''"
  by (intro conjI) code_simp+

text \<open>
  \<open>collapse\<close> changes no language: the collapsed mask has no two adjacent stars, is no
  longer than the mask, and accepts the same names.
\<close>

theorem collapse_correct:
  "collapsed (collapse p) \<and> length (collapse p) \<le> length p \<and>
   glob ceq (collapse p) n = glob ceq p n \<and> collapse (collapse p) = collapse p"
  using collapse_loop_collapsed [of p] collapse_loop_glob [of ceq p n]
    length_collapse_loop [of False p] collapse_loop_id [of "collapse_loop False p"]
  by (simp add: collapse_def)

text \<open>
  \<open>comp_with_mask\<close> compares exactly the leading \<open>bits\<close> bits of two addresses.
\<close>

theorem comp_with_mask_bits:
  assumes "length addr = length dest" "bits \<le> 8 * length addr"
  shows "comp_with_mask addr dest bits \<longleftrightarrow> (\<forall>i < bits. addr_bit addr i = addr_bit dest i)"
  using assms by (rule comp_with_mask_bits_aux)

theorem comp_with_mask_bits_witness:
  "comp_with_mask [192, 168, 4, 1] [192, 168, 7, 9] 22 \<longleftrightarrow>
     (\<forall>i < 22. addr_bit [192, 168, 4, 1] i = addr_bit [192, 168, 7, 9] i)"
  by (rule comp_with_mask_bits) simp_all

text \<open>
  What \<open>valid_hostname\<close> accepts: host characters only, a separator somewhere but not
  in front; hence no wildcard, no \<open>!\<close>, no \<open>@\<close> and no space.
\<close>

theorem valid_hostname_iff:
  "valid_hostname h \<longleftrightarrow>
     \<not> is_sep (char_at h 0) \<and> (\<forall>c \<in> set h. IsHostChar c) \<and> (\<exists>c \<in> set h. is_sep c)"
  by (auto simp: valid_hostname_def hostname_loop_iff)

theorem valid_hostname_iff_witness: "valid_hostname ''irc.example.net''"
  using valid_hostname_iff [of "''irc.example.net''"]
  by (simp add: char_class_iffs is_sep_def char_at_def)

text \<open>
  A user name \<open>valid_username\<close> accepts has at most \<open>dots_in_ident\<close> dots after its
  first character when that limit is not zero; a limit of zero is no limit at all.
\<close>

theorem valid_username_dots:
  "(\<forall>d u. 0 < d \<longrightarrow> valid_username d u \<longrightarrow>
      int (count_list (tl (if char_at u 0 = CHR ''~'' then tl u else u)) (CHR ''.'')) \<le> d) \<and>
   (\<forall>k. valid_username 0 (CHR ''a'' # replicate k (CHR ''.'')))"
proof (intro conjI allI impI)
  fix d :: int and u assume "0 < d" "valid_username d u"
  then show "int (count_list (tl (if char_at u 0 = CHR ''~'' then tl u else u)) (CHR ''.'')) \<le> d"
    using username_loop_dots [of d 0] by (auto simp: valid_username_def Let_def split: if_splits)
next
  fix k
  show "valid_username 0 (CHR ''a'' # replicate k (CHR ''.''))"
    by (simp add: valid_username_def char_at_def username_loop_no_limit char_class_iffs)
qed

theorem valid_username_dots_witness:
  "int (count_list ''oe.d'' (CHR ''.'')) \<le> (2 :: int)"
proof -
  have "valid_username 2 ''joe.d''" by code_simp
  then show ?thesis using valid_username_dots [THEN conjunct1, rule_format, of 2 "''joe.d''"]
    by (simp add: char_at_def)
qed

end
