(* ===== verification/Inet.thy ===== *)
theory Inet
  imports Masks
begin

unbundle bit_operations_syntax

text \<open>
  Address literals: \<open>inetntoa\<close>, \<open>inet_pton4\<close>, \<open>inet_pton6\<close> and \<open>rb_inet_pton\<close> of
  \<open>libratbox/src/commio.c\<close> (with IPv6 compiled in), and the two routines of
  \<open>src/match.c\<close> that compare a textual address with a CIDR mask, \<open>match_ips\<close> and
  \<open>match_cidr\<close>. A conversion that fails is \<open>None\<close>.
\<close>

section \<open>Dotted quads\<close>

text \<open>\<open>IpQuadTab[n]\<close>: the decimal digits of a byte.\<close>

definition digit_char :: "nat \<Rightarrow> char" where
  "digit_char d = char_of (48 + d)"

definition IpQuadTab :: "nat \<Rightarrow> cstring" where
  "IpQuadTab n =
     (if n < 10 then [digit_char n]
      else if n < 100 then [digit_char (n div 10), digit_char (n mod 10)]
      else [digit_char (n div 100), digit_char (n div 10 mod 10), digit_char (n mod 10)])"

definition inetntoa :: "byte \<Rightarrow> byte \<Rightarrow> byte \<Rightarrow> byte \<Rightarrow> cstring" where
  "inetntoa a b c d =
     IpQuadTab (unat a) @ CHR ''.'' # IpQuadTab (unat b) @ CHR ''.'' #
     IpQuadTab (unat c) @ CHR ''.'' # IpQuadTab (unat d)"

text \<open>
  The loop of \<open>inet_pton4\<close>: \<open>tmp\<close> holds the octets before the current one, \<open>cur\<close> is
  \<open>*tp\<close>.
\<close>

fun pton4_loop :: "cstring \<Rightarrow> byte list \<Rightarrow> nat \<Rightarrow> bool \<Rightarrow> nat \<Rightarrow> byte list option" where
  "pton4_loop [] tmp cur saw_digit octets =
     (if octets < 4 then None else Some (tmp @ [of_nat cur]))"
| "pton4_loop (ch # src) tmp cur saw_digit octets =
     (if is_c_digit ch then
        (let new = cur * 10 + (of_char ch - 48)
         in if new > 255 then None
            else if \<not> saw_digit then
              (if Suc octets > 4 then None else pton4_loop src tmp new True (Suc octets))
            else pton4_loop src tmp new saw_digit octets)
      else if ch = CHR ''.'' \<and> saw_digit then
        (if octets = 4 then None else pton4_loop src (tmp @ [of_nat cur]) 0 False octets)
      else None)"

definition inet_pton4 :: "cstring \<Rightarrow> byte list option" where
  "inet_pton4 src = pton4_loop src [] 0 False 0"

lemma is_c_digit_digit_char: "d < 10 \<Longrightarrow> is_c_digit (digit_char d)"
  by (simp add: is_c_digit_def digit_char_def)

lemma of_char_digit_char: "d < 10 \<Longrightarrow> (of_char (digit_char d) :: nat) = 48 + d"
  by (simp add: digit_char_def)

lemmas digit_char_simps = is_c_digit_digit_char of_char_digit_char

text \<open>Reading one printed octet.\<close>

lemma pton4_octet:
  assumes "n \<le> 255" "octets < 4"
  shows "pton4_loop (IpQuadTab n @ src) tmp 0 False octets = pton4_loop src tmp n True (Suc octets)"
proof -
  have "n div 100 < 10" "n div 10 mod 10 < 10" "n mod 10 < 10" "n < 100 \<Longrightarrow> n div 10 < 10"
    using assms by linarith+
  moreover have "n div 100 * 10 + n div 10 mod 10 = n div 10"
    using div_mult2_eq [of n 10 10] by simp
  moreover have "n div 10 * 10 + n mod 10 = n" by simp
  moreover have "n div 100 \<le> 255" "n div 10 \<le> 255" using assms by linarith+
  ultimately show ?thesis
    using assms by (simp add: IpQuadTab_def digit_char_simps Let_def)
qed

lemma dot_not_digit: "\<not> is_c_digit (CHR ''.'')"
  by (simp add: is_c_digit_def)

lemma pton4_dot:
  "octets < 4 \<Longrightarrow>
   pton4_loop (CHR ''.'' # src) tmp cur True octets = pton4_loop src (tmp @ [of_nat cur]) 0 False octets"
  by (simp add: dot_not_digit)

lemma unat_byte_le: "unat (a :: byte) \<le> 255"
proof -
  have "unat a < 2 ^ LENGTH(8)" by (rule unsigned_less)
  then show ?thesis by simp
qed

lemma inet_pton4_inetntoa: "inet_pton4 (inetntoa a b c d) = Some [a, b, c, d]"
  using pton4_octet [of "unat d" 3 "[]", OF unat_byte_le]
  by (simp add: numeral_3_eq_3 inet_pton4_def inetntoa_def pton4_octet pton4_dot unat_byte_le
      del: pton4_loop.simps(2))

lemma pton4_loop_length:
  "pton4_loop src tmp cur saw octets = Some q \<Longrightarrow> octets \<le> 4 \<Longrightarrow>
   octets = length tmp + (if saw then 1 else 0) \<Longrightarrow> (\<not> saw \<longrightarrow> octets < 4) \<Longrightarrow> length q = 4"
proof (induction src tmp cur saw octets rule: pton4_loop.induct)
  case (1 tmp cur saw octets)
  then show ?case by (auto split: if_splits)
next
  case (2 ch src tmp cur saw octets)
  then show ?case by (auto simp: Let_def split: if_splits)
qed

lemma inet_pton4_length: "inet_pton4 src = Some q \<Longrightarrow> length q = 4"
  unfolding inet_pton4_def by (erule pton4_loop_length) auto

section \<open>IPv6 literals\<close>

text \<open>\<open>tolower\<close> of the C locale, and the value of a hexadecimal digit.\<close>

definition c_tolower :: "char \<Rightarrow> char" where
  "c_tolower c =
     (if 65 \<le> (of_char c :: nat) \<and> (of_char c :: nat) \<le> 90 then char_of (of_char c + 32 :: nat) else c)"

definition xdigit :: "char \<Rightarrow> nat option" where
  "xdigit ch =
     (let n = of_char (c_tolower ch) :: nat
      in if 48 \<le> n \<and> n \<le> 57 then Some (n - 48)
         else if 97 \<le> n \<and> n \<le> 102 then Some (n - 87)
         else None)"

text \<open>The two bytes of a group.\<close>

definition group16 :: "nat \<Rightarrow> byte list" where
  "group16 v = [of_nat (v div 256), of_nat (v mod 256)]"

text \<open>
  The loop of \<open>inet_pton6\<close>. \<open>tp\<close> is the part of the result written so far, \<open>colonp\<close> its
  length where \<open>::\<close> was seen. The result carries the variables at the end of the loop;
  \<open>break\<close> leaves them as they are. A character that is no hexadecimal digit, colon or dot
  is skipped, and so is a final dot.
\<close>

fun pton6_loop ::
  "cstring \<Rightarrow> cstring \<Rightarrow> byte list \<Rightarrow> nat option \<Rightarrow> bool \<Rightarrow> nat \<Rightarrow>
   (byte list \<times> nat option \<times> bool \<times> nat) option" where
  "pton6_loop [] curtok tp colonp saw_xdigit val = Some (tp, colonp, saw_xdigit, val)"
| "pton6_loop (c # src) curtok tp colonp saw_xdigit val =
     (case xdigit c of
        Some v \<Rightarrow>
          (if val * 16 + v > 0xffff then None
           else pton6_loop src curtok tp colonp True (val * 16 + v))
      | None \<Rightarrow>
          if c = CHR '':'' then
            (if \<not> saw_xdigit then
               (if colonp \<noteq> None then None
                else pton6_loop src src tp (Some (length tp)) saw_xdigit val)
             else if src = [] then None
             else if length tp + 2 > 16 then None
             else pton6_loop src src (tp @ group16 val) colonp False 0)
          else if src \<noteq> [] \<and> c = CHR ''.'' then
            (if length tp + 4 \<le> 16 then
               (case inet_pton4 curtok of
                  Some q \<Rightarrow> Some (tp @ q, colonp, False, val)
                | None \<Rightarrow> None)
             else None)
          else pton6_loop src curtok tp colonp saw_xdigit val)"

text \<open>What follows the loop: the last group, the shift for \<open>::\<close>, the final length test.\<close>

definition exact16 :: "byte list \<Rightarrow> byte list option" where
  "exact16 tp = (if length tp = 16 then Some tp else None)"

definition pton6_finish :: "byte list \<times> nat option \<times> bool \<times> nat \<Rightarrow> byte list option" where
  "pton6_finish r =
     (case r of (tp0, colonp, saw_xdigit, val) \<Rightarrow>
        if saw_xdigit \<and> length tp0 + 2 > 16 then None
        else (let tp = (if saw_xdigit then tp0 @ group16 val else tp0)
              in case colonp of
                   Some k \<Rightarrow>
                     if length tp = 16 then None
                     else exact16 (take k tp @ replicate (16 - length tp) 0 @ drop k tp)
                 | None \<Rightarrow> exact16 tp))"

definition inet_pton6 :: "cstring \<Rightarrow> byte list option" where
  "inet_pton6 src0 =
     (if char_at src0 0 = CHR '':'' \<and> char_at src0 1 \<noteq> CHR '':'' then None
      else (let src = (if char_at src0 0 = CHR '':'' then tl src0 else src0)
            in case pton6_loop src src [] None False 0 of
                 None \<Rightarrow> None
               | Some r \<Rightarrow> pton6_finish r))"

datatype af = AF_INET | AF_INET6

definition rb_inet_pton :: "af \<Rightarrow> cstring \<Rightarrow> byte list option" where
  "rb_inet_pton f src =
     (case f of
        AF_INET \<Rightarrow> inet_pton4 src
      | AF_INET6 \<Rightarrow>
          (case inet_pton4 src of
             Some _ \<Rightarrow> inet_pton6 (''::ffff:'' @ src)
           | None \<Rightarrow> inet_pton6 src))"

definition addr_len :: "af \<Rightarrow> nat" where
  "addr_len f = (case f of AF_INET \<Rightarrow> 4 | AF_INET6 \<Rightarrow> 16)"

lemma exact16_length: "exact16 tp = Some q \<Longrightarrow> length q = 16"
  by (auto simp: exact16_def split: if_splits)

lemma pton6_finish_length: "pton6_finish r = Some q \<Longrightarrow> length q = 16"
  by (auto simp: pton6_finish_def Let_def dest: exact16_length
      split: prod.splits option.splits if_splits)

lemma rb_inet_pton_length: "rb_inet_pton f src = Some q \<Longrightarrow> length q = addr_len f"
  by (auto simp: rb_inet_pton_def addr_len_def inet_pton6_def Let_def
      dest: inet_pton4_length pton6_finish_length split: af.splits option.splits if_splits)

text \<open>Characters the loop of \<open>inet_pton6\<close> skips.\<close>

definition skipped6 :: "char \<Rightarrow> bool" where
  "skipped6 c = (xdigit c = None \<and> c \<noteq> CHR '':'' \<and> c \<noteq> CHR ''.'')"

lemma pton6_loop_skip:
  "\<forall>c \<in> set g. skipped6 c \<Longrightarrow> pton6_loop g curtok tp colonp saw val = Some (tp, colonp, saw, val)"
  by (induction g) (auto simp: skipped6_def)

section \<open>Addresses against CIDR masks\<close>

definition IRCD_BUFSIZE :: nat where "IRCD_BUFSIZE = 512"
definition NICKLEN :: nat where "NICKLEN = 30"
definition USERLEN :: nat where "USERLEN = 10"
definition HOSTLEN :: nat where "HOSTLEN = 63"

lemmas size_defs = IRCD_BUFSIZE_def NICKLEN_def USERLEN_def HOSTLEN_def

text \<open>The choice of the address family and the check of the prefix length.\<close>

definition cidr_family :: "cstring \<Rightarrow> cstring \<Rightarrow> int \<Rightarrow> af option" where
  "cidr_family ip ipmask cidrlen =
     (if CHR '':'' \<in> set ip \<and> CHR '':'' \<in> set ipmask then
        (if cidrlen > 128 then None else Some AF_INET6)
      else if CHR '':'' \<notin> set ip \<and> CHR '':'' \<notin> set ipmask then
        (if cidrlen > 32 then None else Some AF_INET)
      else None)"

definition match_ips :: "cstring \<Rightarrow> cstring \<Rightarrow> bool" where
  "match_ips s1 s2 =
     (let address = strlcpy s2 (HOSTLEN + 1)
      in case strrchr_cut (CHR ''/'') (strlcpy s1 IRCD_BUFSIZE) of
           None \<Rightarrow> False
         | Some (ipmask, len) \<Rightarrow>
             (let cidrlen = atoi len
              in if cidrlen \<le> 0 then False
                 else case cidr_family address ipmask cidrlen of
                        None \<Rightarrow> False
                      | Some f \<Rightarrow>
                          (case rb_inet_pton f address of
                             None \<Rightarrow> False
                           | Some ipptr \<Rightarrow>
                               (case rb_inet_pton f ipmask of
                                  None \<Rightarrow> False
                                | Some maskptr \<Rightarrow> comp_with_mask ipptr maskptr (nat cidrlen)))))"

definition match_cidr :: "cstring \<Rightarrow> cstring \<Rightarrow> bool" where
  "match_cidr s1 s2 =
     (case strrchr_cut (CHR ''@'') (strlcpy s1 IRCD_BUFSIZE) of
        None \<Rightarrow> False
      | Some (umask, ipmask0) \<Rightarrow>
          (case strrchr_cut (CHR ''@'') (strlcpy s2 (NICKLEN + USERLEN + HOSTLEN + 6)) of
             None \<Rightarrow> False
           | Some (address, ip) \<Rightarrow>
               (case strrchr_cut (CHR ''/'') ipmask0 of
                  None \<Rightarrow> False
                | Some (ipmask, len) \<Rightarrow>
                    (let cidrlen = atoi len
                     in if cidrlen \<le> 0 then False
                        else case cidr_family ip ipmask cidrlen of
                               None \<Rightarrow> False
                             | Some f \<Rightarrow>
                                 (case rb_inet_pton f ip of
                                    None \<Rightarrow> False
                                  | Some ipptr \<Rightarrow>
                                      (case rb_inet_pton f ipmask of
                                         None \<Rightarrow> False
                                       | Some maskptr \<Rightarrow>
                                           comp_with_mask ipptr maskptr (nat cidrlen) \<and>
                                           match umask address))))))"

lemma cidr_family_bits:
  "cidr_family ip ipmask n = Some f \<Longrightarrow> 0 < n \<Longrightarrow> nat n \<le> 8 * addr_len f"
  by (auto simp: cidr_family_def addr_len_def split: if_splits)

lemma cidr_bits_agree:
  assumes "cidr_family ip ipmask n = Some f" "0 < n"
    and "rb_inet_pton f ip = Some a" "rb_inet_pton f ipmask = Some b"
  shows "comp_with_mask a b (nat n) \<longleftrightarrow> (\<forall>i < nat n. addr_bit a i = addr_bit b i)"
  using assms by (intro comp_with_mask_bits_aux)
    (auto dest!: rb_inet_pton_length cidr_family_bits)

text \<open>The decision of \<open>match_cidr\<close> once every part was cut out and converted.\<close>

lemma match_cidr_parts:
  assumes "strrchr_cut (CHR ''@'') (strlcpy s1 IRCD_BUFSIZE) = Some (um, im)"
    and "strrchr_cut (CHR ''@'') (strlcpy s2 (NICKLEN + USERLEN + HOSTLEN + 6)) = Some (ua, ip)"
    and "strrchr_cut (CHR ''/'') im = Some (ipmask, len)"
    and "0 < atoi len" "cidr_family ip ipmask (atoi len) = Some f"
    and "rb_inet_pton f ip = Some a" "rb_inet_pton f ipmask = Some b"
  shows "match_cidr s1 s2 \<longleftrightarrow> (\<forall>i < nat (atoi len). addr_bit a i = addr_bit b i) \<and> match um ua"
  using assms cidr_bits_agree [OF assms(5,4,6,7)] by (simp add: match_cidr_def)

lemma match_cidr_cuts:
  assumes m: "match_cidr s1 s2"
  obtains um im ua ip ipmask len f a b where
    "strrchr_cut (CHR ''@'') (strlcpy s1 IRCD_BUFSIZE) = Some (um, im)"
    "strrchr_cut (CHR ''@'') (strlcpy s2 (NICKLEN + USERLEN + HOSTLEN + 6)) = Some (ua, ip)"
    "strrchr_cut (CHR ''/'') im = Some (ipmask, len)"
    "0 < atoi len" "cidr_family ip ipmask (atoi len) = Some f"
    "rb_inet_pton f ip = Some a" "rb_inet_pton f ipmask = Some b"
proof -
  obtain um im where 1: "strrchr_cut (CHR ''@'') (strlcpy s1 IRCD_BUFSIZE) = Some (um, im)"
    using m unfolding match_cidr_def by (auto split: option.splits)
  obtain ua ip where
    2: "strrchr_cut (CHR ''@'') (strlcpy s2 (NICKLEN + USERLEN + HOSTLEN + 6)) = Some (ua, ip)"
    using m 1 unfolding match_cidr_def by (auto split: option.splits)
  obtain ipmask len where 3: "strrchr_cut (CHR ''/'') im = Some (ipmask, len)"
    using m 1 2 unfolding match_cidr_def by (auto split: option.splits)
  obtain f where 4: "0 < atoi len" "cidr_family ip ipmask (atoi len) = Some f"
    using m 1 2 3 by (auto simp: match_cidr_def Let_def not_le split: option.splits if_splits)
  show ?thesis
    using m 1 2 3 4 that by (auto simp: match_cidr_def split: option.splits)
qed

section \<open>Properties\<close>

text \<open>
  Printing and reading an IPv4 address: \<open>inet_pton4\<close> reads back every address
  \<open>inetntoa\<close> prints, and what it accepts has four octets.
\<close>

theorem inet4_roundtrip:
  "inet_pton4 (inetntoa a b c d) = Some [a, b, c, d] \<and>
   (inet_pton4 src = Some q \<longrightarrow> length q = 4)"
  by (simp add: inet_pton4_inetntoa inet_pton4_length)

theorem inet4_roundtrip_witness:
  "inet_pton4 (inetntoa 10 0 255 7) = Some [10, 0, 255, 7] \<and> length [10, 0, 255, 7 :: byte] = 4"
proof -
  have "inet_pton4 (inetntoa 10 0 255 7) = Some [10, 0, 255, 7]"
    using inet4_roundtrip [of 10 0 255 7] by blast
  then show ?thesis
    using inet4_roundtrip [of 10 0 255 7 "inetntoa 10 0 255 7" "[10, 0, 255, 7]"] by simp
qed

text \<open>
  \<open>inet_pton6\<close> skips every character that is no hexadecimal digit, colon or dot: any
  such text after the address changes nothing, so \<open>::1zz\<close> is read as \<open>::1\<close>.
\<close>

theorem inet_pton6_ignores_garbage:
  assumes "\<forall>c \<in> set g. skipped6 c"
  shows "inet_pton6 (''::1'' @ g) = inet_pton6 ''::1'' \<and> inet_pton6 ''::1'' = Some (replicate 15 0 @ [1])"
proof -
  have "pton6_loop ('':1'' @ g) ('':1'' @ g) [] None False 0 = Some ([], Some 0, True, 1)"
    using pton6_loop_skip [OF assms] by (simp add: xdigit_def c_tolower_def Let_def)
  moreover have "pton6_loop '':1'' '':1'' [] None False 0 = Some ([], Some 0, True, 1)"
    by (simp add: xdigit_def c_tolower_def Let_def)
  moreover have "pton6_finish ([], Some 0, True, 1) = Some (replicate 15 0 @ [1])"
    by code_simp
  ultimately show ?thesis by (simp add: inet_pton6_def char_at_def)
qed

theorem inet_pton6_ignores_garbage_witness:
  "inet_pton6 (''::1'' @ ''zz%!'') = Some (replicate 15 0 @ [1])"
  using inet_pton6_ignores_garbage [of "''zz%!''"]
  by (simp add: skipped6_def xdigit_def c_tolower_def Let_def)

text \<open>
  \<open>match_cidr\<close> accepts exactly the pairs in which the user parts match, both host parts
  are addresses of one family, the prefix length is in the range of that family, and the
  leading bits of the addresses agree.
\<close>

theorem match_cidr_iff:
  "match_cidr s1 s2 \<longleftrightarrow>
     (\<exists>um im ua ip ipmask len f a b.
        strrchr_cut (CHR ''@'') (strlcpy s1 IRCD_BUFSIZE) = Some (um, im) \<and>
        strrchr_cut (CHR ''@'') (strlcpy s2 (NICKLEN + USERLEN + HOSTLEN + 6)) = Some (ua, ip) \<and>
        strrchr_cut (CHR ''/'') im = Some (ipmask, len) \<and>
        0 < atoi len \<and> cidr_family ip ipmask (atoi len) = Some f \<and>
        rb_inet_pton f ip = Some a \<and> rb_inet_pton f ipmask = Some b \<and>
        (\<forall>i < nat (atoi len). addr_bit a i = addr_bit b i) \<and> match um ua)"
    (is "_ \<longleftrightarrow> ?R")
proof
  assume m: "match_cidr s1 s2"
  from match_cidr_cuts [OF m] obtain um im ua ip ipmask len f a b where c:
    "strrchr_cut (CHR ''@'') (strlcpy s1 IRCD_BUFSIZE) = Some (um, im)"
    "strrchr_cut (CHR ''@'') (strlcpy s2 (NICKLEN + USERLEN + HOSTLEN + 6)) = Some (ua, ip)"
    "strrchr_cut (CHR ''/'') im = Some (ipmask, len)"
    "0 < atoi len" "cidr_family ip ipmask (atoi len) = Some f"
    "rb_inet_pton f ip = Some a" "rb_inet_pton f ipmask = Some b" .
  show ?R using c match_cidr_parts [OF c] m by blast
next
  assume ?R
  then show "match_cidr s1 s2" using match_cidr_parts by blast
qed

theorem match_cidr_iff_witness:
  "\<exists>um im ua. strrchr_cut (CHR ''@'') (strlcpy ''*!*@10.1.0.0/16'' IRCD_BUFSIZE) = Some (um, im) \<and>
     match um ua"
proof -
  have "match_cidr ''*!*@10.1.0.0/16'' ''n!u@10.1.200.3''" by code_simp
  then show ?thesis using match_cidr_iff by blast
qed

end
