(* ===== verification/Dlink.thy ===== *)
theory Dlink
  imports Prelude
begin

text \<open>
  The intrusive doubly linked lists of \<open>libratbox/include/rb_tools.h\<close>, on an explicit
  heap of nodes: every assignment to \<open>prev\<close>, \<open>next\<close>, \<open>head\<close>, \<open>tail\<close> and \<open>length\<close> is
  one update of the model. \<open>None\<close> is the null pointer; the routines that follow a pointer
  without testing it return \<open>None\<close> (of their result) where that pointer is null.
  \<open>dlist h l xs\<close> says that list header \<open>l\<close> represents the node sequence \<open>xs\<close> in heap
  \<open>h\<close>; the lemmas show that each routine implements the list operation the rest of the
  daemon takes it for.
\<close>

section \<open>Nodes, headers, heaps\<close>

type_synonym ptr = nat

record 'd rb_dlink_node =
  dn_data :: 'd
  dn_prev :: "ptr option"
  dn_next :: "ptr option"

record rb_dlink_list =
  dl_head :: "ptr option"
  dl_tail :: "ptr option"
  dl_length :: "64 word"

type_synonym 'd dheap = "ptr \<Rightarrow> 'd rb_dlink_node"

definition empty_dlist :: rb_dlink_list where
  "empty_dlist = \<lparr>dl_head = None, dl_tail = None, dl_length = 0\<rparr>"

definition set_prev :: "ptr \<Rightarrow> ptr option \<Rightarrow> 'd dheap \<Rightarrow> 'd dheap" where
  "set_prev p v h = h(p := (h p)\<lparr>dn_prev := v\<rparr>)"

definition set_next :: "ptr \<Rightarrow> ptr option \<Rightarrow> 'd dheap \<Rightarrow> 'd dheap" where
  "set_next p v h = h(p := (h p)\<lparr>dn_next := v\<rparr>)"

definition set_data :: "ptr \<Rightarrow> 'd \<Rightarrow> 'd dheap \<Rightarrow> 'd dheap" where
  "set_data p v h = h(p := (h p)\<lparr>dn_data := v\<rparr>)"

lemmas heap_defs = set_prev_def set_next_def set_data_def

section \<open>The routines\<close>

text \<open>
  The two conditionals \<open>if(m->next) \<dots> else list->tail = \<dots>; if(m->prev) \<dots>\<close> with which
  \<open>rb_dlinkMoveNode\<close>, \<open>rb_dlinkDelete\<close> and \<open>rb_dlinkFindDelete\<close> take a node out.
\<close>

definition unlink :: "ptr \<Rightarrow> 'd dheap \<times> rb_dlink_list \<Rightarrow> 'd dheap \<times> rb_dlink_list" where
  "unlink m hl =
     (case hl of (h0, l0) \<Rightarrow>
        let (h1, l1) = (case dn_next (h0 m) of
                          Some n \<Rightarrow> (set_prev n (dn_prev (h0 m)) h0, l0)
                        | None \<Rightarrow> (h0, l0\<lparr>dl_tail := dn_prev (h0 m)\<rparr>))
        in (case dn_prev (h1 m) of
              Some p \<Rightarrow> (set_next p (dn_next (h1 m)) h1, l1)
            | None \<Rightarrow> (h1, l1\<lparr>dl_head := dn_next (h1 m)\<rparr>)))"

definition rb_dlinkAdd :: "'d \<Rightarrow> ptr \<Rightarrow> 'd dheap \<times> rb_dlink_list \<Rightarrow> 'd dheap \<times> rb_dlink_list" where
  "rb_dlinkAdd data m hl =
     (case hl of (h, l) \<Rightarrow>
        let h1 = set_next m (dl_head l) (set_prev m None (set_data m data h));
            (h2, l1) = (case dl_head l of
                          Some q \<Rightarrow> (set_prev q (Some m) h1, l)
                        | None \<Rightarrow> (h1, if dl_tail l = None then l\<lparr>dl_tail := Some m\<rparr> else l))
        in (h2, l1\<lparr>dl_head := Some m, dl_length := dl_length l1 + 1\<rparr>))"

definition rb_dlinkAddTail :: "'d \<Rightarrow> ptr \<Rightarrow> 'd dheap \<times> rb_dlink_list \<Rightarrow> 'd dheap \<times> rb_dlink_list" where
  "rb_dlinkAddTail data m hl =
     (case hl of (h, l) \<Rightarrow>
        let h1 = set_prev m (dl_tail l) (set_next m None (set_data m data h));
            (h2, l1) = (case dl_tail l of
                          Some q \<Rightarrow> (set_next q (Some m) h1, l)
                        | None \<Rightarrow> (h1, if dl_head l = None then l\<lparr>dl_head := Some m\<rparr> else l))
        in (h2, l1\<lparr>dl_tail := Some m, dl_length := dl_length l1 + 1\<rparr>))"

definition rb_dlinkAddBefore ::
  "ptr \<Rightarrow> 'd \<Rightarrow> ptr \<Rightarrow> 'd dheap \<times> rb_dlink_list \<Rightarrow> ('d dheap \<times> rb_dlink_list) option" where
  "rb_dlinkAddBefore b data m hl =
     (case hl of (h, l) \<Rightarrow>
        if dl_head l = Some b then Some (rb_dlinkAdd data m (h, l))
        else (let h1 = set_data m data h
              in case dn_prev (h1 b) of
                   None \<Rightarrow> None
                 | Some p \<Rightarrow>
                     (let h2 = set_next p (Some m) h1;
                          h3 = set_prev m (dn_prev (h2 b)) h2;
                          h4 = set_prev b (Some m) h3;
                          h5 = set_next m (Some b) h4
                      in Some (h5, l\<lparr>dl_length := dl_length l + 1\<rparr>))))"

definition rb_dlinkDelete :: "ptr \<Rightarrow> 'd dheap \<times> rb_dlink_list \<Rightarrow> 'd dheap \<times> rb_dlink_list" where
  "rb_dlinkDelete m hl =
     (case unlink m hl of (h, l) \<Rightarrow>
        (set_next m None (set_prev m None h), l\<lparr>dl_length := dl_length l - 1\<rparr>))"

definition rb_dlinkMoveNode ::
  "ptr \<Rightarrow> 'd dheap \<times> rb_dlink_list \<times> rb_dlink_list \<Rightarrow> 'd dheap \<times> rb_dlink_list \<times> rb_dlink_list" where
  "rb_dlinkMoveNode m hlk =
     (case hlk of (h, oldl, newl) \<Rightarrow>
        let (h1, oldl1) = unlink m (h, oldl);
            h2 = set_next m (dl_head newl) (set_prev m None h1);
            (h3, newl1) = (case dl_head newl of
                             Some q \<Rightarrow> (set_prev q (Some m) h2, newl)
                           | None \<Rightarrow>
                               (h2, if dl_tail newl = None then newl\<lparr>dl_tail := Some m\<rparr> else newl))
        in (h3, oldl1\<lparr>dl_length := dl_length oldl1 - 1\<rparr>,
            newl1\<lparr>dl_head := Some m, dl_length := dl_length newl1 + 1\<rparr>))"

definition rb_dlinkMoveTail ::
  "ptr \<Rightarrow> 'd dheap \<times> rb_dlink_list \<Rightarrow> ('d dheap \<times> rb_dlink_list) option" where
  "rb_dlinkMoveTail m hl =
     (case hl of (h, l) \<Rightarrow>
        if dl_tail l = Some m then Some (h, l)
        else case dn_next (h m) of
          None \<Rightarrow> None
        | Some n \<Rightarrow>
            (let h1 = set_prev n (dn_prev (h m)) h;
                 (h2, l1) = (case dn_prev (h1 m) of
                               Some p \<Rightarrow> (set_next p (dn_next (h1 m)) h1, l)
                             | None \<Rightarrow> (h1, l\<lparr>dl_head := dn_next (h1 m)\<rparr>))
             in case dl_tail l1 of
                  None \<Rightarrow> None
                | Some t \<Rightarrow>
                    (let h3 = set_next t (Some m) h2;
                         h4 = set_prev m (dl_tail l1) h3;
                         h5 = set_next m None h4
                     in Some (h5, l1\<lparr>dl_tail := Some m\<rparr>))))"

text \<open>
  The search of \<open>rb_dlinkFind\<close> and \<open>rb_dlinkFindDelete\<close>: the outer option is the loop
  (\<open>None\<close>: it does not end), the inner one the pointer found.
\<close>

partial_function (option) dlink_search ::
  "'d \<Rightarrow> 'd dheap \<Rightarrow> ptr option \<Rightarrow> ptr option option" where
  "dlink_search data h p =
     (case p of
        None \<Rightarrow> Some None
      | Some q \<Rightarrow>
          (if dn_data (h q) = data then Some (Some q) else dlink_search data h (dn_next (h q))))"

definition rb_dlinkFind :: "'d \<Rightarrow> 'd dheap \<times> rb_dlink_list \<Rightarrow> ptr option option" where
  "rb_dlinkFind data hl = (case hl of (h, l) \<Rightarrow> dlink_search data h (dl_head l))"

definition rb_dlinkFindDelete ::
  "'d \<Rightarrow> 'd dheap \<times> rb_dlink_list \<Rightarrow> (ptr option \<times> 'd dheap \<times> rb_dlink_list) option" where
  "rb_dlinkFindDelete data hl =
     (case rb_dlinkFind data hl of
        None \<Rightarrow> None
      | Some None \<Rightarrow> Some (None, hl)
      | Some (Some m) \<Rightarrow>
          (case unlink m hl of (h, l) \<Rightarrow>
             Some (Some m, set_next m None (set_prev m None h), l\<lparr>dl_length := dl_length l - 1\<rparr>)))"

definition rb_dlinkMoveList ::
  "'d dheap \<times> rb_dlink_list \<times> rb_dlink_list \<Rightarrow> ('d dheap \<times> rb_dlink_list \<times> rb_dlink_list) option" where
  "rb_dlinkMoveList hft =
     (case hft of (h, from, to) \<Rightarrow>
        if dl_head from = None then Some (h, from, to)
        else if dl_head to = None then
          Some (h, \<lparr>dl_head = None, dl_tail = None, dl_length = 0\<rparr>,
                to\<lparr>dl_head := dl_head from, dl_tail := dl_tail from, dl_length := dl_length from\<rparr>)
        else case (dl_tail from, dl_head to) of
          (Some ft, Some th) \<Rightarrow>
            (let h1 = set_next ft (dl_head to) h;
                 h2 = set_prev th (dl_tail from) h1
             in Some (h2, \<lparr>dl_head = None, dl_tail = None, dl_length = 0\<rparr>,
                      to\<lparr>dl_head := dl_head from, dl_length := dl_length to + dl_length from\<rparr>))
        | _ \<Rightarrow> None)"

section \<open>Representation\<close>

text \<open>First and last pointer of a sequence, with a default for the empty one.\<close>

definition first_of :: "ptr list \<Rightarrow> ptr option \<Rightarrow> ptr option" where
  "first_of xs n = (case xs of [] \<Rightarrow> n | x # _ \<Rightarrow> Some x)"

definition last_of :: "ptr list \<Rightarrow> ptr option \<Rightarrow> ptr option" where
  "last_of xs p = (if xs = [] then p else Some (last xs))"

fun links :: "'d dheap \<Rightarrow> ptr option \<Rightarrow> ptr list \<Rightarrow> ptr option \<Rightarrow> bool" where
  "links h p [] n = True"
| "links h p (x # xs) n =
     (dn_prev (h x) = p \<and> dn_next (h x) = first_of xs n \<and> links h (Some x) xs n)"

definition dlist :: "'d dheap \<Rightarrow> rb_dlink_list \<Rightarrow> ptr list \<Rightarrow> bool" where
  "dlist h l xs =
     (distinct xs \<and> links h None xs None \<and> dl_head l = first_of xs None \<and>
      dl_tail l = last_of xs None \<and> dl_length l = of_nat (length xs))"

lemma first_of_simps [simp]:
  "first_of [] n = n" "first_of (x # xs) n = Some x"
  "first_of (xs @ ys) n = first_of xs (first_of ys n)"
  by (auto simp: first_of_def split: list.split)

lemma last_of_simps [simp]:
  "last_of [] p = p" "last_of (x # xs) p = last_of xs (Some x)"
  "last_of (xs @ ys) p = last_of ys (last_of xs p)"
  by (auto simp: last_of_def)

lemma links_append [simp]:
  "links h p (xs @ ys) n \<longleftrightarrow> links h p xs (first_of ys n) \<and> links h (last_of xs p) ys n"
  by (induction xs arbitrary: p) auto

lemma links_frame [simp]: "x \<notin> set xs \<Longrightarrow> links (h(x := v)) p xs n = links h p xs n"
  by (induction xs arbitrary: p) auto

lemma links_cong: "\<forall>x \<in> set xs. h x = h' x \<Longrightarrow> links h p xs n = links h' p xs n"
  by (induction xs arbitrary: p) auto

lemma links_data [simp]: "links (h(x := (h x)\<lparr>dn_data := d\<rparr>)) p xs n = links h p xs n"
  by (induction xs arbitrary: p) auto

lemma links_set_first:
  "links h p (x # xs) n \<Longrightarrow> distinct (x # xs) \<Longrightarrow>
   links (h(x := (h x)\<lparr>dn_prev := q\<rparr>)) q (x # xs) n"
  by simp

lemma links_set_last:
  "links h p (xs @ [x]) n \<Longrightarrow> distinct (xs @ [x]) \<Longrightarrow>
   links (h(x := (h x)\<lparr>dn_next := q\<rparr>)) p (xs @ [x]) q"
  by (auto simp: last_of_def first_of_def)

lemma first_of_None [simp]: "first_of xs None = None \<longleftrightarrow> xs = []"
  by (auto simp: first_of_def split: list.split)

lemma first_of_Some [simp]: "\<exists>y. first_of xs (Some u) = Some y"
  by (auto simp: first_of_def split: list.split)

lemma last_of_None [simp]: "last_of xs None = None \<longleftrightarrow> xs = []"
  by (auto simp: last_of_def)

section \<open>The routines implement list operations\<close>

text \<open>Nodes outside the list and the data of the list's nodes are left alone.\<close>

definition same_data :: "ptr set \<Rightarrow> 'd dheap \<Rightarrow> 'd dheap \<Rightarrow> bool" where
  "same_data A h h' = (\<forall>x \<in> A. dn_data (h' x) = dn_data (h x))"

lemma dlink_add:
  assumes "dlist h l xs" "m \<notin> set xs" "rb_dlinkAdd d m (h, l) = (h', l')"
  shows "dlist h' l' (m # xs) \<and> dn_data (h' m) = d \<and> same_data (- {m}) h h'"
  using assms
  by (cases xs)
     (auto simp: dlist_def rb_dlinkAdd_def heap_defs same_data_def Let_def split: if_splits)

lemma dlink_add_tail:
  assumes "dlist h l xs" "m \<notin> set xs" "rb_dlinkAddTail d m (h, l) = (h', l')"
  shows "dlist h' l' (xs @ [m]) \<and> dn_data (h' m) = d \<and> same_data (- {m}) h h'"
  using assms
  by (cases xs rule: rev_cases)
     (auto simp: dlist_def rb_dlinkAddTail_def heap_defs same_data_def Let_def split: if_splits)

lemma unlink_links:
  assumes "distinct (xs @ m # ys)" "links h None (xs @ m # ys) None"
    and "dl_head l = first_of (xs @ m # ys) None" "dl_tail l = last_of (xs @ m # ys) None"
    and "unlink m (h, l) = (h', l')"
  shows "links h' None (xs @ ys) None \<and> dl_head l' = first_of (xs @ ys) None \<and>
    dl_tail l' = last_of (xs @ ys) None \<and> dl_length l' = dl_length l \<and> h' m = h m \<and>
    same_data UNIV h h' \<and> (\<forall>x. x \<notin> set (xs @ ys) \<longrightarrow> h' x = h x)"
  using assms
  by (cases xs rule: rev_cases; cases ys)
     (auto simp: unlink_def heap_defs same_data_def Let_def)

lemma dlink_delete:
  assumes "dlist h l (xs @ m # ys)" "rb_dlinkDelete m (h, l) = (h', l')"
  shows "dlist h' l' (xs @ ys) \<and> same_data UNIV h h' \<and> dn_prev (h' m) = None \<and> dn_next (h' m) = None"
proof -
  obtain h1 l1 where u: "unlink m (h, l) = (h1, l1)" by fastforce
  show ?thesis
    using assms u unlink_links [of xs m ys h l h1 l1]
    by (auto simp: dlist_def rb_dlinkDelete_def heap_defs same_data_def)
qed


lemma dlink_add_before:
  assumes "dlist h l (xs @ b # ys)" "m \<notin> set (xs @ b # ys)"
  shows "\<exists>h' l'. rb_dlinkAddBefore b d m (h, l) = Some (h', l') \<and>
    dlist h' l' (xs @ m # b # ys) \<and> dn_data (h' m) = d \<and> same_data (- {m}) h h'"
proof (cases xs rule: rev_cases)
  case Nil
  obtain h' l' where r: "rb_dlinkAdd d m (h, l) = (h', l')" by fastforce
  have "dlist h l (b # ys)" using assms Nil by simp
  then have "dl_head l = Some b" by (simp add: dlist_def)
  with r have "rb_dlinkAddBefore b d m (h, l) = Some (h', l')"
    by (simp add: rb_dlinkAddBefore_def)
  then show ?thesis using dlink_add [OF \<open>dlist h l (b # ys)\<close> _ r] assms Nil by simp
next
  case (snoc zs p)
  have "dl_head l \<noteq> Some b" "dn_prev (h b) = Some p"
    using assms snoc by (cases zs; simp add: dlist_def)+
  then show ?thesis
    using assms snoc
    by (auto simp: rb_dlinkAddBefore_def dlist_def heap_defs same_data_def Let_def split: if_splits)
qed

lemma dlink_move_tail:
  assumes "dlist h l (xs @ m # ys)"
  shows "\<exists>h' l'. rb_dlinkMoveTail m (h, l) = Some (h', l') \<and> dlist h' l' (xs @ ys @ [m]) \<and>
    same_data UNIV h h'"
proof (cases ys rule: rev_cases)
  case Nil
  then show ?thesis using assms by (auto simp: rb_dlinkMoveTail_def dlist_def same_data_def)
next
  case (snoc zs t)
  then show ?thesis
    using assms
    by (cases xs rule: rev_cases; cases zs)
       (auto simp: rb_dlinkMoveTail_def dlist_def heap_defs same_data_def Let_def split: if_splits)
qed

lemma dlink_move_node:
  assumes "dlist h oldl (xs @ m # ys)" "dlist h newl zs" "set (xs @ m # ys) \<inter> set zs = {}"
    and "rb_dlinkMoveNode m (h, oldl, newl) = (h', oldl', newl')"
  shows "dlist h' oldl' (xs @ ys) \<and> dlist h' newl' (m # zs) \<and> same_data UNIV h h'"
proof -
  obtain h1 l1 where u: "unlink m (h, oldl) = (h1, l1)" by fastforce
  have U: "links h1 None (xs @ ys) None" "dl_head l1 = first_of (xs @ ys) None"
    "dl_tail l1 = last_of (xs @ ys) None" "dl_length l1 = dl_length oldl" "same_data UNIV h h1"
    and F: "\<forall>x. x \<notin> set (xs @ ys) \<longrightarrow> h1 x = h x"
    using unlink_links [of xs m ys h oldl h1 l1] assms(1) u by (auto simp: dlist_def)
  have "links h1 None zs None"
    using links_cong [of zs h1 h None None] F assms(2,3) by (auto simp: dlist_def)
  then show ?thesis
    using assms u U
    by (cases zs)
       (auto simp: rb_dlinkMoveNode_def dlist_def heap_defs same_data_def Let_def split: if_splits)
qed

lemma dlink_move_list:
  assumes "dlist h from xs" "dlist h to ys" "set xs \<inter> set ys = {}"
  shows "\<exists>h' from' to'. rb_dlinkMoveList (h, from, to) = Some (h', from', to') \<and>
    dlist h' from' [] \<and> dlist h' to' (xs @ ys) \<and> same_data UNIV h h'"
proof (cases "xs = [] \<or> ys = []")
  case True
  then show ?thesis using assms by (auto simp: rb_dlinkMoveList_def dlist_def same_data_def)
next
  case False
  then obtain us u v vs where "xs = us @ [u]" "ys = v # vs"
    by (metis neq_Nil_conv rev_exhaust)
  then show ?thesis
    using assms
    by (auto simp: rb_dlinkMoveList_def dlist_def heap_defs same_data_def Let_def split: if_splits)
qed

text \<open>The search ends on every represented list and finds the first node with the datum.\<close>

lemma dlink_search_links:
  "links h p xs None \<Longrightarrow> dlink_search d h (first_of xs None) = Some (find (\<lambda>x. dn_data (h x) = d) xs)"
proof (induction xs arbitrary: p)
  case Nil
  then show ?case by (simp add: dlink_search.simps)
next
  case (Cons x xs)
  then show ?case by (auto simp: dlink_search.simps [of d h "Some x"])
qed

lemma dlink_find:
  "dlist h l xs \<Longrightarrow> rb_dlinkFind d (h, l) = Some (find (\<lambda>x. dn_data (h x) = d) xs)"
  by (auto simp: rb_dlinkFind_def dlist_def dest: dlink_search_links)

lemma dlink_find_delete:
  assumes "dlist h l xs"
  shows "\<exists>h' l'. rb_dlinkFindDelete d (h, l) = Some (find (\<lambda>x. dn_data (h x) = d) xs, h', l') \<and>
    dlist h' l' (case find (\<lambda>x. dn_data (h x) = d) xs of None \<Rightarrow> xs | Some m \<Rightarrow> remove1 m xs) \<and>
    same_data UNIV h h'"
proof (cases "find (\<lambda>x. dn_data (h x) = d) xs")
  case None
  then show ?thesis
    using assms dlink_find [OF assms, of d] by (simp add: rb_dlinkFindDelete_def same_data_def)
next
  case (Some m)
  then have "m \<in> set xs" by (auto simp: find_Some_iff)
  then obtain us vs where xs: "xs = us @ m # vs" "m \<notin> set us" by (meson split_list_first)
  obtain h' l' where r: "rb_dlinkDelete m (h, l) = (h', l')" by fastforce
  have "rb_dlinkFindDelete d (h, l) = Some (Some m, h', l')"
    using r dlink_find [OF assms, of d] Some
    by (simp add: rb_dlinkFindDelete_def rb_dlinkDelete_def split: prod.splits)
  moreover have "dlist h' l' (us @ vs) \<and> same_data UNIV h h'"
    using dlink_delete [of h l us m vs h' l'] assms xs r by simp
  ultimately show ?thesis using Some xs by (simp add: remove1_append)
qed

section \<open>Sequences of operations\<close>

text \<open>
  The interface the daemon programs against: a structure that represents a sequence of
  nodes, each carrying a datum. \<open>run_ops\<close> runs a sequence of operations, \<open>abs_ops\<close> is its
  meaning on sequences.
\<close>

datatype 'd list_op = OpAdd 'd ptr | OpAddTail 'd ptr | OpDelete ptr

fun op_ok :: "'d list_op \<Rightarrow> ptr list \<Rightarrow> bool" where
  "op_ok (OpAdd d m) xs = (m \<notin> set xs)"
| "op_ok (OpAddTail d m) xs = (m \<notin> set xs)"
| "op_ok (OpDelete m) xs = (m \<in> set xs)"

fun abs_op :: "'d list_op \<Rightarrow> (ptr \<times> 'd) list \<Rightarrow> (ptr \<times> 'd) list" where
  "abs_op (OpAdd d m) xs = (m, d) # xs"
| "abs_op (OpAddTail d m) xs = xs @ [(m, d)]"
| "abs_op (OpDelete m) xs = filter (\<lambda>x. fst x \<noteq> m) xs"

fun ops_ok :: "'d list_op list \<Rightarrow> (ptr \<times> 'd) list \<Rightarrow> bool" where
  "ops_ok [] xs = True"
| "ops_ok (c # cs) xs = (op_ok c (map fst xs) \<and> ops_ok cs (abs_op c xs))"

definition abs_ops :: "'d list_op list \<Rightarrow> (ptr \<times> 'd) list \<Rightarrow> (ptr \<times> 'd) list" where
  "abs_ops cs xs = fold abs_op cs xs"

fun run_op ::
  "('d \<Rightarrow> ptr \<Rightarrow> 's \<Rightarrow> 's) \<Rightarrow> ('d \<Rightarrow> ptr \<Rightarrow> 's \<Rightarrow> 's) \<Rightarrow> (ptr \<Rightarrow> 's \<Rightarrow> 's) \<Rightarrow> 'd list_op \<Rightarrow> 's \<Rightarrow> 's" where
  "run_op add addt del (OpAdd d m) s = add d m s"
| "run_op add addt del (OpAddTail d m) s = addt d m s"
| "run_op add addt del (OpDelete m) s = del m s"

locale node_list =
  fixes rep :: "'s \<Rightarrow> ptr list \<Rightarrow> bool" and datum :: "'s \<Rightarrow> ptr \<Rightarrow> 'd"
    and add :: "'d \<Rightarrow> ptr \<Rightarrow> 's \<Rightarrow> 's" and add_tail :: "'d \<Rightarrow> ptr \<Rightarrow> 's \<Rightarrow> 's"
    and delete :: "ptr \<Rightarrow> 's \<Rightarrow> 's"
  assumes rep_distinct: "rep s xs \<Longrightarrow> distinct xs"
    and rep_add: "rep s xs \<Longrightarrow> m \<notin> set xs \<Longrightarrow> rep (add d m s) (m # xs)"
    and datum_add: "rep s xs \<Longrightarrow> m \<notin> set xs \<Longrightarrow> datum (add d m s) = (datum s)(m := d)"
    and rep_add_tail: "rep s xs \<Longrightarrow> m \<notin> set xs \<Longrightarrow> rep (add_tail d m s) (xs @ [m])"
    and datum_add_tail: "rep s xs \<Longrightarrow> m \<notin> set xs \<Longrightarrow> datum (add_tail d m s) = (datum s)(m := d)"
    and rep_delete: "rep s xs \<Longrightarrow> m \<in> set xs \<Longrightarrow> rep (delete m s) (remove1 m xs)"
    and datum_delete: "rep s xs \<Longrightarrow> m \<in> set xs \<Longrightarrow> datum (delete m s) = datum s"
begin

lemma run_op_refines:
  assumes "rep s (map fst xs)" "\<forall>(p, d) \<in> set xs. datum s p = d" "op_ok c (map fst xs)"
  shows "rep (run_op add add_tail delete c s) (map fst (abs_op c xs)) \<and>
    (\<forall>(p, d) \<in> set (abs_op c xs). datum (run_op add add_tail delete c s) p = d)"
proof (cases c)
  case (OpAdd d m)
  then show ?thesis
    using assms rep_add datum_add by (fastforce simp: image_iff)
next
  case (OpAddTail d m)
  then show ?thesis
    using assms rep_add_tail datum_add_tail by (fastforce simp: image_iff)
next
  case (OpDelete m)
  have "remove1 m (map fst xs) = filter (\<lambda>x. x \<noteq> m) (map fst xs)"
    using rep_distinct [OF assms(1)]
    by (auto simp: distinct_remove1_removeAll removeAll_filter_not_eq intro: filter_cong)
  then have seq: "remove1 m (map fst xs) = map fst (abs_op c xs)"
    using OpDelete by (simp add: filter_map o_def)
  have m: "m \<in> set (map fst xs)" using OpDelete assms(3) by simp
  show ?thesis
    using OpDelete assms(2) rep_delete [OF assms(1) m, unfolded seq] datum_delete [OF assms(1) m]
    by auto
qed

lemma run_ops_refine:
  "rep s (map fst xs) \<Longrightarrow> \<forall>(p, d) \<in> set xs. datum s p = d \<Longrightarrow> ops_ok cs xs \<Longrightarrow>
   rep (fold (run_op add add_tail delete) cs s) (map fst (abs_ops cs xs)) \<and>
   (\<forall>(p, d) \<in> set (abs_ops cs xs). datum (fold (run_op add add_tail delete) cs s) p = d)"
proof (induction cs arbitrary: s xs)
  case Nil
  then show ?case by (simp add: abs_ops_def)
next
  case (Cons c cs)
  have ok: "op_ok c (map fst xs)" "ops_ok cs (abs_op c xs)" using Cons.prems(3) by simp_all
  note step = run_op_refines [OF Cons.prems(1,2) ok(1)]
  show ?case
    using Cons.IH [OF step [THEN conjunct1] step [THEN conjunct2] ok(2)] by (simp add: abs_ops_def)
qed

end

definition dl_rep :: "'d dheap \<times> rb_dlink_list \<Rightarrow> ptr list \<Rightarrow> bool" where
  "dl_rep s xs = (case s of (h, l) \<Rightarrow> dlist h l xs)"

definition dl_datum :: "'d dheap \<times> rb_dlink_list \<Rightarrow> ptr \<Rightarrow> 'd" where
  "dl_datum s p = dn_data (fst s p)"

interpretation dl: node_list dl_rep dl_datum rb_dlinkAdd rb_dlinkAddTail rb_dlinkDelete
proof unfold_locales
  fix s :: "'a dheap \<times> rb_dlink_list" and xs m d
  obtain h l where s: "s = (h, l)" by (cases s)
  assume r: "dl_rep s xs"
  show "distinct xs" using r by (auto simp: dl_rep_def dlist_def split: prod.splits)
  {
    assume m: "m \<notin> set xs"
    obtain h' l' where a: "rb_dlinkAdd d m (h, l) = (h', l')" by fastforce
    show "dl_rep (rb_dlinkAdd d m s) (m # xs)" "dl_datum (rb_dlinkAdd d m s) = (dl_datum s)(m := d)"
      using dlink_add [OF _ m a] r by (auto simp: s a dl_rep_def dl_datum_def same_data_def)
    obtain h' l' where t: "rb_dlinkAddTail d m (h, l) = (h', l')" by fastforce
    show "dl_rep (rb_dlinkAddTail d m s) (xs @ [m])"
      "dl_datum (rb_dlinkAddTail d m s) = (dl_datum s)(m := d)"
      using dlink_add_tail [OF _ m t] r by (auto simp: s t dl_rep_def dl_datum_def same_data_def)
  }
  {
    assume "m \<in> set xs"
    then obtain us vs where xs: "xs = us @ m # vs" "m \<notin> set us" by (meson split_list_first)
    obtain h' l' where a: "rb_dlinkDelete m (h, l) = (h', l')" by fastforce
    show "dl_rep (rb_dlinkDelete m s) (remove1 m xs)" "dl_datum (rb_dlinkDelete m s) = dl_datum s"
      using dlink_delete [of h l us m vs, OF _ a] r xs
      by (auto simp: s a dl_rep_def dl_datum_def same_data_def remove1_append)
  }
qed

section \<open>Properties\<close>

text \<open>
  Any admissible sequence of \<open>rb_dlinkAdd\<close>, \<open>rb_dlinkAddTail\<close> and \<open>rb_dlinkDelete\<close>
  on an empty list leaves the heap in a state that represents the sequence of nodes and
  data the operations describe, with the right \<open>head\<close>, \<open>tail\<close>, links and \<open>length\<close>.
\<close>

theorem dlink_ops_refine:
  assumes "ops_ok cs []"
    and "fold (run_op rb_dlinkAdd rb_dlinkAddTail rb_dlinkDelete) cs (h, empty_dlist) = (h', l')"
  shows "dlist h' l' (map fst (abs_ops cs [])) \<and>
    (\<forall>(p, d) \<in> set (abs_ops cs []). dn_data (h' p) = d)"
  using dl.run_ops_refine [of "(h, empty_dlist)" "[]" cs] assms
  by (simp add: dl_rep_def dl_datum_def dlist_def empty_dlist_def)

theorem dlink_ops_refine_witness:
  "dlist (fst (fold (run_op rb_dlinkAdd rb_dlinkAddTail rb_dlinkDelete)
       [OpAdd CHR ''a'' 1, OpAddTail CHR ''b'' 2, OpDelete 1, OpAdd CHR ''c'' 3]
       (\<lambda>_. \<lparr>dn_data = NUL, dn_prev = None, dn_next = None\<rparr>, empty_dlist)))
     (snd (fold (run_op rb_dlinkAdd rb_dlinkAddTail rb_dlinkDelete)
       [OpAdd CHR ''a'' 1, OpAddTail CHR ''b'' 2, OpDelete 1, OpAdd CHR ''c'' 3]
       (\<lambda>_. \<lparr>dn_data = NUL, dn_prev = None, dn_next = None\<rparr>, empty_dlist))) [3, 2]"
  using dlink_ops_refine [of "[OpAdd CHR ''a'' 1, OpAddTail CHR ''b'' 2, OpDelete 1, OpAdd CHR ''c'' 3]",
      OF _ prod.collapse [symmetric]]
  by (simp add: abs_ops_def)

text \<open>
  \<open>rb_dlinkMoveNode\<close> and \<open>rb_dlinkMoveList\<close> between two disjoint lists: the node
  (or the whole list) leaves one sequence and enters the front of the other.
\<close>

theorem dlink_moves:
  assumes "dlist h l (xs @ m # ys)" "dlist h k zs" "set (xs @ m # ys) \<inter> set zs = {}"
  shows "(case rb_dlinkMoveNode m (h, l, k) of (h', l', k') \<Rightarrow>
            dlist h' l' (xs @ ys) \<and> dlist h' k' (m # zs)) \<and>
         (\<exists>h' l' k'. rb_dlinkMoveList (h, l, k) = Some (h', l', k') \<and>
            dlist h' l' [] \<and> dlist h' k' (xs @ m # ys @ zs))"
  using dlink_move_node [OF assms] dlink_move_list [OF assms]
  by (fastforce split: prod.splits)

theorem dlink_moves_witness:
  "case rb_dlinkMoveNode 1 (\<lambda>_. \<lparr>dn_data = NUL, dn_prev = None, dn_next = None\<rparr>,
       \<lparr>dl_head = Some 1, dl_tail = Some 1, dl_length = 1\<rparr>, empty_dlist) of (h', l', k') \<Rightarrow>
     dlist h' l' [] \<and> dlist h' k' [1]"
  using dlink_moves [of "\<lambda>_. \<lparr>dn_data = NUL, dn_prev = None, dn_next = None\<rparr>"
      "\<lparr>dl_head = Some 1, dl_tail = Some 1, dl_length = 1\<rparr>" "[]" 1 "[]" empty_dlist "[]"]
  by (simp add: dlist_def empty_dlist_def split: prod.splits)

end
