(* ===== verification/Hash.thy ===== *)
theory Hash
  imports Chars
begin

unbundle bit_operations_syntax

text \<open>
  The chained hash tables of \<open>src/hash.c\<close>: the FNV hash functions at their 32-bit width,
  the tables \<open>hash_f\<close> with their buckets, and the operations that add, find and delete
  entries. A bucket is the sequence of its nodes (\<open>Dlink\<close> shows that the linked lists
  behave as sequences); a bucket that is not allocated is \<open>None\<close>. Keys are C strings, or
  plain bytes with an explicit length for the tables that compare with \<open>memcmp\<close>.
\<close>

section \<open>Hash functions\<close>

definition FNV1_32_INIT :: "32 word" where
  "FNV1_32_INIT = 0x811c9dc5"

definition fnv_step :: "32 word \<Rightarrow> char \<Rightarrow> 32 word" where
  "fnv_step h0 c =
     (let h = h0 XOR of_char c
      in h + (push_bit 1 h + push_bit 4 h + push_bit 7 h + push_bit 8 h + push_bit 24 h))"

fun fnv_loop :: "(char \<Rightarrow> char) \<Rightarrow> cstring \<Rightarrow> 32 word \<Rightarrow> 32 word" where
  "fnv_loop g [] h = h"
| "fnv_loop g (c # s) h = fnv_loop g s (fnv_step h (g c))"

text \<open>
  The final folding. \<open>2 ^ bits\<close> of the source is an exclusive or, not a power.
\<close>

definition fnv_mix :: "nat \<Rightarrow> 32 word \<Rightarrow> 32 word" where
  "fnv_mix hashbits h =
     (let bits = 32 - hashbits
      in drop_bit bits h XOR (h AND ((2 XOR of_nat bits) - 1)))"

definition fnv_hash_len_data :: "cstring \<Rightarrow> nat \<Rightarrow> nat \<Rightarrow> 32 word" where
  "fnv_hash_len_data s bits len = fnv_mix bits (fnv_loop id (take len s) FNV1_32_INIT)"

definition fnv_hash_upper :: "cstring \<Rightarrow> nat \<Rightarrow> nat \<Rightarrow> 32 word" where
  "fnv_hash_upper s bits unused = fnv_mix bits (fnv_loop ToUpper s FNV1_32_INIT)"

definition fnv_hash :: "cstring \<Rightarrow> nat \<Rightarrow> nat \<Rightarrow> 32 word" where
  "fnv_hash s bits unused = fnv_mix bits (fnv_loop id s FNV1_32_INIT)"

definition fnv_hash_len :: "cstring \<Rightarrow> nat \<Rightarrow> nat \<Rightarrow> 32 word" where
  "fnv_hash_len s bits len = fnv_mix bits (fnv_loop id (take len s) FNV1_32_INIT)"

definition fnv_hash_upper_len :: "cstring \<Rightarrow> nat \<Rightarrow> nat \<Rightarrow> 32 word" where
  "fnv_hash_upper_len s bits len = fnv_mix bits (fnv_loop ToUpper (take len s) FNV1_32_INIT)"

section \<open>Tables\<close>

datatype hash_cmptype = CMP_IRCCMP | CMP_STRCMP | CMP_MEMCMP

datatype hash_fun = F_upper_len | F_upper | F_len | F_plain | F_data

record 'a hash_node =
  hn_key :: cstring
  hn_keylen :: nat
  hn_data :: 'a
  hn_hashv :: "32 word"

record 'a hash_f =
  hf_name :: cstring
  hf_func :: hash_fun
  hf_cmptype :: hash_cmptype
  hf_htable :: "nat \<Rightarrow> 'a hash_node list option"
  hf_hashbits :: nat
  hf_hashlen :: nat

definition hash_create :: "cstring \<Rightarrow> hash_cmptype \<Rightarrow> nat \<Rightarrow> nat \<Rightarrow> 'a hash_f option" where
  "hash_create name cmptype hashbits maxkeylen =
     (if cmptype = CMP_MEMCMP \<and> maxkeylen = 0 then None
      else Some \<lparr>hf_name = name,
        hf_func = (case cmptype of
            CMP_IRCCMP \<Rightarrow> (if maxkeylen > 0 then F_upper_len else F_upper)
          | CMP_STRCMP \<Rightarrow> (if maxkeylen > 0 then F_len else F_plain)
          | CMP_MEMCMP \<Rightarrow> F_data),
        hf_cmptype = cmptype, hf_htable = (\<lambda>_. None), hf_hashbits = hashbits,
        hf_hashlen = maxkeylen\<rparr>)"

text \<open>The arguments of \<open>hash_create\<close> in \<open>init_hash\<close>, in its order.\<close>

definition init_hash_args :: "(cstring \<times> hash_cmptype \<times> nat \<times> nat) list" where
  "init_hash_args =
     [(''NICK'', CMP_IRCCMP, 17, 0), (''ID'', CMP_STRCMP, 17, 0), (''Channel'', CMP_IRCCMP, 16, 30),
      (''Host'', CMP_IRCCMP, 17, 30), (''Channel RESV'', CMP_IRCCMP, 10, 30),
      (''Operator'', CMP_IRCCMP, 10, 0), (''Server'', CMP_IRCCMP, 8, 0), (''Help'', CMP_IRCCMP, 7, 10),
      (''Operator Help'', CMP_IRCCMP, 7, 10), (''ND'', CMP_IRCCMP, 17, 0),
      (''Connection ID'', CMP_MEMCMP, 12, 4), (''Ziplinks ID'', CMP_MEMCMP, 7, 4),
      (''MONITOR'', CMP_IRCCMP, 16, 0), (''Command'', CMP_IRCCMP, 9, 10)]"

definition init_hash :: "'a hash_f option list" where
  "init_hash = map (\<lambda>(n, c, b, l). hash_create n c b l) init_hash_args"

definition do_hfunc :: "'a hash_f \<Rightarrow> cstring \<Rightarrow> nat \<Rightarrow> 32 word" where
  "do_hfunc hf hashindex hashlen =
     (case hf_func hf of
        F_upper_len \<Rightarrow> fnv_hash_upper_len hashindex (hf_hashbits hf) hashlen
      | F_upper \<Rightarrow> fnv_hash_upper hashindex (hf_hashbits hf) hashlen
      | F_len \<Rightarrow> fnv_hash_len hashindex (hf_hashbits hf) hashlen
      | F_plain \<Rightarrow> fnv_hash hashindex (hf_hashbits hf) hashlen
      | F_data \<Rightarrow> fnv_hash_len_data hashindex (hf_hashbits hf) hashlen)"

text \<open>Whether \<open>hash_do_cmp\<close> returns 0.\<close>

definition hash_do_cmp :: "'a hash_f \<Rightarrow> cstring \<Rightarrow> cstring \<Rightarrow> nat \<Rightarrow> bool" where
  "hash_do_cmp hf x y len =
     (case hf_cmptype hf of
        CMP_IRCCMP \<Rightarrow> irccmp x y = 0
      | CMP_STRCMP \<Rightarrow> x = y
      | CMP_MEMCMP \<Rightarrow> take len x = take len y)"

definition find_hashlen :: "'a hash_f \<Rightarrow> nat \<Rightarrow> nat" where
  "find_hashlen hf siz = (if hf_hashlen hf = 0 then siz else min siz (hf_hashlen hf))"

definition hash_find_list_len :: "'a hash_f \<Rightarrow> cstring \<Rightarrow> nat \<Rightarrow> 'a list option" where
  "hash_find_list_len hf hashindex siz =
     (let hashlen = find_hashlen hf siz
      in case hf_htable hf (unat (do_hfunc hf hashindex hashlen)) of
           None \<Rightarrow> None
         | Some bucket \<Rightarrow>
             (let results = rev (map hn_data
                    (filter (\<lambda>n. hash_do_cmp hf hashindex (hn_key n) hashlen) bucket))
              in if results = [] then None else Some results))"

definition hash_find_list :: "'a hash_f \<Rightarrow> cstring \<Rightarrow> 'a list option" where
  "hash_find_list hf hashindex =
     (if hashindex = [] then None else hash_find_list_len hf hashindex (length hashindex + 1))"

definition hash_find_len :: "'a hash_f \<Rightarrow> cstring \<Rightarrow> nat \<Rightarrow> 'a hash_node option" where
  "hash_find_len hf hashindex siz =
     (let hashlen = find_hashlen hf siz
      in case hf_htable hf (unat (do_hfunc hf hashindex hashlen)) of
           None \<Rightarrow> None
         | Some bucket \<Rightarrow> find (\<lambda>n. hash_do_cmp hf hashindex (hn_key n) hashlen) bucket)"

definition hash_find :: "'a hash_f \<Rightarrow> cstring \<Rightarrow> 'a hash_node option" where
  "hash_find hf hashindex =
     (if hashindex = [] then None else hash_find_len hf hashindex (length hashindex + 1))"

definition hash_find_data_len :: "'a hash_f \<Rightarrow> cstring \<Rightarrow> nat \<Rightarrow> 'a option" where
  "hash_find_data_len hf hashindex siz =
     (case hash_find_len hf hashindex siz of None \<Rightarrow> None | Some hnode \<Rightarrow> Some (hn_data hnode))"

definition hash_find_data :: "'a hash_f \<Rightarrow> cstring \<Rightarrow> 'a option" where
  "hash_find_data hf hashindex =
     (if hashindex = [] then None else hash_find_data_len hf hashindex (length hashindex + 1))"

definition set_bucket :: "nat \<Rightarrow> 'a hash_node list option \<Rightarrow> 'a hash_f \<Rightarrow> 'a hash_f" where
  "set_bucket i b hf = hf\<lparr>hf_htable := (hf_htable hf)(i := b)\<rparr>"

text \<open>\<open>hash_allocate_bucket\<close>: the bucket, allocated empty when there is none.\<close>

definition hash_allocate_bucket :: "'a hash_f \<Rightarrow> nat \<Rightarrow> 'a hash_node list" where
  "hash_allocate_bucket hf i = (case hf_htable hf i of None \<Rightarrow> [] | Some b \<Rightarrow> b)"

definition hash_free_bucket :: "nat \<Rightarrow> 'a hash_f \<Rightarrow> 'a hash_f" where
  "hash_free_bucket i hf =
     (case hf_htable hf i of
        Some (_ # _) \<Rightarrow> hf
      | _ \<Rightarrow> set_bucket i None hf)"

definition hash_add_len :: "cstring \<Rightarrow> nat \<Rightarrow> 'a \<Rightarrow> 'a hash_f \<Rightarrow> 'a hash_f" where
  "hash_add_len hashindex indexlen pointer hf =
     (let hashv = do_hfunc hf hashindex (min indexlen (hf_hashlen hf));
          bucket = hash_allocate_bucket hf (unat hashv);
          hnode = \<lparr>hn_key = take indexlen hashindex, hn_keylen = indexlen, hn_data = pointer,
                   hn_hashv = hashv\<rparr>
      in set_bucket (unat hashv) (Some (hnode # bucket)) hf)"

definition hash_add :: "cstring \<Rightarrow> 'a \<Rightarrow> 'a hash_f \<Rightarrow> 'a hash_f" where
  "hash_add hashindex pointer hf =
     (if hashindex = [] then hf else hash_add_len hashindex (length hashindex + 1) pointer hf)"

text \<open>The loop of \<open>hash_del_len\<close>: the first node of the bucket with this data goes.\<close>

fun bucket_del :: "'a \<Rightarrow> 'a hash_node list \<Rightarrow> 'a hash_node list option" where
  "bucket_del pointer [] = None"
| "bucket_del pointer (n # ns) =
     (if hn_data n = pointer then Some ns
      else case bucket_del pointer ns of None \<Rightarrow> None | Some ms \<Rightarrow> Some (n # ms))"

definition hash_del_len :: "cstring \<Rightarrow> nat \<Rightarrow> 'a \<Rightarrow> 'a hash_f \<Rightarrow> 'a hash_f" where
  "hash_del_len hashindex siz pointer hf =
     (let i = unat (do_hfunc hf hashindex (find_hashlen hf siz))
      in case hf_htable hf i of
           None \<Rightarrow> hf
         | Some bucket \<Rightarrow>
             (case bucket_del pointer bucket of
                None \<Rightarrow> hf
              | Some bucket' \<Rightarrow> hash_free_bucket i (set_bucket i (Some bucket') hf)))"

definition hash_del :: "cstring \<Rightarrow> 'a \<Rightarrow> 'a hash_f \<Rightarrow> 'a hash_f" where
  "hash_del hashindex pointer hf =
     (if hashindex = [] then hf else hash_del_len hashindex (length hashindex + 1) pointer hf)"

definition hash_del_hnode :: "'a hash_node \<Rightarrow> 'a hash_f \<Rightarrow> 'a hash_f" where
  "hash_del_hnode hnode hf =
     (let i = unat (hn_hashv hnode)
      in case hf_htable hf i of
           None \<Rightarrow> hf
         | Some bucket \<Rightarrow> hash_free_bucket i (set_bucket i (Some (remove1 hnode bucket)) hf))"

text \<open>
  \<open>hash_walkall\<close> and \<open>hash_destroyall\<close> call back on the data of every entry, bucket by
  bucket: the sequence of the calls.
\<close>

definition hash_walkall :: "'a hash_f \<Rightarrow> 'a list" where
  "hash_walkall hf =
     concat (map (\<lambda>i. case hf_htable hf i of None \<Rightarrow> [] | Some b \<Rightarrow> map hn_data b)
       [0..<2 ^ hf_hashbits hf])"

section \<open>Indices\<close>

lemma xor_less_power:
  assumes "(a :: nat) < 2 ^ n" "b < 2 ^ n"
  shows "a XOR b < 2 ^ n"
proof -
  have "take_bit n (a XOR b) = a XOR b"
    using assms by (simp add: take_bit_xor take_bit_nat_eq_self)
  then show ?thesis by (metis take_bit_nat_eq_self_iff)
qed

lemma and_le_right: "a AND (b :: nat) \<le> b"
proof -
  have "int (a AND b) \<le> int b"
    by (simp add: of_nat_and_eq AND_upper2)
  then show ?thesis by simp
qed

lemma fnv_mix_less:
  assumes "b \<le> 32" "unat ((2 XOR of_nat (32 - b)) - 1 :: 32 word) < 2 ^ b"
  shows "unat (fnv_mix b h) < 2 ^ b"
proof -
  have "unat (drop_bit (32 - b) h) < 2 ^ b"
  proof -
    have "unat h < 2 ^ (b + (32 - b))" using unsigned_less [of h] assms(1) by simp
    then have "unat h < 2 ^ b * 2 ^ (32 - b)" by (simp only: power_add)
    then have "drop_bit (32 - b) (unat h) < 2 ^ b"
      by (simp add: drop_bit_eq_div less_mult_imp_div_less)
    then show ?thesis by (simp only: unat_drop_bit_eq)
  qed
  moreover have "unat (h AND ((2 XOR of_nat (32 - b)) - 1)) < 2 ^ b"
    using and_le_right [of "unat h" "unat ((2 XOR of_nat (32 - b)) - 1 :: 32 word)"] assms(2)
    by (simp add: unsigned_and_eq)
  ultimately show ?thesis by (simp add: fnv_mix_def Let_def unsigned_xor_eq xor_less_power)
qed

lemma fnv_mix_bound:
  assumes "7 \<le> b" "b \<le> 17"
  shows "unat (fnv_mix b h) < 2 ^ b"
proof (rule fnv_mix_less)
  have "b \<in> {7,8,9,10,11,12,13,14,15,16,17}" using assms by simp presburger
  then show "unat ((2 XOR of_nat (32 - b)) - 1 :: 32 word) < 2 ^ b" by auto
qed (use assms in simp)

lemma do_hfunc_bound:
  "7 \<le> hf_hashbits hf \<Longrightarrow> hf_hashbits hf \<le> 17 \<Longrightarrow>
   unat (do_hfunc hf k len) < 2 ^ hf_hashbits hf"
  by (simp add: do_hfunc_def fnv_hash_upper_len_def fnv_hash_upper_def fnv_hash_len_def
      fnv_hash_def fnv_hash_len_data_def fnv_mix_bound split: hash_fun.split)

section \<open>Equal keys, equal buckets\<close>

lemma fnv_loop_map: "fnv_loop g s h = fnv_loop id (map g s) h"
  by (induction s arbitrary: h) auto

lemma fnv_loop_fold: "map ToUpper s = map ToUpper t \<Longrightarrow> fnv_loop ToUpper s h = fnv_loop ToUpper t h"
  using fnv_loop_map [of ToUpper s h] fnv_loop_map [of ToUpper t h] by simp

definition func_matches :: "'a hash_f \<Rightarrow> bool" where
  "func_matches hf =
     (hf_func hf = (case hf_cmptype hf of
            CMP_IRCCMP \<Rightarrow> (if hf_hashlen hf > 0 then F_upper_len else F_upper)
          | CMP_STRCMP \<Rightarrow> (if hf_hashlen hf > 0 then F_len else F_plain)
          | CMP_MEMCMP \<Rightarrow> F_data))"

lemma hash_create_func_matches: "hash_create n c b l = Some hf \<Longrightarrow> func_matches hf"
  by (auto simp: hash_create_def func_matches_def split: if_splits)

definition key_index :: "'a hash_f \<Rightarrow> cstring \<Rightarrow> nat" where
  "key_index hf k = unat (do_hfunc hf k (find_hashlen hf (length k + 1)))"

text \<open>\<open>hash_add_len\<close> clips the length differently, which does not change the index.\<close>

lemma add_index:
  "func_matches hf \<Longrightarrow> hf_cmptype hf \<noteq> CMP_MEMCMP \<Longrightarrow>
   do_hfunc hf k (min (length k + 1) (hf_hashlen hf)) = do_hfunc hf k (find_hashlen hf (length k + 1))"
  by (cases "hf_cmptype hf")
     (auto simp: func_matches_def do_hfunc_def find_hashlen_def fnv_hash_upper_def fnv_hash_def)

definition same_key :: "'a hash_f \<Rightarrow> cstring \<Rightarrow> cstring \<Rightarrow> bool" where
  "same_key hf k k' = (if hf_cmptype hf = CMP_IRCCMP then irc_fold k = irc_fold k' else k = k')"

lemma hash_do_cmp_same_key:
  "hf_cmptype hf \<noteq> CMP_MEMCMP \<Longrightarrow> nul_free k \<Longrightarrow> nul_free k' \<Longrightarrow>
   hash_do_cmp hf k k' len = same_key hf k k'"
  by (cases "hf_cmptype hf") (simp_all add: hash_do_cmp_def same_key_def irccmp_0_iff)

lemma same_key_index:
  assumes "func_matches hf" "hf_cmptype hf \<noteq> CMP_MEMCMP" "same_key hf k k'"
  shows "key_index hf k = key_index hf k'"
proof (cases "hf_cmptype hf")
  case CMP_IRCCMP
  then have eq: "map ToUpper k = map ToUpper k'" using assms(3) by (simp add: same_key_def irc_fold_def)
  then have len: "length k = length k'" by (metis length_map)
  have "map ToUpper (take n k) = map ToUpper (take n k')" for n
    using arg_cong [OF eq, of "take n"] by (simp add: take_map)
  then show ?thesis
    using CMP_IRCCMP assms(1) len
    by (simp add: key_index_def do_hfunc_def func_matches_def fnv_hash_upper_len_def fnv_hash_upper_def
        fnv_loop_fold [OF eq] cong: fnv_loop_fold)
qed (use assms in \<open>simp_all add: same_key_def\<close>)

section \<open>A table represents the sequence of its entries\<close>

text \<open>
  The abstract table is the list of its entries, the newest first; bucket \<open>i\<close> holds the
  entries whose key has index \<open>i\<close>, in that order, and is unallocated when there is none.
\<close>

definition node_of :: "'a hash_f \<Rightarrow> cstring \<times> 'a \<Rightarrow> 'a hash_node" where
  "node_of hf e = \<lparr>hn_key = fst e, hn_keylen = length (fst e) + 1, hn_data = snd e,
     hn_hashv = do_hfunc hf (fst e) (find_hashlen hf (length (fst e) + 1))\<rparr>"

definition opt_bucket :: "'b list \<Rightarrow> 'b list option" where
  "opt_bucket b = (if b = [] then None else Some b)"

definition hash_rep :: "'a hash_f \<Rightarrow> (cstring \<times> 'a) list \<Rightarrow> bool" where
  "hash_rep hf xs =
     (func_matches hf \<and> hf_cmptype hf \<noteq> CMP_MEMCMP \<and>
      7 \<le> hf_hashbits hf \<and> hf_hashbits hf \<le> 17 \<and>
      (\<forall>e \<in> set xs. fst e \<noteq> [] \<and> nul_free (fst e)) \<and>
      (\<forall>i. hf_htable hf i =
         opt_bucket (map (node_of hf) (filter (\<lambda>e. key_index hf (fst e) = i) xs))))"

lemma config_set_bucket [simp]:
  "hf_func (set_bucket i b hf) = hf_func hf" "hf_cmptype (set_bucket i b hf) = hf_cmptype hf"
  "hf_hashbits (set_bucket i b hf) = hf_hashbits hf" "hf_hashlen (set_bucket i b hf) = hf_hashlen hf"
  "hf_htable (set_bucket i b hf) = (hf_htable hf)(i := b)"
  by (simp_all add: set_bucket_def)

lemma hfunc_set_bucket [simp]:
  "do_hfunc (set_bucket i b hf) = do_hfunc hf" "find_hashlen (set_bucket i b hf) = find_hashlen hf"
  by (simp_all add: fun_eq_iff do_hfunc_def find_hashlen_def split: hash_fun.split)

lemma index_set_bucket [simp]:
  "key_index (set_bucket i b hf) = key_index hf" "node_of (set_bucket i b hf) = node_of hf"
  "func_matches (set_bucket i b hf) = func_matches hf"
  by (auto simp: fun_eq_iff key_index_def node_of_def func_matches_def)

lemma find_map_filter:
  "(\<And>x. x \<in> set xs \<Longrightarrow> P (f x) \<longleftrightarrow> R x) \<Longrightarrow> (\<And>x. x \<in> set xs \<Longrightarrow> R x \<Longrightarrow> Q x) \<Longrightarrow>
   find P (map f (filter Q xs)) = map_option f (find R xs)"
  by (induction xs) auto

lemma hash_rep_find:
  assumes "hash_rep hf xs" "nul_free k" "k \<noteq> []"
  shows "hash_find hf k = map_option (node_of hf) (find (\<lambda>e. same_key hf k (fst e)) xs)"
proof -
  let ?i = "key_index hf k" and ?len = "find_hashlen hf (length k + 1)"
  let ?b = "map (node_of hf) (filter (\<lambda>e. key_index hf (fst e) = ?i) xs)"
  have r: "func_matches hf" "hf_cmptype hf \<noteq> CMP_MEMCMP" "\<And>e. e \<in> set xs \<Longrightarrow> nul_free (fst e)"
    "hf_htable hf ?i = opt_bucket ?b"
    using assms(1) by (auto simp: hash_rep_def)
  have "hash_find hf k = find (\<lambda>n. hash_do_cmp hf k (hn_key n) ?len) ?b"
    using r(4) assms(3)
    by (simp add: hash_find_def hash_find_len_def key_index_def Let_def opt_bucket_def split: option.split)
  also have "\<dots> = map_option (node_of hf) (find (\<lambda>e. same_key hf k (fst e)) xs)"
  proof (rule find_map_filter)
    fix e assume e: "e \<in> set xs"
    show "hash_do_cmp hf k (hn_key (node_of hf e)) ?len \<longleftrightarrow> same_key hf k (fst e)"
      using r e assms(2) by (simp add: node_of_def hash_do_cmp_same_key)
    show "same_key hf k (fst e) \<Longrightarrow> key_index hf (fst e) = ?i"
      using same_key_index [OF r(1,2)] by metis
  qed
  finally show ?thesis .
qed

lemma hash_rep_find_data:
  assumes "hash_rep hf xs" "nul_free k" "k \<noteq> []"
  shows "hash_find_data hf k = map_option snd (find (\<lambda>e. same_key hf k (fst e)) xs)"
  using hash_rep_find [OF assms] assms(3)
  by (cases "find (\<lambda>e. same_key hf k (fst e)) xs")
     (auto simp: hash_find_data_def hash_find_data_len_def hash_find_def node_of_def)

lemma hash_rep_add:
  assumes "hash_rep hf xs" "nul_free k" "k \<noteq> []"
  shows "hash_rep (hash_add k p hf) ((k, p) # xs)"
proof -
  have r: "func_matches hf" "hf_cmptype hf \<noteq> CMP_MEMCMP"
    using assms(1) by (auto simp: hash_rep_def)
  have b: "hf_htable hf i = opt_bucket (map (node_of hf) (filter (\<lambda>e. key_index hf (fst e) = i) xs))" for i
    using assms(1) by (auto simp: hash_rep_def)
  have "hash_add k p hf =
      set_bucket (key_index hf k) (Some (node_of hf (k, p) # hash_allocate_bucket hf (key_index hf k))) hf"
    using assms(3) add_index [OF r, of k]
    by (simp add: hash_add_def hash_add_len_def key_index_def node_of_def Let_def)
  moreover have "hash_allocate_bucket hf i = map (node_of hf) (filter (\<lambda>e. key_index hf (fst e) = i) xs)" for i
    by (simp add: hash_allocate_bucket_def b opt_bucket_def)
  ultimately show ?thesis
    using assms by (auto simp: hash_rep_def opt_bucket_def)
qed

lemma bucket_del_map:
  assumes "distinct (map snd xs)" "e \<in> set xs" "Q e"
  shows "bucket_del (snd e) (map (node_of hf) (filter Q xs)) =
    Some (map (node_of hf) (filter Q (filter (\<lambda>x. snd x \<noteq> snd e) xs)))"
  using assms
proof (induction xs)
  case (Cons x xs)
  have "\<forall>y \<in> set xs. snd y \<noteq> snd x" using Cons.prems(1) by simp (metis image_eqI)
  then have ne: "filter (\<lambda>y. snd y \<noteq> snd x) xs = xs" by (rule filter_True)
  show ?case
  proof (cases "x = e")
    case True
    then show ?thesis using Cons.prems(3) ne by (simp add: node_of_def)
  next
    case False
    then have e: "e \<in> set xs" using Cons.prems(2) by simp
    then have "snd x \<noteq> snd e" using Cons.prems(1) by force
    then show ?thesis using Cons e by (auto simp: node_of_def)
  qed
qed simp

lemma hash_rep_del:
  assumes "hash_rep hf xs" "distinct (map snd xs)" "(k, p) \<in> set xs"
  shows "hash_rep (hash_del k p hf) (filter (\<lambda>e. snd e \<noteq> p) xs)"
proof -
  let ?i = "key_index hf k"
  let ?Q = "\<lambda>e. key_index hf (fst e) = ?i"
  let ?ys = "filter (\<lambda>e. snd e \<noteq> p) xs"
  have k: "k \<noteq> []" using assms(1,3) by (force simp: hash_rep_def)
  have b: "hf_htable hf i = opt_bucket (map (node_of hf) (filter (\<lambda>e. key_index hf (fst e) = i) xs))" for i
    using assms(1) by (auto simp: hash_rep_def)
  have ne: "filter ?Q xs \<noteq> []" using assms(3) by (force simp: filter_empty_conv)
  have del: "bucket_del p (map (node_of hf) (filter ?Q xs)) = Some (map (node_of hf) (filter ?Q ?ys))"
    using bucket_del_map [OF assms(2,3), of ?Q] by simp
  have eq: "hash_del k p hf = set_bucket ?i (opt_bucket (map (node_of hf) (filter ?Q ?ys))) hf"
    using k ne del b [of ?i]
    by (auto simp: hash_del_def hash_del_len_def key_index_def Let_def opt_bucket_def
        hash_free_bucket_def set_bucket_def split: list.split)
  have other: "filter (\<lambda>e. key_index hf (fst e) = i) ?ys = filter (\<lambda>e. key_index hf (fst e) = i) xs"
    if "i \<noteq> ?i" for i
  proof -
    have "snd e \<noteq> p" if "e \<in> set xs" "key_index hf (fst e) = i" for e
      using that \<open>i \<noteq> ?i\<close> assms(2,3) by (metis eq_key_imp_eq_value fst_conv prod.collapse snd_conv distinct_map inj_onD)
    then show ?thesis by (auto intro!: filter_cong simp: filter_filter)
  qed
  show ?thesis
    using assms(1) other by (auto simp: eq hash_rep_def)
qed

lemma node_of_inj: "node_of hf d = node_of hf e \<longleftrightarrow> d = e"
  by (auto simp: node_of_def prod_eq_iff)

lemma remove1_nodes:
  "remove1 (node_of hf e) (map (node_of hf) (filter Q xs)) =
   map (node_of hf) (filter Q (if Q e then remove1 e xs else xs))"
  by (induction xs) (auto simp: node_of_inj)

lemma hash_rep_del_hnode:
  assumes "hash_rep hf xs" "e \<in> set xs"
  shows "hash_rep (hash_del_hnode (node_of hf e) hf) (remove1 e xs)"
proof -
  let ?i = "key_index hf (fst e)"
  let ?b = "\<lambda>i ys. map (node_of hf) (filter (\<lambda>e. key_index hf (fst e) = i) ys)"
  have t: "hf_htable hf i = opt_bucket (?b i xs)" for i
    using assms(1) by (simp add: hash_rep_def)
  have ne: "?b ?i xs \<noteq> []" using assms(2) by (force simp: filter_empty_conv)
  have "unat (hn_hashv (node_of hf e)) = ?i" by (simp add: node_of_def key_index_def)
  then have "hash_del_hnode (node_of hf e) hf = set_bucket ?i (opt_bucket (?b ?i (remove1 e xs))) hf"
    using ne t [of ?i] by (auto simp: hash_del_hnode_def opt_bucket_def remove1_nodes hash_free_bucket_def
        set_bucket_def Let_def split: list.split)
  moreover have "?b i (remove1 e xs) = ?b i xs" if "i \<noteq> ?i" for i
    using that by (simp add: filter_remove1 remove1_idem)
  moreover have "\<forall>d \<in> set (remove1 e xs). d \<in> set xs" using notin_set_remove1 by metis
  ultimately show ?thesis using assms(1) by (auto simp: hash_rep_def t)
qed

lemma cmptype_del_hnode [simp]: "hf_cmptype (hash_del_hnode n hf) = hf_cmptype hf"
  by (simp add: hash_del_hnode_def hash_free_bucket_def Let_def split: option.split list.split)

section \<open>The interface of a name index\<close>

text \<open>
  What the daemon relies on: entries are found under every name that the table's comparison
  takes for the same, the newest first, and deleting an entry removes just that one. The
  operations run in sequences; \<open>ix_abs\<close> is their meaning on the list of entries.
\<close>

datatype 'a ix_op = IxAdd cstring 'a | IxDel cstring 'a

fun ix_abs :: "'a ix_op \<Rightarrow> (cstring \<times> 'a) list \<Rightarrow> (cstring \<times> 'a) list" where
  "ix_abs (IxAdd k p) xs = (k, p) # xs"
| "ix_abs (IxDel k p) xs = filter (\<lambda>e. snd e \<noteq> p) xs"

fun ix_ok :: "'a ix_op \<Rightarrow> (cstring \<times> 'a) list \<Rightarrow> bool" where
  "ix_ok (IxAdd k p) xs = (k \<noteq> [] \<and> nul_free k \<and> p \<notin> snd ` set xs)"
| "ix_ok (IxDel k p) xs = ((k, p) \<in> set xs)"

fun ixs_ok :: "'a ix_op list \<Rightarrow> (cstring \<times> 'a) list \<Rightarrow> bool" where
  "ixs_ok [] xs = True"
| "ixs_ok (c # cs) xs = (ix_ok c xs \<and> ixs_ok cs (ix_abs c xs))"

fun ix_run :: "(cstring \<Rightarrow> 'a \<Rightarrow> 't \<Rightarrow> 't) \<Rightarrow> (cstring \<Rightarrow> 'a \<Rightarrow> 't \<Rightarrow> 't) \<Rightarrow> 'a ix_op \<Rightarrow> 't \<Rightarrow> 't" where
  "ix_run add del (IxAdd k p) t = add k p t"
| "ix_run add del (IxDel k p) t = del k p t"

definition ix_lookup :: "(cstring \<Rightarrow> cstring \<Rightarrow> bool) \<Rightarrow> cstring \<Rightarrow> (cstring \<times> 'a) list \<Rightarrow> 'a option" where
  "ix_lookup eqk k xs = map_option snd (find (\<lambda>e. eqk k (fst e)) xs)"

locale name_index =
  fixes rep :: "'t \<Rightarrow> (cstring \<times> 'a) list \<Rightarrow> bool"
    and add :: "cstring \<Rightarrow> 'a \<Rightarrow> 't \<Rightarrow> 't" and del :: "cstring \<Rightarrow> 'a \<Rightarrow> 't \<Rightarrow> 't"
    and lookup :: "'t \<Rightarrow> cstring \<Rightarrow> 'a option" and eqk :: "cstring \<Rightarrow> cstring \<Rightarrow> bool"
  assumes eqk_refl: "eqk k k"
    and rep_add: "rep t xs \<Longrightarrow> nul_free k \<Longrightarrow> k \<noteq> [] \<Longrightarrow> rep (add k p t) ((k, p) # xs)"
    and rep_del: "rep t xs \<Longrightarrow> distinct (map snd xs) \<Longrightarrow> (k, p) \<in> set xs \<Longrightarrow>
      rep (del k p t) (filter (\<lambda>e. snd e \<noteq> p) xs)"
    and lookup_rep: "rep t xs \<Longrightarrow> nul_free k \<Longrightarrow> k \<noteq> [] \<Longrightarrow> lookup t k = ix_lookup eqk k xs"
begin

lemma lookup_add:
  assumes "rep t xs" "nul_free k" "k \<noteq> []" "nul_free k'" "k' \<noteq> []"
  shows "lookup (add k p t) k' = (if eqk k' k then Some p else lookup t k')"
  using lookup_rep [OF rep_add [OF assms(1-3)] assms(4,5)] lookup_rep [OF assms(1,4,5)]
  by (simp add: ix_lookup_def)

lemma run_rep:
  "rep t xs \<Longrightarrow> distinct (map snd xs) \<Longrightarrow> ixs_ok cs xs \<Longrightarrow>
   rep (fold (ix_run add del) cs t) (fold ix_abs cs xs) \<and> distinct (map snd (fold ix_abs cs xs))"
proof (induction cs arbitrary: t xs)
  case (Cons c cs)
  have "rep (ix_run add del c t) (ix_abs c xs) \<and> distinct (map snd (ix_abs c xs))"
    using Cons.prems rep_add rep_del by (cases c) (auto simp: distinct_map inj_on_def)
  then show ?case using Cons.IH [of "ix_run add del c t" "ix_abs c xs"] Cons.prems(3) by simp
qed simp

lemma run_lookup:
  assumes "rep t []" "ixs_ok cs []" "nul_free k" "k \<noteq> []"
  shows "lookup (fold (ix_run add del) cs t) k = ix_lookup eqk k (fold ix_abs cs [])"
  using run_rep [OF assms(1) _ assms(2)] lookup_rep assms(3,4) by simp

end

definition irc_rep :: "'a hash_f \<Rightarrow> (cstring \<times> 'a) list \<Rightarrow> bool" where
  "irc_rep hf xs = (hf_cmptype hf = CMP_IRCCMP \<and> hash_rep hf xs)"

definition id_rep :: "'a hash_f \<Rightarrow> (cstring \<times> 'a) list \<Rightarrow> bool" where
  "id_rep hf xs = (hf_cmptype hf = CMP_STRCMP \<and> hash_rep hf xs)"

definition irc_eq :: "cstring \<Rightarrow> cstring \<Rightarrow> bool" where
  "irc_eq k k' = (irc_fold k = irc_fold k')"

lemma cmptype_add [simp]: "hf_cmptype (hash_add k p hf) = hf_cmptype hf"
  by (simp add: hash_add_def hash_add_len_def Let_def)

lemma cmptype_del [simp]: "hf_cmptype (hash_del k p hf) = hf_cmptype hf"
  by (simp add: hash_del_def hash_del_len_def hash_free_bucket_def Let_def
      split: option.split list.split)

interpretation irc: name_index irc_rep hash_add hash_del hash_find_data irc_eq
  by unfold_locales
     (auto simp: irc_rep_def irc_eq_def hash_rep_add hash_rep_del hash_rep_find_data
        ix_lookup_def same_key_def)

interpretation ids: name_index id_rep hash_add hash_del hash_find_data "(=)"
  by unfold_locales
     (auto simp: id_rep_def hash_rep_add hash_rep_del hash_rep_find_data ix_lookup_def same_key_def)

lemma hash_create_rep:
  "hash_create n c b l = Some hf \<Longrightarrow> c \<noteq> CMP_MEMCMP \<Longrightarrow> 7 \<le> b \<Longrightarrow> b \<le> 17 \<Longrightarrow>
   hf_cmptype hf = c \<and> hash_rep hf []"
  using hash_create_func_matches [of n c b l hf]
  by (auto simp: hash_create_def hash_rep_def opt_bucket_def split: if_splits)

section \<open>Properties\<close>

text \<open>
  Every bucket index that the hash functions compute for the tables of \<open>init_hash\<close> is
  inside the table of \<open>2 ^ hashbits\<close> buckets, for every key and length.
\<close>

theorem hash_index_in_bounds:
  assumes "Some hf \<in> set init_hash"
  shows "unat (do_hfunc hf key len) < 2 ^ hf_hashbits hf"
proof -
  have "7 \<le> hf_hashbits hf \<and> hf_hashbits hf \<le> 17"
    using assms by (auto simp: init_hash_def init_hash_args_def hash_create_def)
  then show ?thesis by (simp add: do_hfunc_bound)
qed

theorem hash_index_in_bounds_witness:
  "unat (do_hfunc (the (hash_create ''Command'' CMP_IRCCMP 9 10) :: nat hash_f) ''PRIVMSG'' 8) < 512"
  using hash_index_in_bounds [of "the (hash_create ''Command'' CMP_IRCCMP 9 10)" "''PRIVMSG''" 8]
  by (simp add: init_hash_def init_hash_args_def hash_create_def)

text \<open>
  C29. A table that compares with \<open>irccmp\<close>, after any sequence of additions and deletions
  of entries, finds under a name the newest remaining entry whose name is the same up to
  IRC case, and nothing when there is none: the buckets, the length limit of the hash and
  the clipping of key lengths in \<open>hash_add_len\<close> do not show.
\<close>

theorem hash_table_refines:
  assumes "hash_create n CMP_IRCCMP b l = Some hf" "7 \<le> b" "b \<le> 17" "ixs_ok cs []"
    and "nul_free k" "k \<noteq> []"
  shows "hash_find_data (fold (ix_run hash_add hash_del) cs hf) k =
    ix_lookup irc_eq k (fold ix_abs cs [])"
proof -
  have "irc_rep hf []" using hash_create_rep [OF assms(1) _ assms(2,3)] by (simp add: irc_rep_def)
  then show ?thesis using irc.run_lookup assms(4-6) by blast
qed

theorem hash_table_refines_witness:
  "hash_find_data (fold (ix_run hash_add hash_del)
      [IxAdd ''#Ratbox'' 1, IxAdd ''#b'' 2, IxAdd ''#RATBOX'' (3 :: nat), IxDel ''#RATBOX'' 3]
      (the (hash_create ''Channel'' CMP_IRCCMP 16 30))) ''#ratbox'' = Some 1"
proof -
  let ?ops = "[IxAdd ''#Ratbox'' 1, IxAdd ''#b'' 2, IxAdd ''#RATBOX'' (3 :: nat), IxDel ''#RATBOX'' 3]"
  have "ixs_ok ?ops []" by simp
  moreover have "ix_lookup irc_eq ''#ratbox'' (fold ix_abs ?ops []) = Some 1" by code_simp
  ultimately show ?thesis
    using hash_table_refines [of "''Channel''" 16 30 "the (hash_create ''Channel'' CMP_IRCCMP 16 30)"
        ?ops "''#ratbox''"]
    by (simp add: hash_create_def)
qed

end
