(* ===== verification/World.thy ===== *)
theory World
  imports Hash Inet
begin

unbundle bit_operations_syntax

text \<open>
  The shared state of the channel code: clients, channels and memberships
  (\<open>include/struct.h\<close>, \<open>include/client.h\<close>, \<open>include/channel.h\<close>), addressed by numbers
  that stand for the pointers of the program. A linked list of pointers is the sequence of
  those numbers: \<open>rb_dlinkAdd\<close> is \<open>(#)\<close>, \<open>rb_dlinkDelete\<close> of a node and
  \<open>rb_dlinkFindDestroy\<close> of a datum are \<open>remove1\<close>, as \<open>Dlink\<close> justifies. A freed channel or
  membership is \<open>None\<close>; \<open>w_next\<close> is the address the next allocation gets.
\<close>

type_synonym cid = nat
type_synonym chid = nat
type_synonym mid = nat

section \<open>Clients\<close>

datatype client_status =
  STAT_CONNECTING | STAT_HANDSHAKE | STAT_ME | STAT_UNKNOWN | STAT_REJECT | STAT_SERVER | STAT_CLIENT

record client =
  cl_name :: cstring
  cl_username :: cstring
  cl_host :: cstring
  cl_sockhost :: cstring
  cl_info :: cstring
  cl_id :: cstring
  cl_status :: client_status
  cl_myconnect :: bool
  cl_servptr :: cid
  cl_user :: bool
  cl_channel :: "mid list"
  cl_invited :: "chid list"
  cl_invisible :: bool
  cl_oper :: bool
  cl_operspy :: bool
  cl_exemptresv :: bool
  cl_ipspoof :: bool
  cl_caps :: "32 word"
  cl_join_leave_count :: int
  cl_last_join_time :: int
  cl_last_leave_time :: int
  cl_oper_warn_count_down :: nat
  cl_flood_done :: bool
  cl_allow_read :: nat
  cl_sent_parsed :: int

definition IsClient :: "client \<Rightarrow> bool" where "IsClient c = (cl_status c = STAT_CLIENT)"
definition IsServer :: "client \<Rightarrow> bool" where "IsServer c = (cl_status c = STAT_SERVER)"
definition IsMe :: "client \<Rightarrow> bool" where "IsMe c = (cl_status c = STAT_ME)"
definition MyClient :: "client \<Rightarrow> bool" where "MyClient c = (cl_myconnect c \<and> IsClient c)"

definition IsCapable :: "client \<Rightarrow> 32 word \<Rightarrow> bool" where
  "IsCapable c cap = (cl_caps c AND cap = cap)"

definition NotCapable :: "client \<Rightarrow> 32 word \<Rightarrow> bool" where
  "NotCapable c cap = (cl_caps c AND cap = 0)"

definition use_id :: "client \<Rightarrow> cstring" where
  "use_id c = (if cl_id c \<noteq> [] then cl_id c else cl_name c)"

text \<open>\<open>me\<close>, the client structure of this server.\<close>

definition me :: cid where "me = 0"

section \<open>Channels and memberships\<close>

record ban =
  ban_banstr :: cstring
  ban_who :: cstring
  ban_when :: int

record topic_info =
  tp_topic :: cstring
  tp_topic_info :: cstring
  tp_topic_time :: int

record channel =
  ch_mode :: "32 word"
  ch_limit :: int
  ch_key :: cstring
  ch_topic :: "topic_info option"
  ch_noops :: "mid list"
  ch_ops :: "mid list"
  ch_locmembers :: "mid list"
  ch_invites :: "cid list"
  ch_banlist :: "ban list"
  ch_exceptlist :: "ban list"
  ch_invexlist :: "ban list"
  ch_ban_serial :: "32 word"
  ch_channelts :: int
  ch_chname :: cstring

record membership =
  ms_chptr :: chid
  ms_client_p :: cid
  ms_flags :: "32 word"
  ms_ban_serial :: "32 word"

definition BANLEN :: nat where "BANLEN = 30 + 10 + 63 + 6"
definition KEYLEN :: nat where "KEYLEN = 24"
definition CHANNELLEN :: nat where "CHANNELLEN = 200"
definition TOPIC_INFO_LEN :: nat where "TOPIC_INFO_LEN = 30 + 63 + 10 + 5"

definition CHFL_PEON :: "32 word" where "CHFL_PEON = 0x0000"
definition CHFL_CHANOP :: "32 word" where "CHFL_CHANOP = 0x0001"
definition CHFL_VOICE :: "32 word" where "CHFL_VOICE = 0x0002"
definition CHFL_DEOPPED :: "32 word" where "CHFL_DEOPPED = 0x0004"
definition CHFL_BANNED :: "32 word" where "CHFL_BANNED = 0x0008"

definition MODE_PRIVATE :: "32 word" where "MODE_PRIVATE = 0x0001"
definition MODE_SECRET :: "32 word" where "MODE_SECRET = 0x0002"
definition MODE_MODERATED :: "32 word" where "MODE_MODERATED = 0x0004"
definition MODE_TOPICLIMIT :: "32 word" where "MODE_TOPICLIMIT = 0x0008"
definition MODE_INVITEONLY :: "32 word" where "MODE_INVITEONLY = 0x0010"
definition MODE_NOPRIVMSGS :: "32 word" where "MODE_NOPRIVMSGS = 0x0020"
definition MODE_SSLONLY :: "32 word" where "MODE_SSLONLY = 0x0080"
definition CHFL_BAN :: "32 word" where "CHFL_BAN = 0x0100"
definition CHFL_EXCEPTION :: "32 word" where "CHFL_EXCEPTION = 0x0200"
definition CHFL_INVEX :: "32 word" where "CHFL_INVEX = 0x0400"

lemmas chfl_defs = CHFL_PEON_def CHFL_CHANOP_def CHFL_VOICE_def CHFL_DEOPPED_def CHFL_BANNED_def
lemmas mode_defs = MODE_PRIVATE_def MODE_SECRET_def MODE_MODERATED_def MODE_TOPICLIMIT_def
  MODE_INVITEONLY_def MODE_NOPRIVMSGS_def MODE_SSLONLY_def CHFL_BAN_def CHFL_EXCEPTION_def
  CHFL_INVEX_def

definition has_flag :: "32 word \<Rightarrow> 32 word \<Rightarrow> bool" where
  "has_flag w f = (w AND f \<noteq> 0)"

definition is_chanop :: "membership \<Rightarrow> bool" where "is_chanop m = has_flag (ms_flags m) CHFL_CHANOP"
definition is_voiced :: "membership \<Rightarrow> bool" where "is_voiced m = has_flag (ms_flags m) CHFL_VOICE"
definition is_chanop_voiced :: "membership \<Rightarrow> bool" where
  "is_chanop_voiced m = has_flag (ms_flags m) (CHFL_CHANOP OR CHFL_VOICE)"
definition is_deop :: "membership \<Rightarrow> bool" where "is_deop m = has_flag (ms_flags m) CHFL_DEOPPED"
definition can_send_banned :: "membership \<Rightarrow> bool" where
  "can_send_banned m = has_flag (ms_flags m) CHFL_BANNED"

section \<open>The world\<close>

record config =
  use_except :: bool
  use_invex :: bool
  use_sslonly :: bool
  quiet_on_ban :: bool
  max_bans :: nat
  topiclen :: nat
  max_chans_per_user :: nat
  spam_num :: int
  spam_time :: int

record world =
  w_clients :: "cid \<Rightarrow> client"
  w_channels :: "chid \<Rightarrow> channel option"
  w_mems :: "mid \<Rightarrow> membership option"
  w_next :: nat
  w_global :: "chid list"
  w_hash :: "chid hash_f"
  w_time :: int

abbreviation client_of :: "world \<Rightarrow> cid \<Rightarrow> client" where
  "client_of w c \<equiv> w_clients w c"

definition chan_of :: "world \<Rightarrow> chid \<Rightarrow> channel" where
  "chan_of w c = the (w_channels w c)"

definition mem_of :: "world \<Rightarrow> mid \<Rightarrow> membership" where
  "mem_of w m = the (w_mems w m)"

definition upd_client :: "cid \<Rightarrow> (client \<Rightarrow> client) \<Rightarrow> world \<Rightarrow> world" where
  "upd_client c f w = w\<lparr>w_clients := (w_clients w)(c := f (w_clients w c))\<rparr>"

definition upd_chan :: "chid \<Rightarrow> (channel \<Rightarrow> channel) \<Rightarrow> world \<Rightarrow> world" where
  "upd_chan c f w = w\<lparr>w_channels := (w_channels w)(c := Some (f (chan_of w c)))\<rparr>"

definition upd_mem :: "mid \<Rightarrow> (membership \<Rightarrow> membership) \<Rightarrow> world \<Rightarrow> world" where
  "upd_mem m f w = w\<lparr>w_mems := (w_mems w)(m := Some (f (mem_of w m)))\<rparr>"

lemma upd_client_sel [simp]:
  "w_clients (upd_client c f w) = (w_clients w)(c := f (w_clients w c))"
  "w_channels (upd_client c f w) = w_channels w" "w_mems (upd_client c f w) = w_mems w"
  "w_next (upd_client c f w) = w_next w" "w_global (upd_client c f w) = w_global w"
  "w_hash (upd_client c f w) = w_hash w" "w_time (upd_client c f w) = w_time w"
  by (simp_all add: upd_client_def)

lemma upd_chan_sel [simp]:
  "w_channels (upd_chan c f w) = (w_channels w)(c \<mapsto> f (chan_of w c))"
  "w_clients (upd_chan c f w) = w_clients w" "w_mems (upd_chan c f w) = w_mems w"
  "w_next (upd_chan c f w) = w_next w" "w_global (upd_chan c f w) = w_global w"
  "w_hash (upd_chan c f w) = w_hash w" "w_time (upd_chan c f w) = w_time w"
  by (simp_all add: upd_chan_def)

lemma upd_mem_sel [simp]:
  "w_mems (upd_mem m f w) = (w_mems w)(m \<mapsto> f (mem_of w m))"
  "w_clients (upd_mem m f w) = w_clients w" "w_channels (upd_mem m f w) = w_channels w"
  "w_next (upd_mem m f w) = w_next w" "w_global (upd_mem m f w) = w_global w"
  "w_hash (upd_mem m f w) = w_hash w" "w_time (upd_mem m f w) = w_time w"
  by (simp_all add: upd_mem_def)

section \<open>What the daemon sends\<close>

text \<open>
  \<open>Numeric\<close> is \<open>sendto_one_numeric\<close> with the name of the numeric and its arguments, \<open>ToOne\<close>
  \<open>sendto_one_buffer\<close>, \<open>ToChannel\<close> \<open>sendto_channel_local\<close> with the member flags, \<open>ToServer\<close>
  \<open>sendto_server\<close> with the client it does not go back to and the capabilities (its channel, that of
  the command or none, is left out here; what it does is in theory \<open>Send\<close>), and
  \<open>ToOpers\<close> \<open>sendto_realops_flags\<close>; \<open>OperSpy\<close> is \<open>report_operspy\<close>.
\<close>

datatype msg =
    Numeric cid cstring "cstring list"
  | ToOne cid cstring
  | ToChannel "32 word" chid cstring
  | ToServer cid "32 word" "32 word" cstring
  | ToOpers cstring
  | OperSpy cid cstring cstring

section \<open>Numbers in messages\<close>

fun string_of_nat :: "nat \<Rightarrow> cstring" where
  "string_of_nat n =
     (if n < 10 then [digit_char n] else string_of_nat (n div 10) @ [digit_char (n mod 10)])"

declare string_of_nat.simps [simp del]

definition string_of_int :: "int \<Rightarrow> cstring" where
  "string_of_int i = (if i < 0 then CHR ''-'' # string_of_nat (nat (- i)) else string_of_nat (nat i))"

section \<open>Flag words\<close>

lemma has_flag_or: "has_flag (w OR f) g = (has_flag w g \<or> has_flag f g)"
  by (auto simp: has_flag_def bit_eq_iff bit_simps)

lemma has_flag_clear: "f AND g = 0 \<Longrightarrow> has_flag (w AND NOT f) g = has_flag w g"
proof -
  assume "f AND g = 0"
  then have "(w AND NOT f) AND g = w AND g"
    by (auto simp: bit_eq_iff bit_simps)
  then show ?thesis by (simp add: has_flag_def)
qed

lemma has_flag_cleared: "\<not> has_flag (w AND NOT f) f"
  by (auto simp: has_flag_def bit_eq_iff bit_simps)

lemma chfl_disjoint:
  "CHFL_BANNED AND CHFL_CHANOP = 0" "CHFL_VOICE AND CHFL_CHANOP = 0" "CHFL_DEOPPED AND CHFL_CHANOP = 0"
  "CHFL_VOICE AND CHFL_BANNED = 0" "CHFL_DEOPPED AND CHFL_BANNED = 0" "CHFL_CHANOP AND CHFL_BANNED = 0"
  "\<not> has_flag CHFL_BANNED CHFL_CHANOP" "\<not> has_flag CHFL_VOICE CHFL_CHANOP"
  "has_flag CHFL_CHANOP CHFL_CHANOP" "has_flag CHFL_BANNED CHFL_BANNED"
  "\<not> has_flag CHFL_VOICE CHFL_BANNED" "\<not> has_flag CHFL_CHANOP CHFL_BANNED"
  by (simp_all add: chfl_defs has_flag_def)

lemma chanop_flag_simps [simp]:
  "has_flag (w AND NOT CHFL_BANNED) CHFL_CHANOP = has_flag w CHFL_CHANOP"
  "has_flag (w OR CHFL_BANNED) CHFL_CHANOP = has_flag w CHFL_CHANOP"
  "has_flag (w AND NOT CHFL_VOICE) CHFL_CHANOP = has_flag w CHFL_CHANOP"
  "has_flag (w OR CHFL_VOICE) CHFL_CHANOP = has_flag w CHFL_CHANOP"
  "has_flag (w AND NOT CHFL_DEOPPED) CHFL_CHANOP = has_flag w CHFL_CHANOP"
  "\<not> has_flag (w AND NOT CHFL_CHANOP) CHFL_CHANOP"
  "has_flag (w OR CHFL_CHANOP) CHFL_CHANOP"
  by (simp_all add: has_flag_or has_flag_clear has_flag_cleared chfl_disjoint)

lemma banned_flag_simps [simp]:
  "\<not> has_flag (w AND NOT CHFL_BANNED) CHFL_BANNED"
  "has_flag (w OR CHFL_BANNED) CHFL_BANNED"
  "has_flag (w AND NOT CHFL_VOICE) CHFL_BANNED = has_flag w CHFL_BANNED"
  "has_flag (w OR CHFL_VOICE) CHFL_BANNED = has_flag w CHFL_BANNED"
  "has_flag (w AND NOT CHFL_DEOPPED) CHFL_BANNED = has_flag w CHFL_BANNED"
  "has_flag (w AND NOT CHFL_CHANOP) CHFL_BANNED = has_flag w CHFL_BANNED"
  "has_flag (w OR CHFL_CHANOP) CHFL_BANNED = has_flag w CHFL_BANNED"
  by (simp_all add: has_flag_or has_flag_clear has_flag_cleared chfl_disjoint)

end
