(* ===== verification/Channel.thy ===== *)
theory Channel
  imports World
begin

unbundle bit_operations_syntax

text \<open>
  The operations of \<open>src/channel.c\<close> on memberships, invitations and the table of channels,
  \<open>get_or_create_channel\<close> of \<open>modules/core/m_join.c\<close> and \<open>add_invite\<close> of
  \<open>modules/m_invite.c\<close>, and the invariant that ties the lists of channels and clients to
  the memberships, with its preservation by every operation.
\<close>

section \<open>Looking up\<close>

definition find_channel :: "world \<Rightarrow> cstring \<Rightarrow> chid option" where
  "find_channel w name = (if name = [] then None else hash_find_data (w_hash w) name)"

definition chan_member_count :: "channel \<Rightarrow> nat" where
  "chan_member_count ch = length (ch_noops ch) + length (ch_ops ch)"

definition find_channel_membership :: "world \<Rightarrow> chid \<Rightarrow> cid \<Rightarrow> mid option" where
  "find_channel_membership w chptr client_p =
     (if \<not> IsClient (client_of w client_p) then None
      else if chan_member_count (chan_of w chptr) < length (cl_channel (client_of w client_p)) then
        (case find (\<lambda>m. ms_client_p (mem_of w m) = client_p) (ch_noops (chan_of w chptr)) of
           Some m \<Rightarrow> Some m
         | None \<Rightarrow> find (\<lambda>m. ms_client_p (mem_of w m) = client_p) (ch_ops (chan_of w chptr)))
      else find (\<lambda>m. ms_chptr (mem_of w m) = chptr) (cl_channel (client_of w client_p)))"

definition IsMember :: "world \<Rightarrow> cid \<Rightarrow> chid \<Rightarrow> bool" where
  "IsMember w who chan =
     (cl_user (client_of w who) \<and> find_channel_membership w chan who \<noteq> None)"

definition find_channel_status :: "membership \<Rightarrow> bool \<Rightarrow> cstring" where
  "find_channel_status msptr combine =
     (if is_chanop msptr \<and> \<not> combine then ''@''
      else (if is_chanop msptr then ''@'' else '''') @ (if is_voiced msptr then ''+'' else ''''))"

fun check_channel_name :: "cstring \<Rightarrow> bool" where
  "check_channel_name [] = True"
| "check_channel_name (c # name) = (if \<not> IsChanChar c then False else check_channel_name name)"

section \<open>Joining and leaving\<close>

definition memlist_update ::
  "membership \<Rightarrow> (mid list \<Rightarrow> mid list) \<Rightarrow> channel \<Rightarrow> channel" where
  "memlist_update msptr f ch =
     (if is_chanop msptr then ch\<lparr>ch_ops := f (ch_ops ch)\<rparr> else ch\<lparr>ch_noops := f (ch_noops ch)\<rparr>)"

definition add_user_to_channel :: "chid \<Rightarrow> cid \<Rightarrow> 32 word \<Rightarrow> world \<Rightarrow> world" where
  "add_user_to_channel chptr client_p flags w =
     (if \<not> cl_user (client_of w client_p) then w
      else
        (let msptr = w_next w;
             ms = \<lparr>ms_chptr = chptr, ms_client_p = client_p, ms_flags = flags, ms_ban_serial = 0\<rparr>;
             w1 = w\<lparr>w_mems := (w_mems w)(msptr \<mapsto> ms), w_next := Suc msptr\<rparr>;
             w2 = upd_client client_p (\<lambda>c. c\<lparr>cl_channel := msptr # cl_channel c\<rparr>) w1;
             w3 = upd_chan chptr (memlist_update ms (\<lambda>l. msptr # l)) w2
         in if MyClient (client_of w client_p)
            then upd_chan chptr (\<lambda>ch. ch\<lparr>ch_locmembers := msptr # ch_locmembers ch\<rparr>) w3
            else w3))"

definition del_invite :: "chid \<Rightarrow> cid \<Rightarrow> world \<Rightarrow> world" where
  "del_invite chptr who w =
     upd_client who (\<lambda>c. c\<lparr>cl_invited := remove1 chptr (cl_invited c)\<rparr>)
       (upd_chan chptr (\<lambda>ch. ch\<lparr>ch_invites := remove1 who (ch_invites ch)\<rparr>) w)"

definition destroy_channel :: "chid \<Rightarrow> world \<Rightarrow> world" where
  "destroy_channel chptr w =
     (let w1 = fold (del_invite chptr) (ch_invites (chan_of w chptr)) w;
          w2 = upd_chan chptr
                 (\<lambda>ch. ch\<lparr>ch_banlist := [], ch_exceptlist := [], ch_invexlist := [], ch_topic := None\<rparr>) w1
      in w2\<lparr>w_global := remove1 chptr (w_global w2),
            w_hash := hash_del (ch_chname (chan_of w2 chptr)) chptr (w_hash w2),
            w_channels := (w_channels w2)(chptr := None)\<rparr>)"

text \<open>The part that \<open>remove_user_from_channel\<close> and \<open>remove_user_from_channels\<close> share.\<close>

definition unlink_member :: "cid \<Rightarrow> mid \<Rightarrow> world \<Rightarrow> world" where
  "unlink_member client_p msptr w =
     (let ms = mem_of w msptr; chptr = ms_chptr ms;
          w1 = upd_chan chptr (memlist_update ms (remove1 msptr)) w;
          w2 = (if cl_servptr (client_of w client_p) = me
                then upd_chan chptr (\<lambda>ch. ch\<lparr>ch_locmembers := remove1 msptr (ch_locmembers ch)\<rparr>) w1
                else w1);
          w3 = (if chan_member_count (chan_of w2 chptr) = 0 then destroy_channel chptr w2 else w2)
      in w3\<lparr>w_mems := (w_mems w3)(msptr := None)\<rparr>)"

definition remove_user_from_channel :: "mid \<Rightarrow> world \<Rightarrow> world" where
  "remove_user_from_channel msptr w =
     (let client_p = ms_client_p (mem_of w msptr)
      in unlink_member client_p msptr
           (upd_client client_p (\<lambda>c. c\<lparr>cl_channel := remove1 msptr (cl_channel c)\<rparr>) w))"

definition remove_user_from_channels :: "cid \<Rightarrow> world \<Rightarrow> world" where
  "remove_user_from_channels client_p w =
     upd_client client_p (\<lambda>c. c\<lparr>cl_channel := []\<rparr>)
       (fold (unlink_member client_p) (cl_channel (client_of w client_p)) w)"

definition invalidate_bancache_user :: "cid \<Rightarrow> world \<Rightarrow> world" where
  "invalidate_bancache_user client_p w =
     fold (\<lambda>m. upd_mem m (\<lambda>ms. ms\<lparr>ms_ban_serial := 0, ms_flags := ms_flags ms AND NOT CHFL_BANNED\<rparr>))
       (cl_channel (client_of w client_p)) w"

section \<open>Invitations\<close>

text \<open>\<open>None\<close>: the tail of an empty list is dereferenced.\<close>

definition add_invite :: "config \<Rightarrow> chid \<Rightarrow> cid \<Rightarrow> world \<Rightarrow> world option" where
  "add_invite cfg chptr who w =
     (let invited = cl_invited (client_of w who);
          link = (\<lambda>w'. upd_client who (\<lambda>c. c\<lparr>cl_invited := chptr # cl_invited c\<rparr>)
                     (upd_chan chptr (\<lambda>ch. ch\<lparr>ch_invites := who # ch_invites ch\<rparr>) w'))
      in if chptr \<in> set invited then Some w
         else if length invited \<ge> max_chans_per_user cfg then
           (if invited = [] then None else Some (link (del_invite (last invited) who w)))
         else Some (link w))"

section \<open>Creating channels\<close>

definition new_channel :: "cstring \<Rightarrow> int \<Rightarrow> channel" where
  "new_channel chname ts =
     \<lparr>ch_mode = 0, ch_limit = 0, ch_key = [], ch_topic = None, ch_noops = [], ch_ops = [],
      ch_locmembers = [], ch_invites = [], ch_banlist = [], ch_exceptlist = [], ch_invexlist = [],
      ch_ban_serial = 0, ch_channelts = ts, ch_chname = chname\<rparr>"

definition get_or_create_channel :: "cstring \<Rightarrow> world \<Rightarrow> chid option \<times> bool \<times> world" where
  "get_or_create_channel chname w =
     (if chname = [] then (None, False, w)
      else
        (let s = (if length chname > CHANNELLEN then take CHANNELLEN chname else chname)
         in case find_channel w s of
              Some chptr \<Rightarrow> (Some chptr, False, w)
            | None \<Rightarrow>
                (let chptr = w_next w; name = strlcpy s CHANNELLEN
                 in (Some chptr, True,
                     w\<lparr>w_channels := (w_channels w)(chptr \<mapsto> new_channel name (w_time w)),
                       w_next := Suc chptr, w_global := chptr # w_global w,
                       w_hash := hash_add name chptr (w_hash w)\<rparr>))))"

section \<open>Topics\<close>

definition set_channel_topic :: "config \<Rightarrow> chid \<Rightarrow> cstring \<Rightarrow> cstring \<Rightarrow> int \<Rightarrow> world \<Rightarrow> world" where
  "set_channel_topic cfg chptr topic info topicts w =
     upd_chan chptr
       (\<lambda>ch. ch\<lparr>ch_topic :=
          (if length topic > 0 then
             Some \<lparr>tp_topic = strlcpy topic (topiclen cfg + 1),
                   tp_topic_info = strlcpy info TOPIC_INFO_LEN, tp_topic_time = topicts\<rparr>
           else None)\<rparr>) w"

section \<open>The membership invariant\<close>

text \<open>
  The memberships are the truth; every list is an index into them. \<open>cs\<close> is the set of
  memberships that satisfy a condition.
\<close>

definition mems_where :: "world \<Rightarrow> (membership \<Rightarrow> bool) \<Rightarrow> mid set" where
  "mems_where w P = {m. \<exists>ms. w_mems w m = Some ms \<and> P ms}"

definition indexes :: "mid list \<Rightarrow> mid set \<Rightarrow> bool" where
  "indexes l s = (distinct l \<and> set l = s)"

definition chan_lists_ok :: "world \<Rightarrow> chid \<Rightarrow> channel \<Rightarrow> bool" where
  "chan_lists_ok w ch c =
     (indexes (ch_ops c) (mems_where w (\<lambda>ms. ms_chptr ms = ch \<and> is_chanop ms)) \<and>
      indexes (ch_noops c) (mems_where w (\<lambda>ms. ms_chptr ms = ch \<and> \<not> is_chanop ms)) \<and>
      indexes (ch_locmembers c)
        (mems_where w (\<lambda>ms. ms_chptr ms = ch \<and> MyClient (client_of w (ms_client_p ms)))))"

definition user_list_ok :: "world \<Rightarrow> cid \<Rightarrow> bool" where
  "user_list_ok w cl =
     indexes (cl_channel (client_of w cl)) (mems_where w (\<lambda>ms. ms_client_p ms = cl))"

definition mem_ok :: "world \<Rightarrow> membership \<Rightarrow> bool" where
  "mem_ok w ms = (w_channels w (ms_chptr ms) \<noteq> None \<and> IsClient (client_of w (ms_client_p ms)) \<and>
     cl_user (client_of w (ms_client_p ms)))"

definition one_membership :: "world \<Rightarrow> bool" where
  "one_membership w =
     (\<forall>m m' ms ms'. w_mems w m = Some ms \<longrightarrow> w_mems w m' = Some ms' \<longrightarrow>
        ms_chptr ms = ms_chptr ms' \<longrightarrow> ms_client_p ms = ms_client_p ms' \<longrightarrow> m = m')"

definition clients_ok :: "world \<Rightarrow> bool" where
  "clients_ok w =
     (\<forall>cl. IsClient (client_of w cl) \<longrightarrow>
        (cl_servptr (client_of w cl) = me \<longleftrightarrow> cl_myconnect (client_of w cl)))"

definition fresh_ok :: "world \<Rightarrow> bool" where
  "fresh_ok w = (\<forall>i \<ge> w_next w. w_mems w i = None \<and> w_channels w i = None)"

definition mem_inv :: "world \<Rightarrow> bool" where
  "mem_inv w =
     ((\<forall>ch c. w_channels w ch = Some c \<longrightarrow> chan_lists_ok w ch c) \<and> (\<forall>cl. user_list_ok w cl) \<and>
      (\<forall>m ms. w_mems w m = Some ms \<longrightarrow> mem_ok w ms) \<and> one_membership w \<and> clients_ok w \<and> fresh_ok w)"

text \<open>The table of channels and the global list hold the same channels under their names.\<close>

definition name_inv :: "world \<Rightarrow> bool" where
  "name_inv w =
     (distinct (w_global w) \<and> set (w_global w) = dom (w_channels w) \<and>
      irc_rep (w_hash w) (map (\<lambda>c. (ch_chname (chan_of w c), c)) (w_global w)))"

text \<open>Invitations are recorded on both sides.\<close>

definition invite_inv :: "world \<Rightarrow> bool" where
  "invite_inv w =
     ((\<forall>ch c. w_channels w ch = Some c \<longrightarrow> distinct (ch_invites c) \<and>
         (\<forall>cl. cl \<in> set (ch_invites c) \<longleftrightarrow> ch \<in> set (cl_invited (client_of w cl)))) \<and>
      (\<forall>cl. distinct (cl_invited (client_of w cl)) \<and> set (cl_invited (client_of w cl)) \<subseteq> dom (w_channels w)))"

definition world_inv :: "world \<Rightarrow> bool" where
  "world_inv w = (mem_inv w \<and> name_inv w \<and> invite_inv w)"

lemma mem_inv_channel: "mem_inv w \<Longrightarrow> w_mems w m = Some ms \<Longrightarrow> \<exists>c. w_channels w (ms_chptr ms) = Some c"
  unfolding mem_inv_def mem_ok_def by blast

lemma indexes_Cons: "indexes l s \<Longrightarrow> m \<notin> s \<Longrightarrow> indexes (m # l) (insert m s)"
  by (auto simp: indexes_def)

lemma indexes_remove1: "indexes l s \<Longrightarrow> indexes (remove1 m l) (s - {m})"
  by (auto simp: indexes_def)

lemma mems_where_add:
  "w_mems w' = (w_mems w)(m \<mapsto> ms) \<Longrightarrow> w_mems w m = None \<Longrightarrow>
   mems_where w' P = (if P ms then insert m (mems_where w P) else mems_where w P)"
  by (auto simp: mems_where_def)

lemma mems_where_del:
  "w_mems w' = (w_mems w)(m := None) \<Longrightarrow> mems_where w' P = mems_where w P - {m}"
  by (auto simp: mems_where_def)

lemma fresh_not_where: "w_mems w m = None \<Longrightarrow> m \<notin> mems_where w P"
  by (simp add: mems_where_def)

lemma chan_of_Some [simp]: "w_channels w ch = Some c \<Longrightarrow> chan_of w ch = c"
  by (simp add: chan_of_def)

lemma mem_of_Some [simp]: "w_mems w m = Some ms \<Longrightarrow> mem_of w m = ms"
  by (simp add: mem_of_def)

lemma memlist_update_sel [simp]:
  "ch_ops (memlist_update ms f c) = (if is_chanop ms then f (ch_ops c) else ch_ops c)"
  "ch_noops (memlist_update ms f c) = (if is_chanop ms then ch_noops c else f (ch_noops c))"
  "ch_locmembers (memlist_update ms f c) = ch_locmembers c"
  "ch_invites (memlist_update ms f c) = ch_invites c" "ch_chname (memlist_update ms f c) = ch_chname c"
  by (simp_all add: memlist_update_def)

section \<open>Joining\<close>

definition link_member :: "bool \<Rightarrow> membership \<Rightarrow> mid \<Rightarrow> channel \<Rightarrow> channel" where
  "link_member my ms m c =
     (let c1 = memlist_update ms (\<lambda>l. m # l) c
      in if my then c1\<lparr>ch_locmembers := m # ch_locmembers c1\<rparr> else c1)"

lemma link_member_sel [simp]:
  "ch_ops (link_member my ms m c) = (if is_chanop ms then m # ch_ops c else ch_ops c)"
  "ch_noops (link_member my ms m c) = (if is_chanop ms then ch_noops c else m # ch_noops c)"
  "ch_locmembers (link_member my ms m c) = (if my then m # ch_locmembers c else ch_locmembers c)"
  "ch_invites (link_member my ms m c) = ch_invites c" "ch_chname (link_member my ms m c) = ch_chname c"
  by (simp_all add: link_member_def Let_def)

lemma add_user_sel:
  fixes w :: world and flags :: "32 word"
  assumes "cl_user (client_of w cl)" "w_channels w ch = Some c"
  defines "ms \<equiv> \<lparr>ms_chptr = ch, ms_client_p = cl, ms_flags = flags, ms_ban_serial = 0\<rparr>"
  defines "w' \<equiv> add_user_to_channel ch cl flags w"
  shows "w_mems w' = (w_mems w)(w_next w \<mapsto> ms)"
    and "w_clients w' = (w_clients w)
      (cl := (client_of w cl)\<lparr>cl_channel := w_next w # cl_channel (client_of w cl)\<rparr>)"
    and "w_channels w' = (w_channels w)(ch \<mapsto> link_member (MyClient (client_of w cl)) ms (w_next w) c)"
    and "w_next w' = Suc (w_next w)" "w_global w' = w_global w" "w_hash w' = w_hash w"
  using assms(1,2)
  by (simp_all add: w'_def ms_def add_user_to_channel_def link_member_def Let_def chan_of_def)

lemma add_user_mem_inv:
  assumes inv: "mem_inv w" and ch: "w_channels w ch = Some c"
    and cl: "IsClient (client_of w cl)" "cl_user (client_of w cl)"
    and new: "\<And>m ms. w_mems w m = Some ms \<Longrightarrow> \<not> (ms_chptr ms = ch \<and> ms_client_p ms = cl)"
  shows "mem_inv (add_user_to_channel ch cl flags w)"
proof -
  let ?w = "add_user_to_channel ch cl flags w" and ?m = "w_next w"
  let ?ms = "\<lparr>ms_chptr = ch, ms_client_p = cl, ms_flags = flags, ms_ban_serial = 0\<rparr>"
  note sel = add_user_sel [OF cl(2) ch, of flags]
  have none: "w_mems w ?m = None" using inv by (simp add: mem_inv_def fresh_ok_def)
  have whr: "mems_where ?w P = (if P ?ms then insert ?m (mems_where w P) else mems_where w P)" for P
    by (rule mems_where_add [OF sel(1) none])
  have my: "MyClient (client_of ?w x) = MyClient (client_of w x)"
    "IsClient (client_of ?w x) = IsClient (client_of w x)" "cl_user (client_of ?w x) = cl_user (client_of w x)"
    "cl_servptr (client_of ?w x) = cl_servptr (client_of w x)"
    "cl_myconnect (client_of ?w x) = cl_myconnect (client_of w x)" for x
    by (simp_all add: sel(2) MyClient_def IsClient_def)
  have lists: "chan_lists_ok ?w ch' d" if "w_channels ?w ch' = Some d" for ch' d
  proof (cases "ch' = ch")
    case True
    have "chan_lists_ok w ch c" using inv ch by (simp add: mem_inv_def)
    then show ?thesis
      using True that by (auto simp: sel(3) chan_lists_ok_def whr my indexes_Cons fresh_not_where none)
  next
    case False
    then have "chan_lists_ok w ch' d" using that inv sel(3) by (simp add: mem_inv_def)
    then show ?thesis using False by (auto simp: chan_lists_ok_def whr my)
  qed
  have users: "user_list_ok ?w x" for x
    using inv none by (auto simp: mem_inv_def user_list_ok_def whr sel(2) indexes_Cons fresh_not_where)
  have mems: "mem_ok ?w ms" if "w_mems ?w m = Some ms" for m ms
    using that inv ch cl by (auto simp: sel(1) mem_ok_def mem_inv_def sel(3) my split: if_splits)
  have one: "one_membership ?w"
    using inv new unfolding one_membership_def mem_inv_def sel(1)
    by (auto split: if_splits)
  have "clients_ok ?w" "fresh_ok ?w"
    using inv ch by (auto simp: mem_inv_def clients_ok_def fresh_ok_def my sel(1,3,4))
  then show ?thesis using lists users mems one by (simp add: mem_inv_def)
qed

section \<open>Destroying a channel\<close>

definition uninvite :: "chid \<Rightarrow> client \<Rightarrow> client" where
  "uninvite ch x = x\<lparr>cl_invited := remove1 ch (cl_invited x)\<rparr>"

lemma uninvite_sel [simp]:
  "cl_invited (uninvite ch x) = remove1 ch (cl_invited x)" "cl_channel (uninvite ch x) = cl_channel x"
  "IsClient (uninvite ch x) = IsClient x" "MyClient (uninvite ch x) = MyClient x"
  "cl_user (uninvite ch x) = cl_user x" "cl_servptr (uninvite ch x) = cl_servptr x"
  "cl_myconnect (uninvite ch x) = cl_myconnect x"
  by (simp_all add: uninvite_def IsClient_def MyClient_def)

lemma fold_del_invite:
  "w_channels w ch = Some c \<Longrightarrow> distinct xs \<Longrightarrow>
   w_mems (fold (del_invite ch) xs w) = w_mems w \<and> w_next (fold (del_invite ch) xs w) = w_next w \<and>
   w_global (fold (del_invite ch) xs w) = w_global w \<and> w_hash (fold (del_invite ch) xs w) = w_hash w \<and>
   w_channels (fold (del_invite ch) xs w) =
     (w_channels w)(ch \<mapsto> c\<lparr>ch_invites := fold remove1 xs (ch_invites c)\<rparr>) \<and>
   w_clients (fold (del_invite ch) xs w) =
     (\<lambda>x. if x \<in> set xs then uninvite ch (w_clients w x) else w_clients w x)"
proof (induction xs arbitrary: w c)
  case Nil
  then show ?case by auto
next
  case (Cons x xs)
  have "w_channels (del_invite ch x w) ch = Some (c\<lparr>ch_invites := remove1 x (ch_invites c)\<rparr>)"
    using Cons.prems by (simp add: del_invite_def)
  from Cons.IH [OF this] Cons.prems show ?case
    by (auto simp: del_invite_def uninvite_def)
qed

lemma destroy_sel:
  assumes "w_channels w ch = Some c" "distinct (ch_invites c)"
  shows "w_mems (destroy_channel ch w) = w_mems w" "w_next (destroy_channel ch w) = w_next w"
    "w_global (destroy_channel ch w) = remove1 ch (w_global w)"
    "w_hash (destroy_channel ch w) = hash_del (ch_chname c) ch (w_hash w)"
    "w_channels (destroy_channel ch w) = (w_channels w)(ch := None)"
    "w_clients (destroy_channel ch w) =
       (\<lambda>x. if x \<in> set (ch_invites c) then uninvite ch (w_clients w x) else w_clients w x)"
  using assms fold_del_invite [OF assms] by (simp_all add: destroy_channel_def Let_def)

lemma destroy_clients [simp]:
  assumes "w_channels w ch = Some c" "distinct (ch_invites c)"
  shows "IsClient (client_of (destroy_channel ch w) x) = IsClient (client_of w x)"
    "MyClient (client_of (destroy_channel ch w) x) = MyClient (client_of w x)"
    "cl_user (client_of (destroy_channel ch w) x) = cl_user (client_of w x)"
    "cl_servptr (client_of (destroy_channel ch w) x) = cl_servptr (client_of w x)"
    "cl_myconnect (client_of (destroy_channel ch w) x) = cl_myconnect (client_of w x)"
    "cl_channel (client_of (destroy_channel ch w) x) = cl_channel (client_of w x)"
  using destroy_sel(6) [OF assms] by simp_all

lemma destroy_mem_inv:
  assumes inv: "mem_inv w" and c: "w_channels w ch = Some c" "distinct (ch_invites c)"
    and empty: "\<And>m ms. w_mems w m = Some ms \<Longrightarrow> ms_chptr ms \<noteq> ch"
  shows "mem_inv (destroy_channel ch w)"
proof -
  have whr: "mems_where (destroy_channel ch w) P = mems_where w P" for P
    by (simp add: mems_where_def destroy_sel [OF c])
  have "chan_lists_ok (destroy_channel ch w) x d" if "w_channels (destroy_channel ch w) x = Some d" for x d
    using that inv by (auto simp: destroy_sel [OF c] chan_lists_ok_def whr destroy_clients [OF c] mem_inv_def split: if_splits)
  moreover have "user_list_ok (destroy_channel ch w) x" for x
    using inv by (simp add: mem_inv_def user_list_ok_def whr destroy_clients [OF c])
  moreover have "mem_ok (destroy_channel ch w) ms" if "w_mems (destroy_channel ch w) m = Some ms" for m ms
    using that inv empty by (auto simp: destroy_sel [OF c] mem_ok_def mem_inv_def destroy_clients [OF c])
  moreover have "one_membership (destroy_channel ch w)" "clients_ok (destroy_channel ch w)"
    "fresh_ok (destroy_channel ch w)"
    using inv by (auto simp: mem_inv_def one_membership_def clients_ok_def fresh_ok_def destroy_sel [OF c]
        destroy_clients [OF c])
  ultimately show ?thesis by (simp add: mem_inv_def)
qed

lemma destroy_name_inv:
  assumes inv: "name_inv w" and c: "w_channels w ch = Some c" "distinct (ch_invites c)"
  shows "name_inv (destroy_channel ch w)"
proof -
  let ?xs = "map (\<lambda>x. (ch_chname (chan_of w x), x)) (w_global w)"
  have g: "distinct (w_global w)" "ch \<in> set (w_global w)" "irc_rep (w_hash w) ?xs"
    using inv c by (auto simp: name_inv_def)
  have "(ch_chname c, ch) \<in> set ?xs" using g c by force
  moreover have "distinct (map snd ?xs)" using g(1) by (simp add: o_def)
  ultimately have "irc_rep (hash_del (ch_chname c) ch (w_hash w)) (filter (\<lambda>e. snd e \<noteq> ch) ?xs)"
    using irc.rep_del [OF g(3)] by simp
  moreover have "filter (\<lambda>e. snd e \<noteq> ch) ?xs =
      map (\<lambda>x. (ch_chname (chan_of (destroy_channel ch w) x), x)) (remove1 ch (w_global w))"
  proof -
    have "remove1 ch (w_global w) = filter (\<lambda>x. x \<noteq> ch) (w_global w)"
      using g(1) by (rule distinct_remove1_filter)
    then show ?thesis
      by (simp add: filter_map o_def chan_of_def destroy_sel [OF c])
  qed
  ultimately show ?thesis
    using inv by (auto simp: name_inv_def destroy_sel [OF c])
qed

lemma destroy_invite_inv:
  assumes inv: "invite_inv w" and c: "w_channels w ch = Some c" "distinct (ch_invites c)"
  shows "invite_inv (destroy_channel ch w)"
  using inv c unfolding invite_inv_def destroy_sel [OF c]
  by (auto split: if_splits dest: notin_set_remove1)

section \<open>Leaving\<close>

definition unlink_chan :: "bool \<Rightarrow> membership \<Rightarrow> mid \<Rightarrow> channel \<Rightarrow> channel" where
  "unlink_chan my ms m c =
     (let c1 = memlist_update ms (remove1 m) c
      in if my then c1\<lparr>ch_locmembers := remove1 m (ch_locmembers c1)\<rparr> else c1)"

lemma unlink_chan_sel [simp]:
  "ch_ops (unlink_chan my ms m c) = (if is_chanop ms then remove1 m (ch_ops c) else ch_ops c)"
  "ch_noops (unlink_chan my ms m c) = (if is_chanop ms then ch_noops c else remove1 m (ch_noops c))"
  "ch_locmembers (unlink_chan my ms m c) = (if my then remove1 m (ch_locmembers c) else ch_locmembers c)"
  "ch_invites (unlink_chan my ms m c) = ch_invites c" "ch_chname (unlink_chan my ms m c) = ch_chname c"
  by (simp_all add: unlink_chan_def Let_def)

text \<open>The world before the channel is destroyed, with the membership already freed.\<close>

definition unlinked :: "cid \<Rightarrow> mid \<Rightarrow> world \<Rightarrow> world" where
  "unlinked cl m w =
     (let ms = mem_of w m; ch = ms_chptr ms
      in w\<lparr>w_channels := (w_channels w)
             (ch \<mapsto> unlink_chan (cl_servptr (client_of w cl) = me) ms m (chan_of w ch)),
           w_mems := (w_mems w)(m := None)\<rparr>)"

lemma del_invite_mems: "del_invite ch x (w\<lparr>w_mems := f\<rparr>) = (del_invite ch x w)\<lparr>w_mems := f\<rparr>"
  by (simp add: del_invite_def upd_client_def upd_chan_def chan_of_def)

lemma fold_del_invite_mems:
  "fold (del_invite ch) xs (w\<lparr>w_mems := f\<rparr>) = (fold (del_invite ch) xs w)\<lparr>w_mems := f\<rparr>"
  by (induction xs arbitrary: w) (simp_all add: del_invite_mems)

lemma destroy_mems: "destroy_channel ch (w\<lparr>w_mems := f\<rparr>) = (destroy_channel ch w)\<lparr>w_mems := f\<rparr>"
  by (simp add: destroy_channel_def Let_def fold_del_invite_mems upd_chan_def chan_of_def)

lemma destroy_keeps_mems: "w_mems (destroy_channel ch w) = w_mems w"
proof -
  have "w_mems (fold (del_invite ch) xs v) = w_mems v" for xs v
    by (induction xs arbitrary: v) (simp_all add: del_invite_def)
  then show ?thesis by (simp add: destroy_channel_def Let_def)
qed

lemma unlink_member_eq:
  "unlink_member cl m w =
     (let w' = unlinked cl m w; ch = ms_chptr (mem_of w m)
      in if chan_member_count (chan_of w' ch) = 0 then destroy_channel ch w' else w')"
proof -
  let ?ms = "mem_of w m"
  let ?ch = "ms_chptr ?ms"
  let ?v = "w\<lparr>w_channels := (w_channels w)
      (?ch \<mapsto> unlink_chan (cl_servptr (client_of w cl) = me) ?ms m (chan_of w ?ch))\<rparr>"
  have "unlink_member cl m w =
      (let w3 = (if chan_member_count (chan_of ?v ?ch) = 0 then destroy_channel ?ch ?v else ?v)
       in w3\<lparr>w_mems := (w_mems w3)(m := None)\<rparr>)"
    by (simp add: unlink_member_def unlink_chan_def Let_def upd_chan_def chan_of_def)
  moreover have "unlinked cl m w = ?v\<lparr>w_mems := (w_mems w)(m := None)\<rparr>"
    by (simp add: unlinked_def Let_def)
  ultimately show ?thesis
    by (simp add: Let_def destroy_mems destroy_keeps_mems chan_of_def)
qed

lemma indexes_same: "indexes l s \<Longrightarrow> m \<notin> s \<Longrightarrow> indexes l (s - {m})"
  by simp

lemma unlinked_mem_inv:
  assumes inv: "mem_inv w" and ms: "w_mems w m = Some ms" and cl: "cl = ms_client_p ms"
  defines "w' \<equiv> unlinked cl m (upd_client cl (\<lambda>c. c\<lparr>cl_channel := remove1 m (cl_channel c)\<rparr>) w)"
  shows "mem_inv w'"
proof -
  let ?ch = "ms_chptr ms"
  have ok: "mem_ok w ms" and cok: "clients_ok w" using inv ms by (auto simp: mem_inv_def)
  obtain c where c: "w_channels w ?ch = Some c" using ok by (auto simp: mem_ok_def)
  have my: "(cl_servptr (client_of w cl) = me) = MyClient (client_of w cl)"
    using ok cok cl by (simp add: mem_ok_def clients_ok_def MyClient_def)
  have sel: "w_mems w' = (w_mems w)(m := None)" "w_next w' = w_next w"
    "w_clients w' = (w_clients w)(cl := (client_of w cl)\<lparr>cl_channel := remove1 m (cl_channel (client_of w cl))\<rparr>)"
    "w_channels w' = (w_channels w)(?ch \<mapsto> unlink_chan (MyClient (client_of w cl)) ms m c)"
    using c my by (simp_all add: w'_def unlinked_def mem_of_def chan_of_def ms Let_def)
  have whr: "mems_where w' P = mems_where w P - {m}" for P
    by (rule mems_where_del [OF sel(1)])
  have in_whr: "m \<in> mems_where w P \<longleftrightarrow> P ms" for P
    using ms by (auto simp: mems_where_def)
  have cls: "MyClient (client_of w' x) = MyClient (client_of w x)" "IsClient (client_of w' x) = IsClient (client_of w x)"
    "cl_user (client_of w' x) = cl_user (client_of w x)" "cl_servptr (client_of w' x) = cl_servptr (client_of w x)"
    "cl_myconnect (client_of w' x) = cl_myconnect (client_of w x)" for x
    by (simp_all add: sel(3) MyClient_def IsClient_def)
  have "chan_lists_ok w' x d" if "w_channels w' x = Some d" for x d
  proof (cases "x = ?ch")
    case True
    have "chan_lists_ok w ?ch c" using inv c by (simp add: mem_inv_def)
    then show ?thesis
      using True that cl by (auto simp: sel(4) chan_lists_ok_def whr cls indexes_remove1 indexes_same in_whr)
  next
    case False
    then have "chan_lists_ok w x d" using that inv sel(4) by (simp add: mem_inv_def)
    then show ?thesis using False by (simp add: chan_lists_ok_def whr cls indexes_same in_whr)
  qed
  moreover have "user_list_ok w' x" for x
    using inv cl by (auto simp: mem_inv_def user_list_ok_def whr sel(3) indexes_remove1 indexes_same in_whr)
  moreover have "mem_ok w' ms'" if "w_mems w' m' = Some ms'" for m' ms'
    using that inv by (auto simp: sel(1,4) mem_ok_def mem_inv_def cls split: if_splits)
  moreover have "one_membership w'"
    using inv unfolding one_membership_def mem_inv_def sel(1) by (auto split: if_splits)
  moreover have "clients_ok w'" "fresh_ok w'"
    using inv c by (auto simp: mem_inv_def clients_ok_def fresh_ok_def cls sel(1,2,4))
  ultimately show ?thesis by (simp add: mem_inv_def)
qed

text \<open>Renaming and inviting look at other parts of the state.\<close>

lemma name_inv_cong:
  assumes "name_inv w" "w_global w' = w_global w" "w_hash w' = w_hash w"
    and "dom (w_channels w') = dom (w_channels w)"
    and "\<And>x. w_channels w x \<noteq> None \<Longrightarrow> ch_chname (chan_of w' x) = ch_chname (chan_of w x)"
  shows "name_inv w'"
proof -
  have "map (\<lambda>c. (ch_chname (chan_of w' c), c)) (w_global w') =
      map (\<lambda>c. (ch_chname (chan_of w c), c)) (w_global w)"
    using assms by (auto simp: name_inv_def dom_def)
  then show ?thesis using assms(1-4) by (simp only: name_inv_def)
qed

lemma invite_inv_cong:
  assumes "invite_inv w" "dom (w_channels w') = dom (w_channels w)"
    and "\<And>x. w_channels w x \<noteq> None \<Longrightarrow> ch_invites (chan_of w' x) = ch_invites (chan_of w x)"
    and "\<And>x. cl_invited (client_of w' x) = cl_invited (client_of w x)"
  shows "invite_inv w'"
proof -
  have "ch_invites c = ch_invites (chan_of w x) \<and> w_channels w x = Some (chan_of w x)"
    if "w_channels w' x = Some c" for x c
  proof -
    have "x \<in> dom (w_channels w)" using that assms(2) by blast
    then show ?thesis using assms(3) [of x] that by (auto simp: chan_of_def)
  qed
  then show ?thesis using assms(1,2,4) unfolding invite_inv_def by metis
qed

lemma unlinked_sel:
  assumes "w_mems w m = Some ms" "w_channels w (ms_chptr ms) = Some c"
  shows "w_channels (unlinked cl m w) =
      (w_channels w)(ms_chptr ms \<mapsto> unlink_chan (cl_servptr (client_of w cl) = me) ms m c)"
    "w_mems (unlinked cl m w) = (w_mems w)(m := None)" "w_clients (unlinked cl m w) = w_clients w"
    "w_global (unlinked cl m w) = w_global w" "w_hash (unlinked cl m w) = w_hash w"
  using assms by (simp_all add: unlinked_def Let_def mem_of_def chan_of_def)

lemma remove_user_inv:
  assumes inv: "world_inv w" and ms: "w_mems w m = Some ms"
  shows "world_inv (remove_user_from_channel m w)"
proof -
  let ?ch = "ms_chptr ms" and ?cl = "ms_client_p ms"
  let ?v = "upd_client ?cl (\<lambda>c. c\<lparr>cl_channel := remove1 m (cl_channel c)\<rparr>) w"
  let ?w = "unlinked ?cl m ?v"
  have i: "mem_inv w" "name_inv w" "invite_inv w" using inv by (simp_all add: world_inv_def)
  obtain c where c: "w_channels w ?ch = Some c" using mem_inv_channel [OF i(1) ms] by blast
  have ms': "w_mems ?v m = Some ms" "w_channels ?v ?ch = Some c" using ms c by simp_all
  note sel = unlinked_sel [OF ms']
  have I: "mem_inv ?w" by (rule unlinked_mem_inv [OF i(1) ms refl])
  have N: "name_inv ?w"
    by (rule name_inv_cong [OF i(2)]) (use c in \<open>auto simp: sel chan_of_def\<close>)
  have V: "invite_inv ?w"
    by (rule invite_inv_cong [OF i(3)]) (use c in \<open>auto simp: sel chan_of_def\<close>)
  obtain d where d: "w_channels ?w ?ch = Some d" "ch_invites d = ch_invites c" using sel(1) by simp
  have dist: "distinct (ch_invites d)" using V d(1) by (auto simp: invite_inv_def)
  have eq: "remove_user_from_channel m w =
      (if chan_member_count (chan_of ?w ?ch) = 0 then destroy_channel ?ch ?w else ?w)"
    using ms by (simp add: remove_user_from_channel_def unlink_member_eq Let_def mem_of_def)
  show ?thesis
  proof (cases "chan_member_count (chan_of ?w ?ch) = 0")
    case True
    then have "ch_ops d = []" "ch_noops d = []" using d(1) by (simp_all add: chan_member_count_def)
    moreover have "chan_lists_ok ?w ?ch d" using I d(1) by (simp add: mem_inv_def)
    ultimately have "ms_chptr ms' \<noteq> ?ch" if "w_mems ?w m' = Some ms'" for m' ms'
      using that by (cases "is_chanop ms'") (auto simp: chan_lists_ok_def indexes_def mems_where_def)
    then show ?thesis
      using True eq I N V destroy_mem_inv destroy_name_inv destroy_invite_inv d(1) dist
      by (simp add: world_inv_def)
  next
    case False
    then show ?thesis using eq I N V by (simp add: world_inv_def)
  qed
qed

lemma remove_user_effect:
  assumes inv: "world_inv w" and ms: "w_mems w m = Some ms"
  shows "w_mems (remove_user_from_channel m w) = (w_mems w)(m := None)"
    and "cl_channel (client_of (remove_user_from_channel m w) x) =
      (if x = ms_client_p ms then remove1 m (cl_channel (client_of w x)) else cl_channel (client_of w x))"
proof -
  let ?v = "upd_client (ms_client_p ms) (\<lambda>c. c\<lparr>cl_channel := remove1 m (cl_channel c)\<rparr>) w"
  obtain c where c: "w_channels w (ms_chptr ms) = Some c"
    using mem_inv_channel [OF _ ms] inv by (auto simp: world_inv_def)
  have ms': "w_mems ?v m = Some ms" "w_channels ?v (ms_chptr ms) = Some c" using ms c by simp_all
  note sel = unlinked_sel [OF ms', of "ms_client_p ms"]
  have "distinct (ch_invites c)" using inv c by (auto simp: world_inv_def invite_inv_def)
  then have d: "distinct (ch_invites (unlink_chan b ms m c))" for b by simp
  have ch': "w_channels (unlinked (ms_client_p ms) m ?v) (ms_chptr ms) =
      Some (unlink_chan (cl_servptr (client_of ?v (ms_client_p ms)) = me) ms m c)"
    using sel(1) by simp
  have eq: "remove_user_from_channel m w = unlink_member (ms_client_p ms) m ?v"
    using ms by (simp add: remove_user_from_channel_def Let_def mem_of_def)
  show "w_mems (remove_user_from_channel m w) = (w_mems w)(m := None)"
    using ms' sel by (simp add: eq unlink_member_eq Let_def destroy_keeps_mems)
  show "cl_channel (client_of (remove_user_from_channel m w) x) =
      (if x = ms_client_p ms then remove1 m (cl_channel (client_of w x)) else cl_channel (client_of w x))"
    using ms' sel(3) by (simp add: eq unlink_member_eq Let_def destroy_clients(6) [OF ch' d])
qed

section \<open>Leaving every channel\<close>

definition set_cl_channel :: "cid \<Rightarrow> mid list \<Rightarrow> world \<Rightarrow> world" where
  "set_cl_channel cl l = upd_client cl (\<lambda>c. c\<lparr>cl_channel := l\<rparr>)"

lemma client_upd_commute:
  "c\<lparr>cl_channel := l, cl_invited := k\<rparr> = c\<lparr>cl_invited := k, cl_channel := l\<rparr>"
  by (cases c) simp

lemma set_cl_channel_same: "cl_channel (client_of w cl) = l \<Longrightarrow> set_cl_channel cl l w = w"
proof -
  assume l: "cl_channel (client_of w cl) = l"
  have "(client_of w cl)\<lparr>cl_channel := l\<rparr> = client_of w cl"
    using l by (cases "client_of w cl") simp
  then show ?thesis by (cases w) (simp add: set_cl_channel_def upd_client_def)
qed

lemma set_cl_channel_idem [simp]: "set_cl_channel cl l (set_cl_channel cl k w) = set_cl_channel cl l w"
  by (simp add: set_cl_channel_def upd_client_def)

lemma chan_of_set_cl_channel [simp]: "chan_of (set_cl_channel cl l w) = chan_of w"
  by (simp add: set_cl_channel_def chan_of_def fun_eq_iff)

lemma del_invite_set_cl_channel:
  "del_invite ch x (set_cl_channel cl l w) = set_cl_channel cl l (del_invite ch x w)"
  by (cases "x = cl")
     (simp_all add: set_cl_channel_def del_invite_def upd_client_def upd_chan_def chan_of_def fun_upd_twist
       client_upd_commute)

lemma fold_del_invite_set_cl_channel:
  "fold (del_invite ch) xs (set_cl_channel cl l w) = set_cl_channel cl l (fold (del_invite ch) xs w)"
  by (induction xs arbitrary: w) (simp_all add: del_invite_set_cl_channel)

lemma destroy_set_cl_channel:
  "destroy_channel ch (set_cl_channel cl l w) = set_cl_channel cl l (destroy_channel ch w)"
proof -
  let ?v = "fold (del_invite ch) (ch_invites (chan_of w ch)) w"
  have "destroy_channel ch (set_cl_channel cl l w) =
      (let w2 = upd_chan ch (\<lambda>ch. ch\<lparr>ch_banlist := [], ch_exceptlist := [], ch_invexlist := [], ch_topic := None\<rparr>)
            (set_cl_channel cl l ?v)
       in w2\<lparr>w_global := remove1 ch (w_global w2),
            w_hash := hash_del (ch_chname (chan_of w2 ch)) ch (w_hash w2),
            w_channels := (w_channels w2)(ch := None)\<rparr>)"
    by (simp add: destroy_channel_def Let_def fold_del_invite_set_cl_channel)
  also have "\<dots> = set_cl_channel cl l (destroy_channel ch w)"
    by (simp add: destroy_channel_def Let_def set_cl_channel_def upd_client_def upd_chan_def chan_of_def)
  finally show ?thesis .
qed

lemma unlink_set_cl_channel:
  "unlink_member cl m (set_cl_channel cl l w) = set_cl_channel cl l (unlink_member cl m w)"
proof -
  have "unlinked cl m (set_cl_channel cl l w) = set_cl_channel cl l (unlinked cl m w)"
    by (simp add: unlinked_def set_cl_channel_def upd_client_def Let_def mem_of_def chan_of_def)
  moreover have "mem_of (set_cl_channel cl l w) m = mem_of w m"
    by (simp add: set_cl_channel_def mem_of_def)
  ultimately show ?thesis
    by (simp add: unlink_member_eq Let_def destroy_set_cl_channel)
qed

lemma fold_unlink_set_cl_channel:
  "fold (unlink_member cl) ms (set_cl_channel cl l w) = set_cl_channel cl l (fold (unlink_member cl) ms w)"
  by (induction ms arbitrary: w) (simp_all add: unlink_set_cl_channel)

lemma member_of_list:
  "world_inv w \<Longrightarrow> m \<in> set (cl_channel (client_of w cl)) \<Longrightarrow>
   \<exists>ms. w_mems w m = Some ms \<and> ms_client_p ms = cl"
  by (auto simp: world_inv_def mem_inv_def user_list_ok_def indexes_def mems_where_def)

text \<open>
  \<open>remove_user_from_channels\<close> has the effect of \<open>remove_user_from_channel\<close> on each of the
  memberships in turn.
\<close>

lemma remove_channels_fold:
  "world_inv w \<Longrightarrow> cl_channel (client_of w cl) = l \<Longrightarrow>
   set_cl_channel cl [] (fold (unlink_member cl) l w) = fold remove_user_from_channel l w \<and>
   world_inv (fold remove_user_from_channel l w) \<and>
   w_mems (fold remove_user_from_channel l w) = (\<lambda>m. if m \<in> set l then None else w_mems w m)"
proof (induction l arbitrary: w)
  case Nil
  then show ?case using set_cl_channel_same [of w cl "[]"] by auto
next
  case (Cons m l)
  obtain ms where ms: "w_mems w m = Some ms" "ms_client_p ms = cl"
    using member_of_list [OF Cons.prems(1), of m cl] Cons.prems(2) by auto
  let ?w = "remove_user_from_channel m w"
  have lst: "cl_channel (client_of ?w cl) = l"
    using remove_user_effect(2) [OF Cons.prems(1) ms(1)] ms(2) Cons.prems(2) by simp
  note IH = Cons.IH [OF remove_user_inv [OF Cons.prems(1) ms(1)] lst]
  have rm: "?w = set_cl_channel cl l (unlink_member cl m w)"
    using ms Cons.prems(2)
    by (simp add: remove_user_from_channel_def Let_def mem_of_def unlink_set_cl_channel [symmetric])
       (simp add: set_cl_channel_def upd_client_def)
  have "set_cl_channel cl [] (fold (unlink_member cl) (m # l) w) =
      set_cl_channel cl [] (fold (unlink_member cl) l ?w)"
    by (simp add: rm fold_unlink_set_cl_channel)
  then show ?case
    using IH remove_user_effect(1) [OF Cons.prems(1) ms(1)] by auto
qed

lemma remove_user_from_channels_fold:
  assumes "world_inv w"
  shows "remove_user_from_channels cl w = fold remove_user_from_channel (cl_channel (client_of w cl)) w"
    and "world_inv (remove_user_from_channels cl w)"
    and "w_mems (remove_user_from_channels cl w) =
      (\<lambda>m. if m \<in> set (cl_channel (client_of w cl)) then None else w_mems w m)"
  using remove_channels_fold [OF assms refl, of cl]
  by (simp_all add: remove_user_from_channels_def set_cl_channel_def)

section \<open>Updates that leave the indexes alone\<close>

lemma mem_inv_cong:
  assumes inv: "mem_inv w" and "w_mems w' = w_mems w" "w_next w' = w_next w"
    and "dom (w_channels w') = dom (w_channels w)"
    and same: "\<And>x. w_channels w x \<noteq> None \<Longrightarrow> ch_ops (chan_of w' x) = ch_ops (chan_of w x) \<and>
      ch_noops (chan_of w' x) = ch_noops (chan_of w x) \<and>
      ch_locmembers (chan_of w' x) = ch_locmembers (chan_of w x)"
    and cls: "\<And>x. cl_channel (client_of w' x) = cl_channel (client_of w x)"
      "\<And>x. cl_status (client_of w' x) = cl_status (client_of w x)"
      "\<And>x. cl_user (client_of w' x) = cl_user (client_of w x)"
      "\<And>x. cl_servptr (client_of w' x) = cl_servptr (client_of w x)"
      "\<And>x. cl_myconnect (client_of w' x) = cl_myconnect (client_of w x)"
  shows "mem_inv w'"
proof -
  have ch: "w_channels w x = Some (chan_of w x) \<and> c = chan_of w' x" if "w_channels w' x = Some c" for x c
  proof -
    have "x \<in> dom (w_channels w)" using that assms(4) by blast
    then show ?thesis using that by (auto simp: chan_of_def)
  qed
  have none: "w_channels w' x = None \<longleftrightarrow> w_channels w x = None" for x
    using assms(4) by (metis domIff)
  have my: "MyClient (client_of w' x) = MyClient (client_of w x)" for x
    by (simp add: MyClient_def IsClient_def cls)
  have whr: "mems_where w' P = mems_where w P" for P by (simp add: mems_where_def assms(2))
  have "chan_lists_ok w' x c" if "w_channels w' x = Some c" for x c
  proof -
    note x = ch [OF that, THEN conjunct1] ch [OF that, THEN conjunct2]
    have "chan_lists_ok w x (chan_of w x)" using inv x(1) unfolding mem_inv_def by blast
    moreover have "w_channels w x \<noteq> None" using x(1) by (metis option.distinct(1))
    ultimately show ?thesis using same [of x] unfolding x(2) chan_lists_ok_def whr my by simp
  qed
  moreover have "user_list_ok w' x" for x
    using inv by (simp add: mem_inv_def user_list_ok_def mems_where_def assms(2) cls)
  moreover have "mem_ok w' ms" if "w_mems w' m = Some ms" for m ms
  proof -
    have "mem_ok w ms" using inv that assms(2) unfolding mem_inv_def by metis
    then show ?thesis by (simp add: mem_ok_def none cls IsClient_def)
  qed
  moreover have "one_membership w'" "clients_ok w'" "fresh_ok w'"
    using inv by (simp_all add: mem_inv_def one_membership_def clients_ok_def fresh_ok_def
        assms(2,3) cls IsClient_def none)
  ultimately show ?thesis by (simp add: mem_inv_def)
qed

lemma upd_chan_world_inv:
  assumes inv: "world_inv w" and c: "w_channels w ch = Some c"
    and "ch_ops (f c) = ch_ops c" "ch_noops (f c) = ch_noops c" "ch_locmembers (f c) = ch_locmembers c"
    "ch_invites (f c) = ch_invites c" "ch_chname (f c) = ch_chname c"
  shows "world_inv (upd_chan ch f w)"
proof -
  have i: "mem_inv w" "name_inv w" "invite_inv w" using inv by (simp_all add: world_inv_def)
  have d: "dom (w_channels (upd_chan ch f w)) = dom (w_channels w)" using c by auto
  show ?thesis
    unfolding world_inv_def
    using assms(2-) mem_inv_cong [OF i(1) _ _ d] name_inv_cong [OF i(2) _ _ d] invite_inv_cong [OF i(3) d]
    by (auto simp: chan_of_def)
qed

lemma upd_mem_world_inv:
  assumes inv: "world_inv w" and ms: "w_mems w m = Some ms"
    and f: "ms_chptr (f ms) = ms_chptr ms" "ms_client_p (f ms) = ms_client_p ms"
      "is_chanop (f ms) = is_chanop ms"
  shows "world_inv (upd_mem m f w)"
proof -
  have i: "mem_inv w" "name_inv w" "invite_inv w" using inv by (simp_all add: world_inv_def)
  have whr: "mems_where (upd_mem m f w) P = mems_where w P" if "P (f ms) = P ms" for P
    using ms that by (auto simp: mems_where_def mem_of_def)
  have "mem_inv (upd_mem m f w)"
    using i(1) ms f unfolding mem_inv_def chan_lists_ok_def user_list_ok_def one_membership_def
    by (auto simp: whr mem_ok_def clients_ok_def fresh_ok_def mem_of_def split: if_splits)
  moreover have "name_inv (upd_mem m f w)" "invite_inv (upd_mem m f w)"
    using i(2,3) by (auto intro: name_inv_cong invite_inv_cong simp: chan_of_def)
  ultimately show ?thesis by (simp add: world_inv_def)
qed

section \<open>Creating\<close>

lemma add_channel_world_inv:
  assumes inv: "world_inv w" and n: "nul_free n" "n \<noteq> []"
  shows "world_inv (w\<lparr>w_channels := (w_channels w)(w_next w \<mapsto> new_channel n (w_time w)),
      w_next := Suc (w_next w), w_global := w_next w # w_global w, w_hash := hash_add n (w_next w) (w_hash w)\<rparr>)"
    (is "world_inv ?w")
proof -
  let ?i = "w_next w"
  have i: "mem_inv w" "name_inv w" "invite_inv w" using inv by (simp_all add: world_inv_def)
  have fr: "w_channels w ?i = None" "\<And>m ms. w_mems w m = Some ms \<Longrightarrow> ms_chptr ms \<noteq> ?i"
    using i(1) mem_inv_channel [OF i(1)] by (fastforce simp: mem_inv_def fresh_ok_def)+
  have "mem_inv ?w"
    using i(1) fr
    by (auto simp: mem_inv_def chan_lists_ok_def user_list_ok_def mem_ok_def one_membership_def
        clients_ok_def fresh_ok_def mems_where_def indexes_def new_channel_def)
  moreover have "name_inv ?w"
  proof -
    have ni: "?i \<notin> set (w_global w)" using i(2) fr(1) by (auto simp: name_inv_def)
    then have E: "map (\<lambda>c. (ch_chname (chan_of ?w c), c)) (?i # w_global w) =
        (n, ?i) # map (\<lambda>c. (ch_chname (chan_of w c), c)) (w_global w)"
      by (auto simp: chan_of_def new_channel_def)
    have "irc_rep (hash_add n ?i (w_hash w)) (map (\<lambda>c. (ch_chname (chan_of ?w c), c)) (?i # w_global w))"
      unfolding E using i(2) n by (intro irc.rep_add) (auto simp: name_inv_def)
    then show ?thesis using i(2) ni by (auto simp: name_inv_def)
  qed
  moreover have "invite_inv ?w"
    using i(3) fr(1) by (auto simp: invite_inv_def new_channel_def)
  ultimately show ?thesis by (simp add: world_inv_def)
qed

lemma create_world_inv:
  assumes inv: "world_inv w" and n: "nul_free name" "name \<noteq> []"
  shows "world_inv (snd (snd (get_or_create_channel name w)))"
proof -
  let ?s = "if length name > CHANNELLEN then take CHANNELLEN name else name"
  have "nul_free (strlcpy ?s CHANNELLEN)" "strlcpy ?s CHANNELLEN \<noteq> []"
    using n by (auto simp: strlcpy_def CHANNELLEN_def nul_free_def dest: in_set_takeD)
  note add = add_channel_world_inv [OF inv this]
  define s where "s = ?s"
  have "get_or_create_channel name w = (case find_channel w s of
      Some chptr \<Rightarrow> (Some chptr, False, w)
    | None \<Rightarrow> (Some (w_next w), True,
        w\<lparr>w_channels := (w_channels w)(w_next w \<mapsto> new_channel (strlcpy s CHANNELLEN) (w_time w)),
          w_next := Suc (w_next w), w_global := w_next w # w_global w,
          w_hash := hash_add (strlcpy s CHANNELLEN) (w_next w) (w_hash w)\<rparr>))"
    using n unfolding get_or_create_channel_def Let_def s_def [symmetric] by (simp split: option.split)
  then show ?thesis using inv add by (cases "find_channel w s") (simp_all add: s_def)
qed

section \<open>Invitations, topics and the ban cache\<close>

lemma invite_change_inv:
  assumes inv: "world_inv w" and c: "w_channels w ch = Some c"
    and f: "distinct (f (ch_invites c))" "distinct (g (cl_invited (client_of w x)))"
      "x \<in> set (f (ch_invites c)) \<longleftrightarrow> ch \<in> set (g (cl_invited (client_of w x)))"
      "\<And>y. y \<noteq> x \<Longrightarrow> y \<in> set (f (ch_invites c)) \<longleftrightarrow> y \<in> set (ch_invites c)"
      "\<And>y. y \<noteq> ch \<Longrightarrow> y \<in> set (g (cl_invited (client_of w x))) \<longleftrightarrow> y \<in> set (cl_invited (client_of w x))"
  shows "world_inv (upd_client x (\<lambda>c. c\<lparr>cl_invited := g (cl_invited c)\<rparr>)
      (upd_chan ch (\<lambda>c. c\<lparr>ch_invites := f (ch_invites c)\<rparr>) w))" (is "world_inv ?w")
proof -
  have i: "mem_inv w" "name_inv w" "invite_inv w" using inv by (simp_all add: world_inv_def)
  have d: "dom (w_channels ?w) = dom (w_channels w)" using c by auto
  have "mem_inv ?w" using c by (intro mem_inv_cong [OF i(1) _ _ d]) (auto simp: chan_of_def)
  moreover have "name_inv ?w" using c by (intro name_inv_cong [OF i(2) _ _ d]) (auto simp: chan_of_def)
  moreover have "invite_inv ?w"
    unfolding invite_inv_def
  proof (intro conjI allI impI)
    fix y d assume y: "w_channels ?w y = Some d"
    show "distinct (ch_invites d)"
      using y c f(1) i(3) by (auto simp: invite_inv_def split: if_splits)
    fix z show "z \<in> set (ch_invites d) \<longleftrightarrow> y \<in> set (cl_invited (client_of ?w z))"
      using y c f(3-5) i(3) by (auto simp: invite_inv_def split: if_splits)
  next
    fix z show "distinct (cl_invited (client_of ?w z))"
      using f(2) i(3) by (auto simp: invite_inv_def)
    show "set (cl_invited (client_of ?w z)) \<subseteq> dom (w_channels ?w)"
    proof
      fix y assume "y \<in> set (cl_invited (client_of ?w z))"
      then have "y = ch \<or> y \<in> set (cl_invited (client_of w z))"
        using f(5) by (auto split: if_splits)
      then show "y \<in> dom (w_channels ?w)" using i(3) c unfolding d invite_inv_def by auto
    qed
  qed
  ultimately show ?thesis by (simp add: world_inv_def)
qed

lemma del_invite_world_inv:
  assumes "world_inv w" "w_channels w ch = Some c"
  shows "world_inv (del_invite ch x w)"
  unfolding del_invite_def
  using assms by (intro invite_change_inv) (auto simp: world_inv_def invite_inv_def)

lemma add_invite_world_inv:
  assumes inv: "world_inv w" and c: "w_channels w ch = Some c" and r: "add_invite cfg ch x w = Some w'"
  shows "world_inv w'"
proof -
  let ?link = "\<lambda>v. upd_client x (\<lambda>c. c\<lparr>cl_invited := ch # cl_invited c\<rparr>)
      (upd_chan ch (\<lambda>c. c\<lparr>ch_invites := x # ch_invites c\<rparr>) v)"
  have link: "world_inv (?link v)"
    if "world_inv v" "w_channels v ch = Some d" "ch \<notin> set (cl_invited (client_of v x))" for v d
    using that by (intro invite_change_inv) (auto simp: world_inv_def invite_inv_def)
  consider "w' = w" | "ch \<notin> set (cl_invited (client_of w x))" "w' = ?link w"
    | "ch \<notin> set (cl_invited (client_of w x))" "cl_invited (client_of w x) \<noteq> []"
      "w' = ?link (del_invite (last (cl_invited (client_of w x))) x w)"
    using r by (auto simp: add_invite_def Let_def split: if_splits)
  then show ?thesis
  proof cases
    case 3
    let ?l = "last (cl_invited (client_of w x))"
    have l: "?l \<in> set (cl_invited (client_of w x))" using 3(2) by simp
    then obtain d where d: "w_channels w ?l = Some d"
      using inv unfolding world_inv_def invite_inv_def by blast
    have "w_channels (del_invite ?l x w) ch = Some c"
      using c l 3(1) by (auto simp: del_invite_def)
    moreover have "ch \<notin> set (cl_invited (client_of (del_invite ?l x w) x))"
      using 3(1) by (auto simp: del_invite_def dest: notin_set_remove1)
    ultimately show ?thesis
      unfolding 3(3) by (rule link [OF del_invite_world_inv [OF inv d]])
  qed (use inv link c in auto)
qed

lemma topic_world_inv:
  "world_inv w \<Longrightarrow> w_channels w ch = Some c \<Longrightarrow> world_inv (set_channel_topic cfg ch t i ts w)"
  unfolding set_channel_topic_def by (rule upd_chan_world_inv) simp_all

lemma uncache_world_inv:
  "world_inv w \<Longrightarrow> \<forall>m \<in> set l. w_mems w m \<noteq> None \<Longrightarrow>
   world_inv (fold (\<lambda>m. upd_mem m
     (\<lambda>ms. ms\<lparr>ms_ban_serial := 0, ms_flags := ms_flags ms AND NOT CHFL_BANNED\<rparr>)) l w)"
proof (induction l arbitrary: w)
  case (Cons m l)
  then obtain ms where "w_mems w m = Some ms" by auto
  then have "world_inv (upd_mem m
      (\<lambda>ms. ms\<lparr>ms_ban_serial := 0, ms_flags := ms_flags ms AND NOT CHFL_BANNED\<rparr>) w)"
    using Cons.prems(1) by (intro upd_mem_world_inv) (simp_all add: is_chanop_def)
  then show ?case using Cons.IH Cons.prems(2) by simp
qed simp

lemma invalidate_world_inv: "world_inv w \<Longrightarrow> world_inv (invalidate_bancache_user cl w)"
  unfolding invalidate_bancache_user_def
  using member_of_list by (intro uncache_world_inv) fastforce+

section \<open>Finding a membership\<close>

definition membership_of :: "world \<Rightarrow> chid \<Rightarrow> cid \<Rightarrow> mid \<Rightarrow> bool" where
  "membership_of w ch cl m = (\<exists>ms. w_mems w m = Some ms \<and> ms_chptr ms = ch \<and> ms_client_p ms = cl)"

lemma find_SomeD: "find P l = Some x \<Longrightarrow> x \<in> set l \<and> P x"
  by (auto simp: find_Some_iff)

lemma find_channel_membership_sound:
  assumes inv: "mem_inv w" and c: "w_channels w ch = Some c"
  shows "(find_channel_membership w ch cl = Some m \<longrightarrow> membership_of w ch cl m) \<and>
    (find_channel_membership w ch cl = None \<longrightarrow> (\<forall>m. \<not> membership_of w ch cl m))"
proof (cases "IsClient (client_of w cl)")
  case False
  then have "\<not> membership_of w ch cl m" for m
    using inv by (auto simp: membership_of_def mem_inv_def mem_ok_def)
  then show ?thesis using False by (simp add: find_channel_membership_def)
next
  case True
  have ops: "set (ch_ops c) \<union> set (ch_noops c) = mems_where w (\<lambda>ms. ms_chptr ms = ch)"
  proof -
    have "chan_lists_ok w ch c" using inv c by (simp add: mem_inv_def)
    then show ?thesis by (auto simp: chan_lists_ok_def indexes_def mems_where_def)
  qed
  have usr: "set (cl_channel (client_of w cl)) = mems_where w (\<lambda>ms. ms_client_p ms = cl)"
    using inv by (simp add: mem_inv_def user_list_ok_def indexes_def)
  let ?P = "\<lambda>m. ms_client_p (mem_of w m) = cl" and ?Q = "\<lambda>m. ms_chptr (mem_of w m) = ch"
  have 1: "membership_of w ch cl m \<longleftrightarrow> m \<in> set (ch_ops c) \<union> set (ch_noops c) \<and> ?P m" for m
    unfolding ops by (auto simp: membership_of_def mems_where_def)
  have 2: "membership_of w ch cl m \<longleftrightarrow> m \<in> set (cl_channel (client_of w cl)) \<and> ?Q m" for m
    unfolding usr by (auto simp: membership_of_def mems_where_def)
  show ?thesis
  proof (cases "chan_member_count (chan_of w ch) < length (cl_channel (client_of w cl))")
    case t: True
    show ?thesis
      using True t c
      by (auto simp: find_channel_membership_def 1 find_None_iff dest: find_SomeD split: option.splits)
  next
    case f: False
    show ?thesis
      using True f by (auto simp: find_channel_membership_def 2 find_None_iff dest: find_SomeD)
  qed
qed

lemma find_channel_rep:
  assumes "name_inv w" "nul_free k"
  shows "find_channel w k = (if k = [] then None else
    ix_lookup irc_eq k (map (\<lambda>c. (ch_chname (chan_of w c), c)) (w_global w)))"
  using assms irc.lookup_rep by (auto simp: find_channel_def name_inv_def)

lemma destroyed_not_found:
  assumes "name_inv w" "nul_free k" "w_channels w ch = None"
  shows "find_channel w k \<noteq> Some ch"
proof
  assume "find_channel w k = Some ch"
  then have "ch \<in> set (w_global w)"
    using assms(1,2) by (auto simp: find_channel_rep ix_lookup_def dest: find_SomeD split: if_splits)
  then show False using assms(1,3) by (auto simp: name_inv_def)
qed

lemma remove_user_channels:
  assumes inv: "world_inv w" and ms: "w_mems w m = Some ms"
  shows "w_channels (remove_user_from_channel m w) x = None \<longleftrightarrow>
    w_channels w x = None \<or> (x = ms_chptr ms \<and> (\<forall>m' ms'. w_mems w m' = Some ms' \<longrightarrow> m' \<noteq> m \<longrightarrow> ms_chptr ms' \<noteq> x))"
proof -
  let ?ch = "ms_chptr ms" and ?cl = "ms_client_p ms"
  let ?v = "upd_client ?cl (\<lambda>c. c\<lparr>cl_channel := remove1 m (cl_channel c)\<rparr>) w"
  let ?w = "unlinked ?cl m ?v"
  have I: "mem_inv ?w" using inv by (intro unlinked_mem_inv [OF _ ms refl]) (simp add: world_inv_def)
  obtain c where c: "w_channels w ?ch = Some c" using mem_inv_channel [OF _ ms] inv by (auto simp: world_inv_def)
  have ms': "w_mems ?v m = Some ms" "w_channels ?v ?ch = Some c" using ms c by simp_all
  note sel = unlinked_sel [OF ms', of ?cl]
  obtain d where d: "w_channels ?w ?ch = Some d" "ch_invites d = ch_invites c" using sel(1) by simp
  have "distinct (ch_invites d)" using inv c d(2) by (auto simp: world_inv_def invite_inv_def)
  note des = destroy_sel(5) [OF d(1) this]
  have "chan_lists_ok ?w ?ch d" using I d(1) by (simp add: mem_inv_def)
  then have "set (ch_ops d) \<union> set (ch_noops d) = mems_where ?w (\<lambda>ms'. ms_chptr ms' = ?ch)"
    by (auto simp: chan_lists_ok_def indexes_def mems_where_def)
  moreover have "chan_member_count d = 0 \<longleftrightarrow> set (ch_ops d) \<union> set (ch_noops d) = {}"
    by (auto simp: chan_member_count_def)
  ultimately have cnt: "chan_member_count (chan_of ?w ?ch) = 0 \<longleftrightarrow>
      (\<forall>m' ms'. w_mems w m' = Some ms' \<longrightarrow> m' \<noteq> m \<longrightarrow> ms_chptr ms' \<noteq> ?ch)"
    using d(1) sel(2) by (auto simp: mems_where_def)
  have "remove_user_from_channel m w =
      (if chan_member_count (chan_of ?w ?ch) = 0 then destroy_channel ?ch ?w else ?w)"
    using ms by (simp add: remove_user_from_channel_def unlink_member_eq Let_def mem_of_def)
  then show ?thesis using cnt c by (auto simp: des sel(1))
qed

section \<open>Reachable worlds\<close>

definition world_start :: "world \<Rightarrow> bool" where
  "world_start w =
     (w_channels w = Map.empty \<and> w_mems w = Map.empty \<and> w_global w = [] \<and> irc_rep (w_hash w) [] \<and>
      clients_ok w \<and> (\<forall>cl. cl_channel (client_of w cl) = [] \<and> cl_invited (client_of w cl) = []))"

inductive chan_step :: "config \<Rightarrow> world \<Rightarrow> world \<Rightarrow> bool" for cfg where
  join: "w_channels w ch = Some c \<Longrightarrow> IsClient (client_of w cl) \<Longrightarrow>
    find_channel_membership w ch cl = None \<Longrightarrow> chan_step cfg w (add_user_to_channel ch cl flags w)"
| part: "w_mems w m = Some ms \<Longrightarrow> chan_step cfg w (remove_user_from_channel m w)"
| quit: "chan_step cfg w (remove_user_from_channels cl w)"
| create: "name \<noteq> [] \<Longrightarrow> nul_free name \<Longrightarrow> chan_step cfg w (snd (snd (get_or_create_channel name w)))"
| invite: "w_channels w ch = Some c \<Longrightarrow> add_invite cfg ch cl w = Some w' \<Longrightarrow> chan_step cfg w w'"
| uninvite: "w_channels w ch = Some c \<Longrightarrow> chan_step cfg w (del_invite ch cl w)"
| topic: "w_channels w ch = Some c \<Longrightarrow> chan_step cfg w (set_channel_topic cfg ch t i ts w)"
| uncache: "chan_step cfg w (invalidate_bancache_user cl w)"
| tick: "w_time w \<le> t \<Longrightarrow> chan_step cfg w (w\<lparr>w_time := t\<rparr>)"

inductive chan_reach :: "config \<Rightarrow> world \<Rightarrow> world \<Rightarrow> bool" for cfg w0 where
  start: "chan_reach cfg w0 w0"
| step: "chan_reach cfg w0 w \<Longrightarrow> chan_step cfg w w' \<Longrightarrow> chan_reach cfg w0 w'"

lemma world_start_inv: "world_start w \<Longrightarrow> world_inv w"
  by (auto simp: world_start_def world_inv_def mem_inv_def name_inv_def invite_inv_def user_list_ok_def
      indexes_def mems_where_def one_membership_def fresh_ok_def)

lemma add_user_world_inv:
  assumes inv: "world_inv w" and c: "w_channels w ch = Some c" and cl: "IsClient (client_of w cl)"
    and new: "find_channel_membership w ch cl = None"
  shows "world_inv (add_user_to_channel ch cl flags w)"
proof (cases "cl_user (client_of w cl)")
  case True
  note sel = add_user_sel [OF True c, of flags]
  have i: "mem_inv w" "name_inv w" "invite_inv w" using inv by (simp_all add: world_inv_def)
  have "mem_inv (add_user_to_channel ch cl flags w)"
    using find_channel_membership_sound [OF i(1) c, of cl] new
    by (intro add_user_mem_inv [OF i(1) c cl True]) (auto simp: membership_of_def)
  moreover have "name_inv (add_user_to_channel ch cl flags w)"
    by (rule name_inv_cong [OF i(2)]) (use c in \<open>auto simp: sel chan_of_def\<close>)
  moreover have "invite_inv (add_user_to_channel ch cl flags w)"
    by (rule invite_inv_cong [OF i(3)]) (use c in \<open>auto simp: sel chan_of_def\<close>)
  ultimately show ?thesis by (simp add: world_inv_def)
qed (use inv in \<open>simp add: add_user_to_channel_def\<close>)

lemma tick_world_inv: "world_inv w \<Longrightarrow> world_inv (w\<lparr>w_time := t\<rparr>)"
  using mem_inv_cong [of w "w\<lparr>w_time := t\<rparr>"] name_inv_cong [of w "w\<lparr>w_time := t\<rparr>"]
    invite_inv_cong [of w "w\<lparr>w_time := t\<rparr>"]
  by (simp add: world_inv_def chan_of_def)

lemma chan_step_inv: "chan_step cfg w w' \<Longrightarrow> world_inv w \<Longrightarrow> world_inv w'"
  by (induction rule: chan_step.induct)
     (auto intro: add_user_world_inv remove_user_inv remove_user_from_channels_fold(2) create_world_inv
        add_invite_world_inv del_invite_world_inv topic_world_inv invalidate_world_inv tick_world_inv)

lemma chan_reach_inv: "chan_reach cfg w0 w \<Longrightarrow> world_inv w0 \<Longrightarrow> world_inv w"
  by (induction rule: chan_reach.induct) (auto intro: chan_step_inv)

section \<open>A small world for the examples\<close>

definition user_named :: "cstring \<Rightarrow> client" where
  "user_named n =
     \<lparr>cl_name = n, cl_username = ''u'', cl_host = ''h.example'', cl_sockhost = ''10.0.0.1'',
      cl_info = ''i'', cl_id = [],
      cl_status = STAT_CLIENT, cl_myconnect = True, cl_servptr = me, cl_user = True, cl_channel = [],
      cl_invited = [], cl_invisible = False, cl_oper = False, cl_operspy = False, cl_exemptresv = False, cl_ipspoof = False, cl_caps = 0,
      cl_join_leave_count = 0, cl_last_join_time = 0, cl_last_leave_time = 0, cl_oper_warn_count_down = 0,
      cl_flood_done = True, cl_allow_read = 5, cl_sent_parsed = 0\<rparr>"

definition small_world :: world where
  "small_world =
     \<lparr>w_clients = (\<lambda>_. user_named ''nick''), w_channels = Map.empty, w_mems = Map.empty, w_next = 10,
      w_global = [], w_hash = the (hash_create ''Channel'' CMP_IRCCMP 16 30), w_time = 0\<rparr>"

definition small_config :: config where
  "small_config = \<lparr>use_except = True, use_invex = True, use_sslonly = True, quiet_on_ban = True,
     max_bans = 25, topiclen = 160, max_chans_per_user = 15, spam_num = 20, spam_time = 60\<rparr>"

lemma small_world_start: "world_start small_world"
  using hash_create_rep [of "''Channel''" CMP_IRCCMP 16 30]
  by (simp add: world_start_def small_world_def clients_ok_def user_named_def irc_rep_def hash_create_def)

lemma small_world_find: "nul_free k \<Longrightarrow> find_channel small_world k = None"
  using find_channel_rep [of small_world k] world_start_inv [OF small_world_start]
  by (simp add: world_inv_def ix_lookup_def) (simp add: small_world_def)

lemma small_world_create:
  "get_or_create_channel ''#ircd'' small_world =
     (Some 10, True, small_world\<lparr>w_channels := [10 \<mapsto> new_channel ''#ircd'' 0], w_next := 11,
        w_global := [10], w_hash := hash_add ''#ircd'' 10 (w_hash small_world)\<rparr>)"
  by (simp add: get_or_create_channel_def small_world_find Let_def CHANNELLEN_def strlcpy_def)
     (simp add: small_world_def)

definition small_channel :: world where
  "small_channel = add_user_to_channel 10 1 CHFL_CHANOP (snd (snd (get_or_create_channel ''#ircd'' small_world)))"

lemma small_channel_sel:
  "w_mems small_channel = [11 \<mapsto> \<lparr>ms_chptr = 10, ms_client_p = 1, ms_flags = CHFL_CHANOP, ms_ban_serial = 0\<rparr>]"
  "\<exists>c. w_channels small_channel = [10 \<mapsto> c]"
  "IsClient (client_of small_channel x)"
  by (auto simp: small_channel_def small_world_create Let_def add_user_to_channel_def)
     (auto simp: small_world_def user_named_def IsClient_def)

lemma small_channel_reach: "chan_reach cfg small_world small_channel"
proof -
  let ?w = "snd (snd (get_or_create_channel ''#ircd'' small_world))"
  have "chan_reach cfg small_world ?w"
    by (rule chan_reach.step [OF chan_reach.start chan_step.create]) simp_all
  moreover have "\<exists>c. w_channels ?w 10 = Some c" "IsClient (client_of ?w 1)"
    "find_channel_membership ?w 10 1 = None"
    by (simp_all add: small_world_create find_channel_membership_def)
       (simp_all add: small_world_def user_named_def IsClient_def)
  ultimately show ?thesis
    unfolding small_channel_def by (blast intro: chan_reach.step chan_step.join)
qed

lemma small_channel_inv: "world_inv small_channel"
  by (rule chan_reach_inv [OF small_channel_reach [of small_config] world_start_inv [OF small_world_start]])

section \<open>Properties\<close>

text \<open>
  C1. From a world without channels, every sequence of joins, parts, quits, channel
  creations, invitations and topic changes keeps the state consistent: the lists of
  operators, other members and local members of every channel and the list of channels of
  every client hold exactly the right memberships, once each; no membership points to a
  freed channel; a client has at most one membership per channel; the table and the global
  list hold the same channels; invitations are recorded on both sides.
\<close>

theorem channel_world_inv:
  assumes "world_start w0" "chan_reach cfg w0 w"
  shows "world_inv w"
  by (rule chan_reach_inv [OF assms(2) world_start_inv [OF assms(1)]])

theorem channel_world_inv_witness: "world_inv small_channel"
  by (rule channel_world_inv [OF small_world_start small_channel_reach])

text \<open>
  \<open>find_channel_membership\<close> searches the shorter of two lists; whichever it is, it finds
  the membership of the client in the channel if there is one, and nothing otherwise.
\<close>

theorem find_channel_membership_iff:
  assumes "world_inv w" "w_channels w ch = Some c"
  shows "find_channel_membership w ch cl = Some m \<longleftrightarrow>
    (\<exists>ms. w_mems w m = Some ms \<and> ms_chptr ms = ch \<and> ms_client_p ms = cl)"
proof -
  have inv: "mem_inv w" using assms(1) by (simp add: world_inv_def)
  note snd = find_channel_membership_sound [OF inv assms(2), of cl, unfolded membership_of_def]
  have "one_membership w" using inv by (simp add: mem_inv_def)
  then show ?thesis
    using snd unfolding one_membership_def by (cases "find_channel_membership w ch cl") (blast, metis option.inject)
qed

theorem find_channel_membership_iff_witness: "find_channel_membership small_channel 10 1 = Some 11"
proof -
  obtain c where "w_channels small_channel 10 = Some c" using small_channel_sel(2) by auto
  then show ?thesis
    using find_channel_membership_iff [OF small_channel_inv, of 10 c 1 11] by (simp add: small_channel_sel(1))
qed

text \<open>
  \<open>remove_user_from_channel\<close> frees exactly one membership, keeps the state consistent,
  and destroys the channel exactly when that was its last member; a destroyed channel is
  not found under any name.
\<close>

theorem remove_user_from_channel_effect:
  assumes "world_inv w" "w_mems w m = Some ms"
  defines "w' \<equiv> remove_user_from_channel m w"
  shows "world_inv w' \<and> w_mems w' = (w_mems w)(m := None) \<and>
    (w_channels w' (ms_chptr ms) = None \<longleftrightarrow>
      (\<forall>m' ms'. w_mems w m' = Some ms' \<longrightarrow> m' \<noteq> m \<longrightarrow> ms_chptr ms' \<noteq> ms_chptr ms)) \<and>
    (\<forall>name. nul_free name \<longrightarrow> w_channels w' (ms_chptr ms) = None \<longrightarrow>
      find_channel w' name \<noteq> Some (ms_chptr ms))"
proof -
  have inv: "world_inv w'" unfolding w'_def by (rule remove_user_inv [OF assms(1,2)])
  then have "name_inv w'" by (simp add: world_inv_def)
  moreover have "w_channels w (ms_chptr ms) \<noteq> None"
    using mem_inv_channel [OF _ assms(2)] assms(1) by (auto simp: world_inv_def)
  ultimately show ?thesis
    using inv remove_user_effect(1) [OF assms(1,2)] remove_user_channels [OF assms(1,2), of "ms_chptr ms"]
      destroyed_not_found [of w'] by (auto simp: w'_def)
qed

theorem remove_user_from_channel_effect_witness:
  "w_channels (remove_user_from_channel 11 small_channel) 10 = None \<and>
   find_channel (remove_user_from_channel 11 small_channel) ''#IRCD'' \<noteq> Some 10"
proof -
  show ?thesis
    using remove_user_from_channel_effect [OF small_channel_inv, of 11] by (simp add: small_channel_sel(1))
qed

text \<open>
  C31. \<open>remove_user_from_channels\<close>, which does not maintain the client's own list while it
  runs, has the same effect as \<open>remove_user_from_channel\<close> on each membership of the client
  in turn: it frees all memberships of the client and no other, and empties its list.
\<close>

theorem remove_user_from_channels_equiv:
  assumes "world_inv w"
  shows "remove_user_from_channels cl w = fold remove_user_from_channel (cl_channel (client_of w cl)) w \<and>
    world_inv (remove_user_from_channels cl w) \<and>
    (\<forall>m. w_mems (remove_user_from_channels cl w) m =
       (case w_mems w m of Some ms \<Rightarrow> if ms_client_p ms = cl then None else Some ms | None \<Rightarrow> None)) \<and>
    cl_channel (client_of (remove_user_from_channels cl w) cl) = []"
proof -
  have "m \<in> set (cl_channel (client_of w cl)) \<longleftrightarrow> (\<exists>ms. w_mems w m = Some ms \<and> ms_client_p ms = cl)" for m
    using assms by (simp add: world_inv_def mem_inv_def user_list_ok_def indexes_def mems_where_def)
  moreover have "cl_channel (client_of (remove_user_from_channels cl w) cl) = []"
    by (simp add: remove_user_from_channels_def)
  ultimately show ?thesis
    using remove_user_from_channels_fold(2,3) [OF assms, of cl] remove_user_from_channels_fold(1) [OF assms, of cl]
    by (auto split: option.splits)
qed

theorem remove_user_from_channels_equiv_witness:
  "w_mems (remove_user_from_channels 1 small_channel) 11 = None"
proof -
  show ?thesis
    using remove_user_from_channels_equiv [OF small_channel_inv, of 1, THEN conjunct2, THEN conjunct2,
        THEN conjunct1, THEN spec, of 11]
    by (simp add: small_channel_sel(1))
qed

text \<open>
  \<open>get_or_create_channel\<close> with a name shorter than \<open>CHANNELLEN\<close>: the channel it returns
  is the one \<open>find_channel\<close> returns afterwards under that name, in any case, and asking
  again changes nothing.
\<close>

theorem get_or_create_channel_finds:
  assumes "world_inv w" "nul_free name" "name \<noteq> []" "length name < CHANNELLEN"
    and "get_or_create_channel name w = (r, isnew, w')" "nul_free name'" "irc_eq name' name"
  shows "\<exists>ch. r = Some ch \<and> w_channels w' ch \<noteq> None \<and> find_channel w' name' = Some ch \<and>
    get_or_create_channel name' w' = (Some ch, False, w')"
proof -
  have len: "length name' = length name"
    using assms(7) unfolding irc_eq_def irc_fold_def by (metis length_map)
  have ne: "name' \<noteq> []" using len assms(3) by auto
  have inv: "world_inv w'" using create_world_inv [OF assms(1-3)] assms(5) by simp
  have same: "find_channel v name' = find_channel v name" if "world_inv v" for v
  proof -
    have "irc_eq name' k = irc_eq name k" for k using assms(7) by (simp add: irc_eq_def)
    moreover have "name_inv v" using that by (simp add: world_inv_def)
    ultimately show ?thesis
      using find_channel_rep [of v] assms(2,3,6) ne by (simp add: ix_lookup_def)
  qed
  have "\<exists>ch. r = Some ch \<and> find_channel w' name = Some ch"
  proof (cases "find_channel w name")
    case None
    have rep: "irc_rep (w_hash w) (map (\<lambda>c. (ch_chname (chan_of w c), c)) (w_global w))"
      using assms(1) by (simp add: world_inv_def name_inv_def)
    have "r = Some (w_next w) \<and> w_hash w' = hash_add name (w_next w) (w_hash w)"
      using assms(3-5) None by (auto simp: get_or_create_channel_def Let_def strlcpy_def)
    then show ?thesis
      using irc.lookup_add [OF rep assms(2,3,2,3)] assms(3) by (simp add: find_channel_def irc_eq_def)
  next
    case (Some ch)
    then have "r = Some ch \<and> w' = w" using assms(3-5) by (auto simp: get_or_create_channel_def Let_def)
    then show ?thesis using Some by simp
  qed
  then obtain ch where ch: "r = Some ch" "find_channel w' name' = Some ch" using same [OF inv] by auto
  moreover have "w_channels w' ch \<noteq> None"
    using destroyed_not_found [of w' name' ch] inv assms(6) ch(2) by (auto simp: world_inv_def)
  ultimately show ?thesis
    using ne len assms(4) by (simp add: get_or_create_channel_def Let_def)
qed

theorem get_or_create_channel_finds_witness:
  "find_channel (snd (snd (get_or_create_channel ''#ircd'' small_world))) ''#IRCD'' = Some 10"
proof -
  have "irc_eq ''#IRCD'' ''#ircd''" by code_simp
  then show ?thesis
    using get_or_create_channel_finds [OF world_start_inv [OF small_world_start], of "''#ircd''" "Some 10" True
        "snd (snd (get_or_create_channel ''#ircd'' small_world))" "''#IRCD''"]
    by (simp add: small_world_create CHANNELLEN_def)
qed

text \<open>
  A name of exactly \<open>CHANNELLEN\<close> bytes is stored one byte shorter, so the channel is not
  found under the name it was created with, and asking for the same name again creates a
  second channel.
\<close>

theorem long_channel_name_duplicates:
  assumes "world_inv w" "nul_free name" "length name = CHANNELLEN" "find_channel w name = None"
    and "get_or_create_channel name w = (Some ch, isnew, w')"
  shows "isnew \<and> find_channel w' name = None \<and>
    (\<exists>ch' w''. get_or_create_channel name w' = (Some ch', True, w'') \<and> ch' \<noteq> ch \<and>
      w_channels w'' ch \<noteq> None \<and> w_channels w'' ch' \<noteq> None)"
proof -
  let ?n = "strlcpy name CHANNELLEN"
  have ne: "name \<noteq> []" "length ?n = 199" using assms(3) by (auto simp: CHANNELLEN_def strlcpy_def)
  have w': "ch = w_next w" "isnew" "w' = w\<lparr>w_channels := (w_channels w)(ch \<mapsto> new_channel ?n (w_time w)),
      w_next := Suc ch, w_global := ch # w_global w, w_hash := hash_add ?n ch (w_hash w)\<rparr>"
    using assms(3-5) ne by (auto simp: get_or_create_channel_def Let_def)
  have rep: "irc_rep (w_hash w) (map (\<lambda>c. (ch_chname (chan_of w c), c)) (w_global w))"
    using assms(1) by (simp add: world_inv_def name_inv_def)
  have "\<not> irc_eq name ?n"
  proof
    assume "irc_eq name ?n"
    then have "length name = length ?n" unfolding irc_eq_def irc_fold_def by (metis length_map)
    then show False using ne(2) assms(3) by (simp add: CHANNELLEN_def)
  qed
  moreover have "nul_free ?n" "?n \<noteq> []" using assms(2) ne by (auto simp: nul_free_strlcpy)
  ultimately have "hash_find_data (w_hash w') name = hash_find_data (w_hash w) name"
    using irc.lookup_add [OF rep _ _ assms(2) ne(1)] w'(3) by simp
  then have none: "find_channel w' name = None" using assms(4) ne(1) by (simp add: find_channel_def)
  then have "get_or_create_channel name w' = (Some (Suc ch), True,
      w'\<lparr>w_channels := (w_channels w')(Suc ch \<mapsto> new_channel ?n (w_time w')), w_next := Suc (Suc ch),
        w_global := Suc ch # w_global w', w_hash := hash_add ?n (Suc ch) (w_hash w')\<rparr>)"
    using ne(1) assms(3) w'(3) by (simp add: get_or_create_channel_def Let_def)
  then show ?thesis using w' none by auto
qed

theorem long_channel_name_duplicates_witness:
  "find_channel (snd (snd (get_or_create_channel (replicate 200 (CHR ''#'')) small_world)))
     (replicate 200 (CHR ''#'')) = None"
proof -
  let ?n = "replicate 200 (CHR ''#'')" and ?r = "get_or_create_channel (replicate 200 (CHR ''#'')) small_world"
  have nul: "nul_free ?n" by (simp add: nul_free_def)
  have "?r = (Some 10, fst (snd ?r), snd (snd ?r))"
    using small_world_find [OF nul]
    by (simp add: get_or_create_channel_def Let_def CHANNELLEN_def) (simp add: small_world_def)
  then have "get_or_create_channel ?n small_world = (Some 10, fst (snd ?r), snd (snd ?r))" .
  from long_channel_name_duplicates [OF world_start_inv [OF small_world_start] nul _ small_world_find [OF nul] this]
  show ?thesis by (simp add: CHANNELLEN_def)
qed

end
