(* ===== verification/Bans.thy ===== *)
theory Bans
  imports Channel Match
begin

unbundle bit_operations_syntax

text \<open>
  Bans and the right to speak (\<open>src/channel.c\<close>): \<open>is_banned\<close> with its cache in the
  membership, and \<open>can_send\<close>, which consults the cache. The lemmas show that the cache
  never shows: in every state that the daemon's operations reach, \<open>can_send\<close> answers as if
  it evaluated the ban lists each time.
\<close>

section \<open>Bans\<close>

definition allocate_ban :: "cstring \<Rightarrow> cstring \<Rightarrow> int \<Rightarrow> ban" where
  "allocate_ban banstr who now =
     \<lparr>ban_banstr = strlcpy banstr BANLEN, ban_who = strlcpy who BANLEN, ban_when = now\<rparr>"

text \<open>
  The buffers \<open>src_host\<close> and \<open>src_iphost\<close>; \<open>snprintf\<close> keeps one byte less than their size.
\<close>

definition src_host :: "client \<Rightarrow> cstring" where
  "src_host who =
     strlcpy (cl_name who @ CHR ''!'' # cl_username who @ CHR ''@'' # cl_host who) BANLEN"

definition src_iphost :: "client \<Rightarrow> cstring" where
  "src_iphost who =
     strlcpy (cl_name who @ CHR ''!'' # cl_username who @ CHR ''@'' # cl_sockhost who) BANLEN"

text \<open>
  The conditions of the two loops. The alternative for tunnelled addresses stands under
  \<open>#ifdef RB_IPv6\<close>, a name nothing defines (the option is \<open>RB_IPV6\<close>), and is not compiled.
\<close>

definition ban_hits :: "cstring \<Rightarrow> cstring \<Rightarrow> ban \<Rightarrow> bool" where
  "ban_hits s s2 b =
     (match (ban_banstr b) s \<or> match (ban_banstr b) s2 \<or> match_cidr (ban_banstr b) s2)"

definition cache_ban :: "mid option \<Rightarrow> bool \<Rightarrow> 32 word \<Rightarrow> world \<Rightarrow> world" where
  "cache_ban msptr banned serial w =
     (case msptr of
        None \<Rightarrow> w
      | Some m \<Rightarrow> upd_mem m (\<lambda>ms. ms\<lparr>ms_ban_serial := serial,
          ms_flags := (if banned then ms_flags ms OR CHFL_BANNED else ms_flags ms AND NOT CHFL_BANNED)\<rparr>) w)"

definition is_banned ::
  "config \<Rightarrow> chid \<Rightarrow> cid \<Rightarrow> mid option \<Rightarrow> cstring option \<Rightarrow> cstring option \<Rightarrow> world \<Rightarrow> 32 word \<times> world" where
  "is_banned cfg chptr who msptr s0 s20 w =
     (if \<not> MyClient (client_of w who) then (0, w)
      else
        (let built = (s0 = None \<or> s20 = None);
             s = (if built then src_host (client_of w who) else the s0);
             s2 = (if built then src_iphost (client_of w who) else the s20);
             ch = chan_of w chptr;
             actualBan = find (ban_hits s s2) (ch_banlist ch)
         in if actualBan \<noteq> None \<and> use_except cfg \<and> find (ban_hits s s2) (ch_exceptlist ch) \<noteq> None
            then (CHFL_EXCEPTION, cache_ban msptr False (ch_ban_serial ch) w)
            else if actualBan \<noteq> None then (CHFL_BAN, cache_ban msptr True (ch_ban_serial ch) w)
            else (0, cache_ban msptr False (ch_ban_serial ch) w)))"

section \<open>Reserved channels\<close>

text \<open>\<open>hash_find_resv\<close> (\<open>src/s_newconf.c\<close>) counts its hits in the entry it finds.\<close>

record resvs =
  rv_hash :: "nat hash_f"
  rv_port :: "nat \<Rightarrow> int"

definition hash_find_resv :: "cstring \<Rightarrow> resvs \<Rightarrow> nat option \<times> resvs" where
  "hash_find_resv name rv =
     (case hash_find_data (rv_hash rv) name of
        None \<Rightarrow> (None, rv)
      | Some aconf \<Rightarrow> (Some aconf, rv\<lparr>rv_port := (rv_port rv)(aconf := rv_port rv aconf + 1)\<rparr>))"

section \<open>The right to speak\<close>

datatype can_send_result = CAN_SEND_NO | CAN_SEND_NONOP | CAN_SEND_OPV

text \<open>The part of \<open>can_send\<close> that is reached with a membership.\<close>

definition can_send_member ::
  "config \<Rightarrow> chid \<Rightarrow> cid \<Rightarrow> mid \<Rightarrow> world \<Rightarrow> can_send_result \<times> world" where
  "can_send_member cfg chptr source_p msptr w =
     (if is_chanop_voiced (mem_of w msptr) then (CAN_SEND_OPV, w)
      else if has_flag (ch_mode (chan_of w chptr)) MODE_MODERATED then (CAN_SEND_NO, w)
      else if quiet_on_ban cfg \<and> MyClient (client_of w source_p) then
        (if ms_ban_serial (mem_of w msptr) = ch_ban_serial (chan_of w chptr) then
           (if can_send_banned (mem_of w msptr) then (CAN_SEND_NO, w) else (CAN_SEND_NONOP, w))
         else
           (case is_banned cfg chptr source_p (Some msptr) None None w of
              (r, w') \<Rightarrow> if r = CHFL_BAN then (CAN_SEND_NO, w') else (CAN_SEND_NONOP, w')))
      else (CAN_SEND_NONOP, w))"

definition can_send ::
  "config \<Rightarrow> chid \<Rightarrow> cid \<Rightarrow> mid option \<Rightarrow> resvs \<Rightarrow> world \<Rightarrow> can_send_result \<times> resvs \<times> world" where
  "can_send cfg chptr source_p msptr0 rv w =
     (if IsServer (client_of w source_p) then (CAN_SEND_OPV, rv, w)
      else
        (let (hit, rv') =
               (if MyClient (client_of w source_p) then hash_find_resv (ch_chname (chan_of w chptr)) rv
                else (None, rv))
         in if hit \<noteq> None \<and> \<not> cl_oper (client_of w source_p) \<and> \<not> cl_exemptresv (client_of w source_p)
            then (CAN_SEND_NO, rv', w)
            else
              (case (if msptr0 = None then find_channel_membership w chptr source_p else msptr0) of
                 None \<Rightarrow>
                   (if has_flag (ch_mode (chan_of w chptr)) MODE_NOPRIVMSGS \<or>
                       has_flag (ch_mode (chan_of w chptr)) MODE_MODERATED
                    then (CAN_SEND_NO, rv', w) else (CAN_SEND_NONOP, rv', w))
               | Some msptr \<Rightarrow>
                   (case can_send_member cfg chptr source_p msptr w of (r, w') \<Rightarrow> (r, rv', w')))))"

section \<open>What the cache stands for\<close>

text \<open>The status that evaluating the ban lists gives, without a membership to cache it in.\<close>

definition ban_status :: "config \<Rightarrow> world \<Rightarrow> chid \<Rightarrow> cid \<Rightarrow> 32 word" where
  "ban_status cfg w ch cl = fst (is_banned cfg ch cl None None None w)"

text \<open>\<open>can_send_member\<close> without the cache.\<close>

definition may_speak :: "config \<Rightarrow> chid \<Rightarrow> cid \<Rightarrow> mid \<Rightarrow> world \<Rightarrow> can_send_result" where
  "may_speak cfg ch cl m w =
     (if is_chanop_voiced (mem_of w m) then CAN_SEND_OPV
      else if has_flag (ch_mode (chan_of w ch)) MODE_MODERATED then CAN_SEND_NO
      else if quiet_on_ban cfg \<and> ban_status cfg w ch cl = CHFL_BAN then CAN_SEND_NO
      else CAN_SEND_NONOP)"

definition cache_inv :: "config \<Rightarrow> world \<Rightarrow> bool" where
  "cache_inv cfg w =
     ((\<forall>m ms. w_mems w m = Some ms \<longrightarrow>
         unat (ms_ban_serial ms) \<le> unat (ch_ban_serial (chan_of w (ms_chptr ms))) \<and>
         (MyClient (client_of w (ms_client_p ms)) \<longrightarrow>
          ms_ban_serial ms = ch_ban_serial (chan_of w (ms_chptr ms)) \<longrightarrow>
          (can_send_banned ms \<longleftrightarrow> ban_status cfg w (ms_chptr ms) (ms_client_p ms) = CHFL_BAN))) \<and>
      (\<forall>ch c. w_channels w ch = Some c \<longrightarrow> ch_ban_serial c = 0 \<longrightarrow> ch_banlist c = []))"

lemma chfl_ban_distinct [simp]: "CHFL_BAN \<noteq> 0" "CHFL_EXCEPTION \<noteq> CHFL_BAN" "CHFL_BAN \<noteq> CHFL_EXCEPTION"
  "CHFL_EXCEPTION \<noteq> 0"
  by (simp_all add: mode_defs)

lemma find_ex: "(\<exists>y. find P xs = Some y) \<longleftrightarrow> (\<exists>x \<in> set xs. P x)"
  by (induction xs) auto

lemma ban_status_eq:
  "MyClient (client_of w cl) \<Longrightarrow>
   ban_status cfg w ch cl =
     (let s = src_host (client_of w cl); s2 = src_iphost (client_of w cl); c = chan_of w ch
      in if \<not> (\<exists>b \<in> set (ch_banlist c). ban_hits s s2 b) then 0
         else if use_except cfg \<and> (\<exists>b \<in> set (ch_exceptlist c). ban_hits s s2 b) then CHFL_EXCEPTION
         else CHFL_BAN)"
  by (auto simp: ban_status_def is_banned_def Let_def find_ex)

lemma ban_status_remote: "\<not> MyClient (client_of w cl) \<Longrightarrow> ban_status cfg w ch cl = 0"
  by (simp add: ban_status_def is_banned_def)

lemma is_banned_cached:
  "MyClient (client_of w cl) \<Longrightarrow>
   is_banned cfg ch cl msptr None None w =
     (ban_status cfg w ch cl,
      cache_ban msptr (ban_status cfg w ch cl = CHFL_BAN) (ch_ban_serial (chan_of w ch)) w)"
  by (simp add: ban_status_def is_banned_def Let_def)

text \<open>What the ban status depends on.\<close>

lemma ban_status_cong:
  assumes "MyClient (client_of w' cl) = MyClient (client_of w cl)"
    "src_host (client_of w' cl) = src_host (client_of w cl)"
    "src_iphost (client_of w' cl) = src_iphost (client_of w cl)"
    "ch_banlist (chan_of w' ch) = ch_banlist (chan_of w ch)"
    "ch_exceptlist (chan_of w' ch) = ch_exceptlist (chan_of w ch)"
  shows "ban_status cfg w' ch cl = ban_status cfg w ch cl"
  unfolding ban_status_def is_banned_def assms Let_def by auto

section \<open>Keeping the cache right\<close>

definition same_bans :: "world \<Rightarrow> world \<Rightarrow> chid \<Rightarrow> bool" where
  "same_bans w w' ch =
     (ch_banlist (chan_of w' ch) = ch_banlist (chan_of w ch) \<and>
      ch_exceptlist (chan_of w' ch) = ch_exceptlist (chan_of w ch) \<and>
      ch_ban_serial (chan_of w' ch) = ch_ban_serial (chan_of w ch))"

definition same_mask :: "world \<Rightarrow> world \<Rightarrow> cid \<Rightarrow> bool" where
  "same_mask w w' cl =
     (MyClient (client_of w' cl) = MyClient (client_of w cl) \<and>
      src_host (client_of w' cl) = src_host (client_of w cl) \<and>
      src_iphost (client_of w' cl) = src_iphost (client_of w cl))"

lemma no_bans_status: "ch_banlist (chan_of w ch) = [] \<Longrightarrow> ban_status cfg w ch cl \<noteq> CHFL_BAN"
  by (cases "MyClient (client_of w cl)") (simp_all add: ban_status_eq ban_status_remote Let_def)

text \<open>
  The cache stays right when every membership is either as it was, with the same ban lists
  and the same mask to check, or has an empty cache.
\<close>

lemma cache_inv_change:
  assumes inv: "cache_inv cfg w"
    and mems: "\<And>m ms. w_mems w' m = Some ms \<Longrightarrow> w_channels w' (ms_chptr ms) \<noteq> None \<and>
      (w_mems w m = Some ms \<and> same_mask w w' (ms_client_p ms) \<and> same_bans w w' (ms_chptr ms) \<or>
       ms_ban_serial ms = 0 \<and> \<not> can_send_banned ms)"
    and chans: "\<And>x d. w_channels w' x = Some d \<Longrightarrow> ch_ban_serial d = 0 \<Longrightarrow> ch_banlist d = []"
  shows "cache_inv cfg w'"
  unfolding cache_inv_def
proof (intro conjI allI impI)
  fix m ms assume ms: "w_mems w' m = Some ms"
  let ?ch = "ms_chptr ms" and ?cl = "ms_client_p ms"
  consider (old) "w_mems w m = Some ms" "same_mask w w' ?cl" "same_bans w w' ?ch"
    | (empty) "ms_ban_serial ms = 0" "\<not> can_send_banned ms" using mems [OF ms] by blast
  note cs = this
  show "unat (ms_ban_serial ms) \<le> unat (ch_ban_serial (chan_of w' ?ch))"
    using cs inv by cases (auto simp: cache_inv_def same_bans_def)
  assume my: "MyClient (client_of w' ?cl)" and eq: "ms_ban_serial ms = ch_ban_serial (chan_of w' ?ch)"
  show "can_send_banned ms \<longleftrightarrow> ban_status cfg w' ?ch ?cl = CHFL_BAN"
    using cs
  proof cases
    case old
    then have "ban_status cfg w' ?ch ?cl = ban_status cfg w ?ch ?cl"
      by (intro ban_status_cong) (simp_all add: same_mask_def same_bans_def)
    then show ?thesis using old inv my eq by (simp add: cache_inv_def same_mask_def same_bans_def)
  next
    case empty
    obtain d where "w_channels w' ?ch = Some d" using mems [OF ms] by auto
    then have "ch_banlist (chan_of w' ?ch) = []" using chans [of ?ch d] eq empty(1) by simp
    then show ?thesis using empty(2) no_bans_status by simp
  qed
qed (rule chans)

lemma serial_zero: "cache_inv cfg w \<Longrightarrow> w_channels w ch = Some c \<Longrightarrow> ch_ban_serial c = 0 \<Longrightarrow> ch_banlist c = []"
  by (simp add: cache_inv_def)

lemma link_member_bans [simp]:
  "ch_banlist (link_member my ms m c) = ch_banlist c" "ch_exceptlist (link_member my ms m c) = ch_exceptlist c"
  "ch_ban_serial (link_member my ms m c) = ch_ban_serial c"
  by (simp_all add: link_member_def memlist_update_def Let_def)

lemma unlink_chan_bans [simp]:
  "ch_banlist (unlink_chan my ms m c) = ch_banlist c" "ch_exceptlist (unlink_chan my ms m c) = ch_exceptlist c"
  "ch_ban_serial (unlink_chan my ms m c) = ch_ban_serial c"
  by (simp_all add: unlink_chan_def memlist_update_def Let_def)

lemma world_inv_live: "world_inv w \<Longrightarrow> w_mems w m = Some ms \<Longrightarrow> w_channels w (ms_chptr ms) \<noteq> None"
  using mem_inv_channel by (auto simp: world_inv_def)

lemma join_cache_inv:
  assumes inv: "world_inv w" "cache_inv cfg w" and c: "w_channels w ch = Some c"
    and fl: "\<not> has_flag flags CHFL_BANNED"
  shows "cache_inv cfg (add_user_to_channel ch cl flags w)"
proof (cases "cl_user (client_of w cl)")
  case True
  note sel = add_user_sel [OF True c, of flags]
  show ?thesis
  proof (rule cache_inv_change [OF inv(2)])
    fix m ms assume "w_mems (add_user_to_channel ch cl flags w) m = Some ms"
    then show "w_channels (add_user_to_channel ch cl flags w) (ms_chptr ms) \<noteq> None \<and>
      (w_mems w m = Some ms \<and> same_mask w (add_user_to_channel ch cl flags w) (ms_client_p ms) \<and>
         same_bans w (add_user_to_channel ch cl flags w) (ms_chptr ms) \<or>
       ms_ban_serial ms = 0 \<and> \<not> can_send_banned ms)"
      using c fl world_inv_live [OF inv(1)]
      by (auto simp: sel same_mask_def same_bans_def chan_of_def src_host_def src_iphost_def
          MyClient_def IsClient_def can_send_banned_def split: if_splits)
  qed (use c serial_zero [OF inv(2)] in \<open>auto simp: sel(3) split: if_splits\<close>)
qed (use inv in \<open>simp add: add_user_to_channel_def\<close>)

lemma remove_user_frame:
  assumes inv: "world_inv w" and ms: "w_mems w m = Some ms"
  defines "w' \<equiv> remove_user_from_channel m w"
  shows "w_channels w' x = Some d \<Longrightarrow> w_channels w x \<noteq> None \<and> same_bans w w' x"
    and "same_mask w w' cl"
proof -
  let ?ch = "ms_chptr ms" and ?cl = "ms_client_p ms"
  let ?v = "upd_client ?cl (\<lambda>c. c\<lparr>cl_channel := remove1 m (cl_channel c)\<rparr>) w"
  let ?w = "unlinked ?cl m ?v"
  obtain c where c: "w_channels w ?ch = Some c" using world_inv_live [OF inv ms] by auto
  have ms': "w_mems ?v m = Some ms" "w_channels ?v ?ch = Some c" using ms c by simp_all
  note sel = unlinked_sel [OF ms', of ?cl]
  obtain e where e: "w_channels ?w ?ch = Some e" "ch_invites e = ch_invites c" using sel(1) by simp
  have "distinct (ch_invites e)" using inv c e(2) by (auto simp: world_inv_def invite_inv_def)
  note des = destroy_sel [OF e(1) this]
  have eq: "w' = (if chan_member_count (chan_of ?w ?ch) = 0 then destroy_channel ?ch ?w else ?w)"
    using ms by (simp add: w'_def remove_user_from_channel_def unlink_member_eq Let_def mem_of_def)
  show "w_channels w' x = Some d \<Longrightarrow> w_channels w x \<noteq> None \<and> same_bans w w' x"
    using c by (auto simp: eq des(5) sel(1) same_bans_def chan_of_def split: if_splits)
  show "same_mask w w' cl"
    by (auto simp: eq des(6) sel(3) same_mask_def src_host_def src_iphost_def MyClient_def IsClient_def uninvite_def)
qed

lemma part_cache_inv:
  assumes inv: "world_inv w" "cache_inv cfg w" and ms: "w_mems w m = Some ms"
  shows "cache_inv cfg (remove_user_from_channel m w)"
proof (rule cache_inv_change [OF inv(2)])
  let ?w = "remove_user_from_channel m w"
  fix m' ms' assume a: "w_mems ?w m' = Some ms'"
  then have "w_channels ?w (ms_chptr ms') \<noteq> None"
    using world_inv_live remove_user_inv [OF inv(1) ms] by blast
  moreover have "w_mems w m' = Some ms'"
    using a remove_user_effect(1) [OF inv(1) ms] by (simp split: if_splits)
  ultimately show "w_channels ?w (ms_chptr ms') \<noteq> None \<and>
      (w_mems w m' = Some ms' \<and> same_mask w ?w (ms_client_p ms') \<and> same_bans w ?w (ms_chptr ms') \<or>
       ms_ban_serial ms' = 0 \<and> \<not> can_send_banned ms')"
    using remove_user_frame [OF inv(1) ms] by blast
next
  fix x d assume "w_channels (remove_user_from_channel m w) x = Some d" "ch_ban_serial d = 0"
  then show "ch_banlist d = []"
    using remove_user_frame(1) [OF inv(1) ms] serial_zero [OF inv(2)]
    by (metis chan_of_def option.collapse option.sel same_bans_def)
qed

lemma quit_cache_inv:
  "world_inv w \<Longrightarrow> cache_inv cfg w \<Longrightarrow> cl_channel (client_of w cl) = l \<Longrightarrow>
   cache_inv cfg (fold remove_user_from_channel l w)"
proof (induction l arbitrary: w)
  case (Cons m l)
  obtain ms where ms: "w_mems w m = Some ms" "ms_client_p ms = cl"
    using member_of_list [OF Cons.prems(1), of m cl] Cons.prems(3) by auto
  have "cl_channel (client_of (remove_user_from_channel m w) cl) = l"
    using remove_user_effect(2) [OF Cons.prems(1) ms(1)] ms(2) Cons.prems(3) by simp
  then show ?case
    using Cons.IH remove_user_inv [OF Cons.prems(1) ms(1)] part_cache_inv [OF Cons.prems(1,2) ms(1)] by simp
qed simp

text \<open>A change of the ban lists that counts the serial up invalidates every cached status.\<close>

lemma edit_cache_inv:
  assumes inv: "cache_inv cfg w" and c: "w_channels w ch = Some c"
    and f: "ch_ban_serial (f c) = ch_ban_serial c + 1" "ch_ban_serial c \<noteq> - 1"
  shows "cache_inv cfg (upd_chan ch f w)"
  unfolding cache_inv_def
proof (intro conjI allI impI)
  have up: "unat (ch_ban_serial (f c)) = Suc (unat (ch_ban_serial c))"
  proof -
    have "1 + ch_ban_serial c \<noteq> 0" using f(2) by (metis add_eq_0_iff)
    then show ?thesis using f(1) unatSuc [of "ch_ban_serial c"] by (simp add: add.commute)
  qed
  fix m ms assume ms: "w_mems (upd_chan ch f w) m = Some ms"
  have le: "unat (ms_ban_serial ms) \<le> unat (ch_ban_serial (chan_of w (ms_chptr ms)))"
    using inv ms by (simp add: cache_inv_def)
  then show "unat (ms_ban_serial ms) \<le> unat (ch_ban_serial (chan_of (upd_chan ch f w) (ms_chptr ms)))"
    using c up by (auto simp: chan_of_def)
  assume my: "MyClient (client_of (upd_chan ch f w) (ms_client_p ms))"
    and eq: "ms_ban_serial ms = ch_ban_serial (chan_of (upd_chan ch f w) (ms_chptr ms))"
  have "ms_chptr ms \<noteq> ch" using eq le up c by (auto simp: chan_of_def)
  then have same: "chan_of (upd_chan ch f w) (ms_chptr ms) = chan_of w (ms_chptr ms)"
    by (simp add: chan_of_def)
  then have "ban_status cfg (upd_chan ch f w) (ms_chptr ms) (ms_client_p ms) =
      ban_status cfg w (ms_chptr ms) (ms_client_p ms)"
    by (intro ban_status_cong) simp_all
  then show "can_send_banned ms \<longleftrightarrow>
      ban_status cfg (upd_chan ch f w) (ms_chptr ms) (ms_client_p ms) = CHFL_BAN"
    using inv ms my eq same by (simp add: cache_inv_def)
next
  fix x d assume "w_channels (upd_chan ch f w) x = Some d" "ch_ban_serial d = 0"
  moreover have "ch_ban_serial (f c) \<noteq> 0" using f(2) by (metis f(1) add_eq_0_iff add.commute)
  ultimately show "ch_banlist d = []" using inv c by (auto simp: cache_inv_def split: if_splits)
qed

lemma create_cache_inv:
  assumes inv: "world_inv w" "cache_inv cfg w"
  shows "cache_inv cfg (snd (snd (get_or_create_channel name w)))"
proof -
  have fresh: "w_channels w (w_next w) = None" using inv(1) by (simp add: world_inv_def mem_inv_def fresh_ok_def)
  have "cache_inv cfg (w\<lparr>w_channels := (w_channels w)(w_next w \<mapsto> new_channel n t), w_next := i,
      w_global := g, w_hash := h\<rparr>)" for n t i g h
  proof (rule cache_inv_change [OF inv(2)])
    let ?w = "w\<lparr>w_channels := (w_channels w)(w_next w \<mapsto> new_channel n t), w_next := i,
      w_global := g, w_hash := h\<rparr>"
    fix m ms assume "w_mems ?w m = Some ms"
    moreover from this have "w_channels w (ms_chptr ms) \<noteq> None" using world_inv_live [OF inv(1)] by simp
    moreover from this have "ms_chptr ms \<noteq> w_next w" using fresh by metis
    ultimately show "w_channels ?w (ms_chptr ms) \<noteq> None \<and>
      (w_mems w m = Some ms \<and> same_mask w ?w (ms_client_p ms) \<and> same_bans w ?w (ms_chptr ms) \<or>
       ms_ban_serial ms = 0 \<and> \<not> can_send_banned ms)"
      by (simp add: same_mask_def same_bans_def chan_of_def)
  qed (use serial_zero [OF inv(2)] in \<open>auto simp: new_channel_def split: if_splits\<close>)
  then show ?thesis
    using inv(2) by (simp add: get_or_create_channel_def Let_def split: option.split)
qed

text \<open>
  What \<open>change_local_nick\<close> (\<open>modules/core/m_nick.c\<close>) does to the ban cache and the name: the
  cache of the client is emptied, unless only the case of the nick changes.
\<close>

definition change_nick :: "cid \<Rightarrow> cstring \<Rightarrow> world \<Rightarrow> world" where
  "change_nick cl nick w =
     upd_client cl (\<lambda>c. c\<lparr>cl_name := nick\<rparr>)
       (if irccmp (cl_name (client_of w cl)) nick = 0 then w else invalidate_bancache_user cl w)"

lemma uncache_effect:
  "distinct l \<Longrightarrow>
   w_mems (fold (\<lambda>m. upd_mem m (\<lambda>ms. ms\<lparr>ms_ban_serial := 0, ms_flags := ms_flags ms AND NOT CHFL_BANNED\<rparr>)) l w) m =
     (if m \<in> set l then Some ((mem_of w m)\<lparr>ms_ban_serial := 0, ms_flags := ms_flags (mem_of w m) AND NOT CHFL_BANNED\<rparr>)
      else w_mems w m) \<and>
   w_clients (fold (\<lambda>m. upd_mem m (\<lambda>ms. ms\<lparr>ms_ban_serial := 0, ms_flags := ms_flags ms AND NOT CHFL_BANNED\<rparr>)) l w) =
     w_clients w \<and>
   w_channels (fold (\<lambda>m. upd_mem m (\<lambda>ms. ms\<lparr>ms_ban_serial := 0, ms_flags := ms_flags ms AND NOT CHFL_BANNED\<rparr>)) l w) =
     w_channels w"
  by (induction l arbitrary: w) (auto simp: mem_of_def)

lemma change_nick_world_inv:
  assumes "world_inv w" shows "world_inv (change_nick cl nick w)"
proof -
  let ?v = "if irccmp (cl_name (client_of w cl)) nick = 0 then w else invalidate_bancache_user cl w"
  have i: "mem_inv ?v" "name_inv ?v" "invite_inv ?v"
    using invalidate_world_inv [OF assms] assms by (simp_all add: world_inv_def)
  show ?thesis
    unfolding world_inv_def change_nick_def
    using mem_inv_cong [OF i(1)] name_inv_cong [OF i(2)] invite_inv_cong [OF i(3)]
    by (simp add: chan_of_def)
qed

lemma change_nick_cache_inv:
  assumes inv: "world_inv w" "cache_inv cfg w" and new: "irccmp (cl_name (client_of w cl)) nick \<noteq> 0"
  shows "cache_inv cfg (change_nick cl nick w)"
proof (rule cache_inv_change [OF inv(2)])
  have cn: "change_nick cl nick w = upd_client cl (\<lambda>c. c\<lparr>cl_name := nick\<rparr>) (invalidate_bancache_user cl w)"
    using new by (simp add: change_nick_def)
  let ?w = "change_nick cl nick w"
  have l: "distinct (cl_channel (client_of w cl))"
    "m \<in> set (cl_channel (client_of w cl)) \<longleftrightarrow> (\<exists>ms. w_mems w m = Some ms \<and> ms_client_p ms = cl)" for m
    using inv(1) by (auto simp: world_inv_def mem_inv_def user_list_ok_def indexes_def mems_where_def)
  note u = uncache_effect [OF l(1), of w]
  have chs: "w_channels ?w = w_channels w"
    using u by (simp add: cn invalidate_bancache_user_def)
  fix m ms assume a: "w_mems ?w m = Some ms"
  have "w_channels ?w (ms_chptr ms) \<noteq> None"
    using world_inv_live [OF change_nick_world_inv [OF inv(1)] a] .
  moreover have "w_mems w m = Some ms \<and> ms_client_p ms \<noteq> cl \<or> ms_ban_serial ms = 0 \<and> \<not> can_send_banned ms"
    using a u [of m] l(2) [of m]
    by (auto simp: cn invalidate_bancache_user_def can_send_banned_def split: if_splits)
  moreover have "same_mask w ?w (ms_client_p ms)" if "ms_client_p ms \<noteq> cl"
    using that u by (simp add: cn invalidate_bancache_user_def same_mask_def)
  ultimately show "w_channels ?w (ms_chptr ms) \<noteq> None \<and>
      (w_mems w m = Some ms \<and> same_mask w ?w (ms_client_p ms) \<and> same_bans w ?w (ms_chptr ms) \<or>
       ms_ban_serial ms = 0 \<and> \<not> can_send_banned ms)"
    using chs by (auto simp: same_bans_def chan_of_def)
next
  fix x d assume "w_channels (change_nick cl nick w) x = Some d" "ch_ban_serial d = 0"
  moreover have "w_channels (change_nick cl nick w) = w_channels w"
    using new uncache_effect [of "cl_channel (client_of w cl)" w] inv(1)
    by (simp add: change_nick_def invalidate_bancache_user_def world_inv_def mem_inv_def user_list_ok_def indexes_def)
  ultimately show "ch_banlist d = []" using serial_zero [OF inv(2)] by metis
qed

section \<open>Speaking\<close>

lemma cache_ban_sel [simp]:
  "w_clients (cache_ban mp b sr w) = w_clients w" "w_channels (cache_ban mp b sr w) = w_channels w"
  by (simp_all add: cache_ban_def split: option.split)

lemma cache_ban_world_inv:
  "world_inv w \<Longrightarrow> w_mems w m = Some ms \<Longrightarrow> world_inv (cache_ban (Some m) b sr w)"
  by (auto simp: cache_ban_def is_chanop_def intro!: upd_mem_world_inv split: if_splits)

lemma cache_ban_cache_inv:
  assumes inv: "cache_inv cfg w" and ms: "w_mems w m = Some ms"
  defines "w' \<equiv> cache_ban (Some m) (ban_status cfg w (ms_chptr ms) (ms_client_p ms) = CHFL_BAN)
      (ch_ban_serial (chan_of w (ms_chptr ms))) w"
  shows "cache_inv cfg w'"
proof -
  have st: "ban_status cfg w' x y = ban_status cfg w x y" for x y
    by (rule ban_status_cong) (simp_all add: w'_def chan_of_def)
  have "w_mems w' = (w_mems w)(m \<mapsto> ms\<lparr>ms_ban_serial := ch_ban_serial (chan_of w (ms_chptr ms)),
      ms_flags := (if ban_status cfg w (ms_chptr ms) (ms_client_p ms) = CHFL_BAN
        then ms_flags ms OR CHFL_BANNED else ms_flags ms AND NOT CHFL_BANNED)\<rparr>)"
    using ms by (simp add: w'_def cache_ban_def)
  moreover have "w_channels w' = w_channels w" "w_clients w' = w_clients w" by (simp_all add: w'_def)
  ultimately show ?thesis
    using inv unfolding cache_inv_def by (auto simp: st chan_of_def can_send_banned_def)
qed

lemma can_send_member_correct:
  assumes inv: "world_inv w" "cache_inv cfg w" and ms: "w_mems w m = Some ms"
  shows "fst (can_send_member cfg (ms_chptr ms) (ms_client_p ms) m w) =
      may_speak cfg (ms_chptr ms) (ms_client_p ms) m w"
    and "world_inv (snd (can_send_member cfg (ms_chptr ms) (ms_client_p ms) m w))"
    and "cache_inv cfg (snd (can_send_member cfg (ms_chptr ms) (ms_client_p ms) m w))"
proof -
  let ?ch = "ms_chptr ms" and ?cl = "ms_client_p ms"
  have ok: "can_send_banned ms \<longleftrightarrow> ban_status cfg w ?ch ?cl = CHFL_BAN"
    if "MyClient (client_of w ?cl)" "ms_ban_serial ms = ch_ban_serial (chan_of w ?ch)"
    using inv(2) ms that by (simp add: cache_inv_def)
  show "fst (can_send_member cfg ?ch ?cl m w) = may_speak cfg ?ch ?cl m w"
    using ms ok
    by (auto simp: can_send_member_def may_speak_def is_banned_cached ban_status_remote split: prod.split)
  show "world_inv (snd (can_send_member cfg ?ch ?cl m w))"
    using inv(1) ms cache_ban_world_inv [OF inv(1) ms]
    by (auto simp: can_send_member_def is_banned_cached split: prod.split)
  show "cache_inv cfg (snd (can_send_member cfg ?ch ?cl m w))"
    using inv(2) ms cache_ban_cache_inv [OF inv(2) ms]
    by (auto simp: can_send_member_def is_banned_cached split: prod.split)
qed

text \<open>The answer of \<open>can_send\<close> computed from the lists, without any cache.\<close>

definition can_send_spec :: "config \<Rightarrow> chid \<Rightarrow> cid \<Rightarrow> resvs \<Rightarrow> world \<Rightarrow> can_send_result" where
  "can_send_spec cfg ch cl rv w =
     (let c = client_of w cl
      in if IsServer c then CAN_SEND_OPV
         else if MyClient c \<and> \<not> cl_oper c \<and> \<not> cl_exemptresv c \<and>
           hash_find_data (rv_hash rv) (ch_chname (chan_of w ch)) \<noteq> None then CAN_SEND_NO
         else case find_channel_membership w ch cl of
                Some m \<Rightarrow> may_speak cfg ch cl m w
              | None \<Rightarrow> if has_flag (ch_mode (chan_of w ch)) MODE_NOPRIVMSGS \<or>
                         has_flag (ch_mode (chan_of w ch)) MODE_MODERATED
                       then CAN_SEND_NO else CAN_SEND_NONOP)"

lemma membership_found:
  assumes "world_inv w" "find_channel_membership w ch cl = Some m" "w_channels w ch = Some c"
  shows "\<exists>ms. w_mems w m = Some ms \<and> ms_chptr ms = ch \<and> ms_client_p ms = cl"
  using find_channel_membership_sound [of w ch c cl m] assms by (auto simp: world_inv_def membership_of_def)

lemma can_send_correct:
  assumes inv: "world_inv w" "cache_inv cfg w" and c: "w_channels w ch = Some c"
    and mp: "mp = None \<or> mp = find_channel_membership w ch cl"
    and r: "can_send cfg ch cl mp rv w = (res, rv', w')"
  shows "res = can_send_spec cfg ch cl rv w" "world_inv w'" "cache_inv cfg w'"
proof -
  let ?f = "find_channel_membership w ch cl"
  have mem: "(if mp = None then ?f else mp) = ?f" using mp by auto
  have hit: "fst (hash_find_resv n rv) = hash_find_data (rv_hash rv) n" for n
    by (simp add: hash_find_resv_def split: option.split)
  have m: "fst (can_send_member cfg ch cl m w) = may_speak cfg ch cl m w \<and>
      world_inv (snd (can_send_member cfg ch cl m w)) \<and> cache_inv cfg (snd (can_send_member cfg ch cl m w))"
    if "?f = Some m" for m
    using membership_found [OF inv(1) that c] can_send_member_correct [OF inv] by blast
  show "res = can_send_spec cfg ch cl rv w" "world_inv w'" "cache_inv cfg w'"
    using r inv m hit [of "ch_chname (chan_of w ch)"] mem
    by (auto simp: can_send_def can_send_spec_def Let_def split: if_splits option.splits prod.splits)
qed

section \<open>Reachable states\<close>

inductive ban_step :: "config \<Rightarrow> world \<Rightarrow> world \<Rightarrow> bool" for cfg where
  join: "w_channels w ch = Some c \<Longrightarrow> IsClient (client_of w cl) \<Longrightarrow>
    find_channel_membership w ch cl = None \<Longrightarrow> \<not> has_flag flags CHFL_BANNED \<Longrightarrow>
    ban_step cfg w (add_user_to_channel ch cl flags w)"
| part: "w_mems w m = Some ms \<Longrightarrow> ban_step cfg w (remove_user_from_channel m w)"
| quit: "ban_step cfg w (remove_user_from_channels cl w)"
| create: "name \<noteq> [] \<Longrightarrow> nul_free name \<Longrightarrow> ban_step cfg w (snd (snd (get_or_create_channel name w)))"
| speak: "w_channels w ch = Some c \<Longrightarrow> mp = None \<or> mp = find_channel_membership w ch cl \<Longrightarrow>
    can_send cfg ch cl mp rv w = (r, rv', w') \<Longrightarrow> ban_step cfg w w'"
| edit: "w_channels w ch = Some c \<Longrightarrow> ch_ban_serial c \<noteq> - 1 \<Longrightarrow>
    ban_step cfg w (upd_chan ch (\<lambda>c. c\<lparr>ch_banlist := bl, ch_exceptlist := el,
      ch_ban_serial := ch_ban_serial c + 1\<rparr>) w)"
| nick: "irccmp (cl_name (client_of w cl)) nick \<noteq> 0 \<Longrightarrow> ban_step cfg w (change_nick cl nick w)"

inductive ban_reach :: "config \<Rightarrow> world \<Rightarrow> world \<Rightarrow> bool" for cfg w0 where
  start: "ban_reach cfg w0 w0"
| step: "ban_reach cfg w0 w \<Longrightarrow> ban_step cfg w w' \<Longrightarrow> ban_reach cfg w0 w'"

lemma ban_step_inv:
  "ban_step cfg w w' \<Longrightarrow> world_inv w \<and> cache_inv cfg w \<Longrightarrow> world_inv w' \<and> cache_inv cfg w'"
proof (induction rule: ban_step.induct)
  case (quit w cl)
  then show ?case
    using remove_user_from_channels_fold(1,2) [of w cl] quit_cache_inv [OF _ _ refl, of w cfg cl] by metis
next
  case (edit w ch c bl el)
  then show ?case
    using edit_cache_inv upd_chan_world_inv by simp
qed (auto intro: add_user_world_inv join_cache_inv remove_user_inv part_cache_inv create_world_inv
    create_cache_inv change_nick_world_inv change_nick_cache_inv dest: can_send_correct(2,3))

lemma ban_reach_inv: "ban_reach cfg w0 w \<Longrightarrow> world_start w0 \<Longrightarrow> world_inv w \<and> cache_inv cfg w"
proof (induction rule: ban_reach.induct)
  case start
  then show ?case using world_start_inv [OF start] by (auto simp: world_start_def cache_inv_def)
qed (metis ban_step_inv)

section \<open>Properties\<close>

lemma small_channel_ban_reach: "ban_reach cfg small_world small_channel"
proof -
  let ?w = "snd (snd (get_or_create_channel ''#ircd'' small_world))"
  have "ban_reach cfg small_world ?w"
    by (rule ban_reach.step [OF ban_reach.start ban_step.create]) simp_all
  moreover have "\<exists>c. w_channels ?w 10 = Some c" "IsClient (client_of ?w 1)"
    "find_channel_membership ?w 10 1 = None"
    by (simp_all add: small_world_create find_channel_membership_def)
       (simp_all add: small_world_def user_named_def IsClient_def)
  moreover have "\<not> has_flag CHFL_CHANOP CHFL_BANNED" by (simp add: chfl_disjoint)
  ultimately show ?thesis
    unfolding small_channel_def by (blast intro: ban_reach.step ban_step.join)
qed

text \<open>
  \<open>is_banned\<close> for a local client, with the masks it builds itself: the client is
  reported banned exactly when some ban matches one of its masks and, if exceptions are in
  use, no exception does; an exception is reported exactly when both match.
\<close>

theorem is_banned_iff:
  fixes w :: world and ch :: chid and cl :: cid and cfg :: config
  assumes "MyClient (client_of w cl)"
  defines "hits \<equiv> ban_hits (src_host (client_of w cl)) (src_iphost (client_of w cl))"
  defines "banned \<equiv> \<exists>b \<in> set (ch_banlist (chan_of w ch)). hits b"
  defines "exempt \<equiv> use_except cfg \<and> (\<exists>b \<in> set (ch_exceptlist (chan_of w ch)). hits b)"
  shows "fst (is_banned cfg ch cl mp None None w) =
    (if banned \<and> \<not> exempt then CHFL_BAN else if banned then CHFL_EXCEPTION else 0)"
  using assms(1) ban_status_eq [OF assms(1), of cfg ch]
  by (auto simp: is_banned_cached hits_def banned_def exempt_def Let_def)

theorem is_banned_iff_witness:
  "fst (is_banned small_config 10 1 None None None
     (upd_chan 10 (\<lambda>c. c\<lparr>ch_banlist := [allocate_ban ''NICK!*@*'' ''op'' 0]\<rparr>) small_channel)) = CHFL_BAN"
proof -
  let ?w = "upd_chan 10 (\<lambda>c. c\<lparr>ch_banlist := [allocate_ban ''NICK!*@*'' ''op'' 0]\<rparr>) small_channel"
  have cl: "MyClient (client_of ?w 1)" "src_host (client_of ?w 1) = ''nick!u@h.example''"
    by (simp_all add: small_channel_def small_world_create add_user_to_channel_def Let_def)
       (simp_all add: small_world_def user_named_def MyClient_def IsClient_def src_host_def strlcpy_def BANLEN_def)
  have ch: "ch_exceptlist (chan_of ?w 10) = []"
    "ch_banlist (chan_of ?w 10) = [allocate_ban ''NICK!*@*'' ''op'' 0]"
    by (simp_all add: small_channel_def small_world_create add_user_to_channel_def Let_def chan_of_def
        new_channel_def memlist_update_def)
  have "match ''NICK!*@*'' ''nick!u@h.example''" by code_simp
  then have "ban_hits ''nick!u@h.example'' t (allocate_ban ''NICK!*@*'' ''op'' 0)" for t
    by (simp add: ban_hits_def allocate_ban_def strlcpy_def BANLEN_def)
  then show ?thesis
    using is_banned_iff [OF cl(1), of small_config 10 None, unfolded cl(2) ch] by simp
qed



end
