(* ===== verification/ChanInfo.thy ===== *)
theory ChanInfo
  imports Channel
begin

unbundle bit_operations_syntax

text \<open>
  The rest of \<open>src/channel.c\<close>: the NAMES reply, the string of simple modes, the counts of
  server capability combinations, the spambot warning and splitmode.
\<close>

section \<open>NAMES\<close>

definition CLICAP_MULTI_PREFIX :: "32 word" where "CLICAP_MULTI_PREFIX = 0x0001"

definition PubChannel :: "channel \<Rightarrow> bool" where
  "PubChannel ch = (\<not> has_flag (ch_mode ch) (MODE_PRIVATE OR MODE_SECRET))"

definition SecretChannel :: "channel \<Rightarrow> bool" where
  "SecretChannel ch = has_flag (ch_mode ch) MODE_SECRET"

definition ShowChannel :: "world \<Rightarrow> cid \<Rightarrow> chid \<Rightarrow> bool" where
  "ShowChannel w v c = (PubChannel (chan_of w c) \<or> IsMember w v c)"

definition channel_pub_or_secret :: "channel \<Rightarrow> cstring" where
  "channel_pub_or_secret ch =
     (if PubChannel ch then ''='' else if SecretChannel ch then ''@'' else ''*'')"

text \<open>
  The loop over the members to show; \<open>buf\<close> is \<open>lbuf\<close> up to \<open>t\<close>, \<open>pre\<close> its first \<open>mlen\<close> bytes.
  \<open>*(t - 1) = '\<setminus>0'\<close> drops the last byte of the line that is sent.
\<close>

fun names_loop :: "cstring \<Rightarrow> (cstring \<times> cstring) list \<Rightarrow> cstring \<Rightarrow> cstring list" where
  "names_loop pre [] buf = (if length buf \<noteq> length pre then [butlast buf] else [])"
| "names_loop pre ((st, nm) # xs) buf =
     (if length buf + length nm + 3 \<ge> IRCD_BUFSIZE - 3
      then butlast buf # names_loop pre xs (pre @ st @ nm @ '' '')
      else names_loop pre xs (buf @ st @ nm @ '' ''))"

definition names_items :: "world \<Rightarrow> chid \<Rightarrow> cid \<Rightarrow> (cstring \<times> cstring) list" where
  "names_items w chptr client_p =
     (let ch = chan_of w chptr; stack = IsCapable (client_of w client_p) CLICAP_MULTI_PREFIX;
          is_member = IsMember w client_p chptr
      in map (\<lambda>m. (find_channel_status (mem_of w m) stack, cl_name (client_of w (ms_client_p (mem_of w m)))))
           (filter (\<lambda>m. \<not> (cl_invisible (client_of w (ms_client_p (mem_of w m))) \<and> \<not> is_member))
             (ch_ops ch @ ch_noops ch)))"

definition names_prefix :: "world \<Rightarrow> chid \<Rightarrow> cid \<Rightarrow> cstring" where
  "names_prefix w chptr client_p =
     '':'' @ cl_name (client_of w me) @ '' 353 '' @ cl_name (client_of w client_p) @ '' '' @
     channel_pub_or_secret (chan_of w chptr) @ '' '' @ ch_chname (chan_of w chptr) @ '' :''"

definition channel_member_names :: "world \<Rightarrow> chid \<Rightarrow> cid \<Rightarrow> bool \<Rightarrow> msg list" where
  "channel_member_names w chptr client_p show_eon =
     (if ShowChannel w client_p chptr then
        map (ToOne client_p)
          (names_loop (names_prefix w chptr client_p) (names_items w chptr client_p)
            (names_prefix w chptr client_p))
      else []) @
     (if show_eon then [Numeric client_p ''RPL_ENDOFNAMES'' [ch_chname (chan_of w chptr)]] else [])"

section \<open>The string of simple modes\<close>

definition mode_letters :: "32 word \<Rightarrow> cstring" where
  "mode_letters m =
     (if has_flag m MODE_SECRET then ''s'' else []) @ (if has_flag m MODE_PRIVATE then ''p'' else []) @
     (if has_flag m MODE_MODERATED then ''m'' else []) @ (if has_flag m MODE_TOPICLIMIT then ''t'' else []) @
     (if has_flag m MODE_INVITEONLY then ''i'' else []) @ (if has_flag m MODE_NOPRIVMSGS then ''n'' else []) @
     (if has_flag m MODE_SSLONLY then ''S'' else [])"

definition channel_modes :: "world \<Rightarrow> chid \<Rightarrow> cid \<Rightarrow> cstring" where
  "channel_modes w chptr client_p =
     (let ch = chan_of w chptr; c = client_of w client_p;
          show = (IsMe c \<or> \<not> MyClient c \<or> IsMember w client_p chptr)
      in ''+'' @ mode_letters (ch_mode ch) @
         (if ch_limit ch \<noteq> 0 \<and> ch_key ch \<noteq> [] then
            (if show then ''lk '' @ string_of_int (ch_limit ch) @ '' '' @ ch_key ch else ''lk'')
          else if ch_limit ch \<noteq> 0 then
            (if show then ''l '' @ string_of_int (ch_limit ch) else ''l'')
          else if ch_key ch \<noteq> [] then
            (if show then ''k '' @ ch_key ch else ''k'')
          else []))"

section \<open>Capability combinations\<close>

record ChCapCombo =
  cc_count :: int
  cc_yes :: "32 word"
  cc_no :: "32 word"

definition CAP_EX :: "32 word" where "CAP_EX = 0x00004"
definition CAP_IE :: "32 word" where "CAP_IE = 0x00010"
definition CAP_TS6 :: "32 word" where "CAP_TS6 = 0x08000"

definition channel_capabs :: "32 word list" where
  "channel_capabs = [CAP_EX, CAP_IE, CAP_TS6]"

definition combo_caps :: "bool \<Rightarrow> nat \<Rightarrow> 32 word" where
  "combo_caps present m =
     fold (\<lambda>c acc. if bit m c = present then acc OR channel_capabs ! c else acc)
       [0..<length channel_capabs] 0"

definition init_chcap_usage_counts :: "ChCapCombo list" where
  "init_chcap_usage_counts =
     map (\<lambda>m. \<lparr>cc_count = 0, cc_yes = combo_caps True m, cc_no = combo_caps False m\<rparr>)
       [0..<2 ^ length channel_capabs]"

definition combo_matches :: "client \<Rightarrow> ChCapCombo \<Rightarrow> bool" where
  "combo_matches serv_p cc = (IsCapable serv_p (cc_yes cc) \<and> NotCapable serv_p (cc_no cc))"

fun set_chcap_usage_counts :: "client \<Rightarrow> ChCapCombo list \<Rightarrow> ChCapCombo list" where
  "set_chcap_usage_counts serv_p [] = []"
| "set_chcap_usage_counts serv_p (cc # ccs) =
     (if combo_matches serv_p cc then cc\<lparr>cc_count := cc_count cc + 1\<rparr> # ccs
      else cc # set_chcap_usage_counts serv_p ccs)"

fun unset_chcap_usage_counts :: "client \<Rightarrow> ChCapCombo list \<Rightarrow> ChCapCombo list" where
  "unset_chcap_usage_counts serv_p [] = []"
| "unset_chcap_usage_counts serv_p (cc # ccs) =
     (if combo_matches serv_p cc then
        (if cc_count cc > 0 then cc\<lparr>cc_count := cc_count cc - 1\<rparr> else cc) # ccs
      else cc # unset_chcap_usage_counts serv_p ccs)"

section \<open>Spambots and splits\<close>

definition OPER_SPAM_COUNTDOWN :: nat where "OPER_SPAM_COUNTDOWN = 5"
definition JOIN_LEAVE_COUNT_EXPIRE_TIME :: int where "JOIN_LEAVE_COUNT_EXPIRE_TIME = 120"

definition spambot_text :: "client \<Rightarrow> cstring option \<Rightarrow> cstring" where
  "spambot_text c name =
     ''User '' @ cl_name c @ '' ('' @ cl_username c @ ''@'' @ cl_host c @ '') '' @
     (case name of
        Some n \<Rightarrow> ''trying to join '' @ n @ '' is a possible spambot''
      | None \<Rightarrow> ''is a possible spambot'')"

definition check_spambot_warning ::
  "config \<Rightarrow> int \<Rightarrow> cstring option \<Rightarrow> client \<Rightarrow> msg list \<times> client" where
  "check_spambot_warning cfg now name c =
     (if spam_num cfg \<noteq> 0 \<and> cl_join_leave_count c \<ge> spam_num cfg then
        (let down = (if cl_oper_warn_count_down c > 0 then cl_oper_warn_count_down c - 1 else 0)
         in if down = 0
            then ([ToOpers (spambot_text c name)], c\<lparr>cl_oper_warn_count_down := OPER_SPAM_COUNTDOWN\<rparr>)
            else ([], c\<lparr>cl_oper_warn_count_down := down\<rparr>))
      else
        (let t_delta = now - cl_last_leave_time c;
             count =
               (if t_delta > JOIN_LEAVE_COUNT_EXPIRE_TIME then
                  (let decrement_count = t_delta div JOIN_LEAVE_COUNT_EXPIRE_TIME
                   in if decrement_count > cl_join_leave_count c then 0
                      else cl_join_leave_count c - decrement_count)
                else if now - cl_last_join_time c < spam_time cfg then cl_join_leave_count c + 1
                else cl_join_leave_count c);
             c1 = c\<lparr>cl_join_leave_count := count\<rparr>
         in ([], case name of
                   Some _ \<Rightarrow> c1\<lparr>cl_last_join_time := now\<rparr>
                 | None \<Rightarrow> c1\<lparr>cl_last_leave_time := now\<rparr>)))"

record split_state =
  sp_splitchecking :: bool
  sp_no_join :: bool
  sp_no_create :: bool
  sp_splitmode :: bool
  sp_eob_count :: int
  sp_total :: int
  sp_servers :: int
  sp_users :: int
  sp_event :: bool

definition check_splitmode :: "split_state \<Rightarrow> msg list \<times> split_state" where
  "check_splitmode s =
     (if sp_splitchecking s \<and> (sp_no_join s \<or> sp_no_create s) then
        (if \<not> sp_splitmode s then
           (if sp_eob_count s < sp_servers s \<or> sp_total s < sp_users s then
              ([ToOpers ''Network split, activating splitmode''], s\<lparr>sp_splitmode := True, sp_event := True\<rparr>)
            else ([], s))
         else if sp_eob_count s \<ge> sp_servers s \<and> sp_total s \<ge> sp_users s then
           ([ToOpers ''Network rejoined, deactivating splitmode''], s\<lparr>sp_splitmode := False, sp_event := False\<rparr>)
         else ([], s))
      else ([], s))"

section \<open>Properties\<close>

text \<open>The line that shows one group of members.\<close>

definition names_line :: "cstring \<Rightarrow> (cstring \<times> cstring) list \<Rightarrow> cstring" where
  "names_line pre g = butlast (pre @ concat (map (\<lambda>(st, nm). st @ nm @ '' '') g))"

lemma names_loop_groups:
  "\<forall>(st, nm) \<in> set (g @ xs). length st \<le> 2 \<and> length pre + length nm + 3 < IRCD_BUFSIZE - 3 \<Longrightarrow>
   length (pre @ concat (map (\<lambda>(st, nm). st @ nm @ '' '') g)) < IRCD_BUFSIZE - 3 \<Longrightarrow>
   \<exists>gs. concat gs = g @ xs \<and> names_loop pre xs (pre @ concat (map (\<lambda>(st, nm). st @ nm @ '' '') g)) = map (names_line pre) gs \<and>
     (\<forall>h \<in> set gs. h \<noteq> [] \<and> length (names_line pre h) < IRCD_BUFSIZE - 3)"
proof (induction xs arbitrary: g)
  case Nil
  show ?case
  proof (cases "g = []")
    case True
    then show ?thesis by (intro exI [of _ "[]"]) simp
  next
    case False
    then have "concat (map (\<lambda>(st, nm). st @ nm @ '' '') g) \<noteq> []" by (cases g) auto
    then show ?thesis
      using False Nil.prems(2) by (intro exI [of _ "[g]"]) (auto simp: names_line_def)
  qed
next
  case (Cons x xs)
  obtain st nm where x: "x = (st, nm)" by (cases x)
  let ?buf = "pre @ concat (map (\<lambda>(st, nm). st @ nm @ '' '') g)"
  have b: "length st \<le> 2" "length pre + length nm + 3 < IRCD_BUFSIZE - 3" using Cons.prems(1) x by auto
  show ?case
  proof (cases "length ?buf + length nm + 3 \<ge> IRCD_BUFSIZE - 3")
    case True
    then have "g \<noteq> []" using b(2) by auto
    obtain gs where gs: "concat gs = [x] @ xs"
        "names_loop pre xs (pre @ st @ nm @ '' '') = map (names_line pre) gs"
        "\<forall>h \<in> set gs. h \<noteq> [] \<and> length (names_line pre h) < IRCD_BUFSIZE - 3"
      using Cons.IH [of "[x]"] Cons.prems(1) b x by auto
    then show ?thesis
      using True \<open>g \<noteq> []\<close> Cons.prems(2) x by (intro exI [of _ "g # gs"]) (auto simp: names_line_def)
  next
    case False
    then show ?thesis using Cons.IH [of "g @ [x]"] Cons.prems(1) b x by auto
  qed
qed

text \<open>
  The NAMES reply is complete and fits: the members to show, operators first, are cut
  into consecutive groups, each sent on a line of its own with the reply's prefix, no line
  is empty, and none is longer than the buffer allows.
\<close>

theorem channel_member_names_complete:
  assumes "ShowChannel w cl ch"
    and "\<forall>(st, nm) \<in> set (names_items w ch cl). length (names_prefix w ch cl) + length nm + 3 < IRCD_BUFSIZE - 3"
  shows "\<exists>gs. concat gs = names_items w ch cl \<and>
    channel_member_names w ch cl False = map (\<lambda>g. ToOne cl (names_line (names_prefix w ch cl) g)) gs \<and>
    (\<forall>g \<in> set gs. g \<noteq> [] \<and> length (names_line (names_prefix w ch cl) g) < IRCD_BUFSIZE - 3)"
proof -
  let ?pre = "names_prefix w ch cl" and ?xs = "names_items w ch cl"
  show ?thesis
  proof (cases "?xs = []")
    case True
    then show ?thesis by (intro exI [of _ "[]"]) (simp add: channel_member_names_def)
  next
    case False
    then have "length ?pre < IRCD_BUFSIZE - 3" using assms(2) by (cases ?xs) auto
    moreover have "\<forall>(st, nm) \<in> set ?xs. length st \<le> 2"
      by (auto simp: names_items_def find_channel_status_def Let_def)
    ultimately have "\<exists>gs. concat gs = [] @ ?xs \<and> names_loop ?pre ?xs (?pre @ concat (map (\<lambda>(st, nm). st @ nm @ '' '') [])) =
        map (names_line ?pre) gs \<and> (\<forall>h \<in> set gs. h \<noteq> [] \<and> length (names_line ?pre h) < IRCD_BUFSIZE - 3)"
      using assms(2) by (intro names_loop_groups) auto
    then obtain gs where "concat gs = ?xs" "names_loop ?pre ?xs ?pre = map (names_line ?pre) gs"
        "\<forall>h \<in> set gs. h \<noteq> [] \<and> length (names_line ?pre h) < IRCD_BUFSIZE - 3"
      by auto
    then show ?thesis
      using assms(1) by (intro exI [of _ gs]) (simp add: channel_member_names_def)
  qed
qed

theorem channel_member_names_complete_witness:
  "\<exists>gs. concat gs = names_items small_channel 10 1 \<and>
     channel_member_names small_channel 10 1 False =
       map (\<lambda>g. ToOne 1 (names_line (names_prefix small_channel 10 1) g)) gs"
proof -
  have sel: "ch_ops (chan_of small_channel 10) = [11]" "ch_noops (chan_of small_channel 10) = []"
    "ch_mode (chan_of small_channel 10) = 0" "ch_chname (chan_of small_channel 10) = ''#ircd''"
    "cl_name (client_of small_channel x) = ''nick''" for x
    by (simp_all add: small_channel_def small_world_create add_user_to_channel_def Let_def chan_of_def
        new_channel_def memlist_update_def is_chanop_def chfl_disjoint)
       (simp_all add: small_world_def user_named_def)
  have pub: "PubChannel (chan_of small_channel 10)" by (simp add: PubChannel_def sel has_flag_def)
  have items: "snd ` set (names_items small_channel 10 1) \<subseteq> {''nick''}"
    by (auto simp: names_items_def Let_def sel)
  have pre: "length (names_prefix small_channel 10 1) = 24"
    by (simp add: names_prefix_def sel channel_pub_or_secret_def pub)
  have "\<forall>(st, nm) \<in> set (names_items small_channel 10 1).
      length (names_prefix small_channel 10 1) + length nm + 3 < IRCD_BUFSIZE - 3"
  proof (clarify)
    fix st nm assume "(st, nm) \<in> set (names_items small_channel 10 1)"
    then have "nm = ''nick''" using items by force
    then show "length (names_prefix small_channel 10 1) + length nm + 3 < IRCD_BUFSIZE - 3"
      unfolding pre by (simp add: IRCD_BUFSIZE_def)
  qed
  then show ?thesis
    using channel_member_names_complete [of small_channel 1 10] pub by (auto simp: ShowChannel_def)
qed

lemma IsCapable_or: "IsCapable c (a OR b) \<longleftrightarrow> IsCapable c a \<and> IsCapable c b"
  by (auto simp: IsCapable_def bit_eq_iff bit_simps)

lemma NotCapable_or: "NotCapable c (a OR b) \<longleftrightarrow> NotCapable c a \<and> NotCapable c b"
  by (auto simp: NotCapable_def bit_eq_iff bit_simps)

lemma capable_bit:
  assumes "n < 32"
  shows "IsCapable c (2 ^ n) \<longleftrightarrow> bit (cl_caps c) n" "NotCapable c (2 ^ n) \<longleftrightarrow> \<not> bit (cl_caps c) n"
proof -
  have "cl_caps c AND 2 ^ n = 2 ^ n" if "bit (cl_caps c) n"
    by (rule bit_word_eqI) (use that in \<open>auto simp: bit_and_iff bit_exp_iff\<close>)
  moreover have "bit (cl_caps c) n" if "cl_caps c AND 2 ^ n = 2 ^ n"
    using arg_cong [OF that, of "\<lambda>w. bit w n"] assms by (simp add: bit_and_iff bit_exp_iff)
  ultimately show "IsCapable c (2 ^ n) \<longleftrightarrow> bit (cl_caps c) n" by (auto simp: IsCapable_def)
  show "NotCapable c (2 ^ n) \<longleftrightarrow> \<not> bit (cl_caps c) n"
    by (simp add: NotCapable_def and_exp_eq_0_iff_not_bit)
qed

lemma NotCapable_caps:
  "NotCapable c CAP_EX \<longleftrightarrow> \<not> IsCapable c CAP_EX" "NotCapable c CAP_IE \<longleftrightarrow> \<not> IsCapable c CAP_IE"
  "NotCapable c CAP_TS6 \<longleftrightarrow> \<not> IsCapable c CAP_TS6"
  using capable_bit [of 2 c] capable_bit [of 4 c] capable_bit [of 15 c]
  by (simp_all add: CAP_EX_def CAP_IE_def CAP_TS6_def)

lemma IsCapable_0: "IsCapable c 0" "NotCapable c 0"
  by (simp_all add: IsCapable_def NotCapable_def)

lemma init_combos:
  "init_chcap_usage_counts = map (\<lambda>(y, n). \<lparr>cc_count = 0, cc_yes = y, cc_no = n\<rparr>)
     [(0, CAP_EX OR CAP_IE OR CAP_TS6), (CAP_EX, CAP_IE OR CAP_TS6), (CAP_IE, CAP_EX OR CAP_TS6),
      (CAP_EX OR CAP_IE, CAP_TS6), (CAP_TS6, CAP_EX OR CAP_IE), (CAP_EX OR CAP_TS6, CAP_IE),
      (CAP_IE OR CAP_TS6, CAP_EX), (CAP_EX OR CAP_IE OR CAP_TS6, 0)]"
  by code_simp

lemma combo_unique:
  "length (filter (combo_matches c) init_chcap_usage_counts) = 1"
  by (cases "IsCapable c CAP_EX"; cases "IsCapable c CAP_IE"; cases "IsCapable c CAP_TS6")
     (simp_all add: init_combos combo_matches_def IsCapable_or NotCapable_or NotCapable_caps IsCapable_0)

definition combo_key :: "ChCapCombo \<Rightarrow> 32 word \<times> 32 word" where
  "combo_key cc = (cc_yes cc, cc_no cc)"

lemma combo_matches_key: "combo_key a = combo_key b \<Longrightarrow> combo_matches c a = combo_matches c b"
  by (simp add: combo_key_def combo_matches_def)

lemma filter_matches_key:
  "map combo_key as = map combo_key bs \<Longrightarrow>
   length (filter (combo_matches c) as) = length (filter (combo_matches c) bs)"
proof (induction as arbitrary: bs)
  case (Cons a as)
  then obtain b bs' where "bs = b # bs'" "combo_key a = combo_key b" "map combo_key as = map combo_key bs'"
    by (cases bs) auto
  then show ?case using Cons.IH combo_matches_key [of a b c] by auto
qed simp

lemma set_combo_nth:
  "length (filter (combo_matches c) ccs) \<le> 1 \<Longrightarrow> n < length ccs \<Longrightarrow>
   set_chcap_usage_counts c ccs ! n =
     (if combo_matches c (ccs ! n) then (ccs ! n)\<lparr>cc_count := cc_count (ccs ! n) + 1\<rparr> else ccs ! n)"
proof (induction ccs arbitrary: n)
  case (Cons cc ccs)
  show ?case
  proof (cases "combo_matches c cc")
    case True
    then have "filter (combo_matches c) ccs = []" using Cons.prems(1) by simp
    then show ?thesis
      using True Cons.prems(2) by (cases n) (auto simp: filter_empty_conv)
  next
    case False
    then show ?thesis using Cons by (cases n) auto
  qed
qed simp

lemma set_combo_keys: "map combo_key (set_chcap_usage_counts c ccs) = map combo_key ccs"
  by (induction ccs) (auto simp: combo_key_def)

lemma unset_set_combo:
  "\<forall>cc \<in> set ccs. cc_count cc \<ge> 0 \<Longrightarrow> unset_chcap_usage_counts c (set_chcap_usage_counts c ccs) = ccs"
proof (induction ccs)
  case (Cons cc ccs)
  have "cc\<lparr>cc_count := cc_count cc\<rparr> = cc" by (cases cc) simp
  then show ?case using Cons by (simp add: combo_matches_def)
qed simp

lemma fold_set_combo:
  "map combo_key ccs = map combo_key init_chcap_usage_counts \<Longrightarrow> n < length ccs \<Longrightarrow>
   cc_count (fold set_chcap_usage_counts servers ccs ! n) =
     cc_count (ccs ! n) + int (length (filter (\<lambda>c. combo_matches c (ccs ! n)) servers))"
proof (induction servers arbitrary: ccs)
  case (Cons c servers)
  let ?ccs = "set_chcap_usage_counts c ccs"
  have one: "length (filter (combo_matches c) ccs) = 1"
    using filter_matches_key [OF Cons.prems(1)] combo_unique by metis
  have len: "length ?ccs = length ccs" using set_combo_keys by (metis length_map)
  have key: "combo_key (?ccs ! n) = combo_key (ccs ! n)"
    using set_combo_keys [of c ccs] Cons.prems(2) len by (metis nth_map)
  have "cc_count (fold set_chcap_usage_counts servers ?ccs ! n) =
      cc_count (?ccs ! n) + int (length (filter (\<lambda>c. combo_matches c (?ccs ! n)) servers))"
    using Cons.prems len by (intro Cons.IH) (simp_all add: set_combo_keys)
  then show ?case
    using set_combo_nth [of c ccs n] one Cons.prems(2) combo_matches_key [OF key] by simp
qed simp

text \<open>
  Every server has exactly one of the capability combinations (the failing assertions in
  \<open>set_chcap_usage_counts\<close> and \<open>unset_chcap_usage_counts\<close> are unreachable); after any number
  of servers were registered, the count of a combination is the number of those servers that
  have it, and unregistering a server just registered restores the counts.
\<close>

theorem chcap_usage_counts_correct:
  assumes "n < length init_chcap_usage_counts"
  shows "(\<forall>serv. length (filter (combo_matches serv) init_chcap_usage_counts) = 1) \<and>
    cc_count (fold set_chcap_usage_counts servers init_chcap_usage_counts ! n) =
      int (length (filter (\<lambda>serv. combo_matches serv (init_chcap_usage_counts ! n)) servers)) \<and>
    unset_chcap_usage_counts serv (set_chcap_usage_counts serv init_chcap_usage_counts) =
      init_chcap_usage_counts"
proof -
  have "cc_count cc = 0" if "cc \<in> set init_chcap_usage_counts" for cc
    using that by (auto simp: init_chcap_usage_counts_def)
  then show ?thesis
    using combo_unique fold_set_combo [OF refl assms] unset_set_combo [of init_chcap_usage_counts] assms
    by simp
qed

theorem chcap_usage_counts_correct_witness:
  "cc_count (fold set_chcap_usage_counts [(user_named ''a'')\<lparr>cl_caps := CAP_TS6\<rparr>, user_named ''b'']
     init_chcap_usage_counts ! 4) = 1"
proof -
  have "length init_chcap_usage_counts = 8" by (simp add: init_combos)
  moreover have "init_chcap_usage_counts ! 4 = \<lparr>cc_count = 0, cc_yes = CAP_TS6, cc_no = CAP_EX OR CAP_IE\<rparr>"
    by (simp add: init_combos)
  ultimately show ?thesis
    using chcap_usage_counts_correct [of 4 "[(user_named ''a'')\<lparr>cl_caps := CAP_TS6\<rparr>, user_named ''b'']"]
    by (simp add: combo_matches_def IsCapable_def NotCapable_def user_named_def CAP_TS6_def CAP_EX_def CAP_IE_def)
qed

end
