(* ===== verification/Whowas.thy ===== *)
theory Whowas
  imports World
begin

text \<open>
  The nickname history of \<open>src/whowas.c\<close>. An entry \<open>whowas_t\<close> is on three lists: the one of
  its name (\<open>struct whowas_top\<close>, found through the hash table), the list of all entries, and,
  while its client is online, the client's own list. \<open>WhowasProps\<close> has the invariant that
  ties the lists and pointers together and what the operations do to the history.
\<close>

type_synonym wid = nat
type_synonym tid = nat

record whowas =
  ww_wtop :: tid
  ww_name :: cstring
  ww_username :: cstring
  ww_hostname :: cstring
  ww_sockhost :: cstring
  ww_realname :: cstring
  ww_spoof :: bool
  ww_servername :: cstring
  ww_logoff :: int
  ww_online :: "cid option"

record whowas_top =
  wt_name :: cstring
  wt_wwlist :: "wid list"
  wt_hnode :: "tid hash_node"

record wstate =
  ws_hash :: "tid hash_f"
  ws_tops :: "tid \<Rightarrow> whowas_top option"
  ws_who :: "wid \<Rightarrow> whowas option"
  ws_list :: "wid list"
  ws_length :: nat
  ws_clist :: "cid \<Rightarrow> wid list"
  ws_next :: nat

definition HOSTIPLEN :: nat where "HOSTIPLEN = 53"
definition REALLEN :: nat where "REALLEN = 50"
definition NICKNAMEHISTORYLENGTH :: nat where "NICKNAMEHISTORYLENGTH = 30000"

definition who_of :: "wstate \<Rightarrow> wid \<Rightarrow> whowas" where
  "who_of s i = the (ws_who s i)"

definition top_of :: "wstate \<Rightarrow> tid \<Rightarrow> whowas_top" where
  "top_of s t = the (ws_tops s t)"

definition whowas_init :: "wstate" where
  "whowas_init =
     \<lparr>ws_hash = the (hash_create ''WHOWAS'' CMP_IRCCMP 17 0), ws_tops = Map.empty, ws_who = Map.empty,
      ws_list = [], ws_length = NICKNAMEHISTORYLENGTH, ws_clist = (\<lambda>_. []), ws_next = 0\<rparr>"

definition whowas_free_wtop :: "tid \<Rightarrow> wstate \<Rightarrow> wstate" where
  "whowas_free_wtop wtop s =
     (if wt_wwlist (top_of s wtop) = [] then
        s\<lparr>ws_hash := hash_del_hnode (wt_hnode (top_of s wtop)) (ws_hash s),
          ws_tops := (ws_tops s)(wtop := None)\<rparr>
      else s)"

text \<open>
  The node that \<open>hash_add\<close> returns is the one it put at the front of its bucket.
\<close>

definition hash_add_node :: "cstring \<Rightarrow> 'a \<Rightarrow> 'a hash_f \<Rightarrow> 'a hash_node" where
  "hash_add_node name p hf =
     \<lparr>hn_key = name, hn_keylen = length name + 1, hn_data = p,
      hn_hashv = do_hfunc hf name (min (length name + 1) (hf_hashlen hf))\<rparr>"

definition whowas_get_top :: "cstring \<Rightarrow> wstate \<Rightarrow> tid \<times> wstate" where
  "whowas_get_top name s =
     (case hash_find (ws_hash s) name of
        Some hnode \<Rightarrow> (hn_data hnode, s)
      | None \<Rightarrow>
          (let wtop = ws_next s
           in (wtop, s\<lparr>ws_tops := (ws_tops s)(wtop \<mapsto>
                   \<lparr>wt_name = name, wt_wwlist = [], wt_hnode = hash_add_node name wtop (ws_hash s)\<rparr>),
                 ws_hash := hash_add name wtop (ws_hash s), ws_next := Suc wtop\<rparr>)))"

definition whowas_get_list :: "wstate \<Rightarrow> cstring \<Rightarrow> wid list option" where
  "whowas_get_list s name =
     (case hash_find_data (ws_hash s) name of
        None \<Rightarrow> None
      | Some wtop \<Rightarrow> Some (wt_wwlist (top_of s wtop)))"

text \<open>One pass of the loop of \<open>whowas_trim\<close>.\<close>

definition trim_one :: "wstate \<Rightarrow> wstate" where
  "trim_one s =
     (if ws_list s = [] then s
      else
        (let twho = last (ws_list s); who = who_of s twho; wtop = ww_wtop who;
             s1 = (case ww_online who of
                     Some c \<Rightarrow> s\<lparr>ws_clist := (ws_clist s)(c := remove1 twho (ws_clist s c))\<rparr>
                   | None \<Rightarrow> s);
             s2 = s1\<lparr>ws_tops := (ws_tops s1)(wtop \<mapsto>
                       (top_of s1 wtop)\<lparr>wt_wwlist := remove1 twho (wt_wwlist (top_of s1 wtop))\<rparr>),
                     ws_list := remove1 twho (ws_list s1)\<rparr>;
             s3 = whowas_free_wtop wtop s2
         in s3\<lparr>ws_who := (ws_who s3)(twho := None)\<rparr>))"

definition whowas_trim :: "wstate \<Rightarrow> wstate" where
  "whowas_trim s =
     (if length (ws_list s) < ws_length s then s
      else (trim_one ^^ (length (ws_list s) - ws_length s)) s)"

definition whowas_set_size :: "nat \<Rightarrow> wstate \<Rightarrow> wstate" where
  "whowas_set_size len s = whowas_trim (s\<lparr>ws_length := len\<rparr>)"

definition whowas_sockhost :: "client \<Rightarrow> cstring" where
  "whowas_sockhost c =
     (if MyClient c then strlcpy (cl_sockhost c) (HOSTIPLEN + 1)
      else if cl_sockhost c = [] \<or> cl_sockhost c = ''0'' then []
      else strlcpy (cl_sockhost c) (HOSTIPLEN + 1))"

definition whowas_add_history :: "(cid \<Rightarrow> client) \<Rightarrow> int \<Rightarrow> cid \<Rightarrow> bool \<Rightarrow> wstate \<Rightarrow> wstate" where
  "whowas_add_history clients now client_p online s0 =
     (let c = clients client_p;
          s1 = (if length (ws_list s0) > ws_length s0 + 100 then whowas_trim s0 else s0);
          (wtop, s2) = whowas_get_top (cl_name c) s1;
          i = ws_next s2;
          who = \<lparr>ww_wtop = wtop, ww_name = strlcpy (cl_name c) (NICKLEN + 1),
                 ww_username = strlcpy (cl_username c) (USERLEN + 1),
                 ww_hostname = strlcpy (cl_host c) (HOSTLEN + 1), ww_sockhost = whowas_sockhost c,
                 ww_realname = strlcpy (cl_info c) (REALLEN + 1),
                 ww_spoof = (if MyClient c then cl_ipspoof c else False),
                 ww_servername = cl_name (clients (cl_servptr c)), ww_logoff = now,
                 ww_online = (if online then Some client_p else None)\<rparr>;
          s3 = s2\<lparr>ws_who := (ws_who s2)(i \<mapsto> who), ws_next := Suc i\<rparr>;
          s4 = (if online then s3\<lparr>ws_clist := (ws_clist s3)(client_p := i # ws_clist s3 client_p)\<rparr> else s3)
      in s4\<lparr>ws_tops := (ws_tops s4)(wtop \<mapsto>
               (top_of s4 wtop)\<lparr>wt_wwlist := i # wt_wwlist (top_of s4 wtop)\<rparr>),
            ws_list := i # ws_list s4\<rparr>)"

definition whowas_off_history :: "cid \<Rightarrow> wstate \<Rightarrow> wstate" where
  "whowas_off_history client_p s =
     fold (\<lambda>i s. s\<lparr>ws_who := (ws_who s)(i \<mapsto> (who_of s i)\<lparr>ww_online := None\<rparr>),
                   ws_clist := (ws_clist s)(client_p := remove1 i (ws_clist s client_p))\<rparr>)
       (ws_clist s client_p) s"

text \<open>The scan goes from the tail, that is from the oldest entry.\<close>

definition whowas_get_history :: "wstate \<Rightarrow> int \<Rightarrow> cstring \<Rightarrow> int \<Rightarrow> cid option" where
  "whowas_get_history s now nick timelimit =
     (case hash_find_data (ws_hash s) nick of
        None \<Rightarrow> None
      | Some wtop \<Rightarrow>
          (case find (\<lambda>i. ww_logoff (who_of s i) \<ge> now - timelimit) (rev (wt_wwlist (top_of s wtop))) of
             Some i \<Rightarrow> ww_online (who_of s i)
           | None \<Rightarrow> None))"

end
