(* ===== verification/WhowasProps.thy ===== *)
theory WhowasProps
  imports Whowas Channel
begin

text \<open>
  The nickname history implements a list of entries, the newest first. The invariant says
  that the list of a name and the list of a client are the sublists of the whole list that
  belong to them, and that the hash table holds one node per name in use. The operations
  are then operations on that one list: adding is consing, trimming is \<open>take\<close>, and
  \<open>whowas_off_history\<close> clears the pointers to a client.
\<close>

section \<open>Deleting a node by its address\<close>

lemma remove1_filter_snd:
  "distinct (map snd xs) \<Longrightarrow> e \<in> set xs \<Longrightarrow> remove1 e xs = filter (\<lambda>x. snd x \<noteq> snd e) xs"
proof (induction xs)
  case (Cons x xs)
  have "\<forall>y \<in> set xs. snd y \<noteq> snd x" using Cons.prems(1) by simp (metis image_eqI)
  then have ne: "filter (\<lambda>y. snd y \<noteq> snd x) xs = xs" by (rule filter_True)
  show ?case
  proof (cases "x = e")
    case False
    then have "e \<in> set xs" "snd x \<noteq> snd e" using Cons.prems by force+
    then show ?thesis using Cons False by auto
  qed (use ne in simp)
qed simp

lemma node_of_del_hnode [simp]: "node_of (hash_del_hnode n hf) = node_of hf"
  by (auto simp: hash_del_hnode_def hash_free_bucket_def Let_def split: option.split list.split)

lemma node_of_add [simp]: "node_of (hash_add k p hf) = node_of hf"
  by (simp add: hash_add_def hash_add_len_def Let_def)

lemma irc_rep_del_hnode:
  "irc_rep hf xs \<Longrightarrow> distinct (map snd xs) \<Longrightarrow> e \<in> set xs \<Longrightarrow>
   irc_rep (hash_del_hnode (node_of hf e) hf) (filter (\<lambda>x. snd x \<noteq> snd e) xs)"
  using hash_rep_del_hnode [of hf xs e] remove1_filter_snd [of xs e] by (simp add: irc_rep_def)

section \<open>The invariant\<close>

definition top_entry :: "wstate \<Rightarrow> tid \<Rightarrow> cstring \<times> tid" where
  "top_entry s t = (wt_name (top_of s t), t)"

definition names_ok :: "wstate \<Rightarrow> bool" where
  "names_ok s =
     ((\<exists>ts. distinct ts \<and> set ts = dom (ws_tops s) \<and> irc_rep (ws_hash s) (map (top_entry s) ts)) \<and>
      (\<forall>t t'. t \<in> dom (ws_tops s) \<longrightarrow> t' \<in> dom (ws_tops s) \<longrightarrow>
         irc_eq (wt_name (top_of s t)) (wt_name (top_of s t')) \<longrightarrow> t = t') \<and>
      (\<forall>t \<in> dom (ws_tops s). wt_hnode (top_of s t) = node_of (ws_hash s) (top_entry s t)))"

definition of_top :: "wstate \<Rightarrow> tid \<Rightarrow> wid list" where
  "of_top s t = filter (\<lambda>i. ww_wtop (who_of s i) = t) (ws_list s)"

definition of_client :: "wstate \<Rightarrow> cid \<Rightarrow> wid list" where
  "of_client s c = filter (\<lambda>i. ww_online (who_of s i) = Some c) (ws_list s)"

definition lists_ok :: "wstate \<Rightarrow> bool" where
  "lists_ok s =
     (distinct (ws_list s) \<and> set (ws_list s) = dom (ws_who s) \<and>
      (\<forall>t \<in> dom (ws_tops s). wt_wwlist (top_of s t) = of_top s t) \<and>
      (\<forall>i \<in> dom (ws_who s). ww_wtop (who_of s i) \<in> dom (ws_tops s) \<and>
         irc_eq (ww_name (who_of s i)) (wt_name (top_of s (ww_wtop (who_of s i))))) \<and>
      (\<forall>c. ws_clist s c = of_client s c))"

definition who_inv :: "wstate \<Rightarrow> bool" where
  "who_inv s =
     (names_ok s \<and> lists_ok s \<and> (\<forall>t \<in> dom (ws_tops s). of_top s t \<noteq> []) \<and>
      (\<forall>n \<ge> ws_next s. n \<notin> dom (ws_tops s) \<and> n \<notin> dom (ws_who s)))"

section \<open>Trimming\<close>

lemma trim_one_sel:
  assumes "lists_ok s" "ws_list s \<noteq> []"
  defines "x \<equiv> last (ws_list s)"
  defines "t \<equiv> ww_wtop (who_of s x)"
  defines "l \<equiv> filter (\<lambda>i. i \<noteq> x) (of_top s t)"
  shows "ws_list (trim_one s) = filter (\<lambda>i. i \<noteq> x) (ws_list s)" "ws_who (trim_one s) = (ws_who s)(x := None)"
    "ws_length (trim_one s) = ws_length s" "ws_next (trim_one s) = ws_next s"
    "ws_clist (trim_one s) c = filter (\<lambda>i. i \<noteq> x) (of_client s c)"
    "ws_tops (trim_one s) = (ws_tops s)(t := if l = [] then None else Some ((top_of s t)\<lparr>wt_wwlist := l\<rparr>))"
    "ws_hash (trim_one s) = (if l = [] then hash_del_hnode (wt_hnode (top_of s t)) (ws_hash s) else ws_hash s)"
    "x \<in> dom (ws_who s)" "t \<in> dom (ws_tops s)"
proof -
  have d: "distinct (ws_list s)" "\<And>c. ws_clist s c = of_client s c" using assms(1) by (auto simp: lists_ok_def)
  show x: "x \<in> dom (ws_who s)" using assms(1,2) by (auto simp: lists_ok_def x_def)
  then show t: "t \<in> dom (ws_tops s)" using assms(1) by (auto simp: lists_ok_def t_def)
  have rw: "remove1 x (wt_wwlist (top_of s t)) = l"
    using assms(1) t d(1) by (simp add: lists_ok_def l_def of_top_def distinct_remove1_filter)
  have rc: "remove1 x (of_client s c) = filter (\<lambda>i. i \<noteq> x) (of_client s c)" for c
    using d(1) by (simp add: of_client_def distinct_remove1_filter)
  have no: "filter (\<lambda>i. i \<noteq> x) (of_client s c) = of_client s c" if "ww_online (who_of s x) \<noteq> Some c" for c
    using that by (auto simp: of_client_def intro!: filter_cong)
  note e = trim_one_def [of s, unfolded Let_def, folded x_def, folded t_def]
  show "ws_list (trim_one s) = filter (\<lambda>i. i \<noteq> x) (ws_list s)" "ws_who (trim_one s) = (ws_who s)(x := None)"
    "ws_length (trim_one s) = ws_length s" "ws_next (trim_one s) = ws_next s"
    using assms(2) d(1) by (simp_all add: e whowas_free_wtop_def distinct_remove1_filter split: option.split)
  show "ws_clist (trim_one s) c = filter (\<lambda>i. i \<noteq> x) (of_client s c)"
    using assms(2) d(2) rc no by (auto simp: e whowas_free_wtop_def split: option.split)
  show "ws_tops (trim_one s) = (ws_tops s)(t := if l = [] then None else Some ((top_of s t)\<lparr>wt_wwlist := l\<rparr>))"
    "ws_hash (trim_one s) = (if l = [] then hash_del_hnode (wt_hnode (top_of s t)) (ws_hash s) else ws_hash s)"
    using assms(2) rw by (auto simp: e whowas_free_wtop_def top_of_def split: option.split)
qed

lemma trim_one_names:
  assumes "names_ok s" "lists_ok s" "ws_list s \<noteq> []"
  shows "names_ok (trim_one s)"
proof -
  define x where "x = last (ws_list s)"
  define t where "t = ww_wtop (who_of s x)"
  define l where "l = filter (\<lambda>i. i \<noteq> x) (of_top s t)"
  note sel = trim_one_sel [OF assms(2,3), folded x_def, folded t_def, folded l_def]
  obtain ts where ts: "distinct ts" "set ts = dom (ws_tops s)" "irc_rep (ws_hash s) (map (top_entry s) ts)"
    using assms(1) by (auto simp: names_ok_def)
  have te: "top_entry (trim_one s) u = top_entry s u" if "u \<noteq> t \<or> l \<noteq> []" for u
    using that by (auto simp: top_entry_def top_of_def sel(6))
  have d: "dom (ws_tops (trim_one s)) = (if l = [] then dom (ws_tops s) - {t} else dom (ws_tops s))"
    using sel(6,9) by auto
  have sub: "wt_name (top_of (trim_one s) u) = wt_name (top_of s u)"
    "wt_hnode (top_of (trim_one s) u) = wt_hnode (top_of s u)" if "u \<in> dom (ws_tops (trim_one s))" for u
    using that by (auto simp: sel(6) top_of_def split: if_splits)
  have "\<exists>ts'. distinct ts' \<and> set ts' = dom (ws_tops (trim_one s)) \<and>
      irc_rep (ws_hash (trim_one s)) (map (top_entry (trim_one s)) ts')"
  proof (cases "l = []")
    case True
    let ?ts = "filter (\<lambda>u. u \<noteq> t) ts"
    have "map (top_entry (trim_one s)) ?ts = filter (\<lambda>e. snd e \<noteq> t) (map (top_entry s) ts)"
      using te by (auto simp: filter_map o_def top_entry_def intro!: map_cong)
    moreover have "wt_hnode (top_of s t) = node_of (ws_hash s) (top_entry s t)"
      using assms(1) sel(9) by (auto simp: names_ok_def)
    moreover have "top_entry s t \<in> set (map (top_entry s) ts)" "distinct (map snd (map (top_entry s) ts))" "snd (top_entry s t) = t"
      using ts(1,2) sel(9) by (auto simp: o_def top_entry_def)
    ultimately have "irc_rep (ws_hash (trim_one s)) (map (top_entry (trim_one s)) ?ts)"
      using irc_rep_del_hnode [OF ts(3)] True sel(7) by metis
    then show ?thesis using ts(1,2) True d by (intro exI [of _ ?ts]) auto
  next
    case False
    then have "map (top_entry (trim_one s)) ts = map (top_entry s) ts" using te by simp
    then show ?thesis using ts False sel(7) d by (intro exI [of _ ts]) (simp del: map_eq_conv)
  qed
  moreover have "dom (ws_tops (trim_one s)) \<subseteq> dom (ws_tops s)" using d by auto
  moreover have "node_of (ws_hash (trim_one s)) = node_of (ws_hash s)" by (simp add: sel(7))
  ultimately show ?thesis
    using assms(1) sub by (auto simp: names_ok_def top_entry_def subset_iff)
qed

lemma trim_one_inv:
  assumes "who_inv s" "ws_list s \<noteq> []"
  shows "who_inv (trim_one s)"
proof -
  define x where "x = last (ws_list s)"
  define t where "t = ww_wtop (who_of s x)"
  define l where "l = filter (\<lambda>i. i \<noteq> x) (of_top s t)"
  have ok: "names_ok s" "lists_ok s" using assms(1) by (simp_all add: who_inv_def)
  note sel = trim_one_sel [OF ok(2) assms(2), folded x_def, folded t_def, folded l_def]
  have who: "who_of (trim_one s) i = who_of s i" if "i \<noteq> x" for i using that by (simp add: who_of_def sel(2))
  have tops: "of_top (trim_one s) u = filter (\<lambda>i. i \<noteq> x) (of_top s u)"
    and cls: "of_client (trim_one s) c = filter (\<lambda>i. i \<noteq> x) (of_client s c)" for u c
    using who by (auto simp: of_top_def of_client_def sel(1) intro!: filter_cong)
  have other: "filter (\<lambda>i. i \<noteq> x) (of_top s u) = of_top s u" if "u \<noteq> t" for u
    using that by (auto simp: of_top_def t_def intro!: filter_cong)
  have "lists_ok (trim_one s)"
    unfolding lists_ok_def
  proof (intro conjI ballI allI)
    show "distinct (ws_list (trim_one s))" "set (ws_list (trim_one s)) = dom (ws_who (trim_one s))"
      using ok(2) by (auto simp: lists_ok_def sel(1,2))
    fix u assume u: "u \<in> dom (ws_tops (trim_one s))"
    show "wt_wwlist (top_of (trim_one s) u) = of_top (trim_one s) u"
      using u ok(2) other by (cases "u = t") (auto simp: tops sel(6) top_of_def lists_ok_def l_def split: if_splits)
  next
    fix i assume i: "i \<in> dom (ws_who (trim_one s))"
    then have i': "i \<noteq> x" "i \<in> dom (ws_who s)" by (auto simp: sel(2))
    have w: "ww_wtop (who_of s i) \<in> dom (ws_tops s)" "irc_eq (ww_name (who_of s i)) (wt_name (top_of s (ww_wtop (who_of s i))))"
      "i \<in> set (ws_list s)"
      using ok(2) i'(2) by (auto simp: lists_ok_def)
    have ne: "l \<noteq> []" if "ww_wtop (who_of s i) = t" using that i'(1) w(3) by (auto simp: l_def of_top_def filter_empty_conv)
    show "ww_wtop (who_of (trim_one s) i) \<in> dom (ws_tops (trim_one s))" using w ne by (auto simp: who [OF i'(1)] sel(6))
    show "irc_eq (ww_name (who_of (trim_one s) i)) (wt_name (top_of (trim_one s) (ww_wtop (who_of (trim_one s) i))))"
      using w ne by (auto simp: who [OF i'(1)] sel(6) top_of_def)
  next
    fix c show "ws_clist (trim_one s) c = of_client (trim_one s) c" by (simp add: sel(5) cls)
  qed
  moreover have "of_top (trim_one s) u \<noteq> []" if "u \<in> dom (ws_tops (trim_one s))" for u
    using that assms(1) other [of u]
    by (cases "u = t") (auto simp: tops sel(6) who_inv_def l_def [symmetric] split: if_splits)
  moreover have "\<forall>n \<ge> ws_next (trim_one s). n \<notin> dom (ws_tops (trim_one s)) \<and> n \<notin> dom (ws_who (trim_one s))"
    using assms(1) sel(9) by (auto simp: sel(2,4,6) who_inv_def)
  ultimately show ?thesis using trim_one_names [OF ok assms(2)] by (simp add: who_inv_def)
qed

text \<open>The history as a list, the newest entry first, without the pointers to the names.\<close>

definition entry :: "whowas \<Rightarrow> whowas" where
  "entry w = w\<lparr>ww_wtop := 0\<rparr>"

definition history :: "wstate \<Rightarrow> whowas list" where
  "history s = map (\<lambda>i. entry (who_of s i)) (ws_list s)"

lemma filter_last: "distinct xs \<Longrightarrow> xs \<noteq> [] \<Longrightarrow> filter (\<lambda>i. i \<noteq> last xs) xs = butlast xs"
  by (induction xs rule: rev_induct) (auto intro: filter_True)

lemma trim_one_history:
  assumes "who_inv s" "ws_list s \<noteq> []"
  shows "history (trim_one s) = butlast (history s)" "ws_length (trim_one s) = ws_length s"
proof -
  let ?x = "last (ws_list s)"
  have ok: "lists_ok s" "distinct (ws_list s)" using assms(1) by (auto simp: who_inv_def lists_ok_def)
  note sel = trim_one_sel [OF ok(1) assms(2)]
  have "who_of (trim_one s) i = who_of s i" if "i \<noteq> ?x" for i using that by (simp add: who_of_def sel(2))
  then have "history (trim_one s) = map (\<lambda>i. entry (who_of s i)) (filter (\<lambda>i. i \<noteq> ?x) (ws_list s))"
    by (auto simp: history_def sel(1))
  also have "\<dots> = butlast (history s)"
    by (simp add: filter_last [OF ok(2) assms(2)] history_def map_butlast)
  finally show "history (trim_one s) = butlast (history s)" .
  show "ws_length (trim_one s) = ws_length s" by (rule sel(3))
qed

lemma trims:
  "who_inv s \<Longrightarrow> n \<le> length (ws_list s) \<Longrightarrow>
   who_inv ((trim_one ^^ n) s) \<and> history ((trim_one ^^ n) s) = take (length (history s) - n) (history s) \<and>
   ws_length ((trim_one ^^ n) s) = ws_length s"
proof (induction n)
  case (Suc n)
  let ?s = "(trim_one ^^ n) s"
  have i: "who_inv ?s" "history ?s = take (length (history s) - n) (history s)" "ws_length ?s = ws_length s"
    using Suc by simp_all
  have "length (ws_list u) = length (history u)" for u by (simp add: history_def)
  then have "ws_list ?s \<noteq> []" using i(2) Suc.prems(2) by (metis Suc_diff_le Suc_le_lessD diff_diff_cancel diff_le_self
      length_0_conv length_take less_imp_le_nat min.absorb2 nat.simps(3))
  then show ?case
    using trim_one_inv [OF i(1)] trim_one_history [OF i(1)] i(2,3) by (simp add: butlast_take)
qed simp

lemma whowas_trim_history:
  assumes "who_inv s"
  shows "who_inv (whowas_trim s)" "history (whowas_trim s) = take (ws_length s) (history s)"
    "ws_length (whowas_trim s) = ws_length s"
proof -
  have len: "length (ws_list s) = length (history s)" by (simp add: history_def)
  show "who_inv (whowas_trim s)" "history (whowas_trim s) = take (ws_length s) (history s)"
    "ws_length (whowas_trim s) = ws_length s"
    using trims [OF assms, of "length (ws_list s) - ws_length s"] assms len by (auto simp: whowas_trim_def)
qed

section \<open>Clients that leave\<close>

definition unlink_online :: "cid \<Rightarrow> wid \<Rightarrow> wstate \<Rightarrow> wstate" where
  "unlink_online c i s =
     s\<lparr>ws_who := (ws_who s)(i \<mapsto> (who_of s i)\<lparr>ww_online := None\<rparr>),
       ws_clist := (ws_clist s)(c := remove1 i (ws_clist s c))\<rparr>"

lemma whowas_off_history_fold:
  "whowas_off_history c s = fold (unlink_online c) (ws_clist s c) s"
  by (simp add: whowas_off_history_def unlink_online_def [abs_def])

lemma unlink_fold_sel:
  "ws_list (fold (unlink_online c) l s) = ws_list s" "ws_length (fold (unlink_online c) l s) = ws_length s"
  "ws_tops (fold (unlink_online c) l s) = ws_tops s" "ws_hash (fold (unlink_online c) l s) = ws_hash s"
  "ws_next (fold (unlink_online c) l s) = ws_next s"
  "ws_who (fold (unlink_online c) l s) i =
     (if i \<in> set l then Some ((who_of s i)\<lparr>ww_online := None\<rparr>) else ws_who s i)"
  "ws_clist (fold (unlink_online c) l s) d = (if d = c then fold remove1 l (ws_clist s c) else ws_clist s d)"
  by (induction l arbitrary: s) (auto simp: unlink_online_def who_of_def)

lemma fold_remove1_self: "fold remove1 l l = []"
  by (induction l) auto

lemma whowas_off_history_effect:
  fixes c :: cid
  assumes "who_inv s"
  defines "s' \<equiv> whowas_off_history c s"
  shows "who_inv s'" "ws_length s' = ws_length s"
    "history s' = map (\<lambda>w. if ww_online w = Some c then w\<lparr>ww_online := None\<rparr> else w) (history s)"
proof -
  have ok: "names_ok s" "lists_ok s" using assms(1) by (simp_all add: who_inv_def)
  have cl: "ws_clist s c = of_client s c" "set (ws_list s) = dom (ws_who s)" using ok(2) by (auto simp: lists_ok_def)
  note sel = unlink_fold_sel [of c "ws_clist s c" s, folded whowas_off_history_fold, folded s'_def]
  have onl: "i \<in> set (ws_clist s c) \<longleftrightarrow> i \<in> dom (ws_who s) \<and> ww_online (who_of s i) = Some c" for i
    using cl by (auto simp: of_client_def)
  have who: "who_of s' i = (if ww_online (who_of s i) = Some c then (who_of s i)\<lparr>ww_online := None\<rparr> else who_of s i)"
    if "i \<in> dom (ws_who s)" for i
    using that onl [of i] by (auto simp: who_of_def sel(6))
  have dw: "dom (ws_who s') = dom (ws_who s)" using onl by (auto simp: sel(6) split: if_splits)
  have tops: "of_top s' t = of_top s t" for t
    using who cl(2) by (auto simp: of_top_def sel(1) intro!: filter_cong)
  have cls: "of_client s' d = (if d = c then [] else of_client s d)" for d
    using who cl(2) by (auto simp: of_client_def sel(1) filter_empty_conv intro!: filter_cong split: if_splits)
  have "lists_ok s'"
    using ok(2) who unfolding lists_ok_def dw tops cls sel(1,3,7) top_of_def
    by (auto simp: fold_remove1_self)
  moreover have "names_ok s'"
    using ok(1) by (simp add: names_ok_def top_entry_def top_of_def sel(3,4) cong: map_cong)
  ultimately show "who_inv s'"
    using assms(1) unfolding who_inv_def dw tops sel(3,5) by simp
  show "ws_length s' = ws_length s" by (rule sel(2))
  show "history s' = map (\<lambda>w. if ww_online w = Some c then w\<lparr>ww_online := None\<rparr> else w) (history s)"
    using who cl(2) by (auto simp: history_def sel(1) entry_def)
qed

section \<open>Adding\<close>

text \<open>
  What the rest of the daemon relies on for a client's name: it is a string, not empty, and
  fits the buffer of an entry.
\<close>

definition plain_name :: "cstring \<Rightarrow> bool" where
  "plain_name n = (n \<noteq> [] \<and> nul_free n \<and> length n \<le> NICKLEN)"

definition link_entry :: "wid \<Rightarrow> whowas \<Rightarrow> wstate \<Rightarrow> wstate" where
  "link_entry i w s =
     s\<lparr>ws_who := (ws_who s)(i \<mapsto> w), ws_next := Suc i,
       ws_clist := (case ww_online w of Some c \<Rightarrow> (ws_clist s)(c := i # ws_clist s c) | None \<Rightarrow> ws_clist s),
       ws_tops := (ws_tops s)(ww_wtop w \<mapsto> (top_of s (ww_wtop w))\<lparr>wt_wwlist := i # wt_wwlist (top_of s (ww_wtop w))\<rparr>),
       ws_list := i # ws_list s\<rparr>"

definition new_entry :: "(cid \<Rightarrow> client) \<Rightarrow> int \<Rightarrow> cid \<Rightarrow> bool \<Rightarrow> tid \<Rightarrow> whowas" where
  "new_entry clients now cl online wtop =
     (let c = clients cl
      in \<lparr>ww_wtop = wtop, ww_name = strlcpy (cl_name c) (NICKLEN + 1),
          ww_username = strlcpy (cl_username c) (USERLEN + 1),
          ww_hostname = strlcpy (cl_host c) (HOSTLEN + 1), ww_sockhost = whowas_sockhost c,
          ww_realname = strlcpy (cl_info c) (REALLEN + 1),
          ww_spoof = (if MyClient c then cl_ipspoof c else False),
          ww_servername = cl_name (clients (cl_servptr c)), ww_logoff = now,
          ww_online = (if online then Some cl else None)\<rparr>)"

lemma new_entry_sel [simp]:
  "ww_wtop (new_entry clients now cl online t) = t"
  "ww_online (new_entry clients now cl online t) = (if online then Some cl else None)"
  "entry (new_entry clients now cl online t) = entry (new_entry clients now cl online t')"
  by (simp_all add: new_entry_def entry_def Let_def)

lemma whowas_add_history_link:
  "whowas_add_history clients now cl online s =
     (let s1 = (if length (ws_list s) > ws_length s + 100 then whowas_trim s else s);
          p = whowas_get_top (cl_name (clients cl)) s1
      in link_entry (ws_next (snd p)) (new_entry clients now cl online (fst p)) (snd p))"
  by (simp add: whowas_add_history_def link_entry_def Let_def case_prod_beta new_entry_def top_of_def)

text \<open>
  Between the two steps the name's list may be empty: the invariant without that clause,
  for the state after \<open>whowas_get_top\<close>.
\<close>

lemma whowas_get_top_effect:
  assumes inv: "who_inv s" and n: "n \<noteq> []" "nul_free n" and r: "whowas_get_top n s = (t, s')"
  shows "names_ok s'" "lists_ok s'" "t \<in> dom (ws_tops s')" "irc_eq n (wt_name (top_of s' t))"
    "\<forall>u \<in> dom (ws_tops s') - {t}. of_top s' u \<noteq> []" "history s' = history s" "ws_length s' = ws_length s"
    "\<forall>k \<ge> ws_next s'. k \<notin> dom (ws_tops s') \<and> k \<notin> dom (ws_who s')"
proof -
  obtain ts where ts: "distinct ts" "set ts = dom (ws_tops s)" "irc_rep (ws_hash s) (map (top_entry s) ts)"
    using inv by (auto simp: who_inv_def names_ok_def)
  have hr: "hash_rep (ws_hash s) (map (top_entry s) ts)" "hf_cmptype (ws_hash s) = CMP_IRCCMP"
    using ts(3) by (simp_all add: irc_rep_def)
  have f: "hash_find (ws_hash s) n = map_option (node_of (ws_hash s)) (find (\<lambda>e. irc_eq n (fst e)) (map (top_entry s) ts))"
    using hash_rep_find [OF hr(1) n(2,1)] hr(2) by (simp add: same_key_def irc_eq_def)
  have all: "names_ok s' \<and> lists_ok s' \<and> t \<in> dom (ws_tops s') \<and> irc_eq n (wt_name (top_of s' t)) \<and>
      (\<forall>u \<in> dom (ws_tops s') - {t}. of_top s' u \<noteq> []) \<and> history s' = history s \<and> ws_length s' = ws_length s \<and>
      (\<forall>k \<ge> ws_next s'. k \<notin> dom (ws_tops s') \<and> k \<notin> dom (ws_who s'))"
  proof (cases "find (\<lambda>e. irc_eq n (fst e)) (map (top_entry s) ts)")
    case (Some e)
    then have "e \<in> top_entry s ` set ts" "irc_eq n (fst e)" by (auto dest: find_SomeD)
    then obtain u where u: "u \<in> dom (ws_tops s)" "e = top_entry s u" using ts(2) by auto
    have "t = u" "s' = s" using r f Some u(2) by (auto simp: whowas_get_top_def node_of_def top_entry_def)
    then show ?thesis using inv u \<open>irc_eq n (fst e)\<close> by (simp add: who_inv_def top_entry_def)
  next
    case None
    let ?t = "ws_next s" and ?h = "ws_hash s"
    have s': "t = ?t" "s' = s\<lparr>ws_tops := (ws_tops s)(?t \<mapsto> \<lparr>wt_name = n, wt_wwlist = [], wt_hnode = hash_add_node n ?t ?h\<rparr>),
        ws_hash := hash_add n ?t ?h, ws_next := Suc ?t\<rparr>"
      using r f None by (auto simp: whowas_get_top_def Let_def)
    have fresh: "?t \<notin> dom (ws_tops s)" "?t \<notin> dom (ws_who s)" using inv by (auto simp: who_inv_def)
    have node: "hash_add_node n ?t ?h = node_of ?h (n, ?t)"
      using add_index [of ?h n] hr by (simp add: hash_add_node_def node_of_def hash_rep_def)
    have te: "top_entry s' u = top_entry s u" if "u \<noteq> ?t" for u using that by (simp add: s'(2) top_entry_def top_of_def)
    have "map (top_entry s') (?t # ts) = (n, ?t) # map (top_entry s) ts"
      using te fresh(1) ts(2) by (auto simp: s'(2) top_entry_def top_of_def)
    then have "irc_rep (ws_hash s') (map (top_entry s') (?t # ts))"
      using irc.rep_add [OF ts(3) n(2,1), of ?t] arg_cong [OF s'(2), of ws_hash] by (simp del: list.map)
    moreover have "distinct (?t # ts)" "set (?t # ts) = dom (ws_tops s')" using ts(1,2) fresh(1) by (auto simp: s'(2))
    ultimately have "\<exists>ts'. distinct ts' \<and> set ts' = dom (ws_tops s') \<and> irc_rep (ws_hash s') (map (top_entry s') ts')" by blast
    moreover have "x = y" if xy: "x \<in> dom (ws_tops s')" "y \<in> dom (ws_tops s')"
      "irc_eq (wt_name (top_of s' x)) (wt_name (top_of s' y))" for x y
    proof -
      have new: "\<not> irc_eq n (wt_name (top_of s u))" "\<not> irc_eq (wt_name (top_of s u)) n" if "u \<in> dom (ws_tops s)" for u
        using None that ts(2) by (simp_all add: find_None_iff top_entry_def irc_eq_def) (metis that)
      have old: "x = y" if "x \<in> dom (ws_tops s)" "y \<in> dom (ws_tops s)" "irc_eq (wt_name (top_of s x)) (wt_name (top_of s y))"
        using inv that unfolding who_inv_def names_ok_def by blast
      show ?thesis
        using xy new [of x] new [of y] old
        by (cases "x = ?t"; cases "y = ?t") (simp_all add: s'(2) top_of_def)
    qed
    moreover have "wt_hnode (top_of s' u) = node_of (ws_hash s') (top_entry s' u)" if "u \<in> dom (ws_tops s')" for u
      using that inv node by (cases "u = ?t") (auto simp: who_inv_def names_ok_def s'(2) top_of_def top_entry_def)
    ultimately have "names_ok s'" unfolding names_ok_def by blast
    moreover have nt: "ww_wtop (who_of s i) \<in> dom (ws_tops s) - {?t}" if "i \<in> dom (ws_who s)" for i
      using inv fresh(1) that unfolding who_inv_def lists_ok_def by (metis DiffI singletonD)
    moreover have tops: "of_top s' u = of_top s u" "of_client s' c = of_client s c" "who_of s' i = who_of s i" for u c i
      by (simp_all add: s'(2) of_top_def of_client_def who_of_def)
    moreover have "of_top s ?t = []"
      using nt inv by (simp add: of_top_def filter_empty_conv who_inv_def lists_ok_def)
    moreover have "lists_ok s'"
      unfolding lists_ok_def tops
    proof (intro conjI ballI allI)
      fix i assume "i \<in> dom (ws_who s')"
      then have i: "i \<in> dom (ws_who s)" by (simp add: s'(2))
      show "ww_wtop (who_of s i) \<in> dom (ws_tops s')" using nt [OF i] by (simp add: s'(2))
      show "irc_eq (ww_name (who_of s i)) (wt_name (top_of s' (ww_wtop (who_of s i))))"
        using nt [OF i] i inv by (simp add: s'(2) top_of_def who_inv_def lists_ok_def)
    next
      fix u assume "u \<in> dom (ws_tops s')"
      then show "wt_wwlist (top_of s' u) = of_top s u"
        using inv \<open>of_top s ?t = []\<close> by (cases "u = ?t") (auto simp: s'(2) top_of_def who_inv_def lists_ok_def)
    qed (use inv in \<open>auto simp: s'(2) who_inv_def lists_ok_def\<close>)
    ultimately show ?thesis
      using inv fresh by (auto simp: s' who_inv_def history_def top_of_def irc_eq_def tops)
  qed
  show "names_ok s'" "lists_ok s'" "t \<in> dom (ws_tops s')" "irc_eq n (wt_name (top_of s' t))"
    "\<forall>u \<in> dom (ws_tops s') - {t}. of_top s' u \<noteq> []" "history s' = history s" "ws_length s' = ws_length s"
    "\<forall>k \<ge> ws_next s'. k \<notin> dom (ws_tops s') \<and> k \<notin> dom (ws_who s')"
    using all by blast+
qed

lemma link_entry_effect:
  assumes n: "names_ok s" and l: "lists_ok s" and t: "ww_wtop w \<in> dom (ws_tops s)"
    and ne: "\<forall>u \<in> dom (ws_tops s) - {ww_wtop w}. of_top s u \<noteq> []"
    and fresh: "\<forall>k \<ge> ws_next s. k \<notin> dom (ws_tops s) \<and> k \<notin> dom (ws_who s)"
    and nm: "irc_eq (ww_name w) (wt_name (top_of s (ww_wtop w)))"
  defines "s' \<equiv> link_entry (ws_next s) w s"
  shows "who_inv s'" "history s' = entry w # history s" "ws_length s' = ws_length s"
proof -
  let ?i = "ws_next s"
  have i: "?i \<notin> dom (ws_who s)" "?i \<notin> set (ws_list s)" using fresh l by (auto simp: lists_ok_def)
  have sel: "ws_list s' = ?i # ws_list s" "ws_who s' = (ws_who s)(?i \<mapsto> w)" "ws_next s' = Suc ?i"
    "ws_tops s' = (ws_tops s)(ww_wtop w \<mapsto> (top_of s (ww_wtop w))\<lparr>wt_wwlist := ?i # wt_wwlist (top_of s (ww_wtop w))\<rparr>)"
    "ws_hash s' = ws_hash s" "ws_length s' = ws_length s"
    "ws_clist s' c = (if ww_online w = Some c then ?i # ws_clist s c else ws_clist s c)" for c
    by (auto simp: s'_def link_entry_def split: option.split)
  have who: "who_of s' j = (if j = ?i then w else who_of s j)" for j by (simp add: who_of_def sel(2))
  have dt: "dom (ws_tops s') = dom (ws_tops s)" using t by (auto simp: sel(4))
  have top: "wt_name (top_of s' u) = wt_name (top_of s u)" "wt_hnode (top_of s' u) = wt_hnode (top_of s u)"
    "wt_wwlist (top_of s' u) = (if u = ww_wtop w then ?i # wt_wwlist (top_of s u) else wt_wwlist (top_of s u))" for u
    by (simp_all add: top_of_def sel(4))
  have flt: "filter P' (ws_list s) = filter P (ws_list s)" if "\<And>j. j \<noteq> ?i \<Longrightarrow> P' j = P j" for P P'
    by (rule filter_cong [OF refl]) (metis that i(2))
  have fe: "filter (\<lambda>j. f (who_of s' j) = u) (ws_list s) = filter (\<lambda>j. f (who_of s j) = u) (ws_list s)" for f :: "whowas \<Rightarrow> 'b" and u
    by (rule flt) (simp add: who)
  have wi: "who_of s' ?i = w" by (simp add: who)
  have tops: "of_top s' u = (if u = ww_wtop w then ?i # of_top s u else of_top s u)" for u
    using fe [of ww_wtop u] wi by (auto simp: of_top_def sel(1))
  have cls: "of_client s' c = (if ww_online w = Some c then ?i # of_client s c else of_client s c)" for c
    using fe [of ww_online "Some c"] wi by (auto simp: of_client_def sel(1))
  have "names_ok s'"
    using n unfolding names_ok_def dt top sel(5) top_entry_def by simp
  moreover have "lists_ok s'"
    using l i t nm unfolding lists_ok_def dt tops cls sel(7) top
    by (auto simp: sel(1,2) who)
  moreover have "\<forall>u \<in> dom (ws_tops s'). of_top s' u \<noteq> []" using ne by (auto simp: dt tops)
  ultimately show "who_inv s'" using fresh t by (auto simp: who_inv_def dt sel(2,3))
  show "history s' = entry w # history s"
    using i(2) by (auto simp: history_def sel(1) who)
  show "ws_length s' = ws_length s" by (rule sel(6))
qed

lemma whowas_add_history_effect:
  fixes now :: int and online :: bool and cl :: cid
  assumes inv: "who_inv s" and n: "plain_name (cl_name (clients cl))"
  defines "s' \<equiv> whowas_add_history clients now cl online s"
  shows "who_inv s'" "ws_length s' = ws_length s"
    "history s' = entry (new_entry clients now cl online 0) #
       (if length (history s) > ws_length s + 100 then take (ws_length s) (history s) else history s)"
proof -
  let ?n = "cl_name (clients cl)"
  define s1 where "s1 = (if length (ws_list s) > ws_length s + 100 then whowas_trim s else s)"
  obtain t s2 where p: "whowas_get_top ?n s1 = (t, s2)" by (cases "whowas_get_top ?n s1")
  have s1: "who_inv s1" "ws_length s1 = ws_length s"
    "history s1 = (if length (history s) > ws_length s + 100 then take (ws_length s) (history s) else history s)"
    using inv whowas_trim_history [OF inv] by (simp_all add: s1_def history_def)
  have nn: "?n \<noteq> []" "nul_free ?n" "strlcpy ?n (NICKLEN + 1) = ?n"
    using n by (auto simp: plain_name_def strlcpy_def)
  note g = whowas_get_top_effect [OF s1(1) nn(1,2) p]
  let ?w = "new_entry clients now cl online t"
  have s': "s' = link_entry (ws_next s2) ?w s2"
    unfolding s'_def whowas_add_history_link Let_def s1_def [symmetric] p by simp
  have nm: "irc_eq (ww_name ?w) (wt_name (top_of s2 (ww_wtop ?w)))"
    using g(4) nn(3) by (simp add: new_entry_def Let_def)
  have t: "ww_wtop ?w \<in> dom (ws_tops s2)" "\<forall>u \<in> dom (ws_tops s2) - {ww_wtop ?w}. of_top s2 u \<noteq> []"
    using g(3,5) by simp_all
  note lk = link_entry_effect [OF g(1,2) t g(8) nm, folded s']
  show "who_inv s'" by (rule lk(1))
  show "ws_length s' = ws_length s" using lk(3) g(7) s1(2) by simp
  show "history s' = entry (new_entry clients now cl online 0) #
       (if length (history s) > ws_length s + 100 then take (ws_length s) (history s) else history s)"
    using lk(2) g(6) s1(3) new_entry_sel(3) [of clients now cl online t 0] by simp
qed

section \<open>Looking up a name\<close>

lemma whowas_top_found:
  assumes inv: "who_inv s" and n: "n \<noteq> []" "nul_free n"
  shows "(case hash_find_data (ws_hash s) n of
      None \<Rightarrow> filter (\<lambda>i. irc_eq n (ww_name (who_of s i))) (ws_list s) = []
    | Some t \<Rightarrow> wt_wwlist (top_of s t) = filter (\<lambda>i. irc_eq n (ww_name (who_of s i))) (ws_list s) \<and>
        wt_wwlist (top_of s t) \<noteq> [])"
proof -
  obtain ts where ts: "distinct ts" "set ts = dom (ws_tops s)" "irc_rep (ws_hash s) (map (top_entry s) ts)"
    using inv by (auto simp: who_inv_def names_ok_def)
  have f: "hash_find_data (ws_hash s) n = map_option snd (find (\<lambda>e. irc_eq n (fst e)) (map (top_entry s) ts))"
    using irc.lookup_rep [OF ts(3) n(2,1)] by (simp add: ix_lookup_def)
  have w: "ww_wtop (who_of s i) \<in> dom (ws_tops s)" "irc_eq (ww_name (who_of s i)) (wt_name (top_of s (ww_wtop (who_of s i))))"
    if "i \<in> set (ws_list s)" for i
    using inv that by (auto simp: who_inv_def lists_ok_def)
  show ?thesis
  proof (cases "find (\<lambda>e. irc_eq n (fst e)) (map (top_entry s) ts)")
    case None
    then have "\<not> irc_eq n (wt_name (top_of s t))" if "t \<in> dom (ws_tops s)" for t
      using that ts(2) by (auto simp: find_None_iff top_entry_def)
    then show ?thesis using f None w by (auto simp: filter_empty_conv irc_eq_def)
  next
    case (Some e)
    then have "e \<in> top_entry s ` dom (ws_tops s)" "irc_eq n (fst e)" using find_SomeD [OF Some] ts(2) by auto
    then obtain t where t: "e = top_entry s t" "t \<in> dom (ws_tops s)" "irc_eq n (wt_name (top_of s t))"
      by (elim imageE) (simp add: top_entry_def)
    have uniq: "irc_eq n (ww_name (who_of s i)) \<longleftrightarrow> ww_wtop (who_of s i) = t" if "i \<in> set (ws_list s)" for i
      using inv w [OF that] t(2,3) unfolding who_inv_def names_ok_def irc_eq_def by metis
    have "of_top s t = filter (\<lambda>i. irc_eq n (ww_name (who_of s i))) (ws_list s)"
      using uniq by (auto simp: of_top_def intro!: filter_cong)
    moreover have "wt_wwlist (top_of s t) = of_top s t" "of_top s t \<noteq> []"
      using inv t(2) by (auto simp: who_inv_def lists_ok_def)
    ultimately show ?thesis using f Some t(1) by (simp add: top_entry_def)
  qed
qed

section \<open>Properties\<close>

text \<open>The operations on the history, and their meaning on a length limit and a list.\<close>

datatype who_op = WAdd "cid \<Rightarrow> client" int cid bool | WOff cid | WTrim | WSize nat

fun who_run :: "who_op \<Rightarrow> wstate \<Rightarrow> wstate" where
  "who_run (WAdd clients now c online) s = whowas_add_history clients now c online s"
| "who_run (WOff c) s = whowas_off_history c s"
| "who_run WTrim s = whowas_trim s"
| "who_run (WSize n) s = whowas_set_size n s"

fun who_abs :: "who_op \<Rightarrow> nat \<times> whowas list \<Rightarrow> nat \<times> whowas list" where
  "who_abs (WAdd clients now c online) (n, h) =
     (n, entry (new_entry clients now c online 0) # (if length h > n + 100 then take n h else h))"
| "who_abs (WOff c) (n, h) = (n, map (\<lambda>w. if ww_online w = Some c then w\<lparr>ww_online := None\<rparr> else w) h)"
| "who_abs WTrim (n, h) = (n, take n h)"
| "who_abs (WSize m) (n, h) = (m, take m h)"

fun who_op_ok :: "who_op \<Rightarrow> bool" where
  "who_op_ok (WAdd clients now c online) = plain_name (cl_name (clients c))"
| "who_op_ok _ = True"

lemma who_inv_length: "who_inv (s\<lparr>ws_length := n\<rparr>) = who_inv s"
  by (simp add: who_inv_def names_ok_def lists_ok_def top_entry_def [abs_def] top_of_def of_top_def of_client_def who_of_def)

lemma who_run_step:
  "who_inv s \<Longrightarrow> who_op_ok c \<Longrightarrow>
   who_inv (who_run c s) \<and> (ws_length (who_run c s), history (who_run c s)) = who_abs c (ws_length s, history s)"
proof (cases c)
  case (WSize m)
  assume "who_inv s"
  then have "who_inv (s\<lparr>ws_length := m\<rparr>)" by (simp add: who_inv_length)
  from whowas_trim_history [OF this] show ?thesis
    using WSize by (simp add: whowas_set_size_def history_def who_of_def)
qed (auto simp: whowas_add_history_effect whowas_off_history_effect whowas_trim_history)

lemma who_run_ops:
  "who_inv s \<Longrightarrow> list_all who_op_ok cs \<Longrightarrow>
   who_inv (fold who_run cs s) \<and>
   (ws_length (fold who_run cs s), history (fold who_run cs s)) = fold who_abs cs (ws_length s, history s)"
proof (induction cs arbitrary: s)
  case (Cons c cs)
  then show ?case using who_run_step [of s c] Cons.IH [of "who_run c s"] by auto
qed simp

lemma whowas_init_inv: "who_inv whowas_init"
proof -
  have "irc_rep (the (hash_create ''WHOWAS'' CMP_IRCCMP 17 0) :: tid hash_f) []"
    using hash_create_rep [of "''WHOWAS''" CMP_IRCCMP 17 0] by (simp add: irc_rep_def hash_create_def)
  then show ?thesis
    by (auto simp: who_inv_def names_ok_def lists_ok_def whowas_init_def of_top_def of_client_def)
qed

text \<open>
  C30: the nickname history with its three linked lists per entry, its table of names and its
  pointers to online clients behaves like one list of entries, the newest first, under every
  sequence of \<open>whowas_add_history\<close>, \<open>whowas_off_history\<close>, \<open>whowas_trim\<close> and
  \<open>whowas_set_size\<close>; and the lists and pointers stay consistent.
\<close>

theorem whowas_refines:
  assumes "list_all who_op_ok cs"
  defines "s \<equiv> fold who_run cs whowas_init"
  shows "who_inv s \<and> (ws_length s, history s) = fold who_abs cs (NICKNAMEHISTORYLENGTH, [])"
  using who_run_ops [OF whowas_init_inv assms(1)] by (simp add: s_def whowas_init_def history_def)

definition small_ops :: "who_op list" where
  "small_ops = [WAdd (\<lambda>_. user_named ''nick'') 5 1 True, WAdd (\<lambda>_. user_named ''Nick'') 7 2 True, WSize 1, WOff 2]"

lemma small_ops_ok: "list_all who_op_ok small_ops"
  by (simp add: small_ops_def plain_name_def user_named_def nul_free_def NICKLEN_def)

theorem whowas_refines_witness:
  "map ww_online (history (fold who_run small_ops whowas_init)) = [None] \<and>
   who_inv (fold who_run small_ops whowas_init)"
proof -
  have "map ww_online (snd (fold who_abs small_ops (NICKNAMEHISTORYLENGTH, []))) = [None]"
    by (simp add: small_ops_def entry_def new_entry_def Let_def NICKNAMEHISTORYLENGTH_def)
  then show ?thesis
    using whowas_refines [OF small_ops_ok] by (metis snd_conv)
qed

text \<open>
  \<open>whowas_get_list\<close> returns, newest first, exactly the entries whose name is the same up
  to case, and null when there is none; \<open>whowas_get_history\<close> returns the client pointer of
  the oldest such entry within the time limit.
\<close>

theorem whowas_lookup:
  assumes "who_inv s" "nick \<noteq> []" "nul_free nick"
  shows "map_option (map (\<lambda>i. entry (who_of s i))) (whowas_get_list s nick) =
      (let l = filter (\<lambda>w. irc_eq nick (ww_name w)) (history s) in if l = [] then None else Some l) \<and>
    whowas_get_history s now nick limit =
      (let l = filter (\<lambda>w. irc_eq nick (ww_name w) \<and> ww_logoff w \<ge> now - limit) (history s)
       in if l = [] then None else ww_online (last l))"
proof -
  let ?P = "\<lambda>i. irc_eq nick (ww_name (who_of s i))" and ?R = "\<lambda>i. ww_logoff (who_of s i) \<ge> now - limit"
  have e [simp]: "ww_name (entry w) = ww_name w" "ww_logoff (entry w) = ww_logoff w" "ww_online (entry w) = ww_online w" for w
    by (simp_all add: entry_def)
  have h: "filter (\<lambda>w. irc_eq nick (ww_name w)) (history s) = map (\<lambda>i. entry (who_of s i)) (filter ?P (ws_list s))"
    "filter (\<lambda>w. irc_eq nick (ww_name w) \<and> ww_logoff w \<ge> now - limit) (history s) =
       map (\<lambda>i. entry (who_of s i)) (filter ?R (filter ?P (ws_list s)))"
    by (simp_all add: history_def filter_map o_def conj_commute)
  have fr: "find Q (rev xs) = (if filter Q xs = [] then None else Some (last (filter Q xs)))" for Q and xs :: "wid list"
    by (induction xs rule: rev_induct) auto
  have em: "filter ?P (ws_list s) = [] \<Longrightarrow> filter (\<lambda>i. ?P i \<and> ?R i) (ws_list s) = []"
    by (auto simp: filter_empty_conv)
  show ?thesis
    using whowas_top_found [OF assms] em
    by (auto simp: whowas_get_list_def whowas_get_history_def h fr last_map Let_def split: option.splits)
qed

theorem whowas_lookup_witness:
  "whowas_get_history (fold who_run small_ops whowas_init) 9 ''NICK'' 90 = None"
proof -
  have inv: "who_inv (fold who_run small_ops whowas_init)"
    "history (fold who_run small_ops whowas_init) = snd (fold who_abs small_ops (NICKNAMEHISTORYLENGTH, []))"
    using who_run_ops [OF whowas_init_inv small_ops_ok] by (simp_all add: whowas_init_def history_def prod_eq_iff)
  have "irc_eq ''NICK'' ''Nick''" by code_simp
  moreover have "history (fold who_run small_ops whowas_init) =
      [(entry (new_entry (\<lambda>_. user_named ''Nick'') 7 2 True 0))\<lparr>ww_online := None\<rparr>]"
    unfolding inv(2) by (simp add: small_ops_def NICKNAMEHISTORYLENGTH_def entry_def new_entry_def Let_def)
  ultimately show ?thesis
    using whowas_lookup [OF inv(1), of "''NICK''" 9 90]
    by (simp add: nul_free_def entry_def new_entry_def Let_def user_named_def NICKLEN_def strlcpy_def)
qed

text \<open>
  No dangling pointers. After \<open>whowas_off_history\<close> for a client that is freed, and for
  as long as no entry is added for it, no lookup returns the client.
\<close>

theorem whowas_no_dangling:
  assumes "who_inv s" "list_all who_op_ok cs"
    and "\<forall>c \<in> set cs. \<forall>clients now. c \<noteq> WAdd clients now gone True" "nick \<noteq> []" "nul_free nick"
  shows "whowas_get_history (fold who_run cs (whowas_off_history gone s)) now nick limit \<noteq> Some gone"
proof -
  let ?s = "whowas_off_history gone s"
  note off = whowas_off_history_effect [OF assms(1), of gone]
  have abs: "\<forall>w \<in> set (snd (fold who_abs cs p)). ww_online w \<noteq> Some gone" if "\<forall>w \<in> set (snd p). ww_online w \<noteq> Some gone" for p
    using assms(3) that
  proof (induction cs arbitrary: p)
    case (Cons c cs)
    obtain n h where p: "p = (n, h)" by (cases p)
    have "\<forall>w \<in> set (snd (who_abs c p)). ww_online w \<noteq> Some gone"
      using Cons.prems unfolding p by (cases c) (auto simp: entry_def dest: in_set_takeD split: if_splits)
    then show ?case using Cons.IH Cons.prems(1) by simp
  qed simp
  have h: "\<forall>w \<in> set (history ?s). ww_online w \<noteq> Some gone" using off(3) by auto
  note run = who_run_ops [OF off(1) assms(2)]
  have h': "\<forall>w \<in> set (history (fold who_run cs ?s)). ww_online w \<noteq> Some gone"
    using abs [of "(ws_length ?s, history ?s)"] h run by (metis snd_conv)
  have e: "ww_online (entry w) = ww_online w" "ww_name (entry w) = ww_name w" for w by (simp_all add: entry_def)
  have "ww_online (who_of (fold who_run cs ?s) i) \<noteq> Some gone" if "i \<in> set (ws_list (fold who_run cs ?s))" for i
    using h' that by (force simp: history_def e)
  moreover have "set (wt_wwlist (top_of (fold who_run cs ?s) t)) \<subseteq> set (ws_list (fold who_run cs ?s))"
    if "hash_find_data (ws_hash (fold who_run cs ?s)) nick = Some t" for t
    using whowas_top_found [OF run [THEN conjunct1] assms(4,5)] that by auto
  ultimately show ?thesis
    by (fastforce simp: whowas_get_history_def dest!: find_SomeD split: option.splits)
qed

theorem whowas_no_dangling_witness:
  "whowas_get_history (fold who_run [WTrim] (whowas_off_history 1 (fold who_run [hd small_ops] whowas_init))) 9 ''nick'' 90 \<noteq> Some 1"
proof -
  have "who_inv (fold who_run [hd small_ops] whowas_init)"
    using who_run_ops [OF whowas_init_inv, of "[hd small_ops]"] small_ops_ok by (simp add: small_ops_def)
  then show ?thesis by (rule whowas_no_dangling) (simp_all add: nul_free_def)
qed

end
