(* ===== verification/Mode.thy ===== *)
theory Mode
  imports ChanInfo Bans Whowas Masks
begin

unbundle bit_operations_syntax

text \<open>
  \<open>modules/core/m_mode.c\<close>: the channel MODE command. The static variables \<open>mode_changes\<close>,
  \<open>mode_limit\<close>, \<open>mask_pos\<close> and the static buffer \<open>limitstr\<close> of \<open>chm_limit\<close> are fields of the
  state the handlers pass on, together with \<open>*parn\<close> and \<open>*errors\<close>. A read through a null
  pointer and a write behind a buffer are faults. The model is the default build, without
  \<open>ENABLE_SERVICES\<close>.
\<close>

section \<open>Results, changes and state\<close>

datatype fault = NullDeref | BufOverflow

definition and_then :: "fault + 'a \<Rightarrow> ('a \<Rightarrow> fault + 'b) \<Rightarrow> fault + 'b" where
  "and_then r f = (case r of Inl e \<Rightarrow> Inl e | Inr a \<Rightarrow> f a)"

datatype dir = MODE_QUERY | MODE_ADD | MODE_DEL

text \<open>
  \<open>arg\<close> of a change is a pointer: null, to a string that stays as it is, to the key in the
  channel, or to \<open>limitstr\<close>.
\<close>

datatype chm_arg = ArgNull | ArgStr cstring | ArgKey | ArgLimit

record ChModeChange =
  cg_letter :: char
  cg_arg :: chm_arg
  cg_id :: "cstring option"
  cg_dir :: dir
  cg_caps :: "32 word"
  cg_nocaps :: "32 word"
  cg_mems :: "32 word"

definition MODEBUFLEN :: nat where "MODEBUFLEN = 200"
definition MAXMODEPARAMS :: nat where "MAXMODEPARAMS = 4"
definition MAXMODEPARAMSSERV :: nat where "MAXMODEPARAMSSERV = 10"

definition ALL_MEMBERS :: "32 word" where "ALL_MEMBERS = 0"
definition ONLY_CHANOPS :: "32 word" where "ONLY_CHANOPS = 1"
definition ONLY_SERVERS :: "32 word" where "ONLY_SERVERS = 0x10"

definition SM_ERR_NOOPS :: "32 word" where "SM_ERR_NOOPS = 0x2"
definition SM_ERR_UNKNOWN :: "32 word" where "SM_ERR_UNKNOWN = 0x4"
definition SM_ERR_RPL_B :: "32 word" where "SM_ERR_RPL_B = 0x10"
definition SM_ERR_RPL_E :: "32 word" where "SM_ERR_RPL_E = 0x20"
definition SM_ERR_NOTONCHANNEL :: "32 word" where "SM_ERR_NOTONCHANNEL = 0x40"
definition SM_ERR_RPL_I :: "32 word" where "SM_ERR_RPL_I = 0x100"

record mode_state =
  md_world :: world
  md_changes :: "ChModeChange list"
  md_limit :: nat
  md_mask_pos :: nat
  md_limitstr :: cstring
  md_parn :: nat
  md_errors :: "32 word"
  md_out :: "msg list"

text \<open>
  The tables the command consults: clients by nick and by id, the nickname history, the
  configuration, the number of servers and the capability counts.
\<close>

record mode_env =
  me_cfg :: config
  me_hash_client :: "cid hash_f"
  me_hash_id :: "cid hash_f"
  me_whowas :: wstate
  me_servers :: nat
  me_combos :: "ChCapCombo list"

text \<open>The arguments common to the handlers \<open>chm_*\<close>.\<close>

record chm_args =
  ca_source :: cid
  ca_chptr :: chid
  ca_alevel :: "32 word"
  ca_parv :: "cstring list"
  ca_dir :: dir
  ca_c :: char
  ca_type :: "32 word"

definition emit :: "msg \<Rightarrow> mode_state \<Rightarrow> mode_state" where
  "emit m s = s\<lparr>md_out := md_out s @ [m]\<rparr>"

definition set_error :: "32 word \<Rightarrow> mode_state \<Rightarrow> mode_state" where
  "set_error e s = s\<lparr>md_errors := md_errors s OR e\<rparr>"

text \<open>\<open>mode_changes[mode_count++] = \<dots>\<close>; the array has \<open>IRCD_BUFSIZE\<close> entries.\<close>

definition push_change :: "ChModeChange \<Rightarrow> mode_state \<Rightarrow> fault + mode_state" where
  "push_change g s =
     (if length (md_changes s) < IRCD_BUFSIZE then Inr (s\<lparr>md_changes := md_changes s @ [g]\<rparr>)
      else Inl BufOverflow)"

definition on_world :: "(world \<Rightarrow> world) \<Rightarrow> mode_state \<Rightarrow> mode_state" where
  "on_world f s = s\<lparr>md_world := f (md_world s)\<rparr>"

definition md_client :: "mode_state \<Rightarrow> cid \<Rightarrow> client" where
  "md_client s c = client_of (md_world s) c"

definition md_chan :: "mode_state \<Rightarrow> chid \<Rightarrow> channel" where
  "md_chan s c = chan_of (md_world s) c"

section \<open>Ban lists\<close>

definition ban_list :: "32 word \<Rightarrow> channel \<Rightarrow> ban list" where
  "ban_list mode_type ch =
     (if mode_type = CHFL_BAN then ch_banlist ch
      else if mode_type = CHFL_EXCEPTION then ch_exceptlist ch
      else ch_invexlist ch)"

definition set_ban_list :: "32 word \<Rightarrow> ban list \<Rightarrow> channel \<Rightarrow> channel" where
  "set_ban_list mode_type l ch =
     (if mode_type = CHFL_BAN then ch\<lparr>ch_banlist := l\<rparr>
      else if mode_type = CHFL_EXCEPTION then ch\<lparr>ch_exceptlist := l\<rparr>
      else ch\<lparr>ch_invexlist := l\<rparr>)"

text \<open>\<open>chptr->ban_serial++\<close> of \<open>add_id\<close> and \<open>del_id\<close>.\<close>

definition bump_serial :: "32 word \<Rightarrow> channel \<Rightarrow> channel" where
  "bump_serial mode_type ch =
     (if mode_type = CHFL_BAN \<or> mode_type = CHFL_EXCEPTION
      then ch\<lparr>ch_ban_serial := ch_ban_serial ch + 1\<rparr> else ch)"

definition ban_setter :: "client \<Rightarrow> cstring" where
  "ban_setter c =
     (if IsClient c then cl_name c @ CHR ''!'' # cl_username c @ CHR ''@'' # cl_host c
      else strlcpy (cl_name c) BANLEN)"

definition add_id ::
  "config \<Rightarrow> cid \<Rightarrow> chid \<Rightarrow> cstring \<Rightarrow> 32 word \<Rightarrow> world \<Rightarrow> bool \<times> msg list \<times> world" where
  "add_id cfg source_p chptr banid mode_type w =
     (let ch = chan_of w chptr; c = client_of w source_p; l = ban_list mode_type ch;
          add = (True, [], upd_chan chptr (\<lambda>ch. bump_serial mode_type
                  (set_ban_list mode_type (allocate_ban banid (ban_setter c) (w_time w) # l) ch)) w)
      in if MyClient c then
           (if length (ch_banlist ch) + length (ch_exceptlist ch) + length (ch_invexlist ch) \<ge> max_bans cfg
            then (False, [Numeric source_p ''ERR_BANLISTFULL'' [ch_chname ch, banid]], w)
            else if find (\<lambda>b. mask_match (ban_banstr b) banid) l \<noteq> None then (False, [], w)
            else add)
         else if find (\<lambda>b. irccmp (ban_banstr b) banid = 0) l \<noteq> None then (False, [], w)
         else add)"

definition del_id :: "chid \<Rightarrow> cstring \<Rightarrow> 32 word \<Rightarrow> world \<Rightarrow> bool \<times> world" where
  "del_id chptr banid mode_type w =
     (if banid = [] then (False, w)
      else
        (let l = ban_list mode_type (chan_of w chptr)
         in case find (\<lambda>b. irccmp banid (ban_banstr b) = 0) l of
              None \<Rightarrow> (False, w)
            | Some b \<Rightarrow>
                (True, upd_chan chptr (\<lambda>ch. bump_serial mode_type (set_ban_list mode_type (remove1 b l) ch)) w)))"

section \<open>Masks and keys\<close>

definition check_string :: "cstring \<Rightarrow> cstring" where
  "check_string s = (if s = [] then ''*'' else takeWhile (\<lambda>c. \<not> IsSpace c) s)"

definition or_splat :: "cstring \<Rightarrow> cstring" where
  "or_splat s = (if s = [] then ''*'' else s)"

definition split_mask :: "cstring \<Rightarrow> cstring \<times> cstring \<times> cstring" where
  "split_mask pat =
     (case strchr_cut (CHR ''@'') pat of
        Some (l, h) \<Rightarrow>
          (case strchr_cut (CHR ''!'') l of
             Some (n, u) \<Rightarrow> (or_splat n, or_splat u, or_splat h)
           | None \<Rightarrow> (''*'', or_splat l, or_splat h))
      | None \<Rightarrow>
          (case strchr_cut (CHR ''!'') pat of
             Some (n, u) \<Rightarrow> (or_splat n, or_splat u, ''*'')
           | None \<Rightarrow>
               if CHR ''.'' \<in> set pat \<or> CHR '':'' \<in> set pat then (''*'', ''*'', or_splat pat)
               else (or_splat pat, ''*'', ''*'')))"

text \<open>
  \<open>pretty_mask\<close>: the mask and the new \<open>mask_pos\<close>; \<open>None\<close> is the null pointer. The result
  is written to \<open>mask_buf\<close> from \<open>mask_pos\<close> on, with its terminator.
\<close>

definition pretty_mask :: "cstring \<Rightarrow> nat \<Rightarrow> (cstring \<times> nat) option" where
  "pretty_mask idmask pos =
     (let pat = collapse (check_string idmask)
      in if IRCD_BUFSIZE - pos < length pat + 5 then None
         else (case split_mask pat of (nick, user, host) \<Rightarrow>
           let r = take (NICKLEN - 1) nick @ CHR ''!'' # take USERLEN user @ CHR ''@'' # take HOSTLEN host
           in Some (r, pos + length r + 1)))"

definition low7 :: "char \<Rightarrow> char" where
  "low7 c = char_of ((of_char c :: nat) mod 128)"

definition fix_key :: "cstring \<Rightarrow> cstring" where
  "fix_key arg =
     filter (\<lambda>c. c \<noteq> CHR '':'' \<and> c \<noteq> CHR '','' \<and> (of_char c :: nat) > 32) (map low7 arg)"

text \<open>
  \<open>fix_key_remote\<close> keeps the byte 0 that 0x80 becomes; the string ends there.
\<close>

definition fix_key_remote :: "cstring \<Rightarrow> cstring" where
  "fix_key_remote arg =
     takeWhile (\<lambda>c. c \<noteq> NUL)
       (filter (\<lambda>c. c \<noteq> LF \<and> c \<noteq> CHR '':'' \<and> c \<noteq> CHR '','' \<and> c \<noteq> CR \<and> c \<noteq> SPC) (map low7 arg))"

section \<open>Finding clients\<close>

text \<open>\<open>find_client\<close>, \<open>find_named_client\<close>, \<open>find_person\<close>, \<open>find_named_person\<close> and \<open>find_chasing\<close> (\<open>src/client.c\<close>).\<close>

definition find_client :: "mode_env \<Rightarrow> cstring \<Rightarrow> cid option" where
  "find_client env name =
     (if name = [] then None
      else if IsDigit (char_at name 0) then hash_find_data (me_hash_id env) name
      else hash_find_data (me_hash_client env) name)"

definition find_named_client :: "mode_env \<Rightarrow> cstring \<Rightarrow> cid option" where
  "find_named_client env name = (if name = [] then None else hash_find_data (me_hash_client env) name)"

definition only_person :: "world \<Rightarrow> cid option \<Rightarrow> cid option" where
  "only_person w r = (case r of Some c \<Rightarrow> if IsClient (client_of w c) then Some c else None | None \<Rightarrow> None)"

definition find_person :: "mode_env \<Rightarrow> world \<Rightarrow> cstring \<Rightarrow> cid option" where
  "find_person env w name = only_person w (find_client env name)"

definition find_named_person :: "mode_env \<Rightarrow> world \<Rightarrow> cstring \<Rightarrow> cid option" where
  "find_named_person env w name = only_person w (find_named_client env name)"

definition KILLCHASETIMELIMIT :: int where "KILLCHASETIMELIMIT = 90"

definition find_chasing :: "mode_env \<Rightarrow> world \<Rightarrow> cid \<Rightarrow> cstring \<Rightarrow> cid option \<times> msg list" where
  "find_chasing env w source_p user =
     (let who = (if MyClient (client_of w source_p) then find_named_person env w user
                 else find_person env w user)
      in if who \<noteq> None \<or> IsDigit (char_at user 0) then (who, [])
         else case whowas_get_history (me_whowas env) (w_time w) user KILLCHASETIMELIMIT of
                None \<Rightarrow> (None, [Numeric source_p ''ERR_NOSUCHNICK'' [user]])
              | Some c \<Rightarrow> (Some c, []))"

section \<open>Mode handlers\<close>

definition simple_change :: "char \<Rightarrow> dir \<Rightarrow> chm_arg \<Rightarrow> ChModeChange" where
  "simple_change c d arg =
     \<lparr>cg_letter = c, cg_arg = arg, cg_id = None, cg_dir = d, cg_caps = 0, cg_nocaps = 0,
      cg_mems = ALL_MEMBERS\<rparr>"

text \<open>The branch for clients without operator status.\<close>

definition refuse_noops :: "chm_args \<Rightarrow> mode_state \<Rightarrow> mode_state" where
  "refuse_noops a s =
     set_error SM_ERR_NOOPS
       (if has_flag (md_errors s) SM_ERR_NOOPS then s
        else emit (Numeric (ca_source a) ''ERR_CHANOPRIVSNEEDED'' [ch_chname (md_chan s (ca_chptr a))]) s)"

text \<open>\<open>MyClient(source_p) && (++mode_limit > n)\<close>.\<close>

definition over_limit :: "chm_args \<Rightarrow> nat \<Rightarrow> mode_state \<Rightarrow> bool \<times> mode_state" where
  "over_limit a n s =
     (if MyClient (md_client s (ca_source a))
      then (md_limit s + 1 > n, s\<lparr>md_limit := md_limit s + 1\<rparr>) else (False, s))"

definition chm_nosuch :: "mode_env \<Rightarrow> chm_args \<Rightarrow> mode_state \<Rightarrow> fault + mode_state" where
  "chm_nosuch env a s =
     (if has_flag (md_errors s) SM_ERR_UNKNOWN then Inr s
      else Inr (emit (Numeric (ca_source a) ''ERR_UNKNOWNMODE'' [[ca_c a]]) (set_error SM_ERR_UNKNOWN s)))"

definition set_mode_bit :: "32 word \<Rightarrow> dir \<Rightarrow> channel \<Rightarrow> channel" where
  "set_mode_bit t d ch =
     ch\<lparr>ch_mode := (if d = MODE_ADD then ch_mode ch OR t else ch_mode ch AND NOT t)\<rparr>"

definition chm_simple :: "mode_env \<Rightarrow> chm_args \<Rightarrow> mode_state \<Rightarrow> fault + mode_state" where
  "chm_simple env a s =
     (if ca_alevel a \<noteq> CHFL_CHANOP then Inr (refuse_noops a s)
      else
        (case over_limit a (9 + MAXMODEPARAMS) s of (over, s1) \<Rightarrow>
           if over then Inr s1
           else
             (let isset = has_flag (ch_mode (md_chan s1 (ca_chptr a))) (ca_type a)
              in if (ca_dir a = MODE_ADD \<and> \<not> isset) \<or> (ca_dir a = MODE_DEL \<and> isset)
                 then push_change (simple_change (ca_c a) (ca_dir a) ArgNull)
                        (on_world (upd_chan (ca_chptr a) (set_mode_bit (ca_type a) (ca_dir a))) s1)
                 else Inr s1)))"

definition chm_sslonly :: "mode_env \<Rightarrow> chm_args \<Rightarrow> mode_state \<Rightarrow> fault + mode_state" where
  "chm_sslonly env a s =
     (if ca_alevel a \<noteq> CHFL_CHANOP then Inr (refuse_noops a s)
      else if ca_dir a = MODE_QUERY then Inr s
      else
        (let isset = has_flag (ch_mode (md_chan s (ca_chptr a))) MODE_SSLONLY
         in if (ca_dir a = MODE_ADD \<and> isset) \<or> (ca_dir a = MODE_DEL \<and> \<not> isset) then Inr s
            else if ca_dir a = MODE_ADD \<and> MyClient (md_client s (ca_source a)) \<and> \<not> use_sslonly (me_cfg env)
            then Inr s
            else push_change (simple_change (ca_c a) (ca_dir a) ArgNull)
                   (on_world (upd_chan (ca_chptr a) (set_mode_bit MODE_SSLONLY (ca_dir a))) s)))"

definition send_banlist :: "chm_args \<Rightarrow> mode_state \<Rightarrow> mode_state" where
  "send_banlist a s =
     (let ch = md_chan s (ca_chptr a); t = ca_type a;
          item = (if t = CHFL_BAN then ''RPL_BANLIST'' else if t = CHFL_EXCEPTION then ''RPL_EXCEPTLIST''
                  else ''RPL_INVITELIST'');
          finish = (if t = CHFL_BAN then ''RPL_ENDOFBANLIST'' else if t = CHFL_EXCEPTION
                   then ''RPL_ENDOFEXCEPTLIST'' else ''RPL_ENDOFINVITELIST'')
      in s\<lparr>md_out := md_out s @
            map (\<lambda>b. Numeric (ca_source a) item
                   [ch_chname ch, ban_banstr b, ban_who b, string_of_int (ban_when b)]) (ban_list t ch) @
            [Numeric (ca_source a) finish [ch_chname ch]]\<rparr>)"

text \<open>The first \<open>switch\<close> of \<open>chm_ban\<close>: \<open>errorval\<close>, \<open>caps\<close> and \<open>mems\<close>, or an early return.\<close>

definition chm_ban_setup ::
  "mode_env \<Rightarrow> chm_args \<Rightarrow> mode_state \<Rightarrow> (32 word \<times> 32 word \<times> 32 word) option" where
  "chm_ban_setup env a s =
     (let cfg = me_cfg env;
          refused = (MyClient (md_client s (ca_source a)) \<and> ca_dir a = MODE_ADD \<and>
                     length (ca_parv a) > md_parn s)
      in if ca_type a = CHFL_BAN then Some (SM_ERR_RPL_B, 0, ALL_MEMBERS)
         else if ca_type a = CHFL_EXCEPTION then
           (if \<not> use_except cfg \<and> refused then None
            else Some (SM_ERR_RPL_E, CAP_EX,
                   if use_except cfg \<or> ca_dir a = MODE_DEL then ONLY_CHANOPS else ONLY_SERVERS))
         else if ca_type a = CHFL_INVEX then
           (if \<not> use_invex cfg \<and> refused then None
            else Some (SM_ERR_RPL_I, CAP_IE,
                   if use_invex cfg \<or> ca_dir a = MODE_DEL then ONLY_CHANOPS else ONLY_SERVERS))
         else None)"

text \<open>The end of \<open>chm_ban\<close>, with the mask at hand.\<close>

definition chm_ban_apply ::
  "mode_env \<Rightarrow> chm_args \<Rightarrow> cstring \<Rightarrow> cstring \<Rightarrow> 32 word \<Rightarrow> 32 word \<Rightarrow> mode_state \<Rightarrow> fault + mode_state" where
  "chm_ban_apply env a raw_mask pat caps mems s =
     (let change = (\<lambda>m. (simple_change (ca_c a) (ca_dir a) (ArgStr m))\<lparr>cg_caps := caps, cg_mems := mems\<rparr>)
      in if length pat > MODEBUFLEN - 2 then Inr s
         else if ca_dir a = MODE_ADD then
           (case add_id (me_cfg env) (ca_source a) (ca_chptr a) pat (ca_type a) (md_world s) of
              (ok, out, w) \<Rightarrow>
                (let s1 = s\<lparr>md_world := w, md_out := md_out s @ out\<rparr>
                 in if ok then push_change (change pat) s1 else Inr s1))
         else if ca_dir a = MODE_DEL then
           (case del_id (ca_chptr a) pat (ca_type a) (md_world s) of
              (True, w) \<Rightarrow> push_change (change pat) (s\<lparr>md_world := w\<rparr>)
            | (False, w) \<Rightarrow>
                (case del_id (ca_chptr a) raw_mask (ca_type a) w of
                   (ok, w') \<Rightarrow> push_change (change (if ok then raw_mask else pat)) (s\<lparr>md_world := w'\<rparr>)))
         else Inr s)"

definition chm_ban :: "mode_env \<Rightarrow> chm_args \<Rightarrow> mode_state \<Rightarrow> fault + mode_state" where
  "chm_ban env a s =
     (case chm_ban_setup env a s of
        None \<Rightarrow> Inr s
      | Some (errorval, caps, mems) \<Rightarrow>
          if ca_dir a = MODE_QUERY \<or> length (ca_parv a) \<le> md_parn s then
            (if has_flag (md_errors s) errorval then Inr s
             else
               (let s1 = set_error errorval s
                in if ca_alevel a \<noteq> CHFL_CHANOP \<and> ca_type a \<noteq> CHFL_BAN then Inr (refuse_noops a s1)
                   else Inr (send_banlist a s1)))
          else if ca_alevel a \<noteq> CHFL_CHANOP then Inr (refuse_noops a s)
          else
            (case over_limit a MAXMODEPARAMS s of (over, s1) \<Rightarrow>
               if over then Inr s1
               else
                 (let raw_mask = ca_parv a ! md_parn s1; s2 = s1\<lparr>md_parn := md_parn s1 + 1\<rparr>
                  in if raw_mask = [] \<or> char_at raw_mask 0 = CHR '':'' then Inr s2
                     else if \<not> MyClient (md_client s2 (ca_source a)) then
                       (if SPC \<in> set raw_mask then Inr s2
                        else chm_ban_apply env a raw_mask raw_mask caps mems s2)
                     else
                       (case pretty_mask raw_mask (md_mask_pos s2) of
                          None \<Rightarrow> Inl NullDeref
                        | Some (pat, pos) \<Rightarrow>
                            chm_ban_apply env a raw_mask pat caps mems (s2\<lparr>md_mask_pos := pos\<rparr>)))))"

text \<open>
  The common beginning of \<open>chm_op\<close> and \<open>chm_voice\<close>, up to the count of parameters: the
  target and its membership, or an early return with the state.
\<close>

definition chm_target ::
  "mode_env \<Rightarrow> chm_args \<Rightarrow> mode_state \<Rightarrow> (cid \<times> mid) option \<times> mode_state" where
  "chm_target env a s =
     (if ca_alevel a \<noteq> CHFL_CHANOP then (None, refuse_noops a s)
      else if ca_dir a = MODE_QUERY \<or> length (ca_parv a) \<le> md_parn s then (None, s)
      else
        (let opnick = ca_parv a ! md_parn s; s1 = s\<lparr>md_parn := md_parn s + 1\<rparr>
         in if opnick = [] then (None, emit (Numeric (ca_source a) ''ERR_NOSUCHNICK'' [''*'']) s1)
            else
              (case find_chasing env (md_world s1) (ca_source a) opnick of
                 (None, out) \<Rightarrow> (None, s1\<lparr>md_out := md_out s1 @ out\<rparr>)
               | (Some targ_p, out) \<Rightarrow>
                   (let s2 = s1\<lparr>md_out := md_out s1 @ out\<rparr>
                    in case find_channel_membership (md_world s2) (ca_chptr a) targ_p of
                         None \<Rightarrow>
                           (None, set_error SM_ERR_NOTONCHANNEL
                              (if \<not> has_flag (md_errors s2) SM_ERR_NOTONCHANNEL \<and>
                                  MyClient (md_client s2 (ca_source a))
                               then emit (Numeric (ca_source a) ''ERR_USERNOTINCHANNEL''
                                      [opnick, ch_chname (md_chan s2 (ca_chptr a))]) s2
                               else s2))
                       | Some mstptr \<Rightarrow>
                           (case over_limit a MAXMODEPARAMS s2 of (over, s3) \<Rightarrow>
                              if over then (None, s3) else (Some (targ_p, mstptr), s3))))))"

definition member_change :: "chm_args \<Rightarrow> char \<Rightarrow> dir \<Rightarrow> client \<Rightarrow> ChModeChange" where
  "member_change a c d targ = (simple_change c d (ArgStr (cl_name targ)))\<lparr>cg_id := Some (cl_id targ)\<rparr>"

definition chm_op :: "mode_env \<Rightarrow> chm_args \<Rightarrow> mode_state \<Rightarrow> fault + mode_state" where
  "chm_op env a s0 =
     (case chm_target env a s0 of
        (None, s) \<Rightarrow> Inr s
      | (Some (targ_p, mstptr), s) \<Rightarrow>
          if ca_dir a = MODE_ADD then
            (if targ_p = ca_source a then Inr s
             else and_then (push_change (member_change a (ca_c a) MODE_ADD (md_client s targ_p)) s)
               (\<lambda>s1. Inr (on_world (\<lambda>w.
                  upd_mem mstptr (\<lambda>ms. ms\<lparr>ms_flags := (ms_flags ms OR CHFL_CHANOP) AND NOT CHFL_DEOPPED\<rparr>)
                    (if \<not> is_chanop (mem_of w mstptr)
                     then upd_chan (ca_chptr a) (\<lambda>ch. ch\<lparr>ch_noops := remove1 mstptr (ch_noops ch),
                            ch_ops := mstptr # ch_ops ch\<rparr>) w
                     else w)) s1)))
          else and_then (push_change (member_change a (ca_c a) MODE_DEL (md_client s targ_p)) s)
            (\<lambda>s1. Inr (on_world (\<lambda>w.
               upd_mem mstptr (\<lambda>ms. ms\<lparr>ms_flags := ms_flags ms AND NOT CHFL_CHANOP\<rparr>)
                 (if is_chanop (mem_of w mstptr)
                  then upd_chan (ca_chptr a) (\<lambda>ch. ch\<lparr>ch_ops := remove1 mstptr (ch_ops ch),
                         ch_noops := mstptr # ch_noops ch\<rparr>) w
                  else w)) s1)))"

definition chm_voice :: "mode_env \<Rightarrow> chm_args \<Rightarrow> mode_state \<Rightarrow> fault + mode_state" where
  "chm_voice env a s0 =
     (case chm_target env a s0 of
        (None, s) \<Rightarrow> Inr s
      | (Some (targ_p, mstptr), s) \<Rightarrow>
          if ca_dir a = MODE_ADD then
            and_then (push_change (member_change a (ca_c a) MODE_ADD (md_client s targ_p)) s)
              (\<lambda>s1. Inr (on_world (upd_mem mstptr (\<lambda>ms. ms\<lparr>ms_flags := ms_flags ms OR CHFL_VOICE\<rparr>)) s1))
          else
            and_then (push_change (member_change a (CHR ''v'') MODE_DEL (md_client s targ_p)) s)
              (\<lambda>s1. Inr (on_world (upd_mem mstptr (\<lambda>ms. ms\<lparr>ms_flags := ms_flags ms AND NOT CHFL_VOICE\<rparr>)) s1)))"

definition chm_limit :: "mode_env \<Rightarrow> chm_args \<Rightarrow> mode_state \<Rightarrow> fault + mode_state" where
  "chm_limit env a s =
     (if ca_alevel a \<noteq> CHFL_CHANOP then Inr (refuse_noops a s)
      else if ca_dir a = MODE_QUERY then Inr s
      else if ca_dir a = MODE_ADD \<and> length (ca_parv a) > md_parn s then
        (let lstr = ca_parv a ! md_parn s; s1 = s\<lparr>md_parn := md_parn s + 1\<rparr>
         in if lstr = [] \<or> atoi lstr \<le> 0 then Inr s1
            else and_then (push_change (simple_change (ca_c a) MODE_ADD ArgLimit)
                     (s1\<lparr>md_limitstr := string_of_int (atoi lstr)\<rparr>))
                   (\<lambda>s2. Inr (on_world (upd_chan (ca_chptr a) (\<lambda>ch. ch\<lparr>ch_limit := atoi lstr\<rparr>)) s2)))
      else if ca_dir a = MODE_DEL then
        (if ch_limit (md_chan s (ca_chptr a)) = 0 then Inr s
         else push_change (simple_change (ca_c a) MODE_DEL ArgNull)
                (on_world (upd_chan (ca_chptr a) (\<lambda>ch. ch\<lparr>ch_limit := 0\<rparr>)) s))
      else Inr s)"

text \<open>The search for earlier \<open>+k\<close> changes, whose argument the deletion would empty.\<close>

definition splat_keys :: "ChModeChange list \<Rightarrow> ChModeChange list" where
  "splat_keys gs =
     map (\<lambda>g. if cg_letter g = CHR ''k'' \<and> cg_dir g = MODE_ADD then g\<lparr>cg_arg := ArgStr ''*''\<rparr> else g) gs"

definition chm_key :: "mode_env \<Rightarrow> chm_args \<Rightarrow> mode_state \<Rightarrow> fault + mode_state" where
  "chm_key env a s =
     (if ca_alevel a \<noteq> CHFL_CHANOP then Inr (refuse_noops a s)
      else if ca_dir a = MODE_QUERY then Inr s
      else if ca_dir a = MODE_ADD \<and> length (ca_parv a) > md_parn s then
        (let raw = ca_parv a ! md_parn s; s1 = s\<lparr>md_parn := md_parn s + 1\<rparr>;
             key = (if MyClient (md_client s1 (ca_source a)) then fix_key raw else fix_key_remote raw)
         in if key = [] then Inr s1
            else push_change (simple_change (ca_c a) MODE_ADD ArgKey)
                   (on_world (upd_chan (ca_chptr a) (\<lambda>ch. ch\<lparr>ch_key := strlcpy key KEYLEN\<rparr>)) s1))
      else if ca_dir a = MODE_DEL then
        (let s1 = (if length (ca_parv a) > md_parn s then s\<lparr>md_parn := md_parn s + 1\<rparr> else s)
         in if ch_key (md_chan s1 (ca_chptr a)) = [] then Inr s1
            else push_change (simple_change (ca_c a) MODE_DEL (ArgStr ''*''))
                   (on_world (upd_chan (ca_chptr a) (\<lambda>ch. ch\<lparr>ch_key := []\<rparr>))
                     (s1\<lparr>md_changes := splat_keys (md_changes s1)\<rparr>)))
      else Inr s)"

section \<open>Dispatch\<close>

datatype chm_func = F_nosuch | F_simple | F_ban | F_op | F_voice | F_limit | F_key | F_sslonly

text \<open>\<open>ModeTable\<close>: position 0, then \<open>A\<close> to \<open>z\<close>.\<close>

definition ModeTable :: "(chm_func \<times> 32 word) list" where
  "ModeTable =
     [(F_nosuch, 0),
      (F_nosuch, 0), (F_nosuch, 0), (F_nosuch, 0), (F_nosuch, 0), (F_nosuch, 0), (F_nosuch, 0),
      (F_nosuch, 0), (F_nosuch, 0), (F_ban, CHFL_INVEX), (F_nosuch, 0), (F_nosuch, 0), (F_nosuch, 0),
      (F_nosuch, 0), (F_nosuch, 0), (F_nosuch, 0), (F_nosuch, 0), (F_nosuch, 0), (F_nosuch, 0),
      (F_sslonly, MODE_SSLONLY), (F_nosuch, 0), (F_nosuch, 0), (F_nosuch, 0), (F_nosuch, 0),
      (F_nosuch, 0), (F_nosuch, 0), (F_nosuch, 0),
      (F_nosuch, 0), (F_nosuch, 0), (F_nosuch, 0), (F_nosuch, 0), (F_nosuch, 0), (F_nosuch, 0),
      (F_nosuch, 0), (F_ban, CHFL_BAN), (F_nosuch, 0), (F_nosuch, 0), (F_ban, CHFL_EXCEPTION),
      (F_nosuch, 0), (F_nosuch, 0), (F_nosuch, 0), (F_simple, MODE_INVITEONLY), (F_nosuch, 0),
      (F_key, 0), (F_limit, 0), (F_simple, MODE_MODERATED), (F_simple, MODE_NOPRIVMSGS), (F_op, 0),
      (F_simple, MODE_PRIVATE), (F_nosuch, 0), (F_nosuch, 0), (F_simple, MODE_SECRET),
      (F_simple, MODE_TOPICLIMIT), (F_nosuch, 0), (F_voice, 0), (F_nosuch, 0), (F_nosuch, 0),
      (F_nosuch, 0), (F_nosuch, 0)]"

definition table_position :: "char \<Rightarrow> nat" where
  "table_position c =
     (let n = of_char c :: nat in if n < 65 \<or> n > 122 then 0 else n - 65 + 1)"

definition run_func :: "chm_func \<Rightarrow> mode_env \<Rightarrow> chm_args \<Rightarrow> mode_state \<Rightarrow> fault + mode_state" where
  "run_func f =
     (case f of
        F_nosuch \<Rightarrow> chm_nosuch | F_simple \<Rightarrow> chm_simple | F_ban \<Rightarrow> chm_ban | F_op \<Rightarrow> chm_op
      | F_voice \<Rightarrow> chm_voice | F_limit \<Rightarrow> chm_limit | F_key \<Rightarrow> chm_key | F_sslonly \<Rightarrow> chm_sslonly)"

fun mode_letters_loop ::
  "mode_env \<Rightarrow> chm_args \<Rightarrow> dir \<Rightarrow> cstring \<Rightarrow> mode_state \<Rightarrow> fault + mode_state" where
  "mode_letters_loop env a d [] s = Inr s"
| "mode_letters_loop env a d (c # ml) s =
     (if c = CHR ''+'' then mode_letters_loop env a MODE_ADD ml s
      else if c = CHR ''-'' then mode_letters_loop env a MODE_DEL ml s
      else if c = CHR ''='' then mode_letters_loop env a MODE_QUERY ml s
      else
        (case ModeTable ! table_position c of (f, t) \<Rightarrow>
           and_then (run_func f env (a\<lparr>ca_dir := d, ca_c := c, ca_type := t\<rparr>) s)
             (mode_letters_loop env a d ml)))"

definition get_channel_access :: "client \<Rightarrow> membership option \<Rightarrow> 32 word" where
  "get_channel_access source_p msptr =
     (if \<not> MyClient source_p \<or> (case msptr of Some ms \<Rightarrow> is_chanop ms | None \<Rightarrow> False)
      then CHFL_CHANOP else CHFL_PEON)"

section \<open>Telling the channel and the servers\<close>

text \<open>
  \<open>modebuf\<close> up to the cursor, \<open>parabuf\<close> up to its cursor, the number of parameters in it,
  the last direction written, the lines sent so far. \<open>put_change\<close> writes a change to the two
  buffers of \<open>IRCD_BUFSIZE\<close> bytes.
\<close>

record line_state =
  ln_mode :: cstring
  ln_para :: cstring
  ln_count :: nat
  ln_dir :: dir
  ln_out :: "msg list"

definition resolve_arg :: "cstring \<Rightarrow> cstring \<Rightarrow> chm_arg \<Rightarrow> cstring option" where
  "resolve_arg key limitstr arg =
     (case arg of ArgNull \<Rightarrow> None | ArgStr x \<Rightarrow> Some x | ArgKey \<Rightarrow> Some key | ArgLimit \<Rightarrow> Some limitstr)"

definition put_change :: "char \<Rightarrow> dir \<Rightarrow> cstring option \<Rightarrow> line_state \<Rightarrow> fault + line_state" where
  "put_change letter d arg l =
     (let m = ln_mode l @ (if ln_dir l \<noteq> d then [if d = MODE_ADD then CHR ''+'' else CHR ''-''] else []) @ [letter];
          p = (case arg of Some x \<Rightarrow> ln_para l @ x @ '' '' | None \<Rightarrow> ln_para l)
      in if length m > IRCD_BUFSIZE \<or> length p \<ge> IRCD_BUFSIZE then Inl BufOverflow
         else Inr (l\<lparr>ln_mode := m, ln_para := p, ln_dir := d,
                ln_count := (if arg = None then ln_count l else ln_count l + 1)\<rparr>))"

text \<open>Writing the terminator of \<open>modebuf\<close>.\<close>

definition end_mode :: "line_state \<Rightarrow> fault + line_state" where
  "end_mode l = (if length (ln_mode l) \<ge> IRCD_BUFSIZE then Inl BufOverflow else Inr l)"

definition fresh_line :: "cstring \<Rightarrow> msg list \<Rightarrow> line_state" where
  "fresh_line pre out = \<lparr>ln_mode = pre, ln_para = [], ln_count = 0, ln_dir = MODE_QUERY, ln_out = out\<rparr>"

definition line_full :: "cstring option \<Rightarrow> line_state \<Rightarrow> bool" where
  "line_full arg l =
     (case arg of
        None \<Rightarrow> False
      | Some x \<Rightarrow> ln_count l = MAXMODEPARAMSSERV \<or>
          length (ln_mode l) + length (ln_para l) + length x + 4 > IRCD_BUFSIZE - 3)"

definition arg_too_long :: "cstring option \<Rightarrow> bool" where
  "arg_too_long arg = (case arg of None \<Rightarrow> False | Some x \<Rightarrow> length x > MODEBUFLEN - 5)"

text \<open>The body of the loop over the changes in \<open>set_channel_mode\<close>.\<close>

definition local_change ::
  "32 word \<Rightarrow> chid \<Rightarrow> cstring \<Rightarrow> (chm_arg \<Rightarrow> cstring option) \<Rightarrow> ChModeChange \<Rightarrow> line_state \<Rightarrow> fault + line_state" where
  "local_change flags chptr pre res g l =
     (let arg = res (cg_arg g)
      in if cg_letter g = NUL \<or> cg_mems g \<noteq> flags \<or> arg_too_long arg then Inr l
         else if line_full arg l then
           and_then (end_mode l) (\<lambda>l.
             if length (ln_mode l) > length pre then
               put_change (cg_letter g) (cg_dir g) arg
                 (fresh_line pre (ln_out l @ [ToChannel flags chptr (ln_mode l @ '' '' @ ln_para l)]))
             else Inr l)
         else put_change (cg_letter g) (cg_dir g) arg l)"

fun local_changes ::
  "32 word \<Rightarrow> chid \<Rightarrow> cstring \<Rightarrow> (chm_arg \<Rightarrow> cstring option) \<Rightarrow> ChModeChange list \<Rightarrow> line_state \<Rightarrow> fault + line_state" where
  "local_changes flags chptr pre res [] l = Inr l"
| "local_changes flags chptr pre res (g # gs) l =
     and_then (local_change flags chptr pre res g l) (local_changes flags chptr pre res gs)"

text \<open>Dropping the final space of \<open>parabuf\<close>.\<close>

definition trim_para :: "cstring \<Rightarrow> cstring" where
  "trim_para p = (if p \<noteq> [] \<and> last p = SPC then butlast p else p)"

definition send_local ::
  "32 word \<Rightarrow> chid \<Rightarrow> cstring \<Rightarrow> (chm_arg \<Rightarrow> cstring option) \<Rightarrow> ChModeChange list \<Rightarrow> fault + msg list" where
  "send_local flags chptr pre res gs =
     and_then (local_changes flags chptr pre res gs (fresh_line pre [])) (\<lambda>l.
       and_then (end_mode l) (\<lambda>l.
         Inr (if length (ln_mode l) > length pre
              then ln_out l @ [ToChannel flags chptr (ln_mode l @ '' '' @ trim_para (ln_para l))]
              else ln_out l)))"

text \<open>
  \<open>send_cap_mode_changes\<close> (\<open>src/channel.c\<close>): the same for one combination of capabilities;
  the variable \<open>nc\<close> counts the changes on the line.
\<close>

definition server_change ::
  "cid \<Rightarrow> ChCapCombo \<Rightarrow> cstring \<Rightarrow> (chm_arg \<Rightarrow> cstring option) \<Rightarrow> ChModeChange \<Rightarrow>
   nat \<times> line_state \<Rightarrow> fault + nat \<times> line_state" where
  "server_change client_p cc pre res g nl =
     (case nl of (nc, l) \<Rightarrow>
        let arg = (if has_flag (cc_yes cc) CAP_TS6 \<and> cg_id g \<noteq> None \<and> cg_id g \<noteq> Some [] then cg_id g
                   else res (cg_arg g))
        in if cg_letter g = NUL \<or> cc_yes cc AND cg_caps g \<noteq> cg_caps g \<or>
              cc_no cc AND cg_nocaps g \<noteq> cg_nocaps g \<or> arg_too_long arg then Inr (nc, l)
           else
             (case (if line_full arg l
                    then (0, fresh_line pre (ln_out l @ (if nc \<noteq> 0
                      then [ToServer client_p (cc_yes cc) (cc_no cc) (ln_mode l @ '' '' @ ln_para l)] else [])))
                    else (nc, l)) of (nc1, l1) \<Rightarrow>
                and_then (put_change (cg_letter g) (cg_dir g) arg l1) (\<lambda>l2.
                  and_then (end_mode l2) (\<lambda>l3. Inr (nc1 + 1, l3)))))"

fun server_changes ::
  "cid \<Rightarrow> ChCapCombo \<Rightarrow> cstring \<Rightarrow> (chm_arg \<Rightarrow> cstring option) \<Rightarrow> ChModeChange list \<Rightarrow>
   nat \<times> line_state \<Rightarrow> fault + nat \<times> line_state" where
  "server_changes client_p cc pre res [] nl = Inr nl"
| "server_changes client_p cc pre res (g # gs) nl =
     and_then (server_change client_p cc pre res g nl) (server_changes client_p cc pre res gs)"

definition server_prefix :: "ChCapCombo \<Rightarrow> client \<Rightarrow> channel \<Rightarrow> cstring" where
  "server_prefix cc source ch =
     (if has_flag (cc_yes cc) CAP_TS6
      then '':'' @ use_id source @ '' TMODE '' @ string_of_int (ch_channelts ch) @ '' '' @ ch_chname ch @ '' ''
      else '':'' @ cl_name source @ '' MODE '' @ ch_chname ch @ '' '')"

fun send_cap_mode_changes ::
  "cid \<Rightarrow> client \<Rightarrow> channel \<Rightarrow> (chm_arg \<Rightarrow> cstring option) \<Rightarrow> ChModeChange list \<Rightarrow> ChCapCombo list \<Rightarrow>
   fault + msg list" where
  "send_cap_mode_changes client_p source ch res gs [] = Inr []"
| "send_cap_mode_changes client_p source ch res gs (cc # ccs) =
     (if cc_count cc = 0 then send_cap_mode_changes client_p source ch res gs ccs
      else
        (let pre = server_prefix cc source ch
         in and_then (server_changes client_p cc pre res gs (0, fresh_line pre [])) (\<lambda>(nc, l).
              and_then (send_cap_mode_changes client_p source ch res gs ccs) (\<lambda>rest.
                Inr (ln_out l @
                  (if nc \<noteq> 0 then [ToServer client_p (cc_yes cc) (cc_no cc)
                                 (ln_mode l @ '' '' @ trim_para (ln_para l))] else []) @ rest)))))"

section \<open>The command\<close>

definition mode_start :: "world \<Rightarrow> mode_state" where
  "mode_start w = \<lparr>md_world = w, md_changes = [], md_limit = 0, md_mask_pos = 0, md_limitstr = [],
     md_parn = 1, md_errors = 0, md_out = []\<rparr>"

definition local_prefix :: "client \<Rightarrow> channel \<Rightarrow> cstring" where
  "local_prefix source ch =
     (if IsServer source then '':'' @ cl_name source @ '' MODE '' @ ch_chname ch @ '' ''
      else '':'' @ cl_name source @ ''!'' @ cl_username source @ ''@'' @ cl_host source @ '' MODE '' @
           ch_chname ch @ '' '')"

definition mode_args :: "cid \<Rightarrow> chid \<Rightarrow> mid option \<Rightarrow> cstring list \<Rightarrow> world \<Rightarrow> chm_args" where
  "mode_args source_p chptr msptr parv w =
     \<lparr>ca_source = source_p, ca_chptr = chptr,
      ca_alevel = get_channel_access (client_of w source_p) (map_option (mem_of w) msptr),
      ca_parv = parv, ca_dir = MODE_ADD, ca_c = NUL, ca_type = 0\<rparr>"

definition set_channel_mode ::
  "mode_env \<Rightarrow> cid \<Rightarrow> cid \<Rightarrow> chid \<Rightarrow> mid option \<Rightarrow> cstring list \<Rightarrow> world \<Rightarrow> fault + msg list \<times> world" where
  "set_channel_mode env client_p source_p chptr msptr parv w =
     and_then (mode_letters_loop env (mode_args source_p chptr msptr parv w) MODE_ADD (parv ! 0) (mode_start w))
       (\<lambda>s. if md_changes s = [] then Inr (md_out s, md_world s)
            else
              (let source = md_client s source_p; ch = md_chan s chptr; gs = md_changes s;
                   res = resolve_arg (ch_key ch) (md_limitstr s); pre = local_prefix source ch
               in if length pre \<ge> IRCD_BUFSIZE then Inl BufOverflow
                  else
                    and_then (send_local ALL_MEMBERS chptr pre res gs) (\<lambda>o1.
                      and_then (send_local ONLY_CHANOPS chptr pre res gs) (\<lambda>o2.
                        and_then
                          (if MyClient source \<or> me_servers env > 1
                           then send_cap_mode_changes client_p source ch res gs (me_combos env) else Inr [])
                          (\<lambda>o3. Inr (md_out s @ o1 @ o2 @ o3, md_world s))))))"

text \<open>
  The handlers of MODE and TMODE. \<open>ToUserMode\<close>: the name is not a channel's and the command
  is passed to \<open>user_mode\<close>.
\<close>

datatype mode_result = ToUserMode | Done "msg list" world | Crash fault

definition mode_result_of :: "fault + msg list \<times> world \<Rightarrow> mode_result" where
  "mode_result_of r = (case r of Inl e \<Rightarrow> Crash e | Inr (out, w) \<Rightarrow> Done out w)"

definition deopped :: "world \<Rightarrow> mid option \<Rightarrow> bool" where
  "deopped w msptr = (case msptr of Some m \<Rightarrow> is_deop (mem_of w m) | None \<Rightarrow> False)"

text \<open>\<open>flood_endgrace\<close> (\<open>src/packet.c\<close>).\<close>

definition MAX_FLOOD :: nat where "MAX_FLOOD = 5"

definition flood_endgrace :: "cid \<Rightarrow> world \<Rightarrow> world" where
  "flood_endgrace c =
     upd_client c (\<lambda>c. c\<lparr>cl_flood_done := True, cl_allow_read := MAX_FLOOD, cl_sent_parsed := 0\<rparr>)"

definition m_mode :: "mode_env \<Rightarrow> cid \<Rightarrow> cid \<Rightarrow> cstring list \<Rightarrow> world \<Rightarrow> mode_result" where
  "m_mode env client_p source_p parv w =
     (let operspy = (cl_operspy (client_of w source_p) \<and> char_at (parv ! 1) 0 = CHR ''!'');
          dest = (if operspy then tl (parv ! 1) else parv ! 1)
      in if operspy \<and> dest = [] then Done [Numeric source_p ''ERR_NEEDMOREPARAMS'' [''MODE'']] w
         else if \<not> IsChanPrefix (char_at dest 0) then ToUserMode
         else if \<not> check_channel_name dest then Done [Numeric source_p ''ERR_BADCHANNAME'' [parv ! 1]] w
         else
           (case find_channel w dest of
              None \<Rightarrow> Done [Numeric source_p ''ERR_NOSUCHCHANNEL'' [parv ! 1]] w
            | Some chptr \<Rightarrow>
                if length parv < 3 then
                  Done ((if operspy then [OperSpy source_p ''MODE'' (ch_chname (chan_of w chptr))] else []) @
                    [Numeric source_p ''RPL_CHANNELMODEIS''
                       [parv ! 1, channel_modes w chptr (if operspy then me else source_p)],
                     Numeric source_p ''RPL_CREATIONTIME''
                       [parv ! 1, string_of_int (ch_channelts (chan_of w chptr))]]) w
                else
                  (let msptr = find_channel_membership w chptr source_p
                   in if deopped w msptr then Done [] w
                      else
                        (let grace = (MyClient (client_of w source_p) \<and>
                               \<not> cl_flood_done (client_of w source_p) \<and>
                               \<not> (length parv = 3 \<and> parv ! 2 = ''b''));
                             w1 = (if grace then flood_endgrace source_p w else w)
                         in mode_result_of
                              (set_channel_mode env client_p source_p chptr msptr (drop 2 parv) w1)))))"

definition ms_mode :: "mode_env \<Rightarrow> cid \<Rightarrow> cid \<Rightarrow> cstring list \<Rightarrow> world \<Rightarrow> mode_result" where
  "ms_mode env client_p source_p parv w =
     (case find_channel w (parv ! 1) of
        None \<Rightarrow> Done [Numeric source_p ''ERR_NOSUCHCHANNEL'' [parv ! 1]] w
      | Some chptr \<Rightarrow> mode_result_of (set_channel_mode env client_p source_p chptr None (drop 2 parv) w))"

definition ms_tmode :: "mode_env \<Rightarrow> cid \<Rightarrow> cid \<Rightarrow> cstring list \<Rightarrow> world \<Rightarrow> mode_result" where
  "ms_tmode env client_p source_p parv w =
     (if \<not> IsChanPrefix (char_at (parv ! 2) 0) \<or> \<not> check_channel_name (parv ! 2)
      then Done [Numeric source_p ''ERR_BADCHANNAME'' [parv ! 2]] w
      else
        (case find_channel w (parv ! 2) of
           None \<Rightarrow> Done [Numeric source_p ''ERR_NOSUCHCHANNEL'' [parv ! 2]] w
         | Some chptr \<Rightarrow>
             if strtol10 (parv ! 1) > ch_channelts (chan_of w chptr) then Done [] w
             else if IsServer (client_of w source_p)
             then mode_result_of (set_channel_mode env client_p source_p chptr None (drop 3 parv) w)
             else
               (let msptr = find_channel_membership w chptr source_p
                in if deopped w msptr then Done [] w
                   else mode_result_of
                          (set_channel_mode env client_p source_p chptr msptr (drop 3 parv) w))))"

section \<open>BMASK\<close>

text \<open>The masks of the last parameter, separated by spaces.\<close>

function bmask_words :: "cstring \<Rightarrow> cstring list" where
  "bmask_words s =
     (if s = [] then []
      else case strchr_cut SPC s of
             None \<Rightarrow> [s]
           | Some (a, b) \<Rightarrow> a # bmask_words (dropWhile (\<lambda>c. c = SPC) b))"
  by pat_completeness auto
termination
  by (relation "measure length")
     (auto dest!: strchr_cut_SomeD intro: le_less_trans [OF length_dropWhile_le])

declare bmask_words.simps [simp del]

record bmask_state =
  bm_world :: world
  bm_letters :: cstring
  bm_para :: cstring
  bm_out :: "msg list"

definition bmask_flush ::
  "cid \<Rightarrow> chid \<Rightarrow> 32 word \<Rightarrow> 32 word \<Rightarrow> cstring \<Rightarrow> bmask_state \<Rightarrow> fault + bmask_state" where
  "bmask_flush client_p chptr mems needcap pre s =
     (if bm_para s = [] \<or> length (pre @ bm_letters s) \<ge> IRCD_BUFSIZE then Inl BufOverflow
      else
        (let line = pre @ bm_letters s @ '' '' @ butlast (bm_para s)
         in Inr (s\<lparr>bm_letters := [], bm_para := [],
                bm_out := bm_out s @ [ToChannel mems chptr line, ToServer client_p needcap CAP_TS6 line]\<rparr>)))"

definition bmask_put :: "char \<Rightarrow> cstring \<Rightarrow> cstring \<Rightarrow> bmask_state \<Rightarrow> fault + bmask_state" where
  "bmask_put letter pre ban s =
     (if length (pre @ bm_letters s) \<ge> IRCD_BUFSIZE \<or> length (bm_para s @ ban @ '' '') \<ge> IRCD_BUFSIZE
      then Inl BufOverflow
      else Inr (s\<lparr>bm_letters := bm_letters s @ [letter], bm_para := bm_para s @ ban @ '' ''\<rparr>))"

fun bmask_loop ::
  "config \<Rightarrow> cid \<Rightarrow> cid \<Rightarrow> chid \<Rightarrow> char \<Rightarrow> 32 word \<Rightarrow> 32 word \<Rightarrow> 32 word \<Rightarrow> cstring \<Rightarrow> cstring list \<Rightarrow>
   bmask_state \<Rightarrow> fault + bmask_state" where
  "bmask_loop cfg client_p source_p chptr letter t mems needcap pre [] s = Inr s"
| "bmask_loop cfg client_p source_p chptr letter t mems needcap pre (ban # bans) s =
     (let next = bmask_loop cfg client_p source_p chptr letter t mems needcap pre bans
      in if char_at ban 0 = CHR '':'' then next s
         else if length ban > MODEBUFLEN then Inr s
         else
           (case add_id cfg source_p chptr ban t (bm_world s) of (ok, out, w) \<Rightarrow>
              (let s1 = s\<lparr>bm_world := w, bm_out := bm_out s @ out\<rparr>
               in if \<not> ok then next s1
                  else
                    and_then
                      (if length pre + MAXMODEPARAMS + length (bm_para s1) + length ban > IRCD_BUFSIZE - 5 \<or>
                          length (bm_letters s1) \<ge> MAXMODEPARAMS
                       then bmask_flush client_p chptr mems needcap pre s1 else Inr s1)
                      (\<lambda>s2. and_then (bmask_put letter pre ban s2) next))))"

definition bmask_kind :: "char \<Rightarrow> (32 word \<times> 32 word \<times> 32 word) option" where
  "bmask_kind c =
     (if c = CHR ''b'' then Some (CHFL_BAN, 0, ALL_MEMBERS)
      else if c = CHR ''e'' then Some (CHFL_EXCEPTION, CAP_EX, ONLY_CHANOPS)
      else if c = CHR ''I'' then Some (CHFL_INVEX, CAP_IE, ONLY_CHANOPS)
      else None)"

definition ms_bmask :: "mode_env \<Rightarrow> cid \<Rightarrow> cid \<Rightarrow> cstring list \<Rightarrow> world \<Rightarrow> mode_result" where
  "ms_bmask env client_p source_p parv w =
     (if \<not> IsChanPrefix (char_at (parv ! 2) 0) \<or> \<not> check_channel_name (parv ! 2) then Done [] w
      else
        (case find_channel w (parv ! 2) of
           None \<Rightarrow> Done [] w
         | Some chptr \<Rightarrow>
             if strtol10 (parv ! 1) > ch_channelts (chan_of w chptr) then Done [] w
             else
               (case bmask_kind (char_at (parv ! 3) 0) of
                  None \<Rightarrow> Done [] w
                | Some (t, needcap, mems) \<Rightarrow>
                    (let source = client_of w source_p; ch = chan_of w chptr;
                         pre = '':'' @ cl_name source @ '' MODE '' @ ch_chname ch @ '' +'';
                         words = bmask_words (dropWhile (\<lambda>c. c = SPC) (parv ! 4));
                         tail = ToServer client_p (CAP_TS6 OR needcap) 0
                           ('':'' @ cl_id source @ '' BMASK '' @ string_of_int (ch_channelts ch) @ '' '' @
                            ch_chname ch @ '' '' @ parv ! 3 @ '' :'' @ parv ! 4)
                     in case and_then
                          (bmask_loop (me_cfg env) client_p source_p chptr (char_at (parv ! 3) 0) t mems needcap
                             pre words \<lparr>bm_world = w, bm_letters = [], bm_para = [], bm_out = []\<rparr>)
                          (\<lambda>s. if bm_letters s = [] then Inr s
                               else bmask_flush client_p chptr mems needcap pre s) of
                          Inl e \<Rightarrow> Crash e
                        | Inr s \<Rightarrow> Done (bm_out s @ [tail]) (bm_world s)))))"

end
