(* ===== verification/ModeProps.thy ===== *)
theory ModeProps
  imports Mode
begin

unbundle bit_operations_syntax

text \<open>
  The contract that every mode handler keeps, as a locale interpreted on the handlers of
  \<open>modules/core/m_mode.c\<close>: a client without operator status changes nothing, a handler
  keeps the invariant of the channels, and touches one channel only.
\<close>

section \<open>Changing operator status\<close>

definition move_op :: "bool \<Rightarrow> mid \<Rightarrow> channel \<Rightarrow> channel" where
  "move_op up m ch =
     (if up then ch\<lparr>ch_noops := remove1 m (ch_noops ch), ch_ops := m # ch_ops ch\<rparr>
      else ch\<lparr>ch_ops := remove1 m (ch_ops ch), ch_noops := m # ch_noops ch\<rparr>)"

lemma move_op_world_inv:
  assumes inv: "world_inv w" and ms: "w_mems w m = Some ms" and c: "w_channels w (ms_chptr ms) = Some c"
    and f: "ms_chptr (f ms) = ms_chptr ms" "ms_client_p (f ms) = ms_client_p ms"
      "is_chanop (f ms) = up" "is_chanop ms = (\<not> up)"
  shows "world_inv (upd_mem m f (upd_chan (ms_chptr ms) (move_op up m) w))" (is "world_inv ?w")
proof -
  let ?ch = "ms_chptr ms"
  define w' where "w' = ?w"
  have i: "mem_inv w" "name_inv w" "invite_inv w" using inv by (simp_all add: world_inv_def)
  have sel: "w_mems w' = (w_mems w)(m \<mapsto> f ms)" "w_channels w' = (w_channels w)(?ch \<mapsto> move_op up m c)"
    "w_clients w' = w_clients w" "w_next w' = w_next w" "w_global w' = w_global w" "w_hash w' = w_hash w"
    using ms c by (simp_all add: w'_def mem_of_def chan_of_def)
  have whr: "mems_where w' P = (if P (f ms) then insert m (mems_where w P) else mems_where w P - {m})" for P
    using sel(1) by (auto simp: mems_where_def)
  have m: "m \<in> mems_where w P \<longleftrightarrow> P ms" for P using ms by (auto simp: mems_where_def)
  have lists: "chan_lists_ok w ?ch c" using i(1) c by (simp add: mem_inv_def)
  have "chan_lists_ok w' x d" if x: "w_channels w' x = Some d" for x d
  proof (cases "x = ?ch")
    case True
    then have d: "d = move_op up m c" using x sel(2) by simp
    show ?thesis
      using lists f unfolding d True
      by (cases up) (auto simp: sel(3) chan_lists_ok_def whr move_op_def indexes_def m insert_absorb)
  next
    case False
    then have "chan_lists_ok w x d" using x i(1) sel(2) by (simp add: mem_inv_def)
    then show ?thesis using False f by (simp add: chan_lists_ok_def whr sel(3) m)
  qed
  moreover have "user_list_ok w' x" for x
    using i(1) f by (auto simp: mem_inv_def user_list_ok_def whr sel(3) indexes_def m insert_absorb)
  moreover have "mem_ok w' k" if jk: "w_mems w' j = Some k" for j k
  proof -
    obtain k0 where "w_mems w (if j = m then m else j) = Some k0" "ms_chptr k = ms_chptr k0" "ms_client_p k = ms_client_p k0"
      using jk ms f(1,2) by (cases "j = m") (auto simp: sel(1))
    moreover from this(1) have "mem_ok w k0" using i(1) unfolding mem_inv_def by blast
    ultimately show ?thesis by (simp add: mem_ok_def sel(2,3))
  qed
  moreover have "one_membership w'"
    using i(1) ms f(1,2) unfolding mem_inv_def one_membership_def sel(1) by (auto split: if_splits)
  moreover have "clients_ok w'" "fresh_ok w'"
    using i(1) ms c by (auto simp: mem_inv_def clients_ok_def fresh_ok_def sel)
  moreover have "name_inv w'"
    by (rule name_inv_cong [OF i(2)]) (use c in \<open>auto simp: sel chan_of_def move_op_def\<close>)
  moreover have "invite_inv w'"
    by (rule invite_inv_cong [OF i(3)]) (use c in \<open>auto simp: sel chan_of_def move_op_def\<close>)
  ultimately have "world_inv w'" by (simp add: world_inv_def mem_inv_def)
  then show ?thesis by (simp only: w'_def)
qed

section \<open>The contract of a mode handler\<close>

text \<open>Everything the daemon sent in this step went to the source as a numeric.\<close>

definition only_told :: "cid \<Rightarrow> mode_state \<Rightarrow> mode_state \<Rightarrow> bool" where
  "only_told source s s' =
     (\<exists>ms. md_out s' = md_out s @ ms \<and> (\<forall>m \<in> set ms. \<exists>n args. m = Numeric source n args))"

fun handler_loop ::
  "('f \<Rightarrow> mode_env \<Rightarrow> chm_args \<Rightarrow> mode_state \<Rightarrow> fault + mode_state) \<Rightarrow> (char \<Rightarrow> 'f \<times> 32 word) \<Rightarrow>
   mode_env \<Rightarrow> chm_args \<Rightarrow> dir \<Rightarrow> cstring \<Rightarrow> mode_state \<Rightarrow> fault + mode_state" where
  "handler_loop run table env a d [] s = Inr s"
| "handler_loop run table env a d (c # ml) s =
     (if c = CHR ''+'' then handler_loop run table env a MODE_ADD ml s
      else if c = CHR ''-'' then handler_loop run table env a MODE_DEL ml s
      else if c = CHR ''='' then handler_loop run table env a MODE_QUERY ml s
      else (case table c of (f, t) \<Rightarrow>
        and_then (run f env (a\<lparr>ca_dir := d, ca_c := c, ca_type := t\<rparr>) s) (handler_loop run table env a d ml)))"

lemma and_then_Inr: "and_then r f = Inr s \<longleftrightarrow> (\<exists>a. r = Inr a \<and> f a = Inr s)"
  by (cases r) (simp_all add: and_then_def)

lemma only_told_trans: "only_told c s s' \<Longrightarrow> only_told c s' s'' \<Longrightarrow> only_told c s s''"
  unfolding only_told_def by (metis append.assoc Un_iff set_append)

lemma only_told_refl: "only_told c s s"
  unfolding only_told_def by (metis append.right_neutral empty_iff empty_set)

definition chan_live :: "chid \<Rightarrow> mode_state \<Rightarrow> bool" where
  "chan_live ch s = (w_channels (md_world s) ch \<noteq> None)"

locale mode_handlers =
  fixes run :: "'f \<Rightarrow> mode_env \<Rightarrow> chm_args \<Rightarrow> mode_state \<Rightarrow> fault + mode_state"
  assumes refuses: "ca_alevel a \<noteq> CHFL_CHANOP \<Longrightarrow>
      \<exists>s'. run f env a s = Inr s' \<and> md_world s' = md_world s \<and> md_changes s' = md_changes s \<and>
        only_told (ca_source a) s s'"
    and keeps: "run f env a s = Inr s' \<Longrightarrow> world_inv (md_world s) \<Longrightarrow> chan_live (ca_chptr a) s \<Longrightarrow>
      world_inv (md_world s') \<and> chan_live (ca_chptr a) s'"
    and frame: "run f env a s = Inr s' \<Longrightarrow>
      w_clients (md_world s') = w_clients (md_world s) \<and>
      (\<forall>x. x \<noteq> ca_chptr a \<longrightarrow> w_channels (md_world s') x = w_channels (md_world s) x)"
begin

lemma loop_refuses:
  "ca_alevel a \<noteq> CHFL_CHANOP \<Longrightarrow>
   \<exists>s'. handler_loop run table env a d ml s = Inr s' \<and> md_world s' = md_world s \<and>
     md_changes s' = md_changes s \<and> only_told (ca_source a) s s'"
proof (induction ml arbitrary: d s)
  case Nil
  then show ?case by (simp add: only_told_refl)
next
  case (Cons c ml)
  obtain f t where ft: "table c = (f, t)" by (cases "table c")
  obtain s1 where s1: "run f env (a\<lparr>ca_dir := d, ca_c := c, ca_type := t\<rparr>) s = Inr s1" "md_world s1 = md_world s"
      "md_changes s1 = md_changes s" "only_told (ca_source a) s s1"
    using refuses [of "a\<lparr>ca_dir := d, ca_c := c, ca_type := t\<rparr>" f env s] Cons.prems by auto
  obtain s2 where "handler_loop run table env a d ml s1 = Inr s2" "md_world s2 = md_world s1"
      "md_changes s2 = md_changes s1" "only_told (ca_source a) s1 s2"
    using Cons.IH [OF Cons.prems] by blast
  then have "\<exists>s'. and_then (run f env (a\<lparr>ca_dir := d, ca_c := c, ca_type := t\<rparr>) s)
      (handler_loop run table env a d ml) = Inr s' \<and> md_world s' = md_world s \<and>
      md_changes s' = md_changes s \<and> only_told (ca_source a) s s'"
    using s1 only_told_trans by (auto simp: and_then_def)
  then show ?case using ft Cons.IH [OF Cons.prems] by auto
qed

lemma loop_keeps:
  "handler_loop run table env a d ml s = Inr s' \<Longrightarrow> world_inv (md_world s) \<Longrightarrow> chan_live (ca_chptr a) s \<Longrightarrow>
   world_inv (md_world s') \<and> chan_live (ca_chptr a) s'"
proof (induction ml arbitrary: d s)
  case (Cons c ml)
  obtain f t where ft: "table c = (f, t)" by (cases "table c")
  have *: "world_inv (md_world s') \<and> chan_live (ca_chptr a) s'"
    if "and_then (run f env (a\<lparr>ca_dir := d, ca_c := c, ca_type := t\<rparr>) s) (handler_loop run table env a d ml) = Inr s'"
    using that Cons.IH Cons.prems(2,3) keeps [of f env "a\<lparr>ca_dir := d, ca_c := c, ca_type := t\<rparr>" s]
    by (auto simp: and_then_Inr)
  show ?case using Cons.prems(1) * Cons.IH [OF _ Cons.prems(2,3)] ft by (auto split: if_splits)
qed simp

lemma loop_frame:
  "handler_loop run table env a d ml s = Inr s' \<Longrightarrow>
   w_clients (md_world s') = w_clients (md_world s) \<and>
   (\<forall>x. x \<noteq> ca_chptr a \<longrightarrow> w_channels (md_world s') x = w_channels (md_world s) x)"
proof (induction ml arbitrary: d s)
  case (Cons c ml)
  obtain f t where ft: "table c = (f, t)" by (cases "table c")
  have *: "w_clients (md_world s') = w_clients (md_world s) \<and>
      (\<forall>x. x \<noteq> ca_chptr a \<longrightarrow> w_channels (md_world s') x = w_channels (md_world s) x)"
    if at: "and_then (run f env (a\<lparr>ca_dir := d, ca_c := c, ca_type := t\<rparr>) s) (handler_loop run table env a d ml) = Inr s'"
  proof -
    obtain s1 where r: "run f env (a\<lparr>ca_dir := d, ca_c := c, ca_type := t\<rparr>) s = Inr s1"
        "handler_loop run table env a d ml s1 = Inr s'"
      using at by (auto simp: and_then_Inr)
    show ?thesis using frame [OF r(1)] Cons.IH [OF r(2)] by simp
  qed
  consider "handler_loop run table env a MODE_ADD ml s = Inr s'" | "handler_loop run table env a MODE_DEL ml s = Inr s'"
    | "handler_loop run table env a MODE_QUERY ml s = Inr s'"
    | "and_then (run f env (a\<lparr>ca_dir := d, ca_c := c, ca_type := t\<rparr>) s) (handler_loop run table env a d ml) = Inr s'"
    using Cons.prems ft by (auto split: if_splits)
  then show ?case by cases (rule Cons.IH, assumption | rule *, assumption)+
qed simp

end

lemma mode_letters_loop_handler:
  "mode_letters_loop env a d ml s =
     handler_loop run_func (\<lambda>c. ModeTable ! table_position c) env a d ml s"
  by (induction ml arbitrary: d s) (auto simp: and_then_def split: sum.split prod.split)

section \<open>The handlers keep the contract\<close>

definition sound_step :: "chid \<Rightarrow> world \<Rightarrow> world \<Rightarrow> bool" where
  "sound_step ch w w' =
     (w_clients w' = w_clients w \<and> (\<forall>x. x \<noteq> ch \<longrightarrow> w_channels w' x = w_channels w x) \<and>
      (world_inv w \<longrightarrow> w_channels w ch \<noteq> None \<longrightarrow> world_inv w' \<and> w_channels w' ch \<noteq> None))"

named_theorems step_intros

lemma sound_step_refl [step_intros]: "sound_step ch w w"
  by (simp add: sound_step_def)

lemma sound_step_trans: "sound_step ch w w' \<Longrightarrow> sound_step ch w' w'' \<Longrightarrow> sound_step ch w w''"
  by (simp add: sound_step_def)

lemma sound_step_upd_chan [step_intros]:
  assumes "\<And>c. ch_ops (f c) = ch_ops c \<and> ch_noops (f c) = ch_noops c \<and> ch_locmembers (f c) = ch_locmembers c \<and>
    ch_invites (f c) = ch_invites c \<and> ch_chname (f c) = ch_chname c"
  shows "sound_step ch w (upd_chan ch f w)"
  using assms upd_chan_world_inv [of w ch _ f] by (auto simp: sound_step_def)

lemma ban_list_sel [simp]:
  "ch_ops (set_ban_list t l c) = ch_ops c" "ch_noops (set_ban_list t l c) = ch_noops c"
  "ch_locmembers (set_ban_list t l c) = ch_locmembers c" "ch_invites (set_ban_list t l c) = ch_invites c"
  "ch_chname (set_ban_list t l c) = ch_chname c" "ch_mode (set_ban_list t l c) = ch_mode c"
  "ch_ops (bump_serial t c) = ch_ops c" "ch_noops (bump_serial t c) = ch_noops c"
  "ch_locmembers (bump_serial t c) = ch_locmembers c" "ch_invites (bump_serial t c) = ch_invites c"
  "ch_chname (bump_serial t c) = ch_chname c" "ch_mode (bump_serial t c) = ch_mode c"
  by (simp_all add: set_ban_list_def bump_serial_def)

lemma add_id_sound: "add_id cfg src ch m t w = (ok, out, w') \<Longrightarrow> sound_step ch w w'"
  by (auto simp: add_id_def Let_def intro!: step_intros split: if_splits)

lemma del_id_sound: "del_id ch m t w = (ok, w') \<Longrightarrow> sound_step ch w w'"
  by (auto simp: del_id_def Let_def intro!: step_intros split: if_splits option.splits)

lemma push_change_Inr: "push_change g s = Inr s' \<longleftrightarrow>
    length (md_changes s) < IRCD_BUFSIZE \<and> s' = s\<lparr>md_changes := md_changes s @ [g]\<rparr>"
  by (auto simp: push_change_def)

lemma refuse_noops_sel [simp]:
  "md_world (refuse_noops a s) = md_world s" "md_changes (refuse_noops a s) = md_changes s"
  "md_limit (refuse_noops a s) = md_limit s" "md_mask_pos (refuse_noops a s) = md_mask_pos s"
  "md_parn (refuse_noops a s) = md_parn s"
  by (simp_all add: refuse_noops_def set_error_def emit_def)

lemma refuse_noops_told: "only_told (ca_source a) s (refuse_noops a s)"
  by (auto simp: only_told_def refuse_noops_def set_error_def emit_def)

lemma over_limit_sel:
  "over_limit a n s = (b, s') \<Longrightarrow> md_world s' = md_world s \<and> md_changes s' = md_changes s \<and>
     md_out s' = md_out s \<and> md_parn s' = md_parn s \<and> md_mask_pos s' = md_mask_pos s"
  by (auto simp: over_limit_def split: if_splits)

lemma out_sel [simp]:
  "md_world (emit m s) = md_world s" "md_world (set_error e s) = md_world s"
  "md_changes (emit m s) = md_changes s" "md_changes (set_error e s) = md_changes s"
  "md_limit (emit m s) = md_limit s" "md_limit (set_error e s) = md_limit s"
  "md_world (on_world f s) = f (md_world s)" "md_changes (on_world f s) = md_changes s"
  "md_limit (on_world f s) = md_limit s" "md_world (send_banlist a s) = md_world s"
  "md_changes (send_banlist a s) = md_changes s" "md_limit (send_banlist a s) = md_limit s"
  by (simp_all add: emit_def set_error_def on_world_def send_banlist_def Let_def)

lemma set_mode_bit_sel [simp]:
  "ch_ops (set_mode_bit t d c) = ch_ops c" "ch_noops (set_mode_bit t d c) = ch_noops c"
  "ch_locmembers (set_mode_bit t d c) = ch_locmembers c" "ch_invites (set_mode_bit t d c) = ch_invites c"
  "ch_chname (set_mode_bit t d c) = ch_chname c"
  by (simp_all add: set_mode_bit_def)

lemma chm_target_world:
  "chm_target env a s = (r, s') \<Longrightarrow> md_world s' = md_world s \<and> md_changes s' = md_changes s"
  by (auto simp: chm_target_def Let_def dest: over_limit_sel split: if_splits option.splits prod.splits)

lemma chm_target_member:
  "chm_target env a s = (Some (targ, m), s') \<Longrightarrow>
   find_channel_membership (md_world s) (ca_chptr a) targ = Some m"
  by (auto simp: chm_target_def Let_def split: if_splits option.splits prod.splits)

lemma nosuch_sound: "chm_nosuch env a s = Inr s' \<Longrightarrow> sound_step ch (md_world s) (md_world s')"
  by (auto simp: chm_nosuch_def intro!: step_intros split: if_splits)

lemma simple_sound: "chm_simple env a s = Inr s' \<Longrightarrow> sound_step (ca_chptr a) (md_world s) (md_world s')"
  by (auto simp: chm_simple_def Let_def push_change_Inr intro!: step_intros dest!: over_limit_sel
      split: if_splits prod.splits)

lemma sslonly_sound: "chm_sslonly env a s = Inr s' \<Longrightarrow> sound_step (ca_chptr a) (md_world s) (md_world s')"
  by (auto simp: chm_sslonly_def Let_def push_change_Inr intro!: step_intros split: if_splits)

lemma limit_sound: "chm_limit env a s = Inr s' \<Longrightarrow> sound_step (ca_chptr a) (md_world s) (md_world s')"
  by (auto simp: chm_limit_def Let_def push_change_Inr and_then_Inr intro!: step_intros split: if_splits)

lemma key_sound: "chm_key env a s = Inr s' \<Longrightarrow> sound_step (ca_chptr a) (md_world s) (md_world s')"
  by (auto simp: chm_key_def Let_def push_change_Inr intro!: step_intros split: if_splits)

lemma ban_apply_sound:
  "chm_ban_apply env a raw pat caps mems s = Inr s' \<Longrightarrow> sound_step (ca_chptr a) (md_world s) (md_world s')"
  by (auto simp: chm_ban_apply_def Let_def push_change_Inr intro!: step_intros
      intro: sound_step_trans dest!: add_id_sound del_id_sound split: if_splits prod.splits bool.splits)

lemma ban_sound: "chm_ban env a s = Inr s' \<Longrightarrow> sound_step (ca_chptr a) (md_world s) (md_world s')"
  by (auto simp: chm_ban_def Let_def intro!: step_intros dest!: over_limit_sel ban_apply_sound
      split: if_splits option.splits prod.splits)

lemma sound_step_upd_mem:
  assumes "find_channel_membership w ch targ = Some m"
    and "\<And>ms. ms_chptr (f ms) = ms_chptr ms \<and> ms_client_p (f ms) = ms_client_p ms"
    and "is_chanop (f (mem_of w m)) = is_chanop (mem_of w m)"
  shows "sound_step ch w (upd_mem m f w)"
proof -
  have "world_inv (upd_mem m f w)" if a: "world_inv w" "w_channels w ch = Some c" for c
  proof -
    obtain ms where "w_mems w m = Some ms" using membership_found [OF a(1) assms(1) a(2)] by blast
    then show ?thesis using a(1) assms(2,3) by (intro upd_mem_world_inv) (auto simp: mem_of_def)
  qed
  then show ?thesis by (auto simp: sound_step_def)
qed

lemma sound_step_move:
  assumes "find_channel_membership w ch targ = Some m"
    and "\<And>ms. ms_chptr (f ms) = ms_chptr ms \<and> ms_client_p (f ms) = ms_client_p ms \<and> is_chanop (f ms) = up"
    and "is_chanop (mem_of w m) = (\<not> up)"
  shows "sound_step ch w (upd_mem m f (upd_chan ch (move_op up m) w))"
proof -
  have "world_inv (upd_mem m f (upd_chan ch (move_op up m) w))" if a: "world_inv w" "w_channels w ch = Some c" for c
  proof -
    obtain ms where ms: "w_mems w m = Some ms" "ms_chptr ms = ch"
      using membership_found [OF a(1) assms(1) a(2)] by blast
    then show ?thesis
      using move_op_world_inv [OF a(1) ms(1), of c f up] a(2) assms(2,3) by (simp add: mem_of_def)
  qed
  then show ?thesis by (auto simp: sound_step_def)
qed

lemma voice_sound:
  assumes r: "chm_voice env a s = Inr s'"
  shows "sound_step (ca_chptr a) (md_world s) (md_world s')"
proof (cases "chm_target env a s")
  case (Pair t s1)
  note w = chm_target_world [OF Pair]
  show ?thesis
  proof (cases t)
    case None
    then show ?thesis using r Pair w by (auto simp: chm_voice_def intro: step_intros)
  next
    case (Some p)
    obtain targ m where p: "p = (targ, m)" by (cases p)
    have f: "find_channel_membership (md_world s) (ca_chptr a) targ = Some m"
      using chm_target_member Pair Some p by simp
    consider "md_world s' = upd_mem m (\<lambda>ms. ms\<lparr>ms_flags := ms_flags ms OR CHFL_VOICE\<rparr>) (md_world s)"
      | "md_world s' = upd_mem m (\<lambda>ms. ms\<lparr>ms_flags := ms_flags ms AND NOT CHFL_VOICE\<rparr>) (md_world s)"
      using r Pair w unfolding chm_voice_def Some p by (auto simp: push_change_Inr and_then_Inr split: if_splits)
    then show ?thesis
      by cases (simp_all add: sound_step_upd_mem [OF f] is_chanop_def)
  qed
qed

lemma move_op_fun:
  "(\<lambda>ch. ch\<lparr>ch_noops := remove1 m (ch_noops ch), ch_ops := m # ch_ops ch\<rparr>) = move_op True m"
  "(\<lambda>ch. ch\<lparr>ch_ops := remove1 m (ch_ops ch), ch_noops := m # ch_noops ch\<rparr>) = move_op False m"
  by (simp_all add: move_op_def fun_eq_iff)

lemma op_sound:
  assumes r: "chm_op env a s = Inr s'"
  shows "sound_step (ca_chptr a) (md_world s) (md_world s')"
proof (cases "chm_target env a s")
  case (Pair t s1)
  note w = chm_target_world [OF Pair]
  show ?thesis
  proof (cases t)
    case None
    then show ?thesis using r Pair w by (auto simp: chm_op_def intro: step_intros)
  next
    case (Some p)
    obtain targ m where p: "p = (targ, m)" by (cases p)
    have f: "find_channel_membership (md_world s) (ca_chptr a) targ = Some m"
      using chm_target_member Pair Some p by simp
    have up: "is_chanop (ms\<lparr>ms_flags := (ms_flags ms OR CHFL_CHANOP) AND NOT CHFL_DEOPPED\<rparr>)"
      and down: "\<not> is_chanop (ms\<lparr>ms_flags := ms_flags ms AND NOT CHFL_CHANOP\<rparr>)" for ms
      by (simp_all add: is_chanop_def)
    consider (same) "md_world s' = md_world s"
      | (add) "md_world s' = upd_mem m (\<lambda>ms. ms\<lparr>ms_flags := (ms_flags ms OR CHFL_CHANOP) AND NOT CHFL_DEOPPED\<rparr>)
          (if \<not> is_chanop (mem_of (md_world s) m) then upd_chan (ca_chptr a) (move_op True m) (md_world s)
           else md_world s)"
      | (del) "md_world s' = upd_mem m (\<lambda>ms. ms\<lparr>ms_flags := ms_flags ms AND NOT CHFL_CHANOP\<rparr>)
          (if is_chanop (mem_of (md_world s) m) then upd_chan (ca_chptr a) (move_op False m) (md_world s)
           else md_world s)"
      using r Pair w unfolding chm_op_def Some p move_op_fun
      by (auto simp: push_change_Inr and_then_Inr split: if_splits)
    then show ?thesis
    proof cases
      case same
      then show ?thesis by (simp add: step_intros)
    next
      case add
      then show ?thesis
        using f up sound_step_move [OF f, of _ True] sound_step_upd_mem [OF f] by simp
    next
      case del
      then show ?thesis
        using f down sound_step_move [OF f, of _ False] sound_step_upd_mem [OF f] by simp
    qed
  qed
qed

lemma run_func_sound:
  "run_func f env a s = Inr s' \<Longrightarrow> sound_step (ca_chptr a) (md_world s) (md_world s')"
  by (cases f) (auto simp: run_func_def intro: nosuch_sound simple_sound ban_sound op_sound voice_sound
      limit_sound key_sound sslonly_sound)

lemma chm_target_refused:
  "ca_alevel a \<noteq> CHFL_CHANOP \<Longrightarrow> chm_target env a s = (None, refuse_noops a s)"
  by (simp add: chm_target_def)

lemma set_error_told: "only_told c (set_error e s) s' \<Longrightarrow> only_told c s s'"
  by (simp add: only_told_def set_error_def)

lemma run_func_refuses:
  assumes "ca_alevel a \<noteq> CHFL_CHANOP"
  shows "\<exists>s'. run_func f env a s = Inr s' \<and> md_world s' = md_world s \<and> md_changes s' = md_changes s \<and>
    only_told (ca_source a) s s'"
proof (cases f)
  case F_ban
  have "only_told (ca_source a) s (send_banlist a (set_error e s))" for e
    by (auto simp: only_told_def send_banlist_def set_error_def Let_def)
  moreover have "only_told (ca_source a) s (refuse_noops a (set_error e s))" for e
    by (rule set_error_told [OF refuse_noops_told])
  ultimately show ?thesis
    using assms F_ban refuse_noops_told [of a s] only_told_refl [of "ca_source a" s]
    by (auto simp: run_func_def chm_ban_def Let_def split: option.split)
next
  case F_nosuch
  then show ?thesis
    by (auto simp: run_func_def chm_nosuch_def only_told_def emit_def set_error_def)
qed (use assms refuse_noops_told [of a s] in
  \<open>auto simp: run_func_def chm_simple_def chm_op_def chm_voice_def chm_limit_def chm_key_def
     chm_sslonly_def chm_target_refused\<close>)

interpretation modes: mode_handlers run_func
proof unfold_locales
  fix f :: chm_func and env a s s'
  show "ca_alevel a \<noteq> CHFL_CHANOP \<Longrightarrow> \<exists>s'. run_func f env a s = Inr s' \<and> md_world s' = md_world s \<and>
      md_changes s' = md_changes s \<and> only_told (ca_source a) s s'"
    by (rule run_func_refuses)
  assume r: "run_func f env a s = Inr s'"
  show "w_clients (md_world s') = w_clients (md_world s) \<and>
      (\<forall>x. x \<noteq> ca_chptr a \<longrightarrow> w_channels (md_world s') x = w_channels (md_world s) x)"
    using run_func_sound [OF r] by (simp add: sound_step_def)
  assume "world_inv (md_world s)" "chan_live (ca_chptr a) s"
  then show "world_inv (md_world s') \<and> chan_live (ca_chptr a) s'"
    using run_func_sound [OF r] by (simp add: sound_step_def chan_live_def)
qed

end
