(* ===== verification/BanMasks.thy ===== *)
theory BanMasks
  imports Mode
begin

unbundle bit_operations_syntax

text \<open>
  The ban masks of \<open>modules/core/m_mode.c\<close>: what \<open>pretty_mask\<close> makes of the text a
  client gives, and the laws of \<open>add_id\<close> and \<open>del_id\<close>.
\<close>

section \<open>Masks\<close>

lemma collapse_nonempty: "s \<noteq> [] \<Longrightarrow> collapse s \<noteq> []"
  by (cases s) (auto simp: collapse_def)

lemma collapsed_append:
  "collapsed a \<Longrightarrow> collapsed b \<Longrightarrow> c \<noteq> CHR ''*'' \<Longrightarrow> collapsed (a @ c # b)"
  by (induction a rule: collapsed.induct; cases b) auto

lemma collapsed_take: "collapsed a \<Longrightarrow> collapsed (take n a)"
proof (induction a arbitrary: n rule: collapsed.induct)
  case (1 x y p)
  show ?case
  proof (cases n)
    case (Suc m)
    have "collapsed (take m (y # p))" using 1 by simp
    then show ?thesis using 1 Suc by (cases m) auto
  qed simp
qed (simp_all add: take_Cons')

lemma collapsed_tl: "collapsed (c # a) \<Longrightarrow> collapsed a"
  by (cases a) auto

lemma collapsed_appendD: "collapsed (a @ b) \<Longrightarrow> collapsed a \<and> collapsed b"
  by (induction a rule: collapsed.induct) (use collapsed_tl in auto)

lemma collapse_collapsed: "collapsed (collapse p)"
  using collapse_loop_collapsed by (simp add: collapse_def)

lemma collapse_id: "collapsed p \<Longrightarrow> collapse p = p"
  using collapse_loop_id by (simp add: collapse_def)

text \<open>The three parts of a mask.\<close>

definition mask_parts :: "cstring \<times> cstring \<times> cstring \<Rightarrow> bool" where
  "mask_parts p = (case p of (n, u, h) \<Rightarrow>
     n \<noteq> [] \<and> u \<noteq> [] \<and> h \<noteq> [] \<and> CHR ''!'' \<notin> set n \<and> CHR ''@'' \<notin> set n \<and> CHR ''@'' \<notin> set u \<and>
     collapsed n \<and> collapsed u \<and> collapsed h \<and> (\<forall>c \<in> set n \<union> set u \<union> set h. \<not> IsSpace c))"

lemma or_splat_cases: "or_splat s = s \<and> s \<noteq> [] \<or> or_splat s = ''*'' \<and> s = []"
  by (simp add: or_splat_def)

lemma splat_not_space: "\<not> IsSpace (CHR ''*'')"
  by (simp add: IsSpace_iff)

lemma or_splat_set: "c \<in> set (or_splat s) \<Longrightarrow> c \<in> set s \<or> c = CHR ''*''"
  by (auto simp: or_splat_def split: if_splits)

lemma or_splat_collapsed: "collapsed s \<Longrightarrow> collapsed (or_splat s)"
  by (simp add: or_splat_def)

lemma or_splat_neq [simp]: "or_splat s \<noteq> []"
  by (simp add: or_splat_def)

lemma split_mask_parts:
  assumes "collapsed pat" "\<forall>c \<in> set pat. \<not> IsSpace c"
  shows "mask_parts (split_mask pat)"
proof -
  have cut: "collapsed a \<and> collapsed b \<and> c \<notin> set a \<and> set a \<subseteq> set s \<and> set b \<subseteq> set s"
    if "strchr_cut c s = Some (a, b)" "collapsed s" for c s a b
    using strchr_cut_SomeD [OF that(1)] that(2) collapsed_appendD [of a "c # b"] collapsed_tl by auto
  show ?thesis
  proof (cases "strchr_cut (CHR ''@'') pat")
    case (Some p)
    obtain l h where p: "p = (l, h)" by (cases p)
    note c1 = cut [OF Some [unfolded p] assms(1)]
    show ?thesis
    proof (cases "strchr_cut (CHR ''!'') l")
      case None
      then have "CHR ''!'' \<notin> set l" by (simp add: strchr_cut_None)
      then show ?thesis
        using Some p None c1 assms(2)
        by (auto simp: mask_parts_def split_mask_def or_splat_collapsed splat_not_space dest!: or_splat_set)
    next
      case (Some q)
      obtain n u where q: "q = (n, u)" by (cases q)
      note c2 = cut [OF Some [unfolded q]]
      show ?thesis
        using \<open>strchr_cut (CHR ''@'') pat = Some p\<close> p Some q c1 c2 assms(2)
        by (auto simp: mask_parts_def split_mask_def or_splat_collapsed splat_not_space dest!: or_splat_set)
    qed
  next
    case None
    then have at: "CHR ''@'' \<notin> set pat" by (simp add: strchr_cut_None)
    show ?thesis
    proof (cases "strchr_cut (CHR ''!'') pat")
      case (Some q)
      obtain n u where q: "q = (n, u)" by (cases q)
      note c2 = cut [OF Some [unfolded q] assms(1)]
      show ?thesis
        using None Some q c2 at assms(2)
        by (auto simp: mask_parts_def split_mask_def or_splat_collapsed splat_not_space dest!: or_splat_set)
    next
      case none2: None
      then have "CHR ''!'' \<notin> set pat" by (simp add: strchr_cut_None)
      then show ?thesis
        using None none2 at assms
        by (auto simp: mask_parts_def split_mask_def or_splat_collapsed splat_not_space dest!: or_splat_set)
    qed
  qed
qed

definition join_mask :: "cstring \<times> cstring \<times> cstring \<Rightarrow> cstring" where
  "join_mask p = (case p of (n, u, h) \<Rightarrow> n @ CHR ''!'' # u @ CHR ''@'' # h)"

lemma split_join_mask: "mask_parts p \<Longrightarrow> split_mask (join_mask p) = p"
  by (cases p)
     (auto simp: mask_parts_def join_mask_def split_mask_def or_splat_def strchr_cut_append
        strchr_cut_append [of "CHR ''@''" "a @ CHR ''!'' # b" for a b, simplified])

definition clip_parts :: "cstring \<times> cstring \<times> cstring \<Rightarrow> cstring \<times> cstring \<times> cstring" where
  "clip_parts p = (case p of (n, u, h) \<Rightarrow> (take (NICKLEN - 1) n, take USERLEN u, take HOSTLEN h))"

lemma clip_parts_ok: "mask_parts p \<Longrightarrow> mask_parts (clip_parts p)"
  by (cases p)
     (auto simp: mask_parts_def clip_parts_def size_defs collapsed_take dest: in_set_takeD)

lemma clip_parts_idem: "clip_parts (clip_parts p) = clip_parts p"
  by (cases p) (simp add: clip_parts_def)

lemma pretty_mask_eq:
  "pretty_mask s pos =
     (let pat = collapse (check_string s)
      in if IRCD_BUFSIZE - pos < length pat + 5 then None
         else (let r = join_mask (clip_parts (split_mask pat)) in Some (r, pos + length r + 1)))"
  by (simp add: pretty_mask_def join_mask_def clip_parts_def Let_def split: prod.split)

lemma check_string_no_space: "c \<in> set (check_string s) \<Longrightarrow> \<not> IsSpace c"
  by (auto simp: check_string_def splat_not_space dest: set_takeWhileD split: if_splits)

lemma check_string_id: "s \<noteq> [] \<Longrightarrow> \<forall>c \<in> set s. \<not> IsSpace c \<Longrightarrow> check_string s = s"
  by (simp add: check_string_def takeWhile_eq_all_conv)

lemma pretty_parts: "mask_parts (clip_parts (split_mask (collapse (check_string s))))"
proof -
  have "\<forall>c \<in> set (collapse (check_string s)). \<not> IsSpace c"
    using set_collapse_loop [of False] check_string_no_space by (auto simp: collapse_def)
  then show ?thesis by (intro clip_parts_ok split_mask_parts collapse_collapsed)
qed

lemma join_mask_plain:
  assumes "mask_parts p"
  shows "collapse (check_string (join_mask p)) = join_mask p"
proof -
  obtain n u h where p: "p = (n, u, h)" by (cases p)
  have "collapsed (join_mask p)"
    using assms p by (auto simp: join_mask_def mask_parts_def intro!: collapsed_append)
  moreover have "\<forall>c \<in> set (join_mask p). \<not> IsSpace c"
    using assms p by (auto simp: join_mask_def mask_parts_def IsSpace_iff)
  moreover have "join_mask p \<noteq> []" using p by (simp add: join_mask_def)
  ultimately show ?thesis by (simp add: check_string_id collapse_id)
qed

lemma length_split_mask:
  assumes "pat \<noteq> []"
  shows "length (join_mask (split_mask pat)) \<le> length pat + 4"
  using assms
  by (auto simp: split_mask_def join_mask_def or_splat_def dest!: strchr_cut_SomeD split: option.splits prod.splits)

lemma length_clip: "length (join_mask (clip_parts p)) \<le> length (join_mask p)"
  by (cases p) (simp add: join_mask_def clip_parts_def)

text \<open>
  the mask that \<open>pretty_mask\<close> returns has the form \<open>nick!user@host\<close>, with three non-empty
  parts within \<open>NICKLEN\<close>, \<open>USERLEN\<close> and \<open>HOSTLEN\<close>, free of blanks and with the separators only
  in their places; the mask it makes of its own result, where the buffer has room, is that
  result; and it does not write behind \<open>mask_buf\<close>, unless the text begins with a blank.
\<close>

theorem pretty_mask_canonical:
  assumes "pretty_mask s pos = Some (r, pos')"
  shows "(\<exists>n u h. r = n @ ''!'' @ u @ ''@'' @ h \<and> n \<noteq> [] \<and> u \<noteq> [] \<and> h \<noteq> [] \<and>
            length n < NICKLEN \<and> length u \<le> USERLEN \<and> length h \<le> HOSTLEN \<and>
            CHR ''!'' \<notin> set n \<and> CHR ''@'' \<notin> set (n @ u)) \<and>
         (\<forall>c \<in> set r. \<not> IsSpace c) \<and>
         (\<forall>p. length r + 5 \<le> IRCD_BUFSIZE - p \<longrightarrow> pretty_mask r p = Some (r, p + length r + 1)) \<and>
         (check_string s \<noteq> [] \<longrightarrow> pos' \<le> IRCD_BUFSIZE)"
proof -
  define pat where "pat = collapse (check_string s)"
  define q where "q = clip_parts (split_mask pat)"
  have ok: "mask_parts q" using pretty_parts by (simp add: q_def pat_def)
  have r: "r = join_mask q" "pos' = pos + length r + 1" and room: "length pat + 5 \<le> IRCD_BUFSIZE - pos"
    using assms by (auto simp: pretty_mask_eq Let_def q_def pat_def split: if_splits)
  obtain n u h where q: "q = (n, u, h)" by (cases q)
  have lens: "length n < NICKLEN \<and> length u \<le> USERLEN \<and> length h \<le> HOSTLEN"
    using q by (auto simp: q_def clip_parts_def size_defs split: prod.splits)
  have 1: "\<exists>n u h. r = n @ ''!'' @ u @ ''@'' @ h \<and> n \<noteq> [] \<and> u \<noteq> [] \<and> h \<noteq> [] \<and>
      length n < NICKLEN \<and> length u \<le> USERLEN \<and> length h \<le> HOSTLEN \<and>
      CHR ''!'' \<notin> set n \<and> CHR ''@'' \<notin> set (n @ u)"
    by (rule exI [of _ n], rule exI [of _ u], rule exI [of _ h])
      (use ok q lens in \<open>simp add: r join_mask_def mask_parts_def\<close>)
  have 2: "\<forall>c \<in> set r. \<not> IsSpace c"
    using ok q by (auto simp: r join_mask_def mask_parts_def IsSpace_iff)
  have "clip_parts (split_mask r) = q"
    using ok by (simp add: r split_join_mask) (simp add: q_def clip_parts_idem)
  then have 3: "\<forall>p. length r + 5 \<le> IRCD_BUFSIZE - p \<longrightarrow> pretty_mask r p = Some (r, p + length r + 1)"
    using join_mask_plain [OF ok] by (simp add: pretty_mask_eq r Let_def)
  have "pos' \<le> IRCD_BUFSIZE" if "check_string s \<noteq> []"
  proof -
    have "pat \<noteq> []" using that by (simp add: pat_def collapse_nonempty)
    then have "length r \<le> length pat + 4"
      using length_split_mask [of pat] length_clip [of "split_mask pat"] by (simp add: r q_def)
    then show ?thesis using room r(2) by linarith
  qed
  then show ?thesis using 1 2 3 by blast
qed

theorem pretty_mask_canonical_witness:
  "pretty_mask ''joe@*.org'' 18 = Some (''*!joe@*.org'', 30) \<and> (30::nat) \<le> IRCD_BUFSIZE"
proof -
  have "pretty_mask ''joe@*.org'' 18 = Some (''*!joe@*.org'', 30)" by code_simp
  moreover have "check_string ''joe@*.org'' \<noteq> []" by code_simp
  ultimately show ?thesis using pretty_mask_canonical [of "''joe@*.org''" 18] by blast
qed

section \<open>Ban lists\<close>

lemma ban_list_set [simp]:
  "ban_list t (set_ban_list t l c) = l" "ban_list t (bump_serial t' c) = ban_list t c"
  "set_ban_list t l (bump_serial t' c) = bump_serial t' (set_ban_list t l c)"
  "set_ban_list t l (set_ban_list t l' c) = set_ban_list t l c"
  "set_ban_list t (ban_list t c) c = c"
  by (simp_all add: ban_list_def set_ban_list_def bump_serial_def)

lemma chan_of_upd [simp]: "chan_of (upd_chan ch f w) ch = f (chan_of w ch)"
  by (simp add: chan_of_def)

lemma upd_chan_twice [simp]: "upd_chan ch g (upd_chan ch f w) = upd_chan ch (\<lambda>c. g (f c)) w"
  by (simp add: upd_chan_def chan_of_def)

text \<open>What a successful \<open>add_id\<close> did.\<close>

lemma add_id_added:
  assumes "add_id cfg src ch m t w = (True, out, w')"
  shows "\<exists>b. ban_banstr b = strlcpy m BANLEN \<and>
    w' = upd_chan ch (\<lambda>c. bump_serial t (set_ban_list t (b # ban_list t (chan_of w ch)) c)) w"
  by (rule exI [of _ "allocate_ban m (ban_setter (client_of w src)) (w_time w)"])
     (use assms in \<open>auto simp: add_id_def Let_def allocate_ban_def split: if_splits\<close>)

lemma add_id_remote_new:
  assumes "add_id cfg src ch m t w = (True, out, w')" "\<not> MyClient (client_of w src)"
  shows "find (\<lambda>b. irccmp (ban_banstr b) m = 0) (ban_list t (chan_of w ch)) = None"
  using assms by (auto simp: add_id_def Let_def split: if_splits)

text \<open>
  A ban that \<open>add_id\<close> has just set can be removed again by its own mask in any case:
  \<open>del_id\<close> finds it, and leaves the world as it was before, but for the two steps of
  \<open>ban_serial\<close> that make the members' ban caches stale. The mask has to be shorter than
  \<open>BANLEN\<close>.
\<close>

theorem add_id_del_id:
  assumes added: "add_id cfg src ch m t w = (True, out, w')"
    and len: "length m < BANLEN" and eq: "irccmp m' m = 0" "m' \<noteq> []"
  shows "del_id ch m' t w' = (True, upd_chan ch (\<lambda>c. bump_serial t (bump_serial t c)) w)"
proof -
  obtain b where b: "ban_banstr b = strlcpy m BANLEN"
      "w' = upd_chan ch (\<lambda>c. bump_serial t (set_ban_list t (b # ban_list t (chan_of w ch)) c)) w"
    using add_id_added [OF added] by blast
  have "strlcpy m BANLEN = m" using len by (simp add: strlcpy_def)
  then have "find (\<lambda>b. irccmp m' (ban_banstr b) = 0) (ban_list t (chan_of w' ch)) = Some b"
    using b eq by simp
  then have "del_id ch m' t w' = (True, upd_chan ch (\<lambda>c. bump_serial t (bump_serial t
      (set_ban_list t (ban_list t (chan_of w ch)) c))) w)"
    using eq(2) b(2) by (simp add: del_id_def Let_def)
  also have "\<dots> = (True, upd_chan ch (\<lambda>c. bump_serial t (bump_serial t c)) w)"
    by (simp add: upd_chan_def)
  finally show ?thesis .
qed

lemma small_channel_bans:
  "ban_list t (chan_of small_channel 10) = []" "MyClient (client_of small_channel x)"
  "w_time small_channel = 0"
  by (simp_all add: small_channel_def small_world_create Let_def add_user_to_channel_def chan_of_def ban_list_def
        new_channel_def memlist_update_def)
     (simp_all add: small_world_def user_named_def IsClient_def MyClient_def)

lemma small_channel_add:
  "fst (add_id small_config 1 10 m CHFL_BAN small_channel)"
  using small_channel_bans(1) [of CHFL_BAN] small_channel_bans(1) [of CHFL_EXCEPTION]
    small_channel_bans(1) [of CHFL_INVEX]
  by (simp add: add_id_def Let_def small_channel_bans(2)) (simp add: ban_list_def small_config_def CHFL_INVEX_def CHFL_BAN_def CHFL_EXCEPTION_def)

definition ban_world :: world where
  "ban_world = snd (snd (add_id small_config 1 10 ''*!*@Host'' CHFL_BAN small_channel))"

theorem add_id_del_id_witness:
  "del_id 10 ''*!*@hOST'' CHFL_BAN ban_world =
     (True, upd_chan 10 (\<lambda>c. bump_serial CHFL_BAN (bump_serial CHFL_BAN c)) small_channel)"
proof (rule add_id_del_id)
  show "add_id small_config 1 10 ''*!*@Host'' CHFL_BAN small_channel =
      (True, fst (snd (add_id small_config 1 10 ''*!*@Host'' CHFL_BAN small_channel)), ban_world)"
    using small_channel_add [of "''*!*@Host''"] by (simp add: ban_world_def prod_eq_iff)
  show "length ''*!*@Host'' < BANLEN" "irccmp ''*!*@hOST'' ''*!*@Host'' = 0" by code_simp+
qed simp

text \<open>
  A mask of \<open>BANLEN\<close> bytes or more, set by a remote client, is stored without its end.
  Removing the mask that was set then fails and changes nothing: the ban stays.
\<close>

theorem long_ban_not_removable:
  assumes added: "add_id cfg src ch m t w = (True, out, w')" and remote: "\<not> MyClient (client_of w src)"
    and len: "BANLEN \<le> length m" and nul: "nul_free m"
      "\<forall>b \<in> set (ban_list t (chan_of w ch)). nul_free (ban_banstr b)"
  shows "del_id ch m t w' = (False, w')"
proof -
  obtain b where b: "ban_banstr b = strlcpy m BANLEN"
      "w' = upd_chan ch (\<lambda>c. bump_serial t (set_ban_list t (b # ban_list t (chan_of w ch)) c)) w"
    using add_id_added [OF added] by blast
  have "length (irc_fold (strlcpy m BANLEN)) < length (irc_fold m)"
    using len by (simp add: irc_fold_def strlcpy_def BANLEN_def)
  then have "irccmp m (ban_banstr b) \<noteq> 0"
    using nul b(1) by (auto simp: irccmp_0_iff nul_free_strlcpy)
  moreover have "irccmp m (ban_banstr x) \<noteq> 0" if x: "x \<in> set (ban_list t (chan_of w ch))" for x
    using add_id_remote_new [OF added remote] nul x by (auto simp: find_None_iff irccmp_0_iff)
  ultimately have "find (\<lambda>b. irccmp m (ban_banstr b) = 0) (ban_list t (chan_of w' ch)) = None"
    using b(2) by (auto simp: find_None_iff)
  then show ?thesis by (simp add: del_id_def Let_def)
qed

definition remote_world :: world where
  "remote_world = upd_client 2 (\<lambda>c. c\<lparr>cl_myconnect := False\<rparr>) small_channel"

definition long_mask :: cstring where
  "long_mask = ''*!*@'' @ replicate 192 (CHR ''a'')"

theorem long_ban_not_removable_witness:
  "\<exists>w'. add_id small_config 2 10 long_mask CHFL_BAN remote_world = (True, [], w') \<and>
     length long_mask \<le> MODEBUFLEN - 2 \<and> del_id 10 long_mask CHFL_BAN w' = (False, w')"
proof -
  have len: "BANLEN \<le> length long_mask" "nul_free long_mask" "length long_mask \<le> MODEBUFLEN - 2"
    by (auto simp: BANLEN_def MODEBUFLEN_def long_mask_def nul_free_def)
  have w: "\<not> MyClient (client_of remote_world 2)" "ban_list CHFL_BAN (chan_of remote_world 10) = []"
    using small_channel_bans(1) by (simp_all add: remote_world_def MyClient_def chan_of_def)
  then obtain w' where w': "add_id small_config 2 10 long_mask CHFL_BAN remote_world = (True, [], w')"
    by (simp add: add_id_def Let_def)
  have "del_id 10 long_mask CHFL_BAN w' = (False, w')"
    by (rule long_ban_not_removable [OF w' w(1) len(1,2)]) (simp add: w(2))
  then show ?thesis using w' len(3) by blast
qed

end
