(* ===== verification/ModeTheorems.thy ===== *)
theory ModeTheorems
  imports ModeProps BanMasks
begin

unbundle bit_operations_syntax

text \<open>
  The properties of the commands MODE, TMODE and BMASK: who may change what, what is
  preserved, how many changes a client gets, and the commands on which the code fails.
\<close>

section \<open>Commands\<close>

lemma set_channel_mode_loop:
  assumes "set_channel_mode env client_p source_p ch mp parv w = Inr (out, w')"
  shows "\<exists>s. mode_letters_loop env (mode_args source_p ch mp parv w) MODE_ADD (parv ! 0) (mode_start w) = Inr s \<and>
    w' = md_world s"
  using assms unfolding set_channel_mode_def
  by (auto simp: and_then_Inr Let_def split: if_splits)

lemma mode_args_sel [simp]:
  "ca_source (mode_args source_p ch mp parv w) = source_p" "ca_chptr (mode_args source_p ch mp parv w) = ch"
  "ca_alevel (mode_args source_p ch mp parv w) = get_channel_access (client_of w source_p) (map_option (mem_of w) mp)"
  "ca_parv (mode_args source_p ch mp parv w) = parv"
  by (simp_all add: mode_args_def)

lemma mode_start_sel [simp]: "md_world (mode_start w) = w" "md_changes (mode_start w) = []"
    "md_out (mode_start w) = []" "md_limit (mode_start w) = 0" "md_parn (mode_start w) = 1"
  by (simp_all add: mode_start_def)

lemma set_channel_mode_sound:
  assumes "set_channel_mode env client_p source_p ch mp parv w = Inr (out, w')"
  shows "sound_step ch w w'"
proof -
  obtain s where s: "handler_loop run_func (\<lambda>c. ModeTable ! table_position c) env (mode_args source_p ch mp parv w)
      MODE_ADD (parv ! 0) (mode_start w) = Inr s" "w' = md_world s"
    using set_channel_mode_loop [OF assms] unfolding mode_letters_loop_handler by blast
  show ?thesis
    using modes.loop_frame [OF s(1)] modes.loop_keeps [OF s(1)] s(2)
    by (auto simp: sound_step_def chan_live_def)
qed

text \<open>A local client that is not an operator of the channel.\<close>

definition not_chanop :: "world \<Rightarrow> mid option \<Rightarrow> bool" where
  "not_chanop w mp = (case mp of Some m \<Rightarrow> \<not> is_chanop (mem_of w m) | None \<Rightarrow> True)"

lemma set_channel_mode_refused:
  assumes "MyClient (client_of w source_p)" "not_chanop w mp"
  shows "\<exists>out. set_channel_mode env client_p source_p ch mp parv w = Inr (out, w) \<and>
    (\<forall>m \<in> set out. \<exists>n args. m = Numeric source_p n args)"
proof -
  let ?a = "mode_args source_p ch mp parv w"
  have "ca_alevel ?a \<noteq> CHFL_CHANOP"
    using assms by (auto simp: get_channel_access_def not_chanop_def CHFL_PEON_def CHFL_CHANOP_def split: option.splits)
  from modes.loop_refuses [OF this, of "\<lambda>c. ModeTable ! table_position c" env MODE_ADD "parv ! 0" "mode_start w"]
  obtain s where "mode_letters_loop env ?a MODE_ADD (parv ! 0) (mode_start w) = Inr s" "md_world s = w"
      "md_changes s = []" "only_told source_p (mode_start w) s"
    unfolding mode_letters_loop_handler by auto
  then show ?thesis by (simp add: set_channel_mode_def and_then_def only_told_def)
qed

lemma flood_endgrace_sel [simp]:
  "w_channels (flood_endgrace c w) = w_channels w" "w_mems (flood_endgrace c w) = w_mems w"
  "mem_of (flood_endgrace c w) m = mem_of w m"
  "MyClient (client_of (flood_endgrace c w) x) = MyClient (client_of w x)"
  by (simp_all add: flood_endgrace_def mem_of_def MyClient_def IsClient_def)

lemma flood_endgrace_inv:
  assumes "world_inv w" shows "world_inv (flood_endgrace c w)"
proof -
  have i: "mem_inv w" "name_inv w" "invite_inv w" using assms by (simp_all add: world_inv_def)
  show ?thesis
    unfolding world_inv_def flood_endgrace_def
    using mem_inv_cong [OF i(1)] name_inv_cong [OF i(2)] invite_inv_cong [OF i(3)]
    by (simp add: chan_of_def)
qed

lemma find_channel_live:
  "world_inv w \<Longrightarrow> nul_free k \<Longrightarrow> find_channel w k = Some ch \<Longrightarrow> w_channels w ch \<noteq> None"
  using destroyed_not_found [of w k ch] by (auto simp: world_inv_def)

lemma mode_result_of_Done: "mode_result_of r = Done out w \<longleftrightarrow> r = Inr (out, w)"
  by (auto simp: mode_result_of_def split: sum.splits)

lemma bmask_flush_world: "bmask_flush client_p ch mems cap pre s = Inr s' \<Longrightarrow> bm_world s' = bm_world s"
  by (auto simp: bmask_flush_def Let_def split: if_splits)

lemma bmask_put_world: "bmask_put c pre ban s = Inr s' \<Longrightarrow> bm_world s' = bm_world s"
  by (auto simp: bmask_put_def split: if_splits)

lemma bmask_loop_sound:
  "bmask_loop cfg client_p source_p ch c t mems cap pre bans s = Inr s' \<Longrightarrow> sound_step ch (bm_world s) (bm_world s')"
proof (induction bans arbitrary: s)
  case Nil
  then show ?case by (simp add: step_intros)
next
  case (Cons ban bans)
  obtain ok out w where add: "add_id cfg source_p ch ban t (bm_world s) = (ok, out, w)"
    by (cases "add_id cfg source_p ch ban t (bm_world s)")
  let ?s1 = "s\<lparr>bm_world := w, bm_out := bm_out s @ out\<rparr>"
  note st = add_id_sound [OF add]
  let ?full = "length pre + MAXMODEPARAMS + length (bm_para ?s1) + length ban > IRCD_BUFSIZE - 5 \<or>
    length (bm_letters ?s1) \<ge> MAXMODEPARAMS"
  define fl where "fl = (if ?full then bmask_flush client_p ch mems cap pre ?s1 else Inr ?s1)"
  have flushed: "bm_world s2 = w" if "fl = Inr s2" for s2
    using that bmask_flush_world [of client_p ch mems cap pre ?s1 s2] by (cases ?full) (auto simp: fl_def)
  have loop: "bmask_loop cfg client_p source_p ch c t mems cap pre (ban # bans) s =
      (if char_at ban 0 = CHR '':'' then bmask_loop cfg client_p source_p ch c t mems cap pre bans s
       else if length ban > MODEBUFLEN then Inr s
       else if \<not> ok then bmask_loop cfg client_p source_p ch c t mems cap pre bans ?s1
       else and_then fl (\<lambda>s2. and_then (bmask_put c pre ban s2)
              (bmask_loop cfg client_p source_p ch c t mems cap pre bans)))"
    by (simp add: add Let_def fl_def)
  consider "bmask_loop cfg client_p source_p ch c t mems cap pre bans s = Inr s'" | "s' = s"
    | s2 where "bmask_loop cfg client_p source_p ch c t mems cap pre bans s2 = Inr s'" "bm_world s2 = w"
  proof (cases "char_at ban 0 = CHR '':'' \<or> length ban > MODEBUFLEN \<or> \<not> ok")
    case True
    then consider "char_at ban 0 = CHR '':''" | "char_at ban 0 \<noteq> CHR '':''" "length ban > MODEBUFLEN"
      | "char_at ban 0 \<noteq> CHR '':''" "\<not> length ban > MODEBUFLEN" "\<not> ok" by blast
    then show ?thesis
      using Cons.prems that(1,2) that(3) [of ?s1] unfolding loop by cases simp_all
  next
    case False
    then have "and_then fl (\<lambda>s2. and_then (bmask_put c pre ban s2)
        (bmask_loop cfg client_p source_p ch c t mems cap pre bans)) = Inr s'"
      using Cons.prems unfolding loop by simp
    then obtain s2 s3 where "fl = Inr s2" "bmask_put c pre ban s2 = Inr s3"
        "bmask_loop cfg client_p source_p ch c t mems cap pre bans s3 = Inr s'"
      by (auto simp: and_then_Inr)
    then show ?thesis using that(3) [of s3] flushed bmask_put_world by metis
  qed
  then show ?case
  proof cases
    case 1
    then show ?thesis by (rule Cons.IH)
  next
    case 2
    then show ?thesis by (simp add: step_intros)
  next
    case 3
    then show ?thesis using Cons.IH [OF 3(1)] sound_step_trans [OF st] by simp
  qed
qed

text \<open>The worlds in which the four commands end.\<close>

lemma m_mode_world:
  assumes "m_mode env client_p source_p parv w = Done out w'"
  shows "w' = w \<or> (\<exists>ch dest w1. find_channel w dest = Some ch \<and> (dest = parv ! 1 \<or> dest = tl (parv ! 1)) \<and>
    (w1 = w \<or> w1 = flood_endgrace source_p w) \<and>
    (\<exists>mp. set_channel_mode env client_p source_p ch mp (drop 2 parv) w1 = Inr (out, w')))"
  using assms unfolding m_mode_def
  by (simp add: Let_def mode_result_of_Done split: if_splits option.splits) blast+

lemma ms_mode_world:
  assumes "ms_mode env client_p source_p parv w = Done out w'"
  shows "w' = w \<or> (\<exists>ch. find_channel w (parv ! 1) = Some ch \<and>
    (\<exists>mp. set_channel_mode env client_p source_p ch mp (drop 2 parv) w = Inr (out, w')))"
  using assms unfolding ms_mode_def by (auto simp: mode_result_of_Done split: option.splits)

lemma ms_tmode_world:
  assumes "ms_tmode env client_p source_p parv w = Done out w'"
  shows "w' = w \<or> (\<exists>ch. find_channel w (parv ! 2) = Some ch \<and>
    (\<exists>mp. set_channel_mode env client_p source_p ch mp (drop 3 parv) w = Inr (out, w')))"
  using assms unfolding ms_tmode_def
  by (simp add: Let_def mode_result_of_Done split: if_splits option.splits) blast+

lemma ms_bmask_sound:
  assumes "ms_bmask env client_p source_p parv w = Done out w'"
  shows "w' = w \<or> (\<exists>ch. find_channel w (parv ! 2) = Some ch \<and> sound_step ch w w')"
  using assms unfolding ms_bmask_def
  by (auto simp: Let_def and_then_Inr dest!: bmask_loop_sound bmask_flush_world split: if_splits option.splits sum.splits)

section \<open>An example\<close>

definition small_env :: mode_env where
  "small_env = \<lparr>me_cfg = small_config, me_hash_client = the (hash_create ''NICK'' CMP_IRCCMP 17 0),
     me_hash_id = the (hash_create ''ID'' CMP_STRCMP 17 0), me_whowas = whowas_init, me_servers = 1, me_combos = []\<rparr>"

lemma small_channel_client:
  "cl_name (client_of small_channel x) = ''nick''" "cl_username (client_of small_channel x) = ''u''"
  "cl_host (client_of small_channel x) = ''h.example''" "\<not> IsServer (client_of small_channel x)"
  "\<not> cl_operspy (client_of small_channel x)" "cl_flood_done (client_of small_channel x)"
  by (simp_all add: small_channel_def small_world_create Let_def add_user_to_channel_def)
     (simp_all add: small_world_def user_named_def IsServer_def)

lemma small_channel_local: "MyClient (client_of small_channel x)" "cl_myconnect (client_of small_channel x)"
  by (simp_all add: small_channel_def small_world_create Let_def add_user_to_channel_def)
     (simp_all add: small_world_def user_named_def MyClient_def IsClient_def)

lemma small_channel_chan:
  "w_channels small_channel 10 = Some (chan_of small_channel 10)"
  "chan_of small_channel 10 = (new_channel ''#ircd'' 0)\<lparr>ch_ops := [11], ch_locmembers := [11]\<rparr>"
  by (simp_all add: small_channel_def small_world_create Let_def add_user_to_channel_def chan_of_def)
     (simp add: small_world_def user_named_def MyClient_def IsClient_def memlist_update_def new_channel_def is_chanop_def
       has_flag_def CHFL_CHANOP_def)

lemma small_channel_mems:
  "find_channel_membership small_channel 10 1 = Some 11" "find_channel_membership small_channel 10 2 = None"
  "mem_of small_channel 11 = \<lparr>ms_chptr = 10, ms_client_p = 1, ms_flags = CHFL_CHANOP, ms_ban_serial = 0\<rparr>"
proof -
  note s = find_channel_membership_sound [of small_channel 10 _, unfolded membership_of_def]
  have i: "mem_inv small_channel" using small_channel_inv by (simp add: world_inv_def)
  show "find_channel_membership small_channel 10 1 = Some 11"
    using s [OF i small_channel_chan(1), of 1]
    by (cases "find_channel_membership small_channel 10 1") (force simp: small_channel_sel(1) split: if_splits)+
  show "find_channel_membership small_channel 10 2 = None"
    using s [OF i small_channel_chan(1), of 2]
    by (cases "find_channel_membership small_channel 10 2") (force simp: small_channel_sel(1) split: if_splits)+
qed (simp add: mem_of_def small_channel_sel(1))

lemma small_channel_find: "find_channel small_channel ''#ircd'' = Some 10"
proof -
  have "find_channel small_channel ''#ircd'' = find_channel (snd (snd (get_or_create_channel ''#ircd'' small_world))) ''#ircd''"
    by (simp add: find_channel_def small_channel_def small_world_create Let_def add_user_to_channel_def)
  also have "\<dots> = Some 10"
    using irc.lookup_add [of "w_hash small_world" "[]" "''#ircd''" "''#ircd''" 10] world_start_inv [OF small_world_start]
    by (simp add: find_channel_def small_world_create world_inv_def name_inv_def irc_eq_def)
       (simp add: small_world_def nul_free_def)
  finally show ?thesis .
qed

section \<open>What the commands preserve\<close>

text \<open>
  C3: the commands MODE, TMODE and BMASK, whatever their arguments, keep the consistency of
  the channels, change at most one channel, create and destroy none, and leave the clients
  alone, but for the flood grace that a client's own MODE ends.
\<close>

theorem mode_commands_keep_world:
  assumes "world_inv w" "nul_free (parv ! 1)" "nul_free (parv ! 2)"
    and "Done out w' \<in> {m_mode env client_p source_p parv w, ms_mode env client_p source_p parv w,
           ms_tmode env client_p source_p parv w, ms_bmask env client_p source_p parv w}"
  shows "world_inv w' \<and> dom (w_channels w') = dom (w_channels w) \<and>
    (\<exists>ch. \<forall>x. x \<noteq> ch \<longrightarrow> w_channels w' x = w_channels w x) \<and>
    w_clients w' \<in> {w_clients w, w_clients (flood_endgrace source_p w)}"
proof -
  have step: ?thesis
    if st: "sound_step ch w1 w'" and w1: "w1 = w \<or> w1 = flood_endgrace source_p w" and
      f: "find_channel w k = Some ch" "nul_free k" for ch w1 k
  proof -
    have "w_channels w1 = w_channels w" "world_inv w1" using w1 assms(1) flood_endgrace_inv by auto
    moreover have "w_channels w ch \<noteq> None" using find_channel_live [OF assms(1) f(2,1)] .
    ultimately have k: "world_inv w'" "w_channels w' ch \<noteq> None" "w_clients w' = w_clients w1"
        "\<forall>x. x \<noteq> ch \<longrightarrow> w_channels w' x = w_channels w x"
      using st by (auto simp: sound_step_def)
    have "x \<in> dom (w_channels w') \<longleftrightarrow> x \<in> dom (w_channels w)" for x
      using k(2,4) \<open>w_channels w ch \<noteq> None\<close> by (cases "x = ch") (auto simp: dom_def)
    then show ?thesis using k w1 by auto
  qed
  have same: ?thesis if "w' = w" using that assms(1) by auto
  have tl: "nul_free (tl (parv ! 1))"
    using assms(2) by (cases "parv ! 1") (auto simp: nul_free_def)
  consider "m_mode env client_p source_p parv w = Done out w'" | "ms_mode env client_p source_p parv w = Done out w'"
    | "ms_tmode env client_p source_p parv w = Done out w'" | "ms_bmask env client_p source_p parv w = Done out w'"
    using assms(4) by auto
  then show ?thesis
  proof cases
    case 1
    from m_mode_world [OF 1] show ?thesis
      by (elim disjE exE conjE) (use same step [OF set_channel_mode_sound] tl assms(2) in blast)+
  next
    case 2
    from ms_mode_world [OF 2] show ?thesis
      by (elim disjE exE conjE) (use same step [OF set_channel_mode_sound] assms(2) in blast)+
  next
    case 3
    from ms_tmode_world [OF 3] show ?thesis
      by (elim disjE exE conjE) (use same step [OF set_channel_mode_sound] assms(3) in blast)+
  next
    case 4
    from ms_bmask_sound [OF 4] show ?thesis
      by (elim disjE exE conjE) (use same step assms(3) in blast)+
  qed
qed

lemma small_set_mode:
  "\<exists>out. set_channel_mode small_env 1 1 10 (Some 11) [''+m''] small_channel =
     Inr (out, upd_chan 10 (set_mode_bit MODE_MODERATED MODE_ADD) small_channel)"
proof -
  have t: "ModeTable ! table_position (CHR ''m'') = (F_simple, MODE_MODERATED)" by code_simp
  have al: "get_channel_access (client_of small_channel 1) (Some (mem_of small_channel 11)) = CHFL_CHANOP"
    by (simp add: get_channel_access_def small_channel_mems(3) is_chanop_def has_flag_def CHFL_CHANOP_def)
  have m: "\<not> has_flag (ch_mode (chan_of small_channel 10)) MODE_MODERATED"
    by (simp add: small_channel_chan(2) new_channel_def has_flag_def)
  define w' where "w' = upd_chan 10 (set_mode_bit MODE_MODERATED MODE_ADD) small_channel"
  define s where "s = (mode_start small_channel)\<lparr>md_limit := 1, md_world := w',
    md_changes := [simple_change (CHR ''m'') MODE_ADD ArgNull]\<rparr>"
  have loop: "mode_letters_loop small_env (mode_args 1 10 (Some 11) [''+m''] small_channel) MODE_ADD ''+m''
      (mode_start small_channel) = Inr s"
    using al m
    by (simp add: t run_func_def chm_simple_def over_limit_def md_client_def md_chan_def small_channel_bans(2)
        MAXMODEPARAMS_def push_change_def IRCD_BUFSIZE_def on_world_def and_then_def s_def w'_def)
  have w': "w_clients w' = w_clients small_channel" "chan_of w' 10 = set_mode_bit MODE_MODERATED MODE_ADD (chan_of small_channel 10)"
    by (simp_all add: w'_def)
  have pre: "local_prefix (client_of w' 1) (chan_of w' 10) = '':nick!u@h.example MODE #ircd ''"
    using small_channel_client [of 1] by (simp add: local_prefix_def w' small_channel_chan(2) new_channel_def)
  have all: "\<exists>o1. send_local ALL_MEMBERS 10 '':nick!u@h.example MODE #ircd '' res [simple_change (CHR ''m'') MODE_ADD ArgNull] = Inr o1"
    if "res ArgNull = None" for res
    using that by (simp add: send_local_def local_change_def simple_change_def arg_too_long_def line_full_def put_change_def
        fresh_line_def end_mode_def and_then_def IRCD_BUFSIZE_def)
  have ops: "\<exists>o2. send_local ONLY_CHANOPS 10 '':nick!u@h.example MODE #ircd '' res [simple_change (CHR ''m'') MODE_ADD ArgNull] = Inr o2"
    for res
    by (simp add: send_local_def local_change_def simple_change_def ALL_MEMBERS_def ONLY_CHANOPS_def fresh_line_def
        end_mode_def and_then_def IRCD_BUFSIZE_def)
  have "\<exists>out. set_channel_mode small_env 1 1 10 (Some 11) [''+m''] small_channel = Inr (out, w')"
  proof -
    let ?res = "resolve_arg (ch_key (chan_of w' 10)) (md_limitstr s)"
    obtain o1 o2 where "send_local ALL_MEMBERS 10 '':nick!u@h.example MODE #ircd '' ?res (md_changes s) = Inr o1"
      "send_local ONLY_CHANOPS 10 '':nick!u@h.example MODE #ircd '' ?res (md_changes s) = Inr o2"
      using all [of ?res] ops [of ?res] by (auto simp: resolve_arg_def s_def)
    moreover have "md_world s = w'" "md_changes s \<noteq> []" by (simp_all add: s_def)
    ultimately show ?thesis
      using loop pre by (simp add: set_channel_mode_def and_then_def Let_def md_client_def md_chan_def IRCD_BUFSIZE_def small_env_def)
  qed
  then show ?thesis by (simp add: w'_def)
qed

theorem mode_commands_keep_world_witness:
  "world_inv (upd_chan 10 (set_mode_bit MODE_MODERATED MODE_ADD) small_channel)"
proof -
  let ?p = "[''MODE'', ''#ircd'', ''+m'']" and ?w = "upd_chan 10 (set_mode_bit MODE_MODERATED MODE_ADD) small_channel"
  obtain out where "set_channel_mode small_env 1 1 10 (Some 11) [''+m''] small_channel = Inr (out, ?w)"
    using small_set_mode by blast
  moreover have "IsChanPrefix (CHR ''#'')" "check_channel_name ''#ircd''" by code_simp+
  ultimately have "m_mode small_env 1 1 ?p small_channel = Done out ?w"
    by (simp add: m_mode_def Let_def char_at_def small_channel_client small_channel_find small_channel_mems deopped_def
        is_deop_def has_flag_def CHFL_CHANOP_def CHFL_DEOPPED_def mode_result_of_def
        del: One_nat_def check_channel_name.simps)
  then show ?thesis
    using mode_commands_keep_world [OF small_channel_inv, of ?p out ?w small_env 1 1] by (simp add: nul_free_def)
qed

definition told_or_spied :: "cid \<Rightarrow> msg list \<Rightarrow> bool" where
  "told_or_spied c out = (\<forall>m \<in> set out. (\<exists>n args. m = Numeric c n args) \<or> (\<exists>cmd n. m = OperSpy c cmd n))"

lemma told_or_spied_simps [simp]:
  "told_or_spied c []" "told_or_spied c (Numeric c n args # out) = told_or_spied c out"
  "told_or_spied c (OperSpy c cmd n # out) = told_or_spied c out"
  by (auto simp: told_or_spied_def)

lemma m_mode_cases:
  "m_mode env client_p source_p parv w = ToUserMode \<or>
   (\<exists>out. m_mode env client_p source_p parv w = Done out w \<and> told_or_spied source_p out) \<or>
   (\<exists>k ch w1. find_channel w k = Some ch \<and> k \<in> {parv ! 1, tl (parv ! 1)} \<and> w1 \<in> {w, flood_endgrace source_p w} \<and>
      m_mode env client_p source_p parv w = mode_result_of (set_channel_mode env client_p source_p ch
        (find_channel_membership w ch source_p) (drop 2 parv) w1))"
proof -
  define op where "op = (cl_operspy (client_of w source_p) \<and> char_at (parv ! 1) 0 = CHR ''!'')"
  define k where "k = (if op then tl (parv ! 1) else parv ! 1)"
  define grace where "grace = (MyClient (client_of w source_p) \<and> \<not> cl_flood_done (client_of w source_p) \<and>
    \<not> (length parv = 3 \<and> parv ! 2 = ''b''))"
  note m = m_mode_def [of env client_p source_p parv w, unfolded Let_def, folded op_def, folded k_def, folded grace_def]
  consider "(op \<and> k = []) \<or> \<not> IsChanPrefix (char_at k 0) \<or> \<not> check_channel_name k \<or> find_channel w k = None"
    | ch where "\<not> (op \<and> k = [])" "IsChanPrefix (char_at k 0)" "check_channel_name k" "find_channel w k = Some ch"
    by blast
  then show ?thesis
  proof cases
    case 1
    then show ?thesis unfolding m by (cases "op \<and> k = []") auto
  next
    case (2 ch)
    have k: "k \<in> {parv ! 1, tl (parv ! 1)}" by (simp add: k_def)
    show ?thesis
    proof (cases "length parv < 3 \<or> deopped w (find_channel_membership w ch source_p)")
      case True
      then show ?thesis unfolding m using 2 by (cases op; cases "length parv < 3") simp_all
    next
      case False
      then have e: "m_mode env client_p source_p parv w = mode_result_of (set_channel_mode env client_p source_p ch
          (find_channel_membership w ch source_p) (drop 2 parv)
          (if grace then flood_endgrace source_p w else w))"
        unfolding m using 2 by (cases op) (simp_all split del: if_split)
      have "(if b then flood_endgrace source_p w else w) \<in> {w, flood_endgrace source_p w}" for b by simp
      then show ?thesis using e 2(4) k by blast
    qed
  qed
qed

text \<open>
  C4: a local client that is not an operator of the channel cannot change it with MODE,
  whatever the parameters: the world stays as it is, but for the client's flood grace, and
  all that is sent is numerics to the client and the notice of an operator's spying. The
  command does not fail.
\<close>

theorem m_mode_unprivileged:
  assumes "MyClient (client_of w source_p)"
    and "\<And>k ch. k \<in> {parv ! 1, tl (parv ! 1)} \<Longrightarrow> find_channel w k = Some ch \<Longrightarrow>
           not_chanop w (find_channel_membership w ch source_p)"
  shows "m_mode env client_p source_p parv w = ToUserMode \<or>
    (\<exists>out w'. m_mode env client_p source_p parv w = Done out w' \<and> w' \<in> {w, flood_endgrace source_p w} \<and>
      told_or_spied source_p out)"
proof -
  have refused: "\<exists>out. mode_result_of (set_channel_mode env client_p source_p ch
        (find_channel_membership w ch source_p) (drop 2 parv) w1) = Done out w1 \<and> told_or_spied source_p out"
    if w1: "w1 \<in> {w, flood_endgrace source_p w}" and f: "find_channel w k = Some ch" "k \<in> {parv ! 1, tl (parv ! 1)}"
    for w1 k ch
  proof -
    have "MyClient (client_of w1 source_p)" "not_chanop w1 (find_channel_membership w ch source_p)"
      using w1 assms(1) assms(2) [OF f(2,1)] by (auto simp: not_chanop_def split: option.splits)
    from set_channel_mode_refused [OF this, of env client_p ch "drop 2 parv"]
    show ?thesis unfolding mode_result_of_Done told_or_spied_def by (elim exE conjE) (rule exI, blast)
  qed
  from m_mode_cases [of env client_p source_p parv w] show ?thesis
    by (elim disjE exE conjE) (blast, blast, metis refused)
qed

theorem m_mode_unprivileged_witness:
  "\<exists>out w'. m_mode small_env 2 2 [''MODE'', ''#ircd'', ''+mo-k'', ''nick''] small_channel = Done out w' \<and>
     w' \<in> {small_channel, flood_endgrace 2 small_channel} \<and> told_or_spied 2 out"
proof -
  let ?p = "[''MODE'', ''#ircd'', ''+mo-k'', ''nick'']"
  have f: "find_channel small_channel ''ircd'' = None"
  proof -
    have "\<not> irc_eq ''ircd'' ''#ircd''" by code_simp
    moreover have "w_global small_channel = [10]"
      by (simp add: small_channel_def small_world_create Let_def add_user_to_channel_def)
    ultimately show ?thesis
      using find_channel_rep [of small_channel "''ircd''"] small_channel_inv
      by (simp add: world_inv_def ix_lookup_def small_channel_chan(2) new_channel_def nul_free_def)
  qed
  have "IsChanPrefix (CHR ''#'')" "check_channel_name ''#ircd''" by code_simp+
  then have "m_mode small_env 2 2 ?p small_channel \<noteq> ToUserMode"
    by (simp add: m_mode_def Let_def char_at_def small_channel_client small_channel_find mode_result_of_def
        split: sum.split del: check_channel_name.simps)
  moreover have "not_chanop small_channel (find_channel_membership small_channel ch 2)"
    if k: "k \<in> {?p ! 1, tl (?p ! 1)}" "find_channel small_channel k = Some ch" for k ch
    using k f by (auto simp: small_channel_find small_channel_mems(2) not_chanop_def)
  ultimately show ?thesis
    using m_mode_unprivileged [OF small_channel_bans(2), of ?p 2 small_env 2] by blast
qed

section \<open>How many changes a client gets\<close>

text \<open>The changes so far whose letter is one of \<open>ls\<close>.\<close>

definition changes_in :: "cstring \<Rightarrow> mode_state \<Rightarrow> nat" where
  "changes_in ls s = length (filter (\<lambda>g. cg_letter g \<in> set ls) (md_changes s))"

definition param_modes :: cstring where "param_modes = ''beIov''"
definition limited_modes :: cstring where "limited_modes = ''beIovimnpst''"

definition within_limit :: "mode_state \<Rightarrow> bool" where
  "within_limit s =
     (changes_in param_modes s \<le> min (md_limit s) MAXMODEPARAMS \<and>
      changes_in limited_modes s \<le> min (md_limit s) (9 + MAXMODEPARAMS))"

text \<open>The source of a command is a local client, and stays one.\<close>

definition by_local :: "chm_args \<Rightarrow> mode_state \<Rightarrow> bool" where
  "by_local a s = MyClient (md_client s (ca_source a))"

lemma changes_in_push:
  "changes_in ls (s\<lparr>md_changes := md_changes s @ [g]\<rparr>) =
     changes_in ls s + (if cg_letter g \<in> set ls then 1 else 0)"
  by (simp add: changes_in_def)

lemma changes_in_cong: "md_changes s' = md_changes s \<Longrightarrow> changes_in ls s' = changes_in ls s"
  by (simp add: changes_in_def)

lemma within_same:
  "within_limit s \<Longrightarrow> md_changes s' = md_changes s \<Longrightarrow> md_limit s \<le> md_limit s' \<Longrightarrow> within_limit s'"
  by (auto simp: within_limit_def changes_in_def)

lemma within_other:
  assumes "within_limit s" "md_changes s' = md_changes s @ [g]" "md_limit s' = md_limit s"
    and "cg_letter g \<notin> set limited_modes"
  shows "within_limit s'"
proof -
  have "set param_modes \<subseteq> set limited_modes" by code_simp
  then show ?thesis using assms by (auto simp: within_limit_def changes_in_def)
qed

text \<open>A change made after the count was raised and found within a limit.\<close>

lemma within_counted:
  assumes "within_limit s" "md_changes s' = md_changes s @ [g]" "md_limit s' = md_limit s + 1"
    and "md_limit s' \<le> 9 + MAXMODEPARAMS" "cg_letter g \<in> set param_modes \<longrightarrow> md_limit s' \<le> MAXMODEPARAMS"
  shows "within_limit s'"
  using assms by (auto simp: within_limit_def changes_in_def)

lemma within_splat:
  "within_limit (s\<lparr>md_changes := splat_keys (md_changes s)\<rparr>) = within_limit s"
proof -
  have "length (filter (\<lambda>g. cg_letter g \<in> set ls) (splat_keys gs)) = length (filter (\<lambda>g. cg_letter g \<in> set ls) gs)" for ls gs
    by (induction gs) (auto simp: splat_keys_def)
  then show ?thesis by (simp add: within_limit_def changes_in_def)
qed

lemma over_limit_local:
  "by_local a s \<Longrightarrow> over_limit a n s = (md_limit s + 1 > n, s\<lparr>md_limit := md_limit s + 1\<rparr>)"
  by (simp add: over_limit_def by_local_def)

lemma nosuch_within: "within_limit s \<Longrightarrow> chm_nosuch env a s = Inr s' \<Longrightarrow> within_limit s'"
  by (auto simp: chm_nosuch_def elim: within_same split: if_splits)

lemma simple_within:
  assumes "within_limit s" "by_local a s" "ca_c a \<notin> set param_modes" "chm_simple env a s = Inr s'"
  shows "within_limit s'"
  using assms within_same [OF assms(1), of s'] within_counted [OF assms(1), of s']
  by (auto simp: chm_simple_def over_limit_local Let_def push_change_Inr simple_change_def split: if_splits)

lemma sslonly_within:
  assumes "within_limit s" "ca_c a \<notin> set limited_modes" "chm_sslonly env a s = Inr s'"
  shows "within_limit s'"
  using assms within_same [OF assms(1), of s'] within_other [OF assms(1), of s']
  by (auto simp: chm_sslonly_def Let_def push_change_Inr simple_change_def split: if_splits)

lemma limit_within:
  assumes "within_limit s" "ca_c a \<notin> set limited_modes" "chm_limit env a s = Inr s'"
  shows "within_limit s'"
  using assms within_same [OF assms(1), of s'] within_other [OF assms(1), of s']
  by (auto simp: chm_limit_def Let_def push_change_Inr and_then_Inr simple_change_def split: if_splits)

lemma key_within:
  assumes "within_limit s" "ca_c a \<notin> set limited_modes" "chm_key env a s = Inr s'"
  shows "within_limit s'"
proof -
  have sp: "within_limit (s\<lparr>md_changes := splat_keys (md_changes s)\<rparr>)" using assms(1) by (simp add: within_splat)
  show ?thesis
    using assms within_other [OF sp, of s'] within_other [OF assms(1), of s'] within_same [OF assms(1), of s']
    by (auto simp: chm_key_def Let_def push_change_Inr simple_change_def split: if_splits)
qed

lemma ban_apply_changes:
  assumes "chm_ban_apply env a raw pat caps mems s = Inr s'"
  shows "md_limit s' = md_limit s \<and> (md_changes s' = md_changes s \<or> (\<exists>g. md_changes s' = md_changes s @ [g]))"
  using assms
  by (auto simp: chm_ban_apply_def Let_def push_change_Inr split: if_splits prod.splits bool.splits)

lemma ban_within:
  assumes "within_limit s" "by_local a s" "chm_ban env a s = Inr s'"
  shows "within_limit s'"
proof -
  have same: "within_limit s'" if "md_changes s' = md_changes s" "md_limit s \<le> md_limit s'"
    using within_same [OF assms(1)] that .
  have one: "within_limit s'"
    if "chm_ban_apply env a raw pat caps mems t = Inr s'" "md_changes t = md_changes s" "md_limit t = md_limit s + 1"
      "md_limit s < MAXMODEPARAMS" for raw pat caps mems t
    using ban_apply_changes [OF that(1)] that(2-4) same within_counted [OF assms(1), of s'] by auto
  show ?thesis
    using assms(2,3) same one
    by (auto simp: chm_ban_def Let_def over_limit_local split: if_splits option.splits prod.splits)
qed

lemma target_limit:
  assumes "chm_target env a s = (r, s')" "by_local a s"
  shows "md_changes s' = md_changes s \<and> md_limit s \<le> md_limit s' \<and>
    (r \<noteq> None \<longrightarrow> md_limit s' = md_limit s + 1 \<and> md_limit s' \<le> MAXMODEPARAMS)"
proof -
  have l: "by_local a (t\<lparr>md_parn := n, md_out := ou\<rparr>) = by_local a t" for t n ou by (simp add: by_local_def md_client_def)
  show ?thesis
    using assms
    by (auto simp: chm_target_def Let_def over_limit_local l split: if_splits option.splits prod.splits)
qed

lemma op_within:
  assumes "within_limit s" "by_local a s" "chm_op env a s = Inr s'"
  shows "within_limit s'"
proof (cases "chm_target env a s")
  case (Pair r t)
  show ?thesis
    using assms(3) Pair target_limit [OF Pair assms(2)] within_same [OF assms(1), of s'] within_counted [OF assms(1), of s']
    by (auto simp: chm_op_def push_change_Inr and_then_Inr split: if_splits option.splits prod.splits)
qed

lemma voice_within:
  assumes "within_limit s" "by_local a s" "chm_voice env a s = Inr s'"
  shows "within_limit s'"
proof (cases "chm_target env a s")
  case (Pair r t)
  show ?thesis
    using assms(3) Pair target_limit [OF Pair assms(2)] within_same [OF assms(1), of s'] within_counted [OF assms(1), of s']
    by (auto simp: chm_voice_def push_change_Inr and_then_Inr split: if_splits option.splits prod.splits)
qed

lemma table_letters:
  "list_all (\<lambda>c. fst (ModeTable ! table_position c) \<in> {F_ban, F_op, F_voice}) param_modes"
  "list_all (\<lambda>c. fst (ModeTable ! table_position c) \<in> {F_ban, F_op, F_voice, F_simple}) limited_modes"
  by code_simp+

lemma run_func_within:
  assumes f: "ModeTable ! table_position c = (f, t)" and "within_limit s" "by_local a s" "ca_c a = c"
    and "run_func f env a s = Inr s'"
  shows "within_limit s'"
proof -
  have p: "c \<notin> set param_modes" if "f \<notin> {F_ban, F_op, F_voice}"
    using table_letters(1) f that by (auto simp: list_all_iff)
  have l: "c \<notin> set limited_modes" if "f \<notin> {F_ban, F_op, F_voice, F_simple}"
    using table_letters(2) f that by (auto simp: list_all_iff)
  show ?thesis
    using assms p l
    by (cases f) (auto simp: run_func_def intro: nosuch_within simple_within ban_within op_within voice_within
        limit_within key_within sslonly_within)
qed

lemma loop_within:
  "mode_letters_loop env a d ml s = Inr s' \<Longrightarrow> within_limit s \<Longrightarrow> by_local a s \<Longrightarrow> within_limit s'"
proof (induction ml arbitrary: d s)
  case (Cons c ml)
  obtain f t where ft: "ModeTable ! table_position c = (f, t)" by (cases "ModeTable ! table_position c")
  let ?a = "a\<lparr>ca_dir := d, ca_c := c, ca_type := t\<rparr>"
  have *: "within_limit s'" if "run_func f env ?a s = Inr s1" "mode_letters_loop env a d ml s1 = Inr s'" for s1
  proof -
    have "within_limit s1" using run_func_within [OF ft Cons.prems(2) _ _ that(1)] Cons.prems(3) by (simp add: by_local_def)
    moreover have "by_local a s1"
      using run_func_sound [OF that(1)] Cons.prems(3) by (simp add: by_local_def md_client_def sound_step_def)
    ultimately show ?thesis using Cons.IH [OF that(2)] by simp
  qed
  show ?case
    using Cons.prems * Cons.IH ft by (auto simp: and_then_Inr split: if_splits)
qed simp

text \<open>
  one MODE command of a local client makes at most \<open>MAXMODEPARAMS\<close> changes of operators,
  voices, bans, exceptions and invite exceptions, and at most \<open>MAXMODEPARAMS + 9\<close> changes of
  these and the simple flags together, whatever the mode string. (Keys, limits and \<open>+S\<close> are
  not counted.)
\<close>

theorem mode_change_limit:
  assumes "MyClient (client_of w source_p)"
    and "mode_letters_loop env (mode_args source_p ch mp parv w) MODE_ADD (parv ! 0) (mode_start w) = Inr s"
  shows "changes_in param_modes s \<le> MAXMODEPARAMS \<and> changes_in limited_modes s \<le> MAXMODEPARAMS + 9"
proof -
  have "within_limit (mode_start w)" by (simp add: within_limit_def changes_in_def)
  then have "within_limit s"
    using loop_within [OF assms(2)] assms(1) by (simp add: by_local_def md_client_def)
  then show ?thesis by (auto simp: within_limit_def)
qed

theorem mode_change_limit_witness:
  "\<exists>s. mode_letters_loop small_env (mode_args 2 10 None [''+oooooo'', ''a''] small_channel) MODE_ADD ''+oooooo''
      (mode_start small_channel) = Inr s \<and> changes_in param_modes s \<le> MAXMODEPARAMS"
proof -
  let ?a = "mode_args 2 10 None [''+oooooo'', ''a''] small_channel"
  have "ca_alevel ?a \<noteq> CHFL_CHANOP"
    by (simp add: get_channel_access_def small_channel_bans(2) CHFL_PEON_def CHFL_CHANOP_def)
  then obtain s where "mode_letters_loop small_env ?a MODE_ADD ''+oooooo'' (mode_start small_channel) = Inr s"
    unfolding mode_letters_loop_handler using modes.loop_refuses by blast
  then show ?thesis
    using mode_change_limit [OF small_channel_bans(2), of small_env 2 10 None "[''+oooooo'', ''a'']" s] by auto
qed

section \<open>Commands that fail\<close>

text \<open>One step of the loop on a letter whose handler is known.\<close>

lemma loop_letter:
  assumes "ModeTable ! table_position c = (f, t)" "c \<notin> {CHR ''+'', CHR ''-'', CHR ''=''}"
  shows "mode_letters_loop env a d (c # ml) s =
    and_then (run_func f env (a\<lparr>ca_dir := d, ca_c := c, ca_type := t\<rparr>) s) (mode_letters_loop env a d ml)"
  using assms by simp

text \<open>A ban set by a local operator whose mask fits into \<open>mask_buf\<close>.\<close>

lemma chm_ban_fits:
  assumes "ca_alevel a = CHFL_CHANOP" "ca_dir a = MODE_ADD" "ca_type a = CHFL_BAN" "by_local a s"
    and "md_parn s < length (ca_parv a)" "md_limit s < MAXMODEPARAMS" "length (md_changes s) < IRCD_BUFSIZE"
    and "ca_parv a ! md_parn s = raw" "raw \<noteq> []" "char_at raw 0 \<noteq> CHR '':''"
    and "pretty_mask raw (md_mask_pos s) = Some (pat, pos)"
  shows "\<exists>s'. chm_ban env a s = Inr s' \<and> md_parn s' = md_parn s + 1 \<and> md_limit s' = md_limit s + 1 \<and>
    md_mask_pos s' = pos \<and> length (md_changes s') \<le> length (md_changes s) + 1 \<and> by_local a s'"
proof -
  let ?s = "s\<lparr>md_limit := md_limit s + 1, md_parn := md_parn s + 1, md_mask_pos := pos\<rparr>"
  have e: "chm_ban env a s = chm_ban_apply env a raw pat 0 ALL_MEMBERS ?s"
    using assms by (simp add: chm_ban_def chm_ban_setup_def Let_def over_limit_local by_local_def md_client_def)
  obtain ok out w where add: "add_id (me_cfg env) (ca_source a) (ca_chptr a) pat CHFL_BAN (md_world s) = (ok, out, w)"
    by (cases "add_id (me_cfg env) (ca_source a) (ca_chptr a) pat CHFL_BAN (md_world s)")
  have "w_clients w = w_clients (md_world s)" using add_id_sound [OF add] by (simp add: sound_step_def)
  then show ?thesis
    unfolding e using assms(2-4,7) add
    by (auto simp: chm_ban_apply_def Let_def push_change_def by_local_def md_client_def)
qed

text \<open>
  C33: a local channel operator can make the server read through a null pointer with one
  line: after three short bans, \<open>pretty_mask\<close> refuses a fourth mask that does not fit into the
  rest of its buffer, and \<open>chm_ban\<close> takes the length of the result without looking. The line
  with the shortest channel name is within the 510 bytes of an IRC message.
\<close>

theorem mode_long_mask_crashes:
  assumes "MyClient (client_of w source_p)" "is_chanop (mem_of w m)"
  shows "set_channel_mode env client_p source_p ch (Some m)
     [''bbbb'', ''a'', ''b'', ''c'', replicate 490 (CHR ''d'')] w = Inl NullDeref"
proof -
  let ?parv = "[''bbbb'', ''a'', ''b'', ''c'', replicate 490 (CHR ''d'')]"
  let ?b = "\<lambda>a. a\<lparr>ca_dir := MODE_ADD, ca_c := CHR ''b'', ca_type := CHFL_BAN\<rparr>"
  define a where "a = mode_args source_p ch (Some m) ?parv w"
  have a: "ca_alevel a = CHFL_CHANOP" "ca_parv a = ?parv" "ca_source a = source_p"
    using assms(2) by (simp_all add: a_def get_channel_access_def)
  have t: "ModeTable ! table_position (CHR ''b'') = (F_ban, CHFL_BAN)" by code_simp
  have l: "by_local (?b a) s = by_local a s" for s by (simp add: by_local_def)
  have pm: "pretty_mask ''a'' 0 = Some (''a!*@*'', 6)" "pretty_mask ''b'' 6 = Some (''b!*@*'', 12)"
    "pretty_mask ''c'' 12 = Some (''c!*@*'', 18)" "pretty_mask (replicate 490 (CHR ''d'')) 18 = None"
    by code_simp+
  note step = chm_ban_fits [of "?b a", simplified, unfolded l]
  have s0: "by_local a (mode_start w)" using assms(1) a(3) by (simp add: by_local_def md_client_def)
  obtain s1 where s1: "chm_ban env (?b a) (mode_start w) = Inr s1" "md_parn s1 = 2" "md_limit s1 = 1" "md_mask_pos s1 = 6"
      "length (md_changes s1) \<le> 1" "by_local a s1"
    using step [of "mode_start w" "''a''" "''a!*@*''" 6 env] a pm s0
    by (auto simp: numeral_2_eq_2 mode_start_def MAXMODEPARAMS_def IRCD_BUFSIZE_def char_at_def)
  obtain s2 where s2: "chm_ban env (?b a) s1 = Inr s2" "md_parn s2 = 3" "md_limit s2 = 2" "md_mask_pos s2 = 12"
      "length (md_changes s2) \<le> 2" "by_local a s2"
    using step [of s1 "''b''" "''b!*@*''" 12 env] a pm s1 by (auto simp: MAXMODEPARAMS_def IRCD_BUFSIZE_def char_at_def)
  obtain s3 where s3: "chm_ban env (?b a) s2 = Inr s3" "md_parn s3 = 4" "md_limit s3 = 3" "md_mask_pos s3 = 18" "by_local a s3"
    using step [of s2 "''c''" "''c!*@*''" 18 env] a pm s2 by (auto simp: MAXMODEPARAMS_def IRCD_BUFSIZE_def char_at_def)
  have "chm_ban env (?b a) s3 = Inl NullDeref"
    using a pm(4) s3
    by (simp add: chm_ban_def chm_ban_setup_def Let_def over_limit_local l by_local_def md_client_def MAXMODEPARAMS_def char_at_def)
  then have "mode_letters_loop env a MODE_ADD ''bbbb'' (mode_start w) = Inl NullDeref"
    using s1(1) s2(1) s3(1) by (simp add: t run_func_def and_then_def)
  then show ?thesis by (simp add: set_channel_mode_def and_then_def a_def)
qed

theorem mode_long_mask_crashes_witness:
  "set_channel_mode small_env 1 1 10 (Some 11) [''bbbb'', ''a'', ''b'', ''c'', replicate 490 (CHR ''d'')] small_channel =
     Inl NullDeref"
  by (rule mode_long_mask_crashes [OF small_channel_bans(2)])
     (simp add: small_channel_mems(3) is_chanop_def has_flag_def CHFL_CHANOP_def)

text \<open>The state while a local operator toggles \<open>S\<close>.\<close>

definition toggling :: "mode_env \<Rightarrow> chm_args \<Rightarrow> cstring \<Rightarrow> client \<Rightarrow> mode_state \<Rightarrow> bool" where
  "toggling env a name c s =
     (ca_alevel a = CHFL_CHANOP \<and> use_sslonly (me_cfg env) \<and> MyClient c \<and> md_client s (ca_source a) = c \<and>
      \<not> has_flag (ch_mode (md_chan s (ca_chptr a))) MODE_SSLONLY \<and> ch_chname (md_chan s (ca_chptr a)) = name)"

definition S_changes :: "nat \<Rightarrow> ChModeChange list" where
  "S_changes k = concat (replicate k
     [simple_change (CHR ''S'') MODE_ADD ArgNull, simple_change (CHR ''S'') MODE_DEL ArgNull])"

lemma S_bit:
  "has_flag (m OR MODE_SSLONLY) MODE_SSLONLY" "\<not> has_flag (m AND NOT MODE_SSLONLY) MODE_SSLONLY"
  by (simp_all add: has_flag_or has_flag_cleared) (simp add: has_flag_def MODE_SSLONLY_def)

lemma toggle_round:
  assumes "toggling env a name c s" "length (md_changes s) + 2 \<le> IRCD_BUFSIZE"
  shows "\<exists>s'. mode_letters_loop env a d (''+S-S'' @ ml) s = mode_letters_loop env a MODE_DEL ml s' \<and>
    toggling env a name c s' \<and> md_changes s' = md_changes s @ S_changes 1"
proof -
  have t: "ModeTable ! table_position (CHR ''S'') = (F_sslonly, MODE_SSLONLY)" by code_simp
  let ?w = "upd_chan (ca_chptr a) (set_mode_bit MODE_SSLONLY MODE_ADD) (md_world s)"
  let ?s1 = "s\<lparr>md_world := ?w, md_changes := md_changes s @ [simple_change (CHR ''S'') MODE_ADD ArgNull]\<rparr>"
  let ?s2 = "?s1\<lparr>md_world := upd_chan (ca_chptr a) (set_mode_bit MODE_SSLONLY MODE_DEL) ?w,
    md_changes := md_changes s @ S_changes 1\<rparr>"
  have "run_func F_sslonly env (a\<lparr>ca_dir := MODE_ADD, ca_c := CHR ''S'', ca_type := MODE_SSLONLY\<rparr>) s = Inr ?s1"
    using assms
    by (simp add: toggling_def run_func_def chm_sslonly_def Let_def push_change_def on_world_def)
  moreover have "run_func F_sslonly env (a\<lparr>ca_dir := MODE_DEL, ca_c := CHR ''S'', ca_type := MODE_SSLONLY\<rparr>) ?s1 = Inr ?s2"
    using assms
    by (simp add: toggling_def run_func_def chm_sslonly_def Let_def push_change_def on_world_def md_chan_def
        set_mode_bit_def S_bit S_changes_def)
  moreover have "toggling env a name c ?s2"
    using assms(1) by (simp add: toggling_def md_client_def md_chan_def set_mode_bit_def S_bit)
  ultimately show ?thesis by (intro exI [of _ ?s2]) (simp add: t and_then_def)
qed

lemma toggle_rounds:
  "toggling env a name c s \<Longrightarrow> length (md_changes s) + 2 * k \<le> IRCD_BUFSIZE \<Longrightarrow>
   \<exists>s'. mode_letters_loop env a d (concat (replicate k ''+S-S'')) s = Inr s' \<and>
     toggling env a name c s' \<and> md_changes s' = md_changes s @ S_changes k"
proof (induction k arbitrary: s d)
  case 0
  then show ?case by (simp add: S_changes_def)
next
  case (Suc k)
  obtain s1 where s1: "mode_letters_loop env a d (''+S-S'' @ concat (replicate k ''+S-S'')) s =
      mode_letters_loop env a MODE_DEL (concat (replicate k ''+S-S'')) s1"
      "toggling env a name c s1" "md_changes s1 = md_changes s @ S_changes 1"
    using toggle_round [OF Suc.prems(1), of d "concat (replicate k ''+S-S'')"] Suc.prems(2) by auto
  moreover have "length (md_changes s1) + 2 * k \<le> IRCD_BUFSIZE"
    using s1(3) Suc.prems(2) by (simp add: S_changes_def)
  ultimately show ?case using Suc.IH [of s1 MODE_DEL] by (simp add: S_changes_def)
qed

lemma toggles_overflow:
  "ln_dir l \<noteq> MODE_ADD \<Longrightarrow> ln_para l = [] \<Longrightarrow> res ArgNull = None \<Longrightarrow>
   length (ln_mode l) + 4 * k > IRCD_BUFSIZE \<Longrightarrow> length (ln_mode l) \<le> IRCD_BUFSIZE \<Longrightarrow>
   local_changes ALL_MEMBERS ch pre res (S_changes k) l = Inl BufOverflow"
proof (induction k arbitrary: l)
  case (Suc k)
  let ?l1 = "l\<lparr>ln_mode := ln_mode l @ ''+S'', ln_dir := MODE_ADD\<rparr>"
  let ?l2 = "l\<lparr>ln_mode := ln_mode l @ ''+S-S'', ln_para := [], ln_dir := MODE_DEL\<rparr>"
  have g: "S_changes (Suc k) = simple_change (CHR ''S'') MODE_ADD ArgNull #
      simple_change (CHR ''S'') MODE_DEL ArgNull # S_changes k" by (simp add: S_changes_def)
  have lc: "local_change ALL_MEMBERS ch pre res (simple_change (CHR ''S'') d ArgNull) l' =
      put_change (CHR ''S'') d None l'" for l' d
    using Suc.prems(3) by (simp add: local_change_def simple_change_def arg_too_long_def line_full_def Let_def)
  show ?case
  proof (cases "length (ln_mode l) + 4 \<le> IRCD_BUFSIZE")
    case True
    then have "local_changes ALL_MEMBERS ch pre res (S_changes k) ?l2 = Inl BufOverflow"
      using Suc.prems by (intro Suc.IH) auto
    then show ?thesis
      using True Suc.prems(1,2) unfolding g
      by (simp add: lc put_change_def and_then_def IRCD_BUFSIZE_def)
  next
    case False
    then show ?thesis
      using Suc.prems(1,2) unfolding g
      by (simp add: lc put_change_def and_then_def IRCD_BUFSIZE_def)
  qed
qed simp

text \<open>
  C34: \<open>chm_sslonly\<close> does not count its changes, so a local channel operator can fill
  \<open>modebuf\<close> beyond its end by toggling \<open>S\<close> often enough in one command: with \<open>k\<close> rounds, if
  the prefix of the line and four bytes per round exceed the buffer.
\<close>

theorem mode_sslonly_overflow:
  assumes "MyClient (client_of w source_p)" "is_chanop (mem_of w m)" "use_sslonly (me_cfg env)"
    and "\<not> has_flag (ch_mode (chan_of w ch)) MODE_SSLONLY" "2 * k \<le> IRCD_BUFSIZE" "0 < k"
    and "length (local_prefix (client_of w source_p) (chan_of w ch)) + 4 * k > IRCD_BUFSIZE"
  shows "set_channel_mode env client_p source_p ch (Some m) [concat (replicate k ''+S-S'')] w = Inl BufOverflow"
proof -
  define a where "a = mode_args source_p ch (Some m) [concat (replicate k ''+S-S'')] w"
  let ?c = "client_of w source_p" and ?n = "ch_chname (chan_of w ch)"
  have "toggling env a ?n ?c (mode_start w)"
    using assms(1-4) by (simp add: toggling_def a_def get_channel_access_def md_client_def md_chan_def)
  then obtain s where s: "mode_letters_loop env a MODE_ADD (concat (replicate k ''+S-S'')) (mode_start w) = Inr s"
      "toggling env a ?n ?c s" "md_changes s = S_changes k"
    using toggle_rounds [of env a ?n ?c "mode_start w" k MODE_ADD] assms(5) by auto
  have ne: "md_changes s \<noteq> []" using s(3) assms(6) by (cases k) (simp_all add: S_changes_def)
  let ?pre = "local_prefix (md_client s source_p) (md_chan s ch)"
  have pre: "?pre = local_prefix ?c (chan_of w ch)"
    using s(2) by (simp add: toggling_def a_def local_prefix_def)
  have "send_local ALL_MEMBERS ch ?pre (resolve_arg key ls) (S_changes k) = Inl BufOverflow"
    if "length ?pre < IRCD_BUFSIZE" for key ls
    using toggles_overflow [of "fresh_line ?pre []" "resolve_arg key ls" k ch ?pre] that assms(7) pre
    by (simp add: fresh_line_def resolve_arg_def send_local_def and_then_def)
  then show ?thesis
    using s(1,3) ne by (auto simp: set_channel_mode_def and_then_def a_def [symmetric] Let_def)
qed

theorem mode_sslonly_overflow_witness:
  "set_channel_mode small_env 1 1 10 (Some 11) [concat (replicate 124 ''+S-S'')] small_channel = Inl BufOverflow"
proof (rule mode_sslonly_overflow [OF small_channel_bans(2)])
  show "is_chanop (mem_of small_channel 11)"
    by (simp add: small_channel_mems(3) is_chanop_def has_flag_def CHFL_CHANOP_def)
  show "\<not> has_flag (ch_mode (chan_of small_channel 10)) MODE_SSLONLY"
    by (simp add: small_channel_chan(2) new_channel_def has_flag_def)
  show "length (local_prefix (client_of small_channel 1) (chan_of small_channel 10)) + 4 * 124 > IRCD_BUFSIZE"
    using small_channel_client [of 1]
    by (simp add: local_prefix_def small_channel_chan(2) new_channel_def IRCD_BUFSIZE_def)
qed (simp_all add: small_env_def small_config_def IRCD_BUFSIZE_def)

end
