(* ===== verification/Parse.thy ===== *)
theory Parse
  imports Mode
begin

unbundle bit_operations_syntax

text \<open>
  From a line to a command: \<open>rb_string_to_array\<close> (\<open>libratbox/src/tools.c\<close>) cuts a line into
  parameters, \<open>parse\<close> (\<open>src/parse.c\<close>) finds the sender and the command and
  \<open>handle_command\<close> checks the number of parameters and calls a handler. The table of
  commands, which the modules fill, is a state of its own; a handler is a value of a type
  parameter, and calling it is a result.
\<close>

section \<open>Parameters\<close>

definition skip_spaces :: "cstring \<Rightarrow> cstring" where
  "skip_spaces s = dropWhile (\<lambda>c. c = SPC) s"

definition drop_colon :: "cstring \<Rightarrow> cstring" where
  "drop_colon p = (case p of [] \<Rightarrow> [] | c # q \<Rightarrow> if c = CHR '':'' then q else p)"

text \<open>
  The loop, entered with \<open>xbuf\<close> at a character that is not a space, after \<open>x\<close> parameters.
  When the array is full, \<open>p\<close> points behind the space that ended the last parameter.
\<close>

function to_array :: "nat \<Rightarrow> nat \<Rightarrow> cstring \<Rightarrow> cstring list" where
  "to_array maxpara x xbuf =
     (if char_at xbuf 0 = CHR '':'' then [tl xbuf]
      else case strchr_cut SPC xbuf of
             None \<Rightarrow> [xbuf]
           | Some (param, p) \<Rightarrow>
               (let xbuf' = skip_spaces p
                in if xbuf' = [] then [param]
                   else if x + 1 < maxpara - 1 then param # to_array maxpara (x + 1) xbuf'
                   else [param, drop_colon p]))"
  by pat_completeness auto
termination
  by (relation "measure (\<lambda>(m, x, s). length s)")
     (auto simp: skip_spaces_def dest!: strchr_cut_SomeD intro: le_less_trans [OF length_dropWhile_le])

declare to_array.simps [simp del]

definition rb_string_to_array :: "cstring \<Rightarrow> nat \<Rightarrow> cstring list" where
  "rb_string_to_array s maxpara =
     (if s = [] then []
      else (let xbuf = skip_spaces s in if xbuf = [] then [] else to_array maxpara 0 xbuf))"

definition MAXPARA :: nat where "MAXPARA = 15"

section \<open>Commands\<close>

datatype HandlerType =
  UNREGISTERED_HANDLER | CLIENT_HANDLER | RCLIENT_HANDLER | SERVER_HANDLER | ENCAP_HANDLER | OPER_HANDLER

text \<open>\<open>mh_handler\<close> is \<open>None\<close> for a null pointer.\<close>

record 'h MessageEntry =
  mh_handler :: "'h option"
  mh_min_para :: nat

record 'h Message =
  mg_cmd :: "cstring option"
  mg_count :: nat
  mg_rcount :: nat
  mg_bytes :: int
  mg_handlers :: "HandlerType \<Rightarrow> 'h MessageEntry"

record server_stats =
  is_unpf :: nat
  is_wrdi :: nat
  is_empt :: nat
  is_num :: nat
  is_unco :: nat

text \<open>
  What \<open>parse\<close> reads besides the world: the tables of names and ids (in \<open>pe_mode\<close>), the
  link a client is reached through (\<open>from\<close>), its kind of handler and whether it is dead.
\<close>

record parse_env =
  pe_mode :: mode_env
  pe_from :: "cid \<Rightarrow> cid"
  pe_handler :: "cid \<Rightarrow> HandlerType"
  pe_dead :: "cid \<Rightarrow> bool"

text \<open>The table of commands holds addresses of \<open>struct Message\<close> objects of the modules.\<close>

record 'h parse_state =
  ps_cmds :: "nat hash_f"
  ps_msgs :: "nat \<Rightarrow> 'h Message"
  ps_stats :: server_stats

text \<open>
  The ways \<open>parse\<close> ends: nothing, messages, a handler called (\<open>None\<close> is \<open>m_ignore\<close>) with
  the link, the source and \<open>parv\<close>, or the link closed after messages.
\<close>

datatype 'h parsed =
    Ignored
  | Told "msg list"
  | Call "'h option" cid cid "cstring list"
  | ExitLink cid "msg list"

definition upd_msg :: "nat \<Rightarrow> ('h Message \<Rightarrow> 'h Message) \<Rightarrow> 'h parse_state \<Rightarrow> 'h parse_state" where
  "upd_msg m f ps = ps\<lparr>ps_msgs := (ps_msgs ps)(m := f (ps_msgs ps m))\<rparr>"

text \<open>A null \<open>cmd\<close> is the empty name, which the table neither finds nor adds.\<close>

definition msg_name :: "'h Message \<Rightarrow> cstring" where
  "msg_name g = (case mg_cmd g of None \<Rightarrow> [] | Some c \<Rightarrow> c)"

definition mod_add_cmd :: "nat \<Rightarrow> 'h parse_state \<Rightarrow> 'h parse_state" where
  "mod_add_cmd m ps =
     (let cmd = msg_name (ps_msgs ps m)
      in if hash_find (ps_cmds ps) cmd \<noteq> None then ps
         else upd_msg m (\<lambda>g. g\<lparr>mg_count := 0, mg_rcount := 0, mg_bytes := 0\<rparr>)
                (ps\<lparr>ps_cmds := hash_add cmd m (ps_cmds ps)\<rparr>))"

definition mod_del_cmd :: "nat \<Rightarrow> 'h parse_state \<Rightarrow> 'h parse_state" where
  "mod_del_cmd m ps =
     (case hash_find (ps_cmds ps) (msg_name (ps_msgs ps m)) of
        None \<Rightarrow> ps
      | Some hnode \<Rightarrow> ps\<lparr>ps_cmds := hash_del_hnode hnode (ps_cmds ps)\<rparr>)"

section \<open>Finding the sender\<close>

text \<open>
  The names \<open>hash_find_masked_server\<close> looks up: for each dot of the copied name, the rest
  from that dot behind a star, which overwrites the character before the dot.
\<close>

definition masked_names :: "cstring \<Rightarrow> cstring list" where
  "masked_names buf = map (\<lambda>i. CHR ''*'' # drop i buf) (filter (\<lambda>i. buf ! i = CHR ''.'') [1 ..< length buf])"

fun first_some :: "('a \<Rightarrow> 'b option) \<Rightarrow> 'a list \<Rightarrow> 'b option" where
  "first_some f [] = None"
| "first_some f (x # xs) = (case f x of Some y \<Rightarrow> Some y | None \<Rightarrow> first_some f xs)"

text \<open>
  \<open>find_server\<close> and \<open>hash_find_masked_server\<close> call each other; a masked name starts with a
  star, on which the second returns at once, so the first level of the recursion is the
  last. \<open>find_server_with\<close> is the body of \<open>find_server\<close> with the call abstracted.
\<close>

definition find_server_with ::
  "(cstring \<Rightarrow> cid option) \<Rightarrow> mode_env \<Rightarrow> world \<Rightarrow> cid option \<Rightarrow> cstring \<Rightarrow> cid option" where
  "find_server_with masked env w source_p name =
     (if name = [] then None
      else if (case source_p of None \<Rightarrow> True | Some s \<Rightarrow> \<not> MyClient (client_of w s)) \<and>
              IsDigit (char_at name 0) \<and> length name = 3
           then hash_find_data (me_hash_id env) name
      else (case hash_find_data (me_hash_client env) name of
              Some t \<Rightarrow> if IsServer (client_of w t) \<or> IsMe (client_of w t) then Some t else masked name
            | None \<Rightarrow> masked name))"

definition hash_find_masked_server :: "mode_env \<Rightarrow> world \<Rightarrow> cid option \<Rightarrow> cstring \<Rightarrow> cid option" where
  "hash_find_masked_server env w source_p name =
     (if char_at name 0 = CHR ''*'' \<or> char_at name 0 = CHR ''.'' then None
      else first_some (find_server_with (\<lambda>n. None) env w source_p) (masked_names (strlcpy name (HOSTLEN + 1))))"

definition find_server :: "mode_env \<Rightarrow> world \<Rightarrow> cid option \<Rightarrow> cstring \<Rightarrow> cid option" where
  "find_server env w source_p = find_server_with (hash_find_masked_server env w source_p) env w source_p"

definition find_any_client :: "mode_env \<Rightarrow> world \<Rightarrow> cstring \<Rightarrow> cid option" where
  "find_any_client env w name =
     (if name = [] then None
      else if IsDigit (char_at name 0) then hash_find_data (me_hash_id env) name
      else case hash_find_data (me_hash_client env) name of
             Some c \<Rightarrow> Some c
           | None \<Rightarrow> hash_find_masked_server env w None name)"

definition get_id :: "parse_env \<Rightarrow> world \<Rightarrow> cid \<Rightarrow> cid \<Rightarrow> cstring" where
  "get_id env w source target =
     (let tf = client_of w (pe_from env target)
      in if IsServer tf \<and> cl_id tf \<noteq> [] then use_id (client_of w source) else cl_name (client_of w source))"

definition remove_unknown :: "parse_env \<Rightarrow> world \<Rightarrow> cid \<Rightarrow> cstring \<Rightarrow> cstring \<Rightarrow> msg list" where
  "remove_unknown env w client_p lsender lbuffer =
     (let name = cl_name (client_of w client_p)
      in if (IsDigit (char_at lsender 0) \<and> length lsender = 3) \<or> CHR ''.'' \<in> set lsender
         then [ToOpers (''Unknown prefix ('' @ lbuffer @ '') from '' @ name @ '', Squitting '' @ lsender),
               ToOne client_p ('':'' @ get_id env w me client_p @ '' SQUIT '' @ lsender @
                 '' :(Unknown prefix ('' @ lbuffer @ '') from '' @ name @ '')'')]
         else [ToOne client_p ('':'' @ get_id env w me client_p @ '' KILL '' @ lsender @ '' :'' @
                 cl_name (client_of w me) @ '' (Unknown Client)'')])"

definition cancel_clients :: "parse_env \<Rightarrow> world \<Rightarrow> cid \<Rightarrow> cid \<Rightarrow> msg list" where
  "cancel_clients env w client_p source_p =
     (let s = client_of w source_p; via = cl_name (client_of w (pe_from env source_p));
          c = cl_name (client_of w client_p)
      in if IsServer s \<or> IsMe s
         then [ToOpers (''Message for '' @ cl_name s @ ''['' @ via @ ''] from '' @ c)]
         else [ToOpers (''Message for '' @ cl_name s @ ''['' @ cl_username s @ ''@'' @ cl_host s @ ''!'' @ via @
                 ''] from '' @ c @ '' (TS, ignored)'')])"

section \<open>Handlers\<close>

definition params_ok :: "'h MessageEntry \<Rightarrow> cstring list \<Rightarrow> bool" where
  "params_ok e hpara =
     (mh_min_para e \<le> length hpara \<and> (mh_min_para e = 0 \<or> hpara ! (mh_min_para e - 1) \<noteq> []))"

definition handle_command ::
  "parse_env \<Rightarrow> world \<Rightarrow> nat \<Rightarrow> cid \<Rightarrow> cid \<Rightarrow> cstring list \<Rightarrow> 'h parse_state \<Rightarrow> 'h parsed \<times> 'h parse_state" where
  "handle_command env w mptr client_p from hpara ps =
     (if pe_dead env client_p then (Ignored, ps)
      else
        let server = IsServer (client_of w client_p);
            ps1 = upd_msg mptr (\<lambda>g. g\<lparr>mg_rcount := mg_rcount g + (if server then 1 else 0),
                    mg_count := mg_count g + 1\<rparr>) ps;
            e = mg_handlers (ps_msgs ps mptr) (pe_handler env from);
            cmd = msg_name (ps_msgs ps mptr);
            name = cl_name (client_of w client_p)
        in if \<not> params_ok e hpara then
             (if \<not> server then (Told [Numeric client_p ''ERR_NEEDMOREPARAMS'' [cmd]], ps1)
              else (ExitLink client_p
                      [ToOpers (''Dropping server '' @ name @ '' due to (invalid) command '' @ [CHR 0x27] @ cmd @
                         [CHR 0x27] @ '' with only '' @
                         string_of_nat (length hpara) @ '' arguments (expecting '' @
                         string_of_nat (mh_min_para e) @ '').'')], ps1))
           else (Call (mh_handler e) client_p from hpara, ps1))"

definition handle_encap ::
  "world \<Rightarrow> 'h parse_state \<Rightarrow> cid \<Rightarrow> cid \<Rightarrow> cstring \<Rightarrow> cstring list \<Rightarrow> 'h parsed" where
  "handle_encap w ps client_p source_p command parv =
     (let parv' = parv[0 := cl_name (client_of w source_p)]
      in case hash_find_data (ps_cmds ps) command of
           None \<Rightarrow> Ignored
         | Some m \<Rightarrow>
             if mg_cmd (ps_msgs ps m) = None then Ignored
             else let e = mg_handlers (ps_msgs ps m) ENCAP_HANDLER
                  in if params_ok e parv' then Call (mh_handler e) client_p source_p parv' else Ignored)"

section \<open>Numerics\<close>

definition ERR_NOSUCHNICK :: int where "ERR_NOSUCHNICK = 401"
definition ERR_NOSUCHSERVER :: int where "ERR_NOSUCHSERVER = 402"
definition ERR_UMODEUNKNOWNFLAG :: int where "ERR_UMODEUNKNOWNFLAG = 501"

definition remap_numeric :: "cstring \<Rightarrow> cstring" where
  "remap_numeric n = (case n of [] \<Rightarrow> [] | c # r \<Rightarrow> (if c = CHR ''0'' then CHR ''1'' else c) # r)"

text \<open>The static \<open>buffer\<close> of \<open>2 * IRCD_BUFSIZE\<close> bytes, for \<open>parc \<ge> 2\<close>.\<close>

definition numeric_buffer :: "cstring list \<Rightarrow> cstring" where
  "numeric_buffer parv =
     concat (map (\<lambda>p. SPC # p) (drop 2 (butlast parv))) @ '' :'' @ last parv"

definition do_numeric :: "parse_env \<Rightarrow> world \<Rightarrow> cstring \<Rightarrow> cid \<Rightarrow> cid \<Rightarrow> cstring list \<Rightarrow> msg list" where
  "do_numeric env w num client_p source_p parv =
     (if length parv < 2 \<or> \<not> IsServer (client_of w source_p) then []
      else
        let numeric = remap_numeric num; buffer = numeric_buffer parv;
            src = cl_name (client_of w source_p)
        in case find_client (pe_mode env) (parv ! 1) of
             Some target_p \<Rightarrow>
               if IsMe (client_of w target_p) then
                 (if atoi numeric \<noteq> ERR_NOSUCHNICK \<and> atoi numeric \<noteq> ERR_NOSUCHSERVER
                  then [ToOpers (''*** '' @ src @ ''(via '' @ cl_name (client_of w client_p) @ '') sent a '' @
                          numeric @ '' numeric to me: '' @ buffer)]
                  else [])
               else if pe_from env target_p = client_p then []
               else if atoi numeric = ERR_UMODEUNKNOWNFLAG \<and> MyClient (client_of w target_p) then []
               else [ToOne target_p ('':'' @ get_id env w source_p target_p @ '' '' @ numeric @ '' '' @
                       get_id env w target_p target_p @ buffer)]
           | None \<Rightarrow>
               (case find_channel w (parv ! 1) of
                  None \<Rightarrow> []
                | Some chptr \<Rightarrow> [ToChannel CHFL_PEON chptr
                    ('':'' @ src @ '' '' @ numeric @ '' '' @ ch_chname (chan_of w chptr) @ '' '' @ buffer)]))"

section \<open>Lines\<close>

text \<open>The prefix: the source and the rest of the line, or how the line ends here.\<close>

definition parse_prefix ::
  "parse_env \<Rightarrow> world \<Rightarrow> cid \<Rightarrow> cstring \<Rightarrow> 'h parse_state \<Rightarrow> ('h parsed \<times> 'h parse_state) + (cid \<times> cstring)" where
  "parse_prefix env w client_p pbuffer ps =
     (let ch = skip_spaces pbuffer
      in if char_at ch 0 \<noteq> CHR '':'' then Inr (client_p, ch)
         else
           let (sender, rest) = (case strchr_cut SPC (tl ch) of None \<Rightarrow> (tl ch, tl ch) | Some ab \<Rightarrow> ab)
           in if sender \<noteq> [] \<and> IsServer (client_of w client_p) then
                (case find_any_client (pe_mode env) w sender of
                   None \<Rightarrow>
                     Inl (Told (remove_unknown env w client_p sender (takeWhile (\<lambda>c. c = SPC) pbuffer @ '':'' @ sender)),
                       ps\<lparr>ps_stats := (ps_stats ps)\<lparr>is_unpf := is_unpf (ps_stats ps) + 1\<rparr>\<rparr>)
                 | Some from \<Rightarrow>
                     if pe_from env from \<noteq> client_p then
                       Inl (Told (cancel_clients env w client_p from),
                         ps\<lparr>ps_stats := (ps_stats ps)\<lparr>is_wrdi := is_wrdi (ps_stats ps) + 1\<rparr>\<rparr>)
                     else Inr (from, skip_spaces rest))
              else Inr (client_p, skip_spaces rest))"

text \<open>
  \<open>*end\<close> at the last byte before \<open>bufend\<close> and the one before it. \<open>len\<close> is
  \<open>bufend - pbuffer\<close>; it differs from the length of the C string only when the line holds a
  NUL, and then the bytes cut here are behind it.
\<close>

definition trim_eol :: "cstring \<Rightarrow> cstring" where
  "trim_eol s =
     (let s1 = (if s \<noteq> [] \<and> last s = LF then butlast s else s)
      in if s1 \<noteq> [] \<and> last s1 = CR then butlast s1 else s1)"

definition is_numeric :: "cstring \<Rightarrow> bool" where
  "is_numeric ch =
     (char_at ch 3 = SPC \<and> IsDigit (char_at ch 0) \<and> IsDigit (char_at ch 1) \<and> IsDigit (char_at ch 2))"

definition parse ::
  "parse_env \<Rightarrow> world \<Rightarrow> cid \<Rightarrow> cstring \<Rightarrow> nat \<Rightarrow> 'h parse_state \<Rightarrow> 'h parsed \<times> 'h parse_state" where
  "parse env w client_p pbuffer len ps =
     (if pe_dead env client_p then (Ignored, ps)
      else case parse_prefix env w client_p pbuffer ps of
        Inl r \<Rightarrow> r
      | Inr (from, ch) \<Rightarrow>
          let args = (\<lambda>s. cl_name (client_of w from) #
                        rb_string_to_array (if len = length pbuffer then trim_eol s else s) MAXPARA)
          in if ch = [] then
               (Ignored, ps\<lparr>ps_stats := (ps_stats ps)\<lparr>is_empt := is_empt (ps_stats ps) + 1\<rparr>\<rparr>)
             else if is_numeric ch then
               (Told (do_numeric env w (take 3 ch) client_p from (args (drop 4 ch))),
                ps\<lparr>ps_stats := (ps_stats ps)\<lparr>is_num := is_num (ps_stats ps) + 1\<rparr>\<rparr>)
             else
               let (cmd, s) = (case strchr_cut SPC ch of None \<Rightarrow> (ch, None) | Some (c, r) \<Rightarrow> (c, Some r));
                   unknown = ((if IsClient (client_of w from)
                                 then Told [Numeric from ''ERR_UNKNOWNCOMMAND'' [cmd]] else Ignored),
                              ps\<lparr>ps_stats := (ps_stats ps)\<lparr>is_unco := is_unco (ps_stats ps) + 1\<rparr>\<rparr>)
               in case hash_find_data (ps_cmds ps) cmd of
                    None \<Rightarrow> unknown
                  | Some m \<Rightarrow>
                      if mg_cmd (ps_msgs ps m) = None then unknown
                      else
                        let left = (case s of None \<Rightarrow> ch | Some r \<Rightarrow> r);
                            ii = int len - (int (length pbuffer) - int (length left));
                            ps1 = upd_msg m (\<lambda>g. g\<lparr>mg_bytes := mg_bytes g + ii\<rparr>) ps
                        in handle_command env w m client_p from
                             (case s of None \<Rightarrow> [cl_name (client_of w from)] | Some r \<Rightarrow> args r) ps1)"

section \<open>The default handlers\<close>

definition m_not_oper :: "cid \<Rightarrow> msg list" where
  "m_not_oper source_p = [Numeric source_p ''ERR_NOPRIVILEGES'' []]"

definition IsAnyServer :: "client \<Rightarrow> bool" where
  "IsAnyServer c = (cl_status c \<in> {STAT_HANDSHAKE, STAT_CONNECTING, STAT_SERVER})"

text \<open>With the link's \<open>number_of_nick_changes\<close> and its new value.\<close>

definition m_unregistered :: "world \<Rightarrow> cid \<Rightarrow> nat \<Rightarrow> msg list \<times> nat" where
  "m_unregistered w client_p number_of_nick_changes =
     (if IsAnyServer (client_of w client_p) then ([], number_of_nick_changes)
      else if number_of_nick_changes = 0
           then ([Numeric client_p ''ERR_NOTREGISTERED'' []], number_of_nick_changes + 1)
      else ([], number_of_nick_changes))"

definition m_registered :: "cid \<Rightarrow> msg list" where
  "m_registered client_p = [Numeric client_p ''ERR_ALREADYREGISTRED'' []]"

end
