(* ===== verification/ParseProps.thy ===== *)
theory ParseProps
  imports Parse
begin

text \<open>
  What the parser guarantees: the parameter array is never overrun and a line built from
  parameters is cut back into them; a handler runs only for a sender behind the link the line
  came from and only with the parameters it asked for; a numeric is never sent back.
\<close>

section \<open>Cutting into parameters\<close>

lemma skip_spaces_nonspace [simp]: "s \<noteq> [] \<Longrightarrow> hd s \<noteq> SPC \<Longrightarrow> skip_spaces s = s"
  by (cases s) (simp_all add: skip_spaces_def)

lemma length_skip_spaces: "length (skip_spaces s) \<le> length s"
  by (simp add: skip_spaces_def length_dropWhile_le)

lemma hd_skip_spaces: "skip_spaces s \<noteq> [] \<Longrightarrow> hd (skip_spaces s) \<noteq> SPC"
  using hd_dropWhile [of "\<lambda>c. c = SPC" s] by (simp add: skip_spaces_def)

lemma length_drop_colon: "length (drop_colon p) \<le> length p"
  by (simp add: drop_colon_def split: list.split)

lemma to_array_not_Nil: "to_array maxpara x s \<noteq> []"
  by (subst to_array.simps) (auto simp: Let_def split: option.split)

lemma to_array_count:
  "x + 2 \<le> maxpara \<Longrightarrow> x + length (to_array maxpara x s) \<le> maxpara"
proof (induction maxpara x s rule: to_array.induct)
  case (1 maxpara x s)
  show ?case
  proof (cases "strchr_cut SPC s")
    case None
    then show ?thesis using 1(2) by (subst to_array.simps) simp
  next
    case (Some pr)
    obtain a p where pr: "pr = (a, p)" by (cases pr)
    show ?thesis
    proof (cases "char_at s 0 \<noteq> CHR '':'' \<and> skip_spaces p \<noteq> [] \<and> x + 1 < maxpara - 1")
      case True
      have "x + 1 + length (to_array maxpara (x + 1) (skip_spaces p)) \<le> maxpara"
        using 1(1) [OF _ Some pr [symmetric] refl] True by (simp add: less_diff_conv)
      then show ?thesis using True Some pr by (subst to_array.simps) simp
    next
      case False
      then show ?thesis using 1(2) Some pr by (subst to_array.simps) (auto simp: Let_def)
    qed
  qed
qed

lemma to_array_bytes:
  "sum_list (map (\<lambda>p. length p + 1) (to_array maxpara x s)) \<le> length s + 1"
proof (induction maxpara x s rule: to_array.induct)
  case (1 maxpara x s)
  show ?case
  proof (cases "strchr_cut SPC s")
    case None
    then show ?thesis by (subst to_array.simps) simp
  next
    case (Some pr)
    obtain a p where pr: "pr = (a, p)" by (cases pr)
    then have s: "length s = length a + 1 + length p"
      using strchr_cut_SomeD [of SPC s a p] Some by auto
    show ?thesis
    proof (cases "char_at s 0 \<noteq> CHR '':'' \<and> skip_spaces p \<noteq> [] \<and> x + 1 < maxpara - 1")
      case True
      have "sum_list (map (\<lambda>p. length p + 1) (to_array maxpara (x + 1) (skip_spaces p))) \<le> length p + 1"
        using 1(1) [OF _ Some pr [symmetric] refl] True length_skip_spaces [of p] by simp
      then show ?thesis using True Some pr s by (subst to_array.simps) simp
    next
      case False
      then show ?thesis using Some pr s length_drop_colon [of p] by (subst to_array.simps) (auto simp: Let_def)
    qed
  qed
qed

definition middle :: "cstring \<Rightarrow> bool" where
  "middle p = (p \<noteq> [] \<and> SPC \<notin> set p \<and> hd p \<noteq> CHR '':'')"

definition join_params :: "cstring list \<Rightarrow> cstring \<Rightarrow> cstring" where
  "join_params ms trailing = concat (map (\<lambda>m. m @ [SPC]) ms) @ CHR '':'' # trailing"

lemma middle_head: "middle p \<Longrightarrow> char_at (p @ q) 0 = hd p \<and> hd (p @ q) = hd p \<and> hd p \<noteq> SPC"
  by (cases p) (auto simp: middle_def char_at_def)

lemma join_params_Cons: "join_params (m # ms) t = m @ SPC # join_params ms t"
  by (simp add: join_params_def)

lemma skip_join [simp]:
  assumes "list_all middle ms"
  shows "skip_spaces (join_params ms t) = join_params ms t" "join_params ms t \<noteq> []"
proof -
  show ne: "join_params ms t \<noteq> []" by (simp add: join_params_def)
  have "hd (join_params ms t) \<noteq> SPC"
    using assms middle_head by (cases ms) (auto simp: join_params_def)
  then show "skip_spaces (join_params ms t) = join_params ms t" by (rule skip_spaces_nonspace [OF ne])
qed

lemma to_array_join:
  "list_all middle ms \<Longrightarrow> x + 2 \<le> maxpara \<Longrightarrow> x + length ms < maxpara \<Longrightarrow>
   to_array maxpara x (join_params ms t) = ms @ [t]"
proof (induction ms arbitrary: x)
  case Nil
  then show ?case by (subst to_array.simps) (simp add: join_params_def char_at_def)
next
  case (Cons m ms)
  have m: "middle m" "list_all middle ms" using Cons.prems(1) by simp_all
  have cut: "strchr_cut SPC (join_params (m # ms) t) = Some (m, join_params ms t)"
    using m(1) by (simp add: join_params_Cons strchr_cut_append middle_def)
  have c0: "char_at (join_params (m # ms) t) 0 \<noteq> CHR '':''"
    using m(1) middle_head [OF m(1)] by (simp add: join_params_Cons middle_def)
  show ?case
  proof (cases "x + 1 < maxpara - 1")
    case True
    then have "to_array maxpara (x + 1) (join_params ms t) = ms @ [t]"
      using Cons.IH [of "x + 1"] m(2) Cons.prems(3) by simp
    then show ?thesis using True cut c0 m(2) by (subst to_array.simps) simp
  next
    case False
    then have "ms = []" using Cons.prems(3) by (cases ms) auto
    then have "join_params ms t = CHR '':'' # t" by (simp add: join_params_def)
    then show ?thesis
      using False cut c0 \<open>ms = []\<close> by (subst to_array.simps) (simp add: skip_spaces_def drop_colon_def)
  qed
qed

lemma rb_string_to_array_count:
  "2 \<le> maxpara \<Longrightarrow> length (rb_string_to_array s maxpara) \<le> maxpara"
  using to_array_count [of 0 maxpara "skip_spaces s"] by (simp add: rb_string_to_array_def Let_def)

lemma rb_string_to_array_bytes:
  "sum_list (map (\<lambda>p. length p + 1) (rb_string_to_array s maxpara)) \<le> length s + 1"
  using to_array_bytes [of maxpara 0 "skip_spaces s"] length_skip_spaces [of s]
  by (simp add: rb_string_to_array_def Let_def)

section \<open>Masked servers\<close>

text \<open>The two searches satisfy the recursive equations of the source.\<close>

lemma first_some_cong: "(\<And>x. x \<in> set xs \<Longrightarrow> f x = g x) \<Longrightarrow> first_some f xs = first_some g xs"
  by (induction xs) (auto split: option.split)

lemma masked_star: "hash_find_masked_server env w src (CHR ''*'' # n) = None"
  by (simp add: hash_find_masked_server_def char_at_def)

lemma hash_find_masked_server_rec:
  "hash_find_masked_server env w src name =
     (if char_at name 0 = CHR ''*'' \<or> char_at name 0 = CHR ''.'' then None
      else first_some (find_server env w src) (masked_names (strlcpy name (HOSTLEN + 1))))"
proof -
  have "find_server_with (\<lambda>n. None) env w src n = find_server env w src n"
    if n: "n \<in> set (masked_names (strlcpy name (HOSTLEN + 1)))" for n
  proof -
    obtain r where "n = CHR ''*'' # r" using n by (auto simp: masked_names_def)
    then show ?thesis by (simp add: find_server_def find_server_with_def masked_star split: option.split)
  qed
  then have "first_some (find_server_with (\<lambda>n. None) env w src) (masked_names (strlcpy name (HOSTLEN + 1))) =
      first_some (find_server env w src) (masked_names (strlcpy name (HOSTLEN + 1)))"
    by (rule first_some_cong)
  then show ?thesis unfolding hash_find_masked_server_def by simp
qed

section \<open>Reaching a handler\<close>

lemma handle_command_Call:
  "handle_command env w m client_p from hpara ps = (Call h c f parv, ps') \<Longrightarrow>
   \<not> pe_dead env client_p \<and> c = client_p \<and> f = from \<and> parv = hpara \<and>
   h = mh_handler (mg_handlers (ps_msgs ps m) (pe_handler env from)) \<and>
   params_ok (mg_handlers (ps_msgs ps m) (pe_handler env from)) hpara"
  by (auto simp: handle_command_def Let_def split: if_splits)

lemma parse_prefix_Inr:
  "parse_prefix env w client_p pbuffer ps = Inr (from, ch) \<Longrightarrow>
   from = client_p \<or> IsServer (client_of w client_p) \<and> pe_from env from = client_p"
  by (auto simp: parse_prefix_def Let_def split: if_splits prod.splits option.splits)

lemma parse_prefix_Inl_Call:
  "parse_prefix env w client_p pbuffer ps \<noteq> Inl (Call h c f parv, ps')"
  by (auto simp: parse_prefix_def Let_def split: prod.splits option.splits)

lemma upd_msg_sel [simp]:
  "ps_cmds (upd_msg m f ps) = ps_cmds ps" "ps_msgs (upd_msg m f ps) m = f (ps_msgs ps m)"
  "ps_stats (upd_msg m f ps) = ps_stats ps"
  by (simp_all add: upd_msg_def)

lemma cut_takeWhile:
  "strchr_cut c s = Some (a, b) \<Longrightarrow> a = takeWhile (\<lambda>x. x \<noteq> c) s"
  "strchr_cut c s = None \<Longrightarrow> s = takeWhile (\<lambda>x. x \<noteq> c) s"
  by (induction s arbitrary: a b) (auto split: if_splits option.splits)

definition word_of :: "cstring \<Rightarrow> cstring" where
  "word_of ch = takeWhile (\<lambda>x. x \<noteq> SPC) ch"

definition call_of ::
  "parse_env \<Rightarrow> 'h parse_state \<Rightarrow> cid \<Rightarrow> cstring \<Rightarrow> 'h MessageEntry option" where
  "call_of env ps from cmd =
     (case hash_find_data (ps_cmds ps) cmd of
        None \<Rightarrow> None
      | Some m \<Rightarrow> if mg_cmd (ps_msgs ps m) = None then None
                  else Some (mg_handlers (ps_msgs ps m) (pe_handler env from)))"

lemma parse_Call:
  assumes "parse env w client_p pbuffer len ps = (Call h c f parv, ps')"
  shows "\<exists>src ch e args.
    parse_prefix env w client_p pbuffer ps = Inr (src, ch) \<and> call_of env ps src (word_of ch) = Some e \<and>
    f = src \<and> c = client_p \<and> h = mh_handler e \<and> params_ok e parv \<and>
    parv = cl_name (client_of w src) # args \<and> length args \<le> MAXPARA \<and> \<not> pe_dead env client_p"
proof (cases "parse_prefix env w client_p pbuffer ps")
  case (Inl r)
  then show ?thesis
    using assms parse_prefix_Inl_Call by (fastforce simp: parse_def split: if_splits)
next
  case (Inr fc)
  obtain src ch where fc: "fc = (src, ch)" by (cases fc)
  have n: "length (rb_string_to_array s MAXPARA) \<le> MAXPARA" for s
    by (rule rb_string_to_array_count) (simp add: MAXPARA_def)
  show ?thesis
    using assms Inr fc n cut_takeWhile [of SPC ch]
    by (auto simp: parse_def call_of_def word_of_def Let_def dest!: handle_command_Call
        split: if_splits option.splits prod.splits)
qed

section \<open>The table of commands\<close>

definition cmd_rep :: "'h parse_state \<Rightarrow> (cstring \<times> nat) list \<Rightarrow> bool" where
  "cmd_rep ps xs = irc_rep (ps_cmds ps) xs"

definition named :: "'h parse_state \<Rightarrow> nat \<Rightarrow> bool" where
  "named ps m = (msg_name (ps_msgs ps m) \<noteq> [] \<and> nul_free (msg_name (ps_msgs ps m)))"

lemma cmd_find:
  assumes "cmd_rep ps xs" "nul_free k" "k \<noteq> []"
  shows "hash_find (ps_cmds ps) k = map_option (node_of (ps_cmds ps)) (find (\<lambda>e. irc_eq k (fst e)) xs)"
    "hash_find_data (ps_cmds ps) k = ix_lookup irc_eq k xs"
  using hash_rep_find [of "ps_cmds ps" xs k] irc.lookup_rep [of "ps_cmds ps" xs k] assms
  by (auto simp: cmd_rep_def irc_rep_def same_key_def irc_eq_def)

lemma names_upd [simp]: "msg_name (ps_msgs (mod_add_cmd m ps) i) = msg_name (ps_msgs ps i)"
  "ps_msgs (mod_del_cmd m ps) = ps_msgs ps"
  by (auto simp: mod_add_cmd_def mod_del_cmd_def upd_msg_def msg_name_def Let_def split: option.split)

lemma mod_add_cmd_rep:
  assumes "cmd_rep ps xs" "named ps m"
  shows "cmd_rep (mod_add_cmd m ps)
    (if find (\<lambda>e. irc_eq (msg_name (ps_msgs ps m)) (fst e)) xs = None then (msg_name (ps_msgs ps m), m) # xs else xs)"
  using cmd_find(1) [OF assms(1), of "msg_name (ps_msgs ps m)"] irc.rep_add [of "ps_cmds ps" xs] assms
  by (auto simp: mod_add_cmd_def cmd_rep_def named_def Let_def)

lemma mod_del_cmd_rep:
  assumes "cmd_rep ps xs" "named ps m"
  shows "cmd_rep (mod_del_cmd m ps)
    (case find (\<lambda>e. irc_eq (msg_name (ps_msgs ps m)) (fst e)) xs of None \<Rightarrow> xs | Some e \<Rightarrow> remove1 e xs)"
proof (cases "find (\<lambda>e. irc_eq (msg_name (ps_msgs ps m)) (fst e)) xs")
  case None
  then show ?thesis using cmd_find(1) [OF assms(1), of "msg_name (ps_msgs ps m)"] assms
    by (simp add: mod_del_cmd_def cmd_rep_def named_def)
next
  case (Some e)
  then have "e \<in> set xs" by (auto simp: find_Some_iff in_set_conv_nth)
  then show ?thesis
    using Some cmd_find(1) [OF assms(1), of "msg_name (ps_msgs ps m)"] assms hash_rep_del_hnode [of "ps_cmds ps" xs e]
    by (simp add: mod_del_cmd_def cmd_rep_def named_def irc_rep_def)
qed

section \<open>Properties\<close>

text \<open>
  C18. Whatever line arrives on a link, when \<open>parse\<close> ends in calling a handler: the link is
  alive, the source is the link itself or a client that is reached through that link (and then
  the link is a server), the command is one the table knows, the handler is the one for the
  source's kind, \<open>parv[0]\<close> is the source's name, there are at most \<open>MAXPARA\<close> further
  parameters, at least as many as the command asks for, and the last one it asks for is not
  empty.
\<close>

theorem parse_calls_checked:
  assumes "parse env w client_p pbuffer len ps = (Call h c src parv, ps')"
  shows "\<not> pe_dead env client_p \<and> c = client_p \<and>
    (src = client_p \<or> IsServer (client_of w client_p) \<and> pe_from env src = client_p) \<and>
    (\<exists>ch e. parse_prefix env w client_p pbuffer ps = Inr (src, ch) \<and>
       call_of env ps src (word_of ch) = Some e \<and> h = mh_handler e \<and> mh_min_para e \<le> length parv \<and>
       (0 < mh_min_para e \<longrightarrow> parv ! (mh_min_para e - 1) \<noteq> [])) \<and>
    parv ! 0 = cl_name (client_of w src) \<and> 1 \<le> length parv \<and> length parv \<le> MAXPARA + 1"
  using parse_Call [OF assms] parse_prefix_Inr [of env w client_p pbuffer ps src]
  by (auto simp: params_ok_def)

definition small_parse_env :: parse_env where
  "small_parse_env = \<lparr>pe_mode = \<lparr>me_cfg = small_config, me_hash_client = w_hash small_world,
      me_hash_id = w_hash small_world, me_whowas = whowas_init, me_servers = 1, me_combos = []\<rparr>,
    pe_from = id, pe_handler = (\<lambda>_. CLIENT_HANDLER), pe_dead = (\<lambda>_. False)\<rparr>"

definition small_cmds :: "nat parse_state" where
  "small_cmds = \<lparr>ps_cmds = the (hash_create ''Command'' CMP_IRCCMP 9 10),
     ps_msgs = (\<lambda>m. \<lparr>mg_cmd = Some (if m = 1 then ''MODE'' else ''mode''), mg_count = 0, mg_rcount = 0, mg_bytes = 0,
       mg_handlers = (\<lambda>_. \<lparr>mh_handler = Some 7, mh_min_para = 2\<rparr>)\<rparr>),
     ps_stats = \<lparr>is_unpf = 0, is_wrdi = 0, is_empt = 0, is_num = 0, is_unco = 0\<rparr>\<rparr>"

lemma small_cmds_named: "named small_cmds m" "msg_name (ps_msgs small_cmds m) = (if m = 1 then ''MODE'' else ''mode'')"
  by (simp_all add: named_def small_cmds_def msg_name_def)

lemma small_cmds_create: "hash_create ''Command'' CMP_IRCCMP 9 10 = Some (ps_cmds small_cmds)"
  by (simp add: small_cmds_def hash_create_def)

lemma small_cmds_mode: "hash_find_data (ps_cmds (mod_add_cmd 1 small_cmds)) ''mode'' = Some 1"
proof -
  have "cmd_rep small_cmds []"
    using hash_create_rep [OF small_cmds_create] by (simp add: cmd_rep_def irc_rep_def)
  from mod_add_cmd_rep [OF this small_cmds_named(1), of 1]
  have "cmd_rep (mod_add_cmd 1 small_cmds) [(''MODE'', 1)]" by (simp add: small_cmds_named)
  moreover have "ix_lookup irc_eq ''mode'' [(''MODE'', 1 :: nat)] = Some 1" by code_simp
  ultimately show ?thesis using cmd_find(2) [of "mod_add_cmd 1 small_cmds" _ "''mode''"] by simp
qed

lemma small_line:
  "parse_prefix small_parse_env small_world 1 ''mode #ircd :+m'' ps = Inr (1, ''mode #ircd :+m'')"
  "strchr_cut SPC ''mode #ircd :+m'' = Some (''mode'', ''#ircd :+m'')"
  "is_numeric ''mode #ircd :+m'' = False" "trim_eol ''#ircd :+m'' = ''#ircd :+m''"
  "rb_string_to_array ''#ircd :+m'' MAXPARA = [''#ircd'', ''+m'']"
  by (simp add: parse_prefix_def skip_spaces_def char_at_def) code_simp+

theorem parse_calls_checked_witness:
  "fst (parse small_parse_env small_world 1 ''mode #ircd :+m'' 14 (mod_add_cmd 1 small_cmds)) =
     Call (Some 7) 1 1 [''nick'', ''#ircd'', ''+m''] \<and>
   \<not> pe_dead small_parse_env 1 \<and> length [''nick'', ''#ircd'', ''+m''] \<le> MAXPARA + 1"
proof -
  let ?ps = "mod_add_cmd 1 small_cmds"
  have m: "mg_cmd (ps_msgs ?ps 1) = Some ''MODE''"
    "mg_handlers (ps_msgs ?ps 1) k = \<lparr>mh_handler = Some 7, mh_min_para = 2\<rparr>" for k
    by (simp_all add: mod_add_cmd_def upd_msg_def small_cmds_def Let_def)
  have e: "\<not> pe_dead small_parse_env 1" "cl_name (client_of small_world 1) = ''nick''"
    "IsServer (client_of small_world 1) = False"
    by (simp_all add: small_parse_env_def small_world_def user_named_def IsServer_def)
  have "fst (parse small_parse_env small_world 1 ''mode #ircd :+m'' 14 ?ps) =
      Call (Some 7) 1 1 [''nick'', ''#ircd'', ''+m'']"
    using m small_cmds_mode e
    by (simp add: parse_def small_line handle_command_def params_ok_def upd_msg_def Let_def del: One_nat_def)
  moreover from this obtain ps' where
    "parse small_parse_env small_world 1 ''mode #ircd :+m'' 14 ?ps =
       (Call (Some 7) 1 1 [''nick'', ''#ircd'', ''+m''], ps')" by (metis prod.collapse)
  ultimately show ?thesis using parse_calls_checked by blast
qed

text \<open>
  A line of at most \<open>maxpara - 1\<close> parameters without spaces, not empty and not starting
  with a colon, and a last parameter of any bytes behind a colon, is cut back into exactly
  those parameters.
\<close>

theorem string_to_array_roundtrip:
  assumes "2 \<le> maxpara" "list_all middle ms" "length ms < maxpara"
  shows "rb_string_to_array (join_params ms trailing) maxpara = ms @ [trailing]"
  using to_array_join [of ms 0 maxpara trailing] assms by (simp add: rb_string_to_array_def)

theorem string_to_array_roundtrip_witness:
  "rb_string_to_array ''#chan +o-v nick :a : b'' MAXPARA = [''#chan'', ''+o-v'', ''nick'', ''a : b'']"
  using string_to_array_roundtrip [of MAXPARA "[''#chan'', ''+o-v'', ''nick'']" "''a : b''"]
  by (simp add: middle_def join_params_def MAXPARA_def)

text \<open>
  Cutting any line stores at most \<open>maxpara\<close> parameters, so that the terminating null of
  the array is at index \<open>maxpara\<close> at most, and the string that \<open>do_numeric\<close> builds from them is at
  most two bytes longer than the line: its buffer of \<open>2 * IRCD_BUFSIZE\<close> bytes is not overrun.
\<close>

theorem string_to_array_bounds:
  assumes "2 \<le> maxpara"
  shows "length (rb_string_to_array s maxpara) \<le> maxpara \<and>
    (rb_string_to_array s maxpara \<noteq> [] \<longrightarrow>
       length (numeric_buffer (name # rb_string_to_array s maxpara)) \<le> length s + 2)"
proof -
  have "length (numeric_buffer (name # toks)) \<le> sum_list (map (\<lambda>p. length p + 1) toks) + 1"
    if "toks \<noteq> []" for toks
  proof -
    obtain as z where z: "toks = as @ [z]" using \<open>toks \<noteq> []\<close> by (metis append_butlast_last_id)
    have "sum_list (map (\<lambda>p. length p + 1) (drop 1 as)) \<le> sum_list (map (\<lambda>p. length p + 1) as)"
      by (cases as) auto
    then show ?thesis
      by (simp add: z numeric_buffer_def length_concat o_def drop_Cons')
  qed
  then show ?thesis
    using rb_string_to_array_count [OF assms, of s] rb_string_to_array_bytes [of s maxpara] by fastforce
qed

theorem string_to_array_bounds_witness:
  "length (rb_string_to_array ''nick :No such nick/channel'' MAXPARA) \<le> MAXPARA \<and>
   length (numeric_buffer [''hub.'', ''nick'', ''No such nick/channel'']) \<le> 28"
proof -
  have "rb_string_to_array ''nick :No such nick/channel'' MAXPARA = [''nick'', ''No such nick/channel'']"
    by code_simp
  then show ?thesis
    using string_to_array_bounds [of MAXPARA "''nick :No such nick/channel''" "''hub.''"]
    by (simp add: MAXPARA_def)
qed

text \<open>
  When two modules bring a command of the same name, the second is not added, and
  unloading the second removes the command of the first: \<open>mod_del_cmd\<close> deletes the entry it
  finds under the name without comparing it with the message it was given.
\<close>

theorem mod_del_cmd_removes_other:
  assumes "hash_create n CMP_IRCCMP b l = Some (ps_cmds ps)" "7 \<le> b" "b \<le> 17"
    and "named ps m1" "named ps m2"
    and "irc_eq (msg_name (ps_msgs ps m2)) (msg_name (ps_msgs ps m1))"
  shows "hash_find_data (ps_cmds (mod_add_cmd m2 (mod_add_cmd m1 ps))) (msg_name (ps_msgs ps m2)) = Some m1 \<and>
    hash_find_data (ps_cmds (mod_del_cmd m2 (mod_add_cmd m2 (mod_add_cmd m1 ps)))) (msg_name (ps_msgs ps m2)) = None"
proof -
  let ?k1 = "msg_name (ps_msgs ps m1)" and ?k2 = "msg_name (ps_msgs ps m2)"
  let ?ps1 = "mod_add_cmd m1 ps"
  let ?ps2 = "mod_add_cmd m2 ?ps1"
  have r0: "cmd_rep ps []"
    using hash_create_rep [OF assms(1) _ assms(2,3)] by (simp add: cmd_rep_def irc_rep_def)
  have n: "named ?ps1 m2" "named ?ps2 m2" using assms(5) by (simp_all add: named_def)
  have r1: "cmd_rep ?ps1 [(?k1, m1)]" using mod_add_cmd_rep [OF r0 assms(4)] by simp
  have r2: "cmd_rep ?ps2 [(?k1, m1)]" using mod_add_cmd_rep [OF r1 n(1)] assms(6) by simp
  have r3: "cmd_rep (mod_del_cmd m2 ?ps2) []" using mod_del_cmd_rep [OF r2 n(2)] assms(6) by simp
  show ?thesis
    using cmd_find(2) [OF r2, of ?k2] cmd_find(2) [OF r3, of ?k2] assms(5,6)
    by (simp add: named_def ix_lookup_def)
qed

theorem mod_del_cmd_removes_other_witness:
  "hash_find_data (ps_cmds (mod_del_cmd 2 (mod_add_cmd 2 (mod_add_cmd 1 small_cmds)))) ''mode'' = None"
proof -
  have "irc_eq ''mode'' ''MODE''" by code_simp
  then show ?thesis
    using mod_del_cmd_removes_other [OF small_cmds_create, of 1 2] by (simp add: small_cmds_named)
qed

end
