(* ===== verification/Linebuf.thy ===== *)
theory Linebuf
  imports Prelude
begin

text \<open>
  The line buffers of \<open>libratbox/src/linebuf.c\<close>: received bytes are cut into lines, lines to
  send are formatted once and shared by the queues of all their receivers, with a reference
  count per line. A line lives in a store, addressed by a number; a queue (\<open>buf_head_t\<close>) is
  addressed by its position in the list of queues. \<open>bl_buf\<close> is the first \<open>len\<close> bytes of
  \<open>buf\<close>. The list of a queue is the sequence of its nodes' data, as in \<open>Dlink\<close>.
\<close>

section \<open>Lines and queues\<close>

definition BUF_DATA_SIZE :: nat where "BUF_DATA_SIZE = 511"

record buf_line =
  bl_buf :: "char list"
  bl_terminated :: bool
  bl_raw :: bool
  bl_refcount :: nat

type_synonym lid = nat
type_synonym hid = nat

record buf_head =
  bh_list :: "lid list"
  bh_len :: int
  bh_alloclen :: int
  bh_writeofs :: nat
  bh_numlines :: int

record lbs =
  lb_lines :: "lid \<Rightarrow> buf_line option"
  lb_next :: lid
  lb_heads :: "buf_head list"
  lb_count :: int

text \<open>The one way these functions leave their memory: a scan backwards passes \<open>buf[0]\<close>.\<close>

datatype lb_fault = BeforeBuffer

definition line_of :: "lbs \<Rightarrow> lid \<Rightarrow> buf_line" where
  "line_of s l = the (lb_lines s l)"

definition head_of :: "lbs \<Rightarrow> hid \<Rightarrow> buf_head" where
  "head_of s h = lb_heads s ! h"

definition upd_head :: "hid \<Rightarrow> (buf_head \<Rightarrow> buf_head) \<Rightarrow> lbs \<Rightarrow> lbs" where
  "upd_head h f s = s\<lparr>lb_heads := (lb_heads s)[h := f (head_of s h)]\<rparr>"

definition put_line :: "lid \<Rightarrow> buf_line option \<Rightarrow> lbs \<Rightarrow> lbs" where
  "put_line l b s = s\<lparr>lb_lines := (lb_lines s)(l := b)\<rparr>"

definition is_eol :: "char \<Rightarrow> bool" where
  "is_eol c = (c = CR \<or> c = LF)"

text \<open>A new line of the block heap is all zero; it is linked at the end and counted once.\<close>

definition fresh_buf_line :: buf_line where
  "fresh_buf_line = \<lparr>bl_buf = [], bl_terminated = False, bl_raw = False, bl_refcount = 1\<rparr>"

definition rb_linebuf_new_line :: "hid \<Rightarrow> lbs \<Rightarrow> lid \<times> lbs" where
  "rb_linebuf_new_line h s =
     (let l = lb_next s
      in (l, upd_head h (\<lambda>b. b\<lparr>bh_list := bh_list b @ [l], bh_alloclen := bh_alloclen b + 1,
                 bh_numlines := bh_numlines b + 1\<rparr>)
               (s\<lparr>lb_lines := (lb_lines s)(l \<mapsto> fresh_buf_line), lb_next := l + 1, lb_count := lb_count s + 1\<rparr>)))"

text \<open>Only ever called for the first node of the list.\<close>

definition rb_linebuf_done_line :: "hid \<Rightarrow> lid \<Rightarrow> lbs \<Rightarrow> lbs" where
  "rb_linebuf_done_line h l s =
     (let b = line_of s l;
          s1 = upd_head h (\<lambda>d. d\<lparr>bh_list := tl (bh_list d), bh_alloclen := bh_alloclen d - 1,
                 bh_len := bh_len d - int (length (bl_buf b)), bh_numlines := bh_numlines d - 1\<rparr>) s
      in if bl_refcount b - 1 = 0 then (put_line l None s1)\<lparr>lb_count := lb_count s - 1\<rparr>
         else put_line l (Some (b\<lparr>bl_refcount := bl_refcount b - 1\<rparr>)) s1)"

definition rb_linebuf_skip_crlf :: "char list \<Rightarrow> nat" where
  "rb_linebuf_skip_crlf ch =
     length (takeWhile (\<lambda>c. \<not> is_eol c) ch) + length (takeWhile is_eol (dropWhile (\<lambda>c. \<not> is_eol c) ch))"

definition rb_linebuf_newbuf :: "hid \<Rightarrow> lbs \<Rightarrow> lbs" where
  "rb_linebuf_newbuf h s =
     upd_head h (\<lambda>b. \<lparr>bh_list = [], bh_len = 0, bh_alloclen = 0, bh_writeofs = 0, bh_numlines = 0\<rparr>) s"

text \<open>\<open>while(bufhead->list.head != NULL)\<close>: one turn per node of the list.\<close>

fun done_lines :: "hid \<Rightarrow> lid list \<Rightarrow> lbs \<Rightarrow> lbs" where
  "done_lines h [] s = s"
| "done_lines h (l # ls) s = done_lines h ls (rb_linebuf_done_line h l s)"

definition rb_linebuf_donebuf :: "hid \<Rightarrow> lbs \<Rightarrow> lbs" where
  "rb_linebuf_donebuf h s = done_lines h (bh_list (head_of s h)) s"

section \<open>Receiving\<close>

text \<open>The number of bytes at the end of \<open>b\<close> that are CR or LF.\<close>

definition eol_suffix :: "char list \<Rightarrow> nat" where
  "eol_suffix b = length (takeWhile is_eol (rev b))"

text \<open>
  \<open>rb_linebuf_copy_line\<close> on a line and the data: the number of bytes consumed, the line and
  what is added to the queue's \<open>len\<close>. In the overflow case the scan over the trailing CR and
  LF stops after \<open>cpylen\<close> bytes; if all \<open>BUF_DATA_SIZE - 1\<close> bytes are CR or LF and \<open>cpylen\<close>
  is larger, it reads before \<open>buf\<close>. There \<open>len\<close> grows by the whole buffer, whatever the line
  held.
\<close>

definition rb_linebuf_copy_line :: "buf_line \<Rightarrow> char list \<Rightarrow> lb_fault + (nat \<times> buf_line \<times> nat)" where
  "rb_linebuf_copy_line bufline data =
     (let l = bufline\<lparr>bl_raw := False\<rparr>; old = bl_buf l; size = BUF_DATA_SIZE - 1
      in if bl_terminated l then Inr (0, l, 0)
         else
           let clen = rb_linebuf_skip_crlf data
           in if clen > size - length old then
                (let b = old @ take (size - length old) data; n = eol_suffix b
                 in if n = size \<and> n < clen then Inl BeforeBuffer
                    else Inr (clen,
                      l\<lparr>bl_buf := take (size - min n clen) b @ replicate (min n clen) NUL, bl_terminated := True\<rparr>,
                      size))
              else
                (let b = old @ take clen data; n = min (eol_suffix b) clen
                 in if eol_suffix b = 0 then Inr (clen, l\<lparr>bl_buf := b, bl_terminated := False\<rparr>, clen)
                    else Inr (clen, l\<lparr>bl_buf := take (length b - n) b, bl_terminated := True\<rparr>, clen - n)))"

definition rb_linebuf_copy_raw :: "buf_line \<Rightarrow> char list \<Rightarrow> nat \<times> buf_line \<times> nat" where
  "rb_linebuf_copy_raw bufline data =
     (let l = bufline\<lparr>bl_raw := True\<rparr>; old = bl_buf l; size = BUF_DATA_SIZE - 1
      in if bl_terminated l then (0, l, 0)
         else
           let cpylen = rb_linebuf_skip_crlf data
           in if cpylen > size - length old then
                (size - length old,
                 l\<lparr>bl_buf := old @ take (size - length old) data, bl_terminated := True\<rparr>, size)
              else
                (let b = old @ take cpylen data
                 in (cpylen, l\<lparr>bl_buf := b, bl_terminated := (eol_suffix b \<noteq> 0)\<rparr>, cpylen)))"

definition copy_data :: "bool \<Rightarrow> buf_line \<Rightarrow> char list \<Rightarrow> lb_fault + (nat \<times> buf_line \<times> nat)" where
  "copy_data raw l data = (if raw then Inr (rb_linebuf_copy_raw l data) else rb_linebuf_copy_line l data)"

text \<open>Copying into line \<open>l\<close> of queue \<open>h\<close>: the bytes left and the state.\<close>

definition copy_into :: "bool \<Rightarrow> hid \<Rightarrow> lid \<Rightarrow> char list \<Rightarrow> lbs \<Rightarrow> lb_fault + (char list \<times> lbs)" where
  "copy_into raw h l data s =
     (case copy_data raw (line_of s l) data of
        Inl f \<Rightarrow> Inl f
      | Inr (clen, b, grow) \<Rightarrow>
          Inr (drop clen data, upd_head h (\<lambda>d. d\<lparr>bh_len := bh_len d + int grow\<rparr>) (put_line l (Some b) s)))"

lemma skip_crlf_pos: "data \<noteq> [] \<Longrightarrow> 0 < rb_linebuf_skip_crlf data"
  by (cases data) (simp_all add: rb_linebuf_skip_crlf_def)

lemma skip_crlf_le: "rb_linebuf_skip_crlf data \<le> length data"
proof -
  have "length (takeWhile is_eol (dropWhile (\<lambda>c. \<not> is_eol c) data)) \<le>
      length (dropWhile (\<lambda>c. \<not> is_eol c) data)"
    by (rule length_takeWhile_le)
  then show ?thesis
    by (metis (no_types, lifting) rb_linebuf_skip_crlf_def add_le_cancel_left length_append takeWhile_dropWhile_id)
qed

lemma copy_fresh_pos:
  "copy_data raw fresh_buf_line data = Inr (clen, b, grow) \<Longrightarrow> data \<noteq> [] \<Longrightarrow> 0 < clen"
  using skip_crlf_pos [of data]
  by (auto simp: copy_data_def rb_linebuf_copy_line_def rb_linebuf_copy_raw_def fresh_buf_line_def Let_def
      BUF_DATA_SIZE_def split: if_splits)

lemma new_line_line: "line_of (snd (rb_linebuf_new_line h s)) (fst (rb_linebuf_new_line h s)) = fresh_buf_line"
  by (simp add: rb_linebuf_new_line_def Let_def line_of_def upd_head_def)

text \<open>The loop of \<open>rb_linebuf_parse\<close>, a new line per turn; \<open>linecnt\<close> counts them.\<close>

function parse_loop :: "bool \<Rightarrow> hid \<Rightarrow> char list \<Rightarrow> nat \<Rightarrow> lbs \<Rightarrow> lb_fault + (nat \<times> lbs)" where
  "parse_loop raw h data linecnt s =
     (if data = [] then Inr (linecnt, s)
      else case copy_into raw h (fst (rb_linebuf_new_line h s)) data (snd (rb_linebuf_new_line h s)) of
             Inl f \<Rightarrow> Inl f
           | Inr (data', s') \<Rightarrow> parse_loop raw h data' (linecnt + 1) s')"
  by pat_completeness auto
termination
proof (relation "measure (\<lambda>(raw, h, data, n, s). length data)", goal_cases)
  case (2 raw h data linecnt s r data' s')
  then show ?case
    using copy_fresh_pos [of raw data]
    by (auto simp: copy_into_def new_line_line split: sum.splits prod.splits)
qed simp

declare parse_loop.simps [simp del]

definition rb_linebuf_parse :: "bool \<Rightarrow> hid \<Rightarrow> char list \<Rightarrow> lbs \<Rightarrow> lb_fault + (nat \<times> lbs)" where
  "rb_linebuf_parse raw h data s =
     (let ls = bh_list (head_of s h)
      in if ls \<noteq> [] then
           (case copy_into raw h (last ls) data s of
              Inl f \<Rightarrow> Inl f
            | Inr (data', s') \<Rightarrow> parse_loop raw h data' 1 s')
         else parse_loop raw h data 0 s)"

text \<open>The bytes copied into a buffer of \<open>buflen\<close> bytes; their number is the return value.\<close>

definition rb_linebuf_get :: "hid \<Rightarrow> nat \<Rightarrow> bool \<Rightarrow> bool \<Rightarrow> lbs \<Rightarrow> char list \<times> lbs" where
  "rb_linebuf_get h buflen part raw s =
     (case bh_list (head_of s h) of
        [] \<Rightarrow> ([], s)
      | l # ls \<Rightarrow>
          let b = line_of s l
          in if \<not> (part \<or> bl_terminated b) then ([], s)
             else
               let cpy = (if buflen < length (bl_buf b) then take (buflen - 1) (bl_buf b) else bl_buf b);
                   out = (if bl_raw b \<and> \<not> raw
                          then rev (dropWhile is_eol (rev (dropWhile is_eol cpy))) else cpy)
               in (out, rb_linebuf_done_line h l s))"

section \<open>Sending\<close>

fun attach_lines :: "hid \<Rightarrow> lid list \<Rightarrow> lbs \<Rightarrow> lbs" where
  "attach_lines h [] s = s"
| "attach_lines h (l # ls) s =
     (let b = line_of s l
      in attach_lines h ls
           (put_line l (Some (b\<lparr>bl_refcount := bl_refcount b + 1\<rparr>))
              (upd_head h (\<lambda>d. d\<lparr>bh_list := bh_list d @ [l], bh_alloclen := bh_alloclen d + 1,
                 bh_len := bh_len d + int (length (bl_buf b)), bh_numlines := bh_numlines d + 1\<rparr>) s)))"

text \<open>For two different queues; the loop would not end on one and the same.\<close>

definition rb_linebuf_attach :: "hid \<Rightarrow> hid \<Rightarrow> lbs \<Rightarrow> lbs" where
  "rb_linebuf_attach h new s = attach_lines h (bh_list (head_of s new)) s"

text \<open>
  The end of \<open>rb_linebuf_put\<close>, \<open>rb_linebuf_putbuf\<close> and \<open>rb_linebuf_putmsg\<close>, where the
  formatted text is \<open>t\<close> and the buffer holds its first 510 bytes: cut, or without its
  trailing CR and LF, with CR LF behind. The scan passes the start of the buffer when the
  text is nothing but CR and LF.
\<close>

definition finish_line :: "cstring \<Rightarrow> lb_fault + char list" where
  "finish_line t =
     (if length t > 510 then Inr (take 510 t @ [CR, LF])
      else if t = [] then Inr [CR, LF]
      else (let n = length t - eol_suffix t
            in if n = 0 then Inl BeforeBuffer else Inr (take n t @ [CR, LF])))"

definition put_text :: "hid \<Rightarrow> cstring \<Rightarrow> lbs \<Rightarrow> lb_fault + lbs" where
  "put_text h t s =
     (case finish_line t of
        Inl f \<Rightarrow> Inl f
      | Inr b \<Rightarrow>
          let (l, s1) = rb_linebuf_new_line h s
          in Inr (upd_head h (\<lambda>d. d\<lparr>bh_len := bh_len d + int (length b)\<rparr>)
               (put_line l (Some (fresh_buf_line\<lparr>bl_buf := b, bl_terminated := True\<rparr>)) s1)))"

text \<open>A null \<open>buffer\<close> or format is \<open>None\<close>; formats are given with their arguments filled in.\<close>

definition text_or_empty :: "cstring option \<Rightarrow> cstring" where
  "text_or_empty t = (case t of None \<Rightarrow> [] | Some u \<Rightarrow> u)"

definition rb_linebuf_putbuf :: "hid \<Rightarrow> cstring option \<Rightarrow> lbs \<Rightarrow> lb_fault + lbs" where
  "rb_linebuf_putbuf h buffer s = put_text h (text_or_empty buffer) s"

definition rb_linebuf_put :: "hid \<Rightarrow> cstring option \<Rightarrow> lbs \<Rightarrow> lb_fault + lbs" where
  "rb_linebuf_put h formatted s = put_text h (text_or_empty formatted) s"

definition rb_linebuf_putmsg :: "hid \<Rightarrow> cstring option \<Rightarrow> cstring option \<Rightarrow> lbs \<Rightarrow> lb_fault + lbs" where
  "rb_linebuf_putmsg h formatted prefix s = put_text h (text_or_empty prefix @ text_or_empty formatted) s"

text \<open>
  \<open>rb_linebuf_flush\<close>: what is offered to \<open>rb_writev\<close> (at most \<open>maxiov\<close> lines, \<open>RB_UIO_MAXIOV\<close>) or,
  on a TLS connection, to \<open>rb_write\<close> (one line); \<open>None\<close> is the return of \<open>-1\<close> with \<open>EWOULDBLOCK\<close>.
\<close>

definition flush_vec :: "bool \<Rightarrow> nat \<Rightarrow> hid \<Rightarrow> lbs \<Rightarrow> char list list option" where
  "flush_vec ssl maxiov h s =
     (case bh_list (head_of s h) of
        [] \<Rightarrow> None
      | l # ls \<Rightarrow>
          if \<not> bl_terminated (line_of s l) then None
          else Some (drop (bh_writeofs (head_of s h)) (bl_buf (line_of s l)) #
                 (if ssl then []
                  else map (\<lambda>l. bl_buf (line_of s l))
                         (take (maxiov - 1) (takeWhile (\<lambda>l. bl_terminated (line_of s l)) ls)))))"

fun flush_done :: "nat \<Rightarrow> nat \<Rightarrow> hid \<Rightarrow> lbs \<Rightarrow> lbs" where
  "flush_done 0 xret h s = s"
| "flush_done (Suc y) xret h s =
     (let d = head_of s h; l = hd (bh_list d); left = length (bl_buf (line_of s l)) - bh_writeofs d
      in if left \<le> xret
         then flush_done y (xret - left) h (upd_head h (\<lambda>d. d\<lparr>bh_writeofs := 0\<rparr>) (rb_linebuf_done_line h l s))
         else upd_head h (\<lambda>d. d\<lparr>bh_writeofs := bh_writeofs d + xret\<rparr>) s)"

text \<open>\<open>retval\<close> is what the write returned; the result is the return value and the state.\<close>

definition rb_linebuf_flush :: "bool \<Rightarrow> nat \<Rightarrow> int \<Rightarrow> hid \<Rightarrow> lbs \<Rightarrow> int \<times> lbs" where
  "rb_linebuf_flush ssl maxiov retval h s =
     (case flush_vec ssl maxiov h s of
        None \<Rightarrow> (-1, s)
      | Some vec \<Rightarrow>
          if retval \<le> 0 then (retval, s)
          else if \<not> ssl then (retval, flush_done (length vec) (nat retval) h s)
          else
            let l = hd (bh_list (head_of s h)); ofs = bh_writeofs (head_of s h) + nat retval
            in (retval,
                if ofs = length (bl_buf (line_of s l))
                then rb_linebuf_done_line h l (upd_head h (\<lambda>d. d\<lparr>bh_writeofs := 0\<rparr>) s)
                else upd_head h (\<lambda>d. d\<lparr>bh_writeofs := ofs\<rparr>) s))"

end
