(* ===== verification/LinebufProps.thy ===== *)
theory LinebufProps
  imports Linebuf
begin

text \<open>
  The line buffers keep their books: each line's reference count is the number of places it is
  queued in, it is freed with the last of them, and a queue's counters agree with its list.
  The received lines are those of the byte stream however it is cut into reads, and what is
  sent is what was queued, in order, whatever the writes accept.
\<close>

section \<open>References\<close>

definition refs :: "lbs \<Rightarrow> lid \<Rightarrow> nat" where
  "refs s l = sum_list (map (\<lambda>d. count_list (bh_list d) l) (lb_heads s))"

lemma upd_head_sel [simp]:
  "lb_lines (upd_head h f s) = lb_lines s" "lb_next (upd_head h f s) = lb_next s"
  "lb_count (upd_head h f s) = lb_count s" "length (lb_heads (upd_head h f s)) = length (lb_heads s)"
  "line_of (upd_head h f s) = line_of s"
  by (simp_all add: upd_head_def line_of_def fun_eq_iff)

lemma head_upd_head: "h < length (lb_heads s) \<Longrightarrow>
    head_of (upd_head h f s) i = (if i = h then f (head_of s h) else head_of s i)"
  by (simp add: upd_head_def head_of_def nth_list_update)

lemma put_line_sel [simp]:
  "lb_lines (put_line l b s) = (lb_lines s)(l := b)" "lb_next (put_line l b s) = lb_next s"
  "lb_count (put_line l b s) = lb_count s" "lb_heads (put_line l b s) = lb_heads s"
  "head_of (put_line l b s) = head_of s" "refs (put_line l b s) = refs s"
  by (simp_all add: put_line_def head_of_def refs_def fun_eq_iff)

lemma line_put_line: "line_of (put_line l (Some b) s) i = (if i = l then b else line_of s i)"
  by (simp add: line_of_def)

lemma count_le_refs: "h < length (lb_heads s) \<Longrightarrow> count_list (bh_list (head_of s h)) l \<le> refs s l"
  unfolding refs_def head_of_def by (rule member_le_sum_list) simp_all

lemma refs_upd_head:
  assumes "h < length (lb_heads s)"
  shows "refs (upd_head h f s) l = refs s l + count_list (bh_list (f (head_of s h))) l - count_list (bh_list (head_of s h)) l"
  using assms by (simp add: refs_def upd_head_def head_of_def map_update sum_list_update)

lemma refs_pos: "h < length (lb_heads s) \<Longrightarrow> l \<in> set (bh_list (head_of s h)) \<Longrightarrow> 0 < refs s l"
  using count_le_refs [of h s l] count_list_0_iff [of "bh_list (head_of s h)" l] by fastforce

lemma refs_same_heads: "lb_heads s = lb_heads t \<Longrightarrow> refs s = refs t"
  by (simp add: refs_def fun_eq_iff)

section \<open>The invariant\<close>

definition lens :: "lbs \<Rightarrow> buf_head \<Rightarrow> nat" where
  "lens s d = sum_list (map (\<lambda>l. length (bl_buf (line_of s l))) (bh_list d))"

definition head_ok :: "bool \<Rightarrow> lbs \<Rightarrow> buf_head \<Rightarrow> bool" where
  "head_ok exact s d =
     (bh_alloclen d = int (length (bh_list d)) \<and> bh_numlines d = int (length (bh_list d)) \<and>
      int (lens s d) \<le> bh_len d \<and> (exact \<longrightarrow> bh_len d = int (lens s d)))"

definition line_ok :: "buf_line \<Rightarrow> bool" where
  "line_ok b = (length (bl_buf b) \<le> BUF_DATA_SIZE + 1 \<and>
     (\<not> bl_terminated b \<longrightarrow> bl_refcount b = 1 \<and> length (bl_buf b) < BUF_DATA_SIZE \<and> eol_suffix (bl_buf b) = 0))"

text \<open>
  \<open>exact\<close> says that each queue's \<open>len\<close> is the number of its bytes, which receiving overlong
  lines breaks: then it is only an upper bound.
\<close>

definition lb_inv :: "bool \<Rightarrow> lbs \<Rightarrow> bool" where
  "lb_inv exact s =
     ((\<forall>l b. lb_lines s l = Some b \<longrightarrow> bl_refcount b = refs s l \<and> 0 < refs s l \<and> line_ok b) \<and>
      (\<forall>l. lb_lines s l = None \<longrightarrow> refs s l = 0) \<and>
      (\<forall>l. lb_next s \<le> l \<longrightarrow> lb_lines s l = None) \<and>
      lb_count s = int (card (dom (lb_lines s))) \<and>
      (\<forall>h < length (lb_heads s). head_ok exact s (head_of s h)))"

lemma lb_inv_finite: "lb_inv exact s \<Longrightarrow> finite (dom (lb_lines s))"
proof (rule finite_subset)
  assume "lb_inv exact s"
  then show "dom (lb_lines s) \<subseteq> {..< lb_next s}"
    unfolding lb_inv_def by (metis domIff lessThan_iff linorder_not_le subsetI)
qed simp

lemma lb_inv_line:
  assumes "lb_inv exact s" "h < length (lb_heads s)" "l \<in> set (bh_list (head_of s h))"
  shows "lb_lines s l = Some (line_of s l)" "bl_refcount (line_of s l) = refs s l" "line_ok (line_of s l)"
proof -
  have "lb_lines s l \<noteq> None" using assms refs_pos [OF assms(2,3)] by (auto simp: lb_inv_def)
  then show 1: "lb_lines s l = Some (line_of s l)" by (auto simp: line_of_def)
  show "bl_refcount (line_of s l) = refs s l" "line_ok (line_of s l)"
    using assms(1) 1 by (auto simp: lb_inv_def)
qed

lemma lens_cong:
  "(\<And>l. l \<in> set (bh_list d) \<Longrightarrow> length (bl_buf (line_of s l)) = length (bl_buf (line_of t l))) \<Longrightarrow> lens s d = lens t d"
  by (auto simp: lens_def intro!: arg_cong [of _ _ sum_list] map_cong)

lemma head_ok_cong:
  "(\<And>l. l \<in> set (bh_list d) \<Longrightarrow> length (bl_buf (line_of s l)) = length (bl_buf (line_of t l))) \<Longrightarrow>
   head_ok exact s d = head_ok exact t d"
  using lens_cong [of d s t] by (simp add: head_ok_def)

section \<open>Adding a line\<close>

definition push_line :: "hid \<Rightarrow> buf_line \<Rightarrow> nat \<Rightarrow> lbs \<Rightarrow> lbs" where
  "push_line h b grow s =
     upd_head h (\<lambda>d. d\<lparr>bh_list := bh_list d @ [lb_next s], bh_alloclen := bh_alloclen d + 1,
         bh_numlines := bh_numlines d + 1, bh_len := bh_len d + int grow\<rparr>)
       (s\<lparr>lb_next := lb_next s + 1, lb_count := lb_count s + 1, lb_lines := (lb_lines s)(lb_next s \<mapsto> b)\<rparr>)"

lemma lb_inv_push:
  assumes inv: "lb_inv exact s" and h: "h < length (lb_heads s)"
    and b: "bl_refcount b = 1" "line_ok b" "length (bl_buf b) \<le> grow" "exact \<longrightarrow> length (bl_buf b) = grow"
  shows "lb_inv exact (push_line h b grow s)"
proof -
  let ?l = "lb_next s" and ?t = "push_line h b grow s"
  let ?s1 = "s\<lparr>lb_next := lb_next s + 1, lb_count := lb_count s + 1, lb_lines := (lb_lines s)(lb_next s \<mapsto> b)\<rparr>"
  have none: "lb_lines s ?l = None" "refs s ?l = 0" using inv by (auto simp: lb_inv_def)
  have fresh: "?l \<notin> set (bh_list (head_of s i))" if "i < length (lb_heads s)" for i
    using refs_pos [OF that, of ?l] none by auto
  have h1: "head_of ?s1 = head_of s" "h < length (lb_heads ?s1)" using h by (simp_all add: head_of_def fun_eq_iff)
  have r: "refs ?t l = refs s l + (if l = ?l then 1 else 0)" for l
    using refs_upd_head [OF h1(2)] count_le_refs [OF h, of l] h1(1) refs_same_heads [of ?s1 s]
    by (simp add: push_line_def)
  have lines: "lb_lines ?t = (lb_lines s)(?l \<mapsto> b)" "lb_next ?t = ?l + 1" "lb_count ?t = lb_count s + 1"
    "length (lb_heads ?t) = length (lb_heads s)"
    by (simp_all add: push_line_def)
  have line: "line_of ?t i = (if i = ?l then b else line_of s i)" for i by (simp add: line_of_def lines)
  have heads: "head_of ?t i = (if i = h then (head_of s h)\<lparr>bh_list := bh_list (head_of s h) @ [?l],
      bh_alloclen := bh_alloclen (head_of s h) + 1, bh_numlines := bh_numlines (head_of s h) + 1,
      bh_len := bh_len (head_of s h) + int grow\<rparr> else head_of s i)" for i
    using head_upd_head [OF h1(2)] h1(1) by (simp add: push_line_def)
  have "head_ok exact ?t (head_of ?t i)" if i: "i < length (lb_heads s)" for i
  proof -
    have ok: "head_ok exact s (head_of s i)" using inv i by (simp add: lb_inv_def)
    have len: "lens ?t (head_of s i) = lens s (head_of s i)"
      using fresh [OF i] by (intro lens_cong) (auto simp: line)
    then show ?thesis using ok b(3,4) by (auto simp: heads head_ok_def lens_def line)
  qed
  moreover have "card (dom (lb_lines ?t)) = card (dom (lb_lines s)) + 1"
    using none lb_inv_finite [OF inv] by (simp add: lines domIff)
  ultimately show ?thesis
    using inv b(1,2) none unfolding lb_inv_def by (auto simp: lines r split: if_splits)
qed

section \<open>Appending to the last line\<close>

lemma refs_one_elsewhere:
  assumes "h < length (lb_heads s)" "i < length (lb_heads s)" "i \<noteq> h"
    and "refs s l = count_list (bh_list (head_of s h)) l"
  shows "l \<notin> set (bh_list (head_of s i))"
proof -
  let ?s = "upd_head h (\<lambda>d. d\<lparr>bh_list := []\<rparr>) s"
  have "refs ?s l = 0" using refs_upd_head [OF assms(1), of "\<lambda>d. d\<lparr>bh_list := []\<rparr>" l] assms(4) by simp
  then show ?thesis
    using refs_pos [of i ?s l] head_upd_head [OF assms(1), of _ i] assms(2,3) by auto
qed

lemma lb_inv_put_line:
  assumes inv: "lb_inv exact s" and h: "h < length (lb_heads s)"
    and l: "bh_list (head_of s h) = ls @ [l]"
    and b: "bl_refcount b = bl_refcount (line_of s l)" "line_ok b"
    and len: "bl_buf b = bl_buf (line_of s l) \<and> grow = 0 \<or>
      bl_refcount b = 1 \<and> length (bl_buf b) \<le> length (bl_buf (line_of s l)) + grow \<and>
      (exact \<longrightarrow> length (bl_buf b) = length (bl_buf (line_of s l)) + grow)"
  shows "lb_inv exact (upd_head h (\<lambda>d. d\<lparr>bh_len := bh_len d + int grow\<rparr>) (put_line l (Some b) s))"
    (is "lb_inv exact ?t")
proof -
  have l_in: "l \<in> set (bh_list (head_of s h))" using l by simp
  note old = lb_inv_line [OF inv h l_in]
  have r: "refs ?t k = refs s k" for k using refs_upd_head [of h "put_line l (Some b) s"] h by simp
  have heads: "head_of ?t i = (if i = h then (head_of s h)\<lparr>bh_len := bh_len (head_of s h) + int grow\<rparr> else head_of s i)" for i
    using head_upd_head [of h "put_line l (Some b) s"] h by simp
  have hok: "head_ok exact ?t (head_of ?t i)" if i: "i < length (lb_heads s)" for i
  proof (cases "bl_buf b = bl_buf (line_of s l) \<and> grow = 0")
    case True
    then have "lens ?t (head_of s i) = lens s (head_of s i)" by (intro lens_cong) (simp add: line_put_line)
    moreover have "head_ok exact s (head_of s i)" using inv i by (simp add: lb_inv_def)
    ultimately show ?thesis using True unfolding heads by (cases "i = h") (auto simp: head_ok_def lens_def)
  next
    case False
    then have one: "refs s l = 1" using len old b by auto
    have ls: "l \<notin> set ls" using count_le_refs [OF h, of l] one l by (simp add: count_list_0_iff)
    show ?thesis
    proof (cases "i = h")
      case True
      have "sum_list (map (\<lambda>x. length (bl_buf (if x = l then b else line_of s x))) ls) =
          sum_list (map (\<lambda>x. length (bl_buf (line_of s x))) ls)"
        using ls by (intro arg_cong [of _ _ sum_list] map_cong) auto
      then have "lens ?t (head_of s h) + length (bl_buf (line_of s l)) = lens s (head_of s h) + length (bl_buf b)"
        unfolding lens_def l upd_head_sel line_put_line by simp
      moreover have "head_ok exact s (head_of s h)" using inv h by (simp add: lb_inv_def)
      ultimately show ?thesis using True len False unfolding heads by (auto simp: head_ok_def lens_def)
    next
      case i': False
      have "l \<notin> set (bh_list (head_of s i))"
        using refs_one_elsewhere [OF h i i'] one l ls by simp
      then have "lens ?t (head_of s i) = lens s (head_of s i)" by (intro lens_cong) (auto simp: line_put_line)
      moreover have "head_ok exact s (head_of s i)" using inv i by (simp add: lb_inv_def)
      ultimately show ?thesis using i' unfolding heads by (simp add: head_ok_def)
    qed
  qed
  have dom: "dom (lb_lines ?t) = dom (lb_lines s)" using old(1) by auto
  show ?thesis
    using inv b old hok dom unfolding lb_inv_def
    by (auto simp: r split: if_splits)
qed

section \<open>Removing the first line\<close>

lemma lb_inv_done_line:
  assumes inv: "lb_inv exact s" and h: "h < length (lb_heads s)"
    and l: "bh_list (head_of s h) = l # ls"
  shows "lb_inv exact (rb_linebuf_done_line h l s)" (is "lb_inv exact ?t")
    "bh_list (head_of (rb_linebuf_done_line h l s) h) = ls"
    "\<And>k. refs (rb_linebuf_done_line h l s) k = refs s k - (if k = l then 1 else 0)"
    "\<And>k. 0 < refs s k - (if k = l then 1 else 0) \<Longrightarrow>
       bl_buf (line_of (rb_linebuf_done_line h l s) k) = bl_buf (line_of s k) \<and>
       bl_terminated (line_of (rb_linebuf_done_line h l s) k) = bl_terminated (line_of s k)"
    "length (lb_heads (rb_linebuf_done_line h l s)) = length (lb_heads s)"
    "bh_writeofs (head_of (rb_linebuf_done_line h l s) h) = bh_writeofs (head_of s h)"
proof -
  let ?b = "line_of s l"
  let ?f = "\<lambda>d. d\<lparr>bh_list := tl (bh_list d), bh_alloclen := bh_alloclen d - 1,
                 bh_len := bh_len d - int (length (bl_buf ?b)), bh_numlines := bh_numlines d - 1\<rparr>"
  have l_in: "l \<in> set (bh_list (head_of s h))" using l by simp
  note old = lb_inv_line [OF inv h l_in]
  have pos: "0 < refs s l" using refs_pos [OF h l_in] .
  have t_heads: "lb_heads ?t = lb_heads (upd_head h ?f s)"
    by (simp add: rb_linebuf_done_line_def Let_def)
  then have heads: "head_of ?t i = (if i = h then ?f (head_of s h) else head_of s i)" for i
    using head_upd_head [OF h, of ?f i] by (simp add: head_of_def)
  show r: "refs ?t k = refs s k - (if k = l then 1 else 0)" for k
  proof -
    have "refs ?t k = refs (upd_head h ?f s) k" using refs_same_heads [OF t_heads] by simp
    also have "\<dots> = refs s k + count_list ls k - (count_list ls k + (if k = l then 1 else 0))"
      using refs_upd_head [OF h, of ?f k] l by (simp add: add.commute)
    also have "\<dots> = refs s k - (if k = l then 1 else 0)" by simp
    finally show ?thesis .
  qed
  have lines: "lb_lines ?t = (lb_lines s)(l := if refs s l = 1 then None else Some (?b\<lparr>bl_refcount := refs s l - 1\<rparr>))"
    "lb_next ?t = lb_next s" "lb_count ?t = (if refs s l = 1 then lb_count s - 1 else lb_count s)"
    using old pos by (auto simp: rb_linebuf_done_line_def Let_def)
  show "length (lb_heads ?t) = length (lb_heads s)" by (simp add: t_heads)
  show "bh_list (head_of ?t h) = ls" "bh_writeofs (head_of ?t h) = bh_writeofs (head_of s h)"
    by (simp_all add: heads l)
  show kept: "bl_buf (line_of ?t k) = bl_buf (line_of s k) \<and> bl_terminated (line_of ?t k) = bl_terminated (line_of s k)"
    if "0 < refs s k - (if k = l then 1 else 0)" for k
    using that by (auto simp: line_of_def lines split: if_splits)
  have hok: "head_ok exact ?t (head_of ?t i)" if i: "i < length (lb_heads s)" for i
  proof -
    have ok: "head_ok exact s (head_of s i)" using inv i by (simp add: lb_inv_def)
    have "0 < refs s k - (if k = l then 1 else 0)" if "k \<in> set (bh_list (head_of ?t i))" for k
      using refs_pos [of i ?t k] that i by (simp add: r t_heads)
    then have "lens ?t (head_of ?t i) = lens s (head_of ?t i)" using kept by (intro lens_cong) auto
    then show ?thesis using ok l by (auto simp: heads head_ok_def lens_def split: if_splits)
  qed
  have card: "refs s l = 1 \<Longrightarrow> int (card (dom (lb_lines s) - {l})) = int (card (dom (lb_lines s))) - 1"
    using card_Suc_Diff1 [OF lb_inv_finite [OF inv], of l] old(1) by (simp add: domI)
  have dom: "refs s l \<noteq> 1 \<Longrightarrow> insert l (dom (lb_lines s)) = dom (lb_lines s)" using old(1) by auto
  have ok': "refs s l \<noteq> 1 \<Longrightarrow> line_ok (?b\<lparr>bl_refcount := refs s l - 1\<rparr>)" using old by (auto simp: line_ok_def)
  show "lb_inv exact ?t"
    using inv hok card dom ok' pos unfolding lb_inv_def
    by (auto simp: r lines t_heads split: if_splits)
qed

section \<open>Sharing a line\<close>

definition attach_line :: "hid \<Rightarrow> lid \<Rightarrow> lbs \<Rightarrow> lbs" where
  "attach_line h l s =
     put_line l (Some ((line_of s l)\<lparr>bl_refcount := bl_refcount (line_of s l) + 1\<rparr>))
       (upd_head h (\<lambda>d. d\<lparr>bh_list := bh_list d @ [l], bh_alloclen := bh_alloclen d + 1,
          bh_len := bh_len d + int (length (bl_buf (line_of s l))), bh_numlines := bh_numlines d + 1\<rparr>) s)"

lemma attach_lines_Cons: "attach_lines h (l # ls) s = attach_lines h ls (attach_line h l s)"
  by (simp add: attach_line_def Let_def)

lemma lb_inv_attach_line:
  assumes inv: "lb_inv exact s" and h: "h < length (lb_heads s)"
    and l: "lb_lines s l \<noteq> None" "bl_terminated (line_of s l)"
  shows "lb_inv exact (attach_line h l s)" (is "lb_inv exact ?t")
    "\<And>k. bl_buf (line_of (attach_line h l s) k) = bl_buf (line_of s k)"
    "\<And>k. bl_terminated (line_of (attach_line h l s) k) = bl_terminated (line_of s k)"
    "\<And>k. lb_lines (attach_line h l s) k = None \<longleftrightarrow> lb_lines s k = None"
    "\<And>i. head_of (attach_line h l s) i = (if i = h then
       (head_of s h)\<lparr>bh_list := bh_list (head_of s h) @ [l], bh_alloclen := bh_alloclen (head_of s h) + 1,
          bh_len := bh_len (head_of s h) + int (length (bl_buf (line_of s l))),
          bh_numlines := bh_numlines (head_of s h) + 1\<rparr> else head_of s i)"
    "length (lb_heads (attach_line h l s)) = length (lb_heads s)"
proof -
  let ?b = "line_of s l"
  have some: "lb_lines s l = Some ?b" using l(1) by (auto simp: line_of_def)
  have old: "bl_refcount ?b = refs s l" "0 < refs s l" "line_ok ?b" using inv some by (auto simp: lb_inv_def)
  show heads: "head_of ?t i = (if i = h then
       (head_of s h)\<lparr>bh_list := bh_list (head_of s h) @ [l], bh_alloclen := bh_alloclen (head_of s h) + 1,
          bh_len := bh_len (head_of s h) + int (length (bl_buf ?b)),
          bh_numlines := bh_numlines (head_of s h) + 1\<rparr> else head_of s i)" for i
    using head_upd_head [OF h] by (simp add: attach_line_def)
  show bufs: "bl_buf (line_of ?t k) = bl_buf (line_of s k)" "bl_terminated (line_of ?t k) = bl_terminated (line_of s k)"
    "lb_lines ?t k = None \<longleftrightarrow> lb_lines s k = None" for k
    using some by (auto simp: attach_line_def line_of_def)
  show hl: "length (lb_heads ?t) = length (lb_heads s)" by (simp add: attach_line_def)
  have r: "refs ?t k = refs s k + (if k = l then 1 else 0)" for k
    using refs_upd_head [OF h] count_le_refs [OF h, of k] by (simp add: attach_line_def)
  have hok: "head_ok exact ?t (head_of ?t i)" if i: "i < length (lb_heads s)" for i
  proof -
    have ok: "head_ok exact s (head_of s i)" using inv i by (simp add: lb_inv_def)
    have "lens ?t d = lens s d" for d using bufs by (intro lens_cong) simp
    then show ?thesis using ok by (auto simp: heads head_ok_def) (auto simp: lens_def)
  qed
  have dom: "dom (lb_lines ?t) = dom (lb_lines s)" by (simp add: set_eq_iff domIff bufs(3))
  have lines: "lb_lines ?t k = (if k = l then Some (?b\<lparr>bl_refcount := refs s l + 1\<rparr>) else lb_lines s k)"
    "lb_next ?t = lb_next s" "lb_count ?t = lb_count s" for k
    by (simp_all add: attach_line_def old)
  have "line_ok (?b\<lparr>bl_refcount := refs s l + 1\<rparr>)" using old l(2) by (simp add: line_ok_def)
  then show "lb_inv exact ?t"
    using inv hok dom some unfolding lb_inv_def
    by (auto simp: r lines hl split: if_splits)
qed

lemma lb_inv_writeofs:
  assumes "lb_inv exact s" "h < length (lb_heads s)"
  shows "lb_inv exact (upd_head h (\<lambda>d. d\<lparr>bh_writeofs := n\<rparr>) s)"
proof -
  let ?t = "upd_head h (\<lambda>d. d\<lparr>bh_writeofs := n\<rparr>) s"
  have r: "refs ?t = refs s"
    using refs_upd_head [OF assms(2), of "\<lambda>d. d\<lparr>bh_writeofs := n\<rparr>"] by (simp add: fun_eq_iff)
  have hok: "head_ok exact ?t (head_of ?t i)" if "i < length (lb_heads s)" for i
    using assms that head_upd_head [OF assms(2), of "\<lambda>d. d\<lparr>bh_writeofs := n\<rparr>" i]
    by (auto simp: lb_inv_def head_ok_def lens_def)
  then show ?thesis using assms r by (simp add: lb_inv_def)
qed

section \<open>Receiving keeps the invariant\<close>

lemma eol_suffix_le: "eol_suffix b \<le> length b"
  using length_takeWhile_le [of is_eol "rev b"] by (simp add: eol_suffix_def)

definition copy_ok :: "buf_line \<Rightarrow> char list \<Rightarrow> nat \<times> buf_line \<times> nat \<Rightarrow> bool" where
  "copy_ok l data r =
     (case r of (clen, b, grow) \<Rightarrow>
       bl_refcount b = bl_refcount l \<and> line_ok b \<and> (bl_terminated l \<longrightarrow> bl_buf b = bl_buf l \<and> grow = 0) \<and>
       (\<not> bl_terminated l \<longrightarrow> length (bl_buf b) \<le> length (bl_buf l) + grow) \<and> clen \<le> length data)"

lemma copy_line_ok:
  assumes "rb_linebuf_copy_line l data = Inr r" "line_ok l"
  shows "copy_ok l data r"
proof (cases "bl_terminated l")
  case True
  then show ?thesis using assms by (auto simp: rb_linebuf_copy_line_def copy_ok_def line_ok_def Let_def)
next
  case nt: False
  let ?c = "rb_linebuf_skip_crlf data" and ?o = "bl_buf l"
  let ?b = "?o @ take ?c data"
  have c: "?c \<le> length data" by (rule skip_crlf_le)
  have l: "length ?o \<le> 510" "bl_refcount l = 1" using assms(2) nt by (auto simp: line_ok_def BUF_DATA_SIZE_def)
  consider (over) "?c > 510 - length ?o" | (part) "?c \<le> 510 - length ?o" "eol_suffix ?b = 0"
    | (full) "?c \<le> 510 - length ?o" "eol_suffix ?b \<noteq> 0" by linarith
  then show ?thesis
  proof cases
    case over
    let ?d = "?o @ take (510 - length ?o) data"
    let ?k = "min (eol_suffix ?d) ?c"
    have d: "length ?d = 510" using over c l by simp
    then have k: "?k \<le> 510" using eol_suffix_le [of ?d] by linarith
    have "r = (?c, l\<lparr>bl_raw := False, bl_buf := take (510 - ?k) ?d @ replicate ?k NUL, bl_terminated := True\<rparr>, 510)"
      using assms(1) nt over
      by (simp add: rb_linebuf_copy_line_def Let_def BUF_DATA_SIZE_def del: take_append split: if_splits)
    moreover have "length (take (510 - ?k) ?d @ replicate ?k NUL) = 510"
      using d k by (simp del: take_append)
    ultimately show ?thesis using c by (simp add: copy_ok_def line_ok_def BUF_DATA_SIZE_def nt del: take_append length_append)
  next
    case part
    then have "r = (?c, l\<lparr>bl_raw := False, bl_buf := ?b, bl_terminated := False\<rparr>, ?c)"
      using assms(1) nt by (auto simp: rb_linebuf_copy_line_def Let_def BUF_DATA_SIZE_def)
    then show ?thesis using part c l nt by (auto simp: copy_ok_def line_ok_def BUF_DATA_SIZE_def)
  next
    case full
    let ?n = "min (eol_suffix ?b) ?c"
    have "r = (?c, l\<lparr>bl_raw := False, bl_buf := take (length ?b - ?n) ?b, bl_terminated := True\<rparr>, ?c - ?n)"
      using assms(1) nt full by (auto simp: rb_linebuf_copy_line_def Let_def BUF_DATA_SIZE_def)
    then show ?thesis using full c l nt by (auto simp: copy_ok_def line_ok_def BUF_DATA_SIZE_def)
  qed
qed

lemma copy_raw_ok:
  assumes "line_ok l"
  shows "copy_ok l data (rb_linebuf_copy_raw l data)"
proof (cases "bl_terminated l")
  case True
  then show ?thesis using assms by (auto simp: rb_linebuf_copy_raw_def copy_ok_def line_ok_def Let_def)
next
  case False
  then have "length (bl_buf l) \<le> 510" "bl_refcount l = 1" using assms by (auto simp: line_ok_def BUF_DATA_SIZE_def)
  then show ?thesis using False skip_crlf_le [of data]
    by (auto simp: rb_linebuf_copy_raw_def copy_ok_def line_ok_def Let_def BUF_DATA_SIZE_def)
qed

lemma copy_data_ok:
  assumes "copy_data raw l data = Inr (clen, b, grow)" "line_ok l"
  shows "bl_refcount b = bl_refcount l \<and> line_ok b \<and>
    (bl_terminated l \<longrightarrow> bl_buf b = bl_buf l \<and> grow = 0) \<and>
    (\<not> bl_terminated l \<longrightarrow> length (bl_buf b) \<le> length (bl_buf l) + grow) \<and> clen \<le> length data"
proof -
  have "copy_ok l data (clen, b, grow)"
    using assms copy_line_ok [of l data "(clen, b, grow)"] copy_raw_ok [of l data]
    by (auto simp: copy_data_def split: if_splits)
  then show ?thesis by (simp add: copy_ok_def)
qed

lemma copy_into_last:
  assumes inv: "lb_inv e s" and h: "h < length (lb_heads s)" "bh_list (head_of s h) \<noteq> []"
    and c: "copy_into raw h (last (bh_list (head_of s h))) data s = Inr (data', s')"
  shows "lb_inv False s' \<and> length (lb_heads s') = length (lb_heads s)"
proof -
  let ?l = "last (bh_list (head_of s h))"
  have inv': "lb_inv False s" using inv by (auto simp: lb_inv_def head_ok_def)
  have "?l \<in> set (bh_list (head_of s h))" using h(2) by simp
  note old = lb_inv_line [OF inv h(1) this]
  obtain clen b grow where b: "copy_data raw (line_of s ?l) data = Inr (clen, b, grow)"
    and s': "s' = upd_head h (\<lambda>d. d\<lparr>bh_len := bh_len d + int grow\<rparr>) (put_line ?l (Some b) s)"
    using c by (auto simp: copy_into_def split: sum.splits)
  have "lb_inv False s'" unfolding s'
    using copy_data_ok [OF b old(3)] old(3) h
    by (intro lb_inv_put_line [OF inv' h(1), where ls = "butlast (bh_list (head_of s h))"])
       (auto simp: line_ok_def)
  then show ?thesis by (simp add: s')
qed

lemma copy_into_new:
  assumes "h < length (lb_heads s)"
  shows "copy_into raw h (fst (rb_linebuf_new_line h s)) data (snd (rb_linebuf_new_line h s)) =
    (case copy_data raw fresh_buf_line data of
       Inl f \<Rightarrow> Inl f
     | Inr (clen, b, grow) \<Rightarrow> Inr (drop clen data, push_line h b grow s))"
proof -
  have "upd_head h (\<lambda>d. d\<lparr>bh_len := bh_len d + int g\<rparr>)
      (put_line (fst (rb_linebuf_new_line h s)) (Some b) (snd (rb_linebuf_new_line h s))) = push_line h b g s" for b g
    using assms
    by (simp add: rb_linebuf_new_line_def push_line_def upd_head_def put_line_def head_of_def Let_def
        )
  then show ?thesis by (simp add: copy_into_def new_line_line split: sum.split)
qed

lemma fresh_ok: "line_ok fresh_buf_line" "bl_refcount fresh_buf_line = 1" "bl_buf fresh_buf_line = []"
  "\<not> bl_terminated fresh_buf_line"
  by (simp_all add: fresh_buf_line_def line_ok_def BUF_DATA_SIZE_def eol_suffix_def)

lemma push_line_heads [simp]: "length (lb_heads (push_line h b grow s)) = length (lb_heads s)"
  by (simp add: push_line_def)

lemma lb_inv_parse_loop:
  "parse_loop raw h data n s = Inr (m, s') \<Longrightarrow> lb_inv False s \<Longrightarrow> h < length (lb_heads s) \<Longrightarrow>
   lb_inv False s' \<and> length (lb_heads s') = length (lb_heads s)"
proof (induction raw h data n s rule: parse_loop.induct)
  case (1 raw h data n s)
  show ?case
  proof (cases "data = []")
    case True
    then show ?thesis using 1(2,3) by (simp add: parse_loop.simps)
  next
    case False
    obtain clen b grow where b: "copy_data raw fresh_buf_line data = Inr (clen, b, grow)"
      and rest: "parse_loop raw h (drop clen data) (n + 1) (push_line h b grow s) = Inr (m, s')"
      using 1(2) False by (auto simp: parse_loop.simps [of raw h data] copy_into_new [OF 1(4)] split: sum.splits)
    have "lb_inv False (push_line h b grow s)"
      using copy_data_ok [OF b fresh_ok(1)] fresh_ok by (intro lb_inv_push [OF 1(3,4)]) auto
    then show ?thesis
      using 1(1) [OF False _ refl, of "drop clen data" "push_line h b grow s"] rest 1(4)
      by (simp add: copy_into_new [OF 1(4)] b)
  qed
qed

lemma lb_inv_parse:
  assumes "rb_linebuf_parse raw h data s = Inr (m, s')" "lb_inv e s" "h < length (lb_heads s)"
  shows "lb_inv False s' \<and> length (lb_heads s') = length (lb_heads s)"
proof -
  have inv: "lb_inv False s" using assms(2) by (auto simp: lb_inv_def head_ok_def)
  show ?thesis
  proof (cases "bh_list (head_of s h) = []")
    case True
    then show ?thesis using assms lb_inv_parse_loop [of raw h data 0 s m s'] inv by (simp add: rb_linebuf_parse_def)
  next
    case False
    obtain data' s1 where c: "copy_into raw h (last (bh_list (head_of s h))) data s = Inr (data', s1)"
      and p: "parse_loop raw h data' 1 s1 = Inr (m, s')"
      using assms(1) False by (auto simp: rb_linebuf_parse_def split: sum.splits)
    show ?thesis using copy_into_last [OF inv assms(3) False c] lb_inv_parse_loop [OF p] assms(3) by simp
  qed
qed

section \<open>The contents of the queues\<close>

definition bufs :: "lbs \<Rightarrow> hid \<Rightarrow> char list list" where
  "bufs s h = map (\<lambda>l. bl_buf (line_of s l)) (bh_list (head_of s h))"

text \<open>What a queue still has to send.\<close>

definition pending :: "lbs \<Rightarrow> hid \<Rightarrow> char list" where
  "pending s h = drop (bh_writeofs (head_of s h)) (concat (bufs s h))"

definition ofs_ok :: "lbs \<Rightarrow> hid \<Rightarrow> bool" where
  "ofs_ok s h = (case bufs s h of [] \<Rightarrow> bh_writeofs (head_of s h) = 0
                 | b # bs \<Rightarrow> bh_writeofs (head_of s h) \<le> length b)"

lemma bufs_done_line:
  assumes inv: "lb_inv e s" and h: "h < length (lb_heads s)" and l: "bh_list (head_of s h) = l # ls"
    and i: "i < length (lb_heads s)"
  shows "bufs (rb_linebuf_done_line h l s) i = (if i = h then tl (bufs s h) else bufs s i)"
    "i \<noteq> h \<Longrightarrow> head_of (rb_linebuf_done_line h l s) i = head_of s i"
proof -
  let ?t = "rb_linebuf_done_line h l s"
  note d = lb_inv_done_line [OF inv h l]
  have lst: "bh_list (head_of ?t i) = (if i = h then ls else bh_list (head_of s i))"
    using d(2) head_upd_head [OF h] by (auto simp: rb_linebuf_done_line_def Let_def head_of_def)
  have "bl_buf (line_of ?t k) = bl_buf (line_of s k)" if "k \<in> set (bh_list (head_of ?t i))" for k
    using refs_pos [of i ?t k] d(3,4,5) that i by simp
  then have "bufs ?t i = map (\<lambda>l. bl_buf (line_of s l)) (bh_list (head_of ?t i))"
    by (simp add: bufs_def)
  then show "bufs ?t i = (if i = h then tl (bufs s h) else bufs s i)" by (simp add: lst bufs_def l)
  show "i \<noteq> h \<Longrightarrow> head_of ?t i = head_of s i"
    using head_upd_head [OF h] by (auto simp: rb_linebuf_done_line_def Let_def head_of_def)
qed

lemma bufs_writeofs [simp]: "h < length (lb_heads s) \<Longrightarrow> bufs (upd_head h (\<lambda>d. d\<lparr>bh_writeofs := n\<rparr>) s) i = bufs s i"
  by (simp add: bufs_def head_upd_head)

lemma flush_done_spec:
  assumes "lb_inv e s" "h < length (lb_heads s)" "ofs_ok s h" "y \<le> length (bufs s h)"
    "xret \<le> length (concat (take y (bufs s h))) - bh_writeofs (head_of s h)"
  shows "lb_inv e (flush_done y xret h s) \<and> length (lb_heads (flush_done y xret h s)) = length (lb_heads s) \<and>
    ofs_ok (flush_done y xret h s) h \<and> pending (flush_done y xret h s) h = drop xret (pending s h) \<and>
    (\<forall>i < length (lb_heads s). i \<noteq> h \<longrightarrow>
       bufs (flush_done y xret h s) i = bufs s i \<and> head_of (flush_done y xret h s) i = head_of s i)"
  using assms
proof (induction y arbitrary: s xret)
  case 0
  then show ?case by simp
next
  case (Suc y)
  obtain l ls where l: "bh_list (head_of s h) = l # ls"
    using Suc.prems(4) by (cases "bh_list (head_of s h)") (auto simp: bufs_def)
  let ?b = "bl_buf (line_of s l)" and ?o = "bh_writeofs (head_of s h)"
  let ?s1 = "rb_linebuf_done_line h l s"
  let ?s2 = "upd_head h (\<lambda>d. d\<lparr>bh_writeofs := 0\<rparr>) ?s1"
  have bs: "bufs s h = ?b # tl (bufs s h)" by (simp add: bufs_def l)
  have o: "?o \<le> length ?b" using Suc.prems(3) bs by (simp add: ofs_ok_def split: list.splits)
  note d = lb_inv_done_line [OF Suc.prems(1,2) l]
  have h1: "h < length (lb_heads ?s1)" using d(5) Suc.prems(2) by simp
  have inv2: "lb_inv e ?s2" using lb_inv_writeofs [OF d(1) h1] .
  have b2: "bufs ?s2 i = (if i = h then tl (bufs s h) else bufs s i)" "i \<noteq> h \<Longrightarrow> head_of ?s2 i = head_of s i"
    if "i < length (lb_heads s)" for i
    using bufs_done_line [OF Suc.prems(1,2) l that] h1 head_upd_head [OF h1] by simp_all
  have ofs2: "bh_writeofs (head_of ?s2 h) = 0" using head_upd_head [OF h1] by simp
  show ?case
  proof (cases "length ?b - ?o \<le> xret")
    case True
    let ?x = "xret - (length ?b - ?o)"
    have f: "flush_done (Suc y) xret h s = flush_done y ?x h ?s2" using True l by (simp add: Let_def)
    have "ofs_ok ?s2 h" by (simp add: ofs_ok_def ofs2 split: list.splits)
    moreover have "y \<le> length (bufs ?s2 h)" using Suc.prems(2,4) b2 bs by (metis Suc_le_mono length_Cons)
    moreover have "length (concat (take (Suc y) (bufs s h))) = length ?b + length (concat (take y (tl (bufs s h))))"
      by (subst bs) simp
    then have "?x \<le> length (concat (take y (bufs ?s2 h))) - bh_writeofs (head_of ?s2 h)"
      using Suc.prems(5) True o b2(1) [OF Suc.prems(2)] by (simp add: ofs2)
    ultimately have ih: "lb_inv e (flush_done y ?x h ?s2)"
      "length (lb_heads (flush_done y ?x h ?s2)) = length (lb_heads s)" "ofs_ok (flush_done y ?x h ?s2) h"
      "pending (flush_done y ?x h ?s2) h = drop ?x (pending ?s2 h)"
      "\<forall>i < length (lb_heads s). i \<noteq> h \<longrightarrow> bufs (flush_done y ?x h ?s2) i = bufs ?s2 i \<and>
         head_of (flush_done y ?x h ?s2) i = head_of ?s2 i"
      using Suc.IH [OF inv2] h1 d(5) by auto
    have "pending s h = drop ?o ?b @ pending ?s2 h"
      unfolding pending_def ofs2 using b2(1) [OF Suc.prems(2)] o by (subst bs) simp
    then have "drop xret (pending s h) = drop ?x (pending ?s2 h)" using True o by simp
    then show ?thesis using f ih b2 by auto
  next
    case False
    let ?t = "upd_head h (\<lambda>d. d\<lparr>bh_writeofs := bh_writeofs d + xret\<rparr>) s"
    have f: "flush_done (Suc y) xret h s = ?t" using False l by (simp add: Let_def)
    have t: "?t = upd_head h (\<lambda>d. d\<lparr>bh_writeofs := ?o + xret\<rparr>) s" by (simp add: upd_head_def head_of_def)
    have "bufs ?t i = bufs s i" for i using Suc.prems(2) by (simp add: t)
    moreover have "head_of ?t i = (if i = h then (head_of s h)\<lparr>bh_writeofs := ?o + xret\<rparr> else head_of s i)" for i
      using head_upd_head [OF Suc.prems(2)] by simp
    moreover have "lb_inv e ?t" unfolding t by (rule lb_inv_writeofs [OF Suc.prems(1,2)])
    moreover obtain bs where "bufs s h = ?b # bs" by (simp add: bufs_def l)
    then have "ofs_ok ?t h" using False calculation by (simp add: ofs_ok_def)
    ultimately show ?thesis unfolding f by (simp add: pending_def add.commute)
  qed
qed

lemma bufs_push:
  assumes inv: "lb_inv e s" and h: "h < length (lb_heads s)" and i: "i < length (lb_heads s)"
  shows "bufs (push_line h b g s) i = bufs s i @ (if i = h then [bl_buf b] else [])"
    "bh_writeofs (head_of (push_line h b g s) i) = bh_writeofs (head_of s i)"
proof -
  let ?s1 = "s\<lparr>lb_next := lb_next s + 1, lb_count := lb_count s + 1, lb_lines := (lb_lines s)(lb_next s \<mapsto> b)\<rparr>"
  have h1: "h < length (lb_heads ?s1)" "head_of ?s1 = head_of s" using h by (simp_all add: head_of_def fun_eq_iff)
  have "refs s (lb_next s) = 0" using inv by (auto simp: lb_inv_def)
  then have "lb_next s \<notin> set (bh_list (head_of s i))" using refs_pos [OF i] by force
  then have "map (\<lambda>l. bl_buf (line_of ?s1 l)) (bh_list (head_of s i)) = bufs s i"
    unfolding bufs_def by (intro map_cong) (auto simp: line_of_def)
  moreover have "line_of ?s1 (lb_next s) = b" by (simp add: line_of_def)
  ultimately show "bufs (push_line h b g s) i = bufs s i @ (if i = h then [bl_buf b] else [])"
    using head_upd_head [OF h1(1)] h1(2) by (simp add: push_line_def bufs_def)
  show "bh_writeofs (head_of (push_line h b g s) i) = bh_writeofs (head_of s i)"
    using head_upd_head [OF h1(1)] h1(2) by (simp add: push_line_def)
qed

lemma put_text_push:
  assumes "h < length (lb_heads s)"
  shows "put_text h t s = (case finish_line t of
       Inl f \<Rightarrow> Inl f
     | Inr b \<Rightarrow> Inr (push_line h (fresh_buf_line\<lparr>bl_buf := b, bl_terminated := True\<rparr>) (length b) s))"
  using assms
  by (simp add: put_text_def rb_linebuf_new_line_def push_line_def upd_head_def put_line_def head_of_def Let_def
      split: sum.split)

lemma finish_line_length: "finish_line t = Inr b \<Longrightarrow> length b \<le> 512 \<and> b \<noteq> []"
  by (auto simp: finish_line_def Let_def split: if_splits)

lemma lb_inv_put_text:
  assumes "put_text h t s = Inr s'" "lb_inv e s" "h < length (lb_heads s)"
  shows "lb_inv e s'" "length (lb_heads s') = length (lb_heads s)"
    "\<exists>b. finish_line t = Inr b \<and> (\<forall>i < length (lb_heads s).
       bufs s' i = bufs s i @ (if i = h then [b] else []) \<and> bh_writeofs (head_of s' i) = bh_writeofs (head_of s i))"
    "\<exists>b. bl_terminated b \<and> lb_lines s' = (lb_lines s)(lb_next s \<mapsto> b)"
proof -
  obtain b where b: "finish_line t = Inr b"
    and s': "s' = push_line h (fresh_buf_line\<lparr>bl_buf := b, bl_terminated := True\<rparr>) (length b) s"
    using assms(1) by (auto simp: put_text_push [OF assms(3)] split: sum.splits)
  show "lb_inv e s'" unfolding s'
    using finish_line_length [OF b] fresh_ok
    by (intro lb_inv_push [OF assms(2,3)]) (auto simp: line_ok_def BUF_DATA_SIZE_def)
  show "length (lb_heads s') = length (lb_heads s)" by (simp add: s')
  show "\<exists>b. finish_line t = Inr b \<and> (\<forall>i < length (lb_heads s).
       bufs s' i = bufs s i @ (if i = h then [b] else []) \<and> bh_writeofs (head_of s' i) = bh_writeofs (head_of s i))"
    using b bufs_push [OF assms(2,3)] by (auto simp: s')
  show "\<exists>b. bl_terminated b \<and> lb_lines s' = (lb_lines s)(lb_next s \<mapsto> b)"
    by (rule exI [of _ "fresh_buf_line\<lparr>bl_buf := b, bl_terminated := True\<rparr>"]) (simp add: s' push_line_def)
qed

lemma attach_lines_spec:
  assumes "lb_inv e s" "h < length (lb_heads s)"
    "\<forall>l \<in> set ls. lb_lines s l \<noteq> None \<and> bl_terminated (line_of s l)"
  shows "lb_inv e (attach_lines h ls s) \<and> length (lb_heads (attach_lines h ls s)) = length (lb_heads s) \<and>
    (\<forall>i. bufs (attach_lines h ls s) i = bufs s i @ (if i = h then map (\<lambda>l. bl_buf (line_of s l)) ls else []) \<and>
       bh_writeofs (head_of (attach_lines h ls s) i) = bh_writeofs (head_of s i)) \<and>
    (\<forall>k. lb_lines (attach_lines h ls s) k = None \<longleftrightarrow> lb_lines s k = None) \<and>
    (\<forall>k. bl_terminated (line_of (attach_lines h ls s) k) = bl_terminated (line_of s k))"
  using assms
proof (induction ls arbitrary: s)
  case (Cons l ls)
  let ?t = "attach_line h l s"
  have l: "lb_lines s l \<noteq> None" "bl_terminated (line_of s l)" using Cons.prems(3) by simp_all
  note a = lb_inv_attach_line [OF Cons.prems(1,2) l]
  have "bufs ?t i = bufs s i @ (if i = h then [bl_buf (line_of s l)] else [])" for i
    by (simp add: bufs_def a(2,5))
  moreover have "\<forall>l \<in> set ls. lb_lines ?t l \<noteq> None \<and> bl_terminated (line_of ?t l)"
    using Cons.prems(3) a(3,4) by simp
  ultimately show ?case
    using Cons.IH [OF a(1)] Cons.prems(2) a(2-6) by (simp add: attach_lines_Cons del: attach_lines.simps)
qed simp

section \<open>Flushing\<close>

lemma flush_vec_Some:
  assumes "flush_vec ssl maxiov h s = Some vec" "ofs_ok s h" "2 \<le> maxiov"
  obtains l ls n where "bh_list (head_of s h) = l # ls" "length vec = n" "n \<le> length (bufs s h)" "1 \<le> n"
    "concat vec = drop (bh_writeofs (head_of s h)) (concat (take n (bufs s h)))" "ssl \<longrightarrow> n = 1"
proof -
  obtain l ls where l: "bh_list (head_of s h) = l # ls"
    using assms(1) by (auto simp: flush_vec_def split: list.splits)
  let ?o = "bh_writeofs (head_of s h)" and ?b = "bl_buf (line_of s l)"
  let ?bs = "map (\<lambda>l. bl_buf (line_of s l))"
  define m where "m = (if ssl then 0 else min (maxiov - 1) (length (takeWhile (\<lambda>l. bl_terminated (line_of s l)) ls)))"
  have "take (maxiov - 1) (takeWhile (\<lambda>l. bl_terminated (line_of s l)) ls) =
      take (min (maxiov - 1) (length (takeWhile (\<lambda>l. bl_terminated (line_of s l)) ls))) ls"
    by (metis take_take takeWhile_eq_take)
  then have vec: "vec = drop ?o ?b # ?bs (take m ls)"
    using assms(1) l by (auto simp: flush_vec_def m_def split: if_splits)
  have o: "?o \<le> length ?b" using assms(2) l by (simp add: ofs_ok_def bufs_def)
  have m: "m \<le> length ls" unfolding m_def using length_takeWhile_le [of "\<lambda>l. bl_terminated (line_of s l)" ls] by auto
  show thesis
    by (rule that [of l ls "m + 1"]) (use o m in \<open>auto simp: l vec bufs_def m_def take_map\<close>)
qed

lemma done_line_writeofs:
  assumes "h < length (lb_heads s)"
  shows "upd_head h (\<lambda>d. d\<lparr>bh_writeofs := 0\<rparr>) (rb_linebuf_done_line h l s) =
    rb_linebuf_done_line h l (upd_head h (\<lambda>d. d\<lparr>bh_writeofs := 0\<rparr>) s)"
  using assms
  by (cases s; cases "lb_heads s ! h")
     (simp add: rb_linebuf_done_line_def upd_head_def put_line_def head_of_def line_of_def Let_def)

lemma flush_spec:
  assumes inv: "lb_inv e s" and h: "h < length (lb_heads s)" and o: "ofs_ok s h" and m: "2 \<le> maxiov"
    and v: "flush_vec ssl maxiov h s = Some vec" and r: "retval \<le> int (length (concat vec))"
  shows "let s' = snd (rb_linebuf_flush ssl maxiov retval h s) in
    lb_inv e s' \<and> length (lb_heads s') = length (lb_heads s) \<and> ofs_ok s' h \<and>
    pending s h = take (nat retval) (concat vec) @ pending s' h \<and>
    (\<forall>i < length (lb_heads s). i \<noteq> h \<longrightarrow> bufs s' i = bufs s i \<and> head_of s' i = head_of s i)"
proof -
  obtain l ls n where l: "bh_list (head_of s h) = l # ls" and n: "length vec = n" "n \<le> length (bufs s h)" "1 \<le> n"
    and vec: "concat vec = drop (bh_writeofs (head_of s h)) (concat (take n (bufs s h)))" and ssl: "ssl \<longrightarrow> n = 1"
    using flush_vec_Some [OF v o m] by metis
  let ?o = "bh_writeofs (head_of s h)" and ?x = "nat retval"
  let ?d = "flush_done n ?x h s"
  have bs: "bufs s h = bl_buf (line_of s l) # map (\<lambda>l. bl_buf (line_of s l)) ls" by (simp add: bufs_def l)
  have ol: "?o \<le> length (bl_buf (line_of s l))" using o bs by (simp add: ofs_ok_def)
  then have ol': "?o \<le> length (concat (take n (bufs s h)))" using n(3) by (cases n) (auto simp: bs)
  have "concat (bufs s h) = concat (take n (bufs s h)) @ concat (drop n (bufs s h))"
    by (metis append_take_drop_id concat_append)
  then have pre: "pending s h = concat vec @ concat (drop n (bufs s h))" using ol' by (simp add: pending_def vec)
  have x: "?x \<le> length (concat vec)" using r by linarith
  have d: "lb_inv e ?d \<and> length (lb_heads ?d) = length (lb_heads s) \<and> ofs_ok ?d h \<and>
      pending ?d h = drop ?x (pending s h) \<and>
      (\<forall>i < length (lb_heads s). i \<noteq> h \<longrightarrow> bufs ?d i = bufs s i \<and> head_of ?d i = head_of s i)"
    using flush_done_spec [OF inv h o n(2), of ?x] x by (simp add: vec)
  have take: "take ?x (concat vec) @ drop ?x (pending s h) = pending s h" using x pre by simp
  have one: "snd (rb_linebuf_flush ssl maxiov retval h s) = ?d" if "0 < retval"
  proof (cases ssl)
    case False
    then show ?thesis using that v n(1) by (simp add: rb_linebuf_flush_def)
  next
    case True
    then have "n = Suc 0" "?x \<le> length (bl_buf (line_of s l)) - ?o" using ssl x vec bs by simp_all
    moreover have "upd_head h (\<lambda>d. d\<lparr>bh_writeofs := ?o + ?x\<rparr>) s = upd_head h (\<lambda>d. d\<lparr>bh_writeofs := bh_writeofs d + ?x\<rparr>) s"
      by (simp add: upd_head_def head_of_def)
    ultimately show ?thesis using True \<open>0 < retval\<close> v l ol by (auto simp: rb_linebuf_flush_def Let_def done_line_writeofs [OF h])
  qed
  show ?thesis
  proof (cases "0 < retval")
    case True
    then show ?thesis using one [OF True] d take by (simp add: Let_def)
  next
    case False
    then show ?thesis using v inv o by (simp add: rb_linebuf_flush_def Let_def)
  qed
qed

section \<open>Sending, as a whole\<close>

definition all_term :: "lbs \<Rightarrow> bool" where
  "all_term s = (\<forall>l b. lb_lines s l = Some b \<longrightarrow> bl_terminated b)"

lemma all_term_done_line:
  "all_term s \<Longrightarrow> lb_lines s l \<noteq> None \<Longrightarrow> all_term (rb_linebuf_done_line h l s)"
  by (auto simp: all_term_def rb_linebuf_done_line_def Let_def line_of_def)

lemma done_lines_spec:
  assumes "lb_inv e s" "h < length (lb_heads s)" "bh_list (head_of s h) = ls"
  shows "lb_inv e (done_lines h ls s) \<and> length (lb_heads (done_lines h ls s)) = length (lb_heads s) \<and>
    bh_list (head_of (done_lines h ls s) h) = [] \<and> (all_term s \<longrightarrow> all_term (done_lines h ls s)) \<and>
    (\<forall>i < length (lb_heads s). i \<noteq> h \<longrightarrow>
       bufs (done_lines h ls s) i = bufs s i \<and> head_of (done_lines h ls s) i = head_of s i)"
  using assms
proof (induction ls arbitrary: s)
  case (Cons l ls)
  note d = lb_inv_done_line [OF Cons.prems]
  note b = bufs_done_line [OF Cons.prems]
  have "lb_lines s l \<noteq> None" using lb_inv_line(1) [OF Cons.prems(1,2), of l] Cons.prems(3) by simp
  then show ?case
    using Cons.IH [OF d(1) _ d(2)] Cons.prems(2) d(5) b all_term_done_line [of s l h] by simp
qed simp

lemma flush_done_all_term:
  "all_term s \<Longrightarrow> lb_inv e s \<Longrightarrow> h < length (lb_heads s) \<Longrightarrow> y \<le> length (bh_list (head_of s h)) \<Longrightarrow>
   all_term (flush_done y xret h s)"
proof (induction y arbitrary: s xret)
  case (Suc y)
  obtain l ls where l: "bh_list (head_of s h) = l # ls" using Suc.prems(4) by (cases "bh_list (head_of s h)") auto
  note d = lb_inv_done_line [OF Suc.prems(2,3) l]
  let ?s1 = "rb_linebuf_done_line h l s"
  let ?s2 = "upd_head h (\<lambda>d. d\<lparr>bh_writeofs := 0\<rparr>) ?s1"
  have h1: "h < length (lb_heads ?s1)" using d(5) Suc.prems(3) by simp
  have "lb_lines s l \<noteq> None" using lb_inv_line(1) [OF Suc.prems(2,3), of l] l by simp
  then have "all_term ?s2" using all_term_done_line [OF Suc.prems(1)] by (simp add: all_term_def)
  then have "all_term (flush_done y x h ?s2)" for x
    using Suc.IH [OF _ lb_inv_writeofs [OF d(1) h1]] h1 Suc.prems(4) d(2) l head_upd_head [OF h1] by simp
  moreover have "all_term (upd_head h f s)" for f using Suc.prems(1) by (simp add: all_term_def)
  ultimately show ?case using l by (simp add: Let_def)
qed simp

lemma flush_all_term:
  assumes "all_term s" "lb_inv e s" "h < length (lb_heads s)" "ofs_ok s h" "2 \<le> maxiov"
  shows "all_term (snd (rb_linebuf_flush ssl maxiov retval h s))"
proof (cases "flush_vec ssl maxiov h s")
  case None
  then show ?thesis using assms(1) by (simp add: rb_linebuf_flush_def)
next
  case (Some vec)
  from flush_vec_Some [OF Some assms(4,5)] obtain l ls where l: "bh_list (head_of s h) = l # ls"
    and n: "length vec \<le> length (bh_list (head_of s h))" by (metis bufs_def length_map)
  let ?s1 = "upd_head h (\<lambda>d. d\<lparr>bh_writeofs := 0\<rparr>) s"
  have "lb_lines s l \<noteq> None" using lb_inv_line(1) [OF assms(2,3), of l] l by simp
  then have "all_term (rb_linebuf_done_line h l ?s1)"
    using all_term_done_line [of ?s1 l h] assms(1) by (simp add: all_term_def)
  moreover have "all_term (upd_head h f s)" for f using assms(1) by (simp add: all_term_def)
  ultimately show ?thesis
    using Some assms(1) flush_done_all_term [OF assms(1-3) n] l by (simp add: rb_linebuf_flush_def Let_def)
qed

text \<open>
  The runs of a set of send queues: formatted lines are put into a queue, the lines of one
  queue are attached to another (\<open>send.c\<close> formats once and attaches to each receiver), a queue
  is flushed and the write accepts part of what was offered, or fails, a queue is discarded
  and set up again. \<open>q h\<close> is what queue \<open>h\<close> was given since it was set up, \<open>w h\<close> what was
  written from it.
\<close>

definition empty_head :: buf_head where
  "empty_head = \<lparr>bh_list = [], bh_len = 0, bh_alloclen = 0, bh_writeofs = 0, bh_numlines = 0\<rparr>"

inductive sending :: "lbs \<Rightarrow> (hid \<Rightarrow> char list) \<Rightarrow> (hid \<Rightarrow> char list) \<Rightarrow> bool" where
  start: "sending \<lparr>lb_lines = Map.empty, lb_next = 0, lb_heads = replicate n empty_head, lb_count = 0\<rparr>
            (\<lambda>_. []) (\<lambda>_. [])"
| put: "sending s q w \<Longrightarrow> h < length (lb_heads s) \<Longrightarrow> rb_linebuf_putmsg h fmt prefix s = Inr s' \<Longrightarrow>
    finish_line (text_or_empty prefix @ text_or_empty fmt) = Inr b \<Longrightarrow> sending s' (q(h := q h @ b)) w"
| attach: "sending s q w \<Longrightarrow> h < length (lb_heads s) \<Longrightarrow> g < length (lb_heads s) \<Longrightarrow> g \<noteq> h \<Longrightarrow>
    sending (rb_linebuf_attach h g s) (q(h := q h @ concat (bufs s g))) w"
| flush: "sending s q w \<Longrightarrow> h < length (lb_heads s) \<Longrightarrow> 2 \<le> maxiov \<Longrightarrow>
    flush_vec ssl maxiov h s = Some vec \<Longrightarrow> retval \<le> int (length (concat vec)) \<Longrightarrow>
    sending (snd (rb_linebuf_flush ssl maxiov retval h s)) q (w(h := w h @ take (nat retval) (concat vec)))"
| reset: "sending s q w \<Longrightarrow> h < length (lb_heads s) \<Longrightarrow>
    sending (rb_linebuf_newbuf h (rb_linebuf_donebuf h s)) (q(h := [])) (w(h := []))"

definition send_inv :: "lbs \<Rightarrow> (hid \<Rightarrow> char list) \<Rightarrow> (hid \<Rightarrow> char list) \<Rightarrow> bool" where
  "send_inv s q w =
     (lb_inv True s \<and> all_term s \<and> (\<forall>h < length (lb_heads s). ofs_ok s h \<and> w h @ pending s h = q h))"

lemma pending_append:
  assumes "bufs s' h = bufs s h @ bs" "bh_writeofs (head_of s' h) = bh_writeofs (head_of s h)" "ofs_ok s h"
  shows "pending s' h = pending s h @ concat bs" "ofs_ok s' h"
proof -
  have "bh_writeofs (head_of s h) \<le> length (concat (bufs s h))"
    using assms(3) by (auto simp: ofs_ok_def split: list.splits)
  then show "pending s' h = pending s h @ concat bs" by (simp add: pending_def assms(1,2))
  show "ofs_ok s' h" using assms by (auto simp: ofs_ok_def split: list.splits)
qed

lemma same_queue:
  "bufs t i = bufs s i \<Longrightarrow> head_of t i = head_of s i \<Longrightarrow> ofs_ok t i = ofs_ok s i \<and> pending t i = pending s i"
  unfolding ofs_ok_def pending_def by (simp only:)

lemma send_inv_reset:
  assumes "send_inv s q w" "h < length (lb_heads s)"
  shows "send_inv (rb_linebuf_newbuf h (rb_linebuf_donebuf h s)) (q(h := [])) (w(h := []))"
proof -
  let ?s1 = "rb_linebuf_donebuf h s"
  let ?t = "rb_linebuf_newbuf h ?s1"
  have d: "lb_inv True ?s1" "length (lb_heads ?s1) = length (lb_heads s)" "bh_list (head_of ?s1 h) = []"
    "all_term ?s1" "\<And>i. i < length (lb_heads s) \<Longrightarrow> i \<noteq> h \<Longrightarrow> bufs ?s1 i = bufs s i \<and> head_of ?s1 i = head_of s i"
    using done_lines_spec [of True s h "bh_list (head_of s h)"] assms
    by (auto simp: send_inv_def rb_linebuf_donebuf_def)
  have h1: "h < length (lb_heads ?s1)" using d(2) assms(2) by simp
  have "head_ok True ?s1 (head_of ?s1 h)" using d(1) h1 by (simp add: lb_inv_def)
  then have "?t = upd_head h (\<lambda>d. d\<lparr>bh_writeofs := 0\<rparr>) ?s1"
    using d(3) by (cases "head_of ?s1 h") (simp add: rb_linebuf_newbuf_def upd_head_def head_ok_def lens_def)
  then have t: "lb_inv True ?t" "all_term ?t" "length (lb_heads ?t) = length (lb_heads s)"
    "\<And>i. bufs ?t i = bufs ?s1 i"
    "\<And>i. head_of ?t i = (if i = h then (head_of ?s1 h)\<lparr>bh_writeofs := 0\<rparr> else head_of ?s1 i)"
    using lb_inv_writeofs [OF d(1) h1] d(2,4) h1 head_upd_head [OF h1] by (simp_all add: all_term_def)
  have "bufs ?t h = []" using d(3) t(4) by (simp add: bufs_def)
  then have "ofs_ok ?t h \<and> pending ?t h = []" by (simp add: ofs_ok_def pending_def t(5))
  moreover have "ofs_ok ?t i \<and> w i @ pending ?t i = q i" if "i < length (lb_heads s)" "i \<noteq> h" for i
    using assms(1) t d(5) [OF that] that same_queue [of ?t i s] by (simp add: send_inv_def)
  ultimately have "ofs_ok ?t i \<and> (w(h := [])) i @ pending ?t i = (q(h := [])) i" if "i < length (lb_heads s)" for i
    using that by (cases "i = h") auto
  then show ?thesis using t by (simp add: send_inv_def)
qed

lemma sending_inv: "sending s q w \<Longrightarrow> send_inv s q w"
proof (induction rule: sending.induct)
  case (start n)
  then show ?case
    by (auto simp: send_inv_def lb_inv_def refs_def all_term_def head_of_def empty_head_def head_ok_def lens_def
        ofs_ok_def pending_def bufs_def sum_list_replicate)
next
  case (put s q w h fmt prefix s' b)
  have i: "lb_inv True s" "all_term s" "\<And>h. h < length (lb_heads s) \<Longrightarrow> ofs_ok s h \<and> w h @ pending s h = q h"
    using put.IH by (auto simp: send_inv_def)
  have p: "put_text h (text_or_empty prefix @ text_or_empty fmt) s = Inr s'" using put(3) by (simp add: rb_linebuf_putmsg_def)
  note pp = lb_inv_put_text [OF p i(1) put(2)]
  have "all_term s'" using pp(4) i(2) by (auto simp: all_term_def split: if_splits)
  moreover have "bufs s' i = bufs s i @ (if i = h then [b] else [])"
    "bh_writeofs (head_of s' i) = bh_writeofs (head_of s i)" if "i < length (lb_heads s)" for i
    using pp(3) put(4) that by auto
  ultimately show ?case
    using pp(1,2) i(3) pending_append [of s' _ s] by (auto simp: send_inv_def)
next
  case (attach s q w h g)
  have i: "lb_inv True s" "all_term s" "\<And>h. h < length (lb_heads s) \<Longrightarrow> ofs_ok s h \<and> w h @ pending s h = q h"
    using attach.IH by (auto simp: send_inv_def)
  have l: "\<forall>l \<in> set (bh_list (head_of s g)). lb_lines s l \<noteq> None \<and> bl_terminated (line_of s l)"
    using lb_inv_line(1) [OF i(1) attach(3)] i(2) by (auto simp: all_term_def)
  let ?t = "rb_linebuf_attach h g s"
  have a: "lb_inv True ?t" "length (lb_heads ?t) = length (lb_heads s)"
    "\<And>i. bufs ?t i = bufs s i @ (if i = h then bufs s g else [])"
    "\<And>i. bh_writeofs (head_of ?t i) = bh_writeofs (head_of s i)"
    "\<And>k. lb_lines ?t k = None \<longleftrightarrow> lb_lines s k = None" "\<And>k. bl_terminated (line_of ?t k) = bl_terminated (line_of s k)"
    using attach_lines_spec [OF i(1) attach(2) l] by (simp_all add: rb_linebuf_attach_def bufs_def)
  have "all_term ?t"
    using a(5,6) i(2) unfolding all_term_def line_of_def by (metis option.collapse option.distinct(1) option.sel)
  then show ?case using a(1-4) i(3) pending_append [of ?t _ s] by (auto simp: send_inv_def)
next
  case (flush s q w h maxiov ssl vec retval)
  have i: "lb_inv True s" "all_term s" "\<And>h. h < length (lb_heads s) \<Longrightarrow> ofs_ok s h \<and> w h @ pending s h = q h"
    using flush.IH by (auto simp: send_inv_def)
  let ?t = "snd (rb_linebuf_flush ssl maxiov retval h s)"
  have f: "lb_inv True ?t" "length (lb_heads ?t) = length (lb_heads s)" "ofs_ok ?t h"
    "pending s h = take (nat retval) (concat vec) @ pending ?t h"
    "\<And>i. i < length (lb_heads s) \<Longrightarrow> i \<noteq> h \<Longrightarrow> bufs ?t i = bufs s i \<and> head_of ?t i = head_of s i"
    using flush_spec [OF i(1) flush(2) _ flush(3,4,5)] i(3) [OF flush(2)] by (auto simp: Let_def)
  moreover have "all_term ?t" using flush_all_term [OF i(2,1) flush(2) _ flush(3)] i(3) [OF flush(2)] by blast
  moreover have "ofs_ok ?t i \<and> (w(h := w h @ take (nat retval) (concat vec))) i @ pending ?t i = q i"
    if k: "i < length (lb_heads s)" for i
  proof (cases "i = h")
    case True
    then show ?thesis using f(3,4) i(3) [OF flush(2)] by simp
  next
    case False
    then show ?thesis using f(5) [OF k] i(3) [OF k] same_queue [of ?t i s] by simp
  qed
  ultimately show ?case by (simp add: send_inv_def)
next
  case (reset s q w h)
  then show ?case using send_inv_reset by blast
qed

section \<open>Properties\<close>

text \<open>
  C19. Send queues lose, repeat and reorder nothing, and keep their books: in every run of
  putting, attaching, flushing with any results of the writes and discarding, what was written
  from a queue followed by what it still holds is exactly what was put into it; its \<open>len\<close> is the
  number of its bytes, \<open>numlines\<close> and \<open>alloclen\<close> the number of its lines; each line is counted
  once per place it is queued in, no line is freed while queued, and none is left allocated
  when all queues are empty.
\<close>

theorem linebuf_send:
  assumes "sending s q w" "h < length (lb_heads s)"
  shows "w h @ pending s h = q h \<and> bh_len (head_of s h) = int (length (concat (bufs s h))) \<and>
    bh_numlines (head_of s h) = int (length (bh_list (head_of s h))) \<and>
    bh_alloclen (head_of s h) = int (length (bh_list (head_of s h))) \<and>
    (\<forall>l \<in> set (bh_list (head_of s h)). \<exists>b. lb_lines s l = Some b \<and> bl_refcount b = refs s l) \<and>
    ((\<forall>i < length (lb_heads s). bh_list (head_of s i) = []) \<longrightarrow> lb_count s = 0)"
proof -
  have inv: "send_inv s q w" using sending_inv [OF assms(1)] .
  then have i: "lb_inv True s" "head_ok True s (head_of s h)" using assms(2) by (auto simp: send_inv_def lb_inv_def)
  have "lens s (head_of s h) = length (concat (bufs s h))" by (simp add: lens_def bufs_def length_concat o_def)
  moreover have "lb_count s = 0" if e: "\<forall>i < length (lb_heads s). bh_list (head_of s i) = []"
  proof -
    have "refs s l = 0" for l
      using e by (auto simp: refs_def head_of_def sum_list_eq_0_iff in_set_conv_nth)
    then have "lb_lines s l = None" for l using i(1) unfolding lb_inv_def by (metis not_None_eq less_irrefl)
    then show ?thesis using i(1) by (simp add: lb_inv_def dom_def)
  qed
  ultimately show ?thesis
    using inv assms(2) i lb_inv_line(1,2) [OF i(1) assms(2)] by (auto simp: send_inv_def head_ok_def)
qed

lemma two_queues_put:
  "\<exists>s. sending s ((\<lambda>_. [])(0 := ''PING'' @ [CR, LF])) (\<lambda>_. []) \<and> length (lb_heads s) = 2 \<and>
     bufs s 0 = [''PING'' @ [CR, LF]] \<and> bufs s 1 = []"
proof -
  let ?s = "\<lparr>lb_lines = Map.empty, lb_next = 0, lb_heads = replicate 2 empty_head, lb_count = 0\<rparr>"
  let ?b = "''PING'' @ [CR, LF]"
  have r: "sending ?s (\<lambda>_. []) (\<lambda>_. [])" by (rule sending.start)
  have f: "finish_line ''PING'' = Inr ?b" by code_simp
  obtain s' where s': "rb_linebuf_putmsg 0 (Some ''PING'') None ?s = Inr s'"
    by (simp add: rb_linebuf_putmsg_def put_text_push text_or_empty_def f)
  have p: "put_text 0 ''PING'' ?s = Inr s'" using s' by (simp add: rb_linebuf_putmsg_def text_or_empty_def)
  have "sending s' ((\<lambda>_. [])(0 := [] @ ?b)) (\<lambda>_. [])"
    by (rule sending.put [OF r _ s']) (simp_all add: f text_or_empty_def)
  moreover have "lb_inv True ?s" using sending_inv [OF r] by (simp add: send_inv_def)
  moreover have "bufs ?s 0 = []" "bufs ?s 1 = []" by (simp_all add: bufs_def head_of_def empty_head_def)
  ultimately show ?thesis using lb_inv_put_text [OF p] f by auto
qed

theorem linebuf_send_witness:
  "\<exists>s q w. sending s q w \<and> 1 < length (lb_heads s) \<and> bh_len (head_of s 1) = 6 \<and>
     w 1 @ pending s 1 = ''PING'' @ [CR, LF]"
proof -
  obtain s where s: "sending s ((\<lambda>_. [])(0 := ''PING'' @ [CR, LF])) (\<lambda>_. [])" "length (lb_heads s) = 2"
    "bufs s 0 = [''PING'' @ [CR, LF]]" "bufs s 1 = []" using two_queues_put by blast
  let ?t = "rb_linebuf_attach 1 0 s" and ?q = "(\<lambda>_. [])(0 := ''PING'' @ [CR, LF], 1 := ''PING'' @ [CR, LF])"
  have t: "sending ?t ?q (\<lambda>_. [])"
    using sending.attach [OF s(1), of 1 0] s(2,3) by (simp add: fun_upd_twist)
  have inv: "lb_inv True s" "all_term s" using sending_inv [OF s(1)] by (simp_all add: send_inv_def)
  have "\<forall>l \<in> set (bh_list (head_of s 0)). lb_lines s l \<noteq> None \<and> bl_terminated (line_of s l)"
    using lb_inv_line(1) [OF inv(1), of 0] inv(2) s(2) by (auto simp: all_term_def)
  from attach_lines_spec [OF inv(1) _ this, of 1] have len: "length (lb_heads ?t) = 2" and
    b: "bufs ?t 1 = bufs s 1 @ bufs s 0"
    using s(2) by (simp_all add: rb_linebuf_attach_def bufs_def)
  have "length (concat (bufs ?t 1)) = 6" using b s(3,4) by simp
  then show ?thesis using linebuf_send [OF t, of 1] t len by (intro exI [of _ ?t] exI [of _ ?q] exI [of _ "\<lambda>_. []"]) simp
qed

text \<open>
  More than 510 line ends in one read, where a new line starts, make
  \<open>rb_linebuf_copy_line\<close> scan past the start of the buffer (and overwrite bytes there that
  happen to be CR or LF); formatting a message that is nothing but line ends does the same.
\<close>

theorem linebuf_scans_before_buffer:
  assumes "510 < n"
  shows "rb_linebuf_copy_line fresh_buf_line (replicate n LF) = Inl BeforeBuffer \<and>
    finish_line (replicate (Suc (n mod 510)) LF) = Inl BeforeBuffer"
proof -
  have e: "is_eol LF" by (simp add: is_eol_def)
  have suf: "eol_suffix (replicate k LF) = k" for k by (simp add: eol_suffix_def e)
  have "takeWhile (\<lambda>c. \<not> is_eol c) (replicate k LF) = []" "dropWhile (\<lambda>c. \<not> is_eol c) (replicate k LF) = replicate k LF" for k
    by (cases k; simp add: e)+
  then have sk: "rb_linebuf_skip_crlf (replicate n LF) = n" by (simp add: rb_linebuf_skip_crlf_def e)
  have "take 510 (replicate n LF) = replicate 510 LF" using assms by (simp add: min_def)
  then have "rb_linebuf_copy_line fresh_buf_line (replicate n LF) = Inl BeforeBuffer"
    using assms suf [of 510] by (simp add: rb_linebuf_copy_line_def fresh_buf_line_def sk BUF_DATA_SIZE_def Let_def)
  moreover have "Suc (n mod 510) \<le> 510" by (simp add: Suc_le_eq)
  ultimately show ?thesis using suf [of "Suc (n mod 510)"] by (simp add: finish_line_def Let_def del: replicate_Suc)
qed

theorem linebuf_scans_before_buffer_witness:
  "rb_linebuf_copy_line fresh_buf_line (replicate 511 LF) = Inl BeforeBuffer"
  using linebuf_scans_before_buffer [of 511] by simp

text \<open>
  An overlong line: the line keeps 510 bytes and the whole text up to its line ends is
  consumed, but the queue's \<open>len\<close> grows by 510 even when part of the line was counted before, so
  that \<open>len\<close> ends up larger than the number of bytes queued by the length of that part.
\<close>

theorem linebuf_overlong_drift:
  assumes "\<not> bl_terminated l" "length (bl_buf l) \<le> 510" "510 - length (bl_buf l) < rb_linebuf_skip_crlf data"
    and "rb_linebuf_copy_line l data = Inr (clen, b, grow)"
  shows "length (bl_buf b) = 510 \<and> clen = rb_linebuf_skip_crlf data \<and>
    length (bl_buf l) + grow = length (bl_buf b) + length (bl_buf l)"
proof -
  let ?d = "bl_buf l @ take (510 - length (bl_buf l)) data"
  have d: "length ?d = 510" using assms(2,3) skip_crlf_le [of data] by simp
  have e: "eol_suffix ?d \<le> 510" using eol_suffix_le [of ?d] d by simp
  let ?k = "min (eol_suffix ?d) (rb_linebuf_skip_crlf data)"
  have k: "length (take (510 - ?k) ?d @ replicate ?k NUL) = 510" using d e by (simp del: take_append)
  have "clen = rb_linebuf_skip_crlf data \<and> grow = 510 \<and> bl_buf b = take (510 - ?k) ?d @ replicate ?k NUL"
    using assms by (auto simp: rb_linebuf_copy_line_def Let_def BUF_DATA_SIZE_def simp del: take_append split: if_splits)
  then show ?thesis using k by (simp del: take_append length_append)
qed

theorem linebuf_overlong_drift_witness:
  "\<exists>b grow. rb_linebuf_copy_line (fresh_buf_line\<lparr>bl_buf := replicate 300 CHR ''a''\<rparr>) (replicate 300 CHR ''b'' @ [LF]) =
     Inr (301, b, grow) \<and> length (bl_buf b) = 510 \<and> 300 + grow = 810"
proof -
  let ?l = "fresh_buf_line\<lparr>bl_buf := replicate 300 CHR ''a''\<rparr>" and ?d = "replicate 300 CHR ''b'' @ [LF]"
  have n: "rb_linebuf_skip_crlf ?d = 301" by code_simp
  have "eol_suffix (bl_buf ?l @ take 210 ?d) = 0"
    by (simp add: eol_suffix_def is_eol_def takeWhile_eq_Nil_iff hd_replicate)
  then obtain b grow where b: "rb_linebuf_copy_line ?l ?d = Inr (301, b, grow)"
    by (simp add: rb_linebuf_copy_line_def fresh_buf_line_def n BUF_DATA_SIZE_def Let_def del: take_append)
  show ?thesis
    using linebuf_overlong_drift [OF _ _ _ b] n b by (simp add: fresh_buf_line_def)
qed

end
