(* ===== verification/LineStream.thy ===== *)
theory LineStream
  imports LinebufProps
begin

text \<open>
  The lines that \<open>rb_linebuf_parse\<close> cuts from what is received. The specification reads the
  stream byte by byte: it collects bytes until a CR or LF, and a non-empty collection is a
  line. The code works on reads of any size, appends to a partial line, and drops the bytes
  of overlong lines; as long as lines and runs of line ends are short enough for its buffer,
  it has the same lines whatever the reads are.
\<close>

section \<open>The specification\<close>

fun eat :: "char \<Rightarrow> cstring list \<times> cstring \<Rightarrow> cstring list \<times> cstring" where
  "eat c (lines, part) =
     (if is_eol c then (if part = [] then (lines, []) else (lines @ [part], [])) else (lines, part @ [c]))"

definition feed :: "char list \<Rightarrow> cstring list \<times> cstring \<Rightarrow> cstring list \<times> cstring" where
  "feed data st = fold eat data st"

text \<open>
  \<open>fits n r data\<close>: after \<open>n\<close> bytes of a line, or \<open>r\<close> bytes of a run of CR and LF, the lines and
  runs in \<open>data\<close> stay within 510 bytes, and there is no NUL.
\<close>

fun fits :: "nat \<Rightarrow> nat \<Rightarrow> char list \<Rightarrow> bool" where
  "fits n r [] = True"
| "fits n r (c # cs) =
     (c \<noteq> NUL \<and> (if is_eol c then r < 510 \<and> fits 0 (Suc r) cs else n < 510 \<and> fits (Suc n) 0 cs))"

text \<open>The lines of a queue as the reader sees them: C strings, empty ones left out.\<close>

definition cstr :: "char list \<Rightarrow> cstring" where
  "cstr b = takeWhile (\<lambda>c. c \<noteq> NUL) b"

definition lines_of :: "lbs \<Rightarrow> hid \<Rightarrow> buf_line list" where
  "lines_of s h = map (line_of s) (bh_list (head_of s h))"

definition part_of :: "buf_line list \<Rightarrow> cstring" where
  "part_of ls = (if ls \<noteq> [] \<and> \<not> bl_terminated (last ls) then bl_buf (last ls) else [])"

definition view :: "buf_line list \<Rightarrow> cstring list \<times> cstring" where
  "view ls = (filter (\<lambda>l. l \<noteq> []) (map (\<lambda>b. cstr (bl_buf b)) (filter bl_terminated ls)), part_of ls)"

definition plain :: "char \<Rightarrow> bool" where
  "plain c = (\<not> is_eol c \<and> c \<noteq> NUL)"

definition recv_ok :: "buf_line list \<Rightarrow> bool" where
  "recv_ok ls = (list_all bl_terminated (butlast ls) \<and> list_all plain (part_of ls) \<and> length (part_of ls) \<le> 510)"

section \<open>The specification on runs\<close>

lemma eat_eol [simp]: "is_eol c \<Longrightarrow> eat c (ls, []) = (ls, [])"
  by simp

lemma feed_body: "list_all (\<lambda>c. \<not> is_eol c) b \<Longrightarrow> feed b (ls, p) = (ls, p @ b)"
  by (induction b arbitrary: p) (simp_all add: feed_def)

lemma feed_eols: "list_all is_eol e \<Longrightarrow> feed e (ls, []) = (ls, [])"
  by (induction e) (simp_all add: feed_def)

lemma feed_append: "feed (a @ b) st = feed b (feed a st)"
  by (simp add: feed_def)

lemma feed_line:
  assumes "list_all (\<lambda>c. \<not> is_eol c) b" "list_all is_eol e"
  shows "feed (b @ e) (ls, p) =
    (if e = [] then (ls, p @ b) else if p @ b = [] then (ls, []) else (ls @ [p @ b], []))"
proof (cases e)
  case Nil
  then show ?thesis using feed_body [OF assms(1)] by (simp add: feed_append)
next
  case (Cons c cs)
  then have "feed e st = feed cs (eat c st)" for st by (simp add: feed_def)
  then show ?thesis using assms Cons feed_body [OF assms(1), of ls p] feed_eols [of cs] by (simp add: feed_append)
qed

lemma fits_mono: "fits n r data \<Longrightarrow> r' \<le> r \<Longrightarrow> fits n r' data"
  by (induction n r data arbitrary: r' rule: fits.induct) (auto split: if_splits)

lemma fits_body:
  "fits n r (b @ d) \<Longrightarrow> list_all (\<lambda>c. \<not> is_eol c) b \<Longrightarrow> n \<le> 510 \<Longrightarrow>
   n + length b \<le> 510 \<and> list_all plain b \<and> fits (n + length b) (if b = [] then r else 0) d"
  by (induction b arbitrary: n r) (fastforce simp: plain_def)+

lemma fits_eols:
  "fits n r (e @ d) \<Longrightarrow> list_all is_eol e \<Longrightarrow> e \<noteq> [] \<Longrightarrow> r + length e \<le> 510 \<and> fits 0 0 d"
proof (induction e arbitrary: n r)
  case (Cons c e)
  then have "fits 0 (Suc r) (e @ d)" "r < 510" by (simp_all split: if_splits)
  then show ?case using Cons.IH [of 0 "Suc r"] Cons.prems(2) by (cases "e = []") (auto intro: fits_mono)
qed simp

lemma eol_suffix_runs:
  assumes "list_all (\<lambda>c. \<not> is_eol c) b" "list_all is_eol e"
  shows "eol_suffix (b @ e) = length e"
proof -
  have e: "takeWhile is_eol (rev e @ x) = rev e @ takeWhile is_eol x" for x
    using assms(2) by (intro takeWhile_append2) (simp add: list_all_iff)
  have "takeWhile is_eol (rev b) = []"
    using assms(1) by (cases b rule: rev_cases) auto
  then show ?thesis by (simp add: eol_suffix_def e)
qed

lemma cstr_plain: "list_all plain b \<Longrightarrow> cstr (b @ replicate k NUL) = b"
  by (induction b) (auto simp: cstr_def plain_def)

section \<open>One copy\<close>

definition body :: "char list \<Rightarrow> char list" where "body data = takeWhile (\<lambda>c. \<not> is_eol c) data"
definition eols :: "char list \<Rightarrow> char list" where
  "eols data = takeWhile is_eol (dropWhile (\<lambda>c. \<not> is_eol c) data)"

lemma split_data:
  "data = body data @ eols data @ drop (rb_linebuf_skip_crlf data) data"
  "rb_linebuf_skip_crlf data = length (body data) + length (eols data)"
  "list_all (\<lambda>c. \<not> is_eol c) (body data)" "list_all is_eol (eols data)"
  "eols data = [] \<Longrightarrow> drop (rb_linebuf_skip_crlf data) data = []"
proof -
  let ?d = "dropWhile (\<lambda>c. \<not> is_eol c) data"
  show n: "rb_linebuf_skip_crlf data = length (body data) + length (eols data)"
    by (simp add: rb_linebuf_skip_crlf_def body_def eols_def)
  have "data = body data @ eols data @ dropWhile is_eol ?d" by (simp add: body_def eols_def)
  then show "data = body data @ eols data @ drop (rb_linebuf_skip_crlf data) data"
    unfolding n by (metis append.assoc append_eq_conv_conj length_append)
  show "list_all (\<lambda>c. \<not> is_eol c) (body data)" "list_all is_eol (eols data)"
    by (auto simp: body_def eols_def list_all_iff dest: set_takeWhileD)
  have "eols data = [] \<Longrightarrow> ?d = []"
    by (metis eols_def hd_dropWhile takeWhile_eq_Nil_iff)
  then show "drop (rb_linebuf_skip_crlf data) data = []" if "eols data = []"
    using that \<open>data = body data @ eols data @ dropWhile is_eol ?d\<close> unfolding n
    by (metis append_Nil2 append_eq_conv_conj dropWhile.simps(1) list.size(3) add.right_neutral)
qed

lemma copy_line_spec:
  assumes nt: "\<not> bl_terminated l" and old: "list_all plain (bl_buf l)" "length (bl_buf l) \<le> 510"
    and f: "fits (length (bl_buf l)) r data" and d: "data \<noteq> []"
  shows "\<exists>b grow. rb_linebuf_copy_line l data = Inr (rb_linebuf_skip_crlf data, b, grow) \<and>
    bl_terminated b = (eols data \<noteq> []) \<and>
    (if eols data = [] then bl_buf b = bl_buf l @ body data else cstr (bl_buf b) = bl_buf l @ body data) \<and>
    list_all plain (bl_buf l @ body data) \<and> length (bl_buf l @ body data) \<le> 510 \<and>
    fits 0 0 (drop (rb_linebuf_skip_crlf data) data)"
proof -
  let ?o = "bl_buf l" and ?b = "body data" and ?e = "eols data" and ?n = "rb_linebuf_skip_crlf data"
  note sp = split_data [of data]
  have fb: "length ?o + length ?b \<le> 510" "list_all plain ?b"
      "fits (length ?o + length ?b) (if ?b = [] then r else 0) (?e @ drop ?n data)"
    using fits_body [of "length ?o" r ?b "?e @ drop ?n data"] f old(2) sp(1,3) by auto
  have fe: "length ?e \<le> 510" "?e \<noteq> [] \<Longrightarrow> fits 0 0 (drop ?n data)"
    using fits_eols [OF fb(3) sp(4)] by (cases "?e = []"; auto)+
  have rest: "fits 0 0 (drop ?n data)" using fe(2) sp(5) by (cases "?e = []") auto
  have plain: "list_all plain (?o @ ?b)" using old(1) fb(2) by simp
  have noeol: "list_all (\<lambda>c. \<not> is_eol c) (?o @ ?b)"
    using plain by (auto simp: list_all_iff plain_def)
  have take: "take k data = take k (?b @ ?e)" if "k \<le> ?n" for k
    using that sp(1,2) by (metis append.assoc length_append take_append diff_is_0_eq take_0 append_Nil2)
  show ?thesis
  proof (cases "?n > 510 - length ?o")
    case True
    let ?k = "510 - (length ?o + length ?b)"
    have k: "?k \<le> length ?e" using True sp(2) by simp
    have b: "?o @ take (510 - length ?o) data = (?o @ ?b) @ take ?k ?e"
      using True take [of "510 - length ?o"] fb(1) by simp
    have suf: "eol_suffix ((?o @ ?b) @ take ?k ?e) = ?k"
    proof -
      have "list_all is_eol (take ?k ?e)" using sp(4) by (auto simp: list_all_iff dest: in_set_takeD)
      from eol_suffix_runs [OF noeol this] show ?thesis using k by (simp del: append_assoc)
    qed
    have ok: "\<not> (?k = 510 \<and> ?k < ?n)" using fe(1) sp(2) by auto
    have t: "take (510 - ?k) ((?o @ ?b) @ take ?k ?e) = ?o @ ?b" using fb(1) by simp
    have mk: "min ?k ?n = ?k" using k sp(2) by simp
    have "rb_linebuf_copy_line l data = Inr (?n,
        l\<lparr>bl_raw := False, bl_buf := (?o @ ?b) @ replicate ?k NUL, bl_terminated := True\<rparr>, 510)"
      using nt True ok unfolding rb_linebuf_copy_line_def
      by (simp add: Let_def BUF_DATA_SIZE_def b suf mk t del: take_append append_assoc)
    moreover have "?e \<noteq> []" using True sp(2) fb(1) by auto
    ultimately show ?thesis using plain fb(1) rest cstr_plain [OF plain, of ?k] by auto
  next
    case False
    have b: "?o @ take ?n data = (?o @ ?b) @ ?e" using take [of ?n] sp(2) by simp
    have suf: "eol_suffix ((?o @ ?b) @ ?e) = length ?e" using eol_suffix_runs [OF noeol sp(4)] .
    have mk: "min (length ?e) ?n = length ?e" using sp(2) by simp
    have t: "take (length ((?o @ ?b) @ ?e) - length ?e) ((?o @ ?b) @ ?e) = ?o @ ?b" by simp
    have "rb_linebuf_copy_line l data = Inr (?n, l\<lparr>bl_raw := False, bl_buf := ?o @ ?b, bl_terminated := (?e \<noteq> [])\<rparr>,
        ?n - length ?e)"
      using nt False mk t unfolding rb_linebuf_copy_line_def
      by (simp add: Let_def BUF_DATA_SIZE_def b suf del: take_append append_assoc)
    then show ?thesis using plain fb(1) rest cstr_plain [OF plain, of 0] by auto
  qed
qed

section \<open>A read\<close>

lemma view_snoc:
  assumes "part_of ls = []" "recv_ok ls" "list_all bl_terminated ls"
    and "list_all plain p" "length p \<le> 510"
    and "if bl_terminated b then cstr (bl_buf b) = p else bl_buf b = p"
  shows "recv_ok (ls @ [b])"
    "view (ls @ [b]) = (if bl_terminated b then (if p = [] then (fst (view ls), []) else (fst (view ls) @ [p], []))
       else (fst (view ls), p))"
  using assms by (auto simp: recv_ok_def part_of_def view_def butlast_append list_all_iff)

lemma lines_of_push:
  assumes inv: "lb_inv e s" and h: "h < length (lb_heads s)"
  shows "lines_of (push_line h b g s) h = lines_of s h @ [b]"
proof -
  let ?s1 = "s\<lparr>lb_next := lb_next s + 1, lb_count := lb_count s + 1, lb_lines := (lb_lines s)(lb_next s \<mapsto> b)\<rparr>"
  have h1: "h < length (lb_heads ?s1)" "head_of ?s1 = head_of s" using h by (simp_all add: head_of_def fun_eq_iff)
  have "refs s (lb_next s) = 0" using inv by (auto simp: lb_inv_def)
  then have "lb_next s \<notin> set (bh_list (head_of s h))" using refs_pos [OF h] by force
  then have "map (line_of ?s1) (bh_list (head_of s h)) = lines_of s h"
    unfolding lines_of_def by (intro map_cong) (auto simp: line_of_def)
  moreover have "line_of ?s1 (lb_next s) = b" by (simp add: line_of_def)
  ultimately show ?thesis
    using head_upd_head [OF h1(1)] h1(2) by (simp add: push_line_def lines_of_def)
qed

lemma all_term_part: "list_all bl_terminated ls \<Longrightarrow> part_of ls = [] \<and> recv_ok ls"
  by (cases ls rule: rev_cases) (auto simp: part_of_def recv_ok_def)

lemma feed_split:
  "feed data (ls, p) = feed (drop (rb_linebuf_skip_crlf data) data)
     (if eols data = [] then (ls, p @ body data)
      else if p @ body data = [] then (ls, []) else (ls @ [p @ body data], []))"
proof -
  have "feed data (ls, p) = feed ((body data @ eols data) @ drop (rb_linebuf_skip_crlf data) data) (ls, p)"
    using split_data(1) [of data] by simp
  then show ?thesis
    by (simp only: feed_append [of "body data @ eols data"] feed_line [OF split_data(3,4)])
qed

lemma parse_loop_spec:
  assumes "list_all bl_terminated (lines_of s h)" "fits 0 0 data" "lb_inv False s" "h < length (lb_heads s)"
  shows "\<exists>m s'. parse_loop False h data n s = Inr (m, s') \<and> recv_ok (lines_of s' h) \<and>
    view (lines_of s' h) = feed data (view (lines_of s h)) \<and> lb_inv False s' \<and> h < length (lb_heads s')"
  using assms
proof (induction "length data" arbitrary: data n s rule: less_induct)
  case less
  note term_part = all_term_part [OF less.prems(1)]
  show ?case
  proof (cases "data = []")
    case True
    then show ?thesis using less.prems term_part by (simp add: parse_loop.simps feed_def)
  next
    case False
    let ?l = fresh_buf_line and ?n = "rb_linebuf_skip_crlf data"
    obtain b grow where b: "rb_linebuf_copy_line ?l data = Inr (?n, b, grow)" "bl_terminated b = (eols data \<noteq> [])"
      "if eols data = [] then bl_buf b = body data else cstr (bl_buf b) = body data"
      "list_all plain (body data)" "length (body data) \<le> 510" "fits 0 0 (drop ?n data)"
      using copy_line_spec [of ?l 0 data] less.prems(2) False fresh_ok by auto
    let ?s1 = "push_line h b grow s"
    have cd: "copy_data False ?l data = Inr (?n, b, grow)" using b(1) by (simp add: copy_data_def)
    have inv1: "lb_inv False ?s1" "h < length (lb_heads ?s1)"
      using copy_data_ok [OF cd fresh_ok(1)] fresh_ok less.prems(4)
      by (auto intro!: lb_inv_push [OF less.prems(3,4)])
    have step: "parse_loop False h data n s = parse_loop False h (drop ?n data) (n + 1) ?s1"
      using False by (subst parse_loop.simps) (simp add: copy_into_new [OF less.prems(4)] cd)
    have lines1: "lines_of ?s1 h = lines_of s h @ [b]" by (rule lines_of_push [OF less.prems(3,4)])
    have v1: "recv_ok (lines_of ?s1 h)"
      "view (lines_of ?s1 h) = (if eols data = [] then (fst (view (lines_of s h)), body data)
         else if body data = [] then (fst (view (lines_of s h)), []) else (fst (view (lines_of s h)) @ [body data], []))"
      using view_snoc [OF _ _ less.prems(1) b(4,5), of b] b(2,3) term_part by (simp_all add: lines1)
    have v0: "view (lines_of s h) = (fst (view (lines_of s h)), [])" using term_part by (simp add: view_def)
    have fd: "feed data (view (lines_of s h)) = feed (drop ?n data) (view (lines_of ?s1 h))"
      using v1(2) feed_split [of data "fst (view (lines_of s h))" "[]"] v0 by simp
    show ?thesis
    proof (cases "eols data = []")
      case True
      then have "drop ?n data = []" by (rule split_data(5))
      then show ?thesis using step v1(1) fd inv1 by (simp add: parse_loop.simps feed_def)
    next
      case e: False
      have "length (drop ?n data) < length data" using skip_crlf_pos [OF False] False by simp
      moreover have "list_all bl_terminated (lines_of ?s1 h)" using less.prems(1) b(2) e by (simp add: lines1)
      ultimately show ?thesis
        using less.hyps [of "drop ?n data" ?s1 "n + 1"] b(6) inv1 step fd by auto
    qed
  qed
qed

lemma lines_of_copy_last:
  assumes inv: "lb_inv e s" and h: "h < length (lb_heads s)" "bh_list (head_of s h) = ls @ [l]"
    and nt: "\<not> bl_terminated (line_of s l)"
  shows "lines_of (upd_head h (\<lambda>d. d\<lparr>bh_len := bh_len d + g\<rparr>) (put_line l (Some b) s)) h = butlast (lines_of s h) @ [b]"
proof -
  have "l \<in> set (bh_list (head_of s h))" using h(2) by simp
  from lb_inv_line [OF inv h(1) this] have "refs s l = 1" using nt by (simp add: line_ok_def)
  then have "l \<notin> set ls" using count_le_refs [OF h(1), of l] h(2) by (simp add: count_list_0_iff)
  then have "map (line_of (put_line l (Some b) s)) ls = map (line_of s) ls"
    by (intro map_cong) (auto simp: line_put_line)
  then show ?thesis
    using h head_upd_head [of h "put_line l (Some b) s"] by (simp add: lines_of_def line_put_line)
qed

lemma view_cong:
  assumes "map bl_buf ls = map bl_buf ms" "map bl_terminated ls = map bl_terminated ms"
  shows "view ls = view ms" "recv_ok ls = recv_ok ms" "list_all bl_terminated ls = list_all bl_terminated ms"
proof -
  have len: "length ls = length ms" using assms(1) by (metis length_map)
  have last: "ls \<noteq> [] \<Longrightarrow> bl_buf (last ls) = bl_buf (last ms) \<and> bl_terminated (last ls) = bl_terminated (last ms)"
    using assms len by (metis last_map length_0_conv)
  then have part: "part_of ls = part_of ms" using len by (cases "ls = []") (auto simp: part_of_def)
  have term_list: "list_all bl_terminated xs = list_all (\<lambda>b. b) (map bl_terminated xs)" for xs
    by (simp add: list_all_iff)
  have "map bl_buf (filter bl_terminated ls) = map bl_buf (filter bl_terminated ms)"
    using len assms
    by (induction ls ms rule: list_induct2) auto
  then have "map (\<lambda>b. cstr (bl_buf b)) (filter bl_terminated ls) = map (\<lambda>b. cstr (bl_buf b)) (filter bl_terminated ms)"
    by (metis (no_types, lifting) list.map_comp map_eq_conv comp_apply)
  then show "view ls = view ms" using part by (simp add: view_def)
  show t: "list_all bl_terminated ls = list_all bl_terminated ms" by (simp add: term_list assms(2))
  show "recv_ok ls = recv_ok ms"
    using part assms(2) by (simp add: recv_ok_def term_list [of "butlast ls"] term_list [of "butlast ms"] map_butlast)
qed

lemma parse_spec:
  assumes inv: "lb_inv False s" and h: "h < length (lb_heads s)" and ok: "recv_ok (lines_of s h)"
    and f: "fits (length (part_of (lines_of s h))) 0 data" and d: "data \<noteq> []"
  shows "\<exists>m s'. rb_linebuf_parse False h data s = Inr (m, s') \<and> recv_ok (lines_of s' h) \<and>
    view (lines_of s' h) = feed data (view (lines_of s h)) \<and> lb_inv False s' \<and> h < length (lb_heads s')"
proof (cases "bh_list (head_of s h) = []")
  case True
  then have "lines_of s h = []" by (simp add: lines_of_def)
  then show ?thesis
    using parse_loop_spec [of s h data 0] True f inv h by (simp add: rb_linebuf_parse_def part_of_def)
next
  case False
  then obtain ls l where l: "bh_list (head_of s h) = ls @ [l]" by (metis rev_exhaust)
  let ?b = "line_of s l" and ?n = "rb_linebuf_skip_crlf data"
  have lines: "lines_of s h = map (line_of s) ls @ [?b]" by (simp add: lines_of_def l)
  show ?thesis
  proof (cases "bl_terminated ?b")
    case True
    let ?s1 = "upd_head h (\<lambda>d. d\<lparr>bh_len := bh_len d + int 0\<rparr>) (put_line l (Some (?b\<lparr>bl_raw := False\<rparr>)) s)"
    have c: "copy_into False h l data s = Inr (data, ?s1)"
      using True by (simp add: copy_into_def copy_data_def rb_linebuf_copy_line_def)
    have at: "list_all bl_terminated (lines_of s h)" "part_of (lines_of s h) = []"
      using ok True by (simp_all add: lines recv_ok_def part_of_def)
    have "head_of ?s1 h = head_of s h" using head_upd_head [of h "put_line l (Some (?b\<lparr>bl_raw := False\<rparr>)) s"] h by simp
    then have "map bl_buf (lines_of ?s1 h) = map bl_buf (lines_of s h)"
      "map bl_terminated (lines_of ?s1 h) = map bl_terminated (lines_of s h)"
      by (auto simp: lines_of_def line_put_line)
    note v = view_cong [OF this]
    have "lb_inv False ?s1" "length (lb_heads ?s1) = length (lb_heads s)"
      using copy_into_last [OF inv h False, of False data data ?s1] c l by simp_all
    then show ?thesis
      using parse_loop_spec [of ?s1 h data 1] v at f h c False l by (simp add: rb_linebuf_parse_def)
  next
    case nt: False
    have part: "part_of (lines_of s h) = bl_buf ?b" using nt by (simp add: lines part_of_def)
    obtain b grow where b: "rb_linebuf_copy_line ?b data = Inr (?n, b, grow)" "bl_terminated b = (eols data \<noteq> [])"
      "if eols data = [] then bl_buf b = bl_buf ?b @ body data else cstr (bl_buf b) = bl_buf ?b @ body data"
      "list_all plain (bl_buf ?b @ body data)" "length (bl_buf ?b @ body data) \<le> 510" "fits 0 0 (drop ?n data)"
      using copy_line_spec [OF nt _ _ _ d, of 0] ok f by (auto simp: recv_ok_def part)
    let ?s1 = "upd_head h (\<lambda>d. d\<lparr>bh_len := bh_len d + int grow\<rparr>) (put_line l (Some b) s)"
    have c: "copy_into False h l data s = Inr (drop ?n data, ?s1)"
      using b(1) by (simp add: copy_into_def copy_data_def)
    have bl: "butlast (lines_of s h) = map (line_of s) ls" by (simp add: lines)
    have lines1: "lines_of ?s1 h = map (line_of s) ls @ [b]"
      using lines_of_copy_last [OF inv h l nt] bl by simp
    have at: "list_all bl_terminated (map (line_of s) ls)" using ok lines by (simp add: recv_ok_def)
    have v0: "view (lines_of s h) = (fst (view (map (line_of s) ls)), bl_buf ?b)"
      using nt part by (simp add: view_def lines)
    have v1: "recv_ok (lines_of ?s1 h)"
      "view (lines_of ?s1 h) = (if bl_terminated b then
          (if bl_buf ?b @ body data = [] then (fst (view (map (line_of s) ls)), [])
           else (fst (view (map (line_of s) ls)) @ [bl_buf ?b @ body data], []))
        else (fst (view (map (line_of s) ls)), bl_buf ?b @ body data))"
      using view_snoc [OF _ _ at b(4,5), of b] b(2,3) all_term_part [OF at] by (simp_all add: lines1)
    have fd: "feed data (view (lines_of s h)) = feed (drop ?n data) (view (lines_of ?s1 h))"
      unfolding v0 feed_split [of data] v1(2) b(2) by simp
    have inv1: "lb_inv False ?s1" "h < length (lb_heads ?s1)"
      using copy_into_last [OF inv h False, of False data "drop ?n data" ?s1] c l h by simp_all
    have p: "rb_linebuf_parse False h data s = parse_loop False h (drop ?n data) 1 ?s1"
      using c l by (simp add: rb_linebuf_parse_def)
    show ?thesis
    proof (cases "eols data = []")
      case True
      then have "drop ?n data = []" by (rule split_data(5))
      then show ?thesis using p v1(1) fd inv1 by (simp add: parse_loop.simps feed_def)
    next
      case False
      then have "list_all bl_terminated (lines_of ?s1 h)" using at b(2) by (simp add: lines1)
      then show ?thesis using parse_loop_spec [of ?s1 h "drop ?n data" 1] b(6) inv1 p fd by simp
    qed
  qed
qed

section \<open>A line out\<close>

lemma lines_of_done_line:
  assumes inv: "lb_inv e s" and h: "h < length (lb_heads s)" and l: "bh_list (head_of s h) = l # ls"
  shows "map bl_buf (lines_of (rb_linebuf_done_line h l s) h) = map bl_buf (tl (lines_of s h))"
    "map bl_terminated (lines_of (rb_linebuf_done_line h l s) h) = map bl_terminated (tl (lines_of s h))"
proof -
  let ?t = "rb_linebuf_done_line h l s"
  note d = lb_inv_done_line [OF inv h l]
  have "bl_buf (line_of ?t k) = bl_buf (line_of s k) \<and> bl_terminated (line_of ?t k) = bl_terminated (line_of s k)"
    if "k \<in> set ls" for k
    using refs_pos [of h ?t k] d(2,3,4,5) that h by simp
  then show "map bl_buf (lines_of ?t h) = map bl_buf (tl (lines_of s h))"
    "map bl_terminated (lines_of ?t h) = map bl_terminated (tl (lines_of s h))"
    by (simp_all add: lines_of_def l d(2))
qed

lemma view_Cons:
  "recv_ok (b # bs) \<Longrightarrow> bl_terminated b \<Longrightarrow>
   view (b # bs) = ((if cstr (bl_buf b) = [] then [] else [cstr (bl_buf b)]) @ fst (view bs), snd (view bs)) \<and> recv_ok bs"
  by (cases bs) (auto simp: view_def part_of_def recv_ok_def)

section \<open>Properties\<close>

fun recv_all :: "hid \<Rightarrow> char list list \<Rightarrow> lbs \<Rightarrow> lb_fault + lbs" where
  "recv_all h [] s = Inr s"
| "recv_all h (c # cs) s =
     (case rb_linebuf_parse False h c s of Inl f \<Rightarrow> Inl f | Inr (n, s') \<Rightarrow> recv_all h cs s')"

lemma fits_append: "fits n r (a @ b) \<Longrightarrow> n \<le> 510 \<Longrightarrow> fits n r a \<and> fits (length (snd (feed a (ls, p)))) 0 b"
  if "length p = n" for p
  using that
proof (induction a arbitrary: n r p ls)
  case Nil
  then show ?case by (auto simp: feed_def intro: fits_mono)
next
  case (Cons c a)
  have "feed (c # a) (ls, p) = feed a (eat c (ls, p))" by (simp add: feed_def)
  then show ?case
    using Cons.prems Cons.IH [of "Suc n" 0 "p @ [c]" ls] Cons.IH [of 0 "Suc r" "[]" ls]
      Cons.IH [of 0 "Suc r" "[]" "ls @ [p]"]
    by (cases "is_eol c") auto
qed

lemma recv_all_spec:
  "lb_inv False s \<Longrightarrow> h < length (lb_heads s) \<Longrightarrow> recv_ok (lines_of s h) \<Longrightarrow>
   fits (length (part_of (lines_of s h))) 0 (concat cs) \<Longrightarrow> list_all (\<lambda>c. c \<noteq> []) cs \<Longrightarrow>
   \<exists>s'. recv_all h cs s = Inr s' \<and> view (lines_of s' h) = feed (concat cs) (view (lines_of s h)) \<and>
     lb_inv False s' \<and> recv_ok (lines_of s' h)"
proof (induction cs arbitrary: s)
  case Nil
  then show ?case by (simp add: feed_def)
next
  case (Cons c cs)
  let ?v = "view (lines_of s h)"
  have v: "?v = (fst ?v, part_of (lines_of s h))" by (simp add: view_def)
  have "length (part_of (lines_of s h)) \<le> 510" using Cons.prems(3) by (simp add: recv_ok_def)
  then have f: "fits (length (part_of (lines_of s h))) 0 c" "fits (length (snd (feed c ?v))) 0 (concat cs)"
    using fits_append [OF refl, of "part_of (lines_of s h)" 0 c "concat cs" "fst ?v"] Cons.prems(4) v by simp_all
  obtain m s1 where s1: "rb_linebuf_parse False h c s = Inr (m, s1)" "recv_ok (lines_of s1 h)"
    "view (lines_of s1 h) = feed c ?v" "lb_inv False s1" "h < length (lb_heads s1)"
    using parse_spec [OF Cons.prems(1-3) f(1)] Cons.prems(5) by auto
  have "part_of (lines_of s1 h) = snd (feed c ?v)" using s1(3) by (simp add: view_def prod_eq_iff)
  then show ?case
    using Cons.IH [OF s1(4,5,2)] f(2) Cons.prems(5) s1(1,3) by (simp add: feed_append)
qed


definition one_queue :: lbs where
  "one_queue = \<lparr>lb_lines = Map.empty, lb_next = 0, lb_heads = [empty_head], lb_count = 0\<rparr>"

lemma one_queue_inv: "lb_inv e one_queue" "lines_of one_queue 0 = []" "length (lb_heads one_queue) = 1"
  by (simp_all add: one_queue_def lb_inv_def refs_def head_of_def empty_head_def head_ok_def lens_def lines_of_def)


text \<open>
  Taking a line out: when the first line of a queue is complete, \<open>rb_linebuf_get\<close> with a
  buffer that is large enough returns its bytes, as a C string the first of the lines queued
  (or an empty string for an empty line), and leaves the others; otherwise it returns nothing
  and changes nothing.
\<close>

theorem linebuf_get_next:
  assumes "lb_inv e s" "h < length (lb_heads s)" "recv_ok (lines_of s h)"
    and "list_all (\<lambda>b. \<not> bl_raw b) (lines_of s h)" "512 < buflen"
    and "rb_linebuf_get h buflen False False s = (out, s')"
  shows "lb_inv e s' \<and>
    (if lines_of s h \<noteq> [] \<and> bl_terminated (hd (lines_of s h)) then
       view (lines_of s h) = ((if cstr out = [] then [] else [cstr out]) @ fst (view (lines_of s' h)), snd (view (lines_of s' h)))
     else out = [] \<and> s' = s)"
proof (cases "lines_of s h \<noteq> [] \<and> bl_terminated (hd (lines_of s h))")
  case True
  then obtain l ls where l: "bh_list (head_of s h) = l # ls" by (auto simp: lines_of_def neq_Nil_conv)
  let ?b = "line_of s l"
  have ls: "lines_of s h = ?b # map (line_of s) ls" by (simp add: lines_of_def l)
  have "length (bl_buf ?b) \<le> 512"
    using lb_inv_line(3) [OF assms(1,2), of l] l by (simp add: line_ok_def BUF_DATA_SIZE_def)
  then have g: "out = bl_buf ?b" "s' = rb_linebuf_done_line h l s"
    using assms(4-6) l ls True by (auto simp: rb_linebuf_get_def Let_def)
  have "view (lines_of s' h) = view (map (line_of s) ls)"
    using view_cong(1) lines_of_done_line [OF assms(1,2) l] ls by (simp add: g(2))
  moreover have "lb_inv e s'" using lb_inv_done_line(1) [OF assms(1,2) l] by (simp add: g(2))
  ultimately show ?thesis using True view_Cons [of ?b "map (line_of s) ls"] assms(3) ls g(1) by simp
next
  case False
  then show ?thesis
    using assms(1,6) by (auto simp: lines_of_def rb_linebuf_get_def split: list.splits)
qed

definition two_lines :: lbs where
  "two_lines = \<lparr>lb_lines = [0 \<mapsto> \<lparr>bl_buf = ''NICK a'', bl_terminated = True, bl_raw = False, bl_refcount = 1\<rparr>,
       1 \<mapsto> \<lparr>bl_buf = ''PI'', bl_terminated = False, bl_raw = False, bl_refcount = 1\<rparr>], lb_next = 2,
     lb_heads = [\<lparr>bh_list = [0, 1], bh_len = 8, bh_alloclen = 2, bh_writeofs = 0, bh_numlines = 2\<rparr>], lb_count = 2\<rparr>"

lemma two_lines_inv: "lb_inv True two_lines"
  by (auto simp: two_lines_def lb_inv_def refs_def head_of_def head_ok_def lens_def line_of_def line_ok_def
      BUF_DATA_SIZE_def eol_suffix_def is_eol_def)

theorem linebuf_get_next_witness:
  "view (lines_of two_lines 0) = ([''NICK a''], ''PI'') \<and>
   view (lines_of (snd (rb_linebuf_get 0 16384 False False two_lines)) 0) = ([], ''PI'')"
proof -
  have v: "view (lines_of two_lines 0) = ([''NICK a''], ''PI'')" "recv_ok (lines_of two_lines 0)"
    "list_all (\<lambda>b. \<not> bl_raw b) (lines_of two_lines 0)"
    "lines_of two_lines 0 \<noteq> [] \<and> bl_terminated (hd (lines_of two_lines 0))"
    "fst (rb_linebuf_get 0 16384 False False two_lines) = ''NICK a''" "cstr ''NICK a'' = ''NICK a''"
    by code_simp+
  have "0 < length (lb_heads two_lines)" by (simp add: two_lines_def)
  from linebuf_get_next [OF two_lines_inv this v(2,3), of 16384] v show ?thesis
    by (cases "rb_linebuf_get 0 16384 False False two_lines") (auto simp: prod_eq_iff)
qed

end
