(* ===== verification/Packet.thy ===== *)
theory Packet
  imports LineStream Mode
begin

text \<open>
  Reading from a connection and flood control (\<open>src/packet.c\<close>): bytes read go into the receive
  queue, complete lines are handed to \<open>parse\<close> as far as the client's allowance goes, and once a
  second \<open>flood_recalc\<close> renews the allowance. What a line does is a parameter \<open>ph\<close>, the effect of
  \<open>parse\<close> on the connection: it may change the status, the flags and the allowance, and whatever
  else the rest of the daemon keeps (\<open>lc_rest\<close>).
\<close>

section \<open>Connections\<close>

record 'w lclient =
  lc_status :: client_status
  lc_anydead :: bool
  lc_oper :: bool
  lc_exempt_flood :: bool
  lc_flood_done :: bool
  lc_firsttime :: int
  lc_lasttime :: int
  lc_sent_parsed :: int
  lc_allow_read :: nat
  lc_actually_read :: int
  lc_receiveM :: nat
  lc_receiveB :: nat
  lc_recvq :: "buf_line list"
  lc_rest :: 'w

record packet_conf =
  pc_no_oper_flood :: bool
  pc_post_registration_delay :: int
  pc_client_flood :: int

definition READBUF_SIZE :: nat where "READBUF_SIZE = 16384"

definition lc_anyserver :: "'w lclient \<Rightarrow> bool" where
  "lc_anyserver c = (lc_status c \<in> {STAT_SERVER, STAT_HANDSHAKE, STAT_CONNECTING})"

section \<open>The receive queue\<close>

text \<open>
  The queue's lines, alone in a store of their own: the state on which the functions of
  \<open>Linebuf\<close> work when they are called for \<open>buf_recvq\<close>.
\<close>

definition lbs_of :: "buf_line list \<Rightarrow> lbs" where
  "lbs_of ls =
     \<lparr>lb_lines = (\<lambda>i. if i < length ls then Some (ls ! i) else None), lb_next = length ls,
      lb_heads = [\<lparr>bh_list = [0..<length ls], bh_len = int (sum_list (map (\<lambda>b. length (bl_buf b)) ls)),
        bh_alloclen = int (length ls), bh_writeofs = 0, bh_numlines = int (length ls)\<rparr>],
      lb_count = int (length ls)\<rparr>"

definition recvq_get :: "'w lclient \<Rightarrow> char list \<times> 'w lclient" where
  "recvq_get c =
     (let (buf, s) = rb_linebuf_get 0 READBUF_SIZE False False (lbs_of (lc_recvq c))
      in (buf, c\<lparr>lc_recvq := lines_of s 0\<rparr>))"

definition recvq_parse :: "bool \<Rightarrow> char list \<Rightarrow> 'w lclient \<Rightarrow> lb_fault + (nat \<times> 'w lclient)" where
  "recvq_parse raw data c =
     (case rb_linebuf_parse raw 0 data (lbs_of (lc_recvq c)) of
        Inl f \<Rightarrow> Inl f
      | Inr (n, s) \<Rightarrow> Inr (n, c\<lparr>lc_recvq := lines_of s 0\<rparr>))"

section \<open>Handing lines to the parser\<close>

definition client_dopacket :: "(char list \<Rightarrow> 'w lclient \<Rightarrow> 'w lclient) \<Rightarrow> char list \<Rightarrow> 'w lclient \<Rightarrow> 'w lclient" where
  "client_dopacket ph buffer c =
     (if lc_anydead c then c
      else ph buffer (c\<lparr>lc_receiveM := lc_receiveM c + 1, lc_receiveB := lc_receiveB c + length buffer\<rparr>))"

text \<open>
  The three loops of \<open>parse_client_queued\<close>. They end because each turn takes a line out of the
  queue, if handling lines does not add any. The first also tells whether the function returned.
\<close>

partial_function (option) unknown_loop ::
  "(char list \<Rightarrow> 'w lclient \<Rightarrow> 'w lclient) \<Rightarrow> 'w lclient \<Rightarrow> (bool \<times> 'w lclient) option" where
  "unknown_loop ph c =
     (if lc_sent_parsed c \<ge> int (lc_allow_read c) then Some (False, c)
      else let (buf, c1) = recvq_get c
           in if buf = [] then Some (False, c1)
              else let c2 = client_dopacket ph buf c1; c3 = c2\<lparr>lc_sent_parsed := lc_sent_parsed c2 + 1\<rparr>
                   in if lc_anydead c3 then Some (True, c3)
                      else if lc_status c3 \<noteq> STAT_UNKNOWN then Some (False, c3\<lparr>lc_sent_parsed := 0\<rparr>)
                      else unknown_loop ph c3)"

partial_function (option) server_loop ::
  "(char list \<Rightarrow> 'w lclient \<Rightarrow> 'w lclient) \<Rightarrow> 'w lclient \<Rightarrow> 'w lclient option" where
  "server_loop ph c =
     (if lc_anydead c then Some c
      else let (buf, c1) = recvq_get c
           in if buf = [] then Some c1 else server_loop ph (client_dopacket ph buf c1))"

definition flood_limit :: "bool \<Rightarrow> 'w lclient \<Rightarrow> int" where
  "flood_limit checkflood c = (if checkflood then int (lc_allow_read c) else 4 * int (lc_allow_read c))"

partial_function (option) user_loop ::
  "(char list \<Rightarrow> 'w lclient \<Rightarrow> 'w lclient) \<Rightarrow> bool \<Rightarrow> 'w lclient \<Rightarrow> 'w lclient option" where
  "user_loop ph checkflood c =
     (if lc_sent_parsed c \<ge> flood_limit checkflood c then Some c
      else let (buf, c1) = recvq_get c
           in if buf = [] then Some c1
              else let c2 = client_dopacket ph buf c1
                   in if lc_anydead c2 then Some c2
                      else user_loop ph checkflood (c2\<lparr>lc_sent_parsed := lc_sent_parsed c2 + 1\<rparr>))"

definition parse_registered ::
  "packet_conf \<Rightarrow> int \<Rightarrow> (char list \<Rightarrow> 'w lclient \<Rightarrow> 'w lclient) \<Rightarrow> 'w lclient \<Rightarrow> 'w lclient option" where
  "parse_registered cf now ph c =
     (if lc_anyserver c \<or> lc_exempt_flood c then server_loop ph c
      else if lc_status c = STAT_CLIENT then
        (if lc_firsttime c + pc_post_registration_delay cf > now then Some c
         else user_loop ph (\<not> (lc_oper c \<and> pc_no_oper_flood cf)) c)
      else Some c)"

definition parse_client_queued ::
  "packet_conf \<Rightarrow> int \<Rightarrow> (char list \<Rightarrow> 'w lclient \<Rightarrow> 'w lclient) \<Rightarrow> 'w lclient \<Rightarrow> 'w lclient option" where
  "parse_client_queued cf now ph c =
     (if lc_anydead c then Some c
      else if lc_status c = STAT_UNKNOWN then
        (case unknown_loop ph c of
           None \<Rightarrow> None
         | Some (returned, c1) \<Rightarrow> if returned then Some c1 else parse_registered cf now ph c1)
      else parse_registered cf now ph c)"

section \<open>Once a second\<close>

definition end_grace :: "'w lclient \<Rightarrow> 'w lclient" where
  "end_grace c = c\<lparr>lc_flood_done := True, lc_allow_read := MAX_FLOOD, lc_sent_parsed := 0\<rparr>"

text \<open>One turn of the first loop of \<open>flood_recalc\<close>, for a client of \<open>lclient_list\<close>.\<close>

definition flood_recalc_client ::
  "packet_conf \<Rightarrow> int \<Rightarrow> (char list \<Rightarrow> 'w lclient \<Rightarrow> 'w lclient) \<Rightarrow> 'w lclient \<Rightarrow> 'w lclient option" where
  "flood_recalc_client cf now ph c =
     (if lc_status c = STAT_ME then Some c
      else
        let sp = (if lc_flood_done c then lc_sent_parsed c - 2 else 0);
            c1 = c\<lparr>lc_sent_parsed := (if sp < 0 then 0 else sp),
                   lc_actually_read := (if lc_actually_read c - 1 < 0 then 0 else lc_actually_read c - 1)\<rparr>
        in case parse_client_queued cf now ph c1 of
             None \<Rightarrow> None
           | Some c2 \<Rightarrow>
               if lc_anydead c2 then Some c2
               else if \<not> lc_flood_done c2 \<and> lc_firsttime c2 + 30 < now then Some (end_grace c2)
               else Some c2)"

text \<open>One turn of the second loop, for a connection of \<open>unknown_list\<close>.\<close>

definition flood_recalc_unknown ::
  "packet_conf \<Rightarrow> int \<Rightarrow> (char list \<Rightarrow> 'w lclient \<Rightarrow> 'w lclient) \<Rightarrow> 'w lclient \<Rightarrow> 'w lclient option" where
  "flood_recalc_unknown cf now ph c =
     parse_client_queued cf now ph
       (c\<lparr>lc_sent_parsed := (if lc_sent_parsed c - 1 < 0 then 0 else lc_sent_parsed c - 1),
          lc_actually_read := (if lc_actually_read c - 1 < 0 then 0 else lc_actually_read c - 1)\<rparr>)"

section \<open>Reading\<close>

text \<open>
  What \<open>rb_read\<close> returned: bytes, the end of the stream, an error to wait after, or another
  error. The ways \<open>read_packet\<close> ends: waiting for more, the client exiting, a dead client.
\<close>

datatype read_result = Got "char list" | Eof | Again | Failed

datatype read_end = Waiting | ExitError int | ExitFlood | WasDead | Fault lb_fault | Diverged

definition stamp_read :: "int \<Rightarrow> 'w lclient \<Rightarrow> 'w lclient" where
  "stamp_read now c = (if lc_lasttime c < now then c\<lparr>lc_lasttime := now\<rparr> else c)"

text \<open>\<open>binary\<close> is set once the connection was unregistered at a read, and stays set.\<close>

fun read_packet ::
  "packet_conf \<Rightarrow> int \<Rightarrow> (char list \<Rightarrow> 'w lclient \<Rightarrow> 'w lclient) \<Rightarrow> bool \<Rightarrow> read_result list \<Rightarrow> 'w lclient \<Rightarrow>
   read_end \<times> 'w lclient" where
  "read_packet cf now ph binary [] c = (Waiting, c)"
| "read_packet cf now ph binary (r # rs) c =
     (if lc_anydead c then (WasDead, c)
      else case r of
        Again \<Rightarrow> (Waiting, c)
      | Failed \<Rightarrow> (ExitError (-1), c)
      | Eof \<Rightarrow> (ExitError 0, c)
      | Got data \<Rightarrow>
          let c1 = stamp_read now c;
              binary' = (binary \<or> lc_status c1 = STAT_HANDSHAKE \<or> lc_status c1 = STAT_UNKNOWN)
          in case recvq_parse binary' data c1 of
               Inl f \<Rightarrow> (Fault f, c1)
             | Inr (n, c2) \<Rightarrow>
                 let c3 = c2\<lparr>lc_actually_read := lc_actually_read c2 + int n\<rparr>
                 in case parse_client_queued cf now ph c3 of
                      None \<Rightarrow> (Diverged, c3)
                    | Some c4 \<Rightarrow>
                        if lc_anydead c4 then (WasDead, c4)
                        else if \<not> lc_anyserver c4 \<and> int (length (lc_recvq c4)) > pc_client_flood cf \<and>
                                \<not> (pc_no_oper_flood cf \<and> lc_oper c4)
                             then (ExitFlood, c4)
                        else if length data < READBUF_SIZE then (Waiting, c4)
                        else read_packet cf now ph binary' rs c4)"

end
