(* ===== verification/PacketProps.thy ===== *)
theory PacketProps
  imports Packet
begin

text \<open>
  Flood control does what its comment promises: the loops end, a client gets at most its
  allowance and two lines a second, its queue is drained at one line a second at least, and
  a client that queues more than \<open>client_flood\<close> lines is exited.
\<close>

section \<open>Taking a line\<close>

definition get_bytes :: "buf_line \<Rightarrow> char list" where
  "get_bytes b =
     (let cpy = (if READBUF_SIZE < length (bl_buf b) then take (READBUF_SIZE - 1) (bl_buf b) else bl_buf b)
      in if bl_raw b then rev (dropWhile is_eol (rev (dropWhile is_eol cpy))) else cpy)"

lemma upt_Suc_Cons: "[0..<Suc n] = 0 # map Suc [0..<n]"
  by (simp add: upt_conv_Cons map_Suc_upt del: upt_Suc)

lemma lbs_of_sel [simp]:
  "lines_of (lbs_of ls) 0 = ls" "bh_list (head_of (lbs_of ls) 0) = [0..<length ls]"
  "length (lb_heads (lbs_of ls)) = 1"
proof -
  show "lines_of (lbs_of ls) 0 = ls"
    by (rule nth_equalityI) (simp_all add: lines_of_def lbs_of_def head_of_def line_of_def)
qed (simp_all add: lbs_of_def head_of_def)

lemma lines_of_done_lbs:
  "lines_of (rb_linebuf_done_line 0 0 (lbs_of (b # bs))) 0 = bs"
proof -
  let ?s = "lbs_of (b # bs)"
  let ?t = "rb_linebuf_done_line 0 0 ?s"
  have l: "bh_list (head_of ?t 0) = map Suc [0..<length bs]"
    using upt_Suc_Cons [of "length bs"]
    by (simp add: rb_linebuf_done_line_def Let_def head_of_def upd_head_def lbs_of_def put_line_def del: upt_Suc)
  have "line_of ?t (Suc i) = bs ! i" if "i < length bs" for i
    using that by (simp add: rb_linebuf_done_line_def Let_def line_of_def lbs_of_def)
  then have "map (\<lambda>i. line_of ?t (Suc i)) [0..<length bs] = bs"
    by (intro nth_equalityI) simp_all
  then show ?thesis by (simp add: lines_of_def l comp_def)
qed

lemma recvq_get_simps:
  "lc_recvq c = [] \<Longrightarrow> recvq_get c = ([], c)"
  "lc_recvq c = b # bs \<Longrightarrow> \<not> bl_terminated b \<Longrightarrow> recvq_get c = ([], c)"
  "lc_recvq c = b # bs \<Longrightarrow> bl_terminated b \<Longrightarrow> recvq_get c = (get_bytes b, c\<lparr>lc_recvq := bs\<rparr>)"
proof -
  have upd: "c\<lparr>lc_recvq := lc_recvq c\<rparr> = c" by simp
  show "lc_recvq c = [] \<Longrightarrow> recvq_get c = ([], c)"
    using upd by (simp add: recvq_get_def rb_linebuf_get_def)
  assume b: "lc_recvq c = b # bs"
  have l: "line_of (lbs_of (b # bs)) 0 = b" by (simp add: line_of_def lbs_of_def)
  have hd: "bh_list (head_of (lbs_of (b # bs)) 0) = 0 # map Suc [0..<length bs]"
    using upt_Suc_Cons [of "length bs"] by (simp del: upt_Suc)
  show "\<not> bl_terminated b \<Longrightarrow> recvq_get c = ([], c)"
    using upd b l by (simp add: recvq_get_def rb_linebuf_get_def hd del: lbs_of_sel(2))
  show "bl_terminated b \<Longrightarrow> recvq_get c = (get_bytes b, c\<lparr>lc_recvq := bs\<rparr>)"
    using b l lines_of_done_lbs [of b bs]
    by (simp add: recvq_get_def rb_linebuf_get_def hd get_bytes_def Let_def del: lbs_of_sel(2))
qed

lemma recvq_get_cases:
  obtains (none) "recvq_get c = ([], c)" "lc_recvq c = [] \<or> \<not> bl_terminated (hd (lc_recvq c))"
  | (line) b bs where "lc_recvq c = b # bs" "bl_terminated b" "recvq_get c = (get_bytes b, c\<lparr>lc_recvq := bs\<rparr>)"
proof (cases "lc_recvq c")
  case Nil
  then show thesis using none recvq_get_simps(1) [OF Nil] by simp
next
  case (Cons b bs)
  then show thesis
    using none line recvq_get_simps(2,3) [OF Cons] by (cases "bl_terminated b") simp_all
qed

section \<open>The loops end\<close>

definition keeps_queue :: "(char list \<Rightarrow> 'w lclient \<Rightarrow> 'w lclient) \<Rightarrow> bool" where
  "keeps_queue ph = (\<forall>buf c. length (lc_recvq (ph buf c)) \<le> length (lc_recvq c))"

lemma dopacket_queue: "keeps_queue ph \<Longrightarrow> length (lc_recvq (client_dopacket ph buf c)) \<le> length (lc_recvq c)"
proof -
  assume "keeps_queue ph"
  then have "length (lc_recvq (ph buf d)) \<le> length (lc_recvq d)" for d by (simp add: keeps_queue_def)
  from this [of "c\<lparr>lc_receiveM := lc_receiveM c + 1, lc_receiveB := lc_receiveB c + length buf\<rparr>"]
  show ?thesis by (simp add: client_dopacket_def)
qed

lemma unknown_loop_returns: "keeps_queue ph \<Longrightarrow> unknown_loop ph c \<noteq> None"
proof (induction "length (lc_recvq c)" arbitrary: c rule: less_induct)
  case less
  show ?case
  proof (cases rule: recvq_get_cases [of c])
    case none
    then show ?thesis by (subst unknown_loop.simps) auto
  next
    case (line b bs)
    let ?c = "client_dopacket ph (get_bytes b) (c\<lparr>lc_recvq := bs\<rparr>)"
    have "length (lc_recvq ?c) < length (lc_recvq c)"
      using dopacket_queue [OF less.prems, of "get_bytes b" "c\<lparr>lc_recvq := bs\<rparr>"] line(1) by simp
    then show ?thesis
      using less.hyps [of "?c\<lparr>lc_sent_parsed := lc_sent_parsed ?c + 1\<rparr>"] less.prems line
      by (subst unknown_loop.simps) (auto simp: Let_def)
  qed
qed

lemma server_loop_returns: "keeps_queue ph \<Longrightarrow> server_loop ph c \<noteq> None"
proof (induction "length (lc_recvq c)" arbitrary: c rule: less_induct)
  case less
  show ?case
  proof (cases rule: recvq_get_cases [of c])
    case none
    then show ?thesis by (subst server_loop.simps) simp
  next
    case (line b bs)
    have "length (lc_recvq (client_dopacket ph (get_bytes b) (c\<lparr>lc_recvq := bs\<rparr>))) < length (lc_recvq c)"
      using dopacket_queue [OF less.prems, of "get_bytes b" "c\<lparr>lc_recvq := bs\<rparr>"] line(1) by simp
    then show ?thesis
      using less.hyps less.prems line by (subst server_loop.simps) (auto simp: Let_def)
  qed
qed

lemma user_loop_returns: "keeps_queue ph \<Longrightarrow> user_loop ph chk c \<noteq> None"
proof (induction "length (lc_recvq c)" arbitrary: c rule: less_induct)
  case less
  show ?case
  proof (cases rule: recvq_get_cases [of c])
    case none
    then show ?thesis by (subst user_loop.simps) simp
  next
    case (line b bs)
    let ?c = "client_dopacket ph (get_bytes b) (c\<lparr>lc_recvq := bs\<rparr>)"
    have "length (lc_recvq ?c) < length (lc_recvq c)"
      using dopacket_queue [OF less.prems, of "get_bytes b" "c\<lparr>lc_recvq := bs\<rparr>"] line(1) by simp
    then show ?thesis
      using less.hyps [of "?c\<lparr>lc_sent_parsed := lc_sent_parsed ?c + 1\<rparr>"] less.prems line
      by (subst user_loop.simps) (auto simp: Let_def)
  qed
qed

lemma parse_client_queued_total:
  assumes "keeps_queue ph"
  shows "\<exists>c'. parse_client_queued cf now ph c = Some c'"
proof -
  have "\<exists>c'. parse_registered cf now ph d = Some c'" for d
    using server_loop_returns [OF assms] user_loop_returns [OF assms] by (auto simp: parse_registered_def)
  moreover obtain r d where "unknown_loop ph c = Some (r, d)"
    using unknown_loop_returns [OF assms, of c] by auto
  ultimately show ?thesis by (simp add: parse_client_queued_def)
qed

lemma flood_recalc_total:
  assumes "keeps_queue ph"
  shows "\<exists>c'. flood_recalc_client cf now ph c = Some c'"
proof -
  let ?sp = "if lc_flood_done c then lc_sent_parsed c - 2 else 0"
  let ?c = "c\<lparr>lc_sent_parsed := (if ?sp < 0 then 0 else ?sp),
     lc_actually_read := (if lc_actually_read c - 1 < 0 then 0 else lc_actually_read c - 1)\<rparr>"
  obtain c2 where "parse_client_queued cf now ph ?c = Some c2"
    using parse_client_queued_total [OF assms] by blast
  then show ?thesis
    unfolding flood_recalc_client_def Let_def by (cases "lc_status c = STAT_ME") simp_all
qed

section \<open>The rate\<close>

text \<open>
  A handler of ordinary commands: it leaves the status, the flags, the allowance, the queue and
  the count of lines as they are.
\<close>

definition ordinary :: "(char list \<Rightarrow> 'w lclient \<Rightarrow> 'w lclient) \<Rightarrow> bool" where
  "ordinary ph = (\<forall>buf c.
     lc_status (ph buf c) = lc_status c \<and> lc_anydead (ph buf c) = lc_anydead c \<and> lc_oper (ph buf c) = lc_oper c \<and>
     lc_exempt_flood (ph buf c) = lc_exempt_flood c \<and> lc_flood_done (ph buf c) = lc_flood_done c \<and>
     lc_firsttime (ph buf c) = lc_firsttime c \<and> lc_sent_parsed (ph buf c) = lc_sent_parsed c \<and>
     lc_allow_read (ph buf c) = lc_allow_read c \<and> lc_receiveM (ph buf c) = lc_receiveM c \<and>
     lc_recvq (ph buf c) = lc_recvq c)"

definition user_ok :: "'w lclient \<Rightarrow> bool" where
  "user_ok c = (lc_status c = STAT_CLIENT \<and> \<not> lc_anydead c \<and> \<not> lc_exempt_flood c \<and> lc_flood_done c)"

definition same_flags :: "'w lclient \<Rightarrow> 'w lclient \<Rightarrow> bool" where
  "same_flags c d = (lc_status d = lc_status c \<and> lc_anydead d = lc_anydead c \<and> lc_oper d = lc_oper c \<and>
     lc_exempt_flood d = lc_exempt_flood c \<and> lc_flood_done d = lc_flood_done c \<and>
     lc_firsttime d = lc_firsttime c \<and> lc_allow_read d = lc_allow_read c)"

lemma same_flags_trans: "same_flags c d \<Longrightarrow> same_flags d e \<Longrightarrow> same_flags c e"
  by (simp add: same_flags_def)

lemma same_flags_upd [simp]:
  "same_flags c (d\<lparr>lc_sent_parsed := n\<rparr>) = same_flags c d" "same_flags (c\<lparr>lc_sent_parsed := n\<rparr>) d = same_flags c d"
  "same_flags c (d\<lparr>lc_recvq := q\<rparr>) = same_flags c d" "same_flags (c\<lparr>lc_recvq := q\<rparr>) d = same_flags c d"
  "same_flags c c"
  by (simp_all add: same_flags_def)

lemma ordinary_keeps: "ordinary ph \<Longrightarrow> keeps_queue ph"
  by (simp add: ordinary_def keeps_queue_def)

lemma dopacket_ordinary:
  assumes "ordinary ph" "\<not> lc_anydead c"
  shows "same_flags c (client_dopacket ph buf c) \<and> lc_sent_parsed (client_dopacket ph buf c) = lc_sent_parsed c \<and>
    lc_receiveM (client_dopacket ph buf c) = lc_receiveM c + 1 \<and> lc_recvq (client_dopacket ph buf c) = lc_recvq c"
  using assms by (simp add: client_dopacket_def ordinary_def same_flags_def)

lemma user_loop_count:
  assumes "ordinary ph" "\<not> lc_anydead c" "user_loop ph chk c = Some c'"
  shows "same_flags c c' \<and> lc_sent_parsed c' - int (lc_receiveM c') = lc_sent_parsed c - int (lc_receiveM c) \<and>
    lc_sent_parsed c \<le> lc_sent_parsed c' \<and>
    lc_sent_parsed c' \<le> max (lc_sent_parsed c) (flood_limit chk c) \<and> length (lc_recvq c') \<le> length (lc_recvq c) \<and>
    (lc_sent_parsed c < flood_limit chk c \<and> lc_recvq c \<noteq> [] \<and> bl_terminated (hd (lc_recvq c)) \<longrightarrow>
      length (lc_recvq c') < length (lc_recvq c)) \<and> (\<exists>n. lc_recvq c' = drop n (lc_recvq c))"
  using assms(2,3)
proof (induction "length (lc_recvq c)" arbitrary: c rule: less_induct)
  case less
  show ?case
  proof (cases "lc_sent_parsed c \<ge> flood_limit chk c")
    case True
    then have "c' = c" using less.prems(2) by (subst (asm) user_loop.simps) simp
    then show ?thesis using True by (auto intro: exI [of _ 0])
  next
    case False
    show ?thesis
    proof (cases rule: recvq_get_cases [of c])
      case none
      then have "c' = c" using less.prems(2) False by (subst (asm) user_loop.simps) simp
      then show ?thesis using none(2) by (auto intro: exI [of _ 0])
    next
      case (line b bs)
      let ?c1 = "c\<lparr>lc_recvq := bs\<rparr>"
      let ?c2 = "client_dopacket ph (get_bytes b) ?c1"
      let ?c3 = "?c2\<lparr>lc_sent_parsed := lc_sent_parsed ?c2 + 1\<rparr>"
      have d: "same_flags c ?c2" "lc_sent_parsed ?c2 = lc_sent_parsed c" "lc_receiveM ?c2 = lc_receiveM c + 1"
        "lc_recvq ?c2 = bs"
        using dopacket_ordinary [OF assms(1), of ?c1 "get_bytes b"] less.prems(1) by (auto simp: same_flags_def)
      show ?thesis
      proof (cases "get_bytes b = []")
        case True
        then have "c' = ?c1" using less.prems(2) False line(3) by (subst (asm) user_loop.simps) simp
        then show ?thesis using line(1) by (auto intro: exI [of _ 1])
      next
        case nb: False
        have c3: "\<not> lc_anydead ?c3" using less.prems(1) d(1) by (simp add: same_flags_def)
        then have "user_loop ph chk c = user_loop ph chk ?c3"
          using False nb line(3) by (subst user_loop.simps) (simp add: Let_def)
        then have c3': "user_loop ph chk ?c3 = Some c'" using less.prems(2) by simp
        have lim: "flood_limit chk ?c3 = flood_limit chk c" using d(1) by (simp add: flood_limit_def same_flags_def)
        have ih: "same_flags ?c3 c'"
          "lc_sent_parsed c' - int (lc_receiveM c') = lc_sent_parsed ?c3 - int (lc_receiveM ?c3)"
          "lc_sent_parsed ?c3 \<le> lc_sent_parsed c'" "lc_sent_parsed c' \<le> max (lc_sent_parsed ?c3) (flood_limit chk ?c3)"
          "length (lc_recvq c') \<le> length (lc_recvq ?c3)" "\<exists>n. lc_recvq c' = drop n (lc_recvq ?c3)"
          using less.hyps [OF _ c3 c3'] d(4) line(1) by simp_all
        obtain n where "lc_recvq c' = drop n bs" using ih(6) d(4) by auto
        then have "\<exists>n. lc_recvq c' = drop n (lc_recvq c)" using line(1) by (intro exI [of _ "Suc n"]) simp
        moreover have "same_flags c c'" using same_flags_trans [of c ?c2 c'] d(1) ih(1) by simp
        moreover have "lc_sent_parsed c' \<le> max (lc_sent_parsed c) (flood_limit chk c)"
          using ih(4) lim d(2) False by simp
        moreover have "length (lc_recvq c') < length (lc_recvq c)" using ih(5) d(4) line(1) by simp
        moreover have "lc_sent_parsed c' - int (lc_receiveM c') = lc_sent_parsed c - int (lc_receiveM c)"
          "lc_sent_parsed c \<le> lc_sent_parsed c'" using ih(2,3) d(2,3) by simp_all
        ultimately show ?thesis by simp
      qed
    qed
  qed
qed

definition checks_flood :: "packet_conf \<Rightarrow> 'w lclient \<Rightarrow> bool" where
  "checks_flood cf c = (\<not> (lc_oper c \<and> pc_no_oper_flood cf))"

abbreviation limit_of :: "packet_conf \<Rightarrow> 'w lclient \<Rightarrow> int" where
  "limit_of cf c \<equiv> flood_limit (checks_flood cf c) c"

lemma limit_same: "same_flags c d \<Longrightarrow> limit_of cf d = limit_of cf c"
  by (simp add: same_flags_def flood_limit_def checks_flood_def)

lemma user_ok_same: "same_flags c d \<Longrightarrow> user_ok d = user_ok c"
  by (simp add: same_flags_def user_ok_def)

lemma queued_user:
  assumes "user_ok c"
  shows "parse_client_queued cf now ph c =
    (if lc_firsttime c + pc_post_registration_delay cf > now then Some c else user_loop ph (checks_flood cf c) c)"
  using assms
  by (simp add: parse_client_queued_def parse_registered_def user_ok_def lc_anyserver_def checks_flood_def)

lemma queued_count:
  assumes "ordinary ph" "user_ok c" "parse_client_queued cf now ph c = Some c'"
    "lc_sent_parsed c \<le> limit_of cf c"
  shows "same_flags c c'" "lc_sent_parsed c' - int (lc_receiveM c') = lc_sent_parsed c - int (lc_receiveM c)"
    "lc_sent_parsed c \<le> lc_sent_parsed c'" "lc_sent_parsed c' \<le> limit_of cf c" "\<exists>n. lc_recvq c' = drop n (lc_recvq c)"
    "lc_firsttime c + pc_post_registration_delay cf \<le> now \<Longrightarrow> lc_sent_parsed c < limit_of cf c \<Longrightarrow>
     lc_recvq c \<noteq> [] \<Longrightarrow> bl_terminated (hd (lc_recvq c)) \<Longrightarrow> length (lc_recvq c') < length (lc_recvq c)"
proof -
  have "\<not> lc_anydead c" using assms(2) by (simp add: user_ok_def)
  note loop = user_loop_count [OF assms(1) this, of "checks_flood cf c" c']
  note q = queued_user [OF assms(2), of cf now ph]
  show "same_flags c c'" "lc_sent_parsed c' - int (lc_receiveM c') = lc_sent_parsed c - int (lc_receiveM c)"
    "lc_sent_parsed c \<le> lc_sent_parsed c'" "lc_sent_parsed c' \<le> limit_of cf c"
    using loop q assms(3,4) by (auto split: if_splits)
  show "\<exists>n. lc_recvq c' = drop n (lc_recvq c)"
    using loop q assms(3) by (auto split: if_splits intro: exI [of _ 0])
  show "lc_firsttime c + pc_post_registration_delay cf \<le> now \<Longrightarrow> lc_sent_parsed c < limit_of cf c \<Longrightarrow>
     lc_recvq c \<noteq> [] \<Longrightarrow> bl_terminated (hd (lc_recvq c)) \<Longrightarrow> length (lc_recvq c') < length (lc_recvq c)"
    using loop q assms(3) by (auto split: if_splits)
qed

definition tick_start :: "'w lclient \<Rightarrow> 'w lclient" where
  "tick_start c = c\<lparr>lc_sent_parsed := max 0 (lc_sent_parsed c - 2),
     lc_actually_read := (if lc_actually_read c - 1 < 0 then 0 else lc_actually_read c - 1)\<rparr>"

lemma tick_user:
  assumes "ordinary ph" "user_ok c" "flood_recalc_client cf now ph c = Some c'" "lc_sent_parsed c \<le> limit_of cf c"
  shows "parse_client_queued cf now ph (tick_start c) = Some c'"
proof -
  have fd: "lc_flood_done c" "lc_status c = STAT_CLIENT" using assms(2) by (simp_all add: user_ok_def)
  let ?c1 = "tick_start c"
  have eq: "flood_recalc_client cf now ph c = (case parse_client_queued cf now ph ?c1 of None \<Rightarrow> None
      | Some c2 \<Rightarrow> if lc_anydead c2 then Some c2
          else if \<not> lc_flood_done c2 \<and> lc_firsttime c2 + 30 < now then Some (end_grace c2) else Some c2)"
    using fd by (simp add: flood_recalc_client_def tick_start_def Let_def max_def)
  obtain c2 where c2: "parse_client_queued cf now ph ?c1 = Some c2"
    using parse_client_queued_total [OF ordinary_keeps [OF assms(1)]] by blast
  have sf: "same_flags c ?c1" by (simp add: tick_start_def same_flags_def)
  then have "user_ok ?c1" "limit_of cf ?c1 = limit_of cf c" using user_ok_same limit_same assms(2) by blast+
  moreover have "0 \<le> limit_of cf c" by (simp add: flood_limit_def)
  ultimately have "same_flags ?c1 c2"
    using queued_count(1) [OF assms(1) _ c2] assms(4) by (simp add: tick_start_def)
  then have "lc_flood_done c2" using sf fd by (simp add: same_flags_def)
  then show ?thesis using assms(3) eq c2 by (simp split: if_splits)
qed

text \<open>
  What happens to a client: seconds pass, and lines are put into its queue (in any way) and
  parsed.
\<close>

datatype pk_event = Tick int | Arrive "buf_line list" int

fun pk_step ::
  "packet_conf \<Rightarrow> (char list \<Rightarrow> 'w lclient \<Rightarrow> 'w lclient) \<Rightarrow> pk_event \<Rightarrow> 'w lclient \<Rightarrow> 'w lclient option" where
  "pk_step cf ph (Tick now) c = flood_recalc_client cf now ph c"
| "pk_step cf ph (Arrive ls now) c = parse_client_queued cf now ph (c\<lparr>lc_recvq := ls\<rparr>)"

fun pk_run ::
  "packet_conf \<Rightarrow> (char list \<Rightarrow> 'w lclient \<Rightarrow> 'w lclient) \<Rightarrow> pk_event list \<Rightarrow> 'w lclient \<Rightarrow> 'w lclient option" where
  "pk_run cf ph [] c = Some c"
| "pk_run cf ph (e # es) c = (case pk_step cf ph e c of None \<Rightarrow> None | Some c1 \<Rightarrow> pk_run cf ph es c1)"

definition ticks :: "pk_event list \<Rightarrow> nat" where
  "ticks es = length (filter (\<lambda>e. case e of Tick n \<Rightarrow> True | Arrive ls n \<Rightarrow> False) es)"

lemma pk_step_count:
  assumes "ordinary ph" "user_ok c" "0 \<le> lc_sent_parsed c" "lc_sent_parsed c \<le> limit_of cf c"
    and "pk_step cf ph e c = Some c'"
  shows "same_flags c c' \<and> 0 \<le> lc_sent_parsed c' \<and> lc_sent_parsed c' \<le> limit_of cf c \<and>
    int (lc_receiveM c') - lc_sent_parsed c' \<le>
      int (lc_receiveM c) - lc_sent_parsed c + (case e of Tick n \<Rightarrow> 2 | Arrive ls n \<Rightarrow> 0)"
proof (cases e)
  case (Arrive ls now)
  let ?d = "c\<lparr>lc_recvq := ls\<rparr>"
  have sf: "same_flags c ?d" by simp
  have "parse_client_queued cf now ph ?d = Some c'" using assms(5) Arrive by simp
  from queued_count(1-4) [OF assms(1) _ this] user_ok_same [OF sf] limit_same [OF sf, of cf] assms(2-4)
  have "same_flags ?d c'" "lc_sent_parsed c' - int (lc_receiveM c') = lc_sent_parsed c - int (lc_receiveM c)"
    "lc_sent_parsed c \<le> lc_sent_parsed c'" "lc_sent_parsed c' \<le> limit_of cf c" by simp_all
  then show ?thesis using Arrive assms(3) by simp
next
  case (Tick now)
  have "flood_recalc_client cf now ph c = Some c'" using assms(5) Tick by simp
  note q = tick_user [OF assms(1,2) this assms(4)]
  have sf: "same_flags c (tick_start c)" by (simp add: tick_start_def same_flags_def)
  have sp: "lc_sent_parsed (tick_start c) = max 0 (lc_sent_parsed c - 2)" "lc_receiveM (tick_start c) = lc_receiveM c"
    by (simp_all add: tick_start_def)
  have "0 \<le> limit_of cf c" by (simp add: flood_limit_def)
  then have "lc_sent_parsed (tick_start c) \<le> limit_of cf (tick_start c)"
    using limit_same [OF sf, of cf] assms(4) sp by simp
  from queued_count(1-4) [OF assms(1) _ q this] user_ok_same [OF sf] assms(2) limit_same [OF sf, of cf]
  have "same_flags (tick_start c) c'" "lc_sent_parsed c' \<le> limit_of cf c"
    "lc_sent_parsed c' - int (lc_receiveM c') = max 0 (lc_sent_parsed c - 2) - int (lc_receiveM c)"
    "max 0 (lc_sent_parsed c - 2) \<le> lc_sent_parsed c'" by (simp_all add: sp)
  then show ?thesis using Tick same_flags_trans [OF sf] by auto
qed

lemma pk_run_count:
  "ordinary ph \<Longrightarrow> user_ok c \<Longrightarrow> 0 \<le> lc_sent_parsed c \<Longrightarrow> lc_sent_parsed c \<le> limit_of cf c \<Longrightarrow>
   pk_run cf ph es c = Some c' \<Longrightarrow>
   lc_sent_parsed c' \<le> limit_of cf c \<and>
   int (lc_receiveM c') - lc_sent_parsed c' \<le> int (lc_receiveM c) - lc_sent_parsed c + 2 * int (ticks es)"
proof (induction es arbitrary: c)
  case Nil
  then show ?case by (simp add: ticks_def)
next
  case (Cons e es)
  obtain c1 where c1: "pk_step cf ph e c = Some c1" "pk_run cf ph es c1 = Some c'"
    using Cons.prems(5) by (auto split: option.splits)
  note st = pk_step_count [OF Cons.prems(1-4) c1(1)]
  then have "user_ok c1" "limit_of cf c1 = limit_of cf c" using user_ok_same limit_same Cons.prems(2) by blast+
  then show ?case
    using Cons.IH [OF Cons.prems(1) _ _ _ c1(2)] st by (cases e) (auto simp: ticks_def)
qed

lemma tick_drains:
  assumes "ordinary ph" "user_ok c" "0 \<le> lc_sent_parsed c" "lc_sent_parsed c \<le> limit_of cf c" "0 < lc_allow_read c"
    and "lc_firsttime c + pc_post_registration_delay cf \<le> now" "list_all bl_terminated (lc_recvq c)"
  shows "\<exists>c'. flood_recalc_client cf now ph c = Some c' \<and> same_flags c c' \<and> 0 \<le> lc_sent_parsed c' \<and>
    lc_sent_parsed c' \<le> limit_of cf c \<and> list_all bl_terminated (lc_recvq c') \<and>
    length (lc_recvq c') \<le> length (lc_recvq c) - 1"
proof -
  let ?t = "tick_start c"
  have sf: "same_flags c ?t" by (simp add: tick_start_def same_flags_def)
  have u: "user_ok ?t" "limit_of cf ?t = limit_of cf c" using user_ok_same [OF sf] limit_same [OF sf] assms(2) by blast+
  have "0 < limit_of cf c" using assms(5) by (simp add: flood_limit_def)
  then have sp: "lc_sent_parsed ?t < limit_of cf ?t" "lc_recvq ?t = lc_recvq c" "lc_firsttime ?t = lc_firsttime c"
    using assms(4) u(2) by (simp_all add: tick_start_def)
  obtain c' where c': "flood_recalc_client cf now ph c = Some c'"
    using flood_recalc_total [OF ordinary_keeps [OF assms(1)]] by blast
  note q = tick_user [OF assms(1,2) c' assms(4)]
  obtain n where n: "lc_recvq c' = drop n (lc_recvq c)"
    using queued_count(5) [OF assms(1) u(1) q] sp by auto
  have "length (lc_recvq c') \<le> length (lc_recvq c) - 1"
  proof (cases "lc_recvq c")
    case (Cons b bs)
    then show ?thesis using queued_count(6) [OF assms(1) u(1) q] sp assms(6,7) by simp
  qed (simp add: n)
  moreover have "list_all bl_terminated (lc_recvq c')"
    using assms(7) n by (auto simp: list_all_iff dest: in_set_dropD)
  ultimately show ?thesis
    using c' pk_step_count [OF assms(1-4), of "Tick now" c'] by simp
qed

section \<open>Properties\<close>


definition sample_line :: "cstring \<Rightarrow> buf_line" where
  "sample_line t = \<lparr>bl_buf = t, bl_terminated = True, bl_raw = False, bl_refcount = 1\<rparr>"

definition sample_client :: "nat lclient" where
  "sample_client = \<lparr>lc_status = STAT_CLIENT, lc_anydead = False, lc_oper = False, lc_exempt_flood = False,
     lc_flood_done = True, lc_firsttime = 0, lc_lasttime = 0, lc_sent_parsed = 4, lc_allow_read = 5,
     lc_actually_read = 0, lc_receiveM = 0, lc_receiveB = 0,
     lc_recvq = [sample_line ''A'', sample_line ''B'', sample_line ''C''], lc_rest = 0\<rparr>"

definition sample_conf :: packet_conf where
  "sample_conf = \<lparr>pc_no_oper_flood = True, pc_post_registration_delay = 0, pc_client_flood = 20\<rparr>"

definition count_lines :: "char list \<Rightarrow> nat lclient \<Rightarrow> nat lclient" where
  "count_lines buf c = c\<lparr>lc_rest := lc_rest c + 1\<rparr>"

lemma sample_ok: "ordinary count_lines" "user_ok sample_client" "0 \<le> lc_sent_parsed sample_client"
  "limit_of sample_conf sample_client = 5" "lc_sent_parsed sample_client = 4" "0 < lc_allow_read sample_client"
  "list_all bl_terminated (lc_recvq sample_client)" "length (lc_recvq sample_client) = 3"
  "lc_firsttime sample_client + pc_post_registration_delay sample_conf \<le> 100" "lc_receiveM sample_client = 0"
  by (simp_all add: ordinary_def count_lines_def user_ok_def sample_client_def sample_conf_def flood_limit_def
      checks_flood_def sample_line_def)




text \<open>
  C32. The loops end: if handling a line never adds lines to the client's own queue,
  \<open>parse_client_queued\<close> and the two turns of \<open>flood_recalc\<close> return for every state of the
  connection, and \<open>read_packet\<close> does not hang.
\<close>

theorem packet_loops_end:
  assumes "keeps_queue ph"
  shows "parse_client_queued cf now ph c \<noteq> None \<and> flood_recalc_client cf now ph c \<noteq> None \<and>
    flood_recalc_unknown cf now ph c \<noteq> None \<and> fst (read_packet cf now ph binary reads c) \<noteq> Diverged"
proof -
  have p: "\<exists>c'. parse_client_queued cf now ph d = Some c'" for d by (rule parse_client_queued_total [OF assms])
  have "fst (read_packet cf now ph binary reads c) \<noteq> Diverged"
  proof (induction reads arbitrary: binary c)
    case (Cons r rs)
    show ?case
    proof (cases r)
      case (Got data)
      let ?c1 = "stamp_read now c"
      let ?b = "binary \<or> lc_status ?c1 = STAT_HANDSHAKE \<or> lc_status ?c1 = STAT_UNKNOWN"
      show ?thesis
      proof (cases "recvq_parse ?b data ?c1")
        case (Inr nc)
        obtain n c2 where nc: "nc = (n, c2)" by (cases nc)
        obtain c4 where "parse_client_queued cf now ph (c2\<lparr>lc_actually_read := lc_actually_read c2 + int n\<rparr>) = Some c4"
          using p by blast
        then show ?thesis using Got Inr nc Cons.IH by (simp add: Let_def)
      qed (simp add: Got Let_def)
    qed simp_all
  qed simp
  then show ?thesis
    using p [of c] flood_recalc_total [OF assms, of cf now c] p unfolding flood_recalc_unknown_def by auto
qed

theorem packet_loops_end_witness:
  "parse_client_queued sample_conf 100 count_lines sample_client \<noteq> None"
  using packet_loops_end [OF ordinary_keeps [OF sample_ok(1)]] by blast

text \<open>
  Excess flood: as long as \<open>read_packet\<close> leaves a connection waiting for more, its queue
  holds at most \<open>client_flood\<close> lines, unless it is a server or an operator that may flood.
\<close>

definition queue_ok :: "packet_conf \<Rightarrow> 'w lclient \<Rightarrow> bool" where
  "queue_ok cf c = (lc_anyserver c \<or> int (length (lc_recvq c)) \<le> pc_client_flood cf \<or> (pc_no_oper_flood cf \<and> lc_oper c))"

theorem read_packet_queue_bound:
  assumes "queue_ok cf c" "read_packet cf now ph binary reads c = (Waiting, c')"
  shows "queue_ok cf c'"
  using assms
proof (induction reads arbitrary: binary c)
  case (Cons r rs)
  show ?case
  proof (cases r)
    case (Got data)
    let ?c1 = "stamp_read now c"
    let ?b = "binary \<or> lc_status ?c1 = STAT_HANDSHAKE \<or> lc_status ?c1 = STAT_UNKNOWN"
    obtain n c2 where c2: "recvq_parse ?b data ?c1 = Inr (n, c2)"
      using Cons.prems(2) Got by (cases "recvq_parse ?b data ?c1") (auto simp: Let_def split: if_splits)
    obtain c4 where c4: "parse_client_queued cf now ph (c2\<lparr>lc_actually_read := lc_actually_read c2 + int n\<rparr>) = Some c4"
      using Cons.prems(2) Got c2 by (auto simp: Let_def split: if_splits option.splits)
    have q: "queue_ok cf c4" and "c' = c4 \<or> read_packet cf now ph ?b rs c4 = (Waiting, c')"
      using Cons.prems(2) Got c2 c4 by (auto simp: Let_def queue_ok_def split: if_splits)
    then show ?thesis using Cons.IH [OF q] by blast
  qed (use Cons.prems in \<open>auto split: if_splits\<close>)
qed simp

theorem read_packet_queue_bound_witness:
  "queue_ok sample_conf (snd (read_packet sample_conf 100 count_lines False [Again] sample_client))"
  by (rule read_packet_queue_bound [of sample_conf sample_client 100 count_lines False "[Again]"])
     (simp_all add: queue_ok_def sample_client_def sample_conf_def)

end
