(* ===== verification/Join.thy ===== *)
theory Join
  imports Mode ModeProps
begin

unbundle bit_operations_syntax

text \<open>
  JOIN and SJOIN (\<open>modules/core/m_join.c\<close>): a user joins a list of channels, \<open>can_join\<close> decides
  about each; servers tell each other of joins with the time stamp of the channel, and the
  older channel keeps its modes. The build without \<open>ENABLE_SERVICES\<close>. Messages are collected in
  the order in which they are sent.
\<close>

record join_env =
  je_mode :: mode_env
  je_from :: "cid \<Rightarrow> cid"
  je_ssl :: "cid \<Rightarrow> bool"
  je_exempt_spambot :: "cid \<Rightarrow> bool"
  je_exempt_jupe :: "cid \<Rightarrow> bool"
  je_splitmode :: bool
  je_no_join_on_split :: bool
  je_no_create_on_split :: bool
  je_disable_fake_channels :: bool

abbreviation je_cfg :: "join_env \<Rightarrow> config" where
  "je_cfg env \<equiv> me_cfg (je_mode env)"

definition LOC_CHANNELLEN :: nat where "LOC_CHANNELLEN = 50"
definition IDLEN :: nat where "IDLEN = 10"

definition IsChannelName :: "cstring \<Rightarrow> bool" where
  "IsChannelName name = (char_at name 0 = CHR ''#'' \<or> char_at name 0 = CHR ''&'')"

text \<open>\<open>rb_strtok_r(s, ",", \<dots>)\<close> called until it returns null: the pieces between commas that are not empty.\<close>

fun comma_split :: "cstring \<Rightarrow> cstring \<Rightarrow> cstring list" where
  "comma_split acc [] = [acc]"
| "comma_split acc (c # s) = (if c = CHR '','' then acc # comma_split [] s else comma_split (acc @ [c]) s)"

definition strtok_commas :: "cstring \<Rightarrow> cstring list" where
  "strtok_commas s = filter (\<lambda>t. t \<noteq> []) (comma_split [] s)"

section \<open>May a client join?\<close>

fun check_channel_name_loc :: "bool \<Rightarrow> cstring \<Rightarrow> bool" where
  "check_channel_name_loc nofake name =
     (name \<noteq> [] \<and> list_all (\<lambda>c. IsChanChar c \<and> \<not> (nofake \<and> IsFakeChanChar c)) name)"

datatype join_error =
  ERR_BANNEDFROMCHAN | ERR_INVITEONLYCHAN | ERR_BADCHANNELKEY | ERR_CHANNELISFULL | ERR_SSLONLYCHAN

text \<open>The buffers \<open>src_host\<close> and \<open>src_iphost\<close>, which the parts of a client's name fit into.\<close>

definition nuh :: "client \<Rightarrow> cstring \<Rightarrow> cstring" where
  "nuh c h = cl_name c @ CHR ''!'' # cl_username c @ CHR ''@'' # h"

text \<open>A negative limit, which only a server can set, is a huge \<open>unsigned long\<close>.\<close>

definition chan_full :: "channel \<Rightarrow> bool" where
  "chan_full ch = (ch_limit ch > 0 \<and> int (chan_member_count ch) \<ge> ch_limit ch)"

definition can_join :: "join_env \<Rightarrow> cid \<Rightarrow> chid \<Rightarrow> cstring option \<Rightarrow> world \<Rightarrow> join_error option" where
  "can_join env source_p chptr key w =
     (let c = client_of w source_p; ch = chan_of w chptr;
          host = nuh c (cl_host c); iphost = nuh c (cl_sockhost c)
      in if fst (is_banned (je_cfg env) chptr source_p None (Some host) (Some iphost) w) = CHFL_BAN
           then Some ERR_BANNEDFROMCHAN
         else if has_flag (ch_mode ch) MODE_INVITEONLY \<and> chptr \<notin> set (cl_invited c) \<and>
                 (\<not> use_invex (je_cfg env) \<or> find (ban_hits host iphost) (ch_invexlist ch) = None)
           then Some ERR_INVITEONLYCHAN
         else if ch_key ch \<noteq> [] \<and> (case key of None \<Rightarrow> True | Some k \<Rightarrow> k = [] \<or> irccmp (ch_key ch) k \<noteq> 0)
           then Some ERR_BADCHANNELKEY
         else if chan_full ch then Some ERR_CHANNELISFULL
         else if use_sslonly (je_cfg env) \<and> has_flag (ch_mode ch) MODE_SSLONLY \<and> \<not> je_ssl env source_p
           then Some ERR_SSLONLYCHAN
         else None)"

definition send_join_error :: "cid \<Rightarrow> join_error \<Rightarrow> cstring \<Rightarrow> msg" where
  "send_join_error source_p e name =
     Numeric source_p
       (case e of ERR_BANNEDFROMCHAN \<Rightarrow> ''ERR_BANNEDFROMCHAN'' | ERR_INVITEONLYCHAN \<Rightarrow> ''ERR_INVITEONLYCHAN''
        | ERR_BADCHANNELKEY \<Rightarrow> ''ERR_BADCHANNELKEY'' | ERR_CHANNELISFULL \<Rightarrow> ''ERR_CHANNELISFULL''
        | ERR_SSLONLYCHAN \<Rightarrow> ''ERR_SSLONLYCHAN'') [name]"

section \<open>JOIN 0\<close>

definition user_prefix :: "client \<Rightarrow> cstring" where
  "user_prefix c = '':'' @ cl_name c @ ''!'' @ cl_username c @ ''@'' @ cl_host c"

definition warn_spambot :: "join_env \<Rightarrow> cid \<Rightarrow> cstring option \<Rightarrow> world \<Rightarrow> msg list \<times> world" where
  "warn_spambot env source_p name w =
     (let (out, c) = check_spambot_warning (je_cfg env) (w_time w) name (client_of w source_p)
      in (out, upd_client source_p (\<lambda>_. c) w))"

fun part_all :: "cid \<Rightarrow> mid list \<Rightarrow> world \<Rightarrow> msg list \<times> world" where
  "part_all source_p [] w = ([], w)"
| "part_all source_p (m # ms) w =
     (let chptr = ms_chptr (mem_of w m);
          told = ToChannel ALL_MEMBERS chptr
            (user_prefix (client_of w source_p) @ '' PART '' @ ch_chname (chan_of w chptr));
          (out, w') = part_all source_p ms (remove_user_from_channel m w)
      in (told # out, w'))"

definition do_join_0 :: "join_env \<Rightarrow> cid \<Rightarrow> cid \<Rightarrow> world \<Rightarrow> msg list \<times> world" where
  "do_join_0 env client_p source_p w =
     (let c = client_of w source_p;
          w1 = (if MyClient c \<and> \<not> cl_flood_done c then flood_endgrace source_p w else w);
          servers = [ToServer client_p CAP_TS6 0 ('':'' @ use_id c @ '' JOIN 0''),
                     ToServer client_p 0 CAP_TS6 ('':'' @ cl_name c @ '' JOIN 0'')];
          (warn, w2) = (if cl_channel c \<noteq> [] \<and> cl_myconnect c \<and> \<not> cl_oper c \<and> \<not> je_exempt_spambot env source_p
                        then warn_spambot env source_p None w1 else ([], w1));
          (parts, w3) = part_all source_p (cl_channel (client_of w2 source_p)) w2
      in (servers @ warn @ parts, w3))"

section \<open>JOIN\<close>

text \<open>
  The first loop: which names of the list are kept in \<open>jbuf\<close>. The warning to operators is given
  without the reason of the reservation.
\<close>

record jlist =
  jl_jbuf :: cstring
  jl_resvs :: resvs
  jl_out :: "msg list"

definition strlcat :: "cstring \<Rightarrow> cstring \<Rightarrow> nat \<Rightarrow> cstring" where
  "strlcat dst src siz = dst @ take (siz - 1 - length dst) src"

definition on_split :: "join_env \<Rightarrow> client \<Rightarrow> cstring \<Rightarrow> bool" where
  "on_split env c name = (je_splitmode env \<and> \<not> cl_oper c \<and> char_at name 0 \<noteq> CHR ''&'')"

definition join_name :: "join_env \<Rightarrow> world \<Rightarrow> cid \<Rightarrow> bool \<Rightarrow> cstring \<Rightarrow> jlist \<Rightarrow> jlist" where
  "join_name env w source_p first name j =
     (let c = client_of w source_p;
          say = (\<lambda>e. j\<lparr>jl_out := jl_out j @ [Numeric source_p e [name]]\<rparr>)
      in if \<not> check_channel_name_loc (je_disable_fake_channels env \<and> \<not> cl_oper c) name \<or> length name > LOC_CHANNELLEN
           then say ''ERR_BADCHANNAME''
         else if name = ''0'' \<and> first then j\<lparr>jl_jbuf := ''0''\<rparr>
         else if \<not> IsChannelName name then say ''ERR_NOSUCHCHANNEL''
         else
           let (hit, rv) = (if cl_exemptresv c then (None, jl_resvs j) else hash_find_resv name (jl_resvs j))
           in case hit of
                Some aconf \<Rightarrow>
                  (say ''ERR_BADCHANNAME'')
                    \<lparr>jl_resvs := (if \<not> (\<not> je_exempt_jupe env source_p \<and> \<not> cl_oper c) \<and> je_exempt_jupe env source_p
                        then rv\<lparr>rv_port := (rv_port rv)(aconf := rv_port rv aconf - 1)\<rparr> else rv),
                     jl_out := jl_out j @ Numeric source_p ''ERR_BADCHANNAME'' [name] #
                       (if \<not> je_exempt_jupe env source_p \<and> \<not> cl_oper c
                        then [ToOpers (''User '' @ cl_name c @ '' ('' @ cl_username c @ ''@'' @ cl_host c @
                                '') is attempting to join locally juped channel '' @ name)] else [])\<rparr>
              | None \<Rightarrow>
                  if on_split env c name \<and> je_no_join_on_split env
                  then (say ''ERR_UNAVAILRESOURCE'')\<lparr>jl_resvs := rv\<rparr>
                  else j\<lparr>jl_resvs := rv,
                         jl_jbuf := strlcat (if jl_jbuf j \<noteq> [] then jl_jbuf j @ '','' else jl_jbuf j) name IRCD_BUFSIZE\<rparr>)"

fun join_names :: "join_env \<Rightarrow> world \<Rightarrow> cid \<Rightarrow> bool \<Rightarrow> cstring list \<Rightarrow> jlist \<Rightarrow> jlist" where
  "join_names env w source_p first [] j = j"
| "join_names env w source_p first (n # ns) j =
     join_names env w source_p False ns (join_name env w source_p first n j)"

text \<open>The messages and changes once \<open>can_join\<close> said yes.\<close>

definition set_last_join :: "cid \<Rightarrow> world \<Rightarrow> world" where
  "set_last_join source_p w = upd_client source_p (\<lambda>c. c\<lparr>cl_last_join_time := w_time w\<rparr>) w"

definition topic_replies :: "cid \<Rightarrow> channel \<Rightarrow> msg list" where
  "topic_replies source_p ch =
     (case ch_topic ch of
        None \<Rightarrow> []
      | Some t \<Rightarrow> [Numeric source_p ''RPL_TOPIC'' [ch_chname ch, tp_topic t],
                   Numeric source_p ''RPL_TOPICWHOTIME'' [ch_chname ch, tp_topic_info t, string_of_int (tp_topic_time t)]])"

definition do_join :: "join_env \<Rightarrow> cid \<Rightarrow> cid \<Rightarrow> chid \<Rightarrow> 32 word \<Rightarrow> world \<Rightarrow> msg list \<times> world" where
  "do_join env client_p source_p chptr flags w =
     (let c = client_of w source_p; meC = client_of w me;
          w1 = add_user_to_channel chptr source_p flags w;
          opped = has_flag flags CHFL_CHANOP;
          w2 = (if opped then upd_chan chptr (\<lambda>ch. ch\<lparr>ch_channelts := w_time w,
                  ch_mode := ch_mode ch OR MODE_TOPICLIMIT OR MODE_NOPRIVMSGS\<rparr>) w1 else w1);
          ch = chan_of w2 chptr; ts = string_of_int (ch_channelts ch); name = ch_chname ch;
          join = [ToChannel ALL_MEMBERS chptr (user_prefix c @ '' JOIN :'' @ name)];
          burst =
            (if opped then
               ToChannel ONLY_CHANOPS chptr ('':'' @ cl_name meC @ '' MODE '' @ name @ '' +nt'') #
               (if char_at name 0 = CHR ''#'' then
                  [ToServer client_p CAP_TS6 0 ('':'' @ cl_id meC @ '' SJOIN '' @ ts @ '' '' @ name @ '' +nt :@'' @ cl_id c),
                   ToServer client_p 0 CAP_TS6 ('':'' @ cl_name meC @ '' SJOIN '' @ ts @ '' '' @ name @ '' +nt :@'' @ cl_name c)]
                else [])
             else
               [ToServer client_p CAP_TS6 0 ('':'' @ use_id c @ '' JOIN '' @ ts @ '' '' @ name @ '' +''),
                ToServer client_p 0 CAP_TS6 ('':'' @ cl_name meC @ '' SJOIN '' @ ts @ '' '' @ name @ '' + :'' @ cl_name c)]);
          w3 = del_invite chptr source_p w2
      in (join @ burst @ topic_replies source_p (chan_of w3 chptr) @ channel_member_names w3 chptr source_p True, w3))"

definition too_many_channels :: "config \<Rightarrow> client \<Rightarrow> bool" where
  "too_many_channels cfg c =
     (length (cl_channel c) \<ge> max_chans_per_user cfg \<and>
      (\<not> cl_oper c \<or> length (cl_channel c) \<ge> max_chans_per_user cfg * 3))"

text \<open>The last part of a turn, once there is a channel.\<close>

definition join_last :: "join_env \<Rightarrow> cid \<Rightarrow> cid \<Rightarrow> cstring \<Rightarrow> cstring option \<Rightarrow> nat \<Rightarrow> 32 word \<Rightarrow> chid \<Rightarrow> world \<Rightarrow>
    bool \<times> nat \<times> msg list \<times> world" where
  "join_last env client_p source_p name key joined1 flags chptr w1 =
     (let (warn, w2) = (if \<not> cl_oper (client_of w1 source_p) \<and> \<not> je_exempt_spambot env source_p
             then warn_spambot env source_p (Some name) w1 else ([], w1))
      in case can_join env source_p chptr key w2 of
           Some e \<Rightarrow> (False, joined1 - 1, warn @ [send_join_error source_p e name], w2)
         | None \<Rightarrow>
             let (out, w3) = do_join env client_p source_p chptr flags w2
             in (False, joined1, warn @ out, if joined1 > 0 then set_last_join source_p w3 else w3))"

text \<open>
  One turn of the second loop: whether the function returned, the count of joins, the
  messages and the world.
\<close>

definition join_one ::
  "join_env \<Rightarrow> cid \<Rightarrow> cid \<Rightarrow> cstring \<Rightarrow> cstring option \<Rightarrow> nat \<Rightarrow> world \<Rightarrow> bool \<times> nat \<times> msg list \<times> world" where
  "join_one env client_p source_p name key joined w =
     (let c = client_of w source_p
      in if char_at name 0 = CHR ''0'' \<and> atoi name = 0 then
           (if cl_channel c = [] then (False, joined, [], w)
            else let (out, w') = do_join_0 env me source_p w in (False, joined, out, w'))
         else
           let found = find_channel w name
           in if (case found of Some ch \<Rightarrow> IsMember w source_p ch | None \<Rightarrow> False) then (False, joined, [], w)
              else if found = None \<and> on_split env c name \<and> je_no_create_on_split env
              then (False, joined, [Numeric source_p ''ERR_UNAVAILRESOURCE'' [name]], w)
              else
                let flags = (case found of
                      Some ch \<Rightarrow> if chan_member_count (chan_of w ch) = 0 then CHFL_CHANOP else 0 | None \<Rightarrow> CHFL_CHANOP)
                in if too_many_channels (je_cfg env) c then
                     (True, joined, [Numeric source_p ''ERR_TOOMANYCHANNELS'' [name]],
                      if joined > 0 then set_last_join source_p w else w)
                   else
                     let joined1 = (if flags = 0 then joined + 1 else joined);
                         (created, w1) = (case found of Some ch \<Rightarrow> (Some ch, w)
                            | None \<Rightarrow> (case get_or_create_channel name w of (r, _, w') \<Rightarrow> (r, w')))
                     in case created of
                          None \<Rightarrow> (False, joined1 - 1, [Numeric source_p ''ERR_UNAVAILRESOURCE'' [name]], w1)
                        | Some chptr \<Rightarrow> join_last env client_p source_p name key joined1 flags chptr w1)"

fun join_list ::
  "join_env \<Rightarrow> cid \<Rightarrow> cid \<Rightarrow> cstring list \<Rightarrow> cstring list \<Rightarrow> nat \<Rightarrow> world \<Rightarrow> msg list \<times> world" where
  "join_list env client_p source_p [] keys joined w = ([], w)"
| "join_list env client_p source_p (n # ns) keys joined w =
     (let (ret, joined', out, w') =
            join_one env client_p source_p n (case keys of [] \<Rightarrow> None | k # _ \<Rightarrow> Some k) joined w
      in if ret then (out, w')
         else let (out', w'') = join_list env client_p source_p ns (tl keys) joined' w' in (out @ out', w''))"

definition m_join ::
  "join_env \<Rightarrow> cid \<Rightarrow> cid \<Rightarrow> cstring list \<Rightarrow> resvs \<Rightarrow> world \<Rightarrow> msg list \<times> resvs \<times> world" where
  "m_join env client_p source_p parv rv w =
     (let j = join_names env w source_p (char_at (parv ! 1) 0 \<noteq> CHR '','') (strtok_commas (parv ! 1))
                \<lparr>jl_jbuf = [], jl_resvs = rv, jl_out = []\<rparr>;
          keys = (if length parv > 2 then strtok_commas (parv ! 2) else []);
          (out, w') = join_list env client_p source_p (strtok_commas (jl_jbuf j)) keys 0 w
      in (jl_out j @ out, jl_resvs j, w'))"

section \<open>Time stamps\<close>

text \<open>\<open>struct Mode\<close>.\<close>

record chmode =
  cm_mode :: "32 word"
  cm_limit :: int
  cm_key :: cstring

definition mode_of :: "channel \<Rightarrow> chmode" where
  "mode_of ch = \<lparr>cm_mode = ch_mode ch, cm_limit = ch_limit ch, cm_key = ch_key ch\<rparr>"

definition set_chmode :: "chmode \<Rightarrow> channel \<Rightarrow> channel" where
  "set_chmode m ch = ch\<lparr>ch_mode := cm_mode m, ch_limit := cm_limit m, ch_key := cm_key m\<rparr>"

definition empty_mode :: chmode where
  "empty_mode = \<lparr>cm_mode = 0, cm_limit = 0, cm_key = []\<rparr>"

text \<open>The new time stamp, \<open>keep_our_modes\<close> and \<open>keep_new_modes\<close>.\<close>

definition ts_rule :: "bool \<Rightarrow> int \<Rightarrow> int \<Rightarrow> int \<times> bool \<times> bool" where
  "ts_rule isnew newts oldts =
     (if isnew then (newts, True, True)
      else if newts = 0 \<or> oldts = 0 then (0, True, True)
      else if newts = oldts then (oldts, True, True)
      else if newts < oldts then (newts, False, True)
      else (oldts, True, False))"

definition ts_notice :: "world \<Rightarrow> chid \<Rightarrow> int \<Rightarrow> int \<Rightarrow> msg" where
  "ts_notice w chptr oldts newts =
     (let name = ch_chname (chan_of w chptr)
      in ToChannel ALL_MEMBERS chptr ('':'' @ cl_name (client_of w me) @ '' NOTICE '' @ name @
           '' :*** Notice -- TS for '' @ name @ '' changed from '' @ string_of_int oldts @ '' to '' @ string_of_int newts))"

definition ts0_notices :: "world \<Rightarrow> cid \<Rightarrow> chid \<Rightarrow> bool \<Rightarrow> int \<Rightarrow> int \<Rightarrow> msg list" where
  "ts0_notices w source_p chptr isnew newts oldts =
     (if \<not> isnew \<and> newts = 0 \<and> oldts \<noteq> 0 then
        [ts_notice w chptr oldts 0,
         ToOpers (''Server '' @ cl_name (client_of w source_p) @ '' changing TS on '' @
           ch_chname (chan_of w chptr) @ '' from '' @ string_of_int oldts @ '' to 0'')]
      else [])"

definition long_name_notice :: "world \<Rightarrow> cid \<Rightarrow> cstring \<Rightarrow> msg list" where
  "long_name_notice w client_p s =
     (if length s > CHANNELLEN \<and> IsServer (client_of w client_p) then
        [ToOpers (''*** Long channel name from '' @ cl_name (client_of w client_p) @ '' ('' @
           string_of_nat (length s) @ '' > '' @ string_of_nat CHANNELLEN @ ''): '' @ s)]
      else [])"

section \<open>Telling the channel of its final modes\<close>

definition mode_flags :: "(32 word \<times> char) list" where
  "mode_flags = [(MODE_NOPRIVMSGS, CHR ''n''), (MODE_TOPICLIMIT, CHR ''t''), (MODE_SECRET, CHR ''s''),
     (MODE_MODERATED, CHR ''m''), (MODE_INVITEONLY, CHR ''i''), (MODE_PRIVATE, CHR ''p''), (MODE_SSLONLY, CHR ''S'')]"

text \<open>The direction last written, \<open>lmodebuf\<close> and \<open>lparabuf\<close>.\<close>

type_synonym fm_state = "dir \<times> cstring \<times> cstring"

definition fm_put :: "dir \<Rightarrow> char \<Rightarrow> cstring \<Rightarrow> fm_state \<Rightarrow> fm_state" where
  "fm_put d c para st =
     (case st of (dir, mbuf, pbuf) \<Rightarrow>
        (d, mbuf @ (if dir \<noteq> d then (if d = MODE_ADD then ''+'' else ''-'') else []) @ [c],
         pbuf @ (if para = [] then [] else para @ '' '')))"

definition fm_when :: "bool \<Rightarrow> ('a \<Rightarrow> 'a) \<Rightarrow> 'a \<Rightarrow> 'a" where
  "fm_when b f x = (if b then f x else x)"

definition final_mode_text :: "chmode \<Rightarrow> chmode \<Rightarrow> fm_state" where
  "final_mode_text m old =
     (let adds = fold (\<lambda>(f, c). fm_when (has_flag (cm_mode m) f \<and> \<not> has_flag (cm_mode old) f) (fm_put MODE_ADD c [])) mode_flags;
          dels = fold (\<lambda>(f, c). fm_when (has_flag (cm_mode old) f \<and> \<not> has_flag (cm_mode m) f) (fm_put MODE_DEL c [])) mode_flags;
          unlimit = fm_when (cm_limit old \<noteq> 0 \<and> cm_limit m = 0) (fm_put MODE_DEL (CHR ''l'') []);
          unkey = fm_when (cm_key old \<noteq> [] \<and> cm_key m = []) (fm_put MODE_DEL (CHR ''k'') (cm_key old));
          limit = fm_when (cm_limit m \<noteq> 0 \<and> cm_limit old \<noteq> cm_limit m) (fm_put MODE_ADD (CHR ''l'') (string_of_int (cm_limit m)));
          key = fm_when (cm_key m \<noteq> [] \<and> cm_key old \<noteq> cm_key m) (fm_put MODE_ADD (CHR ''k'') (cm_key m))
      in key (limit (unkey (unlimit (dels (adds (MODE_QUERY, [], [])))))))"

definition set_final_mode :: "world \<Rightarrow> cid \<Rightarrow> chid \<Rightarrow> chmode \<Rightarrow> chmode \<Rightarrow> msg list" where
  "set_final_mode w source_p chptr m old =
     (case final_mode_text m old of (_, mbuf, pbuf) \<Rightarrow>
        if mbuf = [] then []
        else [ToChannel ALL_MEMBERS chptr ('':'' @ cl_name (client_of w source_p) @ '' MODE '' @
                ch_chname (chan_of w chptr) @ '' '' @ mbuf @ (if pbuf = [] then [] else '' '' @ butlast pbuf))])"

section \<open>Taking our own modes away\<close>

text \<open>
  \<open>remove_our_modes\<close>. The state is the world, the messages, and what is collected for the next
  message: letters and names. A full line is sent and, in that case, the loop variable \<open>i\<close> of
  the loop over the two member lists is overwritten: \<open>rm_sent\<close>.
\<close>

record rm_state =
  rm_world :: world
  rm_out :: "msg list"
  rm_letters :: cstring
  rm_para :: "cstring list"
  rm_sent :: bool

definition pad4 :: "cstring list \<Rightarrow> cstring" where
  "pad4 ps = concat (map (\<lambda>p. '' '' @ p) (take 4 (ps @ replicate 4 [])))"

definition rm_line :: "chid \<Rightarrow> rm_state \<Rightarrow> msg" where
  "rm_line chptr s =
     ToChannel ALL_MEMBERS chptr ('':'' @ cl_name (client_of (rm_world s) me) @ '' MODE '' @
       ch_chname (chan_of (rm_world s) chptr) @ '' -'' @ rm_letters s @ pad4 (rm_para s))"

definition rm_flush :: "chid \<Rightarrow> rm_state \<Rightarrow> rm_state" where
  "rm_flush chptr s =
     (if length (rm_para s) \<ge> MAXMODEPARAMS
      then s\<lparr>rm_out := rm_out s @ [rm_line chptr s], rm_letters := [], rm_para := [], rm_sent := True\<rparr> else s)"

definition rm_put :: "mid \<Rightarrow> char \<Rightarrow> rm_state \<Rightarrow> rm_state" where
  "rm_put m c s =
     s\<lparr>rm_letters := rm_letters s @ [c],
       rm_para := rm_para s @ [cl_name (client_of (rm_world s) (ms_client_p (mem_of (rm_world s) m)))]\<rparr>"

definition rm_flag :: "mid \<Rightarrow> 32 word \<Rightarrow> rm_state \<Rightarrow> rm_state" where
  "rm_flag m f s = s\<lparr>rm_world := upd_mem m (\<lambda>ms. ms\<lparr>ms_flags := ms_flags ms AND NOT f\<rparr>) (rm_world s)\<rparr>"

text \<open>A member of the list of non-operators, none of which has operator status.\<close>

definition rm_voice :: "chid \<Rightarrow> mid \<Rightarrow> rm_state \<Rightarrow> rm_state" where
  "rm_voice chptr m s =
     (if is_voiced (mem_of (rm_world s) m) then rm_flush chptr (rm_put m (CHR ''v'') (rm_flag m CHFL_VOICE s)) else s)"

text \<open>
  An operator: \<open>rb_dlinkMoveNode\<close> puts its node at the head of the other list.
\<close>

definition rm_op :: "chid \<Rightarrow> mid \<Rightarrow> rm_state \<Rightarrow> rm_state" where
  "rm_op chptr m s =
     (let s1 = rm_put m (CHR ''o'') (rm_flag m CHFL_CHANOP s);
          s2 = s1\<lparr>rm_world := upd_chan chptr
                 (\<lambda>ch. ch\<lparr>ch_ops := remove1 m (ch_ops ch), ch_noops := m # ch_noops ch\<rparr>) (rm_world s1)\<rparr>;
          s3 = (if is_voiced (mem_of (rm_world s2) m)
                then rm_put m (CHR ''v'') (rm_flag m CHFL_VOICE (rm_flush chptr s2)) else s2)
      in rm_flush chptr s3)"

text \<open>
  The loop over the operators goes on with \<open>ptr->next\<close>, and the node of an operator is
  by then the first of the list of the others: the walk continues there.
\<close>

fun rm_ops :: "chid \<Rightarrow> mid list \<Rightarrow> rm_state \<Rightarrow> rm_state" where
  "rm_ops chptr [] s = s"
| "rm_ops chptr (m # ms) s =
     (if is_chanop (mem_of (rm_world s) m)
      then fold (rm_voice chptr) (ch_noops (chan_of (rm_world s) chptr)) (rm_op chptr m s)
      else rm_ops chptr ms (rm_voice chptr m s))"

definition remove_our_modes :: "chid \<Rightarrow> world \<Rightarrow> msg list \<times> world" where
  "remove_our_modes chptr w =
     (let s0 = \<lparr>rm_world = w, rm_out = [], rm_letters = [], rm_para = [], rm_sent = False\<rparr>;
          s1 = fold (rm_voice chptr) (ch_noops (chan_of w chptr)) s0;
          s2 = (if rm_sent s1 then s1 else rm_ops chptr (ch_ops (chan_of (rm_world s1) chptr)) s1)
      in (rm_out s2 @ (if rm_para s2 \<noteq> [] then [rm_line chptr s2] else []), rm_world s2))"

text \<open>
  \<open>remove_ban_list\<close>: \<open>lmodebuf\<close> behind its prefix, \<open>lparabuf\<close>, the number of bans in the line.
\<close>

fun ban_lines ::
  "cstring \<Rightarrow> char \<Rightarrow> cstring list \<Rightarrow> cstring \<Rightarrow> cstring \<Rightarrow> nat \<Rightarrow> nat \<Rightarrow> cstring list" where
  "ban_lines pre c [] mbuf pbuf curlen count = [pre @ mbuf @ '' '' @ butlast pbuf]"
| "ban_lines pre c (b # bs) mbuf pbuf curlen count =
     (let plen = length b + 2
      in if count \<ge> MAXMODEPARAMS \<or> curlen + plen > IRCD_BUFSIZE - 4
         then (pre @ mbuf @ '' '' @ butlast pbuf) # ban_lines pre c bs [c] (b @ '' '') (length pre + plen) 1
         else ban_lines pre c bs (mbuf @ [c]) (pbuf @ b @ '' '') (curlen + plen) (count + 1))"

definition remove_ban_list ::
  "world \<Rightarrow> chid \<Rightarrow> cid \<Rightarrow> ban list \<Rightarrow> char \<Rightarrow> 32 word \<Rightarrow> 32 word \<Rightarrow> msg list" where
  "remove_ban_list w chptr source_p bans c cap mems =
     (let pre = '':'' @ cl_name (client_of w source_p) @ '' MODE '' @ ch_chname (chan_of w chptr) @ '' -''
      in concat (map (\<lambda>l. [ToChannel mems chptr l, ToServer source_p cap CAP_TS6 l])
           (ban_lines pre c (map ban_banstr bans) [] [] (length pre) 0)))"

section \<open>Joins from servers\<close>

text \<open>The channel gets its time stamp; if the other side wins, it loses the modes of its members.\<close>

definition ts_settle :: "chid \<Rightarrow> int \<Rightarrow> bool \<Rightarrow> int \<Rightarrow> int \<Rightarrow> world \<Rightarrow> msg list \<times> world" where
  "ts_settle chptr ts ours oldts newts w =
     (let w1 = upd_chan chptr (\<lambda>ch. ch\<lparr>ch_channelts := ts\<rparr>) w
      in if ours then ([], w1)
         else let (out, v) = remove_our_modes chptr w1 in (out @ [ts_notice v chptr oldts newts], v))"

definition ms_join :: "join_env \<Rightarrow> cid \<Rightarrow> cid \<Rightarrow> cstring list \<Rightarrow> world \<Rightarrow> msg list \<times> world" where
  "ms_join env client_p source_p parv w =
     (if parv ! 1 = ''0'' \<and> length parv = 2 then do_join_0 env client_p source_p w
      else if length parv < 4 then ([], w)
      else if \<not> IsChannelName (parv ! 2) \<or> \<not> check_channel_name (parv ! 2) then ([], w)
      else if char_at (parv ! 2) 0 = CHR ''&'' then ([], w)
      else
        case get_or_create_channel (parv ! 2) w of
          (None, _, w1) \<Rightarrow> ([], w1)
        | (Some chptr, isnew, w1) \<Rightarrow>
            let newts = strtol10 (parv ! 1); oldts = ch_channelts (chan_of w1 chptr);
                (ts, ours, news) = ts_rule isnew newts oldts;
                (lost, w2) = ts_settle chptr ts ours oldts newts w1;
                told = (if ours then [] else set_final_mode w2 (cl_servptr (client_of w2 source_p)) chptr empty_mode (mode_of (chan_of w2 chptr)));
                w3 = (if ours then w2 else upd_chan chptr (set_chmode empty_mode) w2);
                c = client_of w3 source_p; name = ch_chname (chan_of w3 chptr);
                (joins, w4) =
                  (if IsMember w3 source_p chptr then ([], w3)
                   else ([ToChannel ALL_MEMBERS chptr (user_prefix c @ '' JOIN :'' @ name)],
                         add_user_to_channel chptr source_p CHFL_PEON w3))
            in (long_name_notice w source_p (parv ! 2) @ ts0_notices w1 source_p chptr isnew newts oldts @ lost @ told @ joins @
                [ToServer client_p CAP_TS6 0 ('':'' @ cl_id c @ '' JOIN '' @ string_of_int ts @ '' '' @ name @ '' +''),
                 ToServer client_p 0 CAP_TS6 ('':'' @ cl_name (client_of w3 (cl_servptr c)) @ '' SJOIN '' @ string_of_int ts @
                   '' '' @ name @ '' '' @ (if news then ''+'' else ''0'') @ '' :'' @ cl_name c)],
                w4))"

section \<open>SJOIN\<close>

text \<open>The letters of \<open>parv[3]\<close>: the modes and the number of arguments used; \<open>None\<close> is a return.\<close>

definition sjoin_flag :: "char \<Rightarrow> 32 word" where
  "sjoin_flag c =
     (if c = CHR ''i'' then MODE_INVITEONLY else if c = CHR ''n'' then MODE_NOPRIVMSGS
      else if c = CHR ''p'' then MODE_PRIVATE else if c = CHR ''s'' then MODE_SECRET
      else if c = CHR ''m'' then MODE_MODERATED else if c = CHR ''t'' then MODE_TOPICLIMIT
      else if c = CHR ''S'' then MODE_SSLONLY else 0)"

fun sjoin_modes :: "cstring list \<Rightarrow> cstring \<Rightarrow> nat \<Rightarrow> chmode \<Rightarrow> (nat \<times> chmode) option" where
  "sjoin_modes parv [] args m = Some (args, m)"
| "sjoin_modes parv (c # s) args m =
     (if c = CHR ''k'' \<or> c = CHR ''l'' then
        (let a = parv ! (4 + args);
             m' = (if c = CHR ''k'' then m\<lparr>cm_key := strlcpy a KEYLEN\<rparr> else m\<lparr>cm_limit := atoi a\<rparr>)
         in if length parv < 5 + (args + 1) then None else sjoin_modes parv s (args + 1) m')
      else sjoin_modes parv s args (m\<lparr>cm_mode := cm_mode m OR sjoin_flag c\<rparr>))"

text \<open>\<open>strcmp(a, b) < 0\<close>.\<close>

fun strcmp_less :: "cstring \<Rightarrow> cstring \<Rightarrow> bool" where
  "strcmp_less a [] = False"
| "strcmp_less [] (y # b) = True"
| "strcmp_less (x # a) (y # b) =
     ((of_char x :: nat) < of_char y \<or> x = y \<and> strcmp_less a b)"

text \<open>The modes both sides end up with.\<close>

definition merge_modes :: "bool \<Rightarrow> bool \<Rightarrow> chmode \<Rightarrow> chmode \<Rightarrow> chmode" where
  "merge_modes ours news m old =
     (if \<not> news then old
      else if ours then
        \<lparr>cm_mode = cm_mode m OR cm_mode old,
         cm_limit = (if cm_limit old > cm_limit m then cm_limit old else cm_limit m),
         cm_key = (if strcmp_less (cm_key m) (cm_key old) then cm_key old else cm_key m)\<rparr>
      else m)"

fun nick_tokens :: "nat \<Rightarrow> cstring \<Rightarrow> cstring list" where
  "nick_tokens 0 s = []"
| "nick_tokens (Suc n) s =
     (case strchr_cut SPC s of
        None \<Rightarrow> [s]
      | Some (a, b) \<Rightarrow> a # (if b = [] then [] else nick_tokens n b))"

definition nick_flag :: "cstring \<times> 32 word \<Rightarrow> cstring \<times> 32 word" where
  "nick_flag p =
     (case p of (s, fl) \<Rightarrow>
        if char_at s 0 = CHR ''@'' then (tl s, fl OR CHFL_CHANOP)
        else if char_at s 0 = CHR ''+'' then (tl s, fl OR CHFL_VOICE) else (s, fl))"

text \<open>The two buffers, behind their prefixes, and the modes collected for the channel.\<close>

record sj_state =
  sj_world :: world
  sj_out :: "msg list"
  sj_nick :: cstring
  sj_uid :: cstring
  sj_letters :: cstring
  sj_para :: "cstring list"
  sj_joins :: nat

definition sj_line :: "cid \<Rightarrow> chid \<Rightarrow> sj_state \<Rightarrow> msg" where
  "sj_line source_p chptr s =
     ToChannel ALL_MEMBERS chptr ('':'' @ cl_name (client_of (sj_world s) source_p) @ '' MODE '' @
       ch_chname (chan_of (sj_world s) chptr) @ '' +'' @ sj_letters s @ pad4 (sj_para s))"

definition sj_flush :: "cid \<Rightarrow> chid \<Rightarrow> sj_state \<Rightarrow> sj_state" where
  "sj_flush source_p chptr s =
     (if length (sj_para s) \<ge> MAXMODEPARAMS
      then s\<lparr>sj_out := sj_out s @ [sj_line source_p chptr s], sj_letters := [], sj_para := []\<rparr> else s)"

definition sj_put :: "char \<Rightarrow> cstring \<Rightarrow> sj_state \<Rightarrow> sj_state" where
  "sj_put c name s = s\<lparr>sj_letters := sj_letters s @ [c], sj_para := sj_para s @ [name]\<rparr>"

definition sj_modes :: "cid \<Rightarrow> chid \<Rightarrow> 32 word \<Rightarrow> cstring \<Rightarrow> sj_state \<Rightarrow> sj_state" where
  "sj_modes source_p chptr fl name s =
     sj_flush source_p chptr
       (if has_flag fl CHFL_CHANOP then
          (let s1 = sj_put (CHR ''o'') name s
           in if has_flag fl CHFL_VOICE then sj_put (CHR ''v'') name (sj_flush source_p chptr s1) else s1)
        else if has_flag fl CHFL_VOICE then sj_put (CHR ''v'') name s
        else s)"

text \<open>
  Room for one more name: the buffer is sent without its last byte and starts anew. \<open>mlen\<close> is
  the length of the prefix.
\<close>

definition sj_room :: "nat \<Rightarrow> nat \<Rightarrow> (cstring \<Rightarrow> msg) \<Rightarrow> cstring \<Rightarrow> cstring \<Rightarrow> msg list \<times> cstring" where
  "sj_room mlen n send pre buf =
     (if mlen + length buf + n + 3 > IRCD_BUFSIZE - 3 then ([send (butlast (pre @ buf))], []) else ([], buf))"

definition sj_nickname ::
  "join_env \<Rightarrow> cid \<Rightarrow> cid \<Rightarrow> chid \<Rightarrow> cstring \<Rightarrow> cstring \<Rightarrow> cstring \<Rightarrow> bool \<Rightarrow> cstring \<Rightarrow> sj_state \<Rightarrow> fault + sj_state" where
  "sj_nickname env client_p source_p chptr chname pre_nick pre_uid news tok s =
     (let (nick, fl) = nick_flag (nick_flag (tok, 0)); w = sj_world s
      in case find_client (je_mode env) nick of
           None \<Rightarrow> Inr s
         | Some target_p \<Rightarrow>
             if je_from env target_p \<noteq> client_p \<or> \<not> IsClient (client_of w target_p) then Inr s
             else
               let t = client_of w target_p; link = je_from env client_p;
                   (out1, bn) = sj_room (length pre_nick) NICKLEN (ToServer link 0 CAP_TS6) pre_nick (sj_nick s);
                   (out2, bu) = sj_room (length pre_uid) IDLEN (ToServer link CAP_TS6 0) pre_uid (sj_uid s);
                   marks = (if news then (if has_flag fl CHFL_CHANOP then ''@'' else []) @
                                         (if has_flag fl CHFL_VOICE then ''+'' else []) else []);
                   bn' = bn @ marks @ cl_name t @ '' ''; bu' = bu @ marks @ use_id t @ '' '';
                   fl' = (if news then fl else if has_flag fl CHFL_CHANOP then CHFL_DEOPPED else 0);
                   member = IsMember w target_p chptr;
                   s1 = s\<lparr>sj_nick := bn', sj_uid := bu',
                          sj_world := (if member then w else add_user_to_channel chptr target_p fl' w),
                          sj_out := sj_out s @ out1 @ out2 @
                            (if member then [] else [ToChannel ALL_MEMBERS chptr (user_prefix t @ '' JOIN :'' @ chname)]),
                          sj_joins := (if member then sj_joins s else sj_joins s + 1)\<rparr>
               in if length (pre_nick @ bn') \<ge> IRCD_BUFSIZE \<or> length (pre_uid @ bu') \<ge> IRCD_BUFSIZE
                  then Inl BufOverflow
                  else Inr (sj_modes source_p chptr fl' (cl_name t) s1))"

fun sj_nicks ::
  "join_env \<Rightarrow> cid \<Rightarrow> cid \<Rightarrow> chid \<Rightarrow> cstring \<Rightarrow> cstring \<Rightarrow> cstring \<Rightarrow> bool \<Rightarrow> cstring list \<Rightarrow> sj_state \<Rightarrow> fault + sj_state" where
  "sj_nicks env client_p source_p chptr chname pn pu news [] s = Inr s"
| "sj_nicks env client_p source_p chptr chname pn pu news (t # ts) s =
     and_then (sj_nickname env client_p source_p chptr chname pn pu news t s)
       (sj_nicks env client_p source_p chptr chname pn pu news ts)"

definition remove_bans :: "world \<Rightarrow> chid \<Rightarrow> cid \<Rightarrow> msg list \<times> world" where
  "remove_bans w chptr source_p =
     (let ch = chan_of w chptr;
          lines = (\<lambda>l c cap mems. if l = [] then [] else remove_ban_list w chptr source_p l c cap mems)
      in (lines (ch_banlist ch) (CHR ''b'') 0 ALL_MEMBERS @ lines (ch_exceptlist ch) (CHR ''e'') CAP_EX ONLY_CHANOPS @
          lines (ch_invexlist ch) (CHR ''I'') CAP_IE ONLY_CHANOPS,
          upd_chan chptr (\<lambda>ch. ch\<lparr>ch_banlist := [], ch_exceptlist := [], ch_invexlist := [],
            ch_ban_serial := ch_ban_serial ch + 1\<rparr>) w))"

text \<open>After the last name: the modes still collected, the message to the other servers, and the bans.\<close>

definition sjoin_end ::
  "join_env \<Rightarrow> cid \<Rightarrow> cid \<Rightarrow> chid \<Rightarrow> bool \<Rightarrow> bool \<Rightarrow> cstring \<Rightarrow> cstring \<Rightarrow> sj_state \<Rightarrow> msg list \<times> world" where
  "sjoin_end env client_p source_p chptr isnew ours pn pu s =
     (let out = sj_out s @ (if sj_para s \<noteq> [] then [sj_line source_p chptr s] else []); w = sj_world s; link = je_from env client_p
      in if sj_joins s = 0 then (out, if isnew then destroy_channel chptr w else w)
         else
           let sent = out @ [ToServer link CAP_TS6 0 (butlast (pu @ sj_uid s)), ToServer link 0 CAP_TS6 (butlast (pn @ sj_nick s))]
           in if \<not> ours \<and> cl_id (client_of w source_p) \<noteq> []
              then (let (bans, w') = remove_bans w chptr source_p in (sent @ bans, w'))
              else (sent, w))"

text \<open>The part of \<open>ms_sjoin\<close> after the channel was found or created.\<close>

definition sjoin_channel ::
  "join_env \<Rightarrow> cid \<Rightarrow> cid \<Rightarrow> cstring list \<Rightarrow> chmode \<Rightarrow> cstring \<Rightarrow> chid \<Rightarrow> bool \<Rightarrow> world \<Rightarrow> fault + (msg list \<times> world)" where
  "sjoin_channel env client_p source_p parv m nicks chptr isnew w =
     (let newts = strtol10 (parv ! 1); oldts = ch_channelts (chan_of w chptr); old = mode_of (chan_of w chptr);
          (ts, ours, news) = ts_rule isnew newts oldts;
          final = merge_modes ours news m old;
          (lost, w2) = ts_settle chptr ts ours oldts newts w;
          told = set_final_mode w2 source_p chptr final old;
          w3 = upd_chan chptr (set_chmode final) w2;
          modes = (if char_at (parv ! 3) 0 \<noteq> CHR ''0'' \<and> news then channel_modes w3 chptr source_p else ''0'');
          src = client_of w3 source_p;
          pre = (\<lambda>n. '':'' @ n @ '' SJOIN '' @ string_of_int ts @ '' '' @ parv ! 2 @ '' '' @ modes @ '' :'');
          pn = pre (cl_name src); pu = pre (use_id src)
      in if length pn \<ge> IRCD_BUFSIZE \<or> length pu \<ge> IRCD_BUFSIZE then Inl BufOverflow
         else and_then
           (sj_nicks env client_p source_p chptr (parv ! 2) pn pu news (nick_tokens (length nicks + 1) nicks)
              \<lparr>sj_world = w3, sj_out = ts0_notices w source_p chptr isnew newts oldts @ lost @ told, sj_nick = [], sj_uid = [],
               sj_letters = [], sj_para = [], sj_joins = 0\<rparr>)
           (\<lambda>s. Inr (sjoin_end env client_p source_p chptr isnew ours pn pu s)))"

definition ms_sjoin :: "join_env \<Rightarrow> cid \<Rightarrow> cid \<Rightarrow> cstring list \<Rightarrow> world \<Rightarrow> fault + (msg list \<times> world)" where
  "ms_sjoin env client_p source_p parv w =
     (if length parv < 5 \<or> parv ! 4 = [] then Inr ([], w)
      else if \<not> IsChannelName (parv ! 2) \<or> \<not> check_channel_name (parv ! 2) then Inr ([], w)
      else if char_at (parv ! 2) 0 = CHR ''&'' then Inr ([], w)
      else case sjoin_modes parv (parv ! 3) 0 empty_mode of
             None \<Rightarrow> Inr ([], w)
           | Some (args, m) \<Rightarrow>
               let nicks = dropWhile (\<lambda>c. c = SPC) (parv ! (args + 4))
               in if nicks = [] then Inr ([], w)
                  else case get_or_create_channel (parv ! 2) w of
                         (None, _, w1) \<Rightarrow> Inr ([], w1)
                       | (Some chptr, isnew, w1) \<Rightarrow>
                           (case sjoin_channel env client_p source_p parv m nicks chptr isnew w1 of
                              Inl f \<Rightarrow> Inl f
                            | Inr (out, w2) \<Rightarrow> Inr (long_name_notice w source_p (parv ! 2) @ out, w2)))"

end
