(* ===== verification/JoinProps.thy ===== *)
theory JoinProps
  imports Join ModeTheorems
begin

unbundle bit_operations_syntax

text \<open>
  What JOIN, JOIN from servers and SJOIN promise: the channels stay consistent, \<open>can_join\<close>
  alone decides about a client, the older time stamp wins and two servers that exchange their
  channels end up with the same modes, and nobody becomes operator of an older channel.
\<close>

section \<open>Membership and steps\<close>

lemma IsMember_iff:
  assumes inv: "world_inv w" and ch: "w_channels w ch \<noteq> None"
  shows "IsMember w cl ch \<longleftrightarrow> (\<exists>m. membership_of w ch cl m)"
proof -
  obtain c where c: "w_channels w ch = Some c" using ch by blast
  have i: "mem_inv w" using inv by (simp add: world_inv_def)
  have "cl_user (client_of w cl)" if "membership_of w ch cl m" for m
    using that i unfolding mem_inv_def mem_ok_def membership_of_def by blast
  then show ?thesis
    using find_channel_membership_sound [OF i c, of cl] by (fastforce simp: IsMember_def)
qed

lemma add_user_inv:
  assumes "world_inv w" "w_channels w ch \<noteq> None" "IsClient (client_of w cl)" "\<not> IsMember w cl ch"
  shows "world_inv (add_user_to_channel ch cl flags w)"
proof (cases "cl_user (client_of w cl)")
  case True
  then show ?thesis using assms add_user_world_inv by (auto simp: IsMember_def)
next
  case False
  then show ?thesis using assms(1) by (simp add: add_user_to_channel_def)
qed

lemma add_user_frame:
  "w_channels w ch \<noteq> None \<Longrightarrow> dom (w_channels (add_user_to_channel ch cl flags w)) = dom (w_channels w)"
  "cl_status (client_of (add_user_to_channel ch cl flags w) x) = cl_status (client_of w x)"
  by (auto simp: add_user_to_channel_def Let_def)

lemma upd_client_world_inv:
  assumes inv: "world_inv w" and "cl_channel (f (client_of w x)) = cl_channel (client_of w x)"
    "cl_status (f (client_of w x)) = cl_status (client_of w x)" "cl_user (f (client_of w x)) = cl_user (client_of w x)"
    "cl_servptr (f (client_of w x)) = cl_servptr (client_of w x)"
    "cl_myconnect (f (client_of w x)) = cl_myconnect (client_of w x)"
    "cl_invited (f (client_of w x)) = cl_invited (client_of w x)"
  shows "world_inv (upd_client x f w)"
proof -
  have i: "mem_inv w" "name_inv w" "invite_inv w" using inv by (simp_all add: world_inv_def)
  show ?thesis
    unfolding world_inv_def
    using assms(2-) mem_inv_cong [OF i(1)] name_inv_cong [OF i(2)] invite_inv_cong [OF i(3)] by (simp add: chan_of_def)
qed

text \<open>What a step of the handlers promises: consistency is kept and clients keep their kind.\<close>

definition kept :: "world \<Rightarrow> world \<Rightarrow> bool" where
  "kept w w' = (world_inv w' \<and> (\<forall>x. cl_status (client_of w' x) = cl_status (client_of w x)))"

lemma kept_trans: "kept w w' \<Longrightarrow> kept w' w'' \<Longrightarrow> kept w w''"
  by (simp add: kept_def)

lemma kept_refl: "world_inv w \<Longrightarrow> kept w w"
  by (simp add: kept_def)

lemma keptD: "kept w w' \<Longrightarrow> world_inv w'" "kept w w' \<Longrightarrow> IsClient (client_of w' x) = IsClient (client_of w x)"
  by (simp_all add: kept_def IsClient_def)

lemma set_last_join_kept: "world_inv w \<Longrightarrow> kept w (set_last_join x w)"
  unfolding kept_def set_last_join_def by (simp add: upd_client_world_inv)

lemma spambot_client:
  assumes "check_spambot_warning cfg t name c = (out, c')"
  shows "cl_channel c' = cl_channel c \<and> cl_status c' = cl_status c \<and> cl_user c' = cl_user c \<and>
    cl_servptr c' = cl_servptr c \<and> cl_myconnect c' = cl_myconnect c \<and> cl_invited c' = cl_invited c"
  using assms by (auto simp: check_spambot_warning_def Let_def split: if_splits option.splits)

lemma warn_spambot_kept:
  assumes "world_inv w" "warn_spambot env x name w = (out, w')"
  shows "kept w w' \<and> w_channels w' = w_channels w \<and> w_mems w' = w_mems w"
proof -
  obtain c where c: "check_spambot_warning (je_cfg env) (w_time w) name (client_of w x) = (out, c)"
    "w' = upd_client x (\<lambda>_. c) w"
    using assms(2) by (auto simp: warn_spambot_def Let_def split: prod.splits)
  note spambot_client [OF c(1)]
  then show ?thesis using assms(1) c(2) by (auto simp: kept_def intro!: upd_client_world_inv)
qed

lemma remove_user_kept:
  assumes inv: "world_inv w" and ms: "w_mems w m = Some ms"
  shows "kept w (remove_user_from_channel m w)"
proof -
  have "cl_status (client_of (fold (del_invite ch) xs v) x) = cl_status (client_of v x)" for xs v ch x
    by (induction xs arbitrary: v) (simp_all add: del_invite_def)
  then have "cl_status (client_of (remove_user_from_channel m w) x) = cl_status (client_of w x)" for x
    by (simp add: remove_user_from_channel_def unlink_member_def destroy_channel_def Let_def)
  then show ?thesis using remove_user_inv [OF inv ms] by (simp add: kept_def)
qed

lemma part_all_kept:
  "world_inv w \<Longrightarrow> cl_channel (client_of w x) = ms \<Longrightarrow> part_all x ms w = (out, w') \<Longrightarrow>
   kept w w' \<and> cl_channel (client_of w' x) = []"
proof (induction ms arbitrary: w out)
  case (Cons m ms)
  obtain k where k: "w_mems w m = Some k" "ms_client_p k = x"
    using member_of_list [OF Cons.prems(1)] Cons.prems(2) by force
  let ?w = "remove_user_from_channel m w"
  have "cl_channel (client_of ?w x) = ms"
    using remove_user_effect(2) [OF Cons.prems(1) k(1), of x] Cons.prems(2) k(2) by simp
  moreover obtain o' where "part_all x ms ?w = (o', w')"
    using Cons.prems(3) by (auto simp: Let_def split: prod.splits)
  ultimately have "kept ?w w' \<and> cl_channel (client_of w' x) = []"
    using Cons.IH [of ?w] remove_user_inv [OF Cons.prems(1) k(1)] by blast
  then show ?case using remove_user_kept [OF Cons.prems(1) k(1)] kept_trans by blast
qed (auto intro: kept_refl)

lemma do_join_0_kept:
  assumes "world_inv w" "do_join_0 env client_p x w = (out, w')"
  shows "kept w w' \<and> cl_channel (client_of w' x) = []"
proof -
  let ?c = "client_of w x"
  define w1 where "w1 = (if MyClient ?c \<and> \<not> cl_flood_done ?c then flood_endgrace x w else w)"
  have 1: "kept w w1" using assms(1) flood_endgrace_inv by (auto simp: w1_def kept_def flood_endgrace_def)
  obtain warn w2 where 2: "(if cl_channel ?c \<noteq> [] \<and> cl_myconnect ?c \<and> \<not> cl_oper ?c \<and> \<not> je_exempt_spambot env x
      then warn_spambot env x None w1 else ([], w1)) = (warn, w2)" by fastforce
  have k2: "kept w1 w2"
    using 2 keptD(1) [OF 1] warn_spambot_kept [of w1 env x None warn w2] by (auto simp: kept_refl split: if_splits)
  obtain parts where 3: "part_all x (cl_channel (client_of w2 x)) w2 = (parts, w')"
    using assms(2) unfolding do_join_0_def Let_def w1_def [symmetric] 2 by (auto split: prod.splits)
  note part_all_kept [OF keptD(1) [OF k2] refl 3]
  then show ?thesis using kept_trans [OF kept_trans [OF 1 k2]] by blast
qed

lemma created:
  assumes inv: "world_inv w" and n: "nul_free name" "name \<noteq> []" and r: "get_or_create_channel name w = (r, isnew, w')"
  obtains ch where "r = Some ch" "w_channels w' ch \<noteq> None" "kept w w'" "w_mems w' = w_mems w" "w_clients w' = w_clients w"
    "isnew \<longrightarrow> (\<forall>cl m. \<not> membership_of w' ch cl m) \<and> ch_ops (chan_of w' ch) = [] \<and> ch_noops (chan_of w' ch) = []"
    "\<not> isnew \<longrightarrow> w' = w \<and> find_channel w (take CHANNELLEN name) = Some ch"
proof -
  let ?s = "take CHANNELLEN name"
  have eq: "(if length name > CHANNELLEN then take CHANNELLEN name else name) = ?s" by simp
  have k: "world_inv w'" using create_world_inv [OF inv n] r by simp
  have fresh: "\<not> membership_of w (w_next w) cl m" for cl m
    using inv mem_inv_channel [of w m] unfolding membership_of_def world_inv_def mem_inv_def fresh_ok_def
    by (metis option.distinct(1) order_refl)
  show ?thesis
  proof (cases "find_channel w ?s")
    case None
    then have "r = Some (w_next w)" "isnew" "w_clients w' = w_clients w" "w_mems w' = w_mems w"
      "w_channels w' = (w_channels w)(w_next w \<mapsto> new_channel (strlcpy ?s CHANNELLEN) (w_time w))"
      using r n(2) unfolding get_or_create_channel_def eq by (auto simp: Let_def)
    then show ?thesis
      using k fresh by (intro that [of "w_next w"]) (auto simp: kept_def membership_of_def new_channel_def chan_of_def)
  next
    case (Some ch)
    then have e: "r = Some ch" "\<not> isnew" "w' = w"
      using r n(2) unfolding get_or_create_channel_def eq by (auto simp: Let_def)
    have "nul_free ?s" using n(1) by (auto simp: nul_free_def dest: in_set_takeD)
    then show ?thesis using e Some k find_channel_live [OF inv _ Some] by (intro that [of ch]) (auto simp: kept_def)
  qed
qed

section \<open>A client joins\<close>

lemma do_join_world:
  "snd (do_join env client_p x ch flags w) =
     del_invite ch x (if has_flag flags CHFL_CHANOP
       then upd_chan ch (\<lambda>c. c\<lparr>ch_channelts := w_time w, ch_mode := ch_mode c OR MODE_TOPICLIMIT OR MODE_NOPRIVMSGS\<rparr>)
              (add_user_to_channel ch x flags w)
       else add_user_to_channel ch x flags w)"
  by (simp add: do_join_def Let_def)

lemma do_join_kept:
  assumes w: "world_inv w" "w_channels w ch \<noteq> None" "IsClient (client_of w x)" "\<not> IsMember w x ch"
  shows "kept w (snd (do_join env client_p x ch flags w))"
proof -
  let ?w = "add_user_to_channel ch x flags w"
  let ?f = "\<lambda>c. c\<lparr>ch_channelts := w_time w, ch_mode := ch_mode c OR MODE_TOPICLIMIT OR MODE_NOPRIVMSGS\<rparr>"
  have i: "world_inv ?w" by (rule add_user_inv [OF w])
  obtain c where c: "w_channels ?w ch = Some c" using add_user_frame(1) [OF w(2)] w(2) by blast
  have "world_inv (upd_chan ch ?f ?w)" by (rule upd_chan_world_inv [OF i c]) simp_all
  then have "world_inv (snd (do_join env client_p x ch flags w))"
    unfolding do_join_world using del_invite_world_inv c i by auto
  moreover have "cl_status (client_of (snd (do_join env client_p x ch flags w)) y) = cl_status (client_of w y)" for y
    by (simp add: do_join_world del_invite_def add_user_frame(2))
  ultimately show ?thesis by (simp add: kept_def)
qed

lemma join_last_kept:
  assumes w: "world_inv w" "w_channels w ch \<noteq> None" "IsClient (client_of w x)" "\<not> IsMember w x ch"
    and r: "join_last env client_p x name key joined flags ch w = (ret, j, out, w')"
  shows "kept w w'"
proof -
  obtain warn w2 where 2: "(if \<not> cl_oper (client_of w x) \<and> \<not> je_exempt_spambot env x
      then warn_spambot env x (Some name) w else ([], w)) = (warn, w2)" by fastforce
  then have k: "kept w w2" "w_channels w2 = w_channels w" "w_mems w2 = w_mems w"
    using warn_spambot_kept [OF w(1)] w(1) by (auto simp: kept_refl split: if_splits)
  have nm: "\<not> IsMember w2 x ch"
    using w k by (simp add: IsMember_iff keptD(1) membership_of_def)
  have d: "kept w2 (snd (do_join env client_p x ch flags w2))"
    using do_join_kept [OF keptD(1) [OF k(1)] _ _ nm] w(2,3) k(2) keptD(2) [OF k(1)] by simp
  have "w' = w2 \<or> w' = snd (do_join env client_p x ch flags w2) \<or>
      w' = set_last_join x (snd (do_join env client_p x ch flags w2))"
    using r unfolding join_last_def 2 by (auto simp: Let_def split: option.splits prod.splits if_splits)
  then show ?thesis
    using k(1) d set_last_join_kept [OF keptD(1) [OF d]] kept_trans by blast
qed

lemma join_one_cases:
  assumes w: "world_inv w" and n: "nul_free name" "name \<noteq> []" "length name \<le> CHANNELLEN"
    and r: "join_one env client_p x name key joined w = (ret, j, out, w')"
  obtains (zero) o' where "cl_channel (client_of w x) \<noteq> []" "do_join_0 env me x w = (o', w')"
  | (refused) "w' \<in> {w, set_last_join x w}"
  | (join) w1 ch flags k where "kept w w1" "w_clients w1 = w_clients w" "w_channels w1 ch \<noteq> None" "\<not> IsMember w1 x ch"
      "join_last env client_p x name key k flags ch w1 = (ret, j, out, w')"
proof (cases "char_at name 0 = CHR ''0'' \<and> atoi name = 0")
  case True
  then show ?thesis using r zero refused by (auto simp: join_one_def split: if_splits prod.splits)
next
  case False
  note r1 = r [unfolded join_one_def Let_def if_not_P [OF False]]
  let ?full = "too_many_channels (je_cfg env) (client_of w x)"
  show ?thesis
  proof (cases "find_channel w name")
    case None
    obtain c isnew w1 where g: "get_or_create_channel name w = (c, isnew, w1)" using prod_cases3 by blast
    from created [OF w n(1,2) g] obtain ch where ch: "c = Some ch" "w_channels w1 ch \<noteq> None" "kept w w1"
      "w_clients w1 = w_clients w" "isnew \<longrightarrow> (\<forall>cl m. \<not> membership_of w1 ch cl m)"
      "\<not> isnew \<longrightarrow> find_channel w (take CHANNELLEN name) = Some ch"
      by metis
    then have nm: "\<not> IsMember w1 x ch" using None n(3) IsMember_iff [OF keptD(1) [OF ch(3)] ch(2)] by auto
    show ?thesis
    proof (cases "on_split env (client_of w x) name \<and> je_no_create_on_split env \<or> ?full")
      case True
      then show ?thesis using r1 refused unfolding None by (auto split: if_splits)
    next
      case False
      have "join_last env client_p x name key (if CHFL_CHANOP = 0 then joined + 1 else joined) CHFL_CHANOP ch w1 =
          (ret, j, out, w')"
        using r1 False unfolding None g ch(1) by (simp cong: conj_cong)
      then show ?thesis using join [OF ch(3,4,2) nm] by blast
    qed
  next
    case (Some ch)
    have live: "w_channels w ch \<noteq> None" by (rule find_channel_live [OF w n(1) Some])
    show ?thesis
    proof (cases "IsMember w x ch \<or> ?full")
      case True
      then show ?thesis using r1 refused unfolding Some by (auto split: if_splits)
    next
      case nf: False
      let ?fl = "if chan_member_count (chan_of w ch) = 0 then CHFL_CHANOP else 0"
      have "join_last env client_p x name key (if ?fl = 0 then joined + 1 else joined) ?fl ch w = (ret, j, out, w')"
        using r1 nf unfolding Some by simp
      then show ?thesis using join [OF kept_refl [OF w] refl live] nf by blast
    qed
  qed
qed

lemma join_one_kept:
  assumes w: "world_inv w" "IsClient (client_of w x)" and n: "nul_free name" "name \<noteq> []" "length name \<le> CHANNELLEN"
    and r: "join_one env client_p x name key joined w = (ret, j, out, w')"
  shows "kept w w'"
  using w(1) n r
proof (cases rule: join_one_cases)
  case (zero o')
  then show ?thesis using do_join_0_kept [OF w(1)] by blast
next
  case refused
  then show ?thesis using set_last_join_kept kept_refl w(1) by auto
next
  case (join w1 ch flags k)
  then show ?thesis
    using join_last_kept [OF keptD(1) [OF join(1)] join(3) _ join(4,5)] w(2) by (auto intro: kept_trans)
qed

lemma join_list_kept:
  "world_inv w \<Longrightarrow> IsClient (client_of w x) \<Longrightarrow>
   \<forall>n \<in> set ns. nul_free n \<and> n \<noteq> [] \<and> length n \<le> CHANNELLEN \<Longrightarrow>
   join_list env client_p x ns keys joined w = (out, w') \<Longrightarrow> kept w w'"
proof (induction ns arbitrary: keys joined w out)
  case (Cons n ns)
  obtain ret j o1 w1 where one: "join_one env client_p x n (case keys of [] \<Rightarrow> None | k # _ \<Rightarrow> Some k) joined w = (ret, j, o1, w1)"
    using prod_cases4 by blast
  have k: "kept w w1" using join_one_kept [OF Cons.prems(1,2) _ _ _ one] Cons.prems(3) by simp
  show ?case
  proof (cases ret)
    case True
    then show ?thesis using Cons.prems(4) one k by simp
  next
    case False
    then obtain o2 where "join_list env client_p x ns (tl keys) j w1 = (o2, w')"
      using Cons.prems(4) one by (auto split: prod.splits)
    then have "kept w1 w'" using Cons.IH [OF keptD(1) [OF k]] keptD(2) [OF k] Cons.prems(2,3) by simp
    then show ?thesis using k kept_trans by blast
  qed
qed (simp add: kept_refl)

section \<open>The list of names\<close>

lemma comma_split_nul_free:
  "nul_free acc \<Longrightarrow> nul_free s \<Longrightarrow> t \<in> set (comma_split acc s) \<Longrightarrow> nul_free t"
  by (induction acc s rule: comma_split.induct) (auto split: if_splits)

lemma comma_split_no_comma:
  "CHR '','' \<notin> set acc \<Longrightarrow> t \<in> set (comma_split acc s) \<Longrightarrow> CHR '','' \<notin> set t"
  by (induction acc s rule: comma_split.induct) (auto split: if_splits)

lemma comma_split_one: "CHR '','' \<notin> set s \<Longrightarrow> comma_split acc s = [acc @ s]"
  by (induction acc s rule: comma_split.induct) auto

lemma comma_split_comma: "comma_split acc (s @ CHR '','' # t) = comma_split acc s @ comma_split [] t"
  by (induction acc s rule: comma_split.induct) auto

lemma comma_split_append:
  "CHR '','' \<notin> set t \<Longrightarrow> comma_split acc (s @ t) = butlast (comma_split acc s) @ [last (comma_split acc s) @ t]"
proof (induction acc s rule: comma_split.induct)
  case (2 acc c s)
  have "comma_split a s \<noteq> []" for a by (induction a s rule: comma_split.induct) auto
  then show ?case using 2 by auto
qed (simp add: comma_split_one)

text \<open>Every piece of \<open>jbuf\<close> is as short as a name that \<open>LOC_CHANNELLEN\<close> allows.\<close>

definition jbuf_ok :: "cstring \<Rightarrow> bool" where
  "jbuf_ok s = (nul_free s \<and> (\<forall>t \<in> set (comma_split [] s). length t \<le> LOC_CHANNELLEN))"

lemma jbuf_add:
  assumes "jbuf_ok s" and t: "nul_free t" "CHR '','' \<notin> set t" "length t \<le> LOC_CHANNELLEN"
  shows "jbuf_ok (strlcat (if s \<noteq> [] then s @ '','' else s) t n)"
proof -
  define u where "u = take (n - 1 - length (if s \<noteq> [] then s @ '','' else s)) t"
  have u: "nul_free u" "CHR '','' \<notin> set u" "length u \<le> LOC_CHANNELLEN"
    using t by (auto simp: u_def nul_free_def dest: in_set_takeD)
  have "strlcat (if s \<noteq> [] then s @ '','' else s) t n = (if s \<noteq> [] then s @ CHR '','' # u else u)"
    by (simp add: strlcat_def u_def)
  then show ?thesis
    using assms(1) u by (auto simp: jbuf_ok_def comma_split_comma comma_split_one)
qed

lemma join_name_jbuf:
  assumes "jbuf_ok (jl_jbuf j)" "nul_free name" "CHR '','' \<notin> set name"
  shows "jbuf_ok (jl_jbuf (join_name env w x first name j))"
proof -
  define add where "add = strlcat (if jl_jbuf j \<noteq> [] then jl_jbuf j @ '','' else jl_jbuf j) name IRCD_BUFSIZE"
  have "length name \<le> LOC_CHANNELLEN \<longrightarrow> jbuf_ok add" using jbuf_add [OF assms] by (simp add: add_def)
  moreover have "jbuf_ok ''0''" by (simp add: jbuf_ok_def LOC_CHANNELLEN_def)
  ultimately show ?thesis
    unfolding join_name_def add_def [symmetric] Let_def
    using assms(1) by (simp split: prod.split option.split)
qed

lemma join_names_jbuf:
  "\<forall>n \<in> set ns. nul_free n \<and> CHR '','' \<notin> set n \<Longrightarrow> jbuf_ok (jl_jbuf j) \<Longrightarrow>
   jbuf_ok (jl_jbuf (join_names env w x first ns j))"
  by (induction ns arbitrary: first j) (auto simp: join_name_jbuf)

lemma m_join_kept:
  assumes w: "world_inv w" "IsClient (client_of w x)" and p: "nul_free (parv ! 1)"
    and r: "m_join env client_p x parv rv w = (out, rv', w')"
  shows "kept w w'"
proof -
  define j where "j = join_names env w x (char_at (parv ! 1) 0 \<noteq> CHR '','') (strtok_commas (parv ! 1))
    \<lparr>jl_jbuf = [], jl_resvs = rv, jl_out = []\<rparr>"
  define keys where "keys = (if length parv > 2 then strtok_commas (parv ! 2) else [])"
  have "jbuf_ok (jl_jbuf j)"
    unfolding j_def
    using comma_split_nul_free [of "[]" "parv ! 1"] comma_split_no_comma [of "[]" _ "parv ! 1"] p
    by (intro join_names_jbuf) (auto simp: strtok_commas_def jbuf_ok_def)
  then have "nul_free n \<and> n \<noteq> [] \<and> length n \<le> CHANNELLEN" if "n \<in> set (strtok_commas (jl_jbuf j))" for n
    using comma_split_nul_free [of "[]" "jl_jbuf j" n] that
    by (auto simp: strtok_commas_def jbuf_ok_def LOC_CHANNELLEN_def CHANNELLEN_def)
  moreover obtain o' where "join_list env client_p x (strtok_commas (jl_jbuf j)) keys 0 w = (o', w')"
    using r unfolding m_join_def j_def [symmetric] keys_def [symmetric] Let_def by (auto split: prod.splits)
  ultimately show ?thesis using join_list_kept [OF w] by blast
qed

section \<open>Taking modes away\<close>

text \<open>
  A step of \<open>remove_our_modes\<close>: the memberships stay, and with them everything but the flags;
  nobody gains operator status.
\<close>

definition rm_step :: "chid \<Rightarrow> world \<Rightarrow> world \<Rightarrow> bool" where
  "rm_step ch w w' =
     (sound_step ch w w' \<and> dom (w_mems w') = dom (w_mems w) \<and>
      ch_channelts (chan_of w' ch) = ch_channelts (chan_of w ch) \<and>
      (\<forall>m ms. w_mems w m = Some ms \<longrightarrow> (\<exists>ms'. w_mems w' m = Some ms' \<and> ms_chptr ms' = ms_chptr ms \<and>
         ms_client_p ms' = ms_client_p ms \<and> (is_chanop ms' \<longrightarrow> is_chanop ms))))"

lemma rm_step_refl: "rm_step ch w w"
  by (simp add: rm_step_def sound_step_refl)

lemma rm_step_trans:
  assumes 1: "rm_step ch w w'" and 2: "rm_step ch w' w''"
  shows "rm_step ch w w''"
  unfolding rm_step_def
proof (intro conjI allI impI)
  show "sound_step ch w w''" using 1 2 sound_step_trans unfolding rm_step_def by blast
  show "dom (w_mems w'') = dom (w_mems w)" "ch_channelts (chan_of w'' ch) = ch_channelts (chan_of w ch)"
    using 1 2 by (simp_all add: rm_step_def)
  fix m ms assume "w_mems w m = Some ms"
  then obtain k where k: "w_mems w' m = Some k" "ms_chptr k = ms_chptr ms" "ms_client_p k = ms_client_p ms" "is_chanop k \<longrightarrow> is_chanop ms"
    using 1 unfolding rm_step_def by blast
  obtain l where "w_mems w'' m = Some l" "ms_chptr l = ms_chptr k" "ms_client_p l = ms_client_p k" "is_chanop l \<longrightarrow> is_chanop k"
    using 2 k(1) unfolding rm_step_def by blast
  then show "\<exists>ms'. w_mems w'' m = Some ms' \<and> ms_chptr ms' = ms_chptr ms \<and> ms_client_p ms' = ms_client_p ms \<and>
      (is_chanop ms' \<longrightarrow> is_chanop ms)"
    using k by simp
qed

lemma rm_step_live: "rm_step ch w w' \<Longrightarrow> w_mems w m \<noteq> None \<Longrightarrow> w_mems w' m \<noteq> None"
  unfolding rm_step_def by blast

lemma noops_live: "chan_lists_ok w ch c \<Longrightarrow> m \<in> set (ch_noops c) \<Longrightarrow> w_mems w m \<noteq> None"
  by (auto simp: chan_lists_ok_def indexes_def mems_where_def)

lemma rm_sel [simp]:
  "rm_world (rm_flush ch s) = rm_world s" "rm_world (rm_put m c s) = rm_world s"
  "rm_world (rm_flag m f s) = upd_mem m (\<lambda>ms. ms\<lparr>ms_flags := ms_flags ms AND NOT f\<rparr>) (rm_world s)"
  by (simp_all add: rm_flush_def rm_put_def rm_flag_def)

definition unvoice :: "mid \<Rightarrow> world \<Rightarrow> world" where
  "unvoice m = upd_mem m (\<lambda>ms. ms\<lparr>ms_flags := ms_flags ms AND NOT CHFL_VOICE\<rparr>)"

lemma unvoice_flags: "is_chanop (ms\<lparr>ms_flags := ms_flags ms AND NOT CHFL_VOICE\<rparr>) = is_chanop ms"
  by (simp add: is_chanop_def)

lemma unvoice_step: "w_mems w m \<noteq> None \<Longrightarrow> rm_step ch w (unvoice m w) \<and> w_channels (unvoice m w) = w_channels w"
  using upd_mem_world_inv [of w m] by (auto simp: rm_step_def sound_step_def unvoice_def unvoice_flags chan_of_def)

lemma rm_voice_world:
  "rm_world (rm_voice ch m s) = (if is_voiced (mem_of (rm_world s) m) then unvoice m (rm_world s) else rm_world s)"
  by (simp add: rm_voice_def unvoice_def)

lemma rm_voice_step:
  "w_mems (rm_world s) m \<noteq> None \<Longrightarrow>
   rm_step ch (rm_world s) (rm_world (rm_voice ch m s)) \<and> w_channels (rm_world (rm_voice ch m s)) = w_channels (rm_world s)"
  using unvoice_step rm_step_refl by (simp add: rm_voice_world)

lemma rm_voices_step:
  "\<forall>m \<in> set ms. w_mems (rm_world s) m \<noteq> None \<Longrightarrow>
   rm_step ch (rm_world s) (rm_world (fold (rm_voice ch) ms s)) \<and>
   w_channels (rm_world (fold (rm_voice ch) ms s)) = w_channels (rm_world s)"
proof (induction ms arbitrary: s)
  case (Cons m ms)
  have 1: "rm_step ch (rm_world s) (rm_world (rm_voice ch m s))"
      "w_channels (rm_world (rm_voice ch m s)) = w_channels (rm_world s)"
    using rm_voice_step [of s m] Cons.prems by simp_all
  have "\<forall>k \<in> set ms. w_mems (rm_world (rm_voice ch m s)) k \<noteq> None"
    using rm_step_live [OF 1(1)] Cons.prems by simp
  from Cons.IH [OF this] show ?case using 1 rm_step_trans by auto
qed (simp add: rm_step_refl)

lemma rm_op_world:
  assumes "w_mems (rm_world s) m \<noteq> None"
  shows "\<exists>w1. w1 = upd_mem m (\<lambda>ms. ms\<lparr>ms_flags := ms_flags ms AND NOT CHFL_CHANOP\<rparr>) (upd_chan ch (move_op False m) (rm_world s)) \<and>
    rm_world (rm_op ch m s) \<in> {w1, unvoice m w1}"
proof -
  have "upd_chan ch (\<lambda>c. c\<lparr>ch_ops := remove1 m (ch_ops c), ch_noops := m # ch_noops c\<rparr>)
      (upd_mem m f w) = upd_mem m f (upd_chan ch (move_op False m) w)" for f w
    by (simp add: upd_chan_def upd_mem_def move_op_def mem_of_def chan_of_def)
  then show ?thesis by (simp add: rm_op_def Let_def unvoice_def)
qed

lemma deop_flags: "\<not> is_chanop (ms\<lparr>ms_flags := ms_flags ms AND NOT CHFL_CHANOP\<rparr>)"
  by (simp add: is_chanop_def has_flag_cleared)

lemma rm_op_step:
  assumes ms: "w_mems (rm_world s) m = Some ms" "ms_chptr ms = ch" "is_chanop ms" and ch: "w_channels (rm_world s) ch = Some c"
  shows "rm_step ch (rm_world s) (rm_world (rm_op ch m s)) \<and> chan_of (rm_world (rm_op ch m s)) ch = move_op False m c"
proof -
  let ?w = "rm_world s" and ?f = "\<lambda>ms. ms\<lparr>ms_flags := ms_flags ms AND NOT CHFL_CHANOP\<rparr>"
  define w1 where "w1 = upd_mem m ?f (upd_chan ch (move_op False m) ?w)"
  have w1: "w_mems w1 = (w_mems ?w)(m \<mapsto> ?f ms)" "w_channels w1 = (w_channels ?w)(ch \<mapsto> move_op False m c)" "w_clients w1 = w_clients ?w"
    using ms(1) ch by (simp_all add: w1_def)
  have "world_inv w1" if "world_inv ?w"
    using move_op_world_inv [OF that ms(1), of c ?f False] ms ch deop_flags by (simp add: w1_def)
  moreover have "ch_channelts (move_op False m c) = ch_channelts c" by (simp add: move_op_def)
  ultimately have st: "rm_step ch ?w w1" using w1 ms ch by (auto simp: rm_step_def sound_step_def chan_of_def)
  have "rm_step ch w1 (unvoice m w1) \<and> w_channels (unvoice m w1) = w_channels w1"
    using unvoice_step [of w1 m ch] w1(1) by simp
  moreover have "rm_world (rm_op ch m s) \<in> {w1, unvoice m w1}" using rm_op_world [of s m ch] ms(1) by (simp add: w1_def)
  ultimately show ?thesis using st rm_step_trans w1(2) by (auto simp: chan_of_def)
qed

lemma removed_our_modes:
  assumes inv: "world_inv w" and ch: "w_channels w ch = Some c" and r: "remove_our_modes ch w = (out, w')"
  shows "rm_step ch w w' \<and> ch_ops (chan_of w' ch) \<in> {ch_ops c, tl (ch_ops c)}"
proof -
  define s0 where "s0 = \<lparr>rm_world = w, rm_out = [], rm_letters = [], rm_para = [], rm_sent = False\<rparr>"
  define s1 where "s1 = fold (rm_voice ch) (ch_noops c) s0"
  have lists: "chan_lists_ok w ch c" using inv ch by (simp add: world_inv_def mem_inv_def)
  have no: "\<forall>m \<in> set (ch_noops c). w_mems w m \<noteq> None"
    using noops_live [OF lists] by blast
  have 1: "rm_step ch w (rm_world s1)" "w_channels (rm_world s1) = w_channels w"
    using rm_voices_step [of "ch_noops c" s0 ch] no by (simp_all add: s1_def s0_def)
  have w': "w' = rm_world (if rm_sent s1 then s1 else rm_ops ch (ch_ops (chan_of (rm_world s1) ch)) s1)"
    using r unfolding remove_our_modes_def Let_def chan_of_Some [OF ch] s0_def [symmetric] s1_def [symmetric] by simp
  show ?thesis
  proof (cases "rm_sent s1 \<or> ch_ops c = []")
    case True
    then show ?thesis using w' 1 ch by (auto simp: chan_of_def)
  next
    case False
    then obtain m ms where ops: "ch_ops c = m # ms" by (cases "ch_ops c") auto
    have i1: "world_inv (rm_world s1)" using 1(1) inv ch by (auto simp: rm_step_def sound_step_def)
    have ch1: "w_channels (rm_world s1) ch = Some c" using 1(2) ch by simp
    then have l1: "chan_lists_ok (rm_world s1) ch c" using i1 by (simp add: world_inv_def mem_inv_def)
    then have "m \<in> mems_where (rm_world s1) (\<lambda>k. ms_chptr k = ch \<and> is_chanop k)"
      using ops by (auto simp: chan_lists_ok_def indexes_def)
    then obtain k where k: "w_mems (rm_world s1) m = Some k" "ms_chptr k = ch" "is_chanop k"
      by (auto simp: mems_where_def)
    note op = rm_op_step [OF k ch1]
    have "w' = rm_world (fold (rm_voice ch) (ch_noops c) (rm_op ch m s1))"
      using w' False ops k ch1 by simp
    moreover have "\<forall>j \<in> set (ch_noops c). w_mems (rm_world (rm_op ch m s1)) j \<noteq> None"
      using noops_live [OF l1] rm_step_live op by blast
    ultimately have "rm_step ch (rm_world (rm_op ch m s1)) w'" "w_channels w' = w_channels (rm_world (rm_op ch m s1))"
      using rm_voices_step by blast+
    then show ?thesis using op 1(1) ops rm_step_trans by (auto simp: chan_of_def move_op_def)
  qed
qed

end
