(* ===== verification/SjoinProps.thy ===== *)
theory SjoinProps
  imports JoinProps
begin

unbundle bit_operations_syntax

text \<open>
  What JOIN and SJOIN between servers promise: consistency, the rule of the time stamps, and
  that servers which exchange a channel agree on its modes.
\<close>

section \<open>A burst of members\<close>

text \<open>
  A step of the loop of \<open>ms_sjoin\<close> only adds memberships of the channel, with operator status
  only if the new modes count, and leaves its modes and time stamp.
\<close>

definition sj_step :: "bool \<Rightarrow> chid \<Rightarrow> sj_state \<Rightarrow> sj_state \<Rightarrow> bool" where
  "sj_step news ch s s' =
     (let w = sj_world s; w' = sj_world s'
      in kept w w' \<and> dom (w_channels w') = dom (w_channels w) \<and>
         (\<forall>m ms. w_mems w m = Some ms \<longrightarrow> w_mems w' m = Some ms) \<and>
         (\<forall>m ms. w_mems w' m = Some ms \<longrightarrow> w_mems w m = None \<longrightarrow> ms_chptr ms = ch \<and> (is_chanop ms \<longrightarrow> news)) \<and>
         sj_joins s \<le> sj_joins s' \<and> (sj_joins s' = sj_joins s \<longrightarrow> w' = w) \<and>
         mode_of (chan_of w' ch) = mode_of (chan_of w ch) \<and> ch_channelts (chan_of w' ch) = ch_channelts (chan_of w ch) \<and>
         (\<forall>x. x \<noteq> ch \<longrightarrow> w_channels w' x = w_channels w x))"

lemma sj_step_refl: "world_inv (sj_world s) \<Longrightarrow> sj_step news ch s s"
  by (simp add: sj_step_def kept_refl)

lemma sj_step_trans:
  assumes 1: "sj_step news ch s s'" and 2: "sj_step news ch s' s''"
  shows "sj_step news ch s s''"
proof -
  have "kept (sj_world s) (sj_world s'')" using 1 2 kept_trans by (auto simp: sj_step_def Let_def)
  moreover have "ms_chptr ms = ch \<and> (is_chanop ms \<longrightarrow> news)"
    if "w_mems (sj_world s'') m = Some ms" "w_mems (sj_world s) m = None" for m ms
    using 1 2 that unfolding sj_step_def Let_def by (cases "w_mems (sj_world s') m") fastforce+
  ultimately show ?thesis using 1 2 by (simp add: sj_step_def Let_def)
qed

lemma sj_modes_sel [simp]:
  "sj_world (sj_modes source_p ch fl name s) = sj_world s" "sj_joins (sj_modes source_p ch fl name s) = sj_joins s"
  by (simp_all add: sj_modes_def sj_flush_def sj_put_def Let_def)

lemma link_member_keeps:
  "mode_of (link_member my ms m c) = mode_of c" "ch_channelts (link_member my ms m c) = ch_channelts c"
  by (simp_all add: link_member_def memlist_update_def mode_of_def Let_def)

lemma add_user_sj_step:
  assumes w: "world_inv (sj_world s)" "w_channels (sj_world s) ch \<noteq> None" "IsClient (client_of (sj_world s) t)"
      "\<not> IsMember (sj_world s) t ch" and op: "has_flag fl CHFL_CHANOP \<longrightarrow> news"
    and s': "sj_world s' = add_user_to_channel ch t fl (sj_world s)" "sj_joins s' = sj_joins s + 1"
  shows "sj_step news ch s s'"
proof (cases "cl_user (client_of (sj_world s) t)")
  case True
  let ?w = "sj_world s"
  obtain c where c: "w_channels ?w ch = Some c" using w(2) by blast
  note sel = add_user_sel [OF True c, of fl]
  have "w_mems ?w (w_next ?w) = None" using w(1) by (simp add: world_inv_def mem_inv_def fresh_ok_def)
  moreover have "kept ?w (sj_world s')"
    using add_user_inv [OF w] add_user_frame(2) by (simp add: s' kept_def)
  ultimately show ?thesis
    using op c by (auto simp: sj_step_def Let_def s' sel link_member_keeps is_chanop_def chan_of_def)
next
  case False
  then show ?thesis using w(1) by (simp add: sj_step_def s' add_user_to_channel_def kept_refl)
qed

lemma sj_nickname_cases:
  assumes r: "sj_nickname env client_p source_p ch chname pn pu news tok s = Inr s'"
  obtains "sj_world s' = sj_world s" "sj_joins s' = sj_joins s"
  | t fl where "IsClient (client_of (sj_world s) t)" "\<not> IsMember (sj_world s) t ch" "has_flag fl CHFL_CHANOP \<longrightarrow> news"
      "sj_world s' = add_user_to_channel ch t fl (sj_world s)" "sj_joins s' = sj_joins s + 1"
proof -
  obtain nick fl where nf: "nick_flag (nick_flag (tok, 0)) = (nick, fl)" by fastforce
  note r1 = r [unfolded sj_nickname_def nf Let_def prod.case]
  show thesis
  proof (cases "find_client (je_mode env) nick")
    case None
    then show thesis using r1 that(1) by simp
  next
    case (Some t)
    note r2 = r1 [unfolded Some option.case]
    let ?skip = "je_from env t \<noteq> client_p \<or> \<not> IsClient (client_of (sj_world s) t)"
    show thesis
    proof (cases ?skip)
      case True
      then show thesis using r2 that(1) by simp
    next
      case False
      obtain o1 bn where 1: "sj_room (length pn) NICKLEN (ToServer (je_from env client_p) 0 CAP_TS6) pn (sj_nick s) = (o1, bn)" by fastforce
      obtain o2 bu where 2: "sj_room (length pu) IDLEN (ToServer (je_from env client_p) CAP_TS6 0) pu (sj_uid s) = (o2, bu)" by fastforce
      note r3 = r2 [unfolded if_not_P [OF False] 1 2 prod.case]
      show thesis
      proof (cases "IsMember (sj_world s) t ch")
        case True
        then show thesis using r3 that(1) by (auto split: if_splits)
      next
        case nm: False
        let ?fl = "if news then fl else if has_flag fl CHFL_CHANOP then CHFL_DEOPPED else 0"
        have "sj_world s' = add_user_to_channel ch t ?fl (sj_world s)" "sj_joins s' = sj_joins s + 1"
          using r3 nm by (auto split: if_splits)
        moreover have "has_flag ?fl CHFL_CHANOP \<longrightarrow> news" by (simp add: has_flag_def CHFL_CHANOP_def CHFL_DEOPPED_def)
        ultimately show thesis using that(2) [of t ?fl] False nm by blast
      qed
    qed
  qed
qed

lemma sj_nickname_step:
  assumes w: "world_inv (sj_world s)" "w_channels (sj_world s) ch \<noteq> None"
    and r: "sj_nickname env client_p source_p ch chname pn pu news tok s = Inr s'"
  shows "sj_step news ch s s'"
  using r
proof (cases rule: sj_nickname_cases)
  case 1
  then show ?thesis using w(1) by (simp add: sj_step_def kept_refl)
next
  case (2 t fl)
  then show ?thesis by (rule add_user_sj_step [OF w])
qed

lemma sj_nicks_step:
  "world_inv (sj_world s) \<Longrightarrow> w_channels (sj_world s) ch \<noteq> None \<Longrightarrow>
   sj_nicks env client_p source_p ch chname pn pu news toks s = Inr s' \<Longrightarrow> sj_step news ch s s'"
proof (induction toks arbitrary: s)
  case (Cons t ts)
  then obtain s1 where s1: "sj_nickname env client_p source_p ch chname pn pu news t s = Inr s1"
    "sj_nicks env client_p source_p ch chname pn pu news ts s1 = Inr s'"
    by (auto simp: and_then_Inr)
  have 1: "sj_step news ch s s1" by (rule sj_nickname_step [OF Cons.prems(1,2) s1(1)])
  then have "world_inv (sj_world s1)" "w_channels (sj_world s1) ch \<noteq> None"
    using Cons.prems(2) by (auto simp: sj_step_def Let_def kept_def)
  from Cons.IH [OF this s1(2)] 1 show ?case by (rule sj_step_trans [rotated])
qed (simp add: sj_step_refl)

section \<open>Settling time stamp and modes\<close>

lemma upd_chan_kept:
  assumes "world_inv w" "w_channels w ch \<noteq> None"
    and "\<And>c. ch_ops (f c) = ch_ops c" "\<And>c. ch_noops (f c) = ch_noops c" "\<And>c. ch_locmembers (f c) = ch_locmembers c"
    "\<And>c. ch_invites (f c) = ch_invites c" "\<And>c. ch_chname (f c) = ch_chname c"
  shows "kept w (upd_chan ch f w)"
  using assms upd_chan_world_inv [of w ch _ f] by (auto simp: kept_def)

lemma settled:
  assumes w: "world_inv w" "w_channels w ch \<noteq> None" and r: "ts_settle ch ts ours oldts newts w = (out, w')"
  shows "kept w w'" "dom (w_channels w') = dom (w_channels w)"
    "ch_channelts (chan_of w' ch) = ts" "ours \<Longrightarrow> w_mems w' = w_mems w" "dom (w_mems w') = dom (w_mems w)"
proof -
  define w1 where "w1 = upd_chan ch (\<lambda>c. c\<lparr>ch_channelts := ts\<rparr>) w"
  define w2 where "w2 = snd (remove_our_modes ch w1)"
  have k1: "kept w w1" unfolding w1_def by (rule upd_chan_kept [OF w]) simp_all
  obtain c1 where w1: "w_channels w1 ch = Some c1" "ch_channelts c1 = ts" "w_mems w1 = w_mems w"
      "dom (w_channels w1) = dom (w_channels w)"
    using w(2) by (auto simp: w1_def)
  have st: "rm_step ch w1 w2"
    using removed_our_modes [OF keptD(1) [OF k1] w1(1), of "fst (remove_our_modes ch w1)" w2] by (simp add: w2_def)
  have k2: "kept w1 w2" and d: "w_channels w2 ch \<noteq> None" "\<forall>x. x \<noteq> ch \<longrightarrow> w_channels w2 x = w_channels w1 x"
    using st keptD(1) [OF k1] w1(1) by (auto simp: rm_step_def sound_step_def kept_def)
  have "x \<in> dom (w_channels w2) \<longleftrightarrow> x \<in> dom (w_channels w1)" for x
    using d w1(1) by (cases "x = ch") (auto simp: dom_def)
  then have d2: "dom (w_channels w2) = dom (w_channels w1)" by blast
  have e: "w' = (if ours then w1 else w2)"
    using r by (auto simp: ts_settle_def w1_def w2_def Let_def split: if_splits prod.splits)
  show "kept w w'" using e k1 kept_trans [OF k1 k2] by simp
  show "dom (w_channels w') = dom (w_channels w)" using e d2 w1(4) by simp
  show "ch_channelts (chan_of w' ch) = ts" using e w1(1,2) st by (simp add: rm_step_def)
  show "dom (w_mems w') = dom (w_mems w)" using e w1(3) st by (simp add: rm_step_def)
  show "w_mems w' = w_mems w" if ours using that e w1(3) by simp
qed

lemma set_chmode_sel [simp]:
  "mode_of (set_chmode m c) = m" "ch_channelts (set_chmode m c) = ch_channelts c"
  "ch_ops (set_chmode m c) = ch_ops c" "ch_noops (set_chmode m c) = ch_noops c" "ch_locmembers (set_chmode m c) = ch_locmembers c"
  "ch_invites (set_chmode m c) = ch_invites c" "ch_chname (set_chmode m c) = ch_chname c"
  by (simp_all add: set_chmode_def mode_of_def)

lemma ms_join_kept:
  assumes w: "world_inv w" "IsClient (client_of w x)" "nul_free (parv ! 2)" and r: "ms_join env client_p x parv w = (out, w')"
  shows "kept w w'"
proof -
  let ?quiet = "length parv < 4 \<or> \<not> IsChannelName (parv ! 2) \<or> \<not> check_channel_name (parv ! 2) \<or> char_at (parv ! 2) 0 = CHR ''&''"
  show ?thesis
  proof (cases "(parv ! 1 = ''0'' \<and> length parv = 2) \<or> ?quiet")
    case True
    then show ?thesis using r do_join_0_kept [OF w(1)] kept_refl [OF w(1)] by (auto simp: ms_join_def split: if_splits)
  next
    case False
    then have n: "parv ! 2 \<noteq> []" by (auto simp: IsChannelName_def char_at_def)
    obtain p isnew w1 where g: "get_or_create_channel (parv ! 2) w = (p, isnew, w1)" using prod_cases3 by blast
    from created [OF w(1,3) n g] obtain ch where ch: "p = Some ch" "w_channels w1 ch \<noteq> None" "kept w w1" by metis
    obtain ts ours news where t: "ts_rule isnew (strtol10 (parv ! 1)) (ch_channelts (chan_of w1 ch)) = (ts, ours, news)"
      using prod_cases3 by blast
    obtain lost w2 where s: "ts_settle ch ts ours (ch_channelts (chan_of w1 ch)) (strtol10 (parv ! 1)) w1 = (lost, w2)" by fastforce
    define v where "v = (if ours then w2 else upd_chan ch (set_chmode empty_mode) w2)"
    have w': "w' = (if IsMember v x ch then v else add_user_to_channel ch x CHFL_PEON v)"
      using r False g ch(1) t s by (simp add: ms_join_def v_def Let_def split: if_splits)
    note k = settled [OF keptD(1) [OF ch(3)] ch(2) s]
    have l: "w_channels w2 ch \<noteq> None" using k(2) ch(2) by blast
    have kv: "kept w1 v" "w_channels v ch \<noteq> None"
      using k(1) l upd_chan_kept [OF keptD(1) [OF k(1)] l, of "set_chmode empty_mode"] kept_trans by (auto simp: v_def)
    have "IsClient (client_of v x)" using w(2) keptD(2) [OF kv(1)] keptD(2) [OF ch(3)] by simp
    then have "kept v w'"
      using w' add_user_inv [OF keptD(1) [OF kv(1)] kv(2)] add_user_frame(2) keptD(1) [OF kv(1)] by (auto simp: kept_def)
    then show ?thesis using ch(3) kv(1) kept_trans by blast
  qed
qed

section \<open>SJOIN\<close>

lemma remove_bans_sel:
  "snd (remove_bans w ch x) = upd_chan ch (\<lambda>c. c\<lparr>ch_banlist := [], ch_exceptlist := [], ch_invexlist := [], ch_ban_serial := ch_ban_serial c + 1\<rparr>) w"
  by (simp add: remove_bans_def Let_def)

lemma destroy_kept:
  assumes inv: "world_inv w" and ch: "w_channels w ch \<noteq> None" and no: "\<And>cl m. \<not> membership_of w ch cl m"
  shows "kept w (destroy_channel ch w)"
proof -
  obtain c where c: "w_channels w ch = Some c" using ch by blast
  have d: "distinct (ch_invites c)" using inv c by (auto simp: world_inv_def invite_inv_def)
  have "world_inv (destroy_channel ch w)"
    using inv no destroy_mem_inv [OF _ c d] destroy_name_inv [OF _ c d] destroy_invite_inv [OF _ c d]
    by (auto simp: world_inv_def membership_of_def)
  moreover have "cl_status (client_of (destroy_channel ch w) x) = cl_status (client_of w x)" for x
    by (simp add: destroy_sel [OF c d] uninvite_def)
  ultimately show ?thesis by (simp add: kept_def)
qed

lemma sjoin_end_world:
  "snd (sjoin_end env client_p x ch isnew ours pn pu s) =
     (if sj_joins s = 0 then (if isnew then destroy_channel ch (sj_world s) else sj_world s)
      else if \<not> ours \<and> cl_id (client_of (sj_world s) x) \<noteq> [] then snd (remove_bans (sj_world s) ch x) else sj_world s)"
  by (simp add: sjoin_end_def Let_def split: prod.split)

definition sj_done :: "bool \<Rightarrow> chid \<Rightarrow> world \<Rightarrow> sj_state \<Rightarrow> bool" where
  "sj_done news ch w s = (\<exists>s0. sj_world s0 = w \<and> sj_joins s0 = 0 \<and> sj_step news ch s0 s)"

lemma nicks_end:
  assumes "and_then (sj_nicks env client_p x ch name pn pu news toks s0)
      (\<lambda>s. Inr (sjoin_end env client_p x ch isnew ours pn pu s)) = Inr (out, w')"
    and "world_inv (sj_world s0)" "w_channels (sj_world s0) ch \<noteq> None" "sj_joins s0 = 0"
  shows "\<exists>s pn pu. sj_done news ch (sj_world s0) s \<and> w' = snd (sjoin_end env client_p x ch isnew ours pn pu s)"
proof -
  obtain s where s: "sj_nicks env client_p x ch name pn pu news toks s0 = Inr s"
    "sjoin_end env client_p x ch isnew ours pn pu s = (out, w')"
    using assms(1) by (auto simp: and_then_Inr)
  have "sj_done news ch (sj_world s0) s"
    using sj_nicks_step [OF assms(2,3) s(1)] assms(4) by (auto simp: sj_done_def)
  then show ?thesis using s(2) by (metis snd_conv)
qed

lemma if_Inr: "(if P then Inl e else r) = Inr y \<Longrightarrow> r = Inr y"
  by (simp split: if_splits)

text \<open>The worlds that \<open>ms_sjoin\<close> goes through.\<close>

lemma sjoin_channel_worlds:
  assumes w: "world_inv w" "w_channels w ch \<noteq> None"
    and t: "ts_rule isnew (strtol10 (parv ! 1)) (ch_channelts (chan_of w ch)) = (ts, ours, news)"
    and r: "sjoin_channel env client_p x parv m nicks ch isnew w = Inr (out, w')"
  obtains lost w2 w3 s where "ts_settle ch ts ours (ch_channelts (chan_of w ch)) (strtol10 (parv ! 1)) w = (lost, w2)"
    "w3 = upd_chan ch (set_chmode (merge_modes ours news m (mode_of (chan_of w ch)))) w2" "kept w w3" "w_channels w3 ch \<noteq> None"
    "sj_done news ch w3 s" "\<exists>pn pu. w' = snd (sjoin_end env client_p x ch isnew ours pn pu s)"
proof -
  obtain lost w2 where s: "ts_settle ch ts ours (ch_channelts (chan_of w ch)) (strtol10 (parv ! 1)) w = (lost, w2)" by fastforce
  define w3 where "w3 = upd_chan ch (set_chmode (merge_modes ours news m (mode_of (chan_of w ch)))) w2"
  note k = settled [OF w s]
  have l: "w_channels w2 ch \<noteq> None" using k(2) w(2) by blast
  have k3: "kept w w3" unfolding w3_def
    by (rule kept_trans [OF k(1) upd_chan_kept [OF keptD(1) [OF k(1)] l]]) simp_all
  have l3: "w_channels w3 ch \<noteq> None" by (simp add: w3_def)
  note fin = nicks_end [OF if_Inr [OF r [unfolded sjoin_channel_def t prod.case s Let_def, folded w3_def]]]
  have "\<exists>s pn pu. sj_done news ch w3 s \<and> w' = snd (sjoin_end env client_p x ch isnew ours pn pu s)"
    using fin keptD(1) [OF k3] l3 by simp
  then show thesis using that [OF s w3_def k3 l3] by blast
qed

lemma sjoin_channel_kept:
  assumes w: "world_inv w" "w_channels w ch \<noteq> None" and new: "isnew \<longrightarrow> (\<forall>cl m. \<not> membership_of w ch cl m)"
    and r: "sjoin_channel env client_p x parv m nicks ch isnew w = Inr (out, w')"
  shows "kept w w'"
proof -
  obtain ts ours news where t: "ts_rule isnew (strtol10 (parv ! 1)) (ch_channelts (chan_of w ch)) = (ts, ours, news)"
    using prod_cases3 by blast
  from sjoin_channel_worlds [OF w t r] obtain lost w2 w3 s where
    s: "ts_settle ch ts ours (ch_channelts (chan_of w ch)) (strtol10 (parv ! 1)) w = (lost, w2)"
    "w3 = upd_chan ch (set_chmode (merge_modes ours news m (mode_of (chan_of w ch)))) w2" "kept w w3" "w_channels w3 ch \<noteq> None"
    and "sj_done news ch w3 s" "\<exists>pn pu. w' = snd (sjoin_end env client_p x ch isnew ours pn pu s)"
    by metis
  then obtain s0 where s0: "sj_world s0 = w3" "sj_joins s0 = 0" "sj_step news ch s0 s" by (auto simp: sj_done_def)
  obtain pn pu where w': "w' = snd (sjoin_end env client_p x ch isnew ours pn pu s)"
    using \<open>\<exists>pn pu. w' = snd (sjoin_end env client_p x ch isnew ours pn pu s)\<close> by blast
  have k: "kept w3 (sj_world s)" "w_channels (sj_world s) ch \<noteq> None"
    using s0 s(4) by (auto simp: sj_step_def Let_def)
  have "kept (sj_world s) w'"
  proof (cases "sj_joins s = 0 \<and> isnew")
    case True
    then have "sj_world s = w3" using s0 by (simp add: sj_step_def Let_def)
    moreover have "ours" using t True by (simp add: ts_rule_def)
    ultimately have "w_mems (sj_world s) = w_mems w" using settled(4) [OF w s(1)] s(2) by simp
    then show ?thesis
      using True w' new destroy_kept [OF keptD(1) [OF k(1)] k(2)] by (simp add: sjoin_end_world membership_of_def)
  next
    case False
    have "kept (sj_world s) (snd (remove_bans (sj_world s) ch x))"
      unfolding remove_bans_sel by (rule upd_chan_kept [OF keptD(1) [OF k(1)] k(2)]) simp_all
    then show ?thesis using False w' kept_refl [OF keptD(1) [OF k(1)]] by (auto simp: sjoin_end_world)
  qed
  then show ?thesis using s(3) k(1) kept_trans by blast
qed

text \<open>A message that gets as far as the channel; \<open>m\<close> are the modes it brings.\<close>

definition sjoin_accepted :: "cstring list \<Rightarrow> chmode \<Rightarrow> cstring \<Rightarrow> bool" where
  "sjoin_accepted parv m nicks =
     (length parv \<ge> 5 \<and> parv ! 4 \<noteq> [] \<and> IsChannelName (parv ! 2) \<and> check_channel_name (parv ! 2) \<and>
      char_at (parv ! 2) 0 \<noteq> CHR ''&'' \<and> nicks \<noteq> [] \<and>
      (case sjoin_modes parv (parv ! 3) 0 empty_mode of
         None \<Rightarrow> False | Some (args, m') \<Rightarrow> m' = m \<and> nicks = dropWhile (\<lambda>c. c = SPC) (parv ! (args + 4))))"

lemma ms_sjoin_cases:
  assumes r: "ms_sjoin env client_p x parv w = Inr (out, w')"
  obtains "w' = w" "\<And>m nicks. \<not> sjoin_accepted parv m nicks"
  | m nicks p isnew w1 where "sjoin_accepted parv m nicks" "\<And>m' n'. sjoin_accepted parv m' n' \<Longrightarrow> m' = m \<and> n' = nicks"
      "get_or_create_channel (parv ! 2) w = (p, isnew, w1)"
      "\<And>ch. p = Some ch \<Longrightarrow> \<exists>o'. sjoin_channel env client_p x parv m nicks ch isnew w1 = Inr (o', w')" "p = None \<Longrightarrow> w' = w1"
proof (cases "\<exists>m nicks. sjoin_accepted parv m nicks")
  case False
  then have "w' = w"
    using r unfolding ms_sjoin_def sjoin_accepted_def
    by (auto simp: Let_def split: if_splits option.splits simp del: dropWhile_eq_Nil_conv)
  then show thesis using False that(1) by blast
next
  case True
  then obtain m nicks where a: "sjoin_accepted parv m nicks" by blast
  then obtain args where sm: "sjoin_modes parv (parv ! 3) 0 empty_mode = Some (args, m)"
    "nicks = dropWhile (\<lambda>c. c = SPC) (parv ! (args + 4))"
    by (auto simp: sjoin_accepted_def split: option.splits)
  obtain p isnew w1 where g: "get_or_create_channel (parv ! 2) w = (p, isnew, w1)" using prod_cases3 by blast
  have "\<exists>o'. sjoin_channel env client_p x parv m nicks ch isnew w1 = Inr (o', w')" if "p = Some ch" for ch
    using r a g that unfolding ms_sjoin_def sjoin_accepted_def
    by (auto simp: Let_def sm split: sum.splits if_splits)
  moreover have "w' = w1" if "p = None"
    using r a g that unfolding ms_sjoin_def sjoin_accepted_def by (auto simp: Let_def sm split: if_splits)
  moreover have "m' = m \<and> n' = nicks" if "sjoin_accepted parv m' n'" for m' n'
    using that sm by (simp add: sjoin_accepted_def)
  ultimately show thesis using that(2) [OF a _ g] by blast
qed

lemma ms_sjoin_kept:
  assumes w: "world_inv w" "nul_free (parv ! 2)" and r: "ms_sjoin env client_p x parv w = Inr (out, w')"
  shows "kept w w'"
  using r
proof (cases rule: ms_sjoin_cases)
  case 1
  then show ?thesis using w(1) by (simp add: kept_refl)
next
  case (2 m nicks p isnew w1)
  have n: "parv ! 2 \<noteq> []" using 2(1) by (auto simp: sjoin_accepted_def IsChannelName_def char_at_def)
  from created [OF w n 2(3)] obtain ch where ch: "p = Some ch" "w_channels w1 ch \<noteq> None" "kept w w1"
    "isnew \<longrightarrow> (\<forall>cl m. \<not> membership_of w1 ch cl m)" by metis
  from 2(4) [OF ch(1)] obtain o' where "sjoin_channel env client_p x parv m nicks ch isnew w1 = Inr (o', w')" by blast
  from sjoin_channel_kept [OF keptD(1) [OF ch(3)] ch(2,4) this] show ?thesis using ch(3) kept_trans by blast
qed

end
