(* ===== verification/JoinTheorems.thy ===== *)
theory JoinTheorems
  imports SjoinProps "HOL-Library.Multiset"
begin

unbundle bit_operations_syntax

text \<open>
  The properties of \<open>modules/core/m_join.c\<close>.
\<close>

section \<open>Consistency\<close>

definition small_join :: join_env where
  "small_join = \<lparr>je_mode = small_env, je_from = (\<lambda>_. 3), je_ssl = (\<lambda>_. False), je_exempt_spambot = (\<lambda>_. False),
     je_exempt_jupe = (\<lambda>_. False), je_splitmode = False, je_no_join_on_split = False, je_no_create_on_split = False,
     je_disable_fake_channels = False\<rparr>"

text \<open>
  C5. The commands JOIN of a local client, JOIN of a client of another server and SJOIN keep
  the consistency of channels, memberships and invitations, whatever their arguments.
\<close>

theorem join_commands_keep_world:
  assumes "world_inv w" "IsClient (client_of w source_p)" "nul_free (parv ! 1)" "nul_free (parv ! 2)"
  shows "world_inv (snd (snd (m_join env client_p source_p parv rv w))) \<and>
    world_inv (snd (ms_join env client_p source_p parv w)) \<and>
    (case ms_sjoin env client_p server parv w of Inl f \<Rightarrow> True | Inr (out, w') \<Rightarrow> world_inv w')"
proof (intro conjI)
  show "world_inv (snd (snd (m_join env client_p source_p parv rv w)))"
    using m_join_kept [OF assms(1-3)] keptD(1) by (metis prod.collapse)
  show "world_inv (snd (ms_join env client_p source_p parv w))"
    using ms_join_kept [OF assms(1,2,4)] keptD(1) by (metis prod.collapse)
  show "case ms_sjoin env client_p server parv w of Inl f \<Rightarrow> True | Inr (out, w') \<Rightarrow> world_inv w'"
    by (auto split: sum.split intro: keptD(1) [OF ms_sjoin_kept [OF assms(1,4)]])
qed

theorem join_commands_keep_world_witness:
  "world_inv (snd (ms_join small_join 3 2 [''nick'', ''0'', ''#ircd'', ''+''] small_channel))"
  using join_commands_keep_world [of small_channel 2 "[''nick'', ''0'', ''#ircd'', ''+'']" small_join 3]
    small_channel_inv small_channel_sel(3) by (simp add: nul_free_def)

section \<open>Who may join\<close>

lemma can_join_cong:
  assumes "check_spambot_warning cfg t name (client_of w x) = (out, c)"
  shows "can_join env x ch key (upd_client x (\<lambda>_. c) w) = can_join env x ch key w"
proof -
  have "cl_name c = cl_name (client_of w x) \<and> cl_username c = cl_username (client_of w x) \<and> cl_host c = cl_host (client_of w x) \<and>
      cl_sockhost c = cl_sockhost (client_of w x) \<and> cl_oper c = cl_oper (client_of w x)"
    using assms by (auto simp: check_spambot_warning_def Let_def split: if_splits option.splits)
  then have n: "nuh c h = nuh (client_of w x) h" "cl_host c = cl_host (client_of w x)" "cl_sockhost c = cl_sockhost (client_of w x)" for h
    by (simp_all add: nuh_def)
  have cl: "client_of (upd_client x (\<lambda>_. c) w) x = c" "chan_of (upd_client x (\<lambda>_. c) w) ch = chan_of w ch"
      "cl_invited c = cl_invited (client_of w x)"
    using spambot_client [OF assms] by (simp_all add: chan_of_def)
  have "fst (is_banned cfg' ch x None (Some a) (Some b) (upd_client x (\<lambda>_. c) w)) = fst (is_banned cfg' ch x None (Some a) (Some b) w)"
    for cfg' a b
    using spambot_client [OF assms] by (auto simp: is_banned_def Let_def MyClient_def IsClient_def chan_of_def)
  then show ?thesis
    by (simp only: can_join_def Let_def cl n)
qed

lemma warned_can_join:
  assumes "warn_spambot env x name w = (out, w')"
  shows "can_join env x ch key w' = can_join env x ch key w \<and> w_next w' = w_next w \<and> cl_user (client_of w' x) = cl_user (client_of w x)"
proof -
  obtain c where c: "check_spambot_warning (je_cfg env) (w_time w) name (client_of w x) = (out, c)" "w' = upd_client x (\<lambda>_. c) w"
    using assms by (auto simp: warn_spambot_def Let_def split: prod.splits)
  then show ?thesis using can_join_cong [OF c(1)] spambot_client [OF c(1)] by simp
qed

text \<open>
  C8. A client that JOINs a channel with members becomes a member exactly when its number of
  channels permits and \<open>can_join\<close> accepts, and then without any status; otherwise memberships and
  channels stay as they were.
\<close>

theorem join_decided_by_can_join:
  assumes w: "world_inv w" "cl_user (client_of w x)"
    and name: "nul_free name" "char_at name 0 \<noteq> CHR ''0''"
    and ch: "find_channel w name = Some ch" "chan_member_count (chan_of w ch) > 0" "\<not> IsMember w x ch"
    and r: "join_one env client_p x name key joined w = (ret, j, out, w')"
  shows "if \<not> too_many_channels (je_cfg env) (client_of w x) \<and> can_join env x ch key w = None
    then w_mems w' = (w_mems w)(w_next w \<mapsto> \<lparr>ms_chptr = ch, ms_client_p = x, ms_flags = 0, ms_ban_serial = 0\<rparr>)
    else w_mems w' = w_mems w \<and> w_channels w' = w_channels w"
proof -
  have live: "w_channels w ch \<noteq> None" by (rule find_channel_live [OF w(1) name(1) ch(1)])
  show ?thesis
  proof (cases "too_many_channels (je_cfg env) (client_of w x)")
    case True
    then show ?thesis using r name(2) ch by (auto simp: join_one_def set_last_join_def split: if_splits)
  next
    case False
    have jl: "join_last env client_p x name key (joined + 1) 0 ch w = (ret, j, out, w')"
      using r name(2) ch False by (simp add: join_one_def)
    obtain warn w2 where 2: "(if \<not> cl_oper (client_of w x) \<and> \<not> je_exempt_spambot env x
        then warn_spambot env x (Some name) w else ([], w)) = (warn, w2)" by fastforce
    then have k: "w_channels w2 = w_channels w" "w_mems w2 = w_mems w" "can_join env x ch key w2 = can_join env x ch key w"
        "w_next w2 = w_next w" "cl_user (client_of w2 x)"
      using warn_spambot_kept [OF w(1)] warned_can_join w(2) by (auto split: if_splits)
    have sel: "w_mems (add_user_to_channel ch x 0 w2) =
        (w_mems w)(w_next w \<mapsto> \<lparr>ms_chptr = ch, ms_client_p = x, ms_flags = 0, ms_ban_serial = 0\<rparr>)"
      using add_user_sel(1) [OF k(5)] live k by auto
    have "\<not> has_flag 0 CHFL_CHANOP" by (simp add: has_flag_def)
    then have "w_mems (snd (do_join env client_p x ch 0 w2)) = w_mems (add_user_to_channel ch x 0 w2)"
      unfolding do_join_world by (simp add: del_invite_def)
    then show ?thesis
      using jl k False sel unfolding join_last_def 2
      by (auto simp: Let_def set_last_join_def split: option.splits prod.splits)
  qed
qed

lemma small_can_join: "can_join small_join 2 10 None small_channel = None"
  by (simp add: can_join_def Let_def is_banned_def small_channel_chan(2) new_channel_def has_flag_def chan_full_def CHFL_BAN_def)

lemma small_few_channels: "\<not> too_many_channels small_config (client_of small_channel 2)"
  by (simp add: too_many_channels_def small_channel_def small_world_create Let_def add_user_to_channel_def)
     (simp add: small_world_def user_named_def small_config_def)

theorem join_decided_by_can_join_witness:
  "w_mems (snd (snd (snd (join_one small_join 3 2 ''#ircd'' None 0 small_channel)))) =
     (w_mems small_channel)(w_next small_channel \<mapsto> \<lparr>ms_chptr = 10, ms_client_p = 2, ms_flags = 0, ms_ban_serial = 0\<rparr>)"
proof -
  obtain ret j out w' where r: "join_one small_join 3 2 ''#ircd'' None 0 small_channel = (ret, j, out, w')"
    using prod_cases4 by blast
  have u: "cl_user (client_of small_channel 2)"
    by (simp add: small_channel_def small_world_create Let_def add_user_to_channel_def) (simp add: small_world_def user_named_def)
  have "je_cfg small_join = small_config" by (simp add: small_join_def small_env_def)
  then show ?thesis
    using join_decided_by_can_join [OF small_channel_inv u _ _ small_channel_find _ _ r] small_can_join small_few_channels r
    by (simp add: char_at_def nul_free_def chan_member_count_def small_channel_chan(2) IsMember_def small_channel_mems(2))
qed

section \<open>Time stamps\<close>

text \<open>
  The operators of a channel that loses its time stamp: \<open>remove_our_modes\<close> takes the
  status of the first operator of the list at most. The node of that operator is moved to the
  other list while the loop stands on it, and the loop goes on there; every other operator
  keeps its status.
\<close>

theorem remove_our_modes_first_only:
  assumes inv: "world_inv w" and ch: "w_channels w ch = Some c" and r: "remove_our_modes ch w = (out, w')"
    and m: "m \<in> set (tl (ch_ops c))"
  shows "is_chanop (mem_of w' m) \<and> m \<in> set (ch_ops (chan_of w' ch))"
proof -
  note s = removed_our_modes [OF inv ch r]
  then have i: "world_inv w'" "w_channels w' ch \<noteq> None" using inv ch by (auto simp: rm_step_def sound_step_def)
  then obtain d where d: "w_channels w' ch = Some d" by blast
  have "m \<in> set (ch_ops d)" using s m d by (cases "ch_ops c") auto
  moreover have "chan_lists_ok w' ch d" using i d by (simp add: world_inv_def mem_inv_def)
  ultimately show ?thesis using d by (auto simp: chan_lists_ok_def indexes_def mems_where_def)
qed

definition two_ops :: world where
  "two_ops = add_user_to_channel 10 2 CHFL_CHANOP small_channel"

lemma two_ops_sel:
  "world_inv two_ops" "\<exists>c. w_channels two_ops 10 = Some c \<and> tl (ch_ops c) = [11]"
proof -
  have u: "cl_user (client_of small_channel 2)"
    by (simp add: small_channel_def small_world_create Let_def add_user_to_channel_def) (simp add: small_world_def user_named_def)
  show "world_inv two_ops"
    unfolding two_ops_def
    by (rule add_user_world_inv [OF small_channel_inv small_channel_chan(1) small_channel_sel(3) small_channel_mems(2)])
  show "\<exists>c. w_channels two_ops 10 = Some c \<and> tl (ch_ops c) = [11]"
    unfolding two_ops_def add_user_sel(3) [OF u small_channel_chan(1)]
    by (simp add: small_channel_chan(2) is_chanop_def has_flag_def CHFL_CHANOP_def)
qed

theorem remove_our_modes_first_only_witness:
  "is_chanop (mem_of (snd (remove_our_modes 10 two_ops)) 11)"
proof -
  obtain c where "w_channels two_ops 10 = Some c" "tl (ch_ops c) = [11]" using two_ops_sel(2) by blast
  then show ?thesis
    using remove_our_modes_first_only [OF two_ops_sel(1), of 10 c "fst (remove_our_modes 10 two_ops)" "snd (remove_our_modes 10 two_ops)" 11]
    by simp
qed

text \<open>What an SJOIN does to time stamp and modes.\<close>

type_synonym ts_modes = "int \<times> chmode"

definition sjoin_merge :: "ts_modes \<Rightarrow> ts_modes \<Rightarrow> ts_modes" where
  "sjoin_merge new old =
     (case ts_rule False (fst new) (fst old) of (ts, ours, news) \<Rightarrow> (ts, merge_modes ours news (snd new) (snd old)))"

text \<open>
  C6. An SJOIN for an existing channel, when it is accepted: the channel gets the time stamp and
  the modes that the two time stamps call for, and when the channel was the older one, none of
  its members is an operator who was not one before.
\<close>

theorem sjoin_time_stamps:
  assumes w: "world_inv w" "nul_free (parv ! 2)" and ch: "find_channel w (take CHANNELLEN (parv ! 2)) = Some ch"
    and acc: "sjoin_accepted parv m nicks"
    and r: "ms_sjoin env client_p x parv w = Inr (out, w')"
  shows "(ch_channelts (chan_of w' ch), mode_of (chan_of w' ch)) =
      sjoin_merge (strtol10 (parv ! 1), m) (ch_channelts (chan_of w ch), mode_of (chan_of w ch)) \<and>
    (0 < ch_channelts (chan_of w ch) \<and> ch_channelts (chan_of w ch) < strtol10 (parv ! 1) \<longrightarrow>
      (\<forall>k ms. w_mems w' k = Some ms \<and> is_chanop ms \<longrightarrow> w_mems w k = Some ms))"
  using r
proof (cases rule: ms_sjoin_cases)
  case 1
  then show ?thesis using acc by blast
next
  case (2 m' nicks' p isnew w1)
  have e: "m' = m" "nicks' = nicks" using 2(2) [OF acc] by simp_all
  have "parv ! 2 \<noteq> []" using acc by (auto simp: sjoin_accepted_def IsChannelName_def char_at_def)
  then have g: "p = Some ch" "\<not> isnew" "w1 = w"
    using 2(3) ch by (auto simp: get_or_create_channel_def Let_def split: if_splits)
  obtain ts ours news where t: "ts_rule False (strtol10 (parv ! 1)) (ch_channelts (chan_of w ch)) = (ts, ours, news)"
    using prod_cases3 by blast
  have live: "w_channels w ch \<noteq> None"
    using find_channel_live [OF w(1) _ ch] w(2) by (auto simp: nul_free_def dest: in_set_takeD)
  from 2(4) [OF g(1)] obtain o' where "sjoin_channel env client_p x parv m nicks ch False w = Inr (o', w')"
    using g e by auto
  from sjoin_channel_worlds [OF w(1) live t this] obtain lost w2 w3 s where
    s: "ts_settle ch ts ours (ch_channelts (chan_of w ch)) (strtol10 (parv ! 1)) w = (lost, w2)"
    and w3: "w3 = upd_chan ch (set_chmode (merge_modes ours news m (mode_of (chan_of w ch)))) w2"
    and d: "sj_done news ch w3 s" "\<exists>pn pu. w' = snd (sjoin_end env client_p x ch False ours pn pu s)"
    by metis
  note k = settled [OF w(1) live s]
  from d(1) have dn: "mode_of (chan_of (sj_world s) ch) = mode_of (chan_of w3 ch)" "ch_channelts (chan_of (sj_world s) ch) = ch_channelts (chan_of w3 ch)"
    "\<And>k ms. w_mems (sj_world s) k = Some ms \<Longrightarrow> is_chanop ms \<Longrightarrow> \<not> news \<Longrightarrow> w_mems w3 k = Some ms"
    unfolding sj_done_def sj_step_def Let_def by (auto, metis option.exhaust option.inject)
  have w': "mode_of (chan_of w' ch) = mode_of (chan_of (sj_world s) ch)" "ch_channelts (chan_of w' ch) = ch_channelts (chan_of (sj_world s) ch)"
    "w_mems w' = w_mems (sj_world s)"
    using d(2) by (auto simp: sjoin_end_world remove_bans_sel mode_of_def)
  have "ours" if "\<not> news" using t that by (auto simp: ts_rule_def split: if_splits)
  then have "w_mems w3 = w_mems w" if "\<not> news" using that k(4) w3 by simp
  moreover have "\<not> news" if "0 < ch_channelts (chan_of w ch)" "ch_channelts (chan_of w ch) < strtol10 (parv ! 1)"
    using t that by (auto simp: ts_rule_def split: if_splits)
  ultimately show ?thesis using w' dn k(3) w3 t by (auto simp: sjoin_merge_def)
qed

lemma small_sjoin:
  "\<exists>out w'. ms_sjoin small_join 3 1 [''serv'', ''5'', ''#ircd'', ''+i'', ''@''] small_channel = Inr (out, w')"
proof -
  let ?p = "[''serv'', ''5'', ''#ircd'', ''+i'', ''@'']" and ?m = "empty_mode\<lparr>cm_mode := MODE_INVITEONLY\<rparr>"
  have g: "get_or_create_channel ''#ircd'' small_channel = (Some 10, False, small_channel)"
    by (simp add: get_or_create_channel_def small_channel_find CHANNELLEN_def)
  have sm: "sjoin_modes ?p ''+i'' 0 empty_mode = Some (0, ?m)"
    by (simp add: sjoin_flag_def empty_mode_def)
  have c: "ch_channelts (chan_of small_channel 10) = 0" "mode_of (chan_of small_channel 10) = empty_mode"
    by (simp_all add: small_channel_chan(2) new_channel_def mode_of_def empty_mode_def)
  define w2 where "w2 = upd_chan 10 (\<lambda>ch. ch\<lparr>ch_channelts := 0\<rparr>) small_channel"
  define w3 where "w3 = upd_chan 10 (set_chmode (merge_modes True True ?m empty_mode)) w2"
  have t: "ts_rule False 5 0 = (0, True, True)" "ts_settle 10 0 True 0 5 small_channel = ([], w2)" "strtol10 ''5'' = 5"
    by (simp_all add: ts_rule_def ts_settle_def w2_def) code_simp
  have m3: "mode_of (chan_of w3 10) = ?m"
    by (simp add: w3_def merge_modes_def empty_mode_def)
  then have "channel_modes w3 10 1 = ''+i''"
    by (simp add: mode_of_def empty_mode_def channel_modes_def Let_def mode_letters_def has_flag_def mode_defs)
  moreover have "cl_name (client_of w2 1) = ''nick''" "use_id (client_of w2 1) = use_id (client_of small_channel 1)"
    using small_channel_client(1) by (simp_all add: w2_def)
  moreover have "length (use_id (client_of small_channel 1)) < 20"
    by (simp add: use_id_def small_channel_def small_world_create Let_def add_user_to_channel_def)
       (simp add: small_world_def user_named_def)
  moreover have "string_of_int 0 = ''0''" "nick_tokens (length ''@'' + 1) ''@'' = [''@'']" by code_simp+
  moreover have "sj_nickname small_join 3 1 10 name pn pu news ''@'' s = Inr s" for name pn pu news s
    by (simp add: sj_nickname_def nick_flag_def char_at_def find_client_def)
  ultimately have "\<exists>r. sjoin_channel small_join 3 1 ?p ?m ''@'' 10 False small_channel = Inr r"
    unfolding sjoin_channel_def Let_def
    by (simp add: c t w3_def [symmetric] char_at_def and_then_def IRCD_BUFSIZE_def)
  moreover have "check_channel_name ''#ircd''" by code_simp
  ultimately show ?thesis using g sm by (auto simp: ms_sjoin_def IsChannelName_def char_at_def)
qed

theorem sjoin_time_stamps_witness:
  "mode_of (chan_of (snd (projr (ms_sjoin small_join 3 1 [''serv'', ''5'', ''#ircd'', ''+i'', ''@''] small_channel))) 10) =
     empty_mode\<lparr>cm_mode := MODE_INVITEONLY\<rparr>"
proof -
  let ?p = "[''serv'', ''5'', ''#ircd'', ''+i'', ''@'']"
  obtain out w' where r: "ms_sjoin small_join 3 1 ?p small_channel = Inr (out, w')" using small_sjoin by blast
  have f: "find_channel small_channel (take CHANNELLEN (?p ! 2)) = Some 10" using small_channel_find by (simp add: CHANNELLEN_def)
  have acc: "sjoin_accepted ?p (empty_mode\<lparr>cm_mode := MODE_INVITEONLY\<rparr>) ''@''" by code_simp
  have c: "ch_channelts (chan_of small_channel 10) = 0" "mode_of (chan_of small_channel 10) = empty_mode"
    by (simp_all add: small_channel_chan(2) new_channel_def mode_of_def empty_mode_def)
  show ?thesis
    using sjoin_time_stamps [OF small_channel_inv _ f acc r] r c
    by (simp add: nul_free_def sjoin_merge_def ts_rule_def merge_modes_def empty_mode_def)
qed

section \<open>Agreement\<close>

text \<open>The strings that \<open>strcmp\<close> orders.\<close>

lemma strcmp_less_irrefl: "\<not> strcmp_less a a"
  by (induction a) auto

lemma strcmp_less_asym: "strcmp_less a b \<Longrightarrow> \<not> strcmp_less b a"
  by (induction a b rule: strcmp_less.induct) auto

lemma strcmp_less_total: "\<not> strcmp_less a b \<Longrightarrow> \<not> strcmp_less b a \<Longrightarrow> a = b"
proof (induction a b rule: strcmp_less.induct)
  case (1 a)
  then show ?case by (cases a) auto
next
  case (3 x a y b)
  then have "(of_char x :: nat) = of_char y" by auto
  then show ?case using 3 by auto
qed auto

lemma strcmp_less_trans: "strcmp_less a b \<Longrightarrow> strcmp_less b c \<Longrightarrow> strcmp_less a c"
proof (induction a b arbitrary: c rule: strcmp_less.induct)
  case (2 y b)
  then show ?case by (cases c) auto
next
  case (3 x a y b)
  then show ?case by (cases c) auto
qed simp

definition later_key :: "cstring \<Rightarrow> cstring \<Rightarrow> cstring" where
  "later_key a b = (if strcmp_less a b then b else a)"

lemma strcmp_nless_trans: "\<not> strcmp_less a b \<Longrightarrow> \<not> strcmp_less b c \<Longrightarrow> \<not> strcmp_less a c"
  using strcmp_less_trans strcmp_less_total by blast

lemma later_key_comm: "later_key a b = later_key b a"
  using strcmp_less_asym strcmp_less_total unfolding later_key_def by auto

lemma later_key_assoc: "later_key (later_key a b) c = later_key a (later_key b c)"
  using strcmp_less_trans [of a b c] strcmp_nless_trans [of a b c] by (auto simp: later_key_def)

definition join_modes :: "chmode \<Rightarrow> chmode \<Rightarrow> chmode" where
  "join_modes a b =
     \<lparr>cm_mode = cm_mode a OR cm_mode b, cm_limit = max (cm_limit a) (cm_limit b), cm_key = later_key (cm_key a) (cm_key b)\<rparr>"

lemma join_modes_comm: "join_modes a b = join_modes b a"
  by (simp add: join_modes_def or.commute max.commute later_key_comm [of "cm_key a"])

lemma join_modes_assoc: "join_modes (join_modes a b) c = join_modes a (join_modes b c)"
  by (simp add: join_modes_def or.assoc max.assoc later_key_assoc)

lemma sjoin_merge_eq:
  "fst a \<noteq> 0 \<Longrightarrow> fst b \<noteq> 0 \<Longrightarrow> sjoin_merge a b =
     (if fst a < fst b then a else if fst b < fst a then b else (fst a, join_modes (snd a) (snd b)))"
  by (cases a; cases b) (auto simp: sjoin_merge_def ts_rule_def merge_modes_def join_modes_def later_key_def max_def)

text \<open>
  The laws that merging two states has to obey so that servers which receive the same states,
  in whatever order, agree. \<open>ok\<close> are the states that take part.
\<close>

locale merging =
  fixes ok :: "'s \<Rightarrow> bool" and merge :: "'s \<Rightarrow> 's \<Rightarrow> 's"
  assumes merge_ok: "ok a \<Longrightarrow> ok b \<Longrightarrow> ok (merge a b)"
    and merge_comm: "ok a \<Longrightarrow> ok b \<Longrightarrow> merge a b = merge b a"
    and merge_assoc: "ok a \<Longrightarrow> ok b \<Longrightarrow> ok c \<Longrightarrow> merge (merge a b) c = merge a (merge b c)"
begin

lemma fold_ok: "ok a \<Longrightarrow> \<forall>x \<in> set xs. ok x \<Longrightarrow> ok (fold merge xs a)"
  by (induction xs arbitrary: a) (auto simp: merge_ok)

lemma merge_left_comm: "ok a \<Longrightarrow> ok b \<Longrightarrow> ok c \<Longrightarrow> merge a (merge b c) = merge b (merge a c)"
  using merge_assoc merge_comm by metis

lemma fold_first: "ok a \<Longrightarrow> \<forall>x \<in> set xs. ok x \<Longrightarrow> y \<in> set xs \<Longrightarrow> fold merge xs a = fold merge (remove1 y xs) (merge y a)"
proof (induction xs arbitrary: a)
  case (Cons x xs)
  show ?case
  proof (cases "x = y")
    case False
    then have "y \<in> set xs" "ok y" using Cons.prems by auto
    moreover have "merge y (merge x a) = merge x (merge y a)"
      using Cons.prems \<open>ok y\<close> by (intro merge_left_comm) auto
    ultimately show ?thesis using False Cons by (simp add: merge_ok)
  qed simp
qed simp

lemma fold_permuted: "mset xs = mset ys \<Longrightarrow> ok a \<Longrightarrow> \<forall>x \<in> set xs. ok x \<Longrightarrow> fold merge xs a = fold merge ys a"
proof (induction xs arbitrary: ys a)
  case (Cons x xs)
  have x: "x \<in> set ys" using Cons.prems(1) by (metis list.set_intros(1) mset_eq_setD)
  have "mset xs = mset (remove1 x ys)" using Cons.prems(1) by (metis mset_remove1 remove1.simps(2))
  then have "fold merge xs (merge x a) = fold merge (remove1 x ys) (merge x a)"
    using Cons.IH [of "remove1 x ys" "merge x a"] Cons.prems(2,3) merge_ok by simp
  also have "\<dots> = fold merge ys a"
    using fold_first [OF Cons.prems(2) _ x] Cons.prems(1,3) mset_eq_setD [OF Cons.prems(1)] by metis
  finally show ?case by simp
qed simp

lemma fold_agrees:
  assumes p: "mset (a # xs) = mset (b # ys)" and o: "\<forall>x \<in> set (a # xs). ok x"
  shows "fold merge xs a = fold merge ys b"
proof (cases "a = b")
  case True
  then show ?thesis using p o fold_permuted [of xs ys a] by simp
next
  case False
  have s: "insert a (set xs) = insert b (set ys)" using mset_eq_setD [OF p] by simp
  then have m: "b \<in> set xs" "a \<in> set ys" using False by auto
  have "fold merge xs a = fold merge (remove1 b xs) (merge a b)"
    using fold_first [OF _ _ m(1), of a] merge_comm [of a b] o m by auto
  also have "\<dots> = fold merge (remove1 a ys) (merge a b)"
  proof (rule fold_permuted)
    have "add_mset a (add_mset b (mset (remove1 b xs))) = add_mset a (add_mset b (mset (remove1 a ys)))"
      using p m by (simp add: add_mset_commute)
    then show "mset (remove1 b xs) = mset (remove1 a ys)" by simp
    show "ok (merge a b)" "\<forall>x \<in> set (remove1 b xs). ok x" using o m merge_ok by (auto dest: notin_set_remove1)
  qed
  also have "\<dots> = fold merge ys b"
    using fold_first [OF _ _ m(2), of b] o s m by auto
  finally show ?thesis .
qed

end

interpretation sj: merging "\<lambda>s. fst s \<noteq> 0" sjoin_merge
proof
  fix a b :: ts_modes
  assume "fst a \<noteq> 0" "fst b \<noteq> 0"
  then show "fst (sjoin_merge a b) \<noteq> 0" "sjoin_merge a b = sjoin_merge b a"
    by (auto simp: sjoin_merge_eq join_modes_comm)
next
  fix a b c :: ts_modes
  assume "fst a \<noteq> 0" "fst b \<noteq> 0" "fst c \<noteq> 0"
  then show "sjoin_merge (sjoin_merge a b) c = sjoin_merge a (sjoin_merge b c)"
    by (auto simp: sjoin_merge_eq join_modes_assoc)
qed

text \<open>
  C7. Servers that have the same channel and receive each other's SJOINs, in any order, end up
  with the same time stamp and the same modes, as long as no time stamp is 0.
\<close>

theorem sjoin_servers_agree:
  assumes "mset (a # xs) = mset (b # ys)" "\<forall>s \<in> set (a # xs). fst s \<noteq> 0"
  shows "fold sjoin_merge xs a = fold sjoin_merge ys b"
  by (rule sj.fold_agrees [OF assms])

theorem sjoin_servers_agree_witness:
  "fold sjoin_merge [(5, empty_mode), (7, empty_mode\<lparr>cm_limit := 3\<rparr>)] (5, empty_mode\<lparr>cm_key := ''k''\<rparr>) =
   fold sjoin_merge [(5, empty_mode\<lparr>cm_key := ''k''\<rparr>), (5, empty_mode)] (7, empty_mode\<lparr>cm_limit := 3\<rparr>)"
  by (rule sjoin_servers_agree) simp_all

end
