(* ===== verification/JoinRound.thy ===== *)
theory JoinRound
  imports JoinTheorems
begin

unbundle bit_operations_syntax

text \<open>
  The modes of a channel travel between servers as text: \<open>channel_modes\<close> writes what the loop at
  the head of \<open>ms_sjoin\<close> reads.
\<close>

section \<open>Numbers\<close>

lemma string_of_nat_value:
  "list_all is_c_digit (string_of_nat n) \<and>
   foldl (\<lambda>acc c. 10 * acc + (int (of_char c) - 48)) 0 (string_of_nat n) = int n"
proof (induction n rule: string_of_nat.induct)
  case (1 n)
  show ?case
  proof (cases "n < 10")
    case True
    then show ?thesis by (simp add: string_of_nat.simps [of n] is_c_digit_digit_char of_char_digit_char)
  next
    case False
    have "int (10 * (n div 10) + n mod 10) = int n" by simp
    then have "10 * int (n div 10) + int (n mod 10) = int n" by (simp only: of_nat_add of_nat_mult of_nat_numeral)
    then show ?thesis using False 1 by (simp add: string_of_nat.simps [of n] is_c_digit_digit_char of_char_digit_char)
  qed
qed

lemma digits_value_string: "digits_value (string_of_nat n) = int n"
proof -
  have "takeWhile is_c_digit (string_of_nat n) = string_of_nat n"
    using string_of_nat_value [of n] by (auto simp: list_all_iff)
  then show ?thesis unfolding digits_value_def using string_of_nat_value [of n] by metis
qed

lemma string_of_nat_Cons: "\<exists>c s. string_of_nat n = c # s \<and> is_c_digit c"
proof -
  have "string_of_nat n \<noteq> []" by (subst string_of_nat.simps) simp
  then show ?thesis using string_of_nat_value [of n] by (cases "string_of_nat n") auto
qed

lemma atoi_string_of_int:
  assumes "- (2 ^ 31) \<le> i" "i < 2 ^ 31"
  shows "atoi (string_of_int i) = i"
proof -
  have nsp: "\<not> is_c_space c" if "is_c_digit c \<or> c = CHR ''-''" for c
    using that by (auto simp: is_c_digit_def is_c_space_def)
  obtain c s where c: "string_of_nat (nat \<bar>i\<bar>) = c # s" "is_c_digit c" using string_of_nat_Cons by blast
  have c': "c \<noteq> CHR ''-''" "c \<noteq> CHR ''+''" using c(2) by (auto simp: is_c_digit_def)
  have "strtol10 (string_of_int i) = max (- (2 ^ 63)) (min (2 ^ 63 - 1) i)"
  proof (cases "i < 0")
    case True
    then have "nat (- i) = nat \<bar>i\<bar>" by simp
    then show ?thesis
      using True nsp digits_value_string [of "nat (- i)"] by (simp add: string_of_int_def strtol10_def Let_def)
  next
    case False
    then show ?thesis
      using c c' nsp digits_value_string [of "nat i"] by (simp add: string_of_int_def strtol10_def Let_def)
  qed
  also have "\<dots> = i" using assms by simp
  finally show ?thesis using assms by (simp add: atoi_def signed_take_bit_int_eq_self)
qed

section \<open>Flags and letters\<close>

definition chan_flags :: "32 word" where
  "chan_flags = MODE_SECRET OR MODE_PRIVATE OR MODE_MODERATED OR MODE_TOPICLIMIT OR MODE_INVITEONLY OR
     MODE_NOPRIVMSGS OR MODE_SSLONLY"

lemma one_flag: "F = 2 ^ k \<Longrightarrow> k < 32 \<Longrightarrow> (if has_flag f F then F else 0) = f AND (F :: 32 word)"
proof -
  assume F: "F = 2 ^ k" and k: "k < 32"
  have "f AND 2 ^ k = (if bit f k then 2 ^ k else 0)"
    by (rule bit_eqI) (auto simp: bit_simps)
  moreover have "(2 :: 32 word) ^ k \<noteq> 0" using k by simp
  ultimately show ?thesis unfolding F has_flag_def by simp
qed

lemma sjoin_modes_letters:
  "CHR ''k'' \<notin> set ls \<Longrightarrow> CHR ''l'' \<notin> set ls \<Longrightarrow> sjoin_modes parv (ls @ rest) args m =
   sjoin_modes parv rest args (m\<lparr>cm_mode := fold (\<lambda>c f. f OR sjoin_flag c) ls (cm_mode m)\<rparr>)"
  by (induction ls arbitrary: m) auto

lemma mode_letters_fold:
  assumes "f AND NOT chan_flags = 0"
  shows "fold (\<lambda>c g. g OR sjoin_flag c) (CHR ''+'' # mode_letters f) 0 = f"
proof -
  have p: "(if has_flag f F then F else 0) = f AND F"
    if "F \<in> {MODE_SECRET, MODE_PRIVATE, MODE_MODERATED, MODE_TOPICLIMIT, MODE_INVITEONLY, MODE_NOPRIVMSGS, MODE_SSLONLY}" for F
  proof -
    have "\<exists>k < 32. F = 2 ^ k"
      using that by (auto simp: mode_defs intro: exI [of _ 0] exI [of _ 1] exI [of _ 2] exI [of _ 3] exI [of _ 4] exI [of _ 5] exI [of _ 7])
    then show ?thesis using one_flag by blast
  qed
  have fo: "fold (\<lambda>c g. g OR sjoin_flag c) (if b then [c] else []) g = g OR (if b then sjoin_flag c else 0)" for b c g
    by simp
  have fl: "sjoin_flag (CHR ''s'') = MODE_SECRET" "sjoin_flag (CHR ''p'') = MODE_PRIVATE" "sjoin_flag (CHR ''m'') = MODE_MODERATED"
      "sjoin_flag (CHR ''t'') = MODE_TOPICLIMIT" "sjoin_flag (CHR ''i'') = MODE_INVITEONLY"
      "sjoin_flag (CHR ''n'') = MODE_NOPRIVMSGS" "sjoin_flag (CHR ''S'') = MODE_SSLONLY" "sjoin_flag (CHR ''+'') = 0"
    by (simp_all add: sjoin_flag_def)
  have "fold (\<lambda>c g. g OR sjoin_flag c) (CHR ''+'' # mode_letters f) 0 = f AND chan_flags"
    unfolding mode_letters_def fold_append comp_def fold_simps fo fl
    by (simp add: p chan_flags_def bit.conj_disj_distrib or.assoc del: if_bool_eq_disj split del: if_split)
  also have "\<dots> = f"
    using assms by (metis bit.conj_cancel_right bit.conj_disj_distrib bit.disj_cancel_right or.right_neutral and.right_neutral bit.conj_one_right)
  finally show ?thesis .
qed


definition moded_world :: world where
  "moded_world = upd_chan 10 (set_chmode \<lparr>cm_mode = MODE_INVITEONLY, cm_limit = 3, cm_key = ''k''\<rparr>)
     (upd_client 0 (\<lambda>c. c\<lparr>cl_status := STAT_ME\<rparr>) small_channel)"


end
