(* ===== verification/ChanCmds.thy ===== *)
theory ChanCmds
  imports Join
begin

unbundle bit_operations_syntax

text \<open>
  The commands PART, KICK, TOPIC, INVITE and KNOCK (\<open>modules/core/m_part.c\<close>,
  \<open>modules/core/m_kick.c\<close>, \<open>modules/m_topic.c\<close>, \<open>modules/m_invite.c\<close>, \<open>modules/m_knock.c\<close>).
\<close>

record cmd_env =
  ce_join :: join_env
  ce_away :: "cid \<Rightarrow> cstring option"
  ce_firsttime :: "cid \<Rightarrow> int"
  ce_anti_spam_time :: int
  ce_invite_ops_only :: bool
  ce_use_knock :: bool
  ce_knock_delay :: int
  ce_knock_delay_channel :: int

abbreviation ce_cfg :: "cmd_env \<Rightarrow> config" where
  "ce_cfg env \<equiv> je_cfg (ce_join env)"

abbreviation ce_mode :: "cmd_env \<Rightarrow> mode_env" where
  "ce_mode env \<equiv> je_mode (ce_join env)"

definition REASONLEN :: nat where "REASONLEN = 120"

definition CAP_KNOCK :: "32 word" where "CAP_KNOCK = 0x00400"

text \<open>\<open>strchr(s, ',')\<close> with the comma overwritten by the end of the string.\<close>

definition up_to_comma :: "cstring \<Rightarrow> cstring" where
  "up_to_comma s = takeWhile (\<lambda>c. c \<noteq> CHR '','') s"

definition end_grace_of :: "cid \<Rightarrow> world \<Rightarrow> world" where
  "end_grace_of source_p w =
     (if MyClient (client_of w source_p) \<and> \<not> cl_flood_done (client_of w source_p)
      then flood_endgrace source_p w else w)"

text \<open>The two messages to servers, with ids and with names.\<close>

definition to_servers :: "cid \<Rightarrow> client \<Rightarrow> cstring \<Rightarrow> cstring \<Rightarrow> msg list" where
  "to_servers client_p c with_ids with_names =
     [ToServer client_p CAP_TS6 0 ('':'' @ use_id c @ with_ids),
      ToServer client_p 0 CAP_TS6 ('':'' @ cl_name c @ with_names)]"

text \<open>The macro \<open>get_id\<close>: the name of a client as the link of another knows it.\<close>

definition id_for :: "cmd_env \<Rightarrow> world \<Rightarrow> cid \<Rightarrow> cid \<Rightarrow> cstring" where
  "id_for env w source target =
     (let tf = client_of w (je_from (ce_join env) target)
      in if IsServer tf \<and> cl_id tf \<noteq> [] then use_id (client_of w source) else cl_name (client_of w source))"

section \<open>PART\<close>

text \<open>Whether the reason is shown; \<open>can_send\<close> is only asked for a local client that is no operator.\<close>

definition part_reason ::
  "cmd_env \<Rightarrow> cid \<Rightarrow> chid \<Rightarrow> mid \<Rightarrow> cstring \<Rightarrow> resvs \<Rightarrow> world \<Rightarrow> bool \<times> resvs \<times> world" where
  "part_reason env source_p chptr msptr reason rv w =
     (if reason = [] then (False, rv, w)
      else if is_chanop (mem_of w msptr) \<or> \<not> cl_myconnect (client_of w source_p) then (True, rv, w)
      else case can_send (ce_cfg env) chptr source_p (Some msptr) rv w of
             (r, rv', w') \<Rightarrow>
               (r \<noteq> CAN_SEND_NO \<and> ce_firsttime env source_p + ce_anti_spam_time env < w_time w, rv', w'))"

definition part_one_client ::
  "cmd_env \<Rightarrow> cid \<Rightarrow> cid \<Rightarrow> cstring \<Rightarrow> cstring \<Rightarrow> resvs \<Rightarrow> world \<Rightarrow> msg list \<times> resvs \<times> world" where
  "part_one_client env client_p source_p name reason rv w =
     (case find_channel w name of
        None \<Rightarrow> ([Numeric source_p ''ERR_NOSUCHCHANNEL'' [name]], rv, w)
      | Some chptr \<Rightarrow>
          case find_channel_membership w chptr source_p of
            None \<Rightarrow> ([Numeric source_p ''ERR_NOTONCHANNEL'' [name]], rv, w)
          | Some msptr \<Rightarrow>
              let c = client_of w source_p;
                  (warn, w1) = (if cl_myconnect c \<and> \<not> cl_oper c \<and> \<not> je_exempt_spambot (ce_join env) source_p
                                then warn_spambot (ce_join env) source_p None w else ([], w));
                  (shown, rv', w2) = part_reason env source_p chptr msptr reason rv w1;
                  text = '' PART '' @ ch_chname (chan_of w2 chptr) @ (if shown then '' :'' @ reason else [])
              in (warn @ to_servers client_p c text text @ [ToChannel ALL_MEMBERS chptr (user_prefix c @ text)],
                  rv', remove_user_from_channel msptr w2))"

fun part_list ::
  "cmd_env \<Rightarrow> cid \<Rightarrow> cid \<Rightarrow> cstring list \<Rightarrow> cstring \<Rightarrow> resvs \<Rightarrow> world \<Rightarrow> msg list \<times> resvs \<times> world" where
  "part_list env client_p source_p [] reason rv w = ([], rv, w)"
| "part_list env client_p source_p (n # ns) reason rv w =
     (let (out, rv1, w1) = part_one_client env client_p source_p n reason rv w;
          (out', rv2, w2) = part_list env client_p source_p ns reason rv1 w1
      in (out @ out', rv2, w2))"

definition m_part :: "cmd_env \<Rightarrow> cid \<Rightarrow> cid \<Rightarrow> cstring list \<Rightarrow> resvs \<Rightarrow> world \<Rightarrow> msg list \<times> resvs \<times> world" where
  "m_part env client_p source_p parv rv w =
     part_list env client_p source_p (strtok_commas (parv ! 1))
       (if length parv > 2 then take REASONLEN (parv ! 2) else []) rv (end_grace_of source_p w)"

section \<open>KICK\<close>

text \<open>The checks on the source: \<open>Some\<close> error, or the kick may go on.\<close>

definition kick_refused :: "cid \<Rightarrow> chid \<Rightarrow> world \<Rightarrow> cstring option" where
  "kick_refused source_p chptr w =
     (let c = client_of w source_p; msptr = find_channel_membership w chptr source_p
      in if IsServer c then None
         else if msptr = None \<and> cl_myconnect c then Some ''ERR_NOTONCHANNEL''
         else if \<not> (case msptr of None \<Rightarrow> False | Some m \<Rightarrow> is_chanop (mem_of w m)) \<and>
                 (cl_myconnect c \<or> ch_channelts (chan_of w chptr) = 0)
         then Some ''ERR_CHANOPRIVSNEEDED''
         else None)"

definition kick_messages :: "cid \<Rightarrow> client \<Rightarrow> client \<Rightarrow> chid \<Rightarrow> cstring \<Rightarrow> cstring \<Rightarrow> cstring \<Rightarrow> msg list" where
  "kick_messages client_p c who chptr name chname comment =
     ToChannel ALL_MEMBERS chptr ((if IsServer c then '':'' @ cl_name c else user_prefix c) @
       '' KICK '' @ name @ '' '' @ cl_name who @ '' :'' @ comment) #
     to_servers client_p c ('' KICK '' @ chname @ '' '' @ use_id who @ '' :'' @ comment)
       ('' KICK '' @ chname @ '' '' @ cl_name who @ '' :'' @ comment)"

definition m_kick :: "cmd_env \<Rightarrow> cid \<Rightarrow> cid \<Rightarrow> cstring list \<Rightarrow> world \<Rightarrow> msg list \<times> world" where
  "m_kick env client_p source_p parv w0 =
     (let w = end_grace_of source_p w0; name = up_to_comma (parv ! 1); user = up_to_comma (parv ! 2);
          c = client_of w source_p
      in case find_channel w name of
           None \<Rightarrow> ([Numeric source_p ''ERR_NOSUCHCHANNEL'' [name]], w)
         | Some chptr \<Rightarrow>
             case kick_refused source_p chptr w of
               Some e \<Rightarrow> ([Numeric source_p e [name]], w)
             | None \<Rightarrow>
                 case find_chasing (ce_mode env) w source_p user of
                   (None, out) \<Rightarrow> (out, w)
                 | (Some who, out) \<Rightarrow>
                     case find_channel_membership w chptr who of
                       None \<Rightarrow> (out @ (if MyClient c then [Numeric source_p ''ERR_USERNOTINCHANNEL'' [user, name]] else []), w)
                     | Some msptr \<Rightarrow>
                         let reason = (if length parv \<le> 3 \<or> parv ! 3 = [] then cl_name (client_of w who) else parv ! 3)
                         in (out @ kick_messages client_p c (client_of w who) chptr name (ch_chname (chan_of w chptr)) (take REASONLEN reason),
                             remove_user_from_channel msptr w))"

section \<open>TOPIC\<close>

definition USERHOST_REPLYLEN :: nat where "USERHOST_REPLYLEN = NICKLEN + HOSTLEN + USERLEN + 5"

definition topic_text :: "channel \<Rightarrow> cstring" where
  "topic_text ch = (case ch_topic ch of None \<Rightarrow> [] | Some t \<Rightarrow> tp_topic t)"

definition m_topic :: "cmd_env \<Rightarrow> cid \<Rightarrow> cid \<Rightarrow> cstring list \<Rightarrow> world \<Rightarrow> msg list \<times> world" where
  "m_topic env client_p source_p parv w0 =
     (let w = end_grace_of source_p w0; name = up_to_comma (parv ! 1); c = client_of w source_p;
          say = (\<lambda>e. ([Numeric source_p e [name]], w))
      in if \<not> IsChannelName name then say ''ERR_NOSUCHCHANNEL''
         else case find_channel w name of
                None \<Rightarrow> say ''ERR_NOSUCHCHANNEL''
              | Some chptr \<Rightarrow>
                  let ch = chan_of w chptr
                  in if length parv > 2 then
                       (case find_channel_membership w chptr source_p of
                          None \<Rightarrow> say ''ERR_NOTONCHANNEL''
                        | Some msptr \<Rightarrow>
                            if \<not> has_flag (ch_mode ch) MODE_TOPICLIMIT \<or> is_chanop (mem_of w msptr) then
                              let w1 = set_channel_topic (ce_cfg env) chptr (parv ! 2)
                                         (take (USERHOST_REPLYLEN - 1) (nuh c (cl_host c))) (w_time w) w;
                                  text = '' TOPIC '' @ ch_chname ch @ '' :'' @ topic_text (chan_of w1 chptr)
                              in (to_servers client_p c text text @ [ToChannel ALL_MEMBERS chptr (user_prefix c @ text)], w1)
                            else say ''ERR_CHANOPRIVSNEEDED'')
                     else if MyClient c then
                       (if \<not> IsMember w source_p chptr \<and> has_flag (ch_mode ch) MODE_SECRET then say ''ERR_NOTONCHANNEL''
                        else if ch_topic ch = None then say ''RPL_NOTOPIC''
                        else (topic_replies source_p ch, w))
                     else ([], w))"

section \<open>INVITE\<close>

text \<open>What stops an invitation, in the order of the checks: the messages to the source.\<close>

definition invite_refused :: "cmd_env \<Rightarrow> cid \<Rightarrow> cid \<Rightarrow> cstring \<Rightarrow> world \<Rightarrow> (msg list) option" where
  "invite_refused env source_p target_p name w =
     (let my = MyClient (client_of w source_p); say = (\<lambda>e args. Some [Numeric source_p e args])
      in if \<not> check_channel_name name then say ''ERR_BADCHANNAME'' [name]
         else if \<not> IsChannelName name then (if my then say ''ERR_NOSUCHCHANNEL'' [name] else Some [])
         else if char_at name 0 = CHR ''&'' \<and> \<not> cl_myconnect (client_of w target_p)
           then say ''ERR_USERNOTONSERV'' [cl_name (client_of w target_p)]
         else case find_channel w name of
                None \<Rightarrow> say ''ERR_NOSUCHCHANNEL'' [name]
              | Some chptr \<Rightarrow>
                  let msptr = find_channel_membership w chptr source_p
                  in if my \<and> msptr = None then say ''ERR_NOTONCHANNEL'' [name]
                     else if IsMember w target_p chptr
                       then say ''ERR_USERONCHANNEL'' [cl_name (client_of w target_p), name]
                     else if (ce_invite_ops_only env \<or> has_flag (ch_mode (chan_of w chptr)) MODE_INVITEONLY) \<and> my \<and>
                             \<not> (case msptr of None \<Rightarrow> False | Some m \<Rightarrow> is_chanop (mem_of w m))
                       then say ''ERR_CHANOPRIVSNEEDED'' [name]
                     else None)"

definition m_invite :: "cmd_env \<Rightarrow> cid \<Rightarrow> cid \<Rightarrow> cstring list \<Rightarrow> world \<Rightarrow> fault + msg list \<times> world" where
  "m_invite env client_p source_p parv w0 =
     (let w = end_grace_of source_p w0; c = client_of w source_p; nick = parv ! 1; name = parv ! 2
      in case (if MyClient c then find_named_person (ce_mode env) w nick else find_person (ce_mode env) w nick) of
           None \<Rightarrow> Inr ([Numeric source_p ''ERR_NOSUCHNICK'' [if IsDigit (char_at nick 0) then ''*'' else nick]], w)
         | Some target_p \<Rightarrow>
             case invite_refused env source_p target_p name w of
               Some out \<Rightarrow> Inr (out, w)
             | None \<Rightarrow>
                 let t = client_of w target_p; chptr = the (find_channel w name); ch = chan_of w chptr;
                     told = (if cl_myconnect c then
                               Numeric source_p ''RPL_INVITING'' [cl_name t, name] #
                               (case ce_away env target_p of None \<Rightarrow> [] | Some a \<Rightarrow> [Numeric source_p ''RPL_AWAY'' [cl_name t, a]])
                             else [])
                 in if cl_myconnect t then
                      (let out = told @ [ToOne target_p (user_prefix c @ '' INVITE '' @ cl_name t @ '' :'' @ ch_chname ch)]
                       in if has_flag (ch_mode ch) MODE_INVITEONLY
                          then (case add_invite (ce_cfg env) chptr target_p w of
                                  None \<Rightarrow> Inl NullDeref
                                | Some w' \<Rightarrow> Inr (out, w'))
                          else Inr (out, w))
                    else Inr (told @ (if je_from (ce_join env) target_p \<noteq> client_p
                                      then [ToOne target_p ('':'' @ id_for env w source_p target_p @ '' INVITE '' @ id_for env w target_p target_p @ '' :'' @ ch_chname ch)] else []), w))"

section \<open>KNOCK\<close>

text \<open>The times of the last knock of a client and at a channel.\<close>

record knocks =
  kn_client :: "cid \<Rightarrow> int"
  kn_chan :: "chid \<Rightarrow> int"

definition knock_refused :: "cmd_env \<Rightarrow> cid \<Rightarrow> chid \<Rightarrow> knocks \<Rightarrow> world \<Rightarrow> (cstring \<times> cstring list) option" where
  "knock_refused env source_p chptr k w =
     (let c = client_of w source_p
      in if \<not> MyClient c then None
         else if fst (is_banned (ce_cfg env) chptr source_p None None None w) = CHFL_BAN then Some (''ERR_CANNOTSENDTOCHAN'', [])
         else if \<not> cl_oper c \<and> kn_client k source_p + ce_knock_delay env > w_time w then Some (''ERR_TOOMANYKNOCK'', [''user''])
         else if kn_chan k chptr + ce_knock_delay_channel env > w_time w then Some (''ERR_TOOMANYKNOCK'', [''channel''])
         else None)"

definition knock_text :: "client \<Rightarrow> client \<Rightarrow> cstring \<Rightarrow> cstring" where
  "knock_text server c name =
     take (IRCD_BUFSIZE - 1) ('':'' @ cl_name server @ '' 710 '' @ name @ '' '' @ name @ '' '' @ nuh c (cl_host c) @
       '' :has asked for an invite.'')"

definition m_knock :: "cmd_env \<Rightarrow> cid \<Rightarrow> cid \<Rightarrow> cstring list \<Rightarrow> knocks \<Rightarrow> world \<Rightarrow> msg list \<times> knocks" where
  "m_knock env client_p source_p parv k w =
     (let c = client_of w source_p; name = up_to_comma (parv ! 1); say = (\<lambda>e args. ([Numeric source_p e args], k))
      in if MyClient c \<and> \<not> ce_use_knock env then say ''ERR_KNOCKDISABLED'' []
         else if \<not> IsChannelName name then say ''ERR_NOSUCHCHANNEL'' [name]
         else case find_channel w name of
                None \<Rightarrow> say ''ERR_NOSUCHCHANNEL'' [name]
              | Some chptr \<Rightarrow>
                  let ch = chan_of w chptr
                  in if IsMember w source_p chptr then (if MyClient c then say ''ERR_KNOCKONCHAN'' [name] else ([], k))
                     else if \<not> (has_flag (ch_mode ch) MODE_INVITEONLY \<or> ch_key ch \<noteq> [] \<or> chan_full ch) then say ''ERR_CHANOPEN'' [name]
                     else if has_flag (ch_mode ch) MODE_PRIVATE then say ''ERR_CANNOTSENDTOCHAN'' [name]
                     else case knock_refused env source_p chptr k w of
                            Some (e, why) \<Rightarrow> say e (name # why)
                          | None \<Rightarrow>
                              ((if MyClient c then [Numeric source_p ''RPL_KNOCKDLVR'' [name]] else []) @
                               (if ce_use_knock env then [ToChannel ONLY_CHANOPS chptr (knock_text (client_of w me) c name)] else []) @
                               [ToServer client_p (CAP_KNOCK OR CAP_TS6) 0 ('':'' @ use_id c @ '' KNOCK '' @ name),
                                ToServer client_p CAP_KNOCK CAP_TS6 ('':'' @ cl_name c @ '' KNOCK '' @ name)],
                               k\<lparr>kn_client := (if MyClient c then (kn_client k)(source_p := w_time w) else kn_client k),
                                 kn_chan := (kn_chan k)(chptr := w_time w)\<rparr>))"

end
