(* ===== verification/ChanCmdsProps.thy ===== *)
theory ChanCmdsProps
  imports ChanCmds JoinTheorems
begin

unbundle bit_operations_syntax

text \<open>
  What PART, KICK, TOPIC, INVITE and KNOCK promise.
\<close>

section \<open>Steps\<close>

lemma end_grace_kept: "world_inv w \<Longrightarrow> kept w (end_grace_of x w)"
  using flood_endgrace_inv by (auto simp: end_grace_of_def kept_def flood_endgrace_def)

lemma end_grace_sel [simp]:
  "w_channels (end_grace_of x w) = w_channels w" "w_mems (end_grace_of x w) = w_mems w"
  "w_hash (end_grace_of x w) = w_hash w" "w_time (end_grace_of x w) = w_time w"
  "chan_of (end_grace_of x w) ch = chan_of w ch" "mem_of (end_grace_of x w) m = mem_of w m"
  "cl_status (client_of (end_grace_of x w) y) = cl_status (client_of w y)"
  "cl_channel (client_of (end_grace_of x w) y) = cl_channel (client_of w y)"
  "cl_user (client_of (end_grace_of x w) y) = cl_user (client_of w y)"
  "cl_myconnect (client_of (end_grace_of x w) y) = cl_myconnect (client_of w y)"
  by (simp_all add: end_grace_of_def flood_endgrace_def chan_of_def mem_of_def)

lemma end_grace_lookups [simp]:
  "find_channel (end_grace_of x w) n = find_channel w n"
  "find_channel_membership (end_grace_of x w) ch y = find_channel_membership w ch y"
  "IsMember (end_grace_of x w) y ch = IsMember w y ch"
  "MyClient (client_of (end_grace_of x w) y) = MyClient (client_of w y)"
  "IsServer (client_of (end_grace_of x w) y) = IsServer (client_of w y)"
  by (simp_all add: find_channel_def find_channel_membership_def IsMember_def IsClient_def IsServer_def MyClient_def
      split: option.split)

lemma cache_ban_kept:
  assumes "world_inv w" "w_mems w m = Some ms"
  shows "kept w (cache_ban (Some m) b n w) \<and> w_channels (cache_ban (Some m) b n w) = w_channels w \<and>
    (\<exists>ms'. w_mems (cache_ban (Some m) b n w) = (w_mems w)(m \<mapsto> ms') \<and> ms_chptr ms' = ms_chptr ms \<and> ms_client_p ms' = ms_client_p ms)"
  using assms upd_mem_world_inv [OF assms, of "\<lambda>ms. ms\<lparr>ms_ban_serial := n,
      ms_flags := (if b then ms_flags ms OR CHFL_BANNED else ms_flags ms AND NOT CHFL_BANNED)\<rparr>"]
  by (auto simp: cache_ban_def kept_def is_chanop_def)

text \<open>\<open>can_send\<close> changes at most what is cached in the membership.\<close>

lemma can_send_kept:
  assumes inv: "world_inv w" and m: "w_mems w m = Some ms" and r: "can_send cfg ch x (Some m) rv w = (a, rv', w')"
  shows "kept w w' \<and> w_channels w' = w_channels w \<and>
    (\<exists>ms'. w_mems w' = (w_mems w)(m \<mapsto> ms') \<and> ms_chptr ms' = ms_chptr ms \<and> ms_client_p ms' = ms_client_p ms)"
proof -
  have "w' = w \<or> (\<exists>b n. w' = cache_ban (Some m) b n w)"
    using r by (auto simp: can_send_def can_send_member_def is_banned_def Let_def split: if_splits prod.splits option.splits)
  then show ?thesis
  proof
    assume "w' = w"
    moreover have "w_mems w = (w_mems w)(m \<mapsto> ms)" using m by auto
    ultimately show ?thesis using kept_refl [OF inv] by auto
  qed (use cache_ban_kept [OF inv m] in auto)
qed

lemma membership_live:
  assumes "world_inv w" "find_channel_membership w ch x = Some m" "w_channels w ch \<noteq> None"
  obtains ms where "w_mems w m = Some ms" "ms_chptr ms = ch" "ms_client_p ms = x"
proof -
  obtain c where "w_channels w ch = Some c" using assms(3) by blast
  then show thesis using find_channel_membership_sound [of w ch c x m] assms(1,2) that by (auto simp: world_inv_def membership_of_def)
qed

section \<open>PART\<close>

lemma part_one_cases:
  assumes inv: "world_inv w" and n: "nul_free name" and r: "part_one_client env client_p x name reason rv w = (out, rv', w')"
  obtains (none) "w' = w" "\<And>ch. find_channel w name = Some ch \<Longrightarrow> find_channel_membership w ch x = None"
  | (left) ch m where "find_channel w name = Some ch" "find_channel_membership w ch x = Some m" "kept w w'"
      "w_mems w' = (w_mems w)(m := None)"
proof (cases "find_channel w name")
  case None
  then show thesis using r none by (simp add: part_one_client_def)
next
  case (Some ch)
  show thesis
  proof (cases "find_channel_membership w ch x")
    case None
    then show thesis using r Some none by (simp add: part_one_client_def)
  next
    case m: (Some m)
    have live: "w_channels w ch \<noteq> None" by (rule find_channel_live [OF inv n Some])
    obtain ms where ms: "w_mems w m = Some ms" using membership_live [OF inv m live] by blast
    obtain warn w1 where 1: "(if cl_myconnect (client_of w x) \<and> \<not> cl_oper (client_of w x) \<and> \<not> je_exempt_spambot (ce_join env) x
        then warn_spambot (ce_join env) x None w else ([], w)) = (warn, w1)" by fastforce
    then have k1: "kept w w1" "w_mems w1 = w_mems w"
      using warn_spambot_kept [OF inv] kept_refl [OF inv] by (auto split: if_splits)
    obtain shown rv2 w2 where 2: "part_reason env x ch m reason rv w1 = (shown, rv2, w2)" using prod_cases3 by blast
    have "kept w1 w2 \<and> (\<exists>ms'. w_mems w2 = (w_mems w1)(m \<mapsto> ms'))"
      using 2 can_send_kept [OF keptD(1) [OF k1(1)], of m ms] kept_refl [OF keptD(1) [OF k1(1)]] ms k1(2)
      by (fastforce simp: part_reason_def split: if_splits prod.splits)
    then obtain ms2 where k2: "kept w1 w2" "w_mems w2 = (w_mems w)(m \<mapsto> ms2)" using k1(2) by auto
    have "w_mems w2 m = Some ms2" using k2(2) by simp
    note rem = remove_user_kept [OF keptD(1) [OF k2(1)] this] remove_user_effect(1) [OF keptD(1) [OF k2(1)] this]
    have "w' = remove_user_from_channel m w2"
      using r unfolding part_one_client_def Some m option.case Let_def 1 prod.case 2 by simp
    then have "kept w w'" "w_mems w' = (w_mems w)(m := None)"
      using rem k2 kept_trans [OF k1(1) k2(1)] kept_trans by auto
    then show thesis using left Some m by blast
  qed
qed

lemma part_list_kept:
  "world_inv w \<Longrightarrow> \<forall>n \<in> set ns. nul_free n \<Longrightarrow> part_list env client_p x ns reason rv w = (out, rv', w') \<Longrightarrow> kept w w'"
proof (induction ns arbitrary: rv w out)
  case (Cons n ns)
  obtain o1 rv1 w1 where 1: "part_one_client env client_p x n reason rv w = (o1, rv1, w1)" using prod_cases3 by blast
  obtain o2 where 2: "part_list env client_p x ns reason rv1 w1 = (o2, rv', w')"
    using Cons.prems(3) 1 by (auto split: prod.splits)
  have "nul_free n" using Cons.prems(2) by simp
  from Cons.prems(1) this 1 have k: "kept w w1"
    by (cases rule: part_one_cases) (simp_all add: kept_refl [OF Cons.prems(1)])
  then show ?case using Cons.IH [OF keptD(1) [OF k] _ 2] Cons.prems(2) kept_trans by auto
qed (simp add: kept_refl)

lemma m_part_kept:
  assumes "world_inv w" "nul_free (parv ! 1)" "m_part env client_p x parv rv w = (out, rv', w')"
  shows "kept w w'"
proof -
  have "\<forall>n \<in> set (strtok_commas (parv ! 1)). nul_free n"
    using comma_split_nul_free [of "[]" "parv ! 1"] assms(2) by (auto simp: strtok_commas_def)
  then show ?thesis
    using part_list_kept [OF keptD(1) [OF end_grace_kept [OF assms(1)]]] assms(3) end_grace_kept [OF assms(1)] kept_trans
    unfolding m_part_def by blast
qed

section \<open>KICK\<close>

lemma m_kick_cases:
  fixes env client_p x parv
  assumes inv: "world_inv w" and n: "nul_free (parv ! 1)" and r: "m_kick env client_p x parv w = (out, w')"
  obtains (none) "w' = end_grace_of x w"
  | (kicked) ch who m where "find_channel w (up_to_comma (parv ! 1)) = Some ch" "kick_refused x ch w = None"
      "find_channel_membership w ch who = Some m" "w' = remove_user_from_channel m (end_grace_of x w)" "w_mems w m \<noteq> None"
proof -
  have nf: "nul_free (up_to_comma (parv ! 1))"
    using n by (auto simp: nul_free_def up_to_comma_def dest: set_takeWhileD)
  have kr: "kick_refused x ch (end_grace_of x w) = kick_refused x ch w" for ch
    by (simp add: kick_refused_def Let_def split: option.split)
  have live: "w_mems w m \<noteq> None"
    if "find_channel w (up_to_comma (parv ! 1)) = Some ch" "find_channel_membership w ch who = Some m" for ch who m
    using membership_live [OF inv that(2) find_channel_live [OF inv nf that(1)]] by blast
  have "w' = end_grace_of x w \<or> (\<exists>ch who m. find_channel w (up_to_comma (parv ! 1)) = Some ch \<and> kick_refused x ch w = None \<and>
      find_channel_membership w ch who = Some m \<and> w' = remove_user_from_channel m (end_grace_of x w))"
    using r unfolding m_kick_def Let_def end_grace_lookups kr by (auto split: option.splits prod.splits)
  then show thesis using none kicked live by blast
qed

lemma m_kick_kept:
  assumes inv: "world_inv w" and n: "nul_free (parv ! 1)" and r: "m_kick env client_p x parv w = (out, w')"
  shows "kept w w'"
  using inv n r
proof (cases rule: m_kick_cases)
  case none
  then show ?thesis using end_grace_kept [OF inv] by simp
next
  case (kicked ch who m)
  obtain ms where "w_mems (end_grace_of x w) m = Some ms" using kicked(5) by auto
  from remove_user_kept [OF keptD(1) [OF end_grace_kept [OF inv]] this] show ?thesis
    using kicked(4) end_grace_kept [OF inv] kept_trans by blast
qed

section \<open>TOPIC and INVITE\<close>

lemma m_topic_kept:
  assumes inv: "world_inv w" and n: "nul_free (parv ! 1)" and r: "m_topic env client_p x parv w = (out, w')"
  shows "kept w w'"
proof -
  have nf: "nul_free (up_to_comma (parv ! 1))"
    using n by (auto simp: nul_free_def up_to_comma_def dest: set_takeWhileD)
  note g = end_grace_kept [OF inv, of x]
  have t: "kept (end_grace_of x w) (set_channel_topic cfg ch a b c (end_grace_of x w))"
    if f: "find_channel w (up_to_comma (parv ! 1)) = Some ch" for cfg ch a b c
  proof -
    obtain d where "w_channels (end_grace_of x w) ch = Some d" using find_channel_live [OF inv nf f] by auto
    from topic_world_inv [OF keptD(1) [OF g] this] show ?thesis unfolding kept_def by (simp add: set_channel_topic_def)
  qed
  have "w' = end_grace_of x w \<or> (\<exists>ch cfg a b c. find_channel w (up_to_comma (parv ! 1)) = Some ch \<and>
      w' = set_channel_topic cfg ch a b c (end_grace_of x w))"
    using r unfolding m_topic_def Let_def end_grace_lookups by (auto split: if_splits option.splits)
  then show ?thesis using g t kept_trans by blast
qed

lemma m_invite_cases:
  assumes inv: "world_inv w" and n: "nul_free (parv ! 2)" and r: "m_invite env client_p x parv w = Inr (out, w')"
  obtains (none) "w' = end_grace_of x w"
  | (invited) t ch where "find_channel w (parv ! 2) = Some ch" "invite_refused env x t (parv ! 2) (end_grace_of x w) = None"
      "has_flag (ch_mode (chan_of w ch)) MODE_INVITEONLY" "cl_myconnect (client_of w t)"
      "add_invite (ce_cfg env) ch t (end_grace_of x w) = Some w'" "w_channels w ch \<noteq> None"
proof -
  have f: "\<exists>ch. find_channel w (parv ! 2) = Some ch" if "invite_refused env x t (parv ! 2) (end_grace_of x w) = None" for t
    using that by (auto simp: invite_refused_def Let_def split: if_splits option.splits)
  have live: "w_channels w ch \<noteq> None" if "find_channel w (parv ! 2) = Some ch" for ch
    by (rule find_channel_live [OF inv n that])
  have "w' = end_grace_of x w \<or> (\<exists>t. invite_refused env x t (parv ! 2) (end_grace_of x w) = None \<and>
      has_flag (ch_mode (chan_of w (the (find_channel w (parv ! 2))))) MODE_INVITEONLY \<and> cl_myconnect (client_of w t) \<and>
      add_invite (ce_cfg env) (the (find_channel w (parv ! 2))) t (end_grace_of x w) = Some w')"
    using r unfolding m_invite_def Let_def by (auto split: option.splits if_splits)
  then show thesis using none invited live f by (metis option.sel)
qed

lemma m_invite_kept:
  assumes inv: "world_inv w" and n: "nul_free (parv ! 2)" and r: "m_invite env client_p x parv w = Inr (out, w')"
  shows "kept w w'"
  using inv n r
proof (cases rule: m_invite_cases)
  case none
  then show ?thesis using end_grace_kept [OF inv] by simp
next
  case (invited t ch)
  let ?w = "end_grace_of x w"
  obtain c where c: "w_channels ?w ch = Some c" using invited(6) by auto
  have "world_inv w'" by (rule add_invite_world_inv [OF keptD(1) [OF end_grace_kept [OF inv]] c invited(5)])
  moreover have "cl_status (client_of w' y) = cl_status (client_of ?w y)" for y
    using invited(5) by (auto simp: add_invite_def Let_def del_invite_def split: if_splits)
  ultimately show ?thesis by (simp add: kept_def)
qed

section \<open>Properties\<close>

definition small_cmds :: cmd_env where
  "small_cmds = \<lparr>ce_join = small_join, ce_away = (\<lambda>_. None), ce_firsttime = (\<lambda>_. 0), ce_anti_spam_time = 300,
     ce_invite_ops_only = True, ce_use_knock = True, ce_knock_delay = 300, ce_knock_delay_channel = 60\<rparr>"

text \<open>
  C9. PART, KICK, TOPIC and INVITE keep the consistency of channels, memberships and
  invitations, whatever their arguments.
\<close>

theorem chan_commands_keep_world:
  assumes "world_inv w" "nul_free (parv ! 1)" "nul_free (parv ! 2)"
  shows "world_inv (snd (snd (m_part env client_p source_p parv rv w))) \<and>
    world_inv (snd (m_kick env client_p source_p parv w)) \<and> world_inv (snd (m_topic env client_p source_p parv w)) \<and>
    (case m_invite env client_p source_p parv w of Inl f \<Rightarrow> True | Inr (out, w') \<Rightarrow> world_inv w')"
proof (intro conjI)
  show "world_inv (snd (snd (m_part env client_p source_p parv rv w)))"
    using m_part_kept [OF assms(1,2)] keptD(1) by (metis prod.collapse)
  show "world_inv (snd (m_kick env client_p source_p parv w))"
    using m_kick_kept [OF assms(1,2)] keptD(1) by (metis prod.collapse)
  show "world_inv (snd (m_topic env client_p source_p parv w))"
    using m_topic_kept [OF assms(1,2)] keptD(1) by (metis prod.collapse)
  show "case m_invite env client_p source_p parv w of Inl f \<Rightarrow> True | Inr (out, w') \<Rightarrow> world_inv w'"
    by (auto split: sum.split intro: keptD(1) [OF m_invite_kept [OF assms(1,3)]])
qed

theorem chan_commands_keep_world_witness:
  "world_inv (snd (m_kick small_cmds 1 1 [''nick'', ''#ircd'', ''nick'', ''bye''] small_channel))"
  using chan_commands_keep_world [OF small_channel_inv, of "[''nick'', ''#ircd'', ''nick'', ''bye'']" small_cmds 1 1]
  by (simp add: nul_free_def)

text \<open>
  A client of this server kicks only as an operator of the channel it names, and then exactly
  one member of that channel leaves it.
\<close>

theorem kick_needs_operator:
  assumes inv: "world_inv w" "nul_free (parv ! 1)" and x: "cl_myconnect (client_of w x)" "\<not> IsServer (client_of w x)"
    and r: "m_kick env client_p x parv w = (out, w')" and c: "w_mems w' \<noteq> w_mems w"
  shows "\<exists>ch m k ms. find_channel w (up_to_comma (parv ! 1)) = Some ch \<and> find_channel_membership w ch x = Some m \<and>
    is_chanop (mem_of w m) \<and> w_mems w k = Some ms \<and> ms_chptr ms = ch \<and> w_mems w' = (w_mems w)(k := None)"
  using inv r
proof (cases rule: m_kick_cases)
  case none
  then show ?thesis using c by simp
next
  case (kicked ch who k)
  obtain m where m: "find_channel_membership w ch x = Some m" "is_chanop (mem_of w m)"
    using kicked(2) x by (auto simp: kick_refused_def Let_def split: if_splits option.splits)
  have nf: "nul_free (up_to_comma (parv ! 1))"
    using inv(2) by (auto simp: nul_free_def up_to_comma_def dest: set_takeWhileD)
  obtain ms where ms: "w_mems w k = Some ms" "ms_chptr ms = ch"
    using membership_live [OF inv(1) kicked(3) find_channel_live [OF inv(1) nf kicked(1)]] by blast
  have "w_mems w' = (w_mems w)(k := None)"
    using remove_user_effect(1) [OF keptD(1) [OF end_grace_kept [OF inv(1)]], of x k ms] kicked(4) ms(1) by simp
  then show ?thesis using kicked(1) m ms by blast
qed

definition nick_cmds :: cmd_env where
  "nick_cmds = small_cmds\<lparr>ce_join := small_join\<lparr>je_mode := small_env\<lparr>me_hash_client := hash_add ''nick'' 1 (w_hash small_world)\<rparr>\<rparr>\<rparr>"

lemma nick_cmds_find: "find_named_person (ce_mode nick_cmds) w ''nick'' = (if IsClient (client_of w 1) then Some 1 else None)"
proof -
  have "hash_find_data (hash_add ''nick'' 1 (w_hash small_world)) ''nick'' = Some (1 :: cid)"
    using irc.lookup_add [of "w_hash small_world" "[]" "''nick''" "''nick''" 1] world_start_inv [OF small_world_start]
    by (simp add: world_inv_def name_inv_def irc_eq_def) (simp add: small_world_def nul_free_def)
  then show ?thesis by (simp add: find_named_person_def only_person_def find_named_client_def nick_cmds_def)
qed

lemma small_kick: "snd (m_kick nick_cmds 1 1 [''nick'', ''#ircd'', ''nick''] small_channel) = remove_user_from_channel 11 small_channel"
proof -
  have g: "end_grace_of 1 small_channel = small_channel" using small_channel_client(6) [of 1] by (simp add: end_grace_of_def)
  have k: "kick_refused 1 10 small_channel = None"
    using small_channel_client(4) [of 1]
    by (simp add: kick_refused_def Let_def small_channel_mems is_chanop_def has_flag_def CHFL_CHANOP_def del: One_nat_def)
  have f: "find_chasing (ce_mode nick_cmds) small_channel 1 ''nick'' = (Some 1, [])"
    by (simp add: find_chasing_def small_channel_local(1) nick_cmds_find small_channel_sel(3))
  show ?thesis
    by (simp add: m_kick_def Let_def g [unfolded One_nat_def] up_to_comma_def small_channel_find k [unfolded One_nat_def]
        f [unfolded One_nat_def] small_channel_mems(1) [unfolded One_nat_def])
qed

theorem kick_needs_operator_witness:
  "\<exists>ch m k ms. find_channel small_channel ''#ircd'' = Some ch \<and> find_channel_membership small_channel ch 1 = Some m \<and>
    is_chanop (mem_of small_channel m) \<and> w_mems small_channel k = Some ms \<and> ms_chptr ms = ch \<and>
    w_mems (remove_user_from_channel 11 small_channel) = (w_mems small_channel)(k := None)"
proof -
  let ?p = "[''nick'', ''#ircd'', ''nick'']" and ?w = "remove_user_from_channel 11 small_channel"
  have r: "m_kick nick_cmds 1 1 ?p small_channel = (fst (m_kick nick_cmds 1 1 ?p small_channel), ?w)"
    using small_kick by (metis prod.collapse)
  have "w_mems ?w \<noteq> w_mems small_channel"
    using remove_user_effect(1) [OF small_channel_inv, of 11] by (auto simp: small_channel_sel(1) dest: fun_cong [of _ _ 11])
  then show ?thesis
    using kick_needs_operator [OF small_channel_inv _ small_channel_local(2) small_channel_client(4) r]
    by (simp add: nul_free_def up_to_comma_def)
qed

text \<open>
  A client of this server adds an invitation only as an operator of a channel that is for
  invited clients only; the invitation is for one client and one channel.
\<close>

theorem invite_needs_operator:
  assumes inv: "world_inv w" "nul_free (parv ! 2)" and x: "MyClient (client_of w x)"
    and r: "m_invite env client_p x parv w = Inr (out, w')"
    and c: "ch \<in> set (cl_invited (client_of w' t))" "ch \<notin> set (cl_invited (client_of w t))"
  shows "find_channel w (parv ! 2) = Some ch \<and> has_flag (ch_mode (chan_of w ch)) MODE_INVITEONLY \<and>
    (\<exists>m. find_channel_membership w ch x = Some m \<and> is_chanop (mem_of w m)) \<and> w_mems w' = w_mems w \<and>
    (\<forall>y. y \<noteq> t \<longrightarrow> cl_invited (client_of w' y) = cl_invited (client_of w y))"
  using inv r
proof (cases rule: m_invite_cases)
  case none
  then show ?thesis using c by (simp add: end_grace_of_def flood_endgrace_def split: if_splits)
next
  case (invited t' ch')
  have same: "cl_invited (client_of (end_grace_of x w) y) = cl_invited (client_of w y)" for y
    by (simp add: end_grace_of_def flood_endgrace_def)
  have "ch' = ch \<and> t' = t \<and> w_mems w' = w_mems w \<and> (\<forall>y. y \<noteq> t \<longrightarrow> cl_invited (client_of w' y) = cl_invited (client_of w y))"
    using invited(5) c same
    by (auto simp: add_invite_def Let_def del_invite_def split: if_splits dest: notin_set_remove1)
  moreover obtain m where "find_channel_membership w ch' x = Some m" "is_chanop (mem_of w m)"
    using invited(1,2,3) x by (auto simp: invite_refused_def Let_def split: if_splits option.splits)
  ultimately show ?thesis using invited(1,3) by blast
qed

definition invite_world :: world where
  "invite_world = upd_chan 10 (\<lambda>c. c\<lparr>ch_mode := MODE_INVITEONLY\<rparr>) small_channel"

definition pal_cmds :: cmd_env where
  "pal_cmds = small_cmds\<lparr>ce_join := small_join\<lparr>je_mode := small_env\<lparr>me_hash_client := hash_add ''pal'' 2 (w_hash small_world)\<rparr>\<rparr>\<rparr>"

lemma invite_world_sel:
  "world_inv invite_world" "client_of invite_world x = client_of small_channel x" "w_mems invite_world = w_mems small_channel"
  "find_channel invite_world ''#ircd'' = Some 10" "find_channel_membership invite_world 10 1 = Some 11"
  "\<not> IsMember invite_world 2 10" "mem_of invite_world m = mem_of small_channel m"
  "ch_mode (chan_of invite_world 10) = MODE_INVITEONLY"
proof -
  show i: "world_inv invite_world"
    unfolding invite_world_def by (rule upd_chan_world_inv [OF small_channel_inv small_channel_chan(1)]) simp_all
  show "client_of invite_world x = client_of small_channel x" "w_mems invite_world = w_mems small_channel"
    "mem_of invite_world m = mem_of small_channel m"
    by (simp_all add: invite_world_def mem_of_def)
  show "find_channel invite_world ''#ircd'' = Some 10"
    using small_channel_find by (simp add: invite_world_def find_channel_def)
  show "ch_mode (chan_of invite_world 10) = MODE_INVITEONLY" by (simp add: invite_world_def)
  have c: "w_channels invite_world 10 = Some (chan_of invite_world 10)" by (simp add: invite_world_def chan_of_def)
  have mi: "mem_inv invite_world" using i by (simp add: world_inv_def)
  note s = find_channel_membership_sound [OF mi c, unfolded membership_of_def]
  show "find_channel_membership invite_world 10 1 = Some 11"
    using s [of 1]
    by (cases "find_channel_membership invite_world 10 1") (force simp: invite_world_def small_channel_sel(1) split: if_splits)+
  show "\<not> IsMember invite_world 2 10"
    using c by (subst IsMember_iff [OF i]) (auto simp: membership_of_def invite_world_def small_channel_sel(1) split: if_splits)
qed

lemma small_invite:
  "\<exists>out w'. m_invite pal_cmds 1 1 [''nick'', ''pal'', ''#ircd''] invite_world = Inr (out, w') \<and> 10 \<in> set (cl_invited (client_of w' 2))"
proof -
  have g: "end_grace_of 1 invite_world = invite_world"
    using small_channel_client(6) [of 1] by (simp add: end_grace_of_def invite_world_sel(2))
  have "hash_find_data (hash_add ''pal'' 2 (w_hash small_world)) ''pal'' = Some (2 :: cid)"
    using irc.lookup_add [of "w_hash small_world" "[]" "''pal''" "''pal''" 2] world_start_inv [OF small_world_start]
    by (simp add: world_inv_def name_inv_def irc_eq_def) (simp add: small_world_def nul_free_def)
  then have f: "find_named_person (ce_mode pal_cmds) invite_world ''pal'' = Some 2"
    by (simp add: find_named_person_def only_person_def find_named_client_def pal_cmds_def invite_world_sel(2) small_channel_sel(3))
  have "check_channel_name ''#ircd''" by code_simp
  then have ref: "invite_refused pal_cmds 1 2 ''#ircd'' invite_world = None"
    using invite_world_sel(4-8)
    by (simp add: invite_refused_def Let_def IsChannelName_def char_at_def small_channel_mems(3) is_chanop_def has_flag_def CHFL_CHANOP_def
        del: One_nat_def check_channel_name.simps)
  have i: "cl_invited (client_of invite_world 2) = []"
    by (simp add: invite_world_sel(2) small_channel_def small_world_create Let_def add_user_to_channel_def)
       (simp add: small_world_def user_named_def)
  have "has_flag MODE_INVITEONLY MODE_INVITEONLY" by (simp add: has_flag_def MODE_INVITEONLY_def)
  then show ?thesis
    using f ref i invite_world_sel(4) small_channel_local
    by (simp add: m_invite_def Let_def g invite_world_sel(2,8) add_invite_def pal_cmds_def small_cmds_def small_join_def small_env_def
        small_config_def del: One_nat_def)
qed

theorem invite_needs_operator_witness:
  "\<exists>m. find_channel_membership invite_world 10 1 = Some m \<and> is_chanop (mem_of invite_world m)"
proof -
  obtain out w' where r: "m_invite pal_cmds 1 1 [''nick'', ''pal'', ''#ircd''] invite_world = Inr (out, w')"
      "10 \<in> set (cl_invited (client_of w' 2))" using small_invite by blast
  have "cl_invited (client_of invite_world 2) = []"
    by (simp add: invite_world_sel(2) small_channel_def small_world_create Let_def add_user_to_channel_def)
       (simp add: small_world_def user_named_def)
  then show ?thesis
    using invite_needs_operator [OF invite_world_sel(1) _ _ r(1,2)] small_channel_local(1) by (simp add: invite_world_sel(2) nul_free_def)
qed

section \<open>The rate of knocks\<close>

definition delivered :: "msg list \<Rightarrow> bool" where
  "delivered out = list_ex (\<lambda>m. case m of ToServer _ _ _ _ \<Rightarrow> True | _ \<Rightarrow> False) out"

type_synonym knock = "cid \<times> cid \<times> cstring list \<times> world"

text \<open>The channels and times of the knocks that are delivered, of a sequence of commands.\<close>

fun knock_run :: "cmd_env \<Rightarrow> knocks \<Rightarrow> knock list \<Rightarrow> (chid \<times> int) list" where
  "knock_run env k [] = []"
| "knock_run env k ((client_p, x, parv, w) # es) =
     (case m_knock env client_p x parv k w of
        (out, k') \<Rightarrow>
          (if delivered out then [(the (find_channel w (up_to_comma (parv ! 1))), w_time w)] else []) @ knock_run env k' es)"

lemma m_knock_cases:
  assumes x: "MyClient (client_of w x)" and r: "m_knock env client_p x parv k w = (out, k')"
  obtains "\<not> delivered out" "k' = k"
  | ch where "delivered out" "find_channel w (up_to_comma (parv ! 1)) = Some ch"
      "kn_chan k ch + ce_knock_delay_channel env \<le> w_time w" "kn_chan k' = (kn_chan k)(ch := w_time w)"
proof -
  have "\<not> delivered out \<and> k' = k \<or> (\<exists>ch. delivered out \<and> find_channel w (up_to_comma (parv ! 1)) = Some ch \<and>
      kn_chan k ch + ce_knock_delay_channel env \<le> w_time w \<and> kn_chan k' = (kn_chan k)(ch := w_time w))"
    using r x unfolding m_knock_def Let_def
    by (auto simp: delivered_def knock_refused_def Let_def split: if_splits option.splits)
  then show thesis using that by blast
qed

lemma knock_run_after:
  assumes d: "0 \<le> ce_knock_delay_channel env"
  shows "\<forall>(c, x, p, w) \<in> set es. MyClient (client_of w x) \<Longrightarrow> (ch, t) \<in> set (knock_run env k es) \<Longrightarrow>
    kn_chan k ch + ce_knock_delay_channel env \<le> t"
proof (induction es arbitrary: k)
  case (Cons e es)
  obtain c x p w where e: "e = (c, x, p, w)" using prod_cases4 by blast
  obtain out k' where r: "m_knock env c x p k w = (out, k')" by fastforce
  have x: "MyClient (client_of w x)" using Cons.prems(1) e by simp
  from x r show ?case
  proof (cases rule: m_knock_cases)
    case 1
    then show ?thesis using Cons e r by simp
  next
    case (2 c')
    show ?thesis
    proof (cases "(ch, t) = (c', w_time w)")
      case True
      then show ?thesis using 2 by simp
    next
      case False
      then have "(ch, t) \<in> set (knock_run env k' es)" using Cons.prems(2) e r 2(1,2) by auto
      then have "kn_chan k' ch + ce_knock_delay_channel env \<le> t" using Cons by simp
      then show ?thesis using 2(3,4) d by (auto split: if_splits)
    qed
  qed
qed simp

text \<open>
  Knocks of clients of this server reach the operators of a channel at most once in
  \<open>knock_delay_channel\<close> seconds, whoever knocks.
\<close>

theorem knock_rate:
  assumes "0 \<le> ce_knock_delay_channel env" "\<forall>(c, x, p, w) \<in> set es. MyClient (client_of w x)"
  shows "sorted_wrt (\<lambda>a b. fst a = fst b \<longrightarrow> snd a + ce_knock_delay_channel env \<le> snd b) (knock_run env k es)"
  using assms(2)
proof (induction es arbitrary: k)
  case (Cons e es)
  obtain c x p w where e: "e = (c, x, p, w)" using prod_cases4 by blast
  obtain out k' where r: "m_knock env c x p k w = (out, k')" by fastforce
  have x: "MyClient (client_of w x)" using Cons.prems e by simp
  from x r show ?case
  proof (cases rule: m_knock_cases)
    case 1
    then show ?thesis using Cons e r by simp
  next
    case (2 ch)
    have "w_time w + ce_knock_delay_channel env \<le> snd b" if "b \<in> set (knock_run env k' es)" "fst b = ch" for b
      using knock_run_after [OF assms(1), of es ch "snd b" k'] that Cons.prems 2(4) by (cases b) simp
    then show ?thesis using Cons e r 2 by simp
  qed
qed simp

theorem knock_rate_witness:
  "sorted_wrt (\<lambda>a b. fst a = fst b \<longrightarrow> snd a + 60 \<le> snd b)
     (knock_run small_cmds \<lparr>kn_client = (\<lambda>_. 0), kn_chan = (\<lambda>_. 0)\<rparr>
       [(1, 2, [''nick'', ''#ircd''], invite_world), (1, 3, [''nick'', ''#ircd''], invite_world\<lparr>w_time := 100\<rparr>)])"
  using knock_rate [of small_cmds "[(1, 2, [''nick'', ''#ircd''], invite_world), (1, 3, [''nick'', ''#ircd''], invite_world\<lparr>w_time := 100\<rparr>)]"]
  by (simp add: small_cmds_def invite_world_sel(2) small_channel_local(1))

end
