(* ===== verification/Send.thy ===== *)
theory Send
  imports Mode
begin

unbundle bit_operations_syntax

text \<open>
  \<open>src/send.c\<close>: which send queues a message goes into, and in which form. The queues themselves
  are in \<open>Linebuf\<close>, which also limits and ends the lines; here the text of a line that is attached to the queue of a
  connection is an entry of \<open>ss_sent\<close>. How full a queue is and whether writing it fails depends on the network: both are
  parameters, asked for the connection and the number of lines sent before.
\<close>

record send_env =
  se_from :: "cid \<Rightarrow> cid"
  se_fake :: "cid \<Rightarrow> bool"
  se_deaf :: "cid \<Rightarrow> bool"
  se_umodes :: "cid \<Rightarrow> 32 word"
  se_admin :: "cid \<Rightarrow> bool"
  se_serv_list :: "cid list"
  se_global_serv_list :: "cid list"
  se_lclient_list :: "cid list"
  se_oper_list :: "cid list"
  se_full :: "nat \<Rightarrow> cid \<Rightarrow> bool"
  se_broken :: "nat \<Rightarrow> cid \<Rightarrow> bool"

text \<open>
  \<open>ss_notices\<close> are the notices to operators, \<open>ss_closing\<close> the clients that are dead or closing, \<open>ss_abort\<close> the
  \<open>abort_list\<close> with the reason (the queue or a write error), \<open>ss_ghosts\<close> the clients
  that are killed because their messages come from the wrong direction.
\<close>

record send_state =
  ss_sent :: "(cid \<times> cstring) list"
  ss_notices :: "cstring list"
  ss_ioerror :: "cid \<Rightarrow> bool"
  ss_closing :: "cid \<Rightarrow> bool"
  ss_abort :: "(cid \<times> bool) list"
  ss_ghosts :: "cid list"
  ss_serial :: "cid \<Rightarrow> 64 word"
  ss_current_serial :: "64 word"

definition CAP_CHW :: "32 word" where "CAP_CHW = 0x00008"

definition has_id :: "client \<Rightarrow> bool" where "has_id c = (cl_id c \<noteq> [])"

definition dead_link :: "world \<Rightarrow> cid \<Rightarrow> bool \<Rightarrow> send_state \<Rightarrow> send_state" where
  "dead_link w c sendqex s =
     (if ss_closing s c \<or> IsMe (client_of w c) then s
      else s\<lparr>ss_ioerror := (ss_ioerror s)(c := True), ss_closing := (ss_closing s)(c := True), ss_abort := (c, sendqex) # ss_abort s\<rparr>)"

section \<open>One connection\<close>

text \<open>\<open>send_linebuf\<close> with the call of \<open>send_queued\<close> at its end.\<close>

definition send_linebuf :: "send_env \<Rightarrow> world \<Rightarrow> cid \<Rightarrow> cstring \<Rightarrow> send_state \<Rightarrow> send_state" where
  "send_linebuf env w to_p line s =
     (let c = client_of w to_p; n = length (ss_sent s)
      in if se_fake env to_p then s
         else if IsMe c then s\<lparr>ss_notices := ss_notices s @ [''Trying to send message to myself!'']\<rparr>
         else if \<not> cl_myconnect c \<or> ss_ioerror s to_p then s
         else if se_full env n to_p then
           dead_link w to_p True (if IsServer c then s\<lparr>ss_notices := ss_notices s @ [''Max SendQ limit exceeded for '' @ cl_name c]\<rparr> else s)
         else
           let s1 = s\<lparr>ss_sent := ss_sent s @ [(to_p, line)]\<rparr>
           in if se_broken env n to_p then dead_link w to_p False s1 else s1)"

text \<open>The notice and the killing of a ghost are one entry.\<close>

definition send_rb_linebuf_remote ::
  "send_env \<Rightarrow> world \<Rightarrow> cid \<Rightarrow> cid \<Rightarrow> cstring \<Rightarrow> send_state \<Rightarrow> send_state" where
  "send_rb_linebuf_remote env w to0 frm line s =
     (if se_fake env to0 then s
      else
        let to_p = se_from env to0; t = client_of w to_p; f = client_of w frm
        in if \<not> MyClient f \<and> IsClient t \<and> to_p = se_from env frm then
             (if IsServer f
              then s\<lparr>ss_notices := ss_notices s @ [''Send message to '' @ cl_name t @ '' dropped from '' @ cl_name f @ ''(Fake Dir)'']\<rparr>
              else s\<lparr>ss_notices := ss_notices s @ [''Ghosted: '' @ cl_name t], ss_ghosts := ss_ghosts s @ [to_p]\<rparr>)
           else send_linebuf env w to_p line s)"

definition id_of :: "send_env \<Rightarrow> world \<Rightarrow> cid \<Rightarrow> cid \<Rightarrow> cstring" where
  "id_of env w source target =
     (let tf = client_of w (se_from env target)
      in if IsServer tf \<and> has_id tf then use_id (client_of w source) else cl_name (client_of w source))"

text \<open>The local form of a source: a server's name or \<open>nick!user@host\<close>.\<close>

definition local_source :: "client \<Rightarrow> cstring" where
  "local_source c =
     '':'' @ (if IsServer c then cl_name c else cl_name c @ ''!'' @ cl_username c @ ''@'' @ cl_host c)"

definition sendto_one_buffer :: "send_env \<Rightarrow> world \<Rightarrow> cid \<Rightarrow> cstring \<Rightarrow> send_state \<Rightarrow> send_state" where
  "sendto_one_buffer env w target_p buffer s =
     (if se_fake env target_p \<or> ss_ioerror s (se_from env target_p) then s
      else send_linebuf env w (se_from env target_p) buffer s)"

definition sendto_one :: "send_env \<Rightarrow> world \<Rightarrow> cid \<Rightarrow> cstring \<Rightarrow> send_state \<Rightarrow> send_state" where
  "sendto_one env w target_p text s =
     (if se_fake env target_p \<or> ss_ioerror s (se_from env target_p) then s
      else send_linebuf env w (se_from env target_p) text s)"

definition to_link :: "send_env \<Rightarrow> world \<Rightarrow> cid \<Rightarrow> cstring \<Rightarrow> send_state \<Rightarrow> send_state" where
  "to_link env w dest_p line s =
     (if ss_ioerror s dest_p then s
      else if IsMe (client_of w dest_p) then s\<lparr>ss_notices := ss_notices s @ [''Trying to send to myself!'']\<rparr>
      else send_linebuf env w dest_p line s)"

definition sendto_one_prefix ::
  "send_env \<Rightarrow> world \<Rightarrow> cid \<Rightarrow> cid \<Rightarrow> cstring \<Rightarrow> cstring \<Rightarrow> send_state \<Rightarrow> send_state" where
  "sendto_one_prefix env w target_p source_p command text s =
     to_link env w (se_from env target_p)
       ('':'' @ id_of env w source_p target_p @ '' '' @ command @ '' '' @ id_of env w target_p target_p @ '' '' @ text) s"

definition sendto_one_notice :: "send_env \<Rightarrow> world \<Rightarrow> cid \<Rightarrow> cstring \<Rightarrow> send_state \<Rightarrow> send_state" where
  "sendto_one_notice env w target_p text s =
     (if se_fake env target_p then s
      else if cl_myconnect (client_of w target_p) then
        (if ss_ioerror s target_p then s
         else send_linebuf env w target_p
                ('':'' @ cl_name (client_of w me) @ '' NOTICE '' @ cl_name (client_of w target_p) @ '' '' @ text) s)
      else to_link env w (se_from env target_p)
             ('':'' @ id_of env w me target_p @ '' NOTICE '' @ id_of env w target_p target_p @ '' '' @ text) s)"

definition pad3 :: "nat \<Rightarrow> cstring" where
  "pad3 n = replicate (3 - length (string_of_nat n)) (CHR ''0'') @ string_of_nat n"

definition sendto_one_numeric :: "send_env \<Rightarrow> world \<Rightarrow> cid \<Rightarrow> nat \<Rightarrow> cstring \<Rightarrow> send_state \<Rightarrow> send_state" where
  "sendto_one_numeric env w target_p numeric text s =
     (if se_fake env target_p then s
      else
        let name = id_of env w target_p target_p
        in to_link env w (se_from env target_p)
             ('':'' @ id_of env w me target_p @ '' '' @ pad3 numeric @ '' '' @ (if name = [] then ''*'' else name) @ '' '' @ text) s)"

definition sendto_anywhere ::
  "send_env \<Rightarrow> world \<Rightarrow> cid \<Rightarrow> cid \<Rightarrow> cstring \<Rightarrow> cstring \<Rightarrow> send_state \<Rightarrow> send_state" where
  "sendto_anywhere env w target_p source_p command text s =
     (if MyClient (client_of w target_p)
      then send_linebuf env w target_p
             (local_source (client_of w source_p) @ '' '' @ command @ '' '' @ cl_name (client_of w target_p) @ '' '' @ text) s
      else send_rb_linebuf_remote env w target_p source_p
             ('':'' @ id_of env w source_p target_p @ '' '' @ command @ '' '' @ id_of env w target_p target_p @ '' '' @ text) s)"

definition kill_client :: "send_env \<Rightarrow> world \<Rightarrow> cid \<Rightarrow> cid \<Rightarrow> cstring \<Rightarrow> send_state \<Rightarrow> send_state" where
  "kill_client env w target_p diedie text s =
     send_linebuf env w (se_from env target_p)
       ('':'' @ id_of env w me target_p @ '' KILL '' @ id_of env w diedie target_p @ '' :'' @ text) s"

section \<open>Servers\<close>

definition to_server_p :: "send_env \<Rightarrow> world \<Rightarrow> cid option \<Rightarrow> 32 word \<Rightarrow> 32 word \<Rightarrow> cid \<Rightarrow> bool" where
  "to_server_p env w one caps nocaps target_p =
     (\<not> se_fake env target_p \<and> (case one of None \<Rightarrow> True | Some o1 \<Rightarrow> target_p \<noteq> se_from env o1) \<and>
      IsCapable (client_of w target_p) caps \<and> NotCapable (client_of w target_p) nocaps)"

definition sendto_server ::
  "send_env \<Rightarrow> world \<Rightarrow> cid option \<Rightarrow> chid option \<Rightarrow> 32 word \<Rightarrow> 32 word \<Rightarrow> cstring \<Rightarrow> send_state \<Rightarrow> send_state" where
  "sendto_server env w one chptr caps nocaps text s =
     (if se_serv_list env = [] then s
      else if (case chptr of None \<Rightarrow> False | Some ch \<Rightarrow> char_at (ch_chname (chan_of w ch)) 0 \<noteq> CHR ''#'') then s
      else fold (\<lambda>t s. if to_server_p env w one caps nocaps t then send_linebuf env w t text s else s) (se_serv_list env) s)"

text \<open>The forms of a message for servers with ids and without.\<close>

definition by_id :: "world \<Rightarrow> cid \<Rightarrow> cid \<Rightarrow> cstring \<Rightarrow> cstring" where
  "by_id w link source_p buf =
     '':'' @ (if has_id (client_of w link) then use_id (client_of w source_p) else cl_name (client_of w source_p)) @ '' '' @
     take (IRCD_BUFSIZE - 1) buf"

definition match_serv :: "send_env \<Rightarrow> world \<Rightarrow> cid \<Rightarrow> cstring \<Rightarrow> 32 word \<Rightarrow> 32 word \<Rightarrow> cstring \<Rightarrow> cid \<Rightarrow> send_state \<Rightarrow> send_state" where
  "match_serv env w source_p msk cap nocap buf target_p s =
     (let link = se_from env target_p
      in if IsMe (client_of w target_p) \<or> link = se_from env source_p \<or> ss_serial s link = ss_current_serial s \<or>
            \<not> match msk (cl_name (client_of w target_p)) then s
         else
           let s1 = s\<lparr>ss_serial := (ss_serial s)(link := ss_current_serial s)\<rparr>
           in if cap \<noteq> 0 \<and> \<not> IsCapable (client_of w link) cap \<or> nocap \<noteq> 0 \<and> \<not> NotCapable (client_of w link) nocap then s1
              else send_linebuf env w link (by_id w link source_p buf) s1)"

definition sendto_match_servs ::
  "send_env \<Rightarrow> world \<Rightarrow> cid \<Rightarrow> cstring \<Rightarrow> 32 word \<Rightarrow> 32 word \<Rightarrow> cstring \<Rightarrow> send_state \<Rightarrow> send_state" where
  "sendto_match_servs env w source_p msk cap nocap buf s =
     (if msk = [] then s
      else fold (match_serv env w source_p msk cap nocap buf) (se_global_serv_list env)
             (s\<lparr>ss_current_serial := ss_current_serial s + 1\<rparr>))"

definition kill_client_serv_butone ::
  "send_env \<Rightarrow> world \<Rightarrow> cid option \<Rightarrow> cid \<Rightarrow> cstring \<Rightarrow> send_state \<Rightarrow> send_state" where
  "kill_client_serv_butone env w one target_p buf s =
     fold (\<lambda>c s.
         let ids = has_id (client_of w c)
         in if (case one of None \<Rightarrow> False | Some o1 \<Rightarrow> c = se_from env o1 \<and> (\<not> ids \<or> \<not> has_id (client_of w target_p))) then s
            else send_linebuf env w c
                   ('':'' @ (if ids then use_id (client_of w me) else cl_name (client_of w me)) @ '' KILL '' @
                    (if ids then use_id (client_of w target_p) else cl_name (client_of w target_p)) @ '' :'' @
                    take (IRCD_BUFSIZE - 1) buf) s)
       (se_serv_list env) s"

section \<open>Channels\<close>

text \<open>One member in \<open>sendto_channel_flags\<close>.\<close>

definition member_wants :: "send_env \<Rightarrow> world \<Rightarrow> cid option \<Rightarrow> 32 word \<Rightarrow> mid \<Rightarrow> bool" where
  "member_wants env w one type m =
     (let ms = mem_of w m; t = ms_client_p ms
      in Some (se_from env t) \<noteq> one \<and> (type = 0 \<or> has_flag (ms_flags ms) type) \<and> \<not> se_deaf env t \<and>
         (MyClient (client_of w t) \<or> type = 0 \<or> \<not> NotCapable (client_of w (se_from env t)) CAP_CHW))"

definition to_member ::
  "send_env \<Rightarrow> world \<Rightarrow> cid option \<Rightarrow> 32 word \<Rightarrow> cid \<Rightarrow> cstring \<Rightarrow> mid \<Rightarrow> send_state \<Rightarrow> send_state" where
  "to_member env w one type source_p buf m s =
     (let t = ms_client_p (mem_of w m); link = se_from env t
      in if ss_ioerror s link \<or> \<not> member_wants env w one type m then s
         else if MyClient (client_of w t)
         then send_linebuf env w t (local_source (client_of w source_p) @ '' '' @ take (IRCD_BUFSIZE - 1) buf) s
         else if ss_serial s link \<noteq> ss_current_serial s
         then (send_rb_linebuf_remote env w t source_p (by_id w link source_p buf) s)
                \<lparr>ss_serial := (ss_serial s)(link := ss_current_serial s)\<rparr>
         else s)"

definition sendto_channel_flags ::
  "send_env \<Rightarrow> world \<Rightarrow> cid option \<Rightarrow> 32 word \<Rightarrow> cid \<Rightarrow> chid \<Rightarrow> cstring \<Rightarrow> send_state \<Rightarrow> send_state" where
  "sendto_channel_flags env w one type source_p chptr buf s =
     (let ch = chan_of w chptr
      in fold (to_member env w one type source_p buf)
           ((if type = ONLY_CHANOPS then [] else ch_noops ch) @ ch_ops ch)
           (s\<lparr>ss_current_serial := ss_current_serial s + 1\<rparr>))"

definition local_wants :: "send_env \<Rightarrow> world \<Rightarrow> 32 word \<Rightarrow> mid \<Rightarrow> bool" where
  "local_wants env w type m =
     (let ms = mem_of w m in \<not> se_fake env (ms_client_p ms) \<and> (type = 0 \<or> has_flag (ms_flags ms) type))"

definition sendto_channel_local ::
  "send_env \<Rightarrow> world \<Rightarrow> 32 word \<Rightarrow> chid \<Rightarrow> cstring \<Rightarrow> send_state \<Rightarrow> send_state" where
  "sendto_channel_local env w type chptr text s =
     fold (\<lambda>m s. let t = ms_client_p (mem_of w m)
                 in if ss_ioerror s t \<or> \<not> local_wants env w type m then s else send_linebuf env w t text s)
       (ch_locmembers (chan_of w chptr)) s"

text \<open>One local member of one channel in \<open>sendto_common_channels_local\<close>.\<close>

definition to_common :: "send_env \<Rightarrow> world \<Rightarrow> cstring \<Rightarrow> mid \<Rightarrow> send_state \<Rightarrow> send_state" where
  "to_common env w text m s =
     (let t = ms_client_p (mem_of w m)
      in if se_fake env t \<or> ss_ioerror s t \<or> ss_serial s t = ss_current_serial s then s
         else send_linebuf env w (se_from env t) text (s\<lparr>ss_serial := (ss_serial s)(t := ss_current_serial s)\<rparr>))"

definition sendto_common_channels_local ::
  "send_env \<Rightarrow> world \<Rightarrow> cid \<Rightarrow> cstring \<Rightarrow> send_state \<Rightarrow> send_state" where
  "sendto_common_channels_local env w user text s =
     (let s1 = fold (\<lambda>m. fold (to_common env w text) (ch_locmembers (chan_of w (ms_chptr (mem_of w m)))))
                 (cl_channel (client_of w user)) (s\<lparr>ss_current_serial := ss_current_serial s + 1\<rparr>)
      in if cl_myconnect (client_of w user) \<and> ss_serial s1 user \<noteq> ss_current_serial s1
         then send_linebuf env w (se_from env user) text s1 else s1)"

section \<open>Masks, operators and monitors\<close>

definition sendto_match_butone ::
  "send_env \<Rightarrow> world \<Rightarrow> cid option \<Rightarrow> cid \<Rightarrow> cstring \<Rightarrow> bool \<Rightarrow> cstring \<Rightarrow> send_state \<Rightarrow> send_state" where
  "sendto_match_butone env w one source_p msk match_host buf s =
     (let line = local_source (client_of w source_p) @ '' '' @ take (IRCD_BUFSIZE - 1) buf;
          s1 = (if match_host \<or> match msk (cl_name (client_of w me)) then
                  fold (\<lambda>t s. if \<not> se_fake env t \<and> (match_host \<longrightarrow> match msk (cl_host (client_of w t)))
                              then send_linebuf env w t line s else s) (se_lclient_list env) s
                else s)
      in fold (\<lambda>t s. if se_fake env t \<or> Some t = one then s
                     else send_rb_linebuf_remote env w t source_p (by_id w t source_p buf) s) (se_serv_list env) s1)"

definition sendto_monitor :: "send_env \<Rightarrow> world \<Rightarrow> cid list \<Rightarrow> cstring \<Rightarrow> send_state \<Rightarrow> send_state" where
  "sendto_monitor env w users text s =
     fold (\<lambda>t s. if ss_ioerror s t then s else send_linebuf env w t text s) users s"

datatype loglevel = L_ALL | L_ADMIN | L_OPER

definition sendto_realops_flags ::
  "send_env \<Rightarrow> world \<Rightarrow> 32 word \<Rightarrow> loglevel \<Rightarrow> cstring \<Rightarrow> send_state \<Rightarrow> send_state" where
  "sendto_realops_flags env w flags level text s =
     (if cl_name (client_of w me) = [] then s
      else fold (\<lambda>c s.
          if level = L_ADMIN \<and> \<not> se_admin env c \<or> level = L_OPER \<and> se_admin env c \<or> \<not> has_flag (se_umodes env c) flags then s
          else send_linebuf env w c ('':'' @ cl_name (client_of w me) @ '' NOTICE * :*** Notice -- '' @ text) s)
        (se_oper_list env) s)"

definition sendto_wallops_flags :: "send_env \<Rightarrow> world \<Rightarrow> 32 word \<Rightarrow> cid \<Rightarrow> cstring \<Rightarrow> send_state \<Rightarrow> send_state" where
  "sendto_wallops_flags env w flags source_p text s =
     (let c = client_of w source_p;
          pre = (if IsClient c then '':'' @ cl_name c @ ''!'' @ cl_username c @ ''@'' @ cl_host c else '':'' @ cl_name c)
      in fold (\<lambda>o1 s. if has_flag (se_umodes env o1) flags then send_linebuf env w o1 (pre @ '' WALLOPS :'' @ text) s else s)
           (se_oper_list env) s)"

end
