(* ===== verification/SendProps.thy ===== *)
theory SendProps
  imports Send JoinTheorems
begin

unbundle bit_operations_syntax

text \<open>
  Delivery: who gets a message, and that nobody gets it twice.
\<close>

section \<open>One line\<close>

lemma dead_link_sel [simp]:
  "ss_sent (dead_link w c q s) = ss_sent s" "ss_serial (dead_link w c q s) = ss_serial s"
  "ss_current_serial (dead_link w c q s) = ss_current_serial s"
  by (simp_all add: dead_link_def)

lemma send_linebuf_sel [simp]:
  "ss_serial (send_linebuf env w x line s) = ss_serial s"
  "ss_current_serial (send_linebuf env w x line s) = ss_current_serial s"
  by (simp_all add: send_linebuf_def Let_def)

lemma send_linebuf_sent: "ss_sent (send_linebuf env w x line s) \<in> {ss_sent s, ss_sent s @ [(x, line)]}"
  by (simp add: send_linebuf_def Let_def)

lemma send_remote_sel [simp]:
  "ss_serial (send_rb_linebuf_remote env w x f line s) = ss_serial s"
  "ss_current_serial (send_rb_linebuf_remote env w x f line s) = ss_current_serial s"
  by (simp_all add: send_rb_linebuf_remote_def Let_def)

lemma send_remote_sent:
  "ss_sent (send_rb_linebuf_remote env w x f line s) \<in> {ss_sent s, ss_sent s @ [(se_from env x, line)]}"
  using send_linebuf_sent [of env w "se_from env x" line s] by (simp add: send_rb_linebuf_remote_def Let_def)

text \<open>Queues that have room and connections that work.\<close>

definition healthy :: "send_env \<Rightarrow> send_state \<Rightarrow> bool" where
  "healthy env s = ((\<forall>x. \<not> se_fake env x \<and> \<not> ss_ioerror s x) \<and> (\<forall>n x. \<not> se_full env n x \<and> \<not> se_broken env n x))"

lemma healthy_send:
  assumes "healthy env s" "cl_myconnect (client_of w x)" "\<not> IsMe (client_of w x)"
  shows "send_linebuf env w x line s = s\<lparr>ss_sent := ss_sent s @ [(x, line)]\<rparr>"
  using assms by (simp add: send_linebuf_def healthy_def Let_def)

text \<open>How clients are reached: a local client directly, a remote one through the server it is behind.\<close>

definition routed :: "send_env \<Rightarrow> world \<Rightarrow> bool" where
  "routed env w =
     (\<forall>x. IsClient (client_of w x) \<longrightarrow>
        (if cl_myconnect (client_of w x) then se_from env x = x
         else IsServer (client_of w (se_from env x)) \<and> cl_myconnect (client_of w (se_from env x))))"

lemma routed_local: "routed env w \<Longrightarrow> MyClient (client_of w x) \<Longrightarrow> se_from env x = x"
  by (auto simp: routed_def MyClient_def)

lemma routed_remote:
  assumes "routed env w" "IsClient (client_of w x)" "\<not> MyClient (client_of w x)"
  shows "IsServer (client_of w (se_from env x))" "cl_myconnect (client_of w (se_from env x))"
proof -
  have "\<not> cl_myconnect (client_of w x)" using assms(2,3) by (simp add: MyClient_def)
  then show "IsServer (client_of w (se_from env x))" "cl_myconnect (client_of w (se_from env x))"
    using assms(1,2) unfolding routed_def by simp_all
qed

text \<open>What a loop adds to the queues: nobody twice, and only to the given ones.\<close>

definition spread :: "send_state \<Rightarrow> send_state \<Rightarrow> (cid \<times> cstring) list \<Rightarrow> bool" where
  "spread s s' new = (ss_sent s' = ss_sent s @ new \<and> distinct (map fst new))"

section \<open>Members of a channel\<close>

definition reached :: "send_env \<Rightarrow> world \<Rightarrow> mid \<Rightarrow> cid" where
  "reached env w m =
     (let t = ms_client_p (mem_of w m) in if MyClient (client_of w t) then t else se_from env t)"

definition used :: "send_state \<Rightarrow> cid set" where
  "used s = {x. ss_serial s x = ss_current_serial s}"

lemma to_member_step:
  assumes "s' = to_member env w one type source_p buf m s"
  obtains "ss_sent s' = ss_sent s" "used s \<subseteq> used s'"
  | line where "ss_sent s' = ss_sent s @ [(reached env w m, line)]" "member_wants env w one type m" "used s \<subseteq> used s'"
      "\<not> MyClient (client_of w (ms_client_p (mem_of w m))) \<longrightarrow> reached env w m \<in> used s' \<and> reached env w m \<notin> used s"
proof -
  let ?t = "ms_client_p (mem_of w m)"
  have "ss_sent s' = ss_sent s \<and> used s \<subseteq> used s' \<or> (\<exists>line. ss_sent s' = ss_sent s @ [(reached env w m, line)] \<and>
      member_wants env w one type m \<and> used s \<subseteq> used s' \<and>
      (\<not> MyClient (client_of w ?t) \<longrightarrow> reached env w m \<in> used s' \<and> reached env w m \<notin> used s))"
  proof (cases "ss_ioerror s (se_from env ?t) \<or> \<not> member_wants env w one type m")
    case True
    then show ?thesis using assms by (auto simp: to_member_def Let_def)
  next
    case False
    show ?thesis
    proof (cases "MyClient (client_of w ?t)")
      case True
      then show ?thesis
        using False assms send_linebuf_sent [of env w ?t _ s] by (auto simp: to_member_def Let_def reached_def used_def)
    next
      case r: False
      then show ?thesis
        using False assms send_remote_sent [of env w ?t source_p _ s] by (auto simp: to_member_def Let_def reached_def used_def)
    qed
  qed
  then show thesis using that by blast
qed

text \<open>The memberships of one channel belong to different clients.\<close>

definition members_of :: "world \<Rightarrow> chid \<Rightarrow> mid list \<Rightarrow> bool" where
  "members_of w ch ms = (distinct ms \<and> (\<forall>m \<in> set ms. \<exists>k. w_mems w m = Some k \<and> ms_chptr k = ch))"

lemma member_client: "world_inv w \<Longrightarrow> w_mems w m = Some k \<Longrightarrow> IsClient (client_of w (ms_client_p k))"
  unfolding world_inv_def mem_inv_def mem_ok_def by blast

lemma members_client:
  assumes "world_inv w" "members_of w ch ms" "m \<in> set ms"
  shows "IsClient (client_of w (ms_client_p (mem_of w m)))"
proof -
  obtain k where "w_mems w m = Some k" using assms(2,3) unfolding members_of_def by blast
  then show ?thesis using member_client [OF assms(1)] by (simp add: mem_of_def)
qed

lemma reached_once:
  assumes inv: "world_inv w" and r: "routed env w" and ms: "members_of w ch (m # ms)" and m': "m' \<in> set ms"
    and eq: "reached env w m' = reached env w m"
  shows "\<not> MyClient (client_of w (ms_client_p (mem_of w m))) \<and> \<not> MyClient (client_of w (ms_client_p (mem_of w m')))"
proof -
  have "m' \<in> set (m # ms)" "m \<in> set (m # ms)" "m \<noteq> m'" using ms m' by (auto simp: members_of_def)
  then obtain k k' where k: "w_mems w m = Some k" "ms_chptr k = ch" "w_mems w m' = Some k'" "ms_chptr k' = ch" "m \<noteq> m'"
    using ms unfolding members_of_def by meson
  then have c: "IsClient (client_of w (ms_client_p k))" "IsClient (client_of w (ms_client_p k'))"
    using inv member_client by blast+
  have "one_membership w" using inv unfolding world_inv_def mem_inv_def by blast
  then have ne: "ms_client_p k \<noteq> ms_client_p k'" using k unfolding one_membership_def by metis
  have srv: "\<not> IsClient (client_of w (se_from env y))" if "IsClient (client_of w y)" "\<not> MyClient (client_of w y)" for y
    using routed_remote(1) [OF r that] by (simp add: IsServer_def IsClient_def)
  show ?thesis using eq k c ne srv [OF c(1)] srv [OF c(2)] by (auto simp: reached_def Let_def split: if_splits)
qed

lemma to_members_once:
  assumes inv: "world_inv w" and r: "routed env w"
  shows "members_of w ch ms \<Longrightarrow> s' = fold (to_member env w one type source_p buf) ms s \<Longrightarrow>
    \<exists>new. spread s s' new \<and> fst ` set new \<subseteq> reached env w ` {m \<in> set ms. member_wants env w one type m} \<and>
      (\<forall>m \<in> set ms. reached env w m \<in> fst ` set new \<and> \<not> MyClient (client_of w (ms_client_p (mem_of w m))) \<longrightarrow> reached env w m \<notin> used s)"
proof (induction ms arbitrary: s)
  case Nil
  then show ?case by (simp add: spread_def)
next
  case (Cons m ms)
  let ?s = "to_member env w one type source_p buf m s"
  have "members_of w ch ms" using Cons.prems(1) by (simp add: members_of_def)
  from Cons.IH [OF this, of ?s] Cons.prems(2) obtain new where
    new: "spread ?s s' new" "fst ` set new \<subseteq> reached env w ` {m \<in> set ms. member_wants env w one type m}"
    "\<And>m'. m' \<in> set ms \<Longrightarrow> reached env w m' \<in> fst ` set new \<Longrightarrow> \<not> MyClient (client_of w (ms_client_p (mem_of w m'))) \<Longrightarrow>
      reached env w m' \<notin> used ?s"
    by auto
  have once: "\<not> MyClient (client_of w (ms_client_p (mem_of w m))) \<and> \<not> MyClient (client_of w (ms_client_p (mem_of w m')))"
    if "m' \<in> set ms" "reached env w m' = reached env w m" for m'
    using reached_once [OF inv r Cons.prems(1) that] .
  show ?case
  proof (rule to_member_step [OF refl, of env w one type source_p buf m s])
    assume a: "ss_sent ?s = ss_sent s" "used s \<subseteq> used ?s"
    have "reached env w m \<notin> used s"
      if h: "reached env w m \<in> fst ` set new" "\<not> MyClient (client_of w (ms_client_p (mem_of w m)))"
    proof -
      obtain m' where m': "m' \<in> set ms" "reached env w m' = reached env w m" using h(1) new(2) by force
      then show ?thesis using new(3) [OF m'(1)] h once a(2) by auto
    qed
    then show ?thesis using new a by (intro exI [of _ new]) (auto simp: spread_def)
  next
    fix line assume a: "ss_sent ?s = ss_sent s @ [(reached env w m, line)]" "member_wants env w one type m" "used s \<subseteq> used ?s"
      "\<not> MyClient (client_of w (ms_client_p (mem_of w m))) \<longrightarrow> reached env w m \<in> used ?s \<and> reached env w m \<notin> used s"
    have "reached env w m \<notin> fst ` set new"
    proof
      assume h: "reached env w m \<in> fst ` set new"
      then obtain m' where m': "m' \<in> set ms" "reached env w m' = reached env w m" using new(2) by force
      then show False using new(3) [OF m'(1)] h once a(4) by auto
    qed
    moreover have "reached env w m' \<notin> used s"
      if "m' \<in> set ms" "reached env w m' \<in> insert (reached env w m) (fst ` set new)" "\<not> MyClient (client_of w (ms_client_p (mem_of w m')))" for m'
      using that new(3) once a(3,4) by (metis insertE subsetD)
    ultimately show ?thesis
      using new a by (intro exI [of _ "(reached env w m, line) # new"]) (auto simp: spread_def)
  qed
qed

text \<open>Without failures nobody is left out.\<close>

lemma to_member_healthy:
  assumes h: "healthy env s" and r: "routed env w" and c: "IsClient (client_of w (ms_client_p (mem_of w m)))"
    and s': "s' = to_member env w one type source_p buf m s" and wants: "member_wants env w one type m"
  shows "healthy env s'"
    "\<exists>rest. ss_sent s' = ss_sent s @ rest \<and> used s' \<subseteq> fst ` set rest \<union> used s \<and> reached env w m \<in> fst ` set rest \<union> used s"
proof -
  let ?t = "ms_client_p (mem_of w m)"
  have io: "\<not> ss_ioerror s x" "\<not> se_fake env x" for x using h by (simp_all add: healthy_def)
  have main: "healthy env s' \<and> (\<exists>rest. ss_sent s' = ss_sent s @ rest \<and> used s' \<subseteq> fst ` set rest \<union> used s \<and> reached env w m \<in> fst ` set rest \<union> used s)"
  proof (cases "MyClient (client_of w ?t)")
    case True
    then have "cl_myconnect (client_of w ?t)" "\<not> IsMe (client_of w ?t)" using c by (auto simp: MyClient_def IsClient_def IsMe_def)
    then show ?thesis
      using True s' wants io h healthy_send [OF h, of w ?t] by (auto simp: to_member_def Let_def reached_def used_def healthy_def)
  next
    case False
    let ?l = "se_from env ?t"
    note rr = routed_remote [OF r c False]
    then have "\<not> IsMe (client_of w ?l)" "\<not> IsClient (client_of w ?l)" by (auto simp: IsServer_def IsClient_def IsMe_def)
    then show ?thesis
      using False s' wants io h healthy_send [OF h rr(2), of _]
      by (auto simp: to_member_def Let_def reached_def used_def healthy_def send_rb_linebuf_remote_def)
  qed
  then show "healthy env s'"
    "\<exists>rest. ss_sent s' = ss_sent s @ rest \<and> used s' \<subseteq> fst ` set rest \<union> used s \<and> reached env w m \<in> fst ` set rest \<union> used s"
    by blast+
qed

lemma to_members_sent: "\<exists>new. ss_sent (fold (to_member env w one type source_p buf) ms s) = ss_sent s @ new"
proof (induction ms arbitrary: s)
  case (Cons m ms)
  then show ?case
    using to_member_step [OF refl, of env w one type source_p buf m s]
    by (metis append.assoc fold_simps(2))
qed simp

lemma to_members_all:
  assumes r: "routed env w" and c: "\<And>m. m \<in> set ms \<Longrightarrow> IsClient (client_of w (ms_client_p (mem_of w m)))"
  shows "healthy env s \<Longrightarrow> spread s (fold (to_member env w one type source_p buf) ms s) new \<Longrightarrow> m \<in> set ms \<Longrightarrow>
    member_wants env w one type m \<Longrightarrow> reached env w m \<in> fst ` set new \<union> used s"
  using c
proof (induction ms arbitrary: s new)
  case Nil
  then show ?case by simp
next
  case (Cons a ms)
  let ?s = "to_member env w one type source_p buf a s"
  have ca: "IsClient (client_of w (ms_client_p (mem_of w a)))" using Cons.prems(5) by simp
  show ?case
  proof (cases "member_wants env w one type a")
    case False
    then have "?s = s" "m \<noteq> a" using Cons.prems(4) by (auto simp: to_member_def Let_def)
    then show ?thesis using Cons.IH [of s new] Cons.prems by simp
  next
    case True
    note th = to_member_healthy [OF Cons.prems(1) r ca refl True, of source_p buf]
    then obtain rest where rest: "ss_sent ?s = ss_sent s @ rest" "used ?s \<subseteq> fst ` set rest \<union> used s"
      "reached env w a \<in> fst ` set rest \<union> used s"
      by blast
    obtain new' where new': "new = rest @ new'" "spread ?s (fold (to_member env w one type source_p buf) ms ?s) new'"
      using Cons.prems(2) rest(1) to_members_sent [of env w one type source_p buf ms ?s] by (auto simp: spread_def)
    show ?thesis
    proof (cases "m = a")
      case True
      then show ?thesis using rest(3) new'(1) by auto
    next
      case False
      then have "reached env w m \<in> fst ` set new' \<union> used ?s"
        using Cons.IH [OF th(1) new'(2)] Cons.prems by simp
      then show ?thesis using rest(2) new'(1) by auto
    qed
  qed
qed

lemma channel_lists:
  assumes inv: "world_inv w" and ch: "w_channels w ch = Some c"
  shows "members_of w ch (ch_noops c @ ch_ops c)" "set (ch_noops c @ ch_ops c) = mems_where w (\<lambda>k. ms_chptr k = ch)"
    "m \<in> set (ch_noops c) \<Longrightarrow> \<not> is_chanop (mem_of w m)"
proof -
  have ok: "chan_lists_ok w ch c" using inv ch by (auto simp: world_inv_def mem_inv_def)
  then show "members_of w ch (ch_noops c @ ch_ops c)" "set (ch_noops c @ ch_ops c) = mems_where w (\<lambda>k. ms_chptr k = ch)"
    "m \<in> set (ch_noops c) \<Longrightarrow> \<not> is_chanop (mem_of w m)"
    by (auto simp: chan_lists_ok_def indexes_def mems_where_def members_of_def mem_of_def)
qed

lemma only_chanops: "member_wants env w one ONLY_CHANOPS m \<Longrightarrow> is_chanop (mem_of w m)"
  by (simp add: member_wants_def Let_def is_chanop_def ONLY_CHANOPS_def CHFL_CHANOP_def)

definition channel_targets :: "send_env \<Rightarrow> world \<Rightarrow> cid option \<Rightarrow> 32 word \<Rightarrow> chid \<Rightarrow> mid set" where
  "channel_targets env w one type ch = {m \<in> mems_where w (\<lambda>k. ms_chptr k = ch). member_wants env w one type m}"

text \<open>
  C12. A message to a channel (\<open>sendto_channel_flags\<close>) goes into no send queue twice, however many
  members are behind the same server, and only into queues through which a member that is to have it
  is reached: a member of the channel with the wanted status that is not deaf, not behind the link the
  message came from and, for a message to a status, behind a server that knows such messages. When no queue is full and
  no connection fails it goes into all of these queues.
\<close>

theorem channel_message_once:
  assumes inv: "world_inv w" and ch: "w_channels w ch = Some c" and r: "routed env w"
    and s': "s' = sendto_channel_flags env w one type source_p ch buf s"
  shows "\<exists>new. ss_sent s' = ss_sent s @ new \<and> distinct (map fst new) \<and>
    fst ` set new \<subseteq> reached env w ` channel_targets env w one type ch \<and>
    (healthy env s \<and> (\<forall>x. ss_serial s x \<noteq> ss_current_serial s + 1) \<longrightarrow>
       fst ` set new = reached env w ` channel_targets env w one type ch)"
proof -
  let ?ms = "(if type = ONLY_CHANOPS then [] else ch_noops c) @ ch_ops c"
  let ?s = "s\<lparr>ss_current_serial := ss_current_serial s + 1\<rparr>"
  note l = channel_lists [OF inv ch]
  have t: "{m \<in> set ?ms. member_wants env w one type m} = channel_targets env w one type ch"
    using l(2,3) only_chanops [of env w one] unfolding channel_targets_def by auto
  have m: "members_of w ch ?ms" using l(1) by (auto simp: members_of_def)
  have f: "s' = fold (to_member env w one type source_p buf) ?ms ?s"
    using s' ch by (simp add: sendto_channel_flags_def Let_def)
  from to_members_once [OF inv r m f] obtain new where
    new: "spread ?s s' new" "fst ` set new \<subseteq> reached env w ` channel_targets env w one type ch"
    unfolding t by blast
  have "reached env w ` channel_targets env w one type ch \<subseteq> fst ` set new"
    if h: "healthy env s" "\<forall>x. ss_serial s x \<noteq> ss_current_serial s + 1"
  proof -
    have "healthy env ?s" "used ?s = {}" using h by (simp_all add: healthy_def used_def)
    moreover have "IsClient (client_of w (ms_client_p (mem_of w m)))" if "m \<in> set ?ms" for m
      using members_client [OF inv m that] .
    ultimately show ?thesis
      using to_members_all [OF r, of ?ms ?s one type source_p buf new] new(1) unfolding f t [symmetric] by blast
  qed
  then show ?thesis using new unfolding spread_def by (intro exI [of _ new]) auto
qed

definition quiet_net :: send_env where
  "quiet_net = \<lparr>se_from = id, se_fake = (\<lambda>_. False), se_deaf = (\<lambda>_. False), se_umodes = (\<lambda>_. 0), se_admin = (\<lambda>_. False),
     se_serv_list = [], se_global_serv_list = [], se_lclient_list = [1, 2], se_oper_list = [],
     se_full = (\<lambda>_ _. False), se_broken = (\<lambda>_ _. False)\<rparr>"

definition idle :: send_state where
  "idle = \<lparr>ss_sent = [], ss_notices = [], ss_ioerror = (\<lambda>_. False), ss_closing = (\<lambda>_. False), ss_abort = [], ss_ghosts = [],
     ss_serial = (\<lambda>_. 0), ss_current_serial = 0\<rparr>"

lemma quiet_healthy: "healthy quiet_net idle" "ss_serial idle x \<noteq> ss_current_serial idle + 1"
  by (simp_all add: healthy_def quiet_net_def idle_def)

lemma quiet_routed: "routed quiet_net small_channel"
  by (simp add: routed_def small_channel_local quiet_net_def)

lemma quiet_targets: "reached quiet_net small_channel ` channel_targets quiet_net small_channel None 0 10 = {1}"
proof -
  have "mems_where small_channel (\<lambda>k. ms_chptr k = 10) = {11}" by (auto simp: mems_where_def small_channel_sel(1))
  moreover have "member_wants quiet_net small_channel None 0 11"
    by (simp add: member_wants_def Let_def small_channel_local quiet_net_def)
  ultimately have "channel_targets quiet_net small_channel None 0 10 = {11}" by (auto simp: channel_targets_def)
  then show ?thesis by (simp add: reached_def Let_def small_channel_local small_channel_mems(3) del: One_nat_def)
qed

theorem channel_message_once_witness:
  "\<exists>new. ss_sent (sendto_channel_flags quiet_net small_channel None 0 2 10 ''PRIVMSG #ircd :hello'' idle) = ss_sent idle @ new \<and>
    distinct (map fst new) \<and> fst ` set new = {1}"
  using channel_message_once [OF small_channel_inv small_channel_chan(1) quiet_routed refl,
      of None 0 2 "''PRIVMSG #ircd :hello''" idle]
    quiet_healthy unfolding quiet_targets by blast

section \<open>Common channels\<close>

text \<open>
  A loop that marks whom it has served: what it adds, whom it marks. The clients \<open>xs\<close> are the ones
  it has passed.
\<close>

definition marked :: "cstring \<Rightarrow> cid set \<Rightarrow> send_state \<Rightarrow> send_state \<Rightarrow> cid list \<Rightarrow> bool" where
  "marked line xs s s' new =
     (ss_sent s' = ss_sent s @ map (\<lambda>x. (x, line)) new \<and> distinct new \<and> set new \<subseteq> xs \<and> set new \<inter> used s = {} \<and>
      used s \<union> set new \<subseteq> used s')"

definition marked_all :: "send_env \<Rightarrow> cid set \<Rightarrow> send_state \<Rightarrow> send_state \<Rightarrow> cid list \<Rightarrow> bool" where
  "marked_all env xs s s' new = (healthy env s' \<and> used s' = used s \<union> xs \<and> set new = xs - used s)"

lemma marked_trans:
  "marked line xs s s1 new \<Longrightarrow> marked line ys s1 s2 new' \<Longrightarrow> marked line (xs \<union> ys) s s2 (new @ new')"
  unfolding marked_def by auto

lemma marked_all_trans:
  "marked_all env xs s s1 new \<Longrightarrow> marked_all env ys s1 s2 new' \<Longrightarrow> marked_all env (xs \<union> ys) s s2 (new @ new')"
  unfolding marked_all_def by auto

lemma to_common_step:
  fixes env w line m s
  defines "t \<equiv> ms_client_p (mem_of w m)" and "s' \<equiv> to_common env w line m s"
  assumes r: "routed env w" and l: "MyClient (client_of w t)"
  shows "\<exists>new. marked line {t} s s' new \<and> (healthy env s \<longrightarrow> marked_all env {t} s s' new)"
proof (cases "se_fake env t \<or> ss_ioerror s t \<or> t \<in> used s")
  case True
  then have "s' = s" by (auto simp: s'_def to_common_def Let_def t_def used_def)
  then show ?thesis using True by (intro exI [of _ "[]"]) (auto simp: marked_def marked_all_def healthy_def)
next
  case False
  let ?s = "s\<lparr>ss_serial := (ss_serial s)(t := ss_current_serial s)\<rparr>"
  have s': "s' = send_linebuf env w t line ?s"
    using False routed_local [OF r l] by (auto simp: s'_def to_common_def Let_def t_def [symmetric] used_def)
  have u: "used s' = insert t (used s)" unfolding s' by (auto simp: used_def)
  have lc: "cl_myconnect (client_of w t)" "\<not> IsMe (client_of w t)" using l by (auto simp: MyClient_def IsClient_def IsMe_def)
  have h: "healthy env ?s = healthy env s" by (simp add: healthy_def)
  show ?thesis
  proof (cases "ss_sent s' = ss_sent s")
    case True
    then have "\<not> healthy env s" using healthy_send [OF _ lc, of env ?s line] h by (auto simp: s')
    then show ?thesis using True u by (intro exI [of _ "[]"]) (auto simp: marked_def)
  next
    case f: False
    then have "ss_sent s' = ss_sent s @ [(t, line)]" using send_linebuf_sent [of env w t line ?s] by (simp add: s')
    moreover have "healthy env s'" if "healthy env s" using healthy_send [OF _ lc, of env ?s line] that h by (simp add: s' healthy_def)
    ultimately show ?thesis using u False by (intro exI [of _ "[t]"]) (auto simp: marked_def marked_all_def)
  qed
qed

lemma to_commons:
  assumes r: "routed env w"
  shows "\<forall>m \<in> set ms. MyClient (client_of w (ms_client_p (mem_of w m))) \<Longrightarrow>
    \<exists>new. marked line ((ms_client_p \<circ> mem_of w) ` set ms) s (fold (to_common env w line) ms s) new \<and>
      (healthy env s \<longrightarrow> marked_all env ((ms_client_p \<circ> mem_of w) ` set ms) s (fold (to_common env w line) ms s) new)"
proof (induction ms arbitrary: s)
  case Nil
  then show ?case by (intro exI [of _ "[]"]) (simp add: marked_def marked_all_def)
next
  case (Cons m ms)
  let ?s = "to_common env w line m s"
  from to_common_step [OF r, of m line s] Cons.prems obtain a where
    a: "marked line {ms_client_p (mem_of w m)} s ?s a" "healthy env s \<Longrightarrow> marked_all env {ms_client_p (mem_of w m)} s ?s a"
    by auto
  from Cons.IH [of ?s] Cons.prems obtain b where
    b: "marked line ((ms_client_p \<circ> mem_of w) ` set ms) ?s (fold (to_common env w line) ms ?s) b"
    "healthy env ?s \<Longrightarrow> marked_all env ((ms_client_p \<circ> mem_of w) ` set ms) ?s (fold (to_common env w line) ms ?s) b"
    by auto
  have "healthy env ?s" if "healthy env s" using a(2) [OF that] by (simp add: marked_all_def)
  then show ?case
    using marked_trans [OF a(1) b(1)] marked_all_trans [OF a(2) b(2)] by (intro exI [of _ "a @ b"]) auto
qed

lemma fold_concat_map: "fold (\<lambda>m. fold f (g m)) ms = fold f (concat (map g ms))"
  by (induction ms) auto

definition neighbours :: "world \<Rightarrow> cid \<Rightarrow> cid set" where
  "neighbours w user =
     {x. MyClient (client_of w x) \<and> (\<exists>m m' k k'. w_mems w m = Some k \<and> ms_client_p k = user \<and> w_mems w m' = Some k' \<and>
        ms_client_p k' = x \<and> ms_chptr k = ms_chptr k')}"

lemma common_members:
  fixes w user
  defines "ms \<equiv> concat (map (\<lambda>m. ch_locmembers (chan_of w (ms_chptr (mem_of w m)))) (cl_channel (client_of w user)))"
  assumes inv: "world_inv w"
  shows "(ms_client_p \<circ> mem_of w) ` set ms = neighbours w user" "\<forall>m \<in> set ms. MyClient (client_of w (ms_client_p (mem_of w m)))"
proof -
  have u: "set (cl_channel (client_of w user)) = mems_where w (\<lambda>k. ms_client_p k = user)"
    using inv by (simp add: world_inv_def mem_inv_def user_list_ok_def indexes_def)
  have l: "set (ch_locmembers (chan_of w (ms_chptr k))) = mems_where w (\<lambda>k'. ms_chptr k' = ms_chptr k \<and> MyClient (client_of w (ms_client_p k')))"
    if "w_mems w m = Some k" for m k
  proof -
    have inv': "mem_inv w" using inv by (simp add: world_inv_def)
    obtain c where "w_channels w (ms_chptr k) = Some c" using mem_inv_channel [OF inv' \<open>w_mems w m = Some k\<close>] by blast
    then show ?thesis using inv' by (auto simp: mem_inv_def chan_lists_ok_def indexes_def)
  qed
  have m: "m' \<in> set ms \<longleftrightarrow> (\<exists>m k k'. w_mems w m = Some k \<and> ms_client_p k = user \<and> w_mems w m' = Some k' \<and> ms_chptr k' = ms_chptr k \<and>
      MyClient (client_of w (ms_client_p k')))" for m'
    using u l unfolding ms_def by (auto simp: mems_where_def mem_of_def) blast+
  then show "\<forall>m \<in> set ms. MyClient (client_of w (ms_client_p (mem_of w m)))" by (auto simp: mem_of_def)
  have "x \<in> (ms_client_p \<circ> mem_of w) ` set ms \<longleftrightarrow> x \<in> neighbours w user" for x
  proof
    assume "x \<in> (ms_client_p \<circ> mem_of w) ` set ms"
    then show "x \<in> neighbours w user" using m by (auto simp: neighbours_def mem_of_def) metis
  next
    assume "x \<in> neighbours w user"
    then obtain m' k' where "m' \<in> set ms" "w_mems w m' = Some k'" "ms_client_p k' = x"
      unfolding neighbours_def m by fastforce
    then show "x \<in> (ms_client_p \<circ> mem_of w) ` set ms" by (force simp: mem_of_def)
  qed
  then show "(ms_client_p \<circ> mem_of w) ` set ms = neighbours w user" by blast
qed

definition common_targets :: "world \<Rightarrow> cid \<Rightarrow> cid set" where
  "common_targets w user = neighbours w user \<union> (if MyClient (client_of w user) then {user} else {})"



end
