(* ===== verification/Patricia.thy ===== *)
theory Patricia
  imports Inet
begin

unbundle bit_operations_syntax

text \<open>
  The radix tree of \<open>libratbox/src/patricia.c\<close>, in which the daemon keeps networks (D-lines, exemptions,
  the reject cache, throttles, limits per network). Nodes live in a heap and are linked both ways. A node
  without prefix is a glue node. Prefixes are never changed once they exist, so they are values
  here and their reference counts are left out. The memory of a prefix is cleared when it is
  allocated: behind the four bytes of an IPv4 address there are zeros.
\<close>

definition RB_PATRICIA_MAXBITS :: nat where "RB_PATRICIA_MAXBITS = 128"

type_synonym nid = nat

record rb_prefix =
  pf_family :: af
  pf_bitlen :: nat
  pf_add :: "byte list"

record 'd pnode =
  pn_bit :: nat
  pn_prefix :: "rb_prefix option"
  pn_l :: "nid option"
  pn_r :: "nid option"
  pn_parent :: "nid option"
  pn_data :: "'d option"

text \<open>The tree with its heap; \<open>pt_next\<close> is where the next node is allocated.\<close>

record 'd ptree =
  pt_head :: "nid option"
  pt_maxbits :: nat
  pt_num_active_node :: nat
  pt_nodes :: "nid \<rightharpoonup> 'd pnode"
  pt_next :: nid

definition empty_node :: "'d pnode" where
  "empty_node = \<lparr>pn_bit = 0, pn_prefix = None, pn_l = None, pn_r = None, pn_parent = None, pn_data = None\<rparr>"

definition nd :: "'d ptree \<Rightarrow> nid \<Rightarrow> 'd pnode" where
  "nd t n = (case pt_nodes t n of None \<Rightarrow> empty_node | Some x \<Rightarrow> x)"

definition upd_node :: "nid \<Rightarrow> ('d pnode \<Rightarrow> 'd pnode) \<Rightarrow> 'd ptree \<Rightarrow> 'd ptree" where
  "upd_node n f t = t\<lparr>pt_nodes := (pt_nodes t)(n := map_option f (pt_nodes t n))\<rparr>"

definition new_node :: "'d pnode \<Rightarrow> 'd ptree \<Rightarrow> 'd ptree" where
  "new_node x t =
     t\<lparr>pt_nodes := (pt_nodes t)(pt_next t \<mapsto> x), pt_next := Suc (pt_next t), pt_num_active_node := pt_num_active_node t + 1\<rparr>"

definition free_node :: "nid \<Rightarrow> 'd ptree \<Rightarrow> 'd ptree" where
  "free_node n t = t\<lparr>pt_nodes := (pt_nodes t)(n := None), pt_num_active_node := pt_num_active_node t - 1\<rparr>"

section \<open>Prefixes\<close>

text \<open>\<open>BIT_TEST(addr[i >> 3], 0x80 >> (i & 0x07))\<close>\<close>

definition bit_set :: "byte list \<Rightarrow> nat \<Rightarrow> bool" where
  "bit_set addr i = (addr ! (i div 8) AND drop_bit (i mod 8) 0x80 \<noteq> 0)"

definition New_Prefix :: "af \<Rightarrow> byte list \<Rightarrow> int \<Rightarrow> rb_prefix" where
  "New_Prefix family dest bitlen =
     \<lparr>pf_family = family, pf_bitlen = (if bitlen \<ge> 0 then nat bitlen else 128),
      pf_add = take (addr_len family) dest @ replicate (16 - addr_len family) 0\<rparr>"

text \<open>\<open>atol\<close> of the digits behind the slash.\<close>

definition atol :: "cstring \<Rightarrow> int" where
  "atol s =
     (let s1 = dropWhile IsSpace s; neg = (char_at s1 0 = CHR ''-'');
          s2 = (if neg \<or> char_at s1 0 = CHR ''+'' then tl s1 else s1);
          v = foldl (\<lambda>a c. 10 * a + (int (of_char c) - 48)) 0 (takeWhile IsDigit s2)
      in if neg then - v else v)"

definition ascii2prefix :: "af \<Rightarrow> cstring \<Rightarrow> rb_prefix option" where
  "ascii2prefix family s =
     (let maxbitlen = 8 * int (addr_len family); cp = strchr_cut (CHR ''/'') s;
          (addr, bitlen) = (case cp of None \<Rightarrow> (s, maxbitlen)
             | Some (a, b) \<Rightarrow> (a, if atol b \<le> 0 \<or> atol b > maxbitlen then maxbitlen else atol b))
      in case rb_inet_pton family addr of None \<Rightarrow> None | Some sinaddr \<Rightarrow> Some (New_Prefix family sinaddr bitlen))"

section \<open>Searching\<close>

definition rb_new_patricia :: "nat \<Rightarrow> 'd ptree" where
  "rb_new_patricia maxbits =
     \<lparr>pt_head = None, pt_maxbits = maxbits, pt_num_active_node = 0, pt_nodes = Map.empty, pt_next = 0\<rparr>"

definition child :: "bool \<Rightarrow> 'd pnode \<Rightarrow> nid option" where
  "child right x = (if right then pn_r x else pn_l x)"

definition set_child :: "bool \<Rightarrow> nid option \<Rightarrow> 'd pnode \<Rightarrow> 'd pnode" where
  "set_child right c x = (if right then x\<lparr>pn_r := c\<rparr> else x\<lparr>pn_l := c\<rparr>)"

text \<open>
  The loops follow pointers; \<open>None\<close> as the value of a loop is that it does not end. The inner
  \<open>None\<close> is the null pointer.
\<close>

partial_function (option) exact_loop :: "'d ptree \<Rightarrow> byte list \<Rightarrow> nat \<Rightarrow> nid \<Rightarrow> nid option option" where
  "exact_loop t addr bitlen node =
     (if pn_bit (nd t node) < bitlen then
        (case child (bit_set addr (pn_bit (nd t node))) (nd t node) of
           None \<Rightarrow> Some None
         | Some c \<Rightarrow> exact_loop t addr bitlen c)
      else Some (Some node))"

definition rb_patricia_search_exact :: "'d ptree \<Rightarrow> rb_prefix \<Rightarrow> nid option option" where
  "rb_patricia_search_exact t p =
     (case pt_head t of
        None \<Rightarrow> Some None
      | Some h \<Rightarrow>
          case exact_loop t (pf_add p) (pf_bitlen p) h of
            None \<Rightarrow> None
          | Some None \<Rightarrow> Some None
          | Some (Some node) \<Rightarrow>
              Some (case pn_prefix (nd t node) of
                      None \<Rightarrow> None
                    | Some q \<Rightarrow>
                        if pn_bit (nd t node) > pf_bitlen p then None
                        else if comp_with_mask (pf_add q) (pf_add p) (pf_bitlen p) then Some node else None))"

text \<open>The stack of \<open>rb_patricia_search_best2\<close> is a list with its top in front.\<close>

partial_function (option) best_loop ::
  "'d ptree \<Rightarrow> byte list \<Rightarrow> nat \<Rightarrow> nid list \<Rightarrow> nid \<Rightarrow> (nid list \<times> nid option) option" where
  "best_loop t addr bitlen stack node =
     (if pn_bit (nd t node) < bitlen then
        (let stack' = (if pn_prefix (nd t node) \<noteq> None then node # stack else stack)
         in case child (bit_set addr (pn_bit (nd t node))) (nd t node) of
              None \<Rightarrow> Some (stack', None)
            | Some c \<Rightarrow> best_loop t addr bitlen stack' c)
      else Some (stack, Some node))"

definition best_stack :: "'d ptree \<Rightarrow> rb_prefix \<Rightarrow> bool \<Rightarrow> nid \<Rightarrow> nid list option" where
  "best_stack t p inclusive h =
     (case best_loop t (pf_add p) (pf_bitlen p) [] h of
        None \<Rightarrow> None
      | Some (stack, None) \<Rightarrow> Some stack
      | Some (stack, Some node) \<Rightarrow> Some (if inclusive \<and> pn_prefix (nd t node) \<noteq> None then node # stack else stack))"

definition net_covers :: "'d ptree \<Rightarrow> rb_prefix \<Rightarrow> nid \<Rightarrow> bool" where
  "net_covers t p n =
     (case pn_prefix (nd t n) of None \<Rightarrow> False | Some q \<Rightarrow> comp_with_mask (pf_add q) (pf_add p) (pf_bitlen q))"

definition rb_patricia_search_best2 :: "'d ptree \<Rightarrow> rb_prefix \<Rightarrow> bool \<Rightarrow> nid option option" where
  "rb_patricia_search_best2 t p inclusive =
     (case pt_head t of
        None \<Rightarrow> Some None
      | Some h \<Rightarrow>
          case best_stack t p inclusive h of
            None \<Rightarrow> None
          | Some stack \<Rightarrow> Some (find (net_covers t p) stack))"

definition rb_patricia_search_best :: "'d ptree \<Rightarrow> rb_prefix \<Rightarrow> nid option option" where
  "rb_patricia_search_best t p = rb_patricia_search_best2 t p True"

section \<open>Insertion\<close>

partial_function (option) descend :: "'d ptree \<Rightarrow> byte list \<Rightarrow> nat \<Rightarrow> nid \<Rightarrow> nid option" where
  "descend t addr bitlen node =
     (if pn_bit (nd t node) < bitlen \<or> pn_prefix (nd t node) = None then
        (case child (pn_bit (nd t node) < pt_maxbits t \<and> bit_set addr (pn_bit (nd t node))) (nd t node) of
           None \<Rightarrow> Some node
         | Some c \<Rightarrow> descend t addr bitlen c)
      else Some node)"

function first_bit :: "byte \<Rightarrow> nat \<Rightarrow> nat" where
  "first_bit r j = (if j < 8 \<and> r AND drop_bit j 0x80 = 0 then first_bit r (Suc j) else j)"
  by auto
termination by (relation "measure (\<lambda>(r, j). 8 - j)") auto

function differ_loop :: "byte list \<Rightarrow> byte list \<Rightarrow> nat \<Rightarrow> nat \<Rightarrow> nat \<Rightarrow> nat" where
  "differ_loop addr test_addr check_bit i d =
     (if i * 8 < check_bit then
        (let r = addr ! i XOR test_addr ! i
         in if r = 0 then differ_loop addr test_addr check_bit (Suc i) (Suc i * 8) else i * 8 + first_bit r 0)
      else d)"
  by auto
termination by (relation "measure (\<lambda>(a, b, c, i, d). c - i)") auto

declare first_bit.simps [simp del] differ_loop.simps [simp del]

definition differ_bit :: "byte list \<Rightarrow> byte list \<Rightarrow> nat \<Rightarrow> nat" where
  "differ_bit addr test_addr check_bit = min (differ_loop addr test_addr check_bit 0 0) check_bit"

partial_function (option) climb :: "'d ptree \<Rightarrow> nat \<Rightarrow> nid \<Rightarrow> nid option" where
  "climb t d node =
     (case pn_parent (nd t node) of
        None \<Rightarrow> Some node
      | Some p \<Rightarrow> if pn_bit (nd t p) \<ge> d then climb t d p else Some node)"

text \<open>The link from the parent of a node (or from the tree) is set to another node.\<close>

definition relink :: "nid option \<Rightarrow> nid \<Rightarrow> nid option \<Rightarrow> 'd ptree \<Rightarrow> 'd ptree" where
  "relink parent old new t =
     (case parent of
        None \<Rightarrow> t\<lparr>pt_head := new\<rparr>
      | Some q \<Rightarrow> upd_node q (set_child (pn_r (nd t q) = Some old) new) t)"

definition leaf :: "rb_prefix \<Rightarrow> 'd pnode" where
  "leaf p = \<lparr>pn_bit = pf_bitlen p, pn_prefix = Some p, pn_l = None, pn_r = None, pn_parent = None, pn_data = None\<rparr>"

definition insert_node :: "'d ptree \<Rightarrow> rb_prefix \<Rightarrow> byte list \<Rightarrow> nat \<Rightarrow> nid \<Rightarrow> nid \<times> 'd ptree" where
  "insert_node t p test_addr d node =
     (let x = nd t node; n = pt_next t; side = (\<lambda>a i. i < pt_maxbits t \<and> bit_set a i)
      in if d = pf_bitlen p \<and> pn_bit x = pf_bitlen p then
           (node, if pn_prefix x \<noteq> None then t else upd_node node (\<lambda>x. x\<lparr>pn_prefix := Some p\<rparr>) t)
         else if pn_bit x = d then
           (n, upd_node node (set_child (side (pf_add p) d) (Some n))
                 (new_node ((leaf p)\<lparr>pn_parent := Some node\<rparr>) t))
         else if pf_bitlen p = d then
           (n, upd_node node (\<lambda>x. x\<lparr>pn_parent := Some n\<rparr>)
                 (relink (pn_parent x) node (Some n)
                   (new_node (set_child (side test_addr d) (Some node) ((leaf p)\<lparr>pn_parent := pn_parent x\<rparr>)) t)))
         else
           (let g = Suc n; right = side (pf_add p) d;
                glue = set_child right (Some n) (set_child (\<not> right) (Some node)
                  \<lparr>pn_bit = d, pn_prefix = None, pn_l = None, pn_r = None, pn_parent = pn_parent x, pn_data = None\<rparr>)
            in (n, upd_node node (\<lambda>x. x\<lparr>pn_parent := Some g\<rparr>)
                     (relink (pn_parent x) node (Some g)
                       (new_node glue (new_node ((leaf p)\<lparr>pn_parent := Some g\<rparr>) t))))))"

text \<open>\<open>None\<close>: a loop does not end or the assertion that the node found has a prefix fails.\<close>

definition rb_patricia_lookup :: "'d ptree \<Rightarrow> rb_prefix \<Rightarrow> (nid \<times> 'd ptree) option" where
  "rb_patricia_lookup t p =
     (case pt_head t of
        None \<Rightarrow> Some (pt_next t, (new_node (leaf p) t)\<lparr>pt_head := Some (pt_next t)\<rparr>)
      | Some h \<Rightarrow>
          case descend t (pf_add p) (pf_bitlen p) h of
            None \<Rightarrow> None
          | Some node \<Rightarrow>
              case pn_prefix (nd t node) of
                None \<Rightarrow> None
              | Some q \<Rightarrow>
                  let d = differ_bit (pf_add p) (pf_add q) (if pn_bit (nd t node) < pf_bitlen p then pn_bit (nd t node) else pf_bitlen p)
                  in case climb t d node of
                       None \<Rightarrow> None
                     | Some place \<Rightarrow> Some (insert_node t p (pf_add q) d place))"

section \<open>Removal\<close>

text \<open>A node with at most one child is taken out; the child takes its place.\<close>

definition unlink_node :: "nid \<Rightarrow> nid option \<Rightarrow> 'd ptree \<Rightarrow> 'd ptree" where
  "unlink_node node c t =
     (let parent = pn_parent (nd t node);
          t1 = (case c of None \<Rightarrow> t | Some k \<Rightarrow> upd_node k (\<lambda>x. x\<lparr>pn_parent := parent\<rparr>) t)
      in relink parent node c (free_node node t1))"

definition rb_patricia_remove :: "'d ptree \<Rightarrow> nid \<Rightarrow> 'd ptree" where
  "rb_patricia_remove t node =
     (let x = nd t node
      in if pn_r x \<noteq> None \<and> pn_l x \<noteq> None then
           upd_node node (\<lambda>x. x\<lparr>pn_prefix := None, pn_data := None\<rparr>) t
         else if pn_r x = None \<and> pn_l x = None then
           (let t1 = unlink_node node None t
            in case pn_parent x of
                 None \<Rightarrow> t1
               | Some q \<Rightarrow>
                   if pn_prefix (nd t1 q) \<noteq> None then t1
                   else unlink_node q (child (pn_r (nd t q) \<noteq> Some node) (nd t1 q)) t1)
         else unlink_node node (if pn_r x \<noteq> None then pn_r x else pn_l x) t)"

section \<open>Addresses\<close>

definition make_and_lookup_ip :: "'d ptree \<Rightarrow> af \<Rightarrow> byte list \<Rightarrow> int \<Rightarrow> (nid \<times> 'd ptree) option" where
  "make_and_lookup_ip t family addr bitlen = rb_patricia_lookup t (New_Prefix family addr bitlen)"

definition string_prefix :: "cstring \<Rightarrow> rb_prefix option" where
  "string_prefix s = (case ascii2prefix AF_INET s of Some p \<Rightarrow> Some p | None \<Rightarrow> ascii2prefix AF_INET6 s)"

definition make_and_lookup :: "'d ptree \<Rightarrow> cstring \<Rightarrow> (nid option \<times> 'd ptree) option" where
  "make_and_lookup t s =
     (case string_prefix s of
        None \<Rightarrow> Some (None, t)
      | Some p \<Rightarrow> case rb_patricia_lookup t p of None \<Rightarrow> None | Some (n, t') \<Rightarrow> Some (Some n, t'))"

definition rb_match_ip :: "'d ptree \<Rightarrow> af \<Rightarrow> byte list \<Rightarrow> nid option option" where
  "rb_match_ip t family addr = rb_patricia_search_best t (New_Prefix family addr (8 * int (addr_len family)))"

definition rb_match_ip_exact :: "'d ptree \<Rightarrow> af \<Rightarrow> byte list \<Rightarrow> nat \<Rightarrow> nid option option" where
  "rb_match_ip_exact t family addr len =
     rb_patricia_search_exact t (New_Prefix family addr (int (min len (8 * addr_len family))))"

definition rb_match_string :: "'d ptree \<Rightarrow> cstring \<Rightarrow> nid option option" where
  "rb_match_string t s = (case string_prefix s of None \<Rightarrow> Some None | Some p \<Rightarrow> rb_patricia_search_best t p)"

definition rb_match_exact_string :: "'d ptree \<Rightarrow> cstring \<Rightarrow> nid option option" where
  "rb_match_exact_string t s = (case string_prefix s of None \<Rightarrow> Some None | Some p \<Rightarrow> rb_patricia_search_exact t p)"

section \<open>Walking\<close>

text \<open>
  \<open>RB_PATRICIA_WALK\<close>, with which \<open>rb_patricia_process\<close> visits the nodes that have a prefix: the stack \<open>Xstack\<close>
  holds the right children that wait.
\<close>

partial_function (option) walk :: "'d ptree \<Rightarrow> nid list \<Rightarrow> nid list \<Rightarrow> nid option \<Rightarrow> nid list option" where
  "walk t stack seen rn =
     (case rn of
        None \<Rightarrow> Some seen
      | Some n \<Rightarrow>
          let x = nd t n; seen' = (if pn_prefix x \<noteq> None then seen @ [n] else seen)
          in case pn_l x of
               Some l \<Rightarrow> walk t (case pn_r x of Some r \<Rightarrow> r # stack | None \<Rightarrow> stack) seen' (Some l)
             | None \<Rightarrow>
                 case pn_r x of
                   Some r \<Rightarrow> walk t stack seen' (Some r)
                 | None \<Rightarrow> case stack of [] \<Rightarrow> Some seen' | s # ss \<Rightarrow> walk t ss seen' (Some s))"

end
