(* ===== verification/PatriciaProps.thy ===== *)
theory PatriciaProps
  imports Patricia
begin

unbundle bit_operations_syntax

text \<open>
  The radix tree keeps its shape, and the shape makes the searches right. Every node has a key, the
  bits that lead to it: the key of a child continues the key of its parent with the side it is
  on, and the key of a node with a prefix is the network of that prefix.
\<close>

section \<open>Bits\<close>

lemma bit_mask_byte: "k < 8 \<Longrightarrow> (r AND drop_bit k 0x80 = 0) = (\<not> bit (r :: byte) (7 - k))"
proof -
  assume k: "k < 8"
  then have "k \<in> {0, 1, 2, 3, 4, 5, 6, 7}" by auto
  then have "drop_bit k 0x80 = (2 ^ (7 - k) :: byte)" by (auto simp: drop_bit_eq_div)
  then show ?thesis by (simp add: and_exp_eq_0_iff_not_bit)
qed

lemma bit_set_addr_bit [simp]: "bit_set a i = addr_bit a i"
  by (simp add: bit_set_def addr_bit_def bit_mask_byte)

lemma first_bit_spec:
  "(\<forall>k. j \<le> k \<and> k < first_bit r j \<longrightarrow> \<not> bit r (7 - k)) \<and> (first_bit r j < 8 \<longrightarrow> bit r (7 - first_bit r j)) \<and>
   (j \<le> 8 \<longrightarrow> first_bit r j \<le> 8)"
proof (induction r j rule: first_bit.induct)
  case (1 r j)
  show ?case
  proof (cases "j < 8 \<and> r AND drop_bit j 0x80 = 0")
    case True
    then have e: "first_bit r j = first_bit r (Suc j)" by (simp add: first_bit.simps [of r j])
    show ?thesis using 1 [OF True] True bit_mask_byte unfolding e by (auto simp: le_Suc_eq Suc_le_eq dest: le_neq_implies_less)
  next
    case False
    then have e: "first_bit r j = j" using first_bit.simps [of r j] by argo
    show ?thesis using False bit_mask_byte unfolding e by auto
  qed
qed

lemma differ_loop_spec:
  assumes "\<forall>k < i * 8. addr_bit a k = addr_bit b k"
  shows "(\<forall>k < min (differ_loop a b c i (i * 8)) c. addr_bit a k = addr_bit b k) \<and>
    (differ_loop a b c i (i * 8) < c \<longrightarrow> addr_bit a (differ_loop a b c i (i * 8)) \<noteq> addr_bit b (differ_loop a b c i (i * 8)))"
  using assms
proof (induction a b c i "i * 8" rule: differ_loop.induct)
  case (1 a b c i)
  let ?r = "a ! i XOR b ! i"
  have s: "addr_bit x (i * 8 + j) = bit (x ! i) (7 - j)" if "j < 8" for x j
    using that by (simp add: addr_bit_def div_mult_self3)
  show ?case
  proof (cases "i * 8 < c")
    case False
    then show ?thesis using 1(2) by (simp add: differ_loop.simps [of a b c i])
  next
    case T: True
    show ?thesis
    proof (cases "?r = 0")
      case True
      then have "\<not> bit (a ! i XOR b ! i) k" for k by simp
      then have "bit (a ! i) k = bit (b ! i) k" for k by (simp add: bit_xor_iff)
      then have "addr_bit a (i * 8 + j) = addr_bit b (i * 8 + j)" if "j < 8" for j using s that by simp
      then have "addr_bit a k = addr_bit b k" if "k < Suc i * 8" for k
        using 1(2) that by (cases "k < i * 8") (auto simp: not_less dest!: le_Suc_ex)
      then have "\<forall>k < Suc i * 8. addr_bit a k = addr_bit b k" by blast
      from 1(1) [OF T refl True this] show ?thesis using T True by (simp add: differ_loop.simps [of a b c i] Let_def)
    next
      case False
      let ?j = "first_bit ?r 0"
      note f = first_bit_spec [of 0 ?r]
      have "?j < 8"
      proof (rule ccontr)
        assume "\<not> ?j < 8"
        then have "\<not> bit ?r (7 - k)" if "k < 8" for k using f that by auto
        then have "?r = 0" using byte_eq_bits [of ?r 0] by simp
        then show False using False by simp
      qed
      moreover have e: "differ_loop a b c i (i * 8) = i * 8 + ?j" using T False by (simp add: differ_loop.simps [of a b c i] Let_def)
      moreover have "addr_bit a k = addr_bit b k" if "k < i * 8 + ?j" for k
      proof (cases "k < i * 8")
        case True
        then show ?thesis using 1(2) by simp
      next
        case False
        define j where "j = k - i * 8"
        have j: "k = i * 8 + j" "j < ?j" using False that by (auto simp: j_def)
        then have "\<not> bit ?r (7 - j)" using f by blast
        then show ?thesis using s [of j a] s [of j b] j \<open>?j < 8\<close> by (simp add: bit_xor_iff)
      qed
      moreover have "bit ?r (7 - ?j)" using f \<open>?j < 8\<close> by blast
      ultimately show ?thesis using s [of ?j a] s [of ?j b] by (simp add: bit_xor_iff)
    qed
  qed
qed

lemma differ_bit_spec:
  "differ_bit a b c \<le> c" "k < differ_bit a b c \<Longrightarrow> addr_bit a k = addr_bit b k"
  "differ_bit a b c < c \<Longrightarrow> addr_bit a (differ_bit a b c) \<noteq> addr_bit b (differ_bit a b c)"
  using differ_loop_spec [of 0 a b c] by (auto simp: differ_bit_def min_def split: if_splits)

section \<open>Keys and shape\<close>

type_synonym keys = "nid \<Rightarrow> bool list"

definition net_bits :: "rb_prefix \<Rightarrow> bool list" where
  "net_bits p = map (addr_bit (pf_add p)) [0..<pf_bitlen p]"

lemma net_bits_nth [simp]: "i < pf_bitlen p \<Longrightarrow> net_bits p ! i = addr_bit (pf_add p) i"
  by (simp add: net_bits_def)

lemma net_bits_length [simp]: "length (net_bits p) = pf_bitlen p"
  by (simp add: net_bits_def)

definition prefix_ok :: "nat \<Rightarrow> rb_prefix \<Rightarrow> bool" where
  "prefix_ok maxbits p = (length (pf_add p) = 16 \<and> pf_bitlen p \<le> maxbits)"

definition node_ok :: "'d ptree \<Rightarrow> keys \<Rightarrow> nid \<Rightarrow> 'd pnode \<Rightarrow> bool" where
  "node_ok t K n x =
     (length (K n) = pn_bit x \<and> pn_bit x \<le> pt_maxbits t \<and>
      (\<forall>p. pn_prefix x = Some p \<longrightarrow> prefix_ok (pt_maxbits t) p \<and> K n = net_bits p) \<and>
      (pn_prefix x = None \<longrightarrow> pn_data x = None) \<and>
      (\<forall>s c. child s x = Some c \<longrightarrow> (\<exists>y rest. pt_nodes t c = Some y \<and> pn_parent y = Some n \<and> K c = K n @ s # rest)) \<and>
      (pn_parent x = None \<longrightarrow> pt_head t = Some n) \<and>
      (\<forall>q. pn_parent x = Some q \<longrightarrow> (\<exists>y s. pt_nodes t q = Some y \<and> child s y = Some n)))"

definition shape :: "'d ptree \<Rightarrow> keys \<Rightarrow> bool" where
  "shape t K =
     ((pt_head t = None \<longrightarrow> pt_nodes t = Map.empty) \<and> (\<forall>h. pt_head t = Some h \<longrightarrow> (\<exists>x. pt_nodes t h = Some x \<and> pn_parent x = None)) \<and>
      (\<forall>n x. pt_nodes t n = Some x \<longrightarrow> node_ok t K n x))"

definition full :: "'d ptree \<Rightarrow> bool" where
  "full t = (\<forall>n x s. pt_nodes t n = Some x \<longrightarrow> pn_prefix x = None \<longrightarrow> child s x \<noteq> None)"

definition books :: "'d ptree \<Rightarrow> bool" where
  "books t = (dom (pt_nodes t) \<subseteq> {..<pt_next t} \<and> card (dom (pt_nodes t)) = pt_num_active_node t)"

definition pt_ok :: "'d ptree \<Rightarrow> bool" where
  "pt_ok t = (pt_maxbits t \<le> RB_PATRICIA_MAXBITS \<and> books t \<and> full t \<and> (\<exists>K. shape t K))"

lemma child_set_child [simp]: "child s (set_child s' c x) = (if s = s' then c else child s x)"
  by (simp add: child_def set_child_def)

lemma set_child_sel [simp]:
  "pn_bit (set_child s c x) = pn_bit x" "pn_prefix (set_child s c x) = pn_prefix x" "pn_parent (set_child s c x) = pn_parent x"
  "pn_data (set_child s c x) = pn_data x"
  by (simp_all add: set_child_def)

lemma child_upd [simp]:
  "child s (x\<lparr>pn_parent := q\<rparr>) = child s x" "child s (x\<lparr>pn_prefix := p\<rparr>) = child s x" "child s (x\<lparr>pn_data := d\<rparr>) = child s x"
  by (simp_all add: child_def)

lemma nd_Some [simp]: "pt_nodes t n = Some x \<Longrightarrow> nd t n = x"
  by (simp add: nd_def)

lemma shapeD:
  assumes "shape t K" "pt_nodes t n = Some x"
  shows "length (K n) = pn_bit x" "pn_bit x \<le> pt_maxbits t" "pn_prefix x = Some p \<Longrightarrow> prefix_ok (pt_maxbits t) p \<and> K n = net_bits p"
    "pn_prefix x = None \<Longrightarrow> pn_data x = None" "pn_parent x = None \<Longrightarrow> pt_head t = Some n"
proof -
  have "node_ok t K n x" using assms by (simp add: shape_def)
  then show "length (K n) = pn_bit x" "pn_bit x \<le> pt_maxbits t" "pn_prefix x = Some p \<Longrightarrow> prefix_ok (pt_maxbits t) p \<and> K n = net_bits p"
    "pn_prefix x = None \<Longrightarrow> pn_data x = None" "pn_parent x = None \<Longrightarrow> pt_head t = Some n"
    by (simp_all add: node_ok_def)
qed

lemma shape_child:
  assumes "shape t K" "pt_nodes t n = Some x" "child s x = Some c"
  obtains y rest where "pt_nodes t c = Some y" "pn_parent y = Some n" "K c = K n @ s # rest"
  using assms unfolding shape_def node_ok_def by blast

lemma shape_parent:
  assumes "shape t K" "pt_nodes t n = Some x" "pn_parent x = Some q"
  obtains y s rest where "pt_nodes t q = Some y" "child s y = Some n" "K n = K q @ s # rest"
proof -
  have "node_ok t K n x" using assms by (simp add: shape_def)
  then obtain y s where ys: "pt_nodes t q = Some y" "child s y = Some n" using assms(3) by (auto simp: node_ok_def)
  from shape_child [OF assms(1) ys] that ys show thesis by blast
qed

lemma shape_head:
  assumes "shape t K" "pt_head t = Some h"
  obtains x where "pt_nodes t h = Some x" "pn_parent x = None"
  using assms by (auto simp: shape_def)

lemma shape_head_None: "shape t K \<Longrightarrow> pt_head t = None \<longleftrightarrow> pt_nodes t = Map.empty"
  by (cases "pt_head t") (auto simp: shape_def)

text \<open>A node is on one side of its parent only.\<close>

lemma right_child_side:
  assumes "shape t K" "pt_nodes t q = Some z" "child s z = Some n"
  shows "(pn_r z = Some n) = s"
proof (cases s)
  case False
  then have "pn_r z \<noteq> Some n"
    using assms shape_child [OF assms] shape_child [OF assms(1,2), of True n] by (metis append_eq_append_conv child_def list.inject)
  then show ?thesis using False by simp
qed (use assms(3) in \<open>simp add: child_def\<close>)

section \<open>Descendants\<close>

inductive desc :: "'d ptree \<Rightarrow> nid \<Rightarrow> nid \<Rightarrow> bool" for t where
  self: "pt_nodes t n = Some x \<Longrightarrow> desc t n n"
| down: "pt_nodes t a = Some x \<Longrightarrow> child s x = Some c \<Longrightarrow> desc t c n \<Longrightarrow> desc t a n"

lemma desc_key: "desc t a n \<Longrightarrow> shape t K \<Longrightarrow> \<exists>rest. K n = K a @ rest"
proof (induction rule: desc.induct)
  case (down a x s c n)
  obtain r where "K c = K a @ s # r" using shape_child [OF down.prems down.hyps(1,2)] by blast
  then show ?case using down.IH [OF down.prems] by auto
qed simp

lemma desc_dom: "desc t a n \<Longrightarrow> \<exists>x y. pt_nodes t a = Some x \<and> pt_nodes t n = Some y"
  by (induction rule: desc.induct) auto

lemma desc_cases:
  assumes d: "desc t a n" and k: "shape t K" and a: "pt_nodes t a = Some x"
  obtains "n = a" | c where "child (K n ! pn_bit x) x = Some c" "desc t c n" "pn_bit x < length (K n)"
  using d
proof (cases rule: desc.cases)
  case (down x' s c)
  then have x: "x' = x" using a by simp
  obtain y r where y: "pt_nodes t c = Some y" "K c = K a @ s # r" using shape_child [OF k down(1,2)] by blast
  obtain r' where "K n = K c @ r'" using desc_key [OF down(3) k] by blast
  then have "K n ! pn_bit x = s" "pn_bit x < length (K n)" using y shapeD(1) [OF k a] by (auto simp: nth_append)
  then show ?thesis using that(2) down x by blast
qed (use that(1) in blast)

lemma desc_trans: "desc t a b \<Longrightarrow> desc t b c \<Longrightarrow> desc t a c"
  by (induction rule: desc.induct) (auto intro: desc.intros)

lemma desc_head:
  assumes k: "shape t K" and h: "pt_head t = Some h"
  shows "pt_nodes t n = Some x \<Longrightarrow> desc t h n"
proof (induction "pn_bit x" arbitrary: n x rule: less_induct)
  case less
  show ?case
  proof (cases "pn_parent x")
    case None
    then show ?thesis using shapeD(5) [OF k less.prems] h desc.self [OF less.prems] by simp
  next
    case (Some q)
    from shape_parent [OF k less.prems Some] obtain y s r where
      y: "pt_nodes t q = Some y" "child s y = Some n" "K n = K q @ s # r" by blast
    have "pn_bit y < pn_bit x" using shapeD(1) [OF k y(1)] shapeD(1) [OF k less.prems] y(3) by simp
    from less.hyps [OF this y(1)] show ?thesis
      using desc_trans desc.down [OF y(1,2) desc.self [OF less.prems]] by blast
  qed
qed

text \<open>A node whose key starts another's key is above that node; so keys are unique.\<close>

lemma desc_if_key:
  assumes k: "shape t K"
  shows "desc t a n \<Longrightarrow> desc t a m \<Longrightarrow> K m = K n @ rest \<Longrightarrow> desc t n m"
proof (induction arbitrary: m rule: desc.induct)
  case (down a x s c n)
  show ?case
    using down.prems(1) k down.hyps(1)
  proof (cases rule: desc_cases)
    case 1
    obtain r where "K n = K c @ r" using desc_key [OF down.hyps(3) k] by blast
    moreover obtain y r' where "K c = K a @ s # r'" using shape_child [OF k down.hyps(1,2)] by blast
    ultimately show ?thesis using 1 down.prems(2) by simp
  next
    case (2 c')
    obtain y r where y: "K c = K a @ s # r" using shape_child [OF k down.hyps(1,2)] by blast
    obtain r' where "K n = K c @ r'" using desc_key [OF down.hyps(3) k] by blast
    then have "K m ! pn_bit x = s" using y shapeD(1) [OF k down.hyps(1)] down.prems(2) by (auto simp: nth_append)
    then have "c' = c" using 2(1) down.hyps(2) by simp
    then show ?thesis using down.IH 2(2) down.prems(2) by blast
  qed
qed

lemma keys_unique:
  assumes k: "shape t K" and n: "pt_nodes t n = Some x" and m: "pt_nodes t m = Some y" and eq: "K n = K m"
  shows "n = m"
proof -
  obtain h where h: "pt_head t = Some h" using shape_head_None [OF k] n by (cases "pt_head t") auto
  have "desc t n m" using desc_if_key [OF k desc_head [OF k h n] desc_head [OF k h m], of "[]"] eq by simp
  then show ?thesis using eq by (cases rule: desc_cases [OF _ k n]) (auto simp: shapeD(1) [OF k n] eq [symmetric])
qed

end
