(* ===== verification/PatriciaSearch.thy ===== *)
theory PatriciaSearch
  imports PatriciaProps
begin

unbundle bit_operations_syntax

text \<open>The searches of the radix tree: they end, and find what is in the tree.\<close>

text \<open>The networks in a tree, with their data, by the node that holds them.\<close>

definition entries :: "'d ptree \<Rightarrow> nid \<rightharpoonup> rb_prefix \<times> 'd option" where
  "entries t n =
     (case pt_nodes t n of
        None \<Rightarrow> None
      | Some x \<Rightarrow> case pn_prefix x of None \<Rightarrow> None | Some p \<Rightarrow> Some (p, pn_data x))"

lemma entries_Some: "entries t n = Some (p, d) \<longleftrightarrow> (\<exists>x. pt_nodes t n = Some x \<and> pn_prefix x = Some p \<and> pn_data x = d)"
  by (auto simp: entries_def split: option.splits)

lemma entries_key: "shape t K \<Longrightarrow> entries t n = Some (p, d) \<Longrightarrow> K n = net_bits p \<and> prefix_ok (pt_maxbits t) p \<and> pn_bit (nd t n) = pf_bitlen p"
  using shapeD(1,3) by (fastforce simp: entries_Some)

lemma entries_unique:
  assumes "shape t K" "entries t n = Some (p, d)" "entries t m = Some (q, e)" "net_bits p = net_bits q"
  shows "n = m"
proof -
  have "K n = K m" using entries_key [OF assms(1,2)] entries_key [OF assms(1,3)] assms(4) by simp
  then show ?thesis using keys_unique [OF assms(1)] assms(2,3) by (auto simp: entries_Some)
qed

lemma covers_bits:
  assumes "prefix_ok 128 p" "prefix_ok 128 q" "k \<le> 128"
  shows "comp_with_mask (pf_add q) (pf_add p) k \<longleftrightarrow> (\<forall>i < k. addr_bit (pf_add q) i = addr_bit (pf_add p) i)"
  using assms by (intro comp_with_mask_bits_aux) (auto simp: prefix_ok_def)

lemma same_net: "pf_bitlen q = pf_bitlen p \<Longrightarrow> (net_bits q = net_bits p) = (\<forall>i < pf_bitlen p. addr_bit (pf_add q) i = addr_bit (pf_add p) i)"
  by (auto simp: list_eq_iff_nth_eq)

section \<open>The exact search\<close>

lemma exact_loop_finds:
  assumes k: "shape t K"
  shows "pt_nodes t a = Some x \<Longrightarrow>
    \<exists>r. exact_loop t addr len a = Some r \<and> (\<forall>n. r = Some n \<longrightarrow> (\<exists>y. pt_nodes t n = Some y \<and> len \<le> pn_bit y)) \<and>
      (\<forall>n. desc t a n \<longrightarrow> K n = map (addr_bit addr) [0..<len] \<longrightarrow> r = Some n)"
proof (induction "pt_maxbits t - pn_bit x" arbitrary: a x rule: less_induct)
  case less
  note a = less.prems
  show ?case
  proof (cases "pn_bit x < len")
    case False
    have "n = a" if "desc t a n" "K n = map (addr_bit addr) [0..<len]" for n
      using desc_cases [OF that(1) k a] that(2) False by (metis diff_zero length_map length_upt)
    then show ?thesis using False a by (auto simp: exact_loop.simps [of t addr len a])
  next
    case True
    let ?s = "addr_bit addr (pn_bit x)"
    have next_child: "\<exists>c. child ?s x = Some c \<and> desc t c n" if "desc t a n" "K n = map (addr_bit addr) [0..<len]" for n
      using desc_cases [OF that(1) k a] that(2) True shapeD(1) [OF k a]
      by (metis add.left_neutral diff_zero length_map length_upt less_irrefl nth_map_upt)
    show ?thesis
    proof (cases "child ?s x")
      case None
      then show ?thesis using True a next_child by (auto simp: exact_loop.simps [of t addr len a])
    next
      case (Some c)
      obtain y r where y: "pt_nodes t c = Some y" "K c = K a @ ?s # r" using shape_child [OF k a Some] by blast
      have "pt_maxbits t - pn_bit y < pt_maxbits t - pn_bit x"
        using shapeD(1) [OF k a] shapeD(1,2) [OF k y(1)] y(2) by simp
      from less.hyps [OF this y(1)] show ?thesis
        using True a Some next_child by (fastforce simp: exact_loop.simps [of t addr len a])
    qed
  qed
qed

lemma search_exact_finds:
  assumes ok: "pt_ok t" and p: "prefix_ok (pt_maxbits t) p"
  obtains r where "rb_patricia_search_exact t p = Some r"
    "\<And>n. r = Some n \<longleftrightarrow> (\<exists>q d. entries t n = Some (q, d) \<and> net_bits q = net_bits p)"
proof -
  obtain K where k: "shape t K" using ok by (auto simp: pt_ok_def)
  have m: "pt_maxbits t \<le> 128" using ok by (simp add: pt_ok_def RB_PATRICIA_MAXBITS_def)
  show thesis
  proof (cases "pt_head t")
    case None
    then show thesis
      using that [of None] shape_head_None [OF k] by (simp add: rb_patricia_search_exact_def entries_def)
  next
    case (Some h)
    obtain x where x: "pt_nodes t h = Some x" using shape_head [OF k Some] by blast
    from exact_loop_finds [OF k x, of "pf_add p" "pf_bitlen p"] obtain r where
      r: "exact_loop t (pf_add p) (pf_bitlen p) h = Some r"
      "\<And>n. r = Some n \<Longrightarrow> \<exists>y. pt_nodes t n = Some y \<and> pf_bitlen p \<le> pn_bit y"
      "\<And>n. desc t h n \<Longrightarrow> K n = net_bits p \<Longrightarrow> r = Some n"
      by (auto simp: net_bits_def)
    have reached: "r = Some n" if "entries t n = Some (q, d)" "net_bits q = net_bits p" for n q d
      using r(3) desc_head [OF k Some] entries_key [OF k that(1)] that by (auto simp: entries_Some)
    show thesis
    proof (cases r)
      case None
      then show thesis using that [of None] r(1) Some reached by (auto simp: rb_patricia_search_exact_def)
    next
      case n: (Some n)
      then obtain y where y: "pt_nodes t n = Some y" "pf_bitlen p \<le> pn_bit y" using r(2) by blast
      let ?res = "case pn_prefix y of None \<Rightarrow> None
        | Some q \<Rightarrow> if pn_bit y > pf_bitlen p then None else if comp_with_mask (pf_add q) (pf_add p) (pf_bitlen p) then Some n else None"
      have e: "rb_patricia_search_exact t p = Some ?res" using r(1) n Some y by (simp add: rb_patricia_search_exact_def split: option.split)
      have "?res = Some n' \<longleftrightarrow> (\<exists>q d. entries t n' = Some (q, d) \<and> net_bits q = net_bits p)" for n'
      proof
        assume a: "?res = Some n'"
        then obtain q where q: "pn_prefix y = Some q" "\<not> pn_bit y > pf_bitlen p" "comp_with_mask (pf_add q) (pf_add p) (pf_bitlen p)" "n' = n"
          by (auto split: option.splits if_splits)
        have qo: "prefix_ok (pt_maxbits t) q" "pf_bitlen q = pf_bitlen p"
          using shapeD(1,3) [OF k y(1)] q(1,2) y(2) by (auto simp flip: net_bits_length)
        then have "net_bits q = net_bits p" using q(3) covers_bits [of p q] p m by (auto simp: same_net prefix_ok_def)
        then show "\<exists>q d. entries t n' = Some (q, d) \<and> net_bits q = net_bits p" using y(1) q by (auto simp: entries_Some)
      next
        assume "\<exists>q d. entries t n' = Some (q, d) \<and> net_bits q = net_bits p"
        then obtain q d where q: "entries t n' = Some (q, d)" "net_bits q = net_bits p" by blast
        then have n': "n' = n" using reached n by simp
        have l: "pf_bitlen q = pf_bitlen p" using q(2) by (metis net_bits_length)
        have "prefix_ok (pt_maxbits t) q" "pn_bit y = pf_bitlen q" using entries_key [OF k q(1)] n' y(1) by auto
        then show "?res = Some n'"
          using q n' y l covers_bits [of p q "pf_bitlen p"] p m same_net [OF l] by (auto simp: entries_Some prefix_ok_def)
      qed
      then show thesis using that e by blast
    qed
  qed
qed

section \<open>The best match\<close>

text \<open>The stack holds networks, longer ones on top of shorter ones.\<close>

definition stack_ok :: "'d ptree \<Rightarrow> nid list \<Rightarrow> bool" where
  "stack_ok t st = (sorted_wrt (\<lambda>m m'. pn_bit (nd t m') < pn_bit (nd t m)) st \<and> set st \<subseteq> dom (entries t))"

lemma stack_bound:
  assumes k: "shape t K" and st: "stack_ok t st"
  shows "length st \<le> Suc (pt_maxbits t)"
proof -
  let ?f = "\<lambda>m. pn_bit (nd t m)"
  have d: "distinct (map ?f st)" using st by (auto simp: stack_ok_def distinct_conv_nth sorted_wrt_iff_nth_less nat_neq_iff)
  have "set (map ?f st) \<subseteq> {..pt_maxbits t}"
    using st entries_key [OF k] unfolding stack_ok_def prefix_ok_def by fastforce
  then have "card (set (map ?f st)) \<le> card {..pt_maxbits t}" by (intro card_mono) simp_all
  then show ?thesis using distinct_card [OF d] by simp
qed

lemma find_longest:
  assumes "stack_ok t st" "find P st = Some n" "m \<in> set st" "P m"
  shows "pn_bit (nd t m) \<le> pn_bit (nd t n)"
proof -
  obtain i where i: "i < length st" "st ! i = n" "\<And>j. j < i \<Longrightarrow> \<not> P (st ! j)" using assms(2) by (auto simp: find_Some_iff)
  obtain j where j: "j < length st" "st ! j = m" using assms(3) by (auto simp: in_set_conv_nth)
  consider "i = j" | "i < j" using i(3) j assms(4) by (metis nat_neq_iff)
  then show ?thesis using assms(1) i j by cases (auto simp: stack_ok_def sorted_wrt_iff_nth_less less_imp_le)
qed

lemma best_loop_stack:
  assumes k: "shape t K"
  shows "pt_nodes t a = Some x \<Longrightarrow> stack_ok t stack \<Longrightarrow> \<forall>m \<in> set stack. pn_bit (nd t m) < pn_bit x \<Longrightarrow>
    \<exists>st r. best_loop t addr len stack a = Some (st, r) \<and> stack_ok t st \<and>
      (\<forall>n. r = Some n \<longrightarrow> (\<exists>y. pt_nodes t n = Some y \<and> (\<forall>m \<in> set st. pn_bit (nd t m) < pn_bit y))) \<and>
      (\<forall>m \<in> dom (entries t). (m \<in> set stack \<or> desc t a m \<and> length (K m) \<le> len \<and> (\<forall>i < length (K m). K m ! i = addr_bit addr i)) \<longrightarrow>
         m \<in> set st \<or> r = Some m)"
proof (induction "pt_maxbits t - pn_bit x" arbitrary: a x stack rule: less_induct)
  case less
  note a = less.prems(1)
  show ?case
  proof (cases "pn_bit x < len")
    case False
    have "m = a" if m: "desc t a m" "length (K m) \<le> len" for m
      by (cases rule: desc_cases [OF m(1) k a]) (use m(2) False in auto)
    then show ?thesis using False a less.prems(2,3) by (auto simp: best_loop.simps [of t addr len stack a])
  next
    case True
    let ?s = "addr_bit addr (pn_bit x)"
    define st1 where "st1 = (if pn_prefix x \<noteq> None then a # stack else stack)"
    have st1: "stack_ok t st1" "\<forall>m \<in> set st1. pn_bit (nd t m) \<le> pn_bit x"
      using less.prems a by (auto simp: st1_def stack_ok_def dom_def entries_def)
    have next_child: "m \<in> set st1 \<or> (\<exists>c. child ?s x = Some c \<and> desc t c m)"
      if "m \<in> dom (entries t)" "desc t a m" "\<forall>i < length (K m). K m ! i = addr_bit addr i" for m
      using desc_cases [OF that(2) k a]
    proof cases
      case 1
      then show ?thesis using that(1) a by (auto simp: st1_def entries_def split: option.splits)
    qed (use that(3) in auto)
    show ?thesis
    proof (cases "child ?s x")
      case None
      then have "best_loop t addr len stack a = Some (st1, None)" using True a by (simp add: best_loop.simps [of t addr len stack a] st1_def Let_def)
      then show ?thesis using None st1(1) next_child by (auto simp: st1_def)
    next
      case (Some c)
      then have e: "best_loop t addr len stack a = best_loop t addr len st1 c"
        using True a by (simp add: best_loop.simps [of t addr len stack a] st1_def Let_def)
      obtain y r where y: "pt_nodes t c = Some y" "K c = K a @ ?s # r" using shape_child [OF k a Some] by blast
      have b: "pn_bit x < pn_bit y" using shapeD(1) [OF k a] shapeD(1) [OF k y(1)] y(2) by simp
      then have lt: "pt_maxbits t - pn_bit y < pt_maxbits t - pn_bit x" using shapeD(2) [OF k y(1)] by simp
      have "\<forall>m \<in> set st1. pn_bit (nd t m) < pn_bit y" using st1(2) b by fastforce
      from less.hyps [OF lt y(1) st1(1) this] obtain st r where
        st: "best_loop t addr len st1 c = Some (st, r)" "stack_ok t st"
        "\<forall>n. r = Some n \<longrightarrow> (\<exists>y. pt_nodes t n = Some y \<and> (\<forall>m \<in> set st. pn_bit (nd t m) < pn_bit y))"
        "\<And>m. m \<in> dom (entries t) \<Longrightarrow> m \<in> set st1 \<or> desc t c m \<and> length (K m) \<le> len \<and> (\<forall>i < length (K m). K m ! i = addr_bit addr i) \<Longrightarrow>
           m \<in> set st \<or> r = Some m"
        by blast
      have "m \<in> set st \<or> r = Some m"
        if "m \<in> dom (entries t)" "m \<in> set stack \<or> desc t a m \<and> length (K m) \<le> len \<and> (\<forall>i < length (K m). K m ! i = addr_bit addr i)" for m
      proof -
        have "m \<in> set stack \<Longrightarrow> m \<in> set st1" by (simp add: st1_def)
        then show ?thesis using st(4) [OF that(1)] that(2) next_child [OF that(1)] Some by auto
      qed
      then show ?thesis unfolding e using st(1-3) by blast
    qed
  qed
qed

text \<open>The search returns, and the stack it uses fits into its array.\<close>

lemma best_stack_finds:
  assumes k: "shape t K" and h: "pt_head t = Some h"
  obtains st where "best_stack t p True h = Some st" "stack_ok t st"
    "\<And>m q d. entries t m = Some (q, d) \<Longrightarrow> pf_bitlen q \<le> pf_bitlen p \<Longrightarrow> \<forall>i < pf_bitlen q. addr_bit (pf_add q) i = addr_bit (pf_add p) i \<Longrightarrow>
       m \<in> set st"
proof -
  obtain x where x: "pt_nodes t h = Some x" using shape_head [OF k h] by blast
  have "stack_ok t []" by (simp add: stack_ok_def)
  from best_loop_stack [OF k x this, of "pf_add p" "pf_bitlen p"] obtain st r where
    st: "best_loop t (pf_add p) (pf_bitlen p) [] h = Some (st, r)" "stack_ok t st"
    "\<And>n. r = Some n \<Longrightarrow> \<exists>y. pt_nodes t n = Some y \<and> (\<forall>m \<in> set st. pn_bit (nd t m) < pn_bit y)"
    "\<And>m. m \<in> dom (entries t) \<Longrightarrow> desc t h m \<and> length (K m) \<le> pf_bitlen p \<and> (\<forall>i < length (K m). K m ! i = addr_bit (pf_add p) i) \<Longrightarrow>
       m \<in> set st \<or> r = Some m"
    by auto
  have on_way: "m \<in> set st \<or> r = Some m"
    if e: "entries t m = Some (q, d)" "pf_bitlen q \<le> pf_bitlen p" "\<forall>i < pf_bitlen q. addr_bit (pf_add q) i = addr_bit (pf_add p) i" for m q d
  proof -
    obtain y where "pt_nodes t m = Some y" using e(1) by (auto simp: entries_Some)
    then show ?thesis using st(4) [of m] desc_head [OF k h] entries_key [OF k e(1)] e by (auto simp: domI)
  qed
  show thesis
  proof (cases "\<exists>n. r = Some n \<and> n \<in> dom (entries t)")
    case True
    then obtain n where n: "r = Some n" "n \<in> dom (entries t)" by blast
    then have "pn_prefix (nd t n) \<noteq> None" by (auto simp: entries_Some)
    then have "best_stack t p True h = Some (n # st)" using st(1) n by (simp add: best_stack_def)
    moreover have "stack_ok t (n # st)" using st(2) st(3) [OF n(1)] n(2) by (auto simp: stack_ok_def)
    ultimately show thesis using that on_way n(1) by fastforce
  next
    case False
    then have "best_stack t p True h = Some st"
      using st(1,3) by (cases r) (fastforce simp: best_stack_def entries_def dom_def split: option.splits)+
    moreover have "m \<in> set st"
      if e: "entries t m = Some (q, d)" "pf_bitlen q \<le> pf_bitlen p" "\<forall>i < pf_bitlen q. addr_bit (pf_add q) i = addr_bit (pf_add p) i" for m q d
      using on_way [OF e] False e(1) by (auto simp: domI)
    ultimately show thesis using that st(2) by blast
  qed
qed

lemma search_best_finds:
  assumes ok: "pt_ok t" and p: "prefix_ok (pt_maxbits t) p"
  obtains r where "rb_patricia_search_best t p = Some r"
    "\<And>n. r = Some n \<Longrightarrow> \<exists>q d. entries t n = Some (q, d) \<and> (\<forall>i < pf_bitlen q. addr_bit (pf_add q) i = addr_bit (pf_add p) i)"
    "\<And>m q d. entries t m = Some (q, d) \<Longrightarrow> pf_bitlen q \<le> pf_bitlen p \<Longrightarrow> \<forall>i < pf_bitlen q. addr_bit (pf_add q) i = addr_bit (pf_add p) i \<Longrightarrow>
       \<exists>n. r = Some n \<and> pf_bitlen q \<le> pn_bit (nd t n)"
proof -
  obtain K where k: "shape t K" using ok by (auto simp: pt_ok_def)
  have m: "pt_maxbits t \<le> 128" using ok by (simp add: pt_ok_def RB_PATRICIA_MAXBITS_def)
  have c: "net_covers t p n \<longleftrightarrow> (\<forall>i < pf_bitlen q. addr_bit (pf_add q) i = addr_bit (pf_add p) i)" if e: "entries t n = Some (q, d)" for n q d
  proof -
    have "pn_prefix (nd t n) = Some q" using e by (auto simp: entries_Some)
    then show ?thesis
      using covers_bits [of p q "pf_bitlen q"] entries_key [OF k e] p m by (auto simp: net_covers_def prefix_ok_def)
  qed
  show thesis
  proof (cases "pt_head t")
    case None
    then show thesis
      using that [of None] shape_head_None [OF k] by (simp add: rb_patricia_search_best_def rb_patricia_search_best2_def entries_def)
  next
    case (Some h)
    obtain st where st: "best_stack t p True h = Some st" "stack_ok t st"
      "\<And>m q d. entries t m = Some (q, d) \<Longrightarrow> pf_bitlen q \<le> pf_bitlen p \<Longrightarrow> \<forall>i < pf_bitlen q. addr_bit (pf_add q) i = addr_bit (pf_add p) i \<Longrightarrow>
         m \<in> set st"
      using best_stack_finds [OF k Some, of p] by blast
    have e: "rb_patricia_search_best t p = Some (find (net_covers t p) st)"
      using Some st(1) by (simp add: rb_patricia_search_best_def rb_patricia_search_best2_def)
    show thesis
    proof (rule that [OF e])
      fix n assume f: "find (net_covers t p) st = Some n"
      then have "n \<in> set st" "net_covers t p n" by (auto simp: find_Some_iff)
      then show "\<exists>q d. entries t n = Some (q, d) \<and> (\<forall>i < pf_bitlen q. addr_bit (pf_add q) i = addr_bit (pf_add p) i)"
        using st(2) c by (fastforce simp: stack_ok_def)
    next
      fix m q d assume a: "entries t m = Some (q, d)" "pf_bitlen q \<le> pf_bitlen p" "\<forall>i < pf_bitlen q. addr_bit (pf_add q) i = addr_bit (pf_add p) i"
      have m: "m \<in> set st" "net_covers t p m" using st(3) [OF a] c [OF a(1)] a(3) by blast+
      then obtain n where n: "find (net_covers t p) st = Some n" by (cases "find (net_covers t p) st") (auto simp: find_None_iff)
      from find_longest [OF st(2) n m] entries_key [OF k a(1)] n
      show "\<exists>n. find (net_covers t p) st = Some n \<and> pf_bitlen q \<le> pn_bit (nd t n)" by auto
    qed
  qed
qed

end
