(* ===== verification/PatriciaInsert.thy ===== *)
theory PatriciaInsert
  imports PatriciaSearch
begin

unbundle bit_operations_syntax

text \<open>
  The two ways in which the tree grows, a node put between a node and its parent and a leaf put under
  a node, keep the shape.
\<close>

section \<open>Growing\<close>

definition put_node :: "nid \<Rightarrow> 'd pnode \<Rightarrow> 'd ptree \<Rightarrow> 'd ptree" where
  "put_node m y t = t\<lparr>pt_nodes := (pt_nodes t)(m \<mapsto> y)\<rparr>"

definition add_leaf :: "nid \<Rightarrow> 'd pnode \<Rightarrow> nid \<Rightarrow> bool \<Rightarrow> 'd ptree \<Rightarrow> 'd ptree" where
  "add_leaf m y n s t = upd_node n (set_child s (Some m)) (put_node m y t)"

definition splice_in :: "nid \<Rightarrow> 'd pnode \<Rightarrow> nid \<Rightarrow> 'd ptree \<Rightarrow> 'd ptree" where
  "splice_in m y n t = upd_node n (\<lambda>x. x\<lparr>pn_parent := Some m\<rparr>) (relink (pn_parent (nd t n)) n (Some m) (put_node m y t))"

text \<open>What a new node has to satisfy by itself.\<close>

definition fits :: "'d ptree \<Rightarrow> bool list \<Rightarrow> 'd pnode \<Rightarrow> bool" where
  "fits t km y =
     (pn_bit y = length km \<and> length km \<le> pt_maxbits t \<and> pn_data y = None \<and>
      (\<forall>p. pn_prefix y = Some p \<longrightarrow> prefix_ok (pt_maxbits t) p \<and> km = net_bits p))"

lemma shape_same: "pt_nodes t' = pt_nodes t \<Longrightarrow> pt_head t' = pt_head t \<Longrightarrow> pt_maxbits t' = pt_maxbits t \<Longrightarrow> shape t' K = shape t K"
  by (simp add: shape_def node_ok_def)

lemma add_leaf_shape:
  assumes k: "shape t K" and n: "pt_nodes t n = Some x" and m: "pt_nodes t m = None" and c: "child s x = None"
    and y: "fits t km y" "pn_parent y = Some n" "\<And>s. child s y = None" and km: "km = K n @ s # rest"
  shows "shape (add_leaf m y n s t) (K(m := km))"
proof -
  let ?t = "add_leaf m y n s t"
  have nm: "n \<noteq> m" using n m by auto
  have N: "pt_nodes ?t = (pt_nodes t)(m \<mapsto> y, n \<mapsto> set_child s (Some m) x)"
    and H: "pt_head ?t = pt_head t" "pt_maxbits ?t = pt_maxbits t"
    using n nm by (auto simp: add_leaf_def upd_node_def put_node_def)
  have ok: "node_ok t K i z" if "pt_nodes t i = Some z" for i z using k that by (simp add: shape_def)
  have "node_ok ?t (K(m := km)) i z" if i: "pt_nodes ?t i = Some z" for i z
  proof -
    consider "i = m" "z = y" | "i = n" "z = set_child s (Some m) x" | "i \<noteq> m" "i \<noteq> n" "pt_nodes t i = Some z"
      using i nm unfolding N by (auto split: if_splits)
    then show ?thesis
    proof cases
      case 1
      then show ?thesis using y nm by (auto simp: node_ok_def N H fits_def)
    next
      case 2
      have "\<exists>y' r. pt_nodes ?t c = Some y' \<and> pn_parent y' = Some n \<and> (K(m := km)) c = (K(m := km)) n @ s' # r" if "child s' z = Some c" for s' c
      proof (cases "s' = s")
        case True
        then show ?thesis using that 2 y(2) km nm unfolding N by simp
      next
        case False
        then have "child s' x = Some c" using that 2 by simp
        from shape_child [OF k n this] obtain w r where "pt_nodes t c = Some w" "pn_parent w = Some n" "K c = K n @ s' # r" by blast
        then show ?thesis using m n nm by (auto simp: N)
      qed
      moreover have "\<exists>w s'. pt_nodes ?t q = Some w \<and> child s' w = Some n" if q: "pn_parent x = Some q" for q
      proof -
        from shape_parent [OF k n q] obtain w s' r where w: "pt_nodes t q = Some w" "child s' w = Some n" "K n = K q @ s' # r" by blast
        then show ?thesis using m by (auto simp: N)
      qed
      ultimately show ?thesis using 2 ok [OF n] nm by (simp add: node_ok_def H)
    next
      case 3
      have "\<exists>y' r. pt_nodes ?t c = Some y' \<and> pn_parent y' = Some i \<and> (K(m := km)) c = (K(m := km)) i @ s' # r" if "child s' z = Some c" for s' c
      proof -
        from shape_child [OF k 3(3) that] obtain w r where "pt_nodes t c = Some w" "pn_parent w = Some i" "K c = K i @ s' # r" by blast
        then show ?thesis using m 3 n by (auto simp: N)
      qed
      moreover have "\<exists>w s'. pt_nodes ?t q = Some w \<and> child s' w = Some i" if q: "pn_parent z = Some q" for q
      proof -
        from shape_parent [OF k 3(3) q] obtain w s' where w: "pt_nodes t q = Some w" "child s' w = Some i" by blast
        have "s' \<noteq> s" if "q = n"
        proof
          assume e: "s' = s"
          show False using w c n that unfolding e by simp
        qed
        moreover have "q \<noteq> m" using w m by auto
        ultimately show ?thesis using w n unfolding N by (cases "q = n") (auto intro!: exI [of _ s'])
      qed
      ultimately show ?thesis using ok [OF 3(3)] 3 by (simp add: node_ok_def H)
    qed
  qed
  moreover have "pt_head ?t \<noteq> None" using shape_head_None [OF k] n by (auto simp: H)
  moreover have "\<exists>x. pt_nodes ?t h = Some x \<and> pn_parent x = None" if "pt_head t = Some h" for h
  proof -
    obtain x' where "pt_nodes t h = Some x'" "pn_parent x' = None" using shape_head [OF k \<open>pt_head t = Some h\<close>] by blast
    then show ?thesis using m n by (auto simp: N)
  qed
  ultimately show ?thesis unfolding shape_def H by auto
qed

lemma append_longer: "km @ b = a @ s # r \<Longrightarrow> length a < length km \<Longrightarrow> \<exists>r'. km = a @ s # r'"
  by (auto simp: append_eq_append_conv2 append_eq_Cons_conv)

text \<open>Every link to a node is redirected.\<close>

definition redirect :: "nid \<Rightarrow> nid option \<Rightarrow> 'd pnode \<Rightarrow> 'd pnode" where
  "redirect n c w =
     w\<lparr>pn_l := (if pn_l w = Some n then c else pn_l w), pn_r := (if pn_r w = Some n then c else pn_r w)\<rparr>"

lemma redirect_sel [simp]:
  "pn_bit (redirect n c w) = pn_bit w" "pn_prefix (redirect n c w) = pn_prefix w" "pn_data (redirect n c w) = pn_data w"
  "pn_parent (redirect n c w) = pn_parent w" "child s (redirect n c w) = (if child s w = Some n then c else child s w)"
  by (simp_all add: redirect_def child_def)

lemma redirect_none: "(\<And>s. child s w \<noteq> Some n) \<Longrightarrow> redirect n c w = w"
  using spec [of "\<lambda>s. child s w \<noteq> Some n" True] spec [of "\<lambda>s. child s w \<noteq> Some n" False] by (simp add: redirect_def child_def)

lemma linked_from_parent:
  assumes k: "shape t K" and n: "pt_nodes t n = Some x" and i: "pt_nodes t i = Some w" "child s w = Some n"
  shows "pn_parent x = Some i \<and> (\<exists>r. K n = K i @ s # r)"
  using shape_child [OF k i] n by (metis option.sel)

lemma relink_nodes:
  assumes k: "shape t K" and n: "pt_nodes t n = Some x" and i: "i \<noteq> n"
    and t1: "pt_nodes t1 i = pt_nodes t i" "\<And>q. pn_parent x = Some q \<Longrightarrow> pt_nodes t1 q = pt_nodes t q"
  shows "pt_nodes (relink (pn_parent x) n c t1) i = map_option (redirect n c) (pt_nodes t i)"
proof (cases "pn_parent x = Some i")
  case True
  obtain z s where z: "pt_nodes t i = Some z" "child s z = Some n" using shape_parent [OF k n True] by blast
  have "redirect n c z = set_child s c z"
  proof -
    have "child (\<not> s) z \<noteq> Some n"
      using linked_from_parent [OF k n z] linked_from_parent [OF k n z(1), of "\<not> s"] by auto
    then show ?thesis using z(2) by (cases s) (auto simp: redirect_def set_child_def child_def)
  qed
  then show ?thesis using True z t1 right_child_side [OF k z] by (simp add: relink_def upd_node_def nd_def)
next
  case False
  have "map_option (redirect n c) (pt_nodes t i) = pt_nodes t i"
  proof (cases "pt_nodes t i")
    case (Some w)
    then have "child s w \<noteq> Some n" for s using linked_from_parent [OF k n Some] False by blast
    then show ?thesis using Some by (simp add: redirect_none)
  qed simp
  then show ?thesis using False t1 by (auto simp: relink_def upd_node_def split: option.split)
qed

lemma relink_sel [simp]:
  "pt_head (relink q n c t) = (if q = None then c else pt_head t)" "pt_maxbits (relink q n c t) = pt_maxbits t"
  "pt_next (relink q n c t) = pt_next t" "pt_num_active_node (relink q n c t) = pt_num_active_node t"
  by (simp_all add: relink_def upd_node_def split: option.split)

lemma parent_None_head:
  assumes "shape t K" "pt_nodes t n = Some x"
  shows "pn_parent x = None \<longleftrightarrow> pt_head t = Some n"
  using shapeD(5) [OF assms] shape_head [OF assms(1), of n] assms(2) by auto

lemma splice_view:
  assumes k: "shape t K" and n: "pt_nodes t n = Some x" and m: "pt_nodes t m = None"
  shows "pt_nodes (splice_in m y n t) m = Some y" "pt_nodes (splice_in m y n t) n = Some (x\<lparr>pn_parent := Some m\<rparr>)"
    "i \<noteq> n \<Longrightarrow> i \<noteq> m \<Longrightarrow> pt_nodes (splice_in m y n t) i = map_option (redirect n (Some m)) (pt_nodes t i)"
    "pt_head (splice_in m y n t) = (if pt_head t = Some n then Some m else pt_head t)" "pt_maxbits (splice_in m y n t) = pt_maxbits t"
proof -
  have nm: "n \<noteq> m" using n m by auto
  have q: "q \<noteq> m" "q \<noteq> n" if p: "pn_parent x = Some q" for q
  proof -
    obtain z s r where "pt_nodes t q = Some z" "K n = K q @ s # r" using shape_parent [OF k n p] by blast
    then show "q \<noteq> m" "q \<noteq> n" using m by auto
  qed
  let ?t1 = "put_node m y t"
  have e: "splice_in m y n t = upd_node n (\<lambda>x. x\<lparr>pn_parent := Some m\<rparr>) (relink (pn_parent x) n (Some m) ?t1)"
    using n by (simp add: splice_in_def)
  show "pt_nodes (splice_in m y n t) m = Some y" "pt_nodes (splice_in m y n t) n = Some (x\<lparr>pn_parent := Some m\<rparr>)"
    using nm q n by (auto simp: e relink_def upd_node_def put_node_def split: option.split)
  show "pt_nodes (splice_in m y n t) i = map_option (redirect n (Some m)) (pt_nodes t i)" if "i \<noteq> n" "i \<noteq> m"
    using relink_nodes [OF k n that(1), of ?t1 "Some m"] that q by (simp add: e upd_node_def put_node_def)
  show "pt_head (splice_in m y n t) = (if pt_head t = Some n then Some m else pt_head t)" "pt_maxbits (splice_in m y n t) = pt_maxbits t"
    using parent_None_head [OF k n] by (simp_all add: e upd_node_def put_node_def)
qed

lemma splice_shape:
  assumes k: "shape t K" and n: "pt_nodes t n = Some x" and m: "pt_nodes t m = None"
    and y: "fits t km y" "pn_parent y = pn_parent x" "child s y = Some n" "child (\<not> s) y = None"
    and km: "K n = km @ s # rest" "\<And>q. pn_parent x = Some q \<Longrightarrow> length (K q) < length km"
  shows "shape (splice_in m y n t) (K(m := km))"
proof -
  let ?t = "splice_in m y n t" and ?K = "K(m := km)"
  note v = splice_view [OF k n m, where y = y]
  have nm: "n \<noteq> m" using n m by auto
  have ok: "node_ok t K i w" if "pt_nodes t i = Some w" for i w using k that by (simp add: shape_def)
  have old: "i \<noteq> m" "i \<noteq> n \<Longrightarrow> pt_nodes ?t i = Some (redirect n (Some m) w)" if "pt_nodes t i = Some w" for i w
    using that m v(3) [of i] by (cases "i = m", auto)+
  have "node_ok ?t ?K m y"
  proof -
    have "\<exists>w s'. pt_nodes ?t q = Some w \<and> child s' w = Some m" if pq: "pn_parent x = Some q" for q
    proof -
      obtain z sq r where z: "pt_nodes t q = Some z" "child sq z = Some n" "K n = K q @ sq # r" using shape_parent [OF k n pq] by blast
      then have "q \<noteq> n" by auto
      then show ?thesis using old(2) [OF z(1)] z(2) by (auto intro!: exI [of _ sq])
    qed
    moreover have "c = n \<and> s' = s" if "child s' y = Some c" for s' c using y(3,4) that by (cases "s' = s") auto
    ultimately show ?thesis using y(1,2) km(1) nm v(2,4,5) parent_None_head [OF k n] by (auto simp: node_ok_def fits_def)
  qed
  moreover have "node_ok ?t ?K n (x\<lparr>pn_parent := Some m\<rparr>)"
  proof -
    have "\<exists>w r. pt_nodes ?t c = Some w \<and> pn_parent w = Some n \<and> ?K c = ?K n @ s' # r" if cc: "child s' x = Some c" for s' c
    proof -
      obtain w r where w: "pt_nodes t c = Some w" "pn_parent w = Some n" "K c = K n @ s' # r" using shape_child [OF k n cc] by blast
      then have "c \<noteq> n" by auto
      then show ?thesis using old [OF w(1)] w nm by auto
    qed
    then show ?thesis using ok [OF n] y(3) v(1,5) nm by (auto simp: node_ok_def)
  qed
  moreover have "node_ok ?t ?K i (redirect n (Some m) w)" if i: "pt_nodes t i = Some w" "i \<noteq> n" for i w
  proof -
    have "\<exists>w' r. pt_nodes ?t c = Some w' \<and> pn_parent w' = Some i \<and> ?K c = ?K i @ s' # r"
      if c: "child s' (redirect n (Some m) w) = Some c" for s' c
    proof (cases "child s' w = Some n")
      case True
      obtain r where r: "pn_parent x = Some i" "K n = K i @ s' # r" using linked_from_parent [OF k n i(1) True] by blast
      then obtain r' where "km = K i @ s' # r'" using append_longer km by metis
      then show ?thesis using c True v(1) y(2) r(1) old(1) [OF i(1)] by auto
    next
      case False
      then have c': "child s' w = Some c" "c \<noteq> n" using c by auto
      obtain w' r where w': "pt_nodes t c = Some w'" "pn_parent w' = Some i" "K c = K i @ s' # r" using shape_child [OF k i(1) c'(1)] by blast
      then show ?thesis using old [OF w'(1)] old(1) [OF i(1)] c' by auto
    qed
    moreover have "\<exists>w' s'. pt_nodes ?t q = Some w' \<and> child s' w' = Some i" if pq: "pn_parent w = Some q" for q
    proof -
      obtain z sq where z: "pt_nodes t q = Some z" "child sq z = Some i" using shape_parent [OF k i(1) pq] by blast
      then show ?thesis using old(2) [OF z(1)] v(2) n i(2) by (cases "q = n") (auto intro!: exI [of _ sq])
    qed
    ultimately show ?thesis using ok [OF i(1)] old(1) [OF i(1)] v(4,5) i(2) by (auto simp: node_ok_def)
  qed
  ultimately have nodes: "node_ok ?t ?K i w" if "pt_nodes ?t i = Some w" for i w
    using that v(1,2) v(3) [of i] by (cases "i = m"; cases "i = n"; cases "pt_nodes t i") auto
  have "\<exists>w. pt_nodes ?t h = Some w \<and> pn_parent w = None" if h: "pt_head ?t = Some h" for h
  proof (cases "pt_head t = Some n")
    case True
    then show ?thesis using h v(1,4) y(2) parent_None_head [OF k n] by simp
  next
    case False
    then have h': "pt_head t = Some h" "h \<noteq> n" using h v(4) by auto
    obtain w where w: "pt_nodes t h = Some w" "pn_parent w = None" using shape_head [OF k h'(1)] by blast
    then show ?thesis using old(2) [OF w(1) h'(2)] by simp
  qed
  moreover have "pt_head ?t \<noteq> None" using shape_head_None [OF k] n v(4) by auto
  ultimately show ?thesis using nodes by (auto simp: shape_def)
qed

end
