(* ===== verification/PatriciaLookup.thy ===== *)
theory PatriciaLookup
  imports PatriciaInsert
begin

unbundle bit_operations_syntax

text \<open>\<open>rb_patricia_lookup\<close>: a network is found or put in its place.\<close>

section \<open>Finding the place\<close>

lemma descend_finds:
  assumes k: "shape t K" and f: "full t" and len: "len \<le> pt_maxbits t"
  shows "pt_nodes t a = Some x \<Longrightarrow>
    \<exists>e y q. descend t addr len a = Some e \<and> desc t a e \<and> pt_nodes t e = Some y \<and> pn_prefix y = Some q \<and>
      (len \<le> pn_bit y \<or> child (addr_bit addr (pn_bit y)) y = None) \<and>
      (\<forall>b z. desc t a b \<longrightarrow> desc t b e \<longrightarrow> b \<noteq> e \<longrightarrow> pt_nodes t b = Some z \<longrightarrow> K e ! pn_bit z = addr_bit addr (pn_bit z))"
proof (induction "pt_maxbits t - pn_bit x" arbitrary: a x rule: less_induct)
  case less
  note a = less.prems
  let ?s = "pn_bit x < pt_maxbits t \<and> addr_bit addr (pn_bit x)"
  show ?case
  proof (cases "(pn_bit x < len \<or> pn_prefix x = None) \<and> child ?s x \<noteq> None")
    case False
    have "pn_prefix x \<noteq> None" using False f a unfolding full_def by blast
    moreover have "len \<le> pn_bit x \<or> child (addr_bit addr (pn_bit x)) x = None"
    proof (cases "pn_bit x < len")
      case True
      then have "?s = addr_bit addr (pn_bit x)" using len by simp
      then show ?thesis using False True by simp
    qed simp
    moreover have "descend t addr len a = Some a" using False a by (auto simp: descend.simps [of t addr len a])
    moreover have "b = a" if "desc t a b" "desc t b a" for b
      using desc_key [OF that(1) k] desc_key [OF that(2) k] that keys_unique [OF k] desc_dom [OF that(1)] by fastforce
    ultimately show ?thesis using a desc.self [OF a] by (intro exI [of _ a]) auto
  next
    case True
    then obtain c where c: "child ?s x = Some c" by auto
    obtain y r where y: "pt_nodes t c = Some y" "K c = K a @ ?s # r" using shape_child [OF k a c] by blast
    have b: "pn_bit x < pn_bit y" "pn_bit y \<le> pt_maxbits t" using shapeD(1) [OF k a] shapeD(1,2) [OF k y(1)] y(2) by simp_all
    then have s: "?s = addr_bit addr (pn_bit x)" by simp
    have "pt_maxbits t - pn_bit y < pt_maxbits t - pn_bit x" using b by simp
    from less.hyps [OF this y(1)] obtain e y' q where
      e: "descend t addr len c = Some e" "desc t c e" "pt_nodes t e = Some y'" "pn_prefix y' = Some q"
      "len \<le> pn_bit y' \<or> child (addr_bit addr (pn_bit y')) y' = None"
      "\<And>b z. desc t c b \<Longrightarrow> desc t b e \<Longrightarrow> b \<noteq> e \<Longrightarrow> pt_nodes t b = Some z \<Longrightarrow> K e ! pn_bit z = addr_bit addr (pn_bit z)"
      by blast
    have d: "descend t addr len a = Some e" using True a c e(1) by (simp add: descend.simps [of t addr len a])
    obtain r' where r': "K e = K c @ r'" using desc_key [OF e(2) k] by blast
    have "K e ! pn_bit z = addr_bit addr (pn_bit z)" if bz: "desc t a b" "desc t b e" "b \<noteq> e" "pt_nodes t b = Some z" for b z
      using bz(1) k a
    proof (cases rule: desc_cases)
      case 1
      then have "z = x" using bz(4) a by simp
      then show ?thesis using r' y(2) shapeD(1) [OF k a] s by (simp add: nth_append)
    next
      case (2 c')
      obtain u where "K e = K b @ u" using desc_key [OF bz(2) k] by blast
      then have "K b ! pn_bit x = K e ! pn_bit x" using 2(3) by (simp add: nth_append)
      also have "\<dots> = ?s" using r' y(2) shapeD(1) [OF k a] by (simp add: nth_append)
      finally have "c' = c" using 2(1) c by simp
      then show ?thesis using e(6) 2(2) bz by blast
    qed
    then show ?thesis using d e(3-5) desc.down [OF a c e(2)] by blast
  qed
qed

lemma climb_finds:
  assumes k: "shape t K"
  shows "pt_nodes t e = Some y \<Longrightarrow> d \<le> pn_bit y \<Longrightarrow>
    \<exists>n x. climb t d e = Some n \<and> desc t n e \<and> pt_nodes t n = Some x \<and> d \<le> pn_bit x \<and>
      (\<forall>q. pn_parent x = Some q \<longrightarrow> length (K q) < d)"
proof (induction "pn_bit y" arbitrary: e y rule: less_induct)
  case less
  note e = less.prems(1)
  show ?case
  proof (cases "pn_parent y")
    case None
    then show ?thesis using e less.prems(2) desc.self [OF e] by (simp add: climb.simps [of t d e])
  next
    case (Some q)
    obtain z s r where z: "pt_nodes t q = Some z" "child s z = Some e" "K e = K q @ s # r" using shape_parent [OF k e Some] by blast
    show ?thesis
    proof (cases "d \<le> pn_bit z")
      case True
      have "pn_bit z < pn_bit y" using z(3) shapeD(1) [OF k z(1)] shapeD(1) [OF k e] by simp
      from less.hyps [OF this z(1) True] show ?thesis
        using Some e z True desc_trans [OF _ desc.down [OF z(1,2) desc.self [OF e]]] by (auto simp: climb.simps [of t d e])
    next
      case False
      then show ?thesis using Some e z less.prems(2) desc.self [OF e] shapeD(1) [OF k z(1)] by (simp add: climb.simps [of t d e])
    qed
  qed
qed

section \<open>Books and contents\<close>

lemma entries_at:
  "map_option (\<lambda>x. (pn_prefix x, pn_data x)) (pt_nodes t' i) = map_option (\<lambda>x. (pn_prefix x, pn_data x)) (pt_nodes t i) \<Longrightarrow>
   entries t' i = entries t i"
  by (cases "pt_nodes t' i"; cases "pt_nodes t i") (auto simp: entries_def split: option.splits)

lemma upd_shape:
  assumes k: "shape t K" and n: "pt_nodes t n = Some x" and f: "pn_bit (f x) = pn_bit x" "pn_parent (f x) = pn_parent x" "\<And>s. child s (f x) = child s x"
    "\<And>p. pn_prefix (f x) = Some p \<Longrightarrow> prefix_ok (pt_maxbits t) p \<and> K n = net_bits p" "pn_prefix (f x) = None \<Longrightarrow> pn_data (f x) = None"
  shows "shape (upd_node n f t) K"
proof -
  let ?t = "upd_node n f t"
  have N: "pt_nodes ?t = (pt_nodes t)(n \<mapsto> f x)" "pt_head ?t = pt_head t" "pt_maxbits ?t = pt_maxbits t" using n by (simp_all add: upd_node_def)
  have same: "\<exists>z. pt_nodes ?t i = Some z \<and> pn_parent z = pn_parent w \<and> (\<forall>s. child s z = child s w)" if "pt_nodes t i = Some w" for i w
    using that n f by (auto simp: N)
  have "node_ok ?t K i z" if i: "pt_nodes ?t i = Some z" for i z
  proof -
    obtain w where w: "pt_nodes t i = Some w" "pn_bit z = pn_bit w" "pn_parent z = pn_parent w" "\<And>s. child s z = child s w"
      "\<And>p. pn_prefix z = Some p \<Longrightarrow> prefix_ok (pt_maxbits t) p \<and> K i = net_bits p" "pn_prefix z = None \<Longrightarrow> pn_data z = None"
    proof (cases "i = n")
      case True
      then show thesis using that [of x] i n f by (simp add: N)
    next
      case False
      then have "pt_nodes t i = Some z" using i by (simp add: N)
      then show thesis using that [of z] shapeD [OF k] by blast
    qed
    have "\<exists>y rest. pt_nodes ?t c = Some y \<and> pn_parent y = Some i \<and> K c = K i @ s # rest" if c: "child s z = Some c" for s c
    proof -
      obtain y r where "pt_nodes t c = Some y" "pn_parent y = Some i" "K c = K i @ s # r" using shape_child [OF k w(1)] c w(4) by metis
      then show ?thesis using same by fastforce
    qed
    moreover have "\<exists>y s. pt_nodes ?t q = Some y \<and> child s y = Some i" if q: "pn_parent z = Some q" for q
    proof -
      obtain y s where "pt_nodes t q = Some y" "child s y = Some i" using shape_parent [OF k w(1)] q w(3) by metis
      then show ?thesis using same by fastforce
    qed
    ultimately show ?thesis using w shapeD(1,2,5) [OF k w(1)] N(2,3) by (simp add: node_ok_def)
  qed
  moreover have "\<exists>z. pt_nodes ?t h = Some z \<and> pn_parent z = None" if h: "pt_head t = Some h" for h
  proof -
    obtain w where "pt_nodes t h = Some w" "pn_parent w = None" using shape_head [OF k h] by blast
    then show ?thesis using same by fastforce
  qed
  moreover have "pt_head t \<noteq> None" using shape_head_None [OF k] n by auto
  ultimately show ?thesis using N(2) by (auto simp: shape_def)
qed

lemma books_fresh: "books t \<Longrightarrow> pt_nodes t (pt_next t) = None" "books t \<Longrightarrow> pt_nodes t (Suc (pt_next t)) = None"
  by (auto simp: books_def)

lemma books_new: "books t \<Longrightarrow> books (new_node y t)"
  using finite_subset [of "dom (pt_nodes t)" "{..<pt_next t}"] by (auto simp: books_def new_node_def card_insert_if)

lemma books_upd [simp]: "books (upd_node n f t) = books t"
proof -
  have "dom (pt_nodes (upd_node n f t)) = dom (pt_nodes t)" by (auto simp: upd_node_def split: if_splits)
  then show ?thesis by (simp add: books_def) (simp add: upd_node_def)
qed

lemma books_relink [simp]: "books (relink q n c t) = books t"
  by (simp add: relink_def split: option.split) (simp add: books_def)

section \<open>The four ways to insert\<close>

definition inserted :: "rb_prefix \<Rightarrow> nid \<Rightarrow> 'd ptree \<Rightarrow> 'd ptree \<Rightarrow> bool" where
  "inserted p n t t' =
     ((\<exists>K. shape t' K) \<and> books t' \<and> full t' \<and> pt_maxbits t' = pt_maxbits t \<and> entries t n = None \<and>
      entries t' = (entries t)(n \<mapsto> (p, None)))"

lemma entries_one:
  assumes "\<And>i. i \<noteq> n \<Longrightarrow> entries t' i = entries t i" "entries t' n = Some (p, None)"
  shows "entries t' = (entries t)(n \<mapsto> (p, None))"
  using assms by (auto simp: fun_eq_iff)

lemma leaf_sel [simp]:
  "pn_bit (leaf p) = pf_bitlen p" "pn_prefix (leaf p) = Some p" "pn_data (leaf p) = None" "child s (leaf p) = None" "pn_parent (leaf p) = None"
  by (simp_all add: leaf_def child_def)

lemma new_node_sel [simp]:
  "pt_nodes (new_node y t) = (pt_nodes t)(pt_next t \<mapsto> y)" "pt_head (new_node y t) = pt_head t" "pt_maxbits (new_node y t) = pt_maxbits t"
  "pt_next (new_node y t) = Suc (pt_next t)"
  by (simp_all add: new_node_def)

lemma upd_node_sel [simp]:
  "pt_head (upd_node n f t) = pt_head t" "pt_maxbits (upd_node n f t) = pt_maxbits t" "pt_next (upd_node n f t) = pt_next t"
  by (simp_all add: upd_node_def)

lemma upd_node_nodes: "pt_nodes (upd_node n f t) = (pt_nodes t)(n := map_option f (pt_nodes t n))"
  by (simp add: upd_node_def)

lemma leaf_fits: "prefix_ok (pt_maxbits t) p \<Longrightarrow> pn_prefix y = Some p \<Longrightarrow> pn_bit y = pf_bitlen p \<Longrightarrow> pn_data y = None \<Longrightarrow> fits t (net_bits p) y"
  by (auto simp: fits_def prefix_ok_def)

lemma insert_first:
  assumes "pt_nodes t = Map.empty" "books t" "prefix_ok (pt_maxbits t) p"
  shows "inserted p (pt_next t) t ((new_node (leaf p) t)\<lparr>pt_head := Some (pt_next t)\<rparr>)"
proof -
  let ?t = "(new_node (leaf p) t)\<lparr>pt_head := Some (pt_next t)\<rparr>"
  have "shape ?t (\<lambda>_. net_bits p)" using assms by (auto simp: shape_def node_ok_def prefix_ok_def)
  moreover have "books ?t" using books_new [OF assms(2)] by (simp add: books_def)
  moreover have "full ?t" using assms(1) by (simp add: full_def)
  moreover have "entries ?t = (entries t)(pt_next t \<mapsto> (p, None))" by (rule entries_one) (simp_all add: assms(1) entries_def)
  ultimately show ?thesis using assms(1) by (auto simp: inserted_def entries_def)
qed

text \<open>A glue node gets a prefix.\<close>

lemma insert_glue_mod:
  assumes k: "shape t K" and bk: "books t" and f: "full t" and p: "prefix_ok (pt_maxbits t) p"
    and n: "pt_nodes t n = Some x" "pn_prefix x = None" and key: "K n = net_bits p"
  shows "inserted p n t (upd_node n (\<lambda>x. x\<lparr>pn_prefix := Some p\<rparr>) t)"
proof -
  let ?t = "upd_node n (\<lambda>x. x\<lparr>pn_prefix := Some p\<rparr>) t"
  have "shape ?t K" by (rule upd_shape [OF k n(1)]) (use p key in auto)
  moreover have "full ?t" using f n by (auto simp: full_def upd_node_nodes split: if_splits)
  moreover have "entries ?t = (entries t)(n \<mapsto> (p, None))"
    using n shapeD(4) [OF k n(1)] by (intro entries_one) (auto simp: upd_node_nodes entries_def)
  ultimately show ?thesis using bk n by (auto simp: inserted_def entries_def)
qed

lemma insert_child:
  assumes k: "shape t K" and bk: "books t" and f: "full t" and p: "prefix_ok (pt_maxbits t) p"
    and n: "pt_nodes t n = Some x" "child s x = None" and key: "net_bits p = K n @ s # rest"
  shows "inserted p (pt_next t) t (upd_node n (set_child s (Some (pt_next t))) (new_node ((leaf p)\<lparr>pn_parent := Some n\<rparr>) t))"
proof -
  let ?m = "pt_next t" and ?y = "(leaf p)\<lparr>pn_parent := Some n\<rparr> :: 'a pnode"
  let ?t = "upd_node n (set_child s (Some ?m)) (new_node ?y t)"
  have m: "pt_nodes t ?m = None" by (rule books_fresh(1) [OF bk])
  have nm: "n \<noteq> ?m" using n(1) m by auto
  have "shape (add_leaf ?m ?y n s t) (K(?m := net_bits p))"
    by (rule add_leaf_shape [OF k n(1) m n(2) leaf_fits [OF p] _ _ key]) simp_all
  then have "shape ?t (K(?m := net_bits p))"
    by (subst shape_same [of _ "add_leaf ?m ?y n s t"]) (simp_all add: add_leaf_def put_node_def upd_node_nodes)
  moreover have "full ?t" using f n nm by (auto simp: full_def upd_node_nodes split: if_splits)
  moreover have "entries ?t = (entries t)(?m \<mapsto> (p, None))" using n(1) nm by (intro entries_one) (auto simp: upd_node_nodes entries_def split: option.split)
  ultimately show ?thesis using bk books_new m by (auto simp: inserted_def entries_def simp del: new_node_sel(1))
qed

text \<open>The new node, or a glue node, goes between a node and its parent.\<close>

lemma insert_parent:
  assumes k: "shape t K" and bk: "books t" and f: "full t" and p: "prefix_ok (pt_maxbits t) p"
    and n: "pt_nodes t n = Some x" and key: "K n = net_bits p @ s # rest"
    and up: "\<And>q. pn_parent x = Some q \<Longrightarrow> length (K q) < pf_bitlen p"
  shows "inserted p (pt_next t) t (upd_node n (\<lambda>x. x\<lparr>pn_parent := Some (pt_next t)\<rparr>) (relink (pn_parent x) n (Some (pt_next t))
    (new_node (set_child s (Some n) ((leaf p)\<lparr>pn_parent := pn_parent x\<rparr>)) t)))"
proof -
  let ?m = "pt_next t" and ?y = "set_child s (Some n) ((leaf p)\<lparr>pn_parent := pn_parent x\<rparr>) :: 'a pnode"
  let ?t = "upd_node n (\<lambda>x. x\<lparr>pn_parent := Some ?m\<rparr>) (relink (pn_parent x) n (Some ?m) (new_node ?y t))"
  have m: "pt_nodes t ?m = None" by (rule books_fresh(1) [OF bk])
  have same: "pt_nodes ?t = pt_nodes (splice_in ?m ?y n t)" "pt_head ?t = pt_head (splice_in ?m ?y n t)" "pt_maxbits ?t = pt_maxbits (splice_in ?m ?y n t)"
    using n by (auto simp: splice_in_def relink_def put_node_def nd_def upd_node_nodes split: option.split)
  note v = splice_view [OF k n m, where y = ?y, folded same(1)]
  have "shape (splice_in ?m ?y n t) (K(?m := net_bits p))"
    by (rule splice_shape [OF k n m leaf_fits [OF p] _ _ _ key]) (use up in simp_all)
  then have "shape ?t (K(?m := net_bits p))" using shape_same [OF same] by simp
  moreover have "full ?t"
  proof -
    have "child s' w \<noteq> None" if w: "pt_nodes ?t i = Some w" "pn_prefix w = None" for i w s'
    proof (cases "i = n \<or> i = ?m")
      case True
      then show ?thesis using w v(1,2) f n by (auto simp: full_def)
    next
      case False
      then obtain w0 where "pt_nodes t i = Some w0" "w = redirect n (Some ?m) w0" using w(1) v(3) [of i] by (cases "pt_nodes t i") auto
      then show ?thesis using w(2) f by (auto simp: full_def)
    qed
    then show ?thesis unfolding full_def by blast
  qed
  moreover have "entries ?t = (entries t)(?m \<mapsto> (p, None))"
  proof (rule entries_one)
    fix i assume "i \<noteq> ?m"
    then show "entries ?t i = entries t i"
      using v(2) v(3) [of i] n by (cases "i = n") (auto intro!: entries_at simp: option.map_comp comp_def)
  qed (use v(1) in \<open>simp add: entries_def\<close>)
  moreover have "books ?t" using books_new [OF bk] by simp
  ultimately show ?thesis using m same(3) v(5) by (auto simp: inserted_def entries_def)
qed

lemma insert_glue:
  fixes t :: "'d ptree" and K :: keys
  assumes k: "shape t K" and bk: "books t" and f: "full t" and p: "prefix_ok (pt_maxbits t) p"
    and n: "pt_nodes t n = Some x" and key: "K n = km @ (\<not> s) # rest" "net_bits p = km @ s # rest'"
    and up: "\<And>q. pn_parent x = Some q \<Longrightarrow> length (K q) < length km"
  defines "m \<equiv> pt_next t" and "g \<equiv> Suc (pt_next t)"
  defines "glue \<equiv> set_child s (Some m) (set_child (\<not> s) (Some n)
    \<lparr>pn_bit = length km, pn_prefix = None, pn_l = None, pn_r = None, pn_parent = pn_parent x, pn_data = None\<rparr>)"
  shows "inserted p m t (upd_node n (\<lambda>x. x\<lparr>pn_parent := Some g\<rparr>) (relink (pn_parent x) n (Some g)
    (new_node glue (new_node ((leaf p)\<lparr>pn_parent := Some g\<rparr>) t))))"
proof -
  let ?y = "(leaf p)\<lparr>pn_parent := Some g\<rparr> :: 'd pnode"
  let ?t = "upd_node n (\<lambda>x. x\<lparr>pn_parent := Some g\<rparr>) (relink (pn_parent x) n (Some g) (new_node glue (new_node ?y t)))"
  define g0 :: "'d pnode" where "g0 = set_child (\<not> s) (Some n)
    \<lparr>pn_bit = length km, pn_prefix = None, pn_l = None, pn_r = None, pn_parent = pn_parent x, pn_data = None\<rparr>"
  have fr: "pt_nodes t m = None" "pt_nodes t g = None" "m \<noteq> g" using books_fresh [OF bk] by (simp_all add: m_def g_def)
  have nm: "n \<noteq> m" "n \<noteq> g" using n fr by auto
  let ?base = "splice_in g g0 n t"
  note v = splice_view [OF k n fr(2), where y = g0]
  have c0: "child s g0 = None" "child (\<not> s) g0 = Some n" by (simp_all add: g0_def) (simp add: child_def)
  have le: "length km \<le> pt_maxbits t" using p key(2) by (auto simp: prefix_ok_def simp flip: net_bits_length)
  have s0: "shape ?base (K(g := km))"
    by (rule splice_shape [OF k n fr(2) _ _ c0(2) _ key(1) up]) (use le c0 in \<open>auto simp: fits_def g0_def\<close>)
  have m0: "pt_nodes ?base m = None" using v(3) [of m] nm fr by simp
  have "shape (add_leaf m ?y g s ?base) ((K(g := km))(m := net_bits p))"
    by (rule add_leaf_shape [OF s0 v(1) m0 c0(1) leaf_fits]) (use p v(5) key(2) in simp_all)
  moreover have q: "q \<noteq> m" "q \<noteq> g" "q \<noteq> n" if pq: "pn_parent x = Some q" for q
  proof -
    obtain z s r where "pt_nodes t q = Some z" "K n = K q @ s # r" using shape_parent [OF k n pq] by blast
    then show "q \<noteq> m" "q \<noteq> g" "q \<noteq> n" using fr by auto
  qed
  have nodes: "pt_nodes ?t g = Some glue" "pt_nodes ?t m = Some ?y" "pt_nodes ?t n = Some (x\<lparr>pn_parent := Some g\<rparr>)"
    using nm fr q n by (auto simp: relink_def m_def g_def nd_def upd_node_nodes split: option.split)
  have rest: "pt_nodes ?t i = map_option (redirect n (Some g)) (pt_nodes t i)" if "i \<noteq> n" "i \<noteq> m" "i \<noteq> g" for i
    using relink_nodes [OF k n that(1), of "new_node glue (new_node ?y t)" "Some g"] that q by (simp add: m_def g_def upd_node_nodes)
  have "pt_nodes ?t i = pt_nodes (add_leaf m ?y g s ?base) i" for i
  proof (cases "i = n \<or> i = m \<or> i = g")
    case True
    then show ?thesis
      using nodes v(1,2) nm fr by (auto simp: add_leaf_def put_node_def glue_def g0_def upd_node_nodes [of g])
  next
    case False
    then show ?thesis using rest [of i] v(3) [of i] by (simp add: add_leaf_def put_node_def upd_node_nodes [of g])
  qed
  ultimately have "shape ?t ((K(g := km))(m := net_bits p))"
    using parent_None_head [OF k n] v(4,5) by (subst shape_same [of _ "add_leaf m ?y g s ?base"]) (auto simp: add_leaf_def put_node_def)
  moreover have "full ?t"
  proof -
    have "child s' w \<noteq> None" if w: "pt_nodes ?t i = Some w" "pn_prefix w = None" for i w s'
    proof (cases "i = n \<or> i = m \<or> i = g")
      case True
      then show ?thesis using w nodes f n by (auto simp: full_def glue_def)
    next
      case False
      then obtain w0 where "pt_nodes t i = Some w0" "w = redirect n (Some g) w0"
        using w(1) rest [of i] by (cases "pt_nodes t i") (auto)
      then show ?thesis using w(2) f by (auto simp: full_def)
    qed
    then show ?thesis unfolding full_def by blast
  qed
  moreover have "entries ?t = (entries t)(m \<mapsto> (p, None))"
  proof (rule entries_one)
    fix i assume "i \<noteq> m"
    then show "entries ?t i = entries t i"
    proof (cases "i = g")
      case True
      then show ?thesis using nodes(1) fr(2) by (simp add: entries_def glue_def)
    next
      case False
      then show ?thesis
        using nodes(3) rest [of i] n \<open>i \<noteq> m\<close> by (cases "i = n") (auto intro!: entries_at simp: option.map_comp comp_def)
    qed
  qed (use nodes(2) in \<open>simp add: entries_def\<close>)
  moreover have "books ?t" using books_new [OF books_new [OF bk]] by simp
  ultimately show ?thesis using fr by (auto simp: inserted_def entries_def)
qed

section \<open>The lookup\<close>

text \<open>The place: the first node from below whose key is not shorter than what the network has in common with it.\<close>

lemma insert_node_ok:
  assumes k: "shape t K" and bk: "books t" and f: "full t" and p: "prefix_ok (pt_maxbits t) p"
    and n: "pt_nodes t n = Some x" and d: "d \<le> pf_bitlen p" "d \<le> pn_bit x"
    and eq: "\<And>i. i < d \<Longrightarrow> K n ! i = addr_bit (pf_add p) i" and up: "\<And>q. pn_parent x = Some q \<Longrightarrow> length (K q) < d"
    and free: "pn_bit x = d \<Longrightarrow> d < pf_bitlen p \<Longrightarrow> child (addr_bit (pf_add p) d) x = None"
    and side: "d < pn_bit x \<Longrightarrow> K n ! d = addr_bit test_addr d"
    and split: "d < pn_bit x \<Longrightarrow> d < pf_bitlen p \<Longrightarrow> K n ! d \<noteq> addr_bit (pf_add p) d"
  obtains m t' where "insert_node t p test_addr d n = (m, t')" "(\<exists>q e. entries t m = Some (q, e) \<and> net_bits q = net_bits p) \<and> t' = t \<or> inserted p m t t'"
proof -
  have max: "pf_bitlen p \<le> pt_maxbits t" "pn_bit x \<le> pt_maxbits t" using p shapeD(2) [OF k n] by (simp_all add: prefix_ok_def)
  have len: "length (K n) = pn_bit x" by (rule shapeD(1) [OF k n])
  have common: "take d (K n) = take d (net_bits p)"
    using d len eq by (intro nth_equalityI) auto
  have kn: "K n = take d (net_bits p) @ drop d (K n)" using common by (metis append_take_drop_id)
  consider (same) "d = pf_bitlen p" "pn_bit x = pf_bitlen p" | (child) "pn_bit x = d" "d < pf_bitlen p"
    | (parent) "d < pn_bit x" "pf_bitlen p = d" | (glue) "d < pn_bit x" "d < pf_bitlen p" using d by linarith
  then show thesis
  proof cases
    case same
    have key: "K n = net_bits p" using common same len by simp
    show thesis
    proof (cases "pn_prefix x")
      case None
      have "insert_node t p test_addr d n = (n, upd_node n (\<lambda>x. x\<lparr>pn_prefix := Some p\<rparr>) t)"
        using same n None by (simp add: insert_node_def Let_def)
      then show thesis using that insert_glue_mod [OF k bk f p n None key] by blast
    next
      case (Some q)
      then have "insert_node t p test_addr d n = (n, t)" using same n by (simp add: insert_node_def Let_def)
      moreover have "entries t n = Some (q, pn_data x)" "net_bits q = net_bits p" using n Some shapeD(3) [OF k n Some] key by (auto simp: entries_Some)
      ultimately show thesis using that by blast
    qed
  next
    case child
    have key: "net_bits p = K n @ addr_bit (pf_add p) d # drop (Suc d) (net_bits p)"
      using id_take_nth_drop [of d "net_bits p"] child common len by simp
    show thesis
      using that insert_child [OF k bk f p n free [OF child] key] child n max by (simp add: insert_node_def Let_def)
  next
    case parent
    have key: "K n = net_bits p @ addr_bit test_addr d # drop (Suc d) (K n)"
      using id_take_nth_drop [of d "K n"] parent common len side [OF parent(1)] by simp
    show thesis
      using that insert_parent [OF k bk f p n key] up parent n max by (simp add: insert_node_def Let_def)
  next
    case glue
    let ?s = "addr_bit (pf_add p) d" and ?km = "take d (net_bits p)"
    have key: "K n = ?km @ (\<not> ?s) # drop (Suc d) (K n)" "net_bits p = ?km @ ?s # drop (Suc d) (net_bits p)"
    proof -
      have "K n ! d = (\<not> ?s)" using split [OF glue] by blast
      then show "K n = ?km @ (\<not> ?s) # drop (Suc d) (K n)" using id_take_nth_drop [of d "K n"] glue common len by simp
      show "net_bits p = ?km @ ?s # drop (Suc d) (net_bits p)" using id_take_nth_drop [of d "net_bits p"] glue by simp
    qed
    have l: "length ?km = d" using glue by simp
    show thesis
      using that insert_glue [OF k bk f p n key] up glue n max l by (simp add: insert_node_def Let_def)
  qed
qed

lemma lookup_ok:
  assumes ok: "pt_ok t" and p: "prefix_ok (pt_maxbits t) p"
  obtains m t' where "rb_patricia_lookup t p = Some (m, t')"
    "(\<exists>q e. entries t m = Some (q, e) \<and> net_bits q = net_bits p) \<and> t' = t \<or> inserted p m t t'"
proof -
  obtain K where k: "shape t K" and bk: "books t" and f: "full t" using ok by (auto simp: pt_ok_def)
  have len: "pf_bitlen p \<le> pt_maxbits t" using p by (simp add: prefix_ok_def)
  show thesis
  proof (cases "pt_head t")
    case None
    then show thesis
      using that [of "pt_next t"] insert_first [OF _ bk p] shape_head_None [OF k] by (simp add: rb_patricia_lookup_def)
  next
    case (Some h)
    obtain x0 where x0: "pt_nodes t h = Some x0" using shape_head [OF k Some] by blast
    from descend_finds [OF k f len x0, of "pf_add p"] obtain e y q where
      e: "descend t (pf_add p) (pf_bitlen p) h = Some e" "desc t h e" "pt_nodes t e = Some y" "pn_prefix y = Some q"
      "pf_bitlen p \<le> pn_bit y \<or> child (addr_bit (pf_add p) (pn_bit y)) y = None"
      "\<And>b z. desc t h b \<Longrightarrow> desc t b e \<Longrightarrow> b \<noteq> e \<Longrightarrow> pt_nodes t b = Some z \<Longrightarrow> K e ! pn_bit z = addr_bit (pf_add p) (pn_bit z)"
      by blast
    have q: "K e = net_bits q" "pf_bitlen q = pn_bit y" using shapeD(1,3) [OF k e(3)] e(4) by (metis net_bits_length)+
    define c where "c = (if pn_bit y < pf_bitlen p then pn_bit y else pf_bitlen p)"
    define d where "d = differ_bit (pf_add p) (pf_add q) c"
    have d: "d \<le> pf_bitlen p" "d \<le> pn_bit y" using differ_bit_spec(1) [of "pf_add p" "pf_add q" c] by (auto simp: d_def c_def split: if_splits)
    have eq: "K e ! i = addr_bit (pf_add p) i" if "i < d" for i
      using differ_bit_spec(2) [of i "pf_add p" "pf_add q" c] that d q by (simp add: d_def)
    have neq: "K e ! d \<noteq> addr_bit (pf_add p) d" if "d < pn_bit y" "d < pf_bitlen p"
      using differ_bit_spec(3) [of "pf_add p" "pf_add q" c] that q by (auto simp: d_def c_def split: if_splits)
    from climb_finds [OF k e(3) d(2)] obtain n x where
      n: "climb t d e = Some n" "desc t n e" "pt_nodes t n = Some x" "d \<le> pn_bit x" "\<And>q. pn_parent x = Some q \<Longrightarrow> length (K q) < d"
      by blast
    obtain r where r: "K e = K n @ r" using desc_key [OF n(2) k] by blast
    have ln: "length (K n) = pn_bit x" "length (K e) = pn_bit y" using shapeD(1) [OF k n(3)] shapeD(1) [OF k e(3)] by simp_all
    have nth: "K n ! i = K e ! i" if "i < pn_bit x" for i using that r ln by (simp add: nth_append)
    have le: "pn_bit x \<le> pn_bit y" using r ln by (metis length_append le_add1)
    have free: "child (addr_bit (pf_add p) d) x = None" if b: "pn_bit x = d" "d < pf_bitlen p"
    proof (cases "n = e")
      case True
      then show ?thesis using e(3,5) n(3) b by auto
    next
      case False
      have hn: "desc t h n" using desc_head [OF k Some n(3)] .
      have "d < pn_bit y" using desc_cases [OF n(2) k n(3)] False b ln by metis
      then show ?thesis using e(6) [OF hn n(2) False n(3)] neq b by simp
    qed
    obtain m t' where
      "insert_node t p (pf_add q) d n = (m, t')" "(\<exists>q e. entries t m = Some (q, e) \<and> net_bits q = net_bits p) \<and> t' = t \<or> inserted p m t t'"
    proof (rule insert_node_ok [OF k bk f p n(3) d(1) n(4) _ n(5) free])
      show "K n ! i = addr_bit (pf_add p) i" if "i < d" for i using that nth eq n(4) by simp
      show "K n ! d = addr_bit (pf_add q) d" if "d < pn_bit x" using that nth q le by simp
      show "K n ! d \<noteq> addr_bit (pf_add p) d" if "d < pn_bit x" "d < pf_bitlen p" using that nth neq le by simp
    qed
    moreover have "rb_patricia_lookup t p = Some (insert_node t p (pf_add q) d n)"
      using Some e(1,3,4) n(1) 
      by (simp add: rb_patricia_lookup_def Let_def d_def c_def cong: if_cong)
    ultimately show thesis using that by simp
  qed
qed

end
