(* ===== verification/PatriciaRemove.thy ===== *)
theory PatriciaRemove
  imports PatriciaLookup
begin

unbundle bit_operations_syntax

text \<open>\<open>rb_patricia_remove\<close>: taking out a node with at most one child keeps the shape.\<close>

lemma unlink_view:
  assumes k: "shape t K" and n: "pt_nodes t n = Some x" and c: "\<forall>j. c = Some j \<longrightarrow> (\<exists>s. child s x = Some j)"
  shows "pt_nodes (unlink_node n c t) n = None"
    "c = Some i \<Longrightarrow> pt_nodes (unlink_node n c t) i = map_option (\<lambda>w. w\<lparr>pn_parent := pn_parent x\<rparr>) (pt_nodes t i)"
    "i \<noteq> n \<Longrightarrow> c \<noteq> Some i \<Longrightarrow> pt_nodes (unlink_node n c t) i = map_option (redirect n c) (pt_nodes t i)"
    "pt_head (unlink_node n c t) = (if pt_head t = Some n then c else pt_head t)" "pt_maxbits (unlink_node n c t) = pt_maxbits t"
proof -
  have q: "q \<noteq> n \<and> c \<noteq> Some q" if pq: "pn_parent x = Some q" for q
  proof -
    obtain z s r where z: "pt_nodes t q = Some z" "K n = K q @ s # r" using shape_parent [OF k n pq] by blast
    moreover have "K j \<noteq> K q" if j: "c = Some j" for j
    proof -
      obtain s' r' where "K j = K n @ s' # r'" using c j shape_child [OF k n] by metis
      then show ?thesis using z(2) by simp
    qed
    ultimately show ?thesis by auto
  qed
  have cn: "j \<noteq> n" if j: "c = Some j" for j
  proof -
    obtain s' r' where "K j = K n @ s' # r'" using c j shape_child [OF k n] by metis
    then show ?thesis by auto
  qed
  define t1 where "t1 = free_node n (case c of None \<Rightarrow> t | Some j \<Rightarrow> upd_node j (\<lambda>w. w\<lparr>pn_parent := pn_parent x\<rparr>) t)"
  have e: "unlink_node n c t = relink (pn_parent x) n c t1" using n by (simp add: unlink_node_def Let_def t1_def)
  have t1: "pt_nodes t1 n = None" "c = Some i \<Longrightarrow> pt_nodes t1 i = map_option (\<lambda>w. w\<lparr>pn_parent := pn_parent x\<rparr>) (pt_nodes t i)"
    "i \<noteq> n \<Longrightarrow> c \<noteq> Some i \<Longrightarrow> pt_nodes t1 i = pt_nodes t i" "pt_head t1 = pt_head t" "pt_maxbits t1 = pt_maxbits t" for i
    using n cn by (auto simp: t1_def free_node_def upd_node_nodes split: option.split)
  have rl: "pn_parent x \<noteq> Some i \<Longrightarrow> pt_nodes (relink (pn_parent x) n c t1) i = pt_nodes t1 i" for i
    by (auto simp: relink_def upd_node_nodes split: option.split)
  show "pt_nodes (unlink_node n c t) n = None" unfolding e using rl [of n] q t1(1) by auto
  show "pt_nodes (unlink_node n c t) i = map_option (\<lambda>w. w\<lparr>pn_parent := pn_parent x\<rparr>) (pt_nodes t i)" if "c = Some i"
    unfolding e using rl [of i] q t1(2) [OF that] that by auto
  show "pt_nodes (unlink_node n c t) i = map_option (redirect n c) (pt_nodes t i)" if "i \<noteq> n" "c \<noteq> Some i"
    unfolding e using relink_nodes [OF k n that(1), of t1 c] t1(3) that q by blast
  show "pt_head (unlink_node n c t) = (if pt_head t = Some n then c else pt_head t)" "pt_maxbits (unlink_node n c t) = pt_maxbits t"
    unfolding e using parent_None_head [OF k n] t1(4,5) by simp_all
qed

lemma unlink_shape:
  assumes k: "shape t K" and n: "pt_nodes t n = Some x" and c: "child s x = c" "child (\<not> s) x = None"
  shows "shape (unlink_node n c t) K"
proof -
  let ?t = "unlink_node n c t"
  have "\<forall>j. c = Some j \<longrightarrow> (\<exists>s. child s x = Some j)" using c(1) by blast
  note v = unlink_view [OF k n this]
  have ok: "node_ok t K i w" if "pt_nodes t i = Some w" for i w using k that by (simp add: shape_def)
  have only: "c = Some i \<and> s' = s" if "child s' x = Some i" for s' i using c that by (cases "s' = s") auto
  have kid: "\<exists>y r. pt_nodes t j = Some y \<and> pn_parent y = Some n \<and> K j = K n @ s # r" if j: "c = Some j" for j
    using shape_child [OF k n, of s j] c(1) j by metis
  have kid_view: "pt_nodes ?t j = Some (y\<lparr>pn_parent := pn_parent x\<rparr>)" if "c = Some j" "pt_nodes t j = Some y" for j y
    using v(2) [OF that(1)] that(2) by simp
  have other: "pt_nodes ?t i = Some (redirect n c w)" if "i \<noteq> n" "c \<noteq> Some i" "pt_nodes t i = Some w" for i w
    using v(3) [OF that(1,2)] that(3) by simp
  have link: "\<exists>y r. pt_nodes ?t j = Some y \<and> pn_parent y = Some i \<and> K j = K i @ s' # r"
    if i: "pt_nodes t i = Some w" "i \<noteq> n" and j: "child s' (redirect n c w) = Some j" for i w s' j
  proof (cases "child s' w = Some n")
    case True
    then have cj: "c = Some j" using j by simp
    obtain y r where y: "pt_nodes t j = Some y" "K j = K n @ s # r" using kid [OF cj] by blast
    moreover obtain r' where "pn_parent x = Some i" "K n = K i @ s' # r'" using linked_from_parent [OF k n i(1) True] by blast
    ultimately show ?thesis using kid_view [OF cj y(1)] by simp
  next
    case False
    then have jw: "child s' w = Some j" "j \<noteq> n" using j by auto
    obtain y r where y: "pt_nodes t j = Some y" "pn_parent y = Some i" "K j = K i @ s' # r" using shape_child [OF k i(1) jw(1)] by blast
    have "c \<noteq> Some j" using kid [of j] y(1,2) i(2) by auto
    then show ?thesis using other [OF jw(2) _ y(1)] y by simp
  qed
  have up: "\<exists>y s'. pt_nodes ?t q = Some y \<and> child s' y = Some i"
    if i: "pt_nodes t i = Some w" "pn_parent w = Some q" "i \<noteq> n" "c \<noteq> Some i" for i w q
  proof -
    obtain z sq where z: "pt_nodes t q = Some z" "child sq z = Some i" using shape_parent [OF k i(1,2)] by blast
    have "q \<noteq> n" using only z n i(4) by auto
    then show ?thesis using kid_view [of q z] other [of q z] z i(3) by (cases "c = Some q") (auto intro!: exI [of _ sq])
  qed
  have "node_ok ?t K i w'" if i: "pt_nodes ?t i = Some w'" for i w'
  proof -
    have inn: "i \<noteq> n" using i v(1) by auto
    show ?thesis
    proof (cases "c = Some i")
      case True
      obtain y r where y: "pt_nodes t i = Some y" "pn_parent y = Some n" "K i = K n @ s # r" using kid [OF True] by blast
      have w': "w' = y\<lparr>pn_parent := pn_parent x\<rparr>" using kid_view [OF True y(1)] i by simp
      have yn: "child s' y \<noteq> Some n" for s' using linked_from_parent [OF k n y(1), of s'] y(3) by auto
      have "\<exists>z r. pt_nodes ?t j = Some z \<and> pn_parent z = Some i \<and> K j = K i @ s' # r" if j: "child s' y = Some j" for s' j
        by (rule link [OF y(1) inn]) (use j yn [of s'] in simp)
      moreover have "\<exists>z s'. pt_nodes ?t q = Some z \<and> child s' z = Some i" if pq: "pn_parent x = Some q" for q
      proof -
        obtain z sq r' where z: "pt_nodes t q = Some z" "child sq z = Some n" "K n = K q @ sq # r'" using shape_parent [OF k n pq] by blast
        have "q \<noteq> n" "q \<noteq> i" using z(3) y(3) by auto
        then show ?thesis using other [of q z] z True by (auto intro!: exI [of _ sq])
      qed
      ultimately show ?thesis using ok [OF y(1)] w' v(4,5) parent_None_head [OF k n] True by (auto simp: node_ok_def)
    next
      case False
      then obtain w where w: "pt_nodes t i = Some w" "w' = redirect n c w" using v(3) [OF inn False] i by (cases "pt_nodes t i") auto
      then show ?thesis
        using ok [OF w(1)] link [OF w(1) inn] up [OF w(1) _ inn False] v(4,5) inn by (auto simp: node_ok_def simp del: redirect_sel(5))
    qed
  qed
  moreover have "\<exists>w. pt_nodes ?t h = Some w \<and> pn_parent w = None" if h: "pt_head ?t = Some h" for h
  proof (cases "pt_head t = Some n")
    case True
    then have "c = Some h" "pn_parent x = None" using h v(4) parent_None_head [OF k n] by auto
    then show ?thesis using kid kid_view by fastforce
  next
    case False
    then have h': "pt_head t = Some h" "h \<noteq> n" using h v(4) by auto
    obtain w where w: "pt_nodes t h = Some w" "pn_parent w = None" using shape_head [OF k h'(1)] by blast
    then have "c \<noteq> Some h" using kid [of h] by auto
    then show ?thesis using other [OF h'(2) _ w(1)] w by simp
  qed
  moreover have "pt_nodes ?t = Map.empty" if h: "pt_head ?t = None"
  proof -
    have hn: "pt_head t = Some n" "c = None" using h v(4) shape_head_None [OF k] n by (auto split: if_splits)
    have "i = n" if i: "pt_nodes t i = Some w" for i w
    proof (cases rule: desc_cases [OF desc_head [OF k hn(1) i] k n])
      case (2 j)
      then show ?thesis using only [OF 2(1)] hn(2) by simp
    qed
    then have none: "pt_nodes t i = None" if "i \<noteq> n" for i using that by (cases "pt_nodes t i") auto
    have "pt_nodes ?t i = None" for i
    proof (cases "i = n")
      case False
      then show ?thesis using v(3) [OF False] none [OF False] hn(2) by simp
    qed (simp add: v(1))
    then show ?thesis by (simp add: fun_eq_iff)
  qed
  ultimately show ?thesis by (simp add: shape_def)
qed

lemma unlink_entries:
  assumes k: "shape t K" and n: "pt_nodes t n = Some x" and c: "\<forall>j. c = Some j \<longrightarrow> (\<exists>s. child s x = Some j)"
  shows "entries (unlink_node n c t) = (entries t)(n := None)"
proof
  fix i
  note v = unlink_view [OF k n c]
  show "entries (unlink_node n c t) i = ((entries t)(n := None)) i"
  proof (cases "i = n")
    case True
    then show ?thesis using v(1) by (simp add: entries_def)
  next
    case False
    have "entries (unlink_node n c t) i = entries t i"
      using v(2,3) False by (cases "c = Some i") (auto intro!: entries_at simp: option.map_comp comp_def)
    then show ?thesis using False by simp
  qed
qed

lemma unlink_books:
  assumes k: "shape t K" and bk: "books t" and n: "pt_nodes t n = Some x" and c: "\<forall>j. c = Some j \<longrightarrow> (\<exists>s. child s x = Some j)"
  shows "books (unlink_node n c t)"
proof -
  have "books (free_node n t')" if "dom (pt_nodes t') = dom (pt_nodes t)" "pt_next t' = pt_next t" "pt_num_active_node t' = pt_num_active_node t" for t' :: "'a ptree"
    using bk that domI [of "pt_nodes t", OF n] finite_subset [of "dom (pt_nodes t)" "{..<pt_next t}"]
    by (auto simp: books_def free_node_def card_Diff_singleton)
  moreover have "dom (pt_nodes (upd_node j f t)) = dom (pt_nodes t)" for j f by (auto simp: upd_node_nodes split: if_splits)
  moreover have "pt_num_active_node (upd_node j f t) = pt_num_active_node t" for j f by (simp add: upd_node_def)
  ultimately have "books (free_node n (case c of None \<Rightarrow> t | Some j \<Rightarrow> upd_node j f t))" for f
    by (cases c) simp_all
  then show ?thesis by (simp add: unlink_node_def Let_def)
qed

text \<open>Glue nodes keep both children when a child takes the place of its parent.\<close>

definition full_but :: "nid option \<Rightarrow> 'd ptree \<Rightarrow> bool" where
  "full_but q t = (\<forall>i w s. pt_nodes t i = Some w \<longrightarrow> q \<noteq> Some i \<longrightarrow> pn_prefix w = None \<longrightarrow> child s w \<noteq> None)"

lemma full_but_None: "full_but None t = full t"
  by (simp add: full_but_def full_def)

lemma unlink_full:
  assumes k: "shape t K" and f: "full_but q t" and n: "pt_nodes t n = Some x" and c: "\<forall>j. c = Some j \<longrightarrow> (\<exists>s. child s x = Some j)"
    and q: "c = None \<Longrightarrow> pn_parent x = q'" "c \<noteq> None \<Longrightarrow> q' = None" "q = None \<or> q = Some n"
  shows "full_but q' (unlink_node n c t)"
  unfolding full_but_def
proof (intro allI impI)
  fix i w s assume w: "pt_nodes (unlink_node n c t) i = Some w" "q' \<noteq> Some i" "pn_prefix w = None"
  note v = unlink_view [OF k n c]
  have inn: "i \<noteq> n" using w(1) v(1) by auto
  obtain w0 where w0: "pt_nodes t i = Some w0" "pn_prefix w0 = None" "child s w = child s w0 \<or> child s w0 = Some n \<and> child s w = c"
  proof (cases "c = Some i")
    case True
    then show thesis using that w v(2) [OF True] by (cases "pt_nodes t i") auto
  next
    case False
    then show thesis using that w v(3) [OF inn False] by (cases "pt_nodes t i") (auto split: if_splits)
  qed
  have "child s w0 \<noteq> None" using f w0(1,2) q(3) inn unfolding full_but_def by blast
  moreover have "c \<noteq> None" if "child s w0 = Some n"
    using linked_from_parent [OF k n w0(1) that] q(1) w(2) by auto
  ultimately show "child s w \<noteq> None" using w0(3) by auto
qed

definition removed :: "nid \<Rightarrow> 'd ptree \<Rightarrow> 'd ptree \<Rightarrow> bool" where
  "removed n t t' = ((\<exists>K. shape t' K) \<and> books t' \<and> full t' \<and> pt_maxbits t' = pt_maxbits t \<and> entries t' = (entries t)(n := None))"

lemma unlink_removed:
  assumes "shape t K" "books t" "full_but q t" "pt_nodes t n = Some x" "child s x = c" "child (\<not> s) x = None" "q = None \<or> q = Some n"
    "c = None \<Longrightarrow> pn_parent x = None"
  shows "removed n t (unlink_node n c t)"
proof -
  have c: "\<forall>j. c = Some j \<longrightarrow> (\<exists>s. child s x = Some j)" using assms(5) by blast
  have "full_but None (unlink_node n c t)" by (rule unlink_full [OF assms(1,3,4) c _ _ assms(7)]) (use assms(8) in auto)
  then show ?thesis
    using unlink_shape [OF assms(1,4,5,6)] unlink_entries [OF assms(1,4) c] unlink_books [OF assms(1,2,4) c] unlink_view(5) [OF assms(1,4) c]
    by (auto simp: removed_def full_but_None)
qed

lemma remove_ok:
  assumes ok: "pt_ok t" and e: "entries t n = Some (p, d)"
  shows "removed n t (rb_patricia_remove t n)"
proof -
  obtain K where k: "shape t K" and bk: "books t" and f: "full_but None t" using ok by (auto simp: pt_ok_def full_but_None)
  obtain x where n: "pt_nodes t n = Some x" "pn_prefix x = Some p" using e by (auto simp: entries_Some)
  have ch: "pn_r x = child True x" "pn_l x = child False x" by (simp_all add: child_def)
  consider (two) "pn_r x \<noteq> None" "pn_l x \<noteq> None" | (none) "pn_r x = None" "pn_l x = None"
    | (one) s where "child s x \<noteq> None" "child (\<not> s) x = None" unfolding ch by (metis (full_types))
  then show ?thesis
  proof cases
    case two
    let ?t = "upd_node n (\<lambda>x. x\<lparr>pn_prefix := None, pn_data := None\<rparr>) t"
    have "shape ?t K" by (rule upd_shape [OF k n(1)]) simp_all
    moreover have "full ?t" using f n two by (auto simp: full_but_def full_def upd_node_nodes child_def split: if_splits)
    moreover have "entries ?t i = ((entries t)(n := None)) i" for i using n by (cases "i = n") (auto simp: entries_def upd_node_nodes)
    ultimately show ?thesis using bk two n by (auto simp: removed_def rb_patricia_remove_def Let_def fun_eq_iff)
  next
    case (one s)
    then have "rb_patricia_remove t n = unlink_node n (child s x) t"
      using n unfolding rb_patricia_remove_def Let_def by (cases s) (auto simp: child_def)
    then show ?thesis using unlink_removed [OF k bk f n(1) refl one(2)] one(1) by simp
  next
    case none
    then have c: "child s x = None" for s by (simp add: child_def)
    let ?t1 = "unlink_node n None t"
    show ?thesis
    proof (cases "pn_parent x")
      case None
      then have "rb_patricia_remove t n = ?t1" using none n by (simp add: rb_patricia_remove_def Let_def)
      then show ?thesis using unlink_removed [OF k bk f n(1) c c _ None] by simp
    next
      case (Some q)
      obtain z sq r where z: "pt_nodes t q = Some z" "child sq z = Some n" "K n = K q @ sq # r" using shape_parent [OF k n(1) Some] by blast
      have qn: "q \<noteq> n" using z(3) by auto
      have tq: "pt_nodes ?t1 q = Some (redirect n None z)" using unlink_view(3) [OF k n(1), of None, OF _ qn] z(1) by simp
      have v: "pt_maxbits ?t1 = pt_maxbits t" using unlink_view(5) [OF k n(1), of None] by simp
      have k1: "shape ?t1 K" by (rule unlink_shape [OF k n(1) c c])
      have b1: "books ?t1" by (rule unlink_books [OF k bk n(1)]) simp
      have f1: "full_but (Some q) ?t1" by (rule unlink_full [OF k f n(1)]) (use Some in simp_all)
      have e1: "entries ?t1 = (entries t)(n := None)" by (rule unlink_entries [OF k n(1)]) simp
      show ?thesis
      proof (cases "pn_prefix z")
        case p: (Some p')
        then have "rb_patricia_remove t n = ?t1" using none n Some tq by (simp add: rb_patricia_remove_def Let_def)
        moreover have "full ?t1" using f1 tq p unfolding full_but_def full_def by (metis option.distinct(1) option.sel redirect_sel(2))
        ultimately show ?thesis using k1 b1 e1 v by (auto simp: removed_def)
      next
        case g: None
        have other: "child (\<not> sq) z \<noteq> None" using f z(1) g unfolding full_but_def by blast
        have nn: "child (\<not> sq) z \<noteq> Some n" using linked_from_parent [OF k n(1) z(1), of "\<not> sq"] z(3) by auto
        have side: "(pn_r z \<noteq> Some n) = (\<not> sq)" using right_child_side [OF k z(1,2)] by simp
        have "rb_patricia_remove t n = unlink_node q (child (\<not> sq) (redirect n None z)) ?t1"
          using none n Some tq g z(1) side by (simp add: rb_patricia_remove_def Let_def)
        moreover have "removed q ?t1 (unlink_node q (child (\<not> sq) (redirect n None z)) ?t1)"
          by (rule unlink_removed [OF k1 b1 f1 tq refl]) (use z(2) other nn in simp_all)
        moreover have "entries ?t1 q = None" using tq g by (simp add: entries_def)
        ultimately show ?thesis using e1 v by (auto simp: removed_def fun_upd_idem)
      qed
    qed
  qed
qed

end
