(* ===== verification/PatriciaTheorems.thy ===== *)
theory PatriciaTheorems
  imports PatriciaRemove
begin

unbundle bit_operations_syntax

text \<open>What the daemon may rely on when it keeps networks in a radix tree.\<close>

section \<open>A table of networks\<close>

text \<open>The networks a tree holds, as strings of bits.\<close>

definition nets :: "'d ptree \<Rightarrow> bool list set" where
  "nets t = {net_bits p | p n d. entries t n = Some (p, d)}"

datatype net_op = Add_net rb_prefix | Del_net rb_prefix

fun op_net :: "net_op \<Rightarrow> rb_prefix" where
  "op_net (Add_net p) = p"
| "op_net (Del_net p) = p"

fun net_spec :: "net_op \<Rightarrow> bool list set \<Rightarrow> bool list set" where
  "net_spec (Add_net p) s = insert (net_bits p) s"
| "net_spec (Del_net p) s = s - {net_bits p}"

fun net_run :: "('t \<Rightarrow> rb_prefix \<Rightarrow> 't option) \<Rightarrow> ('t \<Rightarrow> rb_prefix \<Rightarrow> 't option) \<Rightarrow> net_op list \<Rightarrow> 't \<Rightarrow> 't option" where
  "net_run add del [] t = Some t"
| "net_run add del (x # xs) t =
     (case (case x of Add_net p \<Rightarrow> add t p | Del_net p \<Rightarrow> del t p) of
        None \<Rightarrow> None
      | Some t' \<Rightarrow> net_run add del xs t')"

locale net_table =
  fixes ok :: "'t \<Rightarrow> bool" and width :: "'t \<Rightarrow> nat" and held :: "'t \<Rightarrow> bool list set"
    and add :: "'t \<Rightarrow> rb_prefix \<Rightarrow> 't option" and del :: "'t \<Rightarrow> rb_prefix \<Rightarrow> 't option"
  assumes add_law: "ok t \<Longrightarrow> prefix_ok (width t) p \<Longrightarrow>
      \<exists>t'. add t p = Some t' \<and> ok t' \<and> width t' = width t \<and> held t' = insert (net_bits p) (held t)"
    and del_law: "ok t \<Longrightarrow> prefix_ok (width t) p \<Longrightarrow>
      \<exists>t'. del t p = Some t' \<and> ok t' \<and> width t' = width t \<and> held t' = held t - {net_bits p}"
begin

lemma run_refines:
  "ok t \<Longrightarrow> \<forall>x \<in> set xs. prefix_ok (width t) (op_net x) \<Longrightarrow>
   \<exists>t'. net_run add del xs t = Some t' \<and> ok t' \<and> width t' = width t \<and> held t' = fold net_spec xs (held t)"
proof (induction xs arbitrary: t)
  case (Cons x xs)
  obtain t1 where t1: "(case x of Add_net p \<Rightarrow> add t p | Del_net p \<Rightarrow> del t p) = Some t1" "ok t1" "width t1 = width t"
    "held t1 = net_spec x (held t)"
    using add_law [OF Cons.prems(1), of "op_net x"] del_law [OF Cons.prems(1), of "op_net x"] Cons.prems(2) by (cases x) auto
  then show ?case using Cons.IH [OF t1(2)] Cons.prems(2) by auto
qed simp

end

definition net_add :: "'d ptree \<Rightarrow> rb_prefix \<Rightarrow> 'd ptree option" where
  "net_add t p = map_option snd (rb_patricia_lookup t p)"

definition net_del :: "'d ptree \<Rightarrow> rb_prefix \<Rightarrow> 'd ptree option" where
  "net_del t p =
     (case rb_patricia_search_exact t p of
        None \<Rightarrow> None
      | Some None \<Rightarrow> Some t
      | Some (Some n) \<Rightarrow> Some (rb_patricia_remove t n))"

lemma nets_mem: "b \<in> nets t \<longleftrightarrow> (\<exists>n q d. entries t n = Some (q, d) \<and> net_bits q = b)"
  unfolding nets_def by blast

lemma nets_upd: "entries t n = None \<Longrightarrow> entries t' = (entries t)(n \<mapsto> (p, d)) \<Longrightarrow> nets t' = insert (net_bits p) (nets t)"
  by (auto simp: nets_def) (metis option.distinct(1))+

lemma nets_del:
  assumes k: "shape t K" and e: "entries t n = Some (p, d)" and t': "entries t' = (entries t)(n := None)"
  shows "nets t' = nets t - {net_bits p}"
proof -
  have u: "m = n" if "entries t m = Some (q, d')" "net_bits q = net_bits p" for m q d'
    using entries_unique [OF k that(1) e that(2)] .
  have "b \<in> nets t' \<longleftrightarrow> b \<in> nets t \<and> b \<noteq> net_bits p" for b
  proof
    assume "b \<in> nets t'"
    then obtain m q d' where m: "m \<noteq> n" "entries t m = Some (q, d')" "net_bits q = b" unfolding nets_mem t' by (auto split: if_splits)
    then show "b \<in> nets t \<and> b \<noteq> net_bits p" using u [OF m(2)] unfolding nets_mem by blast
  next
    assume b: "b \<in> nets t \<and> b \<noteq> net_bits p"
    then obtain m q d' where m: "entries t m = Some (q, d')" "net_bits q = b" unfolding nets_mem by blast
    then have "m \<noteq> n" using e b by auto
    then show "b \<in> nets t'" using m unfolding nets_mem t' by auto
  qed
  then show ?thesis by blast
qed

lemma inserted_ok: "pt_ok t \<Longrightarrow> inserted p n t t' \<Longrightarrow> pt_ok t'"
  by (simp add: pt_ok_def inserted_def)

lemma removed_ok: "pt_ok t \<Longrightarrow> removed n t t' \<Longrightarrow> pt_ok t'"
  by (simp add: pt_ok_def removed_def)

interpretation pt: net_table pt_ok pt_maxbits nets net_add net_del
proof
  fix t :: "'d ptree" and p assume a: "pt_ok t" "prefix_ok (pt_maxbits t) p"
  obtain K where k: "shape t K" using a(1) by (auto simp: pt_ok_def)
  obtain m t' where l: "rb_patricia_lookup t p = Some (m, t')"
    "(\<exists>q e. entries t m = Some (q, e) \<and> net_bits q = net_bits p) \<and> t' = t \<or> inserted p m t t'"
    by (rule lookup_ok [OF a])
  from l(2) show "\<exists>t'. net_add t p = Some t' \<and> pt_ok t' \<and> pt_maxbits t' = pt_maxbits t \<and> nets t' = insert (net_bits p) (nets t)"
  proof
    assume f: "(\<exists>q e. entries t m = Some (q, e) \<and> net_bits q = net_bits p) \<and> t' = t"
    then have "net_bits p \<in> nets t" unfolding nets_mem by blast
    then show ?thesis using l(1) f a(1) by (simp add: net_add_def insert_absorb)
  next
    assume i: "inserted p m t t'"
    then have "nets t' = insert (net_bits p) (nets t)" by (intro nets_upd) (simp_all add: inserted_def)
    then show ?thesis using l(1) inserted_ok [OF a(1) i] i by (simp add: net_add_def inserted_def)
  qed
  obtain r where r: "rb_patricia_search_exact t p = Some r" "\<And>n. r = Some n \<longleftrightarrow> (\<exists>q d. entries t n = Some (q, d) \<and> net_bits q = net_bits p)"
    using search_exact_finds [OF a] by blast
  show "\<exists>t'. net_del t p = Some t' \<and> pt_ok t' \<and> pt_maxbits t' = pt_maxbits t \<and> nets t' = nets t - {net_bits p}"
  proof (cases r)
    case None
    then have "net_bits p \<notin> nets t" using r(2) by (simp add: nets_mem)
    then show ?thesis using None r(1) a(1) by (simp add: net_del_def)
  next
    case (Some n)
    then obtain q d where q: "entries t n = Some (q, d)" "net_bits q = net_bits p" using r(2) by blast
    have rm: "removed n t (rb_patricia_remove t n)" by (rule remove_ok [OF a(1) q(1)])
    then have "nets (rb_patricia_remove t n) = nets t - {net_bits p}" using nets_del [OF k q(1)] q(2) by (simp add: removed_def)
    then show ?thesis using Some r(1) rm removed_ok [OF a(1) rm] by (simp add: net_del_def removed_def)
  qed
qed

lemma new_patricia_ok: "maxbits \<le> RB_PATRICIA_MAXBITS \<Longrightarrow> pt_ok (rb_new_patricia maxbits)"
  by (simp add: pt_ok_def rb_new_patricia_def books_def full_def shape_def)

lemma new_patricia_width: "pt_maxbits (rb_new_patricia maxbits) = maxbits"
  by (simp add: rb_new_patricia_def)

lemma new_patricia_nets: "nets (rb_new_patricia maxbits) = {}"
  by (simp add: nets_def entries_def rb_new_patricia_def)

section \<open>Properties\<close>

text \<open>
  C14. Under every sequence of insertions (\<open>rb_patricia_lookup\<close>) and removals of networks the radix tree
  implements a set of networks: all calls return, all its pointers are valid, and the exact search
  finds a network exactly if it is in the set.
\<close>

theorem radix_tree_refines:
  assumes "maxbits \<le> RB_PATRICIA_MAXBITS" "\<forall>x \<in> set xs. prefix_ok maxbits (op_net x)" "prefix_ok maxbits p"
  shows "\<exists>t r. net_run net_add net_del xs (rb_new_patricia maxbits) = Some (t :: 'd ptree) \<and> pt_ok t \<and> nets t = fold net_spec xs {} \<and>
    rb_patricia_search_exact t p = Some r \<and> (r \<noteq> None \<longleftrightarrow> net_bits p \<in> fold net_spec xs {})"
proof -
  have w: "pt_maxbits (rb_new_patricia maxbits :: 'd ptree) = maxbits" by (simp add: rb_new_patricia_def)
  have "pt_ok (rb_new_patricia maxbits :: 'd ptree)" by (rule new_patricia_ok [OF assms(1)])
  from pt.run_refines [OF this, of xs] assms(2) obtain t where
    t: "net_run net_add net_del xs (rb_new_patricia maxbits) = Some (t :: 'd ptree)" "pt_ok t" "pt_maxbits t = maxbits" "nets t = fold net_spec xs {}"
    by (auto simp: w new_patricia_nets)
  obtain r where r: "rb_patricia_search_exact t p = Some r" "\<And>n. r = Some n \<longleftrightarrow> (\<exists>q d. entries t n = Some (q, d) \<and> net_bits q = net_bits p)"
    using search_exact_finds [OF t(2), of p] assms(3) t(3) by blast
  have "r \<noteq> None \<longleftrightarrow> net_bits p \<in> nets t" using r(2) [of "the r"] r(2) by (cases r) (auto simp: nets_mem)
  then show ?thesis using t r(1) by blast
qed

definition net10 :: rb_prefix where "net10 = New_Prefix AF_INET [10, 0, 0, 0] 8"
definition net1020 :: rb_prefix where "net1020 = New_Prefix AF_INET [10, 20, 0, 0] 16"

lemma small_nets: "prefix_ok 128 net10" "prefix_ok 128 net1020"
  by (simp_all add: prefix_ok_def net10_def net1020_def New_Prefix_def addr_len_def)

theorem radix_tree_refines_witness:
  "\<exists>t r. net_run net_add net_del [Add_net net10, Add_net net1020, Del_net net10] (rb_new_patricia 128) = Some (t :: unit ptree) \<and> pt_ok t \<and>
    rb_patricia_search_exact t net1020 = Some r \<and> r \<noteq> None"
proof -
  have "pf_bitlen net1020 = 16" "pf_bitlen net10 = 8" by (simp_all add: net10_def net1020_def New_Prefix_def)
  then have "length (net_bits net1020) \<noteq> length (net_bits net10)" by simp
  then have "net_bits net1020 \<noteq> net_bits net10" by metis
  then show ?thesis
    using radix_tree_refines [of 128 "[Add_net net10, Add_net net1020, Del_net net10]" net1020] small_nets by (auto simp: RB_PATRICIA_MAXBITS_def)
qed

text \<open>
  C15. The best match (\<open>rb_patricia_search_best\<close>, with which addresses are looked up) returns a network that contains
  the address, and no network that contains it is longer; it returns nothing only if no network contains the address.
\<close>

theorem radix_best_match:
  assumes "pt_ok t" "prefix_ok (pt_maxbits t) p"
  shows "\<exists>r. rb_patricia_search_best t p = Some r \<and>
    (case r of
       None \<Rightarrow> \<forall>b \<in> nets t. take (length b) (net_bits p) \<noteq> b
     | Some n \<Rightarrow> \<exists>q d. entries t n = Some (q, d) \<and> (\<forall>i < pf_bitlen q. addr_bit (pf_add q) i = addr_bit (pf_add p) i) \<and>
         (\<forall>b \<in> nets t. take (length b) (net_bits p) = b \<longrightarrow> length b \<le> pf_bitlen q))"
proof -
  obtain K where k: "shape t K" using assms(1) by (auto simp: pt_ok_def)
  obtain r where r: "rb_patricia_search_best t p = Some r"
    "\<And>n. r = Some n \<Longrightarrow> \<exists>q d. entries t n = Some (q, d) \<and> (\<forall>i < pf_bitlen q. addr_bit (pf_add q) i = addr_bit (pf_add p) i)"
    "\<And>m q d. entries t m = Some (q, d) \<Longrightarrow> pf_bitlen q \<le> pf_bitlen p \<Longrightarrow> \<forall>i < pf_bitlen q. addr_bit (pf_add q) i = addr_bit (pf_add p) i \<Longrightarrow>
       \<exists>n. r = Some n \<and> pf_bitlen q \<le> pn_bit (nd t n)"
    using search_best_finds [OF assms] by blast
  have longest: "\<exists>n. r = Some n \<and> length b \<le> pn_bit (nd t n)" if b: "b \<in> nets t" "take (length b) (net_bits p) = b" for b
  proof -
    obtain m q d where m: "entries t m = Some (q, d)" "net_bits q = b" using b(1) unfolding nets_mem by blast
    have l: "length b = pf_bitlen q" using m(2) by auto
    then have "length b \<le> pf_bitlen p" using b(2) by (metis length_take min.cobounded1 net_bits_length)
    moreover have "addr_bit (pf_add q) i = addr_bit (pf_add p) i" if "i < pf_bitlen q" for i
    proof -
      have "net_bits q ! i = take (length b) (net_bits p) ! i" using b(2) m(2) by simp
      then show ?thesis using that l calculation by simp
    qed
    ultimately show ?thesis using r(3) [OF m(1)] l by simp
  qed
  show ?thesis
  proof (cases r)
    case None
    then have "\<forall>b \<in> nets t. take (length b) (net_bits p) \<noteq> b" using longest by blast
    then show ?thesis using None r(1) by simp
  next
    case (Some n)
    then obtain q d where q: "entries t n = Some (q, d)" "\<forall>i < pf_bitlen q. addr_bit (pf_add q) i = addr_bit (pf_add p) i" using r(2) by blast
    have "pn_bit (nd t n) = pf_bitlen q" using entries_key [OF k q(1)] by simp
    then have "\<forall>b \<in> nets t. take (length b) (net_bits p) = b \<longrightarrow> length b \<le> pf_bitlen q" using longest Some by fastforce
    then show ?thesis using Some r(1) q by auto
  qed
qed

definition small_tree :: "unit ptree" where
  "small_tree = snd (the (rb_patricia_lookup (rb_new_patricia 128) net10))"

lemma small_tree: "pt_ok small_tree" "pt_maxbits small_tree = 128" "nets small_tree = {net_bits net10}"
  "rb_patricia_lookup (rb_new_patricia 128) net10 = Some (0, small_tree)"
proof -
  have p: "prefix_ok (pt_maxbits (rb_new_patricia 128 :: unit ptree)) net10" using small_nets by (simp add: rb_new_patricia_def)
  have o: "pt_ok (rb_new_patricia 128 :: unit ptree)" by (rule new_patricia_ok) (simp add: RB_PATRICIA_MAXBITS_def)
  have a: "net_add (rb_new_patricia 128) net10 = Some small_tree"
    by (simp add: net_add_def small_tree_def rb_patricia_lookup_def rb_new_patricia_def)
  then show "pt_ok small_tree" "pt_maxbits small_tree = 128" "nets small_tree = {net_bits net10}"
    using pt.add_law [OF o p] new_patricia_width by (auto simp: new_patricia_nets)
  show "rb_patricia_lookup (rb_new_patricia 128) net10 = Some (0, small_tree)"
    by (simp add: small_tree_def rb_patricia_lookup_def rb_new_patricia_def)
qed

theorem radix_best_match_witness:
  "\<exists>n q d. rb_patricia_search_best small_tree net1020 = Some (Some n) \<and> entries small_tree n = Some (q, d) \<and> 8 \<le> pf_bitlen q"
proof -
  have "take 8 (net_bits net1020) = net_bits net10"
    by (simp add: net_bits_def net10_def net1020_def New_Prefix_def addr_bit_def addr_len_def upt_rec)
  moreover have "length (net_bits net10) = 8" by (simp add: net10_def New_Prefix_def)
  ultimately show ?thesis
    using radix_best_match [OF small_tree(1), of net1020] small_nets(2) unfolding small_tree(2,3) by (auto split: option.splits)
qed

text \<open>
  The array of \<open>rb_patricia_search_best2\<close> for the nodes on the way, of \<open>RB_PATRICIA_MAXBITS + 1\<close> entries, is large enough
  for every tree.
\<close>

theorem radix_stack_bound:
  assumes "pt_ok t" "pt_head t = Some h"
  shows "\<exists>st. best_stack t p True h = Some st \<and> length st \<le> RB_PATRICIA_MAXBITS + 1"
proof -
  obtain K where k: "shape t K" using assms(1) by (auto simp: pt_ok_def)
  obtain st where st: "best_stack t p True h = Some st" "stack_ok t st"
    by (rule best_stack_finds [OF k assms(2), of p]) blast
  have "length st \<le> Suc (pt_maxbits t)" by (rule stack_bound [OF k st(2)])
  moreover have "pt_maxbits t \<le> RB_PATRICIA_MAXBITS" using assms(1) by (simp add: pt_ok_def)
  ultimately show ?thesis using st(1) by auto
qed

theorem radix_stack_bound_witness: "\<exists>st. best_stack small_tree net1020 True 0 = Some st \<and> length st \<le> RB_PATRICIA_MAXBITS + 1"
proof -
  have "pt_head small_tree = Some 0" by (simp add: small_tree_def rb_patricia_lookup_def rb_new_patricia_def)
  then show ?thesis by (rule radix_stack_bound [OF small_tree(1)])
qed

text \<open>
  Inserting and removing a network moves no other: every other network stays in its node with its data, so the pointers
  to nodes that clients of the tree keep stay valid.
\<close>

theorem radix_nodes_stable:
  assumes "pt_ok t" "prefix_ok (pt_maxbits t) p" "entries t n = Some (q, d)"
  shows "(\<exists>m t'. rb_patricia_lookup t p = Some (m, t') \<and> pt_ok t' \<and> (\<forall>i \<in> dom (entries t). entries t' i = entries t i) \<and>
      dom (entries t') = insert m (dom (entries t)) \<and> (\<exists>p' d'. entries t' m = Some (p', d') \<and> net_bits p' = net_bits p)) \<and>
    pt_ok (rb_patricia_remove t n) \<and> entries (rb_patricia_remove t n) = (entries t)(n := None)"
proof -
  obtain m t' where l: "rb_patricia_lookup t p = Some (m, t')"
    "(\<exists>q e. entries t m = Some (q, e) \<and> net_bits q = net_bits p) \<and> t' = t \<or> inserted p m t t'"
    by (rule lookup_ok [OF assms(1,2)])
  have "pt_ok t' \<and> (\<forall>i \<in> dom (entries t). entries t' i = entries t i) \<and>
      dom (entries t') = insert m (dom (entries t)) \<and> (\<exists>p' d'. entries t' m = Some (p', d') \<and> net_bits p' = net_bits p)"
    using l(2) assms(1) inserted_ok [OF assms(1)] by (auto simp: inserted_def insert_absorb domI)
  then show ?thesis
    using l(1) remove_ok [OF assms(1,3)] removed_ok [OF assms(1)] by (auto simp: removed_def)
qed

theorem radix_nodes_stable_witness:
  "\<exists>m t'. rb_patricia_lookup small_tree net1020 = Some (m, t') \<and> pt_ok t' \<and> entries t' 0 = Some (net10, None)"
proof -
  have e: "entries small_tree 0 = Some (net10, None)"
    by (simp add: small_tree_def rb_patricia_lookup_def rb_new_patricia_def entries_def new_node_def leaf_def)
  then show ?thesis
    using radix_nodes_stable [OF small_tree(1), of net1020 0] small_nets(2) small_tree(2) by (auto simp: domI)
qed

text \<open>
  C35. The trees keep IPv4 and IPv6 networks together, and no search looks at the family: a D-line or a reject
  entry for an IPv4 network also holds for the IPv6 addresses that begin with the same bits.
\<close>

theorem radix_ignores_family:
  assumes "length a = 4" "length b = 16" "len \<le> 32" "\<forall>i < len. addr_bit a i = addr_bit b i"
  shows "\<exists>t. make_and_lookup_ip (rb_new_patricia 128 :: 'd ptree) AF_INET a (int len) = Some (0, t) \<and> rb_match_ip t AF_INET6 b = Some (Some 0)"
proof -
  let ?p = "New_Prefix AF_INET a (int len)" and ?q = "New_Prefix AF_INET6 b 128"
  let ?t = "(new_node (leaf ?p) (rb_new_patricia 128 :: 'd ptree))\<lparr>pt_head := Some 0\<rparr>"
  have l: "make_and_lookup_ip (rb_new_patricia 128) AF_INET a (int len) = Some (0, ?t)"
    by (simp add: make_and_lookup_ip_def rb_patricia_lookup_def rb_new_patricia_def)
  have n: "nd ?t 0 = leaf ?p" by (simp add: rb_new_patricia_def)
  have p: "pf_bitlen ?p = len" "pf_add ?p = a @ replicate 12 0" "pf_bitlen ?q = 128" "pf_add ?q = b"
    using assms(1,2) by (simp_all add: New_Prefix_def addr_len_def)
  have "addr_bit (a @ replicate 12 0) i = addr_bit a i" if "i < len" for i
    using that assms(1,3) by (simp add: addr_bit_def nth_append div_less_iff_less_mult)
  then have c: "comp_with_mask (a @ replicate 12 0) b len"
    using assms by (subst comp_with_mask_bits_aux) auto
  have "net_covers ?t ?q 0" using c n p by (simp add: net_covers_def)
  moreover have "best_stack ?t ?q True 0 = Some [0]"
    using n p assms(3) by (simp add: best_stack_def best_loop.simps [of ?t b 128 "[]" 0] Let_def)
  ultimately have "rb_match_ip ?t AF_INET6 b = Some (Some 0)"
    by (simp add: rb_match_ip_def rb_patricia_search_best_def rb_patricia_search_best2_def addr_len_def)
  then show ?thesis using l by blast
qed

theorem radix_ignores_family_witness:
  "\<exists>t. make_and_lookup_ip (rb_new_patricia 128 :: unit ptree) AF_INET [32, 1, 13, 184] 32 = Some (0, t) \<and>
     rb_match_ip t AF_INET6 [32, 1, 13, 184, 0, 0, 0, 0, 0, 0, 0, 0, 0, 0, 0, 1] = Some (Some 0)"
proof -
  have "addr_bit [32, 1, 13, 184] i = addr_bit [32, 1, 13, 184, 0, 0, 0, 0, 0, 0, 0, 0, 0, 0, 0, 1] i" if "i < 32" for i
  proof -
    have "i div 8 \<in> {0, 1, 2, 3}" using that by auto
    then show ?thesis by (auto simp: addr_bit_def)
  qed
  then show ?thesis
    using radix_ignores_family [of "[32, 1, 13, 184]" "[32, 1, 13, 184, 0, 0, 0, 0, 0, 0, 0, 0, 0, 0, 0, 1]" 32] by simp
qed

end
