(* ===== verification/Reject.thy ===== *)
theory Reject
  imports PatriciaTheorems
begin

unbundle bit_operations_syntax

text \<open>
  \<open>src/reject.c\<close>: the cache of rejected addresses, the throttle for addresses that connect too often, D-lines and
  exemptions, and the counts of clients per network; \<open>parse_netmask\<close> of \<open>src/hostmask.c\<close>. All are radix trees, the first two with
  a list of their nodes. An operation is \<open>None\<close> when it would read through a null pointer or not end.
\<close>

type_synonym ip = "af \<times> byte list"

definition PATRICIA_BITS :: nat where "PATRICIA_BITS = 128"

section \<open>Masks\<close>

definition rb_inet_pton_sock :: "cstring \<Rightarrow> ip option" where
  "rb_inet_pton_sock src =
     (case rb_inet_pton AF_INET src of
        Some a \<Rightarrow> Some (AF_INET, a)
      | None \<Rightarrow> map_option (\<lambda>a. (AF_INET6, a)) (rb_inet_pton AF_INET6 src))"

datatype hm = HM_HOST | HM_IPV4 | HM_IPV6

text \<open>The part before the slash, and the number behind it if it is not too large.\<close>

definition mask_bits :: "int \<Rightarrow> cstring \<Rightarrow> cstring \<times> int" where
  "mask_bits most s =
     (case strchr_cut (CHR ''/'') s of None \<Rightarrow> (s, most) | Some (a, b) \<Rightarrow> (a, if atol b > most then most else atol b))"

definition parse_netmask :: "cstring \<Rightarrow> hm \<times> (ip \<times> int) option" where
  "parse_netmask text =
     (if CHR ''*'' \<in> set text \<or> CHR ''?'' \<in> set text then (HM_HOST, None)
      else if CHR '':'' \<in> set text then
        (let (ip, b) = mask_bits 128 text
         in case rb_inet_pton_sock ip of None \<Rightarrow> (HM_HOST, None) | Some a \<Rightarrow> (HM_IPV6, Some (a, b)))
      else if CHR ''.'' \<in> set text then
        (let (ip, b) = mask_bits 32 text
         in case rb_inet_pton_sock ip of None \<Rightarrow> (HM_HOST, None) | Some a \<Rightarrow> (HM_IPV4, Some (a, b)))
      else (HM_HOST, None))"

section \<open>Trees with lists\<close>

record 'a cache =
  ca_tree :: "'a ptree"
  ca_list :: "nid list"

definition set_data :: "nid \<Rightarrow> 'a \<Rightarrow> 'a ptree \<Rightarrow> 'a ptree" where
  "set_data n d t = upd_node n (\<lambda>x. x\<lparr>pn_data := Some d\<rparr>) t"

definition full_bits :: "af \<Rightarrow> int" where
  "full_bits f = (if f = AF_INET6 then 128 else 32)"

text \<open>A new entry for one address, at one end of the list.\<close>

definition new_entry :: "bool \<Rightarrow> ip \<Rightarrow> 'a \<Rightarrow> 'a cache \<Rightarrow> 'a cache option" where
  "new_entry tail addr d c =
     (case make_and_lookup_ip (ca_tree c) (fst addr) (snd addr) (full_bits (fst addr)) of
        None \<Rightarrow> None
      | Some (n, t) \<Rightarrow>
          Some \<lparr>ca_tree = set_data n d t, ca_list = (if tail then ca_list c @ [n] else n # ca_list c)\<rparr>)"

text \<open>One entry is taken from the list and out of the tree.\<close>

definition drop_entry :: "nid \<Rightarrow> 'a cache \<Rightarrow> 'a cache" where
  "drop_entry n c = \<lparr>ca_tree = rb_patricia_remove (ca_tree c) n, ca_list = remove1 n (ca_list c)\<rparr>"

text \<open>The loops over the lists: entries for which \<open>old\<close> holds are taken out.\<close>

fun expire_loop :: "('a \<Rightarrow> bool) \<Rightarrow> nid list \<Rightarrow> 'a cache \<Rightarrow> 'a cache option" where
  "expire_loop old [] c = Some c"
| "expire_loop old (n # ns) c =
     (case pn_data (nd (ca_tree c) n) of
        None \<Rightarrow> None
      | Some d \<Rightarrow> if old d then expire_loop old ns (drop_entry n c) else expire_loop old ns c)"

section \<open>Rejected addresses\<close>

record reject_conf =
  reject_after_count :: nat
  reject_duration :: int

record reject_data =
  rd_time :: int
  rd_count :: "32 word"

definition reject_off :: "reject_conf \<Rightarrow> bool" where
  "reject_off cfg = (reject_after_count cfg = 0 \<or> reject_duration cfg = 0)"

definition add_reject :: "reject_conf \<Rightarrow> int \<Rightarrow> ip \<Rightarrow> reject_data cache \<Rightarrow> reject_data cache option" where
  "add_reject cfg now addr c =
     (if reject_off cfg then Some c
      else case rb_match_ip (ca_tree c) (fst addr) (snd addr) of
             None \<Rightarrow> None
           | Some (Some n) \<Rightarrow>
               map_option (\<lambda>d. c\<lparr>ca_tree := set_data n \<lparr>rd_time = now, rd_count = rd_count d + 1\<rparr> (ca_tree c)\<rparr>)
                 (pn_data (nd (ca_tree c) n))
           | Some None \<Rightarrow> new_entry True addr \<lparr>rd_time = now, rd_count = 1\<rparr> c)"

text \<open>Whether the connection is closed (with a delay).\<close>

definition check_reject :: "reject_conf \<Rightarrow> int \<Rightarrow> ip \<Rightarrow> reject_data cache \<Rightarrow> (bool \<times> reject_data cache) option" where
  "check_reject cfg now addr c =
     (if reject_off cfg then Some (False, c)
      else case rb_match_ip (ca_tree c) (fst addr) (snd addr) of
             None \<Rightarrow> None
           | Some None \<Rightarrow> Some (False, c)
           | Some (Some n) \<Rightarrow>
               map_option (\<lambda>d. (unat (rd_count d) > reject_after_count cfg, c\<lparr>ca_tree := set_data n (d\<lparr>rd_time := now\<rparr>) (ca_tree c)\<rparr>))
                 (pn_data (nd (ca_tree c) n)))"

definition reject_expires :: "reject_conf \<Rightarrow> int \<Rightarrow> reject_data cache \<Rightarrow> reject_data cache option" where
  "reject_expires cfg now c = expire_loop (\<lambda>d. rd_time d + reject_duration cfg \<le> now) (ca_list c) c"

definition flush_reject :: "reject_data cache \<Rightarrow> reject_data cache option" where
  "flush_reject c = expire_loop (\<lambda>_. True) (ca_list c) c"

definition remove_reject :: "reject_conf \<Rightarrow> cstring \<Rightarrow> reject_data cache \<Rightarrow> (int \<times> reject_data cache) option" where
  "remove_reject cfg ip c =
     (if reject_off cfg then Some (- 1, c)
      else case rb_match_string (ca_tree c) ip of
             None \<Rightarrow> None
           | Some None \<Rightarrow> Some (0, c)
           | Some (Some n) \<Rightarrow> if pn_data (nd (ca_tree c) n) = None then None else Some (1, drop_entry n c))"

section \<open>Throttles\<close>

record throttle_conf =
  throttle_count :: int
  throttle_duration :: int

record throttle_data =
  th_last :: int
  th_count :: int

definition throttle_add :: "throttle_conf \<Rightarrow> int \<Rightarrow> ip \<Rightarrow> throttle_data cache \<Rightarrow> (bool \<times> throttle_data cache) option" where
  "throttle_add cfg now addr c =
     (case rb_match_ip (ca_tree c) (fst addr) (snd addr) of
        None \<Rightarrow> None
      | Some (Some n) \<Rightarrow>
          map_option (\<lambda>d.
              if th_count d > throttle_count cfg
              then (True, c\<lparr>ca_tree := set_data n (d\<lparr>th_count := th_count d + 1\<rparr>) (ca_tree c)\<rparr>)
              else (False, c\<lparr>ca_tree := set_data n \<lparr>th_last = now, th_count = th_count d + 1\<rparr> (ca_tree c)\<rparr>))
            (pn_data (nd (ca_tree c) n))
      | Some None \<Rightarrow> map_option (\<lambda>c'. (False, c')) (new_entry False addr \<lparr>th_last = now, th_count = 1\<rparr> c))"

definition throttle_expires :: "throttle_conf \<Rightarrow> int \<Rightarrow> throttle_data cache \<Rightarrow> throttle_data cache option" where
  "throttle_expires cfg now c = expire_loop (\<lambda>d. th_last d + throttle_duration cfg \<le> now) (ca_list c) c"

section \<open>D-lines and exemptions\<close>

text \<open>A \<open>struct ConfItem\<close> is a number; \<open>il_pnode\<close> is its field \<open>pnode\<close>.\<close>

type_synonym conf = nat

record iplines =
  il_tree :: "conf ptree"
  il_pnode :: "conf \<Rightarrow> nid option"

definition add_ipline :: "conf \<Rightarrow> ip \<Rightarrow> int \<Rightarrow> iplines \<Rightarrow> iplines option" where
  "add_ipline aconf addr cidr l =
     (case make_and_lookup_ip (il_tree l) (fst addr) (snd addr) cidr of
        None \<Rightarrow> None
      | Some (n, t) \<Rightarrow> Some \<lparr>il_tree = set_data n aconf t, il_pnode = (il_pnode l)(aconf := Some n)\<rparr>)"

text \<open>\<open>add_dline\<close> and \<open>add_eline\<close>, which differ in the tree: whether the line was added.\<close>

definition add_line :: "conf \<Rightarrow> cstring \<Rightarrow> iplines \<Rightarrow> (bool \<times> iplines) option" where
  "add_line aconf host l =
     (case parse_netmask host of
        (HM_HOST, _) \<Rightarrow> Some (False, l)
      | (_, None) \<Rightarrow> Some (False, l)
      | (_, Some (addr, bitlen)) \<Rightarrow> map_option (\<lambda>l'. (True, l')) (add_ipline aconf addr bitlen l))"

definition delete_ipline :: "conf \<Rightarrow> iplines \<Rightarrow> iplines option" where
  "delete_ipline aconf l =
     (case il_pnode l aconf of
        None \<Rightarrow> None
      | Some n \<Rightarrow> if pt_nodes (il_tree l) n = None then None else Some (l\<lparr>il_tree := rb_patricia_remove (il_tree l) n\<rparr>))"

definition find_ipline :: "iplines \<Rightarrow> ip \<Rightarrow> conf option option" where
  "find_ipline l addr =
     (case rb_match_ip (il_tree l) (fst addr) (snd addr) of
        None \<Rightarrow> None
      | Some None \<Rightarrow> Some None
      | Some (Some n) \<Rightarrow> Some (pn_data (nd (il_tree l) n)))"

definition find_ipline_exact :: "iplines \<Rightarrow> ip \<Rightarrow> nat \<Rightarrow> conf option option" where
  "find_ipline_exact l addr bitlen =
     (case rb_match_ip_exact (il_tree l) (fst addr) (snd addr) bitlen of
        None \<Rightarrow> None
      | Some None \<Rightarrow> Some None
      | Some (Some n) \<Rightarrow> Some (pn_data (nd (il_tree l) n)))"

definition find_dline :: "iplines \<Rightarrow> iplines \<Rightarrow> ip \<Rightarrow> conf option option" where
  "find_dline elines dlines addr =
     (case find_ipline elines addr of
        None \<Rightarrow> None
      | Some (Some aconf) \<Rightarrow> Some (Some aconf)
      | Some None \<Rightarrow> find_ipline dlines addr)"

section \<open>Clients per network\<close>

definition get_global_count :: "int ptree \<Rightarrow> ip \<Rightarrow> int option" where
  "get_global_count t addr =
     (case rb_match_ip t (fst addr) (snd addr) of
        None \<Rightarrow> None
      | Some None \<Rightarrow> Some 0
      | Some (Some n) \<Rightarrow> pn_data (nd t n))"

definition inc_global_ip :: "ip \<Rightarrow> int \<Rightarrow> int ptree \<Rightarrow> (int \<times> int ptree) option" where
  "inc_global_ip addr bitlen t =
     (case rb_match_ip t (fst addr) (snd addr) of
        None \<Rightarrow> None
      | Some (Some n) \<Rightarrow> map_option (\<lambda>k. (k + 1, set_data n (k + 1) t)) (pn_data (nd t n))
      | Some None \<Rightarrow>
          case make_and_lookup_ip t (fst addr) (snd addr) bitlen of
            None \<Rightarrow> None
          | Some (n, t') \<Rightarrow> Some (1, set_data n 1 t'))"

definition dec_global_ip :: "ip \<Rightarrow> int ptree \<Rightarrow> int ptree option" where
  "dec_global_ip addr t =
     (case rb_match_ip t (fst addr) (snd addr) of
        None \<Rightarrow> None
      | Some None \<Rightarrow> Some t
      | Some (Some n) \<Rightarrow>
          map_option (\<lambda>k. if k - 1 = 0 then rb_patricia_remove t n else set_data n (k - 1) t) (pn_data (nd t n)))"

end
