(* ===== verification/RejectProps.thy ===== *)
theory RejectProps
  imports Reject
begin

unbundle bit_operations_syntax

text \<open>The caches, throttles and D-lines of \<open>src/reject.c\<close> on top of the radix tree.\<close>

section \<open>Trees that hold data\<close>

definition ip_ok :: "ip \<Rightarrow> bool" where
  "ip_ok a = (length (snd a) = addr_len (fst a))"

definition tree_ok :: "'a ptree \<Rightarrow> bool" where
  "tree_ok t = (pt_ok t \<and> pt_maxbits t = PATRICIA_BITS)"

lemma set_data_entries:
  assumes e: "entries t n = Some (p, d)" and ok: "tree_ok t"
  shows "tree_ok (set_data n v t)" "entries (set_data n v t) = (entries t)(n \<mapsto> (p, Some v))"
proof -
  obtain x where x: "pt_nodes t n = Some x" "pn_prefix x = Some p" using e by (auto simp: entries_Some)
  obtain K where k: "shape t K" using ok by (auto simp: tree_ok_def pt_ok_def)
  have "shape (set_data n v t) K" unfolding set_data_def by (rule upd_shape [OF k x(1)]) (use x shapeD(3) [OF k x(1)] in auto)
  moreover have "full (set_data n v t)" using ok x by (auto simp: tree_ok_def pt_ok_def full_def set_data_def upd_node_nodes split: if_splits)
  ultimately show "tree_ok (set_data n v t)" using ok by (auto simp: tree_ok_def pt_ok_def set_data_def)
  show "entries (set_data n v t) = (entries t)(n \<mapsto> (p, Some v))"
    using x by (auto simp: fun_eq_iff set_data_def upd_node_nodes entries_def)
qed

lemma nets_keep:
  assumes n: "entries t n = Some (p, d)" and t': "entries t' = (entries t)(n \<mapsto> (p, d'))"
  shows "nets t' = nets t"
proof -
  have "b \<in> nets t' \<longleftrightarrow> b \<in> nets t" for b
  proof
    assume "b \<in> nets t'"
    then obtain m q e where "entries t' m = Some (q, e)" "net_bits q = b" unfolding nets_mem by blast
    then show "b \<in> nets t" using n unfolding nets_mem t' by (cases "m = n") auto
  next
    assume "b \<in> nets t"
    then obtain m q e where "entries t m = Some (q, e)" "net_bits q = b" unfolding nets_mem by blast
    then show "b \<in> nets t'" using n unfolding nets_mem t' by (cases "m = n") (auto intro!: exI [of _ m])
  qed
  then show ?thesis by blast
qed

lemma ip_prefix_ok: "ip_ok a \<Longrightarrow> bits \<le> 128 \<Longrightarrow> prefix_ok 128 (New_Prefix (fst a) (snd a) bits)"
  by (cases "fst a") (auto simp: prefix_ok_def New_Prefix_def ip_ok_def addr_len_def)

lemma full_bits: "full_bits f = 8 * int (addr_len f)" "full_bits f \<le> 128"
  by (cases f, simp_all add: full_bits_def addr_len_def)+

definition whole :: "ip \<Rightarrow> rb_prefix" where
  "whole a = New_Prefix (fst a) (snd a) (full_bits (fst a))"

lemma match_ip_finds:
  assumes ok: "tree_ok t" and a: "ip_ok a"
  obtains "rb_match_ip t (fst a) (snd a) = Some None" "net_bits (whole a) \<notin> nets t"
  | n p d where "rb_match_ip t (fst a) (snd a) = Some (Some n)" "entries t n = Some (p, d)"
proof -
  have p: "prefix_ok (pt_maxbits t) (whole a)" using ip_prefix_ok [OF a full_bits(2)] ok by (simp add: whole_def tree_ok_def PATRICIA_BITS_def)
  have e: "rb_match_ip t (fst a) (snd a) = rb_patricia_search_best t (whole a)" by (simp add: rb_match_ip_def whole_def full_bits(1))
  have "pt_ok t" using ok by (simp add: tree_ok_def)
  then obtain r where r: "rb_patricia_search_best t (whole a) = Some r"
    "\<And>n. r = Some n \<Longrightarrow> \<exists>q d. entries t n = Some (q, d) \<and> (\<forall>i < pf_bitlen q. addr_bit (pf_add q) i = addr_bit (pf_add (whole a)) i)"
    "\<And>m q d. entries t m = Some (q, d) \<Longrightarrow> pf_bitlen q \<le> pf_bitlen (whole a) \<Longrightarrow>
       \<forall>i < pf_bitlen q. addr_bit (pf_add q) i = addr_bit (pf_add (whole a)) i \<Longrightarrow> \<exists>n. r = Some n \<and> pf_bitlen q \<le> pn_bit (nd t n)"
    using search_best_finds [OF _ p] by blast
  show thesis
  proof (cases r)
    case None
    have "net_bits (whole a) \<notin> nets t"
    proof
      assume "net_bits (whole a) \<in> nets t"
      then obtain m q d where m: "entries t m = Some (q, d)" "net_bits q = net_bits (whole a)" unfolding nets_mem by blast
      then have l: "pf_bitlen q = pf_bitlen (whole a)" by (metis net_bits_length)
      then show False using r(3) [OF m(1)] None m(2) same_net [OF l] by auto
    qed
    then show thesis using that(1) r(1) e None by simp
  next
    case (Some n)
    then show thesis using that(2) r(1,2) e by auto
  qed
qed

lemma insert_ip:
  assumes ok: "tree_ok t" and a: "ip_ok a" and bits: "bits \<le> 128"
  obtains n t' where "make_and_lookup_ip t (fst a) (snd a) bits = Some (n, t')" "tree_ok t'" "n \<in> dom (entries t')"
    "\<And>m. m \<noteq> n \<Longrightarrow> entries t' m = entries t m"
    "net_bits (New_Prefix (fst a) (snd a) bits) \<notin> nets t \<Longrightarrow> n \<notin> dom (entries t)"
    "net_bits (New_Prefix (fst a) (snd a) bits) \<notin> nets t \<Longrightarrow> entries t' n = Some (New_Prefix (fst a) (snd a) bits, None)"
proof -
  let ?p = "New_Prefix (fst a) (snd a) bits"
  have p: "prefix_ok (pt_maxbits t) ?p" and po: "pt_ok t" using ip_prefix_ok [OF a bits] ok by (simp_all add: tree_ok_def PATRICIA_BITS_def)
  obtain n t' where l: "rb_patricia_lookup t ?p = Some (n, t')"
    "(\<exists>q e. entries t n = Some (q, e) \<and> net_bits q = net_bits ?p) \<and> t' = t \<or> inserted ?p n t t'"
    by (rule lookup_ok [OF po p])
  have "tree_ok t' \<and> n \<in> dom (entries t') \<and> (\<forall>m. m \<noteq> n \<longrightarrow> entries t' m = entries t m) \<and>
      (net_bits ?p \<notin> nets t \<longrightarrow> n \<notin> dom (entries t) \<and> entries t' n = Some (?p, None))"
    using l(2)
  proof
    assume "(\<exists>q e. entries t n = Some (q, e) \<and> net_bits q = net_bits ?p) \<and> t' = t"
    then show ?thesis using ok by (auto simp: nets_mem)
  next
    assume i: "inserted ?p n t t'"
    then show ?thesis using inserted_ok [OF po i] ok by (auto simp: inserted_def tree_ok_def)
  qed
  then show thesis using that l(1) by (auto simp: make_and_lookup_ip_def)
qed

section \<open>Caches\<close>

text \<open>The list of a cache holds exactly the nodes of its networks, and each of them has data.\<close>

definition cache_ok :: "'a cache \<Rightarrow> bool" where
  "cache_ok c =
     (tree_ok (ca_tree c) \<and> distinct (ca_list c) \<and> set (ca_list c) = dom (entries (ca_tree c)) \<and>
      (\<forall>n p. entries (ca_tree c) n \<noteq> Some (p, None)))"

lemma cache_data:
  assumes "cache_ok c" "entries (ca_tree c) n = Some (p, d)"
  obtains v where "d = Some v" "pn_data (nd (ca_tree c) n) = Some v"
proof -
  obtain v where "d = Some v" using assms by (cases d) (auto simp: cache_ok_def)
  then show thesis using that assms(2) by (auto simp: entries_Some)
qed

lemma cache_set:
  assumes c: "cache_ok c" and e: "entries (ca_tree c) n = Some (p, d)"
  shows "cache_ok (c\<lparr>ca_tree := set_data n v (ca_tree c)\<rparr>)"
  using set_data_entries [OF e, of v] c e by (auto simp: cache_ok_def)

lemma cache_new:
  assumes c: "cache_ok c" and a: "ip_ok a" and new: "net_bits (whole a) \<notin> nets (ca_tree c)"
  obtains c' n where "new_entry tail a v c = Some c'" "cache_ok c'" "ca_list c' = (if tail then ca_list c @ [n] else n # ca_list c)"
    "entries (ca_tree c') n = Some (whole a, Some v)" "n \<notin> dom (entries (ca_tree c))"
    "\<And>m. m \<noteq> n \<Longrightarrow> entries (ca_tree c') m = entries (ca_tree c) m"
proof -
  have ok: "tree_ok (ca_tree c)" using c by (simp add: cache_ok_def)
  obtain n t' where t': "make_and_lookup_ip (ca_tree c) (fst a) (snd a) (full_bits (fst a)) = Some (n, t')" "tree_ok t'" "n \<in> dom (entries t')"
    "\<And>m. m \<noteq> n \<Longrightarrow> entries t' m = entries (ca_tree c) m" "n \<notin> dom (entries (ca_tree c))" and e: "entries t' n = Some (whole a, None)"
    using insert_ip [OF ok a full_bits(2)] new unfolding whole_def by metis
  note s = set_data_entries [OF e t'(2), of v]
  have d: "dom (entries (set_data n v t')) = insert n (dom (entries (ca_tree c)))"
    using s(2) t'(4) e by (auto simp: dom_def split: if_splits)
  let ?c = "\<lparr>ca_tree = set_data n v t', ca_list = (if tail then ca_list c @ [n] else n # ca_list c)\<rparr>"
  have "cache_ok ?c"
    using c s t'(4,5) d by (auto simp: cache_ok_def)
  then show thesis using that [of ?c n] t'(1,4,5) s(2) by (simp add: new_entry_def)
qed

lemma cache_drop:
  assumes c: "cache_ok c" and n: "n \<in> set (ca_list c)"
  shows "cache_ok (drop_entry n c)" "set (ca_list (drop_entry n c)) = set (ca_list c) - {n}"
proof -
  obtain p d where e: "entries (ca_tree c) n = Some (p, d)" using c n by (auto simp: cache_ok_def)
  have ok: "pt_ok (ca_tree c)" using c by (simp add: cache_ok_def tree_ok_def)
  note r = remove_ok [OF ok e]
  show l: "set (ca_list (drop_entry n c)) = set (ca_list c) - {n}" using c by (simp add: drop_entry_def cache_ok_def)
  show "cache_ok (drop_entry n c)"
    using c r removed_ok [OF ok r] l by (auto simp: cache_ok_def drop_entry_def removed_def tree_ok_def split: if_splits)
qed

lemma expire_loop_ok:
  "cache_ok c \<Longrightarrow> distinct ns \<Longrightarrow> set ns \<subseteq> set (ca_list c) \<Longrightarrow> \<exists>c'. expire_loop old ns c = Some c' \<and> cache_ok c'"
proof (induction ns arbitrary: c)
  case (Cons n ns)
  then obtain p d where e: "entries (ca_tree c) n = Some (p, d)" by (auto simp: cache_ok_def)
  obtain v where v: "pn_data (nd (ca_tree c) n) = Some v" using cache_data [OF Cons.prems(1) e] by blast
  show ?case
  proof (cases "old v")
    case True
    have "set ns \<subseteq> set (ca_list (drop_entry n c))" using Cons.prems(2,3) cache_drop(2) [OF Cons.prems(1)] by auto
    then show ?thesis using Cons v True cache_drop(1) [OF Cons.prems(1)] by simp
  qed (use Cons v in simp)
qed simp

section \<open>Properties\<close>

datatype reject_op = Add_reject ip | Check_reject ip | Expire | Flush | Unreject cstring

fun reject_step :: "reject_conf \<Rightarrow> int \<times> reject_op \<Rightarrow> reject_data cache \<Rightarrow> reject_data cache option" where
  "reject_step cfg (now, Add_reject a) c = add_reject cfg now a c"
| "reject_step cfg (now, Check_reject a) c = map_option snd (check_reject cfg now a c)"
| "reject_step cfg (now, Expire) c = reject_expires cfg now c"
| "reject_step cfg (now, Flush) c = flush_reject c"
| "reject_step cfg (now, Unreject s) c = map_option snd (remove_reject cfg s c)"

fun reject_run :: "reject_conf \<Rightarrow> (int \<times> reject_op) list \<Rightarrow> reject_data cache \<Rightarrow> reject_data cache option" where
  "reject_run cfg [] c = Some c"
| "reject_run cfg (x # xs) c = (case reject_step cfg x c of None \<Rightarrow> None | Some c' \<Rightarrow> reject_run cfg xs c')"

definition op_ok :: "reject_op \<Rightarrow> bool" where
  "op_ok x = (case x of Add_reject a \<Rightarrow> ip_ok a | Check_reject a \<Rightarrow> ip_ok a | _ \<Rightarrow> True)"

definition no_entries :: "'a cache" where
  "no_entries = \<lparr>ca_tree = rb_new_patricia PATRICIA_BITS, ca_list = []\<rparr>"

lemma entries_new: "entries (rb_new_patricia m) = Map.empty"
  by (simp add: entries_def rb_new_patricia_def fun_eq_iff)

lemma no_entries_ok: "cache_ok no_entries"
proof -
  have "pt_ok (rb_new_patricia PATRICIA_BITS)" by (rule new_patricia_ok) (simp add: RB_PATRICIA_MAXBITS_def PATRICIA_BITS_def)
  then show ?thesis by (simp add: cache_ok_def no_entries_def tree_ok_def new_patricia_width entries_new)
qed

lemma add_reject_ok:
  assumes c: "cache_ok c" and a: "ip_ok a"
  obtains c' where "add_reject cfg now a c = Some c'" "cache_ok c'"
proof (cases "reject_off cfg")
  case True
  then show thesis using that c by (simp add: add_reject_def)
next
  case False
  have ok: "tree_ok (ca_tree c)" using c by (simp add: cache_ok_def)
  from ok a show thesis
  proof (cases rule: match_ip_finds)
    case 1
    obtain c' where "new_entry True a \<lparr>rd_time = now, rd_count = 1\<rparr> c = Some c'" "cache_ok c'" using cache_new [OF c a 1(2)] by metis
    then show thesis using that 1 False by (simp add: add_reject_def)
  next
    case (2 n p d)
    obtain v where "pn_data (nd (ca_tree c) n) = Some v" using cache_data [OF c 2(2)] by blast
    then show thesis using that 2(1) False cache_set [OF c 2(2)] by (simp add: add_reject_def)
  qed
qed

lemma check_reject_ok:
  assumes c: "cache_ok c" and a: "ip_ok a"
  obtains r c' where "check_reject cfg now a c = Some (r, c')" "cache_ok c'"
proof (cases "reject_off cfg")
  case True
  then show thesis using that [of False c] c by (simp add: check_reject_def)
next
  case False
  have ok: "tree_ok (ca_tree c)" using c by (simp add: cache_ok_def)
  from ok a show thesis
  proof (cases rule: match_ip_finds)
    case 1
    then show thesis using that [of False c] c False by (simp add: check_reject_def)
  next
    case (2 n p d)
    obtain v where "pn_data (nd (ca_tree c) n) = Some v" using cache_data [OF c 2(2)] by blast
    then show thesis using that 2(1) False cache_set [OF c 2(2)] by (simp add: check_reject_def)
  qed
qed

lemma string_prefix_ok: "string_prefix s = Some p \<Longrightarrow> prefix_ok 128 p"
proof -
  have *: "prefix_ok 128 p" if pf: "ascii2prefix f s = Some p" for f
  proof -
    let ?m = "8 * int (addr_len f)"
    obtain a l where al: "(case strchr_cut (CHR ''/'') s of None \<Rightarrow> (s, ?m)
        | Some (a, b) \<Rightarrow> (a, if atol b \<le> 0 \<or> atol b > ?m then ?m else atol b)) = (a, l)" by fastforce
    then have le: "l \<le> ?m" by (auto split: option.splits prod.splits if_splits)
    obtain b where b: "rb_inet_pton f a = Some b" "l \<le> ?m" "p = New_Prefix f b l"
      using pf le unfolding ascii2prefix_def Let_def al by (auto split: option.splits)
    have "l \<le> 128" using b(2) by (cases f) (auto simp: addr_len_def)
    then show ?thesis using ip_prefix_ok [of "(f, b)" l] rb_inet_pton_length [OF b(1)] b(3) by (simp add: ip_ok_def)
  qed
  assume "string_prefix s = Some p"
  then show ?thesis using * by (auto simp: string_prefix_def split: option.splits)
qed

lemma remove_reject_ok:
  assumes c: "cache_ok c"
  obtains r c' where "remove_reject cfg s c = Some (r, c')" "cache_ok c'"
proof (cases "reject_off cfg \<or> string_prefix s = None")
  case True
  then have "remove_reject cfg s c = Some (if reject_off cfg then - 1 else 0, c)" by (auto simp: remove_reject_def rb_match_string_def)
  then show thesis using that c by blast
next
  case False
  then obtain p where p: "string_prefix s = Some p" by auto
  have ok: "pt_ok (ca_tree c)" "prefix_ok (pt_maxbits (ca_tree c)) p"
    using c string_prefix_ok [OF p] by (simp_all add: cache_ok_def tree_ok_def PATRICIA_BITS_def)
  obtain r where r: "rb_patricia_search_best (ca_tree c) p = Some r" "\<And>n. r = Some n \<Longrightarrow> \<exists>q d. entries (ca_tree c) n = Some (q, d)"
    using search_best_finds [OF ok] by metis
  show thesis
  proof (cases r)
    case None
    then show thesis using that [of 0 c] c False p r(1) by (simp add: remove_reject_def rb_match_string_def)
  next
    case (Some n)
    then obtain q d where e: "entries (ca_tree c) n = Some (q, d)" using r(2) by blast
    then have "n \<in> set (ca_list c)" using c by (auto simp: cache_ok_def)
    moreover obtain v where "pn_data (nd (ca_tree c) n) = Some v" using cache_data [OF c e] by blast
    ultimately show thesis using that [of 1 "drop_entry n c"] cache_drop(1) [OF c] False p r(1) Some by (simp add: remove_reject_def rb_match_string_def)
  qed
qed

lemma reject_step_ok:
  assumes "cache_ok c" "op_ok (snd x)"
  shows "\<exists>c'. reject_step cfg x c = Some c' \<and> cache_ok c'"
proof -
  have l: "distinct (ca_list c)" using assms(1) by (simp add: cache_ok_def)
  obtain now y where x: "x = (now, y)" by fastforce
  show ?thesis
  proof (cases y)
    case (Add_reject a)
    then show ?thesis using add_reject_ok [OF assms(1), of a cfg now] assms(2) x by (auto simp: op_ok_def)
  next
    case (Check_reject a)
    then obtain r c' where "check_reject cfg now a c = Some (r, c')" "cache_ok c'"
      using check_reject_ok [OF assms(1), of a cfg now] assms(2) x by (auto simp: op_ok_def)
    then show ?thesis using Check_reject x by simp
  next
    case (Unreject s)
    obtain r c' where "remove_reject cfg s c = Some (r, c')" "cache_ok c'" using remove_reject_ok [OF assms(1)] by blast
    then show ?thesis using Unreject x by simp
  qed (use expire_loop_ok [OF assms(1) l subset_refl] x in \<open>auto simp: reject_expires_def flush_reject_def\<close>)
qed

text \<open>
  C23. Whatever connections, checks, expiries and removals come in whatever order, the operations on the cache
  of rejected addresses always return and never read through a null pointer, and the list that is used to expire
  entries holds exactly the entries of the tree.
\<close>

theorem reject_cache_inv:
  assumes "\<forall>x \<in> set xs. op_ok (snd x)"
  shows "\<exists>c. reject_run cfg xs no_entries = Some c \<and> cache_ok c"
proof -
  have "cache_ok c0 \<Longrightarrow> \<forall>x \<in> set xs. op_ok (snd x) \<Longrightarrow> \<exists>c. reject_run cfg xs c0 = Some c \<and> cache_ok c" for c0
  proof (induction xs arbitrary: c0)
    case (Cons x xs)
    then obtain c1 where "reject_step cfg x c0 = Some c1" "cache_ok c1" using reject_step_ok [of c0 x cfg] by auto
    then show ?case using Cons by simp
  qed simp
  then show ?thesis using no_entries_ok assms by blast
qed

theorem reject_cache_inv_witness:
  "\<exists>c. reject_run \<lparr>reject_after_count = 3, reject_duration = 300\<rparr>
     [(0, Add_reject (AF_INET, [10, 0, 0, 1])), (5, Check_reject (AF_INET, [10, 0, 0, 1])), (400, Expire)] no_entries = Some c \<and> cache_ok c"
  by (rule reject_cache_inv) (simp add: op_ok_def ip_ok_def addr_len_def)

section \<open>Throttling\<close>

lemma addr_bits_eq:
  assumes "length a = length b" "\<forall>i < 8 * length a. addr_bit a i = addr_bit b i"
  shows "a = b"
proof -
  have "comp_with_mask a b (8 * length a)" using assms by (subst comp_with_mask_bits_aux) auto
  then show ?thesis using assms(1) by (simp add: comp_with_mask_def split: if_splits)
qed

lemma whole_sel: "ip_ok a \<Longrightarrow> pf_bitlen (whole a) = 8 * addr_len (fst a)" "ip_ok a \<Longrightarrow> pf_add (whole a) = snd a @ replicate (16 - addr_len (fst a)) 0"
  by (cases "fst a", auto simp: whole_def New_Prefix_def full_bits ip_ok_def addr_len_def)+

lemma whole_inj:
  assumes a: "ip_ok a" and b: "ip_ok b" and f: "fst a = fst b" and eq: "\<forall>i < pf_bitlen (whole a). addr_bit (pf_add (whole b)) i = addr_bit (pf_add (whole a)) i"
  shows "a = b"
proof -
  have l: "length (snd a) = length (snd b)" "length (snd a) = addr_len (fst a)" using a b f by (simp_all add: ip_ok_def)
  have "addr_bit (snd x @ r) i = addr_bit (snd x) i" if "i < 8 * length (snd x)" for x :: ip and r i
    using that by (simp add: addr_bit_def nth_append div_less_iff_less_mult mult.commute)
  then have "snd b = snd a" using eq l f whole_sel [OF a] whole_sel [OF b] by (intro addr_bits_eq) auto
  then show ?thesis using f by (simp add: prod_eq_iff)
qed

fun throttle_run :: "throttle_conf \<Rightarrow> (int \<times> ip) list \<Rightarrow> throttle_data cache \<Rightarrow> (bool list \<times> throttle_data cache) option" where
  "throttle_run cfg [] c = Some ([], c)"
| "throttle_run cfg ((now, a) # es) c =
     (case throttle_add cfg now a c of
        None \<Rightarrow> None
      | Some (r, c') \<Rightarrow> map_option (\<lambda>(rs, c''). (r # rs, c'')) (throttle_run cfg es c'))"

text \<open>The reference: an address is refused once it has connected more than \<open>most\<close> times before.\<close>

fun throttle_spec :: "int \<Rightarrow> ip list \<Rightarrow> ip list \<Rightarrow> bool list" where
  "throttle_spec most before [] = []"
| "throttle_spec most before (a # as) = (int (count_list before a) > most) # throttle_spec most (a # before) as"

definition counted :: "af \<Rightarrow> ip list \<Rightarrow> throttle_data cache \<Rightarrow> bool" where
  "counted f before c =
     (cache_ok c \<and>
      (\<forall>n p d. entries (ca_tree c) n = Some (p, d) \<longrightarrow>
         (\<exists>a v. ip_ok a \<and> fst a = f \<and> p = whole a \<and> d = Some v \<and> th_count v = int (count_list before a) \<and> a \<in> set before)) \<and>
      (\<forall>a \<in> set before. ip_ok a \<and> fst a = f \<and> net_bits (whole a) \<in> nets (ca_tree c)))"

lemma counted_match:
  assumes c: "counted f before c" and a: "ip_ok a" "fst a = f"
  obtains "a \<notin> set before" "rb_match_ip (ca_tree c) (fst a) (snd a) = Some None" "net_bits (whole a) \<notin> nets (ca_tree c)"
  | n v where "a \<in> set before" "rb_match_ip (ca_tree c) (fst a) (snd a) = Some (Some n)" "entries (ca_tree c) n = Some (whole a, Some v)"
      "th_count v = int (count_list before a)" "pn_data (nd (ca_tree c) n) = Some v"
proof -
  have ok: "tree_ok (ca_tree c)" using c by (simp add: counted_def cache_ok_def)
  have p: "prefix_ok (pt_maxbits (ca_tree c)) (whole a)" "pt_ok (ca_tree c)"
    using ip_prefix_ok [OF a(1) full_bits(2)] ok by (simp_all add: whole_def tree_ok_def PATRICIA_BITS_def)
  have e: "rb_match_ip (ca_tree c) (fst a) (snd a) = rb_patricia_search_best (ca_tree c) (whole a)" by (simp add: rb_match_ip_def whole_def full_bits(1))
  obtain r where r: "rb_patricia_search_best (ca_tree c) (whole a) = Some r"
    "\<And>n. r = Some n \<Longrightarrow> \<exists>q d. entries (ca_tree c) n = Some (q, d) \<and> (\<forall>i < pf_bitlen q. addr_bit (pf_add q) i = addr_bit (pf_add (whole a)) i)"
    using search_best_finds [OF p(2,1)] by metis
  from ok a(1) show thesis
  proof (cases rule: match_ip_finds)
    case 1
    then show thesis using that(1) c by (auto simp: counted_def)
  next
    case (2 n q d)
    then obtain b v where b: "ip_ok b" "fst b = f" "q = whole b" "d = Some v" "th_count v = int (count_list before b)" "b \<in> set before"
      using c unfolding counted_def by blast
    have "\<forall>i < pf_bitlen (whole b). addr_bit (pf_add (whole a)) i = addr_bit (pf_add (whole b)) i" using r(2) [of n] r(1) 2 b(3) e by auto
    then have "b = a" using whole_inj [OF b(1) a(1)] a(2) b(2) by simp
    moreover have "pn_data (nd (ca_tree c) n) = Some v" using 2(2) b(4) by (auto simp: entries_Some)
    ultimately show thesis using that(2) 2 b by blast
  qed
qed

lemma counted_hit:
  assumes c: "counted f before c" and a: "ip_ok a" "fst a = f" "a \<in> set before" and n: "entries (ca_tree c) n = Some (whole a, Some v)"
    and v: "th_count v' = int (count_list before a) + 1"
  shows "counted f (a # before) (c\<lparr>ca_tree := set_data n v' (ca_tree c)\<rparr>)"
proof -
  have ok: "cache_ok c" "tree_ok (ca_tree c)" using c by (simp_all add: counted_def cache_ok_def)
  note s = set_data_entries [OF n ok(2), of v']
  obtain K where k: "shape (ca_tree c) K" using ok(2) by (auto simp: tree_ok_def pt_ok_def)
  have "\<exists>b w. ip_ok b \<and> fst b = f \<and> p = whole b \<and> d = Some w \<and> th_count w = int (count_list (a # before) b) \<and> b \<in> set (a # before)"
    if m: "entries (set_data n v' (ca_tree c)) m = Some (p, d)" for m p d
  proof (cases "m = n")
    case True
    then show ?thesis using m s(2) a v by (intro exI [of _ a] exI [of _ v']) auto
  next
    case False
    then have m': "entries (ca_tree c) m = Some (p, d)" using m s(2) by simp
    then obtain b w where b: "ip_ok b" "fst b = f" "p = whole b" "d = Some w" "th_count w = int (count_list before b)" "b \<in> set before"
      using c unfolding counted_def by blast
    have "b \<noteq> a" using entries_unique [OF k m' n] b(3) False by auto
    then show ?thesis using b by (intro exI [of _ b] exI [of _ w]) auto
  qed
  moreover have "nets (set_data n v' (ca_tree c)) = nets (ca_tree c)"
    by (rule nets_keep [OF n s(2)])
  ultimately show ?thesis using c a cache_set [OF ok(1) n] by (auto simp: counted_def)
qed

lemma counted_miss:
  assumes c: "counted f before c" and a: "ip_ok a" "fst a = f" "a \<notin> set before" "net_bits (whole a) \<notin> nets (ca_tree c)" and v: "th_count v = 1"
  obtains c' where "new_entry tail a v c = Some c'" "counted f (a # before) c'"
proof -
  have ok: "cache_ok c" using c by (simp add: counted_def)
  obtain c' n where c': "new_entry tail a v c = Some c'" "cache_ok c'" "entries (ca_tree c') n = Some (whole a, Some v)"
    "n \<notin> dom (entries (ca_tree c))" "\<And>m. m \<noteq> n \<Longrightarrow> entries (ca_tree c') m = entries (ca_tree c) m"
    using cache_new [OF ok a(1,4)] by metis
  have "\<exists>b w. ip_ok b \<and> fst b = f \<and> p = whole b \<and> d = Some w \<and> th_count w = int (count_list (a # before) b) \<and> b \<in> set (a # before)"
    if m: "entries (ca_tree c') m = Some (p, d)" for m p d
  proof (cases "m = n")
    case True
    then show ?thesis using m c'(3) a v by (intro exI [of _ a] exI [of _ v]) auto
  next
    case False
    then obtain b w where b: "ip_ok b" "fst b = f" "p = whole b" "d = Some w" "th_count w = int (count_list before b)" "b \<in> set before"
      using c c'(5) m unfolding counted_def by metis
    then have "b \<noteq> a" using a(3) by auto
    then show ?thesis using b by (intro exI [of _ b] exI [of _ w]) auto
  qed
  moreover have "net_bits (whole b) \<in> nets (ca_tree c')" if b: "b \<in> set (a # before)" for b
  proof (cases "b = a")
    case True
    then show ?thesis using c'(3) unfolding nets_mem by blast
  next
    case False
    then have "net_bits (whole b) \<in> nets (ca_tree c)" using c b by (auto simp: counted_def)
    then obtain m q d where m: "entries (ca_tree c) m = Some (q, d)" "net_bits q = net_bits (whole b)" unfolding nets_mem by blast
    then have "m \<noteq> n" using c'(4) by auto
    then show ?thesis using m c'(5) unfolding nets_mem by metis
  qed
  ultimately show thesis using that c' c a by (auto simp: counted_def)
qed

lemma throttle_counts:
  assumes most: "0 \<le> throttle_count cfg"
  shows "counted f before c \<Longrightarrow> \<forall>(now, a) \<in> set es. ip_ok a \<and> fst a = f \<Longrightarrow>
    \<exists>c'. throttle_run cfg es c = Some (throttle_spec (throttle_count cfg) before (map snd es), c')"
proof (induction es arbitrary: c before)
  case (Cons e es)
  obtain now a where e: "e = (now, a)" by (rule prod.exhaust)
  have a: "ip_ok a" "fst a = f" using Cons.prems(2) e by auto
  obtain c1 where c1: "throttle_add cfg now a c = Some (int (count_list before a) > throttle_count cfg, c1)" "counted f (a # before) c1"
    using Cons.prems(1) a
  proof (cases rule: counted_match)
    case 1
    obtain c1 where "new_entry False a \<lparr>th_last = now, th_count = 1\<rparr> c = Some c1" "counted f (a # before) c1"
      using counted_miss [OF Cons.prems(1) a 1(1,3), of "\<lparr>th_last = now, th_count = 1\<rparr>"] by auto
    then show thesis using that 1 most by (simp add: throttle_add_def)
  next
    case (2 n v)
    then show thesis
      using that 2 counted_hit [OF Cons.prems(1) a 2(1,3)] by (cases "th_count v > throttle_count cfg") (simp_all add: throttle_add_def)
  qed
  have "\<forall>(now, a) \<in> set es. ip_ok a \<and> fst a = f" using Cons.prems(2) by auto
  from Cons.IH [OF c1(2) this] show ?case using c1(1) e by auto
qed simp



end
