(* ===== verification/DlineProps.thy ===== *)
theory DlineProps
  imports RejectProps
begin

unbundle bit_operations_syntax

text \<open>D-lines and exemptions.\<close>

definition lines_ok :: "iplines \<Rightarrow> bool" where
  "lines_ok l = (tree_ok (il_tree l) \<and> (\<forall>n p. entries (il_tree l) n \<noteq> Some (p, None)))"

text \<open>A network contains an address: the address begins with its bits.\<close>

definition contains :: "bool list \<Rightarrow> ip \<Rightarrow> bool" where
  "contains b a = (take (length b) (net_bits (whole a)) = b)"

definition line_for :: "iplines \<Rightarrow> ip \<Rightarrow> conf \<Rightarrow> bool" where
  "line_for l a aconf =
     (\<exists>n p. entries (il_tree l) n = Some (p, Some aconf) \<and> (\<forall>i < pf_bitlen p. addr_bit (pf_add p) i = addr_bit (pf_add (whole a)) i) \<and>
        (\<forall>b \<in> nets (il_tree l). contains b a \<longrightarrow> length b \<le> pf_bitlen p))"

lemma contains_entry:
  assumes "entries t m = Some (q, d)" "contains (net_bits q) a"
  shows "pf_bitlen q \<le> pf_bitlen (whole a)" "\<forall>i < pf_bitlen q. addr_bit (pf_add q) i = addr_bit (pf_add (whole a)) i"
proof -
  have t: "take (pf_bitlen q) (net_bits (whole a)) = net_bits q" using assms(2) by (simp add: contains_def)
  then show l: "pf_bitlen q \<le> pf_bitlen (whole a)" by (metis length_take min.cobounded1 net_bits_length)
  show "\<forall>i < pf_bitlen q. addr_bit (pf_add q) i = addr_bit (pf_add (whole a)) i"
  proof (intro allI impI)
    fix i assume "i < pf_bitlen q"
    then show "addr_bit (pf_add q) i = addr_bit (pf_add (whole a)) i"
      using arg_cong [OF t, of "\<lambda>b. b ! i"] l by simp
  qed
qed

lemma find_ipline_finds:
  assumes l: "lines_ok l" and a: "ip_ok a"
  obtains "find_ipline l a = Some None" "\<forall>b \<in> nets (il_tree l). \<not> contains b a"
  | aconf where "find_ipline l a = Some (Some aconf)" "line_for l a aconf"
proof -
  let ?t = "il_tree l"
  have ok: "pt_ok ?t" "prefix_ok (pt_maxbits ?t) (whole a)"
    using l ip_prefix_ok [OF a full_bits(2)] by (simp_all add: lines_ok_def tree_ok_def whole_def PATRICIA_BITS_def)
  obtain K where k: "shape ?t K" using ok(1) by (auto simp: pt_ok_def)
  have e: "rb_match_ip ?t (fst a) (snd a) = rb_patricia_search_best ?t (whole a)" by (simp add: rb_match_ip_def whole_def full_bits(1))
  obtain r where r: "rb_patricia_search_best ?t (whole a) = Some r"
    "\<And>n. r = Some n \<Longrightarrow> \<exists>q d. entries ?t n = Some (q, d) \<and> (\<forall>i < pf_bitlen q. addr_bit (pf_add q) i = addr_bit (pf_add (whole a)) i)"
    "\<And>m q d. entries ?t m = Some (q, d) \<Longrightarrow> pf_bitlen q \<le> pf_bitlen (whole a) \<Longrightarrow>
       \<forall>i < pf_bitlen q. addr_bit (pf_add q) i = addr_bit (pf_add (whole a)) i \<Longrightarrow> \<exists>n. r = Some n \<and> pf_bitlen q \<le> pn_bit (nd ?t n)"
    using search_best_finds [OF ok] by blast
  have longest: "\<exists>n. r = Some n \<and> length b \<le> pn_bit (nd ?t n)" if b: "b \<in> nets ?t" "contains b a" for b
  proof -
    obtain m q d where m: "entries ?t m = Some (q, d)" "net_bits q = b" using b(1) unfolding nets_mem by blast
    then show ?thesis using r(3) [OF m(1)] contains_entry [OF m(1), of a] b(2) by auto
  qed
  show thesis
  proof (cases r)
    case None
    then show thesis using that(1) longest r(1) e by (auto simp: find_ipline_def)
  next
    case (Some n)
    then obtain q d where q: "entries ?t n = Some (q, d)" "\<forall>i < pf_bitlen q. addr_bit (pf_add q) i = addr_bit (pf_add (whole a)) i" using r(2) by blast
    then obtain aconf where d: "d = Some aconf" using l by (cases d) (auto simp: lines_ok_def)
    have nd: "pn_data (nd ?t n) = Some aconf" using q(1) d by (auto simp: entries_Some)
    have "pn_bit (nd ?t n) = pf_bitlen q" using entries_key [OF k q(1)] by simp
    then have "\<forall>b \<in> nets ?t. contains b a \<longrightarrow> length b \<le> pf_bitlen q" using longest Some by auto
    then have "line_for l a aconf" using q d unfolding line_for_def by blast
    then show thesis using that(2) r(1) e Some nd by (simp add: find_ipline_def)
  qed
qed

text \<open>
  C25. \<open>find_dline\<close> returns an exemption if one contains the address, and only otherwise a D-line; among several it returns
  the most specific; it returns nothing only if no exemption and no D-line contains the address.
\<close>

theorem dline_lookup:
  assumes "lines_ok elines" "lines_ok dlines" "ip_ok a"
  shows "\<exists>r. find_dline elines dlines a = Some r \<and>
    (case r of
       None \<Rightarrow> \<forall>b \<in> nets (il_tree elines) \<union> nets (il_tree dlines). \<not> contains b a
     | Some aconf \<Rightarrow> line_for elines a aconf \<or> (\<forall>b \<in> nets (il_tree elines). \<not> contains b a) \<and> line_for dlines a aconf)"
  using assms(1,3)
proof (cases rule: find_ipline_finds)
  case 1
  from assms(2,3) show ?thesis
    by (cases rule: find_ipline_finds) (use 1 in \<open>auto simp: find_dline_def\<close>)
next
  case (2 aconf)
  then show ?thesis by (simp add: find_dline_def)
qed

definition no_lines :: iplines where
  "no_lines = \<lparr>il_tree = rb_new_patricia PATRICIA_BITS, il_pnode = (\<lambda>_. None)\<rparr>"

lemma no_lines_ok: "lines_ok no_lines"
  using no_entries_ok [where 'a = conf] by (simp add: cache_ok_def no_entries_def lines_ok_def no_lines_def)

lemma add_ipline_adds:
  assumes l: "lines_ok l" and a: "ip_ok a" and bits: "bits \<le> 128"
  obtains l' n where "add_ipline aconf a bits l = Some l'" "lines_ok l'" "il_pnode l' = (il_pnode l)(aconf := Some n)"
    "\<exists>p. entries (il_tree l') n = Some (p, Some aconf) \<and> net_bits p = net_bits (New_Prefix (fst a) (snd a) bits)"
    "\<forall>m. m \<noteq> n \<longrightarrow> entries (il_tree l') m = entries (il_tree l) m"
proof -
  let ?p = "New_Prefix (fst a) (snd a) bits"
  have ok: "pt_ok (il_tree l)" "prefix_ok (pt_maxbits (il_tree l)) ?p"
    using l ip_prefix_ok [OF a bits] by (simp_all add: lines_ok_def tree_ok_def PATRICIA_BITS_def)
  obtain n t where t: "rb_patricia_lookup (il_tree l) ?p = Some (n, t)"
    "(\<exists>q e. entries (il_tree l) n = Some (q, e) \<and> net_bits q = net_bits ?p) \<and> t = il_tree l \<or> inserted ?p n (il_tree l) t"
    by (rule lookup_ok [OF ok])
  have "tree_ok t \<and> (\<exists>q e. entries t n = Some (q, e) \<and> net_bits q = net_bits ?p) \<and> (\<forall>m. m \<noteq> n \<longrightarrow> entries t m = entries (il_tree l) m)"
    using t(2) l inserted_ok [OF ok(1)] by (auto simp: lines_ok_def tree_ok_def inserted_def)
  then obtain q e where q: "tree_ok t" "entries t n = Some (q, e)" "net_bits q = net_bits ?p" "\<forall>m. m \<noteq> n \<longrightarrow> entries t m = entries (il_tree l) m"
    by blast
  note s = set_data_entries [OF q(2,1), of aconf]
  let ?l = "\<lparr>il_tree = set_data n aconf t, il_pnode = (il_pnode l)(aconf := Some n)\<rparr>"
  have "lines_ok ?l" using l s q(4) by (auto simp: lines_ok_def)
  moreover have "add_ipline aconf a bits l = Some ?l" using t(1) by (simp add: add_ipline_def make_and_lookup_ip_def)
  ultimately show thesis using that [of ?l n] s(2) q by auto
qed

theorem dline_lookup_witness:
  "\<exists>l aconf. add_ipline 7 (AF_INET, [10, 0, 0, 0]) 8 no_lines = Some l \<and> find_dline no_lines l (AF_INET, [10, 1, 2, 3]) = Some (Some aconf)"
proof -
  obtain l n where l: "add_ipline 7 (AF_INET, [10, 0, 0, 0]) 8 no_lines = Some l" "lines_ok l"
    "\<exists>p. entries (il_tree l) n = Some (p, Some 7) \<and> net_bits p = net_bits (New_Prefix AF_INET [10, 0, 0, 0] 8)"
    by (rule add_ipline_adds [OF no_lines_ok, of "(AF_INET, [10, 0, 0, 0])" 8 7]) (auto simp: ip_ok_def addr_len_def)
  have "net_bits (New_Prefix AF_INET [10, 0, 0, 0] 8) \<in> nets (il_tree l)" using l(3) unfolding nets_mem by metis
  moreover have "contains (net_bits (New_Prefix AF_INET [10, 0, 0, 0] 8)) (AF_INET, [10, 1, 2, 3])"
    by (simp add: contains_def net_bits_def whole_def full_bits_def New_Prefix_def addr_bit_def addr_len_def upt_rec)
  ultimately show ?thesis
    using dline_lookup [OF no_lines_ok l(2), of "(AF_INET, [10, 1, 2, 3])"] l(1) by (auto simp: ip_ok_def addr_len_def split: option.splits)
qed

text \<open>
  C36. Two lines for the same network (a temporary D-line and one that a rehash reads from the configuration) share a node, and the
  removal of the first removes the network: afterwards no D-line holds there although the second was never removed.
\<close>

theorem dline_duplicate_lost:
  assumes l: "lines_ok l" and a: "ip_ok a" and bits: "bits \<le> 128" and ne: "temp \<noteq> perm"
  shows "\<exists>l1 l2 l3 n. add_ipline temp a bits l = Some l1 \<and> add_ipline perm a bits l1 = Some l2 \<and> delete_ipline temp l2 = Some l3 \<and>
    il_pnode l3 perm = Some n \<and> entries (il_tree l2) n \<noteq> None \<and> entries (il_tree l3) n = None \<and>
    net_bits (New_Prefix (fst a) (snd a) bits) \<notin> nets (il_tree l3)"
proof -
  let ?b = "net_bits (New_Prefix (fst a) (snd a) bits)"
  obtain l1 n where l1: "add_ipline temp a bits l = Some l1" "lines_ok l1" "il_pnode l1 = (il_pnode l)(temp := Some n)"
    "\<exists>p. entries (il_tree l1) n = Some (p, Some temp) \<and> net_bits p = ?b"
    by (rule add_ipline_adds [OF l a bits, of temp]) blast
  obtain l2 m where l2: "add_ipline perm a bits l1 = Some l2" "lines_ok l2" "il_pnode l2 = (il_pnode l1)(perm := Some m)"
    "\<exists>p. entries (il_tree l2) m = Some (p, Some perm) \<and> net_bits p = ?b"
    "\<forall>i. i \<noteq> m \<longrightarrow> entries (il_tree l2) i = entries (il_tree l1) i"
    by (rule add_ipline_adds [OF l1(2) a bits, of perm]) blast
  obtain p where p: "entries (il_tree l2) m = Some (p, Some perm)" "net_bits p = ?b" using l2(4) by blast
  have ok: "pt_ok (il_tree l2)" using l2(2) by (simp add: lines_ok_def tree_ok_def)
  obtain K where k: "shape (il_tree l2) K" using ok by (auto simp: pt_ok_def)
  have "n = m"
  proof (rule ccontr)
    assume "n \<noteq> m"
    then obtain q where q: "entries (il_tree l2) n = Some (q, Some temp)" "net_bits q = ?b" using l1(4) l2(5) by metis
    then show False using entries_unique [OF k q(1) p(1)] p(2) \<open>n \<noteq> m\<close> by simp
  qed
  then have pn: "il_pnode l2 temp = Some m" "il_pnode l2 perm = Some m" using l1(3) l2(3) ne by simp_all
  have nd: "pt_nodes (il_tree l2) m \<noteq> None" using p(1) by (auto simp: entries_Some)
  let ?l3 = "l2\<lparr>il_tree := rb_patricia_remove (il_tree l2) m\<rparr>"
  have d: "delete_ipline temp l2 = Some ?l3" using pn nd by (auto simp: delete_ipline_def)
  have r: "entries (il_tree ?l3) = (entries (il_tree l2))(m := None)" using remove_ok [OF ok p(1)] by (simp add: removed_def)
  have "?b \<notin> nets (il_tree ?l3)" using nets_del [OF k p(1) r] p(2) by simp
  then show ?thesis using l1(1) l2(1) d pn p(1) r by (intro exI [of _ l1] exI [of _ l2] exI [of _ ?l3] exI [of _ m]) auto
qed

theorem dline_duplicate_lost_witness:
  "\<exists>l1 l2 l3. add_ipline 7 (AF_INET, [10, 0, 0, 0]) 8 no_lines = Some l1 \<and> add_ipline 8 (AF_INET, [10, 0, 0, 0]) 8 l1 = Some l2 \<and>
    delete_ipline 7 l2 = Some l3 \<and> net_bits (New_Prefix AF_INET [10, 0, 0, 0] 8) \<notin> nets (il_tree l3)"
  using dline_duplicate_lost [OF no_lines_ok, of "(AF_INET, [10, 0, 0, 0])" 8 7 8] by (auto simp: ip_ok_def addr_len_def)

end
