(* ===== verification/Hostmask.thy ===== *)
theory Hostmask
  imports Reject "HOL-Library.Signed_Division"
begin

unbundle bit_operations_syntax

text \<open>
  The table of \<open>src/hostmask.c\<close> in which the daemon looks for the auth block, the K-line and the G-line of a client. A record is
  in a bucket chosen by the part of its mask that every matching client must have: whole bytes of a network, or the end of a host
  name. \<open>find_auth\<close> and \<open>find_conf_by_address\<close> visit the buckets in which records for the client can be.
\<close>

section \<open>Records\<close>

definition CONF_ILLEGAL :: "32 word" where "CONF_ILLEGAL = 0x80000000"
definition CONF_SKIPUSER :: "32 word" where "CONF_SKIPUSER = 0x0001"
definition CONF_CLIENT :: "32 word" where "CONF_CLIENT = 0x0002"
definition CONF_KILL :: "32 word" where "CONF_KILL = 0x0040"
definition CONF_GLINE :: "32 word" where "CONF_GLINE = 0x10000"
definition CONF_EXEMPTDLINE :: "32 word" where "CONF_EXEMPTDLINE = 0x100000"

definition CONF_FLAGS_EXEMPTKLINE :: "32 word" where "CONF_FLAGS_EXEMPTKLINE = 0x00000004"
definition CONF_FLAGS_SPOOF_IP :: "32 word" where "CONF_FLAGS_SPOOF_IP = 0x00000010"
definition CONF_FLAGS_EXEMPTGLINE :: "32 word" where "CONF_FLAGS_EXEMPTGLINE = 0x00000080"
definition CONF_FLAGS_TEMPORARY :: "32 word" where "CONF_FLAGS_TEMPORARY = 0x00010000"

definition ATABLE_SIZE :: "32 word" where "ATABLE_SIZE = push_bit 12 1"

record conf_item =
  cf_status :: "32 word"
  cf_flags :: "32 word"
  cf_clients :: int
  cf_name :: cstring

datatype addr_mask = Ipa ip int | Hostname cstring

record address_rec =
  ar_masktype :: hm
  ar_mask :: addr_mask
  ar_type :: "32 word"
  ar_precedence :: "32 word"
  ar_username :: "cstring option"
  ar_aconf :: conf

record address_table =
  at_bucket :: "32 word \<Rightarrow> address_rec list"
  at_prec_value :: "32 word"
  at_confs :: "conf \<Rightarrow> conf_item option"

definition IsConfExemptKline :: "conf_item \<Rightarrow> bool" where "IsConfExemptKline c = (cf_flags c AND CONF_FLAGS_EXEMPTKLINE \<noteq> 0)"
definition IsConfDoSpoofIp :: "conf_item \<Rightarrow> bool" where "IsConfDoSpoofIp c = (cf_flags c AND CONF_FLAGS_SPOOF_IP \<noteq> 0)"
definition IsConfExemptGline :: "conf_item \<Rightarrow> bool" where "IsConfExemptGline c = (cf_flags c AND CONF_FLAGS_EXEMPTGLINE \<noteq> 0)"

definition init_host_hash :: "address_table \<Rightarrow> address_table" where
  "init_host_hash t = t\<lparr>at_bucket := (\<lambda>_. [])\<rparr>"

section \<open>Addresses\<close>

text \<open>
  An address read as \<open>struct sockaddr_in\<close> or as \<open>struct sockaddr_in6\<close>. Of an address of the other family these are the bytes of
  \<open>sin6_flowinfo\<close>, or those behind \<open>sin_addr\<close>; the storage is zeroed when it is made.
\<close>

definition sin_addr :: "ip \<Rightarrow> byte list" where
  "sin_addr a = (if fst a = AF_INET then snd a else replicate 4 0)"

definition sin6_addr :: "ip \<Rightarrow> byte list" where
  "sin6_addr a = (if fst a = AF_INET6 then snd a else replicate 16 0)"

definition comp_with_mask_sock :: "ip \<Rightarrow> ip \<Rightarrow> int \<Rightarrow> bool" where
  "comp_with_mask_sock addr dest bits =
     (case fst addr of
        AF_INET \<Rightarrow> comp_with_mask (sin_addr addr) (sin_addr dest) (unat (word_of_int bits :: 32 word))
      | AF_INET6 \<Rightarrow> comp_with_mask (sin6_addr addr) (sin6_addr dest) (unat (word_of_int bits :: 32 word)))"

definition ipv4_from_ipv6 :: "ip \<Rightarrow> ip option" where
  "ipv4_from_ipv6 ip6 =
     (let a = sin6_addr ip6
      in if take 2 a = [0x20, 0x02] then Some (AF_INET, take 4 (drop 2 a))
         else if take 4 a = [0x20, 0x01, 0x00, 0x00] then Some (AF_INET, map (\<lambda>b. 0xFF XOR b) (take 4 (drop 12 a)))
         else None)"

section \<open>Hashing\<close>

definition ntohl :: "byte list \<Rightarrow> 32 word" where
  "ntohl a = push_bit 24 (ucast (a ! 0)) OR push_bit 16 (ucast (a ! 1)) OR push_bit 8 (ucast (a ! 2)) OR ucast (a ! 3)"

definition hash_ipv4 :: "ip \<Rightarrow> int \<Rightarrow> 32 word" where
  "hash_ipv4 saddr bits =
     (if bits \<noteq> 0 then
        (let av = ntohl (sin_addr saddr) AND NOT (push_bit (nat (32 - bits)) 1 - 1)
         in (av XOR drop_bit 12 av XOR drop_bit 24 av) AND (ATABLE_SIZE - 1))
      else 0)"

fun ipv6_loop :: "byte list \<Rightarrow> int \<Rightarrow> 32 word \<Rightarrow> 32 word" where
  "ipv6_loop [] bits v = v AND (ATABLE_SIZE - 1)"
| "ipv6_loop (b # bs) bits v =
     (if bits \<ge> 8 then ipv6_loop bs (bits - 8) (v XOR ucast b)
      else if bits \<noteq> 0 then (v XOR (ucast b AND NOT (push_bit (nat (8 - bits)) 1 - 1))) AND (ATABLE_SIZE - 1)
      else v AND (ATABLE_SIZE - 1))"

definition hash_ipv6 :: "ip \<Rightarrow> int \<Rightarrow> 32 word" where
  "hash_ipv6 saddr bits = ipv6_loop (sin6_addr saddr) bits 0"

fun text_loop :: "cstring \<Rightarrow> 32 word \<Rightarrow> 32 word" where
  "text_loop [] h = h"
| "text_loop (c # cs) h = text_loop cs (push_bit 4 h - (h + of_nat (of_char (ToLower c))))"

definition hash_text :: "cstring \<Rightarrow> 32 word" where
  "hash_text start = text_loop start 0 AND (ATABLE_SIZE - 1)"

text \<open>
  The loop of \<open>get_mask_hash\<close> goes backwards: its first argument is what is before \<open>p\<close>, last character first, its second what is
  behind. It returns \<open>hp\<close> at a wildcard, and nothing if there is none.
\<close>

fun mask_scan :: "cstring \<Rightarrow> cstring \<Rightarrow> cstring \<Rightarrow> cstring option" where
  "mask_scan [] seen hp = None"
| "mask_scan (c # cs) seen hp =
     (if c = CHR ''*'' \<or> c = CHR ''?'' then Some hp
      else if c = CHR ''.'' then mask_scan cs (c # seen) seen
      else mask_scan cs (c # seen) hp)"

definition get_mask_hash :: "cstring \<Rightarrow> 32 word" where
  "get_mask_hash text =
     (case mask_scan (rev text) [] [] of Some hp \<Rightarrow> hash_text hp | None \<Rightarrow> hash_text text)"

section \<open>Lookups\<close>

definition conf_type :: "address_rec \<Rightarrow> 32 word" where
  "conf_type arec = ar_type arec AND NOT CONF_SKIPUSER"

definition user_ok :: "address_rec \<Rightarrow> cstring \<Rightarrow> bool" where
  "user_ok arec username =
     (ar_type arec AND CONF_SKIPUSER \<noteq> 0 \<or> (case ar_username arec of None \<Rightarrow> False | Some u \<Rightarrow> match u username))"

definition ip_test :: "hm \<Rightarrow> 32 word \<Rightarrow> ip \<Rightarrow> cstring \<Rightarrow> address_rec \<Rightarrow> bool" where
  "ip_test masktype type addr username arec =
     (conf_type arec = type \<and> ar_masktype arec = masktype \<and>
      (case ar_mask arec of Ipa a bits \<Rightarrow> comp_with_mask_sock addr a bits | Hostname _ \<Rightarrow> False) \<and> user_ok arec username)"

definition host_test :: "32 word \<Rightarrow> (cstring \<Rightarrow> bool) \<Rightarrow> cstring \<Rightarrow> address_rec \<Rightarrow> bool" where
  "host_test type hit username arec =
     (conf_type arec = type \<and> ar_masktype arec = HM_HOST \<and>
      (case ar_mask arec of Ipa _ _ \<Rightarrow> False | Hostname h \<Rightarrow> hit h) \<and> user_ok arec username)"

text \<open>The name and what is behind each of its dots.\<close>

function dot_tails :: "cstring \<Rightarrow> cstring list" where
  "dot_tails p = p # (case strchr_cut (CHR ''.'') p of None \<Rightarrow> [] | Some (_, q) \<Rightarrow> dot_tails q)"
  by pat_completeness auto
termination
  by (relation "measure length") (auto dest: strchr_cut_SomeD)

definition host_hit :: "cstring \<Rightarrow> cstring option \<Rightarrow> cstring \<Rightarrow> bool" where
  "host_hit name sockhost h = (match h name \<or> (case sockhost of None \<Rightarrow> False | Some s \<Rightarrow> match h s))"

definition str_or_empty :: "cstring option \<Rightarrow> cstring" where
  "str_or_empty username = (case username of None \<Rightarrow> [] | Some u \<Rightarrow> u)"

fun auth_scan :: "(address_rec \<Rightarrow> bool) \<Rightarrow> address_rec list \<Rightarrow> 32 word \<times> conf option \<Rightarrow> 32 word \<times> conf option" where
  "auth_scan test [] (hprecv, hprec) = (hprecv, hprec)"
| "auth_scan test (arec # rest) (hprecv, hprec) =
     auth_scan test rest
       (if test arec \<and> ar_precedence arec > hprecv then (ar_precedence arec, Some (ar_aconf arec)) else (hprecv, hprec))"

definition find_auth :: "address_table \<Rightarrow> cstring option \<Rightarrow> cstring option \<Rightarrow> ip option \<Rightarrow> af \<Rightarrow> cstring option \<Rightarrow> conf option" where
  "find_auth t name sockhost addr fam username =
     (let user = str_or_empty username;
          by_addr =
            (case addr of
               None \<Rightarrow> (0, None)
             | Some a \<Rightarrow>
                 if fam = AF_INET6 then
                   fold (\<lambda>b. auth_scan (ip_test HM_IPV6 CONF_CLIENT a user) (at_bucket t (hash_ipv6 a b)))
                     [128, 112, 96, 80, 64, 48, 32, 16, 0] (0, None)
                 else
                   fold (\<lambda>b. auth_scan (ip_test HM_IPV4 CONF_CLIENT a user) (at_bucket t (hash_ipv4 a b)))
                     [32, 24, 16, 8, 0] (0, None))
      in snd (case name of
                None \<Rightarrow> by_addr
              | Some n \<Rightarrow>
                  auth_scan (host_test CONF_CLIENT (host_hit n sockhost) user) (at_bucket t 0)
                    (fold (\<lambda>p. auth_scan (host_test CONF_CLIENT (\<lambda>h. match h n) user) (at_bucket t (hash_text p)))
                       (dot_tails n) by_addr)))"

definition find_by_ip :: "address_table \<Rightarrow> ip option \<Rightarrow> 32 word \<Rightarrow> af \<Rightarrow> cstring \<Rightarrow> address_rec option" where
  "find_by_ip t addr type fam user =
     (case addr of
        None \<Rightarrow> None
      | Some a \<Rightarrow>
          if fam = AF_INET6 then
            find (ip_test HM_IPV6 type a user) (concat (map (\<lambda>b. at_bucket t (hash_ipv6 a b)) [128, 112, 96, 80, 64, 48, 32, 16, 0]))
          else
            find (ip_test HM_IPV4 type a user) (concat (map (\<lambda>b. at_bucket t (hash_ipv4 a b)) [32, 24, 16, 8, 0])))"

definition find_by_name :: "address_table \<Rightarrow> cstring \<Rightarrow> cstring option \<Rightarrow> 32 word \<Rightarrow> cstring \<Rightarrow> address_rec option" where
  "find_by_name t name sockhost type user =
     (case find (host_test type (\<lambda>h. match h name) user) (concat (map (\<lambda>p. at_bucket t (hash_text p)) (dot_tails name))) of
        Some arec \<Rightarrow> Some arec
      | None \<Rightarrow> find (host_test type (host_hit name sockhost) user) (at_bucket t 0))"

definition find_conf_by_address ::
  "address_table \<Rightarrow> cstring option \<Rightarrow> cstring option \<Rightarrow> ip option \<Rightarrow> 32 word \<Rightarrow> af \<Rightarrow> cstring option \<Rightarrow> conf option" where
  "find_conf_by_address t name sockhost addr type fam username =
     (let user = str_or_empty username
      in map_option ar_aconf
           (case find_by_ip t addr type fam user of
              Some arec \<Rightarrow> Some arec
            | None \<Rightarrow> (case name of None \<Rightarrow> None | Some n \<Rightarrow> find_by_name t n sockhost type user)))"

text \<open>
  \<open>GET_SS_FAMILY(&ip)\<close> reads the bytes of the pointer and not of the address it points to: what it finds is \<open>ptr_family\<close>. The
  address that \<open>ipv4_from_ipv6\<close> does not set is \<open>stack_in\<close>.
\<close>

record address_conf =
  co_glines :: bool
  co_ipv6_tun_remap :: bool

definition conf_of :: "address_table \<Rightarrow> conf \<Rightarrow> conf_item" where
  "conf_of t a = (case at_confs t a of Some c \<Rightarrow> c | None \<Rightarrow> \<lparr>cf_status = 0, cf_flags = 0, cf_clients = 0, cf_name = []\<rparr>)"

definition spoof_kline :: "address_table \<Rightarrow> cstring \<Rightarrow> ip option \<Rightarrow> af \<Rightarrow> cstring option \<Rightarrow> conf option" where
  "spoof_kline t spoof ip aftype user =
     (case strchr_cut (CHR ''@'') spoof of
        Some (u, h) \<Rightarrow> find_conf_by_address t (Some h) None ip CONF_KILL aftype (Some u)
      | None \<Rightarrow> find_conf_by_address t (Some spoof) None ip CONF_KILL aftype user)"

definition tunnelled :: "address_conf \<Rightarrow> bool \<Rightarrow> ip \<Rightarrow> address_table \<Rightarrow> cstring option \<Rightarrow> ip option \<Rightarrow> conf_item \<Rightarrow> conf \<Rightarrow> conf" where
  "tunnelled cfg ptr_family stack_in t user ip i iconf =
     (case ip of
        Some a \<Rightarrow>
          if co_ipv6_tun_remap cfg \<and> ptr_family then
            (let ip4 = (case ipv4_from_ipv6 a of Some ip4 \<Rightarrow> ip4 | None \<Rightarrow> stack_in)
             in case find_conf_by_address t None None (Some ip4) CONF_KILL AF_INET user of
                  Some kconf \<Rightarrow> if \<not> IsConfExemptKline i then kconf else iconf
                | None \<Rightarrow> iconf)
          else iconf
      | None \<Rightarrow> iconf)"

definition find_address_conf ::
  "address_conf \<Rightarrow> bool \<Rightarrow> ip \<Rightarrow> address_table \<Rightarrow> cstring option \<Rightarrow> cstring option \<Rightarrow> cstring option \<Rightarrow> ip option \<Rightarrow> af \<Rightarrow> conf option" where
  "find_address_conf cfg ptr_family stack_in t host sockhost user ip aftype =
     (case find_auth t host sockhost ip aftype user of
        None \<Rightarrow> None
      | Some iconf \<Rightarrow>
          let i = conf_of t iconf in
          if IsConfExemptKline i then Some iconf else
          case find_conf_by_address t host sockhost ip CONF_KILL aftype user of
            Some kconf \<Rightarrow> Some kconf
          | None \<Rightarrow>
          case (if IsConfDoSpoofIp i then spoof_kline t (cf_name i) ip aftype user else None) of
            Some kconf \<Rightarrow> Some kconf
          | None \<Rightarrow>
          case (if co_glines cfg then find_conf_by_address t host sockhost ip CONF_GLINE aftype user else None) of
            Some kconf \<Rightarrow> if \<not> IsConfExemptGline i then Some kconf else
              Some (tunnelled cfg ptr_family stack_in t user ip i iconf)
          | None \<Rightarrow> Some (tunnelled cfg ptr_family stack_in t user ip i iconf))"

section \<open>Changes\<close>

definition mask_bucket :: "cstring \<Rightarrow> hm \<times> (ip \<times> int) option \<Rightarrow> 32 word" where
  "mask_bucket address m =
     (case m of
        (HM_IPV6, Some (a, bits)) \<Rightarrow> hash_ipv6 a (bits - bits smod 16)
      | (HM_IPV4, Some (a, bits)) \<Rightarrow> hash_ipv4 a (bits - bits smod 8)
      | _ \<Rightarrow> get_mask_hash address)"

definition address_mask :: "cstring \<Rightarrow> hm \<times> (ip \<times> int) option \<Rightarrow> addr_mask" where
  "address_mask address m =
     (case m of
        (HM_IPV6, Some (a, bits)) \<Rightarrow> Ipa a bits
      | (HM_IPV4, Some (a, bits)) \<Rightarrow> Ipa a bits
      | _ \<Rightarrow> Hostname address)"

definition any_user :: "cstring option \<Rightarrow> bool" where
  "any_user username = (username = None \<or> username = Some [] \<or> username = Some ''*'')"

definition new_rec :: "cstring \<Rightarrow> 32 word \<Rightarrow> cstring option \<Rightarrow> conf \<Rightarrow> 32 word \<Rightarrow> address_rec" where
  "new_rec address type username aconf prec =
     \<lparr>ar_masktype = fst (parse_netmask address), ar_mask = address_mask address (parse_netmask address),
      ar_type = (if any_user username then type OR CONF_SKIPUSER else type),
      ar_precedence = (if type = CONF_CLIENT then prec else 0), ar_username = username, ar_aconf = aconf\<rparr>"

definition add_conf_by_address :: "cstring option \<Rightarrow> 32 word \<Rightarrow> cstring option \<Rightarrow> conf \<Rightarrow> address_table \<Rightarrow> address_table" where
  "add_conf_by_address address type username aconf t =
     (let a = (case address of None \<Rightarrow> ''/NOMATCH!/'' | Some a \<Rightarrow> a);
          hv = mask_bucket a (parse_netmask a);
          arec = new_rec a type username aconf (at_prec_value t)
      in t\<lparr>at_bucket := (at_bucket t)(hv := arec # at_bucket t hv),
           at_prec_value := (if type = CONF_CLIENT then at_prec_value t - 1 else at_prec_value t)\<rparr>)"

text \<open>A conf that is taken out is freed when no client uses it.\<close>

definition drop_conf :: "conf \<Rightarrow> (conf \<Rightarrow> conf_item option) \<Rightarrow> conf \<Rightarrow> conf_item option" where
  "drop_conf a cs =
     (case cs a of
        None \<Rightarrow> cs
      | Some c \<Rightarrow> if cf_clients c = 0 then cs(a := None) else cs(a \<mapsto> c\<lparr>cf_status := cf_status c OR CONF_ILLEGAL\<rparr>))"

fun unlink_rec :: "conf \<Rightarrow> address_rec list \<Rightarrow> address_rec list option" where
  "unlink_rec aconf [] = None"
| "unlink_rec aconf (arec # rest) =
     (if ar_aconf arec = aconf then Some rest else map_option ((#) arec) (unlink_rec aconf rest))"

definition delete_one_address_conf :: "cstring \<Rightarrow> conf \<Rightarrow> address_table \<Rightarrow> address_table" where
  "delete_one_address_conf address aconf t =
     (let hv = mask_bucket address (parse_netmask address)
      in case unlink_rec aconf (at_bucket t hv) of
           None \<Rightarrow> t
         | Some b \<Rightarrow> t\<lparr>at_bucket := (at_bucket t)(hv := b), at_confs := drop_conf aconf (at_confs t)\<rparr>)"

fun clear_bucket :: "((conf \<Rightarrow> conf_item option) \<Rightarrow> address_rec \<Rightarrow> bool) \<Rightarrow> address_rec list \<Rightarrow> (conf \<Rightarrow> conf_item option) \<Rightarrow>
    address_rec list \<times> (conf \<Rightarrow> conf_item option)" where
  "clear_bucket keep [] cs = ([], cs)"
| "clear_bucket keep (arec # rest) cs =
     (if keep cs arec then (let (b, cs') = clear_bucket keep rest cs in (arec # b, cs'))
      else clear_bucket keep rest (drop_conf (ar_aconf arec) cs))"

definition clear_buckets :: "((conf \<Rightarrow> conf_item option) \<Rightarrow> address_rec \<Rightarrow> bool) \<Rightarrow> address_table \<Rightarrow> address_table" where
  "clear_buckets keep t =
     fold (\<lambda>i t. let (b, cs) = clear_bucket keep (at_bucket t i) (at_confs t)
                 in t\<lparr>at_bucket := (at_bucket t)(i := b), at_confs := cs\<rparr>)
       (map of_nat [0..<unat ATABLE_SIZE]) t"

definition is_temporary :: "(conf \<Rightarrow> conf_item option) \<Rightarrow> address_rec \<Rightarrow> bool" where
  "is_temporary cs arec = (case cs (ar_aconf arec) of None \<Rightarrow> False | Some c \<Rightarrow> cf_flags c AND CONF_FLAGS_TEMPORARY \<noteq> 0)"

definition clear_out_address_conf :: "address_table \<Rightarrow> address_table" where
  "clear_out_address_conf =
     clear_buckets (\<lambda>cs arec. is_temporary cs arec \<or> (conf_type arec \<noteq> CONF_CLIENT \<and> conf_type arec \<noteq> CONF_EXEMPTDLINE))"

definition clear_out_address_conf_bans :: "address_table \<Rightarrow> address_table" where
  "clear_out_address_conf_bans =
     clear_buckets (\<lambda>cs arec. is_temporary cs arec \<or> (conf_type arec = CONF_CLIENT \<or> conf_type arec = CONF_EXEMPTDLINE))"

end
