(* ===== verification/HostmaskProps.thy ===== *)
theory HostmaskProps
  imports Hostmask RejectProps
begin

unbundle bit_operations_syntax

text \<open>
  The lookups of \<open>Hostmask\<close> against a search through all records: a record that applies to a client is always in one of the
  buckets that are visited.
\<close>

declare dot_tails.simps [simp del]

section \<open>Networks\<close>

lemma ipv6_loop_take:
  "length xs = length ys \<Longrightarrow> take k xs = take k ys \<Longrightarrow> ipv6_loop xs (8 * int k) v = ipv6_loop ys (8 * int k) v"
proof (induction xs ys arbitrary: k v rule: list_induct2)
  case (Cons x xs y ys)
  show ?case
  proof (cases k)
    case (Suc j)
    then have "8 * int k - 8 = 8 * int j" "8 * int k \<ge> 8" by simp_all
    then show ?thesis using Cons Suc by simp
  qed simp
qed simp

lemma bit_byte: "bit (ucast (x :: byte) :: 32 word) n \<longleftrightarrow> n < 8 \<and> bit x n"
  using bit_imp_le_length [of x n] by (auto simp: bit_ucast_iff)

lemma ntohl_high:
  assumes "length a = 4" "length d = 4" "k \<le> 4" "take k a = take k d"
  shows "ntohl a AND NOT (push_bit (8 * (4 - k)) 1 - 1) = ntohl d AND NOT (push_bit (8 * (4 - k)) 1 - 1)"
proof (rule bit_word_eqI)
  fix i assume i: "i < LENGTH(32)"
  have same: "a ! j = d ! j" if "j < k" for j using assms(4) that by (metis nth_take)
  have m: "push_bit n 1 - 1 = (mask n :: 32 word)" for n by (simp add: mask_eq_decr_exp push_bit_eq_mult)
  consider "k = 0" | "k = 1" | "k = 2" | "k = 3" | "k = 4" using assms(3) by linarith
  then have "bit (ntohl a) i = bit (ntohl d) i" if "8 * (4 - k) \<le> i"
    using that by cases (auto simp: ntohl_def bit_or_iff bit_push_bit_iff bit_byte same)
  then show "bit (ntohl a AND NOT (push_bit (8 * (4 - k)) 1 - 1)) i = bit (ntohl d AND NOT (push_bit (8 * (4 - k)) 1 - 1)) i"
    unfolding m by (auto simp: bit_and_iff bit_not_iff bit_mask_iff)
qed

lemma hash_ipv4_take:
  assumes "length (sin_addr a) = 4" "length (sin_addr d) = 4" "k \<le> 4" "take k (sin_addr a) = take k (sin_addr d)"
  shows "hash_ipv4 a (8 * int k) = hash_ipv4 d (8 * int k)"
proof -
  have "nat (32 - 8 * int k) = 8 * (4 - k)" using assms(3) by linarith
  then show ?thesis using ntohl_high [OF assms] by (simp add: hash_ipv4_def)
qed

lemma hash_ipv6_take:
  assumes "length (sin6_addr a) = 16" "length (sin6_addr d) = 16" "take k (sin6_addr a) = take k (sin6_addr d)"
  shows "hash_ipv6 a (8 * int k) = hash_ipv6 d (8 * int k)"
  unfolding hash_ipv6_def by (rule ipv6_loop_take) (use assms in simp_all)

lemma sin_length: "ip_ok a \<Longrightarrow> length (sin_addr a) = 4" "ip_ok a \<Longrightarrow> length (sin6_addr a) = 16"
  by (auto simp: sin_addr_def sin6_addr_def ip_ok_def addr_len_def)

lemma comp_take:
  assumes "comp_with_mask a d n" "8 * k \<le> n"
  shows "take k a = take k d"
proof -
  have "take (n div 8) a = take (n div 8) d" using assms(1) by (simp add: comp_with_mask_def split: if_splits)
  moreover have "k \<le> n div 8" using assms(2) by linarith
  ultimately show ?thesis by (metis min.absorb1 take_take)
qed

lemma unat_bits: "0 \<le> bits \<Longrightarrow> bits \<le> 128 \<Longrightarrow> unat (word_of_int bits :: 32 word) = nat bits"
  by (simp add: unat_eq_nat_uint uint_word_of_int)

text \<open>The whole bytes of a network, in steps of \<open>step\<close> bytes.\<close>

lemma whole_bytes:
  assumes "0 \<le> (bits :: int)" "m = 8 * step" "0 < step"
  obtains k where "bits - bits smod int m = 8 * int k" "8 * k \<le> nat bits" "step dvd k"
proof
  let ?k = "step * (nat bits div m)"
  have "bits smod int m = bits mod int m" using assms by (cases "bits = 0") (simp_all add: signed_modulo_int_def sgn_if)
  then have "bits - bits smod int m = int m * (bits div int m)" by (simp add: minus_mod_eq_mult_div)
  also have "bits div int m = int (nat bits div m)" using assms(1) by (simp add: zdiv_int)
  finally show "bits - bits smod int m = 8 * int ?k" using assms(2) by simp
  show "8 * ?k \<le> nat bits" using assms(2) by (metis mult.assoc times_div_less_eq_dividend)
qed simp

lemma visited_ipv6:
  assumes "ip_ok x" "ip_ok a" "fst x = AF_INET6" "0 \<le> bits" "bits \<le> 128" "comp_with_mask_sock x a bits"
  shows "\<exists>b \<in> {128, 112, 96, 80, 64, 48, 32, 16, 0}. hash_ipv6 x b = hash_ipv6 a (bits - bits smod 16)"
proof -
  obtain k where k: "bits - bits smod 16 = 8 * int k" "8 * k \<le> nat bits" "2 dvd k"
    using whole_bytes [of bits 16 2] assms(4) by auto
  have "take k (sin6_addr x) = take k (sin6_addr a)"
    using assms k(2) by (intro comp_take [of _ _ "nat bits"]) (simp_all add: comp_with_mask_sock_def unat_bits)
  then have h: "hash_ipv6 x (8 * int k) = hash_ipv6 a (8 * int k)" using assms(1,2) by (intro hash_ipv6_take sin_length(2)) auto
  obtain j where "k = 2 * j" using k(3) by auto
  moreover have "k \<le> 16" using k(2) assms(5) by linarith
  ultimately have "j \<in> {0, 1, 2, 3, 4, 5, 6, 7, 8}" "8 * int k = 16 * int j" by auto
  then have "8 * int k \<in> {128, 112, 96, 80, 64, 48, 32, 16, 0}" by auto
  then show ?thesis using h k(1) by metis
qed

lemma visited_ipv4:
  assumes "ip_ok x" "ip_ok a" "fst x = AF_INET" "0 \<le> bits" "bits \<le> 32" "comp_with_mask_sock x a bits"
  shows "\<exists>b \<in> {32, 24, 16, 8, 0}. hash_ipv4 x b = hash_ipv4 a (bits - bits smod 8)"
proof -
  obtain k where k: "bits - bits smod 8 = 8 * int k" "8 * k \<le> nat bits"
    using whole_bytes [of bits 8 1] assms(4) by auto
  have k4: "k \<le> 4" using k(2) assms(5) by linarith
  have "take k (sin_addr x) = take k (sin_addr a)"
    using assms k(2) by (intro comp_take [of _ _ "nat bits"]) (simp_all add: comp_with_mask_sock_def unat_bits)
  then have h: "hash_ipv4 x (8 * int k) = hash_ipv4 a (8 * int k)" using assms(1,2) k4 by (intro hash_ipv4_take sin_length(1)) auto
  have "k \<in> {0, 1, 2, 3, 4}" using k4 by auto
  then have "8 * int k \<in> {32, 24, 16, 8, 0}" by auto
  then show ?thesis using h k(1) by metis
qed

section \<open>Host names\<close>

lemma dot_tails_self [simp]: "p \<in> set (dot_tails p)"
  by (subst dot_tails.simps) simp

lemma dot_tails_behind: "q \<in> set (dot_tails (a @ CHR ''.'' # q))"
proof (induction "length a" arbitrary: a rule: less_induct)
  case less
  show ?case
  proof (cases "CHR ''.'' \<in> set a")
    case True
    then obtain b c where "a = b @ CHR ''.'' # c" "CHR ''.'' \<notin> set b" by (meson split_list_first)
    moreover from this have "q \<in> set (dot_tails (c @ CHR ''.'' # q))" using less [of c] by simp
    ultimately show ?thesis by (subst dot_tails.simps) (simp add: strchr_cut_append)
  next
    case False
    then show ?thesis by (subst dot_tails.simps) (simp add: strchr_cut_append)
  qed
qed

lemma text_loop_cong: "list_all2 (\<lambda>c d. ToLower c = ToLower d) s t \<Longrightarrow> text_loop s h = text_loop t h"
  by (induction s t arbitrary: h rule: list_all2_induct) simp_all

lemma hash_text_Nil [simp]: "hash_text [] = 0"
  by (simp add: hash_text_def)

definition is_wild :: "char \<Rightarrow> bool" where "is_wild c = (c = CHR ''*'' \<or> c = CHR ''?'')"

text \<open>What \<open>mask_scan\<close> finds behind the last wildcard: nothing, or what is behind the first dot there.\<close>

lemma mask_scan_inv:
  "mask_scan r seen hp = Some x \<Longrightarrow> (\<forall>c \<in> set seen. \<not> is_wild c) \<Longrightarrow> hp = [] \<or> (\<exists>l. seen = l @ CHR ''.'' # hp) \<Longrightarrow>
   \<exists>a w lit. rev r @ seen = a @ w # lit \<and> is_wild w \<and> (\<forall>c \<in> set lit. \<not> is_wild c) \<and> (x = [] \<or> (\<exists>l. lit = l @ CHR ''.'' # x))"
proof (induction r arbitrary: seen hp)
  case (Cons c cs)
  show ?case
  proof (cases "is_wild c")
    case True
    then have "x = hp" using Cons.prems(1) unfolding is_wild_def by (metis mask_scan.simps(2) option.inject)
    then show ?thesis using True Cons.prems(2,3) by (intro exI [of _ "rev cs"] exI [of _ c] exI [of _ seen]) simp
  next
    case False
    then have "mask_scan cs (c # seen) (if c = CHR ''.'' then seen else hp) = Some x"
      using Cons.prems(1) unfolding is_wild_def by (cases "c = CHR ''.''") simp_all
    moreover have "\<forall>c \<in> set (c # seen). \<not> is_wild c" using Cons.prems(2) False by simp
    moreover have "(if c = CHR ''.'' then seen else hp) = [] \<or> (\<exists>l. c # seen = l @ CHR ''.'' # (if c = CHR ''.'' then seen else hp))"
    proof (cases "c = CHR ''.''")
      case False
      then have e: "(if c = CHR ''.'' then seen else hp) = hp" by simp
      show ?thesis unfolding e
      proof (cases "hp = []")
        case False
        then obtain l where "seen = l @ CHR ''.'' # hp" using Cons.prems(3) by blast
        then have "c # seen = (c # l) @ CHR ''.'' # hp" by simp
        then show "hp = [] \<or> (\<exists>l. c # seen = l @ CHR ''.'' # hp)" by blast
      qed simp
    next
      case True
      then show ?thesis by (intro disjI2 exI [of _ "[]"]) simp
    qed
    ultimately have "\<exists>a w lit. rev cs @ c # seen = a @ w # lit \<and> is_wild w \<and> (\<forall>c \<in> set lit. \<not> is_wild c) \<and> (x = [] \<or> (\<exists>l. lit = l @ CHR ''.'' # x))"
      by (rule Cons.IH)
    then show ?thesis by simp
  qed
qed simp

lemma mask_scan_None: "mask_scan r seen hp = None \<Longrightarrow> \<forall>c \<in> set r. \<not> is_wild c"
proof (induction r arbitrary: seen hp)
  case (Cons c cs)
  then have "\<not> is_wild c" unfolding is_wild_def by (metis mask_scan.simps(2) option.distinct(1))
  moreover from this have "mask_scan cs (c # seen) (if c = CHR ''.'' then seen else hp) = None"
    using Cons.prems unfolding is_wild_def by (cases "c = CHR ''.''") simp_all
  ultimately show ?case using Cons.IH by (metis set_ConsD)
qed simp

lemma glob_drop: "glob ceq (a @ b) n \<Longrightarrow> \<exists>k. glob ceq b (drop k n)"
proof (induction a arbitrary: n)
  case Nil
  then have "glob ceq b (drop 0 n)" by simp
  then show ?case by blast
next
  case (Cons c a)
  then obtain k where "glob ceq (a @ b) (drop k n)" using glob_Cons_drop by fastforce
  then show ?case using Cons.IH [of "drop k n"] by auto
qed

lemma glob_literal: "glob ceq s n \<Longrightarrow> star_free s \<Longrightarrow> list_all2 ceq s n"
  by (induction ceq s n rule: glob.induct) auto

lemma ToLower_dot: "ToLower c = ToLower (CHR ''.'') \<longleftrightarrow> c = CHR ''.''"
proof
  assume "ToLower c = ToLower (CHR ''.'')"
  then have "(of_char (ToLower c) :: nat) = 46" by (simp add: ToLower_eq)
  then have "(of_char c :: nat) = 46" by (auto simp: of_char_ToLower split: if_splits)
  then show "c = CHR ''.''" by (intro char_eqI) simp
qed simp

text \<open>Every name a mask matches has the end of the mask that is hashed.\<close>

lemma visited_host:
  assumes "nul_free h" "nul_free n" "match h n"
  shows "get_mask_hash h = 0 \<or> (\<exists>p \<in> set (dot_tails n). hash_text p = get_mask_hash h)"
proof -
  have g: "glob match_ceq h n" using assms by (rule match_language)
  have low: "list_all2 (\<lambda>c d. ToLower c = ToLower d) s t" if "list_all2 match_ceq s t" "\<forall>c \<in> set s. \<not> is_wild c" for s t
    using that by (auto simp: list_all2_conv_all_nth match_ceq_def is_wild_def)
  show ?thesis
  proof (cases "mask_scan (rev h) [] []")
    case None
    have w: "\<forall>c \<in> set h. \<not> is_wild c" using mask_scan_None [OF None] by simp
    then have "list_all2 match_ceq h n" using g by (intro glob_literal) (auto simp: is_wild_def)
    then have "hash_text h = hash_text n" using low w text_loop_cong unfolding hash_text_def by metis
    then show ?thesis using None by (metis dot_tails_self get_mask_hash_def option.case(1))
  next
    case (Some x)
    then obtain a w lit where l: "h = a @ w # lit" "\<forall>c \<in> set lit. \<not> is_wild c" "x = [] \<or> (\<exists>l. lit = l @ CHR ''.'' # x)"
      using mask_scan_inv [of "rev h" "[]" "[]" x] by auto
    have e: "get_mask_hash h = hash_text x" using Some by (simp add: get_mask_hash_def)
    show ?thesis
    proof (cases "x = []")
      case False
      then obtain m where m: "lit = m @ CHR ''.'' # x" using l(3) by blast
      obtain k where "glob match_ceq lit (drop k n)" using glob_drop [of match_ceq "a @ [w]" lit n] g l(1) by auto
      then have "list_all2 match_ceq lit (drop k n)" using l(2) by (intro glob_literal) (auto simp: is_wild_def)
      then obtain m' c x' where d: "drop k n = m' @ c # x'" "ToLower (CHR ''.'') = ToLower c" "list_all2 (\<lambda>c d. ToLower c = ToLower d) x x'"
        using low [of lit "drop k n"] l(2) m by (auto simp: list_all2_append1 list_all2_Cons1)
      have "c = CHR ''.''" using d(2) ToLower_dot by metis
      then have "n = (take k n @ m') @ CHR ''.'' # x'" using d(1) by (metis append.assoc append_take_drop_id)
      then have "x' \<in> set (dot_tails n)" using dot_tails_behind by metis
      moreover have "hash_text x' = hash_text x" using d(3) text_loop_cong unfolding hash_text_def by metis
      ultimately show ?thesis using e by auto
    qed (simp add: e)
  qed
qed

section \<open>Tables\<close>

definition rec_bucket :: "address_rec \<Rightarrow> 32 word" where
  "rec_bucket r =
     (case ar_mask r of
        Ipa a bits \<Rightarrow> if ar_masktype r = HM_IPV6 then hash_ipv6 a (bits - bits smod 16) else hash_ipv4 a (bits - bits smod 8)
      | Hostname h \<Rightarrow> get_mask_hash h)"

definition rec_ok :: "address_rec \<Rightarrow> bool" where
  "rec_ok r =
     (case ar_mask r of
        Ipa a bits \<Rightarrow> ip_ok a \<and> 0 \<le> bits \<and>
          (ar_masktype r = HM_IPV6 \<and> bits \<le> 128 \<or> ar_masktype r = HM_IPV4 \<and> bits \<le> 32)
      | Hostname h \<Rightarrow> ar_masktype r = HM_HOST \<and> nul_free h)"

definition table_ok :: "address_table \<Rightarrow> bool" where
  "table_ok t = (\<forall>i. \<forall>r \<in> set (at_bucket t i). rec_ok r \<and> rec_bucket r = i)"

definition recs :: "address_table \<Rightarrow> address_rec set" where
  "recs t = (\<Union>i. set (at_bucket t i))"

record query =
  qu_name :: "cstring option"
  qu_sockhost :: "cstring option"
  qu_addr :: "ip option"
  qu_fam :: af
  qu_user :: "cstring option"

definition query_ok :: "query \<Rightarrow> bool" where
  "query_ok q =
     ((\<forall>n. qu_name q = Some n \<longrightarrow> nul_free n) \<and> (\<forall>a. qu_addr q = Some a \<longrightarrow> ip_ok a \<and> fst a = qu_fam q))"

text \<open>
  A record applies to a client: its network contains the address, or its mask matches the host name; a mask that has no fixed
  end (its hash is 0) is also compared with the address as text.
\<close>

definition applies :: "32 word \<Rightarrow> query \<Rightarrow> address_rec \<Rightarrow> bool" where
  "applies type q r =
     ((\<exists>a. qu_addr q = Some a \<and> ip_test (if qu_fam q = AF_INET6 then HM_IPV6 else HM_IPV4) type a (str_or_empty (qu_user q)) r) \<or>
      (\<exists>n. qu_name q = Some n \<and>
         host_test type (\<lambda>h. match h n \<or> get_mask_hash h = 0 \<and> host_hit n (qu_sockhost q) h) (str_or_empty (qu_user q)) r))"

lemma bucket_mem: "table_ok t \<Longrightarrow> r \<in> recs t \<Longrightarrow> r \<in> set (at_bucket t (rec_bucket r)) \<and> rec_ok r"
  by (auto simp: table_ok_def recs_def)

lemma bucket_recs: "r \<in> set (at_bucket t i) \<Longrightarrow> r \<in> recs t"
  by (auto simp: recs_def)

lemma ip_test_visited:
  assumes t: "table_ok t" "r \<in> recs t" and a: "ip_ok a" "fst a = fam" and r: "ip_test (if fam = AF_INET6 then HM_IPV6 else HM_IPV4) type a user r"
  shows "if fam = AF_INET6 then \<exists>b \<in> {128, 112, 96, 80, 64, 48, 32, 16, 0}. r \<in> set (at_bucket t (hash_ipv6 a b))
    else \<exists>b \<in> {32, 24, 16, 8, 0}. r \<in> set (at_bucket t (hash_ipv4 a b))"
proof -
  obtain d bits where d: "ar_mask r = Ipa d bits" "comp_with_mask_sock a d bits" "ar_masktype r = (if fam = AF_INET6 then HM_IPV6 else HM_IPV4)"
    using r by (auto simp: ip_test_def split: addr_mask.splits)
  note m = bucket_mem [OF t]
  show ?thesis
  proof (cases "fam = AF_INET6")
    case True
    then have "rec_bucket r = hash_ipv6 d (bits - bits smod 16)" "ip_ok d" "0 \<le> bits" "bits \<le> 128" "fst a = AF_INET6"
      using m d a(2) by (auto simp: rec_bucket_def rec_ok_def)
    with visited_ipv6 [OF a(1), of d bits] d(2) m True show ?thesis by metis
  next
    case False
    then have "rec_bucket r = hash_ipv4 d (bits - bits smod 8)" "ip_ok d" "0 \<le> bits" "bits \<le> 32" "fst a = AF_INET"
      using m d a(2) by (auto simp: rec_bucket_def rec_ok_def) (metis af.exhaust)
    with visited_ipv4 [OF a(1), of d bits] d(2) m False show ?thesis by metis
  qed
qed

lemma host_test_visited:
  assumes t: "table_ok t" "r \<in> recs t" and n: "nul_free n"
    and r: "host_test type (\<lambda>h. match h n \<or> get_mask_hash h = 0 \<and> host_hit n sockhost h) user r"
  shows "(\<exists>p \<in> set (dot_tails n). r \<in> set (at_bucket t (hash_text p)) \<and> host_test type (\<lambda>h. match h n) user r) \<or>
    r \<in> set (at_bucket t 0) \<and> host_test type (host_hit n sockhost) user r"
proof -
  obtain h where h: "ar_mask r = Hostname h" "match h n \<or> get_mask_hash h = 0 \<and> host_hit n sockhost h"
    using r by (auto simp: host_test_def split: addr_mask.splits)
  have m: "r \<in> set (at_bucket t (get_mask_hash h))" "nul_free h"
    using bucket_mem [OF t] h(1) by (auto simp: rec_bucket_def rec_ok_def)
  have zero: "get_mask_hash h = 0 \<Longrightarrow> ?thesis"
    using h m r by (auto simp: host_test_def host_hit_def)
  from h(2) show ?thesis
  proof
    assume mt: "match h n"
    then have "host_test type (\<lambda>h. match h n) user r" using r h(1) by (simp add: host_test_def)
    then show ?thesis using visited_host [OF m(2) n mt] zero m(1) by metis
  qed (use zero in blast)
qed

lemma bucket0_applies:
  assumes "table_ok t" "r \<in> set (at_bucket t 0)" "host_test type (host_hit n s) user r"
  shows "host_test type (\<lambda>h. match h n \<or> get_mask_hash h = 0 \<and> host_hit n s h) user r"
proof -
  have "rec_bucket r = 0" using assms(1,2) by (auto simp: table_ok_def)
  then show ?thesis using assms(3) by (auto simp: host_test_def rec_bucket_def split: addr_mask.splits)
qed

lemma host_test_mono: "host_test type P user r \<Longrightarrow> (\<And>h. P h \<Longrightarrow> Q h) \<Longrightarrow> host_test type Q user r"
  by (auto simp: host_test_def split: addr_mask.splits)

lemma host_test_buckets:
  assumes t: "table_ok t" and n: "nul_free n"
  shows "{r \<in> recs t. host_test type (\<lambda>h. match h n \<or> get_mask_hash h = 0 \<and> host_hit n s h) user r} =
    (\<Union>p \<in> set (dot_tails n). {r \<in> set (at_bucket t (hash_text p)). host_test type (\<lambda>h. match h n) user r}) \<union>
    {r \<in> set (at_bucket t 0). host_test type (host_hit n s) user r}" (is "?A = ?B \<union> ?C")
proof (rule antisym)
  show "?A \<subseteq> ?B \<union> ?C" using host_test_visited [OF t _ n] by blast
  have "?B \<subseteq> ?A" using bucket_recs host_test_mono by fastforce
  moreover have "?C \<subseteq> ?A" using bucket_recs bucket0_applies [OF t] by fastforce
  ultimately show "?B \<union> ?C \<subseteq> ?A" by blast
qed

section \<open>The search for bans\<close>

definition ban_for :: "address_table \<Rightarrow> query \<Rightarrow> 32 word \<Rightarrow> conf option" where
  "ban_for t q type = find_conf_by_address t (qu_name q) (qu_sockhost q) (qu_addr q) type (qu_fam q) (qu_user q)"

lemma find_Some_set: "find P xs = Some x \<Longrightarrow> x \<in> set xs \<and> P x"
  by (induction xs) (auto split: if_splits)

lemma find_not_None: "x \<in> set xs \<Longrightarrow> P x \<Longrightarrow> find P xs \<noteq> None"
  by (metis find_None_iff)

lemma find_by_ip_sound:
  assumes "find_by_ip t addr type fam user = Some r"
  shows "r \<in> recs t \<and> (\<exists>a. addr = Some a \<and> ip_test (if fam = AF_INET6 then HM_IPV6 else HM_IPV4) type a user r)"
proof -
  obtain a where a: "addr = Some a" using assms by (cases addr) (simp_all add: find_by_ip_def)
  show ?thesis
  proof (cases "fam = AF_INET6")
    case True
    then have "find (ip_test HM_IPV6 type a user) (concat (map (\<lambda>b. at_bucket t (hash_ipv6 a b)) [128, 112, 96, 80, 64, 48, 32, 16, 0])) = Some r"
      using assms a by (simp add: find_by_ip_def)
    from find_Some_set [OF this] show ?thesis using True a bucket_recs by auto
  next
    case False
    then have "find (ip_test HM_IPV4 type a user) (concat (map (\<lambda>b. at_bucket t (hash_ipv4 a b)) [32, 24, 16, 8, 0])) = Some r"
      using assms a by (simp add: find_by_ip_def)
    from find_Some_set [OF this] show ?thesis using False a bucket_recs by auto
  qed
qed

lemma find_by_ip_complete:
  assumes t: "table_ok t" "r \<in> recs t" and a: "ip_ok a" "fst a = fam"
    and r: "ip_test (if fam = AF_INET6 then HM_IPV6 else HM_IPV4) type a user r"
  shows "find_by_ip t (Some a) type fam user \<noteq> None"
proof (cases "fam = AF_INET6")
  case True
  then obtain b where "b \<in> {128, 112, 96, 80, 64, 48, 32, 16, 0}" "r \<in> set (at_bucket t (hash_ipv6 a b))"
    using ip_test_visited [OF t a r] by auto
  then have "r \<in> set (concat (map (\<lambda>b. at_bucket t (hash_ipv6 a b)) [128, 112, 96, 80, 64, 48, 32, 16, 0]))" by auto
  from find_not_None [OF this] show ?thesis using True r by (simp add: find_by_ip_def)
next
  case False
  then obtain b where "b \<in> {32, 24, 16, 8, 0}" "r \<in> set (at_bucket t (hash_ipv4 a b))"
    using ip_test_visited [OF t a r] by auto
  then have "r \<in> set (concat (map (\<lambda>b. at_bucket t (hash_ipv4 a b)) [32, 24, 16, 8, 0]))" by auto
  from find_not_None [OF this] show ?thesis using False r by (simp add: find_by_ip_def)
qed

lemma find_by_name_sound:
  assumes t: "table_ok t" and f: "find_by_name t n sockhost type user = Some r"
  shows "r \<in> recs t \<and> host_test type (\<lambda>h. match h n \<or> get_mask_hash h = 0 \<and> host_hit n sockhost h) user r"
proof (cases "find (host_test type (\<lambda>h. match h n) user) (concat (map (\<lambda>p. at_bucket t (hash_text p)) (dot_tails n)))")
  case None
  then have "find (host_test type (host_hit n sockhost) user) (at_bucket t 0) = Some r" using f by (simp add: find_by_name_def)
  from find_Some_set [OF this] show ?thesis using bucket0_applies [OF t] bucket_recs by blast
next
  case (Some r')
  then have "r' = r" using f by (simp add: find_by_name_def)
  then show ?thesis using find_Some_set [OF Some] bucket_recs by (auto simp: host_test_def split: addr_mask.splits)
qed

lemma find_by_name_complete:
  assumes t: "table_ok t" "r \<in> recs t" and n: "nul_free n"
    and r: "host_test type (\<lambda>h. match h n \<or> get_mask_hash h = 0 \<and> host_hit n sockhost h) user r"
  shows "find_by_name t n sockhost type user \<noteq> None"
  using host_test_visited [OF t n r]
proof
  assume "\<exists>p \<in> set (dot_tails n). r \<in> set (at_bucket t (hash_text p)) \<and> host_test type (\<lambda>h. match h n) user r"
  then have "r \<in> set (concat (map (\<lambda>p. at_bucket t (hash_text p)) (dot_tails n)))" "host_test type (\<lambda>h. match h n) user r" by auto
  from find_not_None [OF this(1), of "host_test type (\<lambda>h. match h n) user", OF this(2)]
  show ?thesis unfolding find_by_name_def by (auto split: option.splits)
next
  assume "r \<in> set (at_bucket t 0) \<and> host_test type (host_hit n sockhost) user r"
  then have "find (host_test type (host_hit n sockhost) user) (at_bucket t 0) \<noteq> None" by (intro find_not_None) auto
  then show ?thesis unfolding find_by_name_def by (auto split: option.splits)
qed

lemma ban_for_iff:
  assumes t: "table_ok t" and q: "query_ok q"
  shows "(ban_for t q type = None \<longleftrightarrow> (\<forall>r \<in> recs t. \<not> applies type q r)) \<and>
    (\<forall>c. ban_for t q type = Some c \<longrightarrow> (\<exists>r \<in> recs t. applies type q r \<and> ar_aconf r = c))"
proof -
  let ?u = "str_or_empty (qu_user q)"
  let ?ip = "find_by_ip t (qu_addr q) type (qu_fam q) ?u"
  let ?nm = "\<lambda>n. find_by_name t n (qu_sockhost q) type ?u"
  let ?hit = "case ?ip of Some r \<Rightarrow> Some r | None \<Rightarrow> (case qu_name q of None \<Rightarrow> None | Some n \<Rightarrow> ?nm n)"
  have e: "ban_for t q type = map_option ar_aconf ?hit" by (simp add: ban_for_def find_conf_by_address_def Let_def)
  have sound: "r \<in> recs t \<and> applies type q r" if "?hit = Some r" for r
    using that find_by_ip_sound [of t "qu_addr q" type "qu_fam q" ?u] find_by_name_sound [OF t]
    by (auto simp: applies_def split: option.splits)
  have complete: "?hit \<noteq> None" if r: "r \<in> recs t" "applies type q r" for r
    using r(2) unfolding applies_def
  proof
    assume "\<exists>a. qu_addr q = Some a \<and> ip_test (if qu_fam q = AF_INET6 then HM_IPV6 else HM_IPV4) type a ?u r"
    then have "?ip \<noteq> None" using find_by_ip_complete [OF t r(1)] q by (auto simp: query_ok_def)
    then show ?thesis by (auto split: option.splits)
  next
    assume "\<exists>n. qu_name q = Some n \<and> host_test type (\<lambda>h. match h n \<or> get_mask_hash h = 0 \<and> host_hit n (qu_sockhost q) h) ?u r"
    then obtain n where n: "qu_name q = Some n" "host_test type (\<lambda>h. match h n \<or> get_mask_hash h = 0 \<and> host_hit n (qu_sockhost q) h) ?u r"
      by blast
    then have "?nm n \<noteq> None" using q by (intro find_by_name_complete [OF t r(1) _ n(2)]) (simp add: query_ok_def)
    then show ?thesis using n(1) by (auto split: option.splits)
  qed
  show ?thesis unfolding e
  proof (cases ?hit)
    case None
    then show "(map_option ar_aconf ?hit = None \<longleftrightarrow> (\<forall>r \<in> recs t. \<not> applies type q r)) \<and>
        (\<forall>c. map_option ar_aconf ?hit = Some c \<longrightarrow> (\<exists>r \<in> recs t. applies type q r \<and> ar_aconf r = c))"
      using complete unfolding None by auto
  next
    case (Some r)
    then show "(map_option ar_aconf ?hit = None \<longleftrightarrow> (\<forall>r \<in> recs t. \<not> applies type q r)) \<and>
        (\<forall>c. map_option ar_aconf ?hit = Some c \<longrightarrow> (\<exists>r \<in> recs t. applies type q r \<and> ar_aconf r = c))"
      using sound [OF Some] unfolding Some by auto
  qed
qed

section \<open>The search for auth blocks\<close>

text \<open>The two variables of \<open>find_auth\<close> hold the highest precedence among the records seen so far that apply.\<close>

definition best_of :: "address_rec set \<Rightarrow> 32 word \<times> conf option \<Rightarrow> bool" where
  "best_of S acc =
     (if snd acc = None then fst acc = 0 \<and> (\<forall>r \<in> S. ar_precedence r = 0)
      else \<exists>r \<in> S. 0 < ar_precedence r \<and> fst acc = ar_precedence r \<and> snd acc = Some (ar_aconf r) \<and> (\<forall>s \<in> S. ar_precedence s \<le> fst acc))"

lemma best_of_empty: "best_of {} (0, None)"
  by (simp add: best_of_def)

lemma auth_scan_best:
  "best_of S acc \<Longrightarrow> best_of (S \<union> {r \<in> set b. test r}) (auth_scan test b acc)"
proof (induction b arbitrary: S acc)
  case Nil
  then show ?case by (cases acc) simp
next
  case (Cons r b)
  obtain v c where acc: "acc = (v, c)" by (cases acc)
  let ?S = "if test r then insert r S else S"
  have step: "best_of ?S (if test r \<and> ar_precedence r > v then (ar_precedence r, Some (ar_aconf r)) else (v, c))"
  proof (cases "test r \<and> ar_precedence r > v")
    case True
    then have "\<forall>s \<in> ?S. ar_precedence s \<le> ar_precedence r"
      using Cons.prems acc by (auto simp: best_of_def split: if_splits)
    moreover have "0 < ar_precedence r" using True word_gt_0 [of "ar_precedence r"] by (metis not_less_iff_gr_or_eq word_not_simps(1))
    ultimately show ?thesis using True by (auto simp: best_of_def)
  next
    case False
    then have le: "test r \<Longrightarrow> ar_precedence r \<le> v" by (simp add: not_less)
    show ?thesis
    proof (cases c)
      case None
      then show ?thesis using Cons.prems acc False le by (auto simp: best_of_def)
    next
      case (Some x)
      then show ?thesis using Cons.prems acc False le by (auto simp: best_of_def)
    qed
  qed
  have "?S \<union> {s \<in> set b. test s} = S \<union> {s \<in> set (r # b). test s}" by auto
  then show ?case using Cons.IH [OF step] acc by simp
qed

lemma fold_auth_scan_best:
  "best_of S acc \<Longrightarrow> best_of (S \<union> (\<Union>x \<in> set xs. {r \<in> set (b x). test r})) (fold (\<lambda>x. auth_scan test (b x)) xs acc)"
proof (induction xs arbitrary: S acc)
  case (Cons x xs)
  from Cons.IH [OF auth_scan_best [OF Cons.prems]] show ?case by (simp add: Un_assoc)
qed simp

lemma auth_scan_buckets: "best_of (\<Union>x \<in> set xs. {r \<in> set (b x). test r}) (fold (\<lambda>x. auth_scan test (b x)) xs (0, None))"
  using fold_auth_scan_best [OF best_of_empty] by simp

definition auth_for :: "address_table \<Rightarrow> query \<Rightarrow> conf option" where
  "auth_for t q = find_auth t (qu_name q) (qu_sockhost q) (qu_addr q) (qu_fam q) (qu_user q)"

lemma auth_for_best:
  assumes t: "table_ok t" and q: "query_ok q"
  shows "\<exists>v. best_of {r \<in> recs t. applies CONF_CLIENT q r} (v, auth_for t q)"
proof -
  let ?u = "str_or_empty (qu_user q)"
  define S1 where "S1 = {r \<in> recs t. \<exists>a. qu_addr q = Some a \<and> ip_test (if qu_fam q = AF_INET6 then HM_IPV6 else HM_IPV4) CONF_CLIENT a ?u r}"
  define acc1 where "acc1 = (case qu_addr q of
               None \<Rightarrow> (0, None)
             | Some a \<Rightarrow>
                 if qu_fam q = AF_INET6 then
                   fold (\<lambda>b. auth_scan (ip_test HM_IPV6 CONF_CLIENT a ?u) (at_bucket t (hash_ipv6 a b)))
                     [128, 112, 96, 80, 64, 48, 32, 16, 0] (0, None)
                 else
                   fold (\<lambda>b. auth_scan (ip_test HM_IPV4 CONF_CLIENT a ?u) (at_bucket t (hash_ipv4 a b)))
                     [32, 24, 16, 8, 0] (0, None))"
  have acc1: "best_of S1 acc1"
  proof (cases "qu_addr q")
    case (Some a)
    then have a: "ip_ok a" "fst a = qu_fam q" using q by (auto simp: query_ok_def)
    show ?thesis
    proof (cases "qu_fam q = AF_INET6")
      case True
      have "S1 = (\<Union>b \<in> set [128, 112, 96, 80, 64, 48, 32, 16, 0]. {r \<in> set (at_bucket t (hash_ipv6 a b)). ip_test HM_IPV6 CONF_CLIENT a ?u r})"
        using ip_test_visited [OF t _ a, of _ CONF_CLIENT ?u] True Some unfolding S1_def by (auto simp: bucket_recs)
      moreover have "acc1 = fold (\<lambda>b. auth_scan (ip_test HM_IPV6 CONF_CLIENT a ?u) (at_bucket t (hash_ipv6 a b))) [128, 112, 96, 80, 64, 48, 32, 16, 0] (0, None)"
        using Some True unfolding acc1_def by simp
      ultimately show ?thesis by (simp only: auth_scan_buckets)
    next
      case False
      have "S1 = (\<Union>b \<in> set [32, 24, 16, 8, 0]. {r \<in> set (at_bucket t (hash_ipv4 a b)). ip_test HM_IPV4 CONF_CLIENT a ?u r})"
        using ip_test_visited [OF t _ a, of _ CONF_CLIENT ?u] False Some unfolding S1_def by (auto simp: bucket_recs)
      moreover have "acc1 = fold (\<lambda>b. auth_scan (ip_test HM_IPV4 CONF_CLIENT a ?u) (at_bucket t (hash_ipv4 a b))) [32, 24, 16, 8, 0] (0, None)"
        using Some False unfolding acc1_def by simp
      ultimately show ?thesis by (simp only: auth_scan_buckets)
    qed
  qed (simp add: S1_def acc1_def best_of_empty)
  show ?thesis
  proof (cases "qu_name q")
    case None
    then have "{r \<in> recs t. applies CONF_CLIENT q r} = S1" "auth_for t q = snd acc1"
      by (auto simp: S1_def applies_def auth_for_def find_auth_def acc1_def Let_def)
    then show ?thesis using acc1 by (metis prod.collapse)
  next
    case (Some n)
    let ?m = "host_test CONF_CLIENT (\<lambda>h. match h n) ?u" and ?mz = "host_test CONF_CLIENT (host_hit n (qu_sockhost q)) ?u"
    define acc2 where "acc2 = fold (\<lambda>p. auth_scan ?m (at_bucket t (hash_text p))) (dot_tails n) acc1"
    have 2: "best_of (S1 \<union> (\<Union>p \<in> set (dot_tails n). {r \<in> set (at_bucket t (hash_text p)). ?m r}) \<union> {r \<in> set (at_bucket t 0). ?mz r})
        (auth_scan ?mz (at_bucket t 0) acc2)"
      unfolding acc2_def by (rule auth_scan_best [OF fold_auth_scan_best [OF acc1]])
    have "nul_free n" using q Some by (simp add: query_ok_def)
    note hosts = host_test_buckets [OF t this, of CONF_CLIENT "qu_sockhost q" ?u]
    have "{r \<in> recs t. applies CONF_CLIENT q r} = S1 \<union>
        {r \<in> recs t. host_test CONF_CLIENT (\<lambda>h. match h n \<or> get_mask_hash h = 0 \<and> host_hit n (qu_sockhost q) h) ?u r}"
      using Some unfolding S1_def applies_def by auto
    then have "{r \<in> recs t. applies CONF_CLIENT q r} =
        S1 \<union> (\<Union>p \<in> set (dot_tails n). {r \<in> set (at_bucket t (hash_text p)). ?m r}) \<union> {r \<in> set (at_bucket t 0). ?mz r}"
      unfolding hosts by (simp only: Un_assoc)
    moreover have "auth_for t q = snd (auth_scan ?mz (at_bucket t 0) acc2)"
      using Some by (simp add: auth_for_def find_auth_def acc1_def acc2_def Let_def)
    ultimately show ?thesis using 2 by (metis prod.collapse)
  qed
qed

end
