(* ===== verification/HostmaskTheorems.thy ===== *)
theory HostmaskTheorems
  imports HostmaskProps
begin

unbundle bit_operations_syntax

text \<open>
  The table of \<open>src/hostmask.c\<close> under every sequence of additions, removals and rehashes, against a list of entries in the order
  of their addition.
\<close>

section \<open>Buckets\<close>

lemma index_bound: "w AND (ATABLE_SIZE - 1) < ATABLE_SIZE"
proof -
  have "ATABLE_SIZE - 1 = (mask 12 :: 32 word)" "ATABLE_SIZE = (2 ^ 12 :: 32 word)"
    by (simp_all add: ATABLE_SIZE_def mask_eq_decr_exp)
  then show ?thesis using and_mask_less' [of 12 w] by simp
qed

lemma ipv6_loop_bound: "ipv6_loop bs bits v < ATABLE_SIZE"
  by (induction bs bits v rule: ipv6_loop.induct) (simp_all add: index_bound)

lemma size_pos: "0 < ATABLE_SIZE" by (simp add: ATABLE_SIZE_def)

lemma rec_bucket_bound: "rec_bucket r < ATABLE_SIZE"
  by (auto simp: rec_bucket_def hash_ipv6_def ipv6_loop_bound hash_ipv4_def Let_def index_bound size_pos get_mask_hash_def hash_text_def
      split: addr_mask.splits option.splits)

lemma all_buckets:
  assumes "i < ATABLE_SIZE"
  shows "i \<in> set (map of_nat [0..<unat ATABLE_SIZE])"
proof -
  have "unat i < unat ATABLE_SIZE" using assms by (rule unat_mono)
  then show ?thesis by (auto intro: image_eqI [of _ _ "unat i"])
qed

section \<open>Single changes\<close>

lemma unlink_rec_set:
  "distinct (map ar_aconf b) \<Longrightarrow>
   (case unlink_rec c b of None \<Rightarrow> \<forall>r \<in> set b. ar_aconf r \<noteq> c | Some b' \<Rightarrow> b' = filter (\<lambda>r. ar_aconf r \<noteq> c) b \<and> (\<exists>r \<in> set b. ar_aconf r = c))"
proof (induction b)
  case (Cons r b)
  show ?case
  proof (cases "ar_aconf r = c")
    case True
    then have "filter (\<lambda>s. ar_aconf s \<noteq> c) b = b" using Cons.prems by (intro filter_True) (metis distinct.simps(2) image_eqI list.set_map list.simps(9))
    then show ?thesis using True by simp
  next
    case False
    then show ?thesis using Cons by (auto split: option.splits)
  qed
qed simp

lemma drop_conf_other: "c \<noteq> a \<Longrightarrow> drop_conf a cs c = cs c"
  by (simp add: drop_conf_def split: option.splits)

lemma clear_bucket_filter:
  assumes keep: "\<And>cs cs' r. cs (ar_aconf r) = cs' (ar_aconf r) \<Longrightarrow> keep cs r = keep cs' r"
  shows "distinct (map ar_aconf b) \<Longrightarrow> fst (clear_bucket keep b cs) = filter (keep cs) b \<and>
    (\<forall>c. (\<exists>r \<in> set b. ar_aconf r = c \<and> \<not> keep cs r) \<or> snd (clear_bucket keep b cs) c = cs c)"
proof (induction b arbitrary: cs)
  case (Cons r b)
  show ?case
  proof (cases "keep cs r")
    case True
    then show ?thesis using Cons by (auto simp: case_prod_beta)
  next
    case False
    let ?cs = "drop_conf (ar_aconf r) cs"
    have same: "keep ?cs s = keep cs s" if "s \<in> set b" for s
      using Cons.prems that by (intro keep drop_conf_other) (metis distinct.simps(2) image_eqI list.set_map list.simps(9))
    have "filter (keep ?cs) b = filter (keep cs) b" using same by (intro filter_cong) auto
    moreover have "(\<exists>s \<in> set (r # b). ar_aconf s = c \<and> \<not> keep cs s) \<or> snd (clear_bucket keep b ?cs) c = cs c" for c
      using Cons.IH [of ?cs] Cons.prems same False drop_conf_other [of c "ar_aconf r" cs] by fastforce
    ultimately show ?thesis using Cons False by simp
  qed
qed simp

definition one_bucket :: "((conf \<Rightarrow> conf_item option) \<Rightarrow> address_rec \<Rightarrow> bool) \<Rightarrow> 32 word \<Rightarrow> address_table \<Rightarrow> address_table" where
  "one_bucket keep i t =
     (let (b, cs) = clear_bucket keep (at_bucket t i) (at_confs t) in t\<lparr>at_bucket := (at_bucket t)(i := b), at_confs := cs\<rparr>)"

lemma clear_buckets_fold: "clear_buckets keep t = fold (one_bucket keep) (map of_nat [0..<unat ATABLE_SIZE]) t"
  unfolding clear_buckets_def one_bucket_def by simp

text \<open>Every conf belongs to one record.\<close>

definition one_owner :: "address_table \<Rightarrow> bool" where
  "one_owner t = ((\<forall>i. distinct (map ar_aconf (at_bucket t i))) \<and>
     (\<forall>i j. \<forall>r \<in> set (at_bucket t i). \<forall>s \<in> set (at_bucket t j). ar_aconf r = ar_aconf s \<longrightarrow> i = j))"

lemma clear_fold:
  assumes keep: "\<And>cs cs' r. cs (ar_aconf r) = cs' (ar_aconf r) \<Longrightarrow> keep cs r = keep cs' r"
    and own: "one_owner t"
  defines "K \<equiv> keep (at_confs t)"
  shows "at_bucket (fold (one_bucket keep) is t) = (\<lambda>i. if i \<in> set is then filter K (at_bucket t i) else at_bucket t i) \<and>
    (\<forall>c. (\<exists>i \<in> set is. \<exists>r \<in> set (at_bucket t i). ar_aconf r = c \<and> \<not> K r) \<or> at_confs (fold (one_bucket keep) is t) c = at_confs t c) \<and>
    at_prec_value (fold (one_bucket keep) is t) = at_prec_value t"
proof (induction "is" rule: rev_induct)
  case (snoc j js)
  let ?t = "fold (one_bucket keep) js t"
  let ?b = "at_bucket ?t j"
  have b: "?b = (if j \<in> set js then filter K (at_bucket t j) else at_bucket t j)" using snoc by simp
  have d: "distinct (map ar_aconf ?b)" using own unfolding b one_owner_def by (auto intro: distinct_map_filter)
  have same: "keep (at_confs ?t) r = K r" if r: "r \<in> set ?b" for r
    unfolding K_def
  proof (rule keep, rule ccontr)
    assume "at_confs ?t (ar_aconf r) \<noteq> at_confs t (ar_aconf r)"
    then obtain i s where s: "i \<in> set js" "s \<in> set (at_bucket t i)" "ar_aconf s = ar_aconf r" "\<not> K s" using snoc by blast
    have rj: "r \<in> set (at_bucket t j)" using r unfolding b by (auto split: if_splits)
    then have "i = j" using own s(2,3) unfolding one_owner_def by metis
    moreover from this have "s = r" using own s(2,3) rj unfolding one_owner_def by (metis distinct_map inj_onD)
    ultimately show False using s(1,4) r b by simp
  qed
  have c: "fst (clear_bucket keep ?b (at_confs ?t)) = filter (keep (at_confs ?t)) ?b \<and>
      (\<forall>c. (\<exists>r \<in> set ?b. ar_aconf r = c \<and> \<not> keep (at_confs ?t) r) \<or> snd (clear_bucket keep ?b (at_confs ?t)) c = at_confs ?t c)"
    by (rule clear_bucket_filter [OF keep d])
  have f: "fst (clear_bucket keep ?b (at_confs ?t)) = filter K (at_bucket t j)"
    using c same b by (auto intro: filter_cong)
  have g: "(\<exists>i \<in> set (js @ [j]). \<exists>r \<in> set (at_bucket t i). ar_aconf r = c \<and> \<not> K r) \<or>
      snd (clear_bucket keep ?b (at_confs ?t)) c = at_confs t c" for c
  proof (cases "\<exists>r \<in> set ?b. ar_aconf r = c \<and> \<not> keep (at_confs ?t) r")
    case True
    then obtain r where r: "r \<in> set ?b" "ar_aconf r = c" "\<not> K r" using same by blast
    then have "r \<in> set (at_bucket t j)" unfolding b by (auto split: if_splits)
    then show ?thesis using r by auto
  next
    case False
    then have "snd (clear_bucket keep ?b (at_confs ?t)) c = at_confs ?t c" using c by blast
    then show ?thesis using snoc by auto
  qed
  have "fold (one_bucket keep) (js @ [j]) t =
      ?t\<lparr>at_bucket := (at_bucket ?t)(j := fst (clear_bucket keep ?b (at_confs ?t))), at_confs := snd (clear_bucket keep ?b (at_confs ?t))\<rparr>"
    by (simp add: one_bucket_def case_prod_beta)
  then show ?case using f g snoc by (auto simp: fun_eq_iff)
qed simp

section \<open>The reference\<close>

text \<open>
  An entry is a conf with its type and whether it is temporary; the list of entries has the order of their addition. The host and
  the user of a conf do not change; all callers pass them to the table.
\<close>

type_synonym entry = "bool \<times> 32 word \<times> conf"

datatype addr_op = Add_conf "32 word" conf conf_item | Del_conf conf | Clear_auth | Clear_bans

definition temporary :: "conf_item \<Rightarrow> bool" where
  "temporary it = (cf_flags it AND CONF_FLAGS_TEMPORARY \<noteq> 0)"

definition is_auth :: "entry \<Rightarrow> bool" where
  "is_auth e = (fst (snd e) = CONF_CLIENT \<or> fst (snd e) = CONF_EXEMPTDLINE)"

fun spec_op :: "addr_op \<Rightarrow> entry list \<Rightarrow> entry list" where
  "spec_op (Add_conf ty c it) es = es @ [(temporary it, ty, c)]"
| "spec_op (Del_conf c) es = filter (\<lambda>e. snd (snd e) \<noteq> c) es"
| "spec_op Clear_auth es = filter (\<lambda>e. fst e \<or> \<not> is_auth e) es"
| "spec_op Clear_bans es = filter (\<lambda>e. fst e \<or> is_auth e) es"

fun run_op :: "(conf \<Rightarrow> cstring) \<Rightarrow> (conf \<Rightarrow> cstring option) \<Rightarrow> addr_op \<Rightarrow> address_table \<Rightarrow> address_table" where
  "run_op host user (Add_conf ty c it) t =
     add_conf_by_address (Some (host c)) ty (user c) c (t\<lparr>at_confs := (at_confs t)(c \<mapsto> it)\<rparr>)"
| "run_op host user (Del_conf c) t = delete_one_address_conf (host c) c t"
| "run_op host user Clear_auth t = clear_out_address_conf t"
| "run_op host user Clear_bans t = clear_out_address_conf_bans t"

definition entry_rec :: "(conf \<Rightarrow> cstring) \<Rightarrow> (conf \<Rightarrow> cstring option) \<Rightarrow> (conf \<Rightarrow> 32 word) \<Rightarrow> entry \<Rightarrow> address_rec" where
  "entry_rec host user pr e = (case e of (b, ty, c) \<Rightarrow> new_rec (host c) ty (user c) c (pr c))"

definition entry_applies :: "(conf \<Rightarrow> cstring) \<Rightarrow> (conf \<Rightarrow> cstring option) \<Rightarrow> 32 word \<Rightarrow> query \<Rightarrow> entry \<Rightarrow> bool" where
  "entry_applies host user type q e = applies type q (entry_rec host user (\<lambda>_. 0) e)"

definition host_ok :: "cstring \<Rightarrow> bool" where
  "host_ok h = (nul_free h \<and> (case snd (parse_netmask h) of None \<Rightarrow> True | Some (a, bits) \<Rightarrow> 0 \<le> bits))"

definition repr :: "(conf \<Rightarrow> cstring) \<Rightarrow> (conf \<Rightarrow> cstring option) \<Rightarrow> (conf \<Rightarrow> 32 word) \<Rightarrow> address_table \<Rightarrow> entry list \<Rightarrow> bool" where
  "repr host user pr t es =
     ((\<forall>i. set (at_bucket t i) = {r \<in> entry_rec host user pr ` set es. rec_bucket r = i}) \<and>
      (\<forall>i. distinct (map ar_aconf (at_bucket t i))) \<and> distinct (map (snd \<circ> snd) es) \<and>
      (\<forall>e \<in> set es. host_ok (host (snd (snd e))) \<and> fst (snd e) AND CONF_SKIPUSER = 0 \<and>
         (\<exists>it. at_confs t (snd (snd e)) = Some it \<and> temporary it = fst e)) \<and>
      sorted_wrt (\<lambda>e f. pr (snd (snd f)) < pr (snd (snd e))) (filter (\<lambda>e. fst (snd e) = CONF_CLIENT) es) \<and>
      (\<forall>e \<in> set es. fst (snd e) = CONF_CLIENT \<longrightarrow> at_prec_value t < pr (snd (snd e))))"

lemma entry_rec_conf [simp]: "ar_aconf (entry_rec host user pr e) = snd (snd e)"
  by (cases e) (simp add: entry_rec_def new_rec_def)

lemma entry_rec_type:
  assumes "fst (snd e) AND CONF_SKIPUSER = 0"
  shows "conf_type (entry_rec host user pr e) = fst (snd e)"
proof -
  obtain b ty c where e: "e = (b, ty, c)" by (cases e)
  have "(ty AND CONF_SKIPUSER) OR (ty AND NOT CONF_SKIPUSER) = ty" by (simp flip: bit.conj_disj_distrib)
  then have "ty AND NOT CONF_SKIPUSER = ty" using assms e by simp
  moreover have "(ty OR CONF_SKIPUSER) AND NOT CONF_SKIPUSER = ty AND NOT CONF_SKIPUSER" by (simp add: bit.conj_disj_distrib2)
  ultimately show ?thesis by (simp add: entry_rec_def conf_type_def new_rec_def e)
qed

lemma parse_netmask_cases:
  obtains "parse_netmask h = (HM_HOST, None)"
  | a bits where "parse_netmask h = (HM_IPV6, Some (a, bits))" "ip_ok a" "bits \<le> 128"
  | a bits where "parse_netmask h = (HM_IPV4, Some (a, bits))" "ip_ok a" "bits \<le> 32"
proof -
  have ok: "ip_ok a" if "rb_inet_pton_sock s = Some a" for s a
    using that rb_inet_pton_length by (auto simp: rb_inet_pton_sock_def ip_ok_def split: option.splits)
  have le: "snd (mask_bits most s) \<le> most" for most s by (auto simp: mask_bits_def split: option.splits)
  consider "parse_netmask h = (HM_HOST, None)"
    | "parse_netmask h = (let (ip, b) = mask_bits 128 h in case rb_inet_pton_sock ip of None \<Rightarrow> (HM_HOST, None) | Some a \<Rightarrow> (HM_IPV6, Some (a, b)))"
    | "parse_netmask h = (let (ip, b) = mask_bits 32 h in case rb_inet_pton_sock ip of None \<Rightarrow> (HM_HOST, None) | Some a \<Rightarrow> (HM_IPV4, Some (a, b)))"
    unfolding parse_netmask_def by argo
  then show thesis
  proof cases
    case 2
    then have p: "parse_netmask h = (case rb_inet_pton_sock (fst (mask_bits 128 h)) of None \<Rightarrow> (HM_HOST, None) | Some a \<Rightarrow> (HM_IPV6, Some (a, snd (mask_bits 128 h))))"
      by (simp add: case_prod_beta Let_def)
    show thesis
    proof (cases "rb_inet_pton_sock (fst (mask_bits 128 h))")
      case None
      then show thesis using p that(1) by simp
    next
      case (Some a)
      then show thesis using p that(2) [of a "snd (mask_bits 128 h)"] ok [OF Some] le [of 128 h] by simp
    qed
  next
    case 3
    then have p: "parse_netmask h = (case rb_inet_pton_sock (fst (mask_bits 32 h)) of None \<Rightarrow> (HM_HOST, None) | Some a \<Rightarrow> (HM_IPV4, Some (a, snd (mask_bits 32 h))))"
      by (simp add: case_prod_beta Let_def)
    show thesis
    proof (cases "rb_inet_pton_sock (fst (mask_bits 32 h))")
      case None
      then show thesis using p that(1) by simp
    next
      case (Some a)
      then show thesis using p that(3) [of a "snd (mask_bits 32 h)"] ok [OF Some] le [of 32 h] by simp
    qed
  qed (rule that)
qed

lemma new_rec_ok: "host_ok h \<Longrightarrow> rec_ok (new_rec h ty u c p)"
  by (rule parse_netmask_cases [of h]) (simp_all add: new_rec_def rec_ok_def address_mask_def host_ok_def)

lemma new_rec_bucket: "rec_bucket (new_rec h ty u c p) = mask_bucket h (parse_netmask h)"
  by (rule parse_netmask_cases [of h]) (simp_all add: new_rec_def rec_bucket_def address_mask_def mask_bucket_def)

lemma applies_prec: "applies type q (entry_rec host user pr e) = entry_applies host user type q e"
  by (cases e) (simp add: entry_applies_def applies_def entry_rec_def new_rec_def ip_test_def host_test_def conf_type_def user_ok_def)

section \<open>The table implements the reference\<close>

lemma repr_table:
  assumes "repr host user pr t es"
  shows "table_ok t" "recs t = entry_rec host user pr ` set es" "one_owner t"
proof -
  have b: "set (at_bucket t i) = {r \<in> entry_rec host user pr ` set es. rec_bucket r = i}" for i using assms by (simp add: repr_def)
  have "rec_ok (entry_rec host user pr e)" if "e \<in> set es" for e
  proof -
    have "host_ok (host (snd (snd e)))" using assms that by (simp add: repr_def)
    then show ?thesis by (cases e) (simp add: entry_rec_def new_rec_ok)
  qed
  then show "table_ok t" unfolding table_ok_def b by auto
  show r: "recs t = entry_rec host user pr ` set es" unfolding recs_def b by auto
  have inj: "e = f" if "e \<in> set es" "f \<in> set es" "snd (snd e) = snd (snd f)" for e f
    using assms that by (metis (no_types, lifting) comp_apply distinct_map inj_onD repr_def)
  show "one_owner t" unfolding one_owner_def
  proof (intro conjI allI ballI impI)
    show "distinct (map ar_aconf (at_bucket t i))" for i using assms by (simp add: repr_def)
    fix i j x y assume x: "x \<in> set (at_bucket t i)" and y: "y \<in> set (at_bucket t j)" and eq: "ar_aconf x = ar_aconf y"
    obtain e f where e: "e \<in> set es" "x = entry_rec host user pr e" and f: "f \<in> set es" "y = entry_rec host user pr f"
      using x y unfolding b by auto
    then have "e = f" using inj [OF e(1) f(1)] eq by simp
    then show "i = j" using x y e(2) f(2) unfolding b by simp
  qed
qed

lemma repr_confs:
  assumes "repr host user pr t es" "r \<in> set (at_bucket t i)"
  shows "\<exists>e \<in> set es. ar_aconf r = snd (snd e) \<and> r = entry_rec host user pr e"
proof -
  have "r \<in> entry_rec host user pr ` set es" using assms by (simp add: repr_def)
  then obtain e where "e \<in> set es" "r = entry_rec host user pr e" by auto
  then show ?thesis by auto
qed

lemma repr_cong:
  assumes "repr host user pr t es" "\<And>c. c \<in> (snd \<circ> snd) ` set es \<Longrightarrow> pr' c = pr c"
    "at_bucket t' = at_bucket t" "at_prec_value t' \<le> at_prec_value t" "\<And>c. c \<in> (snd \<circ> snd) ` set es \<Longrightarrow> at_confs t' c = at_confs t c"
  shows "repr host user pr' t' es"
proof -
  have pr: "pr' (snd (snd e)) = pr (snd (snd e))" if "e \<in> set es" for e using assms(2) that by (metis comp_apply image_eqI)
  have cf: "at_confs t' (snd (snd e)) = at_confs t (snd (snd e))" if "e \<in> set es" for e using assms(5) that by (metis comp_apply image_eqI)
  have "entry_rec host user pr' e = entry_rec host user pr e" if "e \<in> set es" for e
    using pr [OF that] by (cases e) (simp add: entry_rec_def)
  then have im: "entry_rec host user pr' ` set es = entry_rec host user pr ` set es" by (intro image_cong) auto
  have "sorted_wrt (\<lambda>e f. pr' (snd (snd f)) < pr' (snd (snd e))) (filter (\<lambda>e. fst (snd e) = CONF_CLIENT) es)"
    using assms(1) pr unfolding repr_def by (auto elim!: sorted_wrt_mono_rel [rotated])
  then show ?thesis using assms(1,3,4) pr cf unfolding repr_def im by (auto intro: le_less_trans)
qed

lemma repr_add:
  assumes r: "repr host user pr t es" and c: "c \<notin> (snd \<circ> snd) ` set es" "host_ok (host c)" "ty AND CONF_SKIPUSER = 0" and p: "0 < at_prec_value t"
  shows "\<exists>pr'. repr host user pr' (run_op host user (Add_conf ty c it) t) (es @ [(temporary it, ty, c)])"
proof -
  let ?e = "(temporary it, ty, c)" and ?pr = "pr(c := at_prec_value t)"
  let ?t = "t\<lparr>at_confs := (at_confs t)(c \<mapsto> it)\<rparr>"
  let ?r = "entry_rec host user ?pr ?e" and ?hv = "mask_bucket (host c) (parse_netmask (host c))"
  have r': "repr host user ?pr ?t es" by (rule repr_cong [OF r]) (use c(1) in auto)
  have t': "run_op host user (Add_conf ty c it) t =
      ?t\<lparr>at_bucket := (at_bucket t)(?hv := ?r # at_bucket t ?hv),
         at_prec_value := (if ty = CONF_CLIENT then at_prec_value t - 1 else at_prec_value t)\<rparr>"
    by (simp add: add_conf_by_address_def entry_rec_def Let_def)
  have rb: "rec_bucket ?r = ?hv" by (simp add: entry_rec_def new_rec_bucket)
  have less: "at_prec_value t - 1 < at_prec_value t" 
  proof -
    have "unat (at_prec_value t - 1) = unat (at_prec_value t) - 1" using p by (intro unat_minus_one) auto
    moreover have "0 < unat (at_prec_value t)" using p by (simp add: word_less_nat_alt)
    ultimately show ?thesis unfolding word_less_nat_alt by linarith
  qed
  have "set (at_bucket (run_op host user (Add_conf ty c it) t) i) = {r \<in> entry_rec host user ?pr ` set (es @ [?e]). rec_bucket r = i}" for i
    using r' rb unfolding t' repr_def by auto
  moreover have "distinct (map ar_aconf (at_bucket (run_op host user (Add_conf ty c it) t) i))" for i
  proof -
    have "c \<notin> ar_aconf ` set (at_bucket t i)" for i
      using repr_confs [OF r, of _ i] c(1) by fastforce
    then show ?thesis using r' unfolding t' repr_def by simp
  qed
  moreover have "distinct (map (snd \<circ> snd) (es @ [?e]))" using r c(1) by (simp add: repr_def)
  moreover have "sorted_wrt (\<lambda>e f. ?pr (snd (snd f)) < ?pr (snd (snd e))) (filter (\<lambda>e. fst (snd e) = CONF_CLIENT) (es @ [?e]))"
    using r' unfolding repr_def by (auto simp: sorted_wrt_append)
  moreover have "at_prec_value (run_op host user (Add_conf ty c it) t) < ?pr (snd (snd e))"
    if "e \<in> set (es @ [?e])" "fst (snd e) = CONF_CLIENT" for e
    using r' that less unfolding t' repr_def by auto
  moreover have "\<forall>e \<in> set (es @ [?e]). host_ok (host (snd (snd e))) \<and> fst (snd e) AND CONF_SKIPUSER = 0 \<and>
      (\<exists>i. at_confs (run_op host user (Add_conf ty c it) t) (snd (snd e)) = Some i \<and> temporary i = fst e)"
    using r' c(2,3) unfolding t' repr_def by auto
  ultimately have "repr host user ?pr (run_op host user (Add_conf ty c it) t) (es @ [?e])"
    unfolding repr_def by blast
  then show ?thesis by blast
qed

lemma repr_filter:
  assumes r: "repr host user pr t es" and b: "\<And>i. at_bucket t' i = filter (\<lambda>r. P (ar_aconf r)) (at_bucket t i)"
    and p: "at_prec_value t' = at_prec_value t" and cf: "\<And>e. e \<in> set es \<Longrightarrow> P (snd (snd e)) \<Longrightarrow> at_confs t' (snd (snd e)) = at_confs t (snd (snd e))"
  shows "repr host user pr t' (filter (\<lambda>e. P (snd (snd e))) es)"
proof -
  have "set (at_bucket t' i) = {x \<in> entry_rec host user pr ` set (filter (\<lambda>e. P (snd (snd e))) es). rec_bucket x = i}" for i
    using r unfolding b repr_def by auto
  moreover have "distinct (map ar_aconf (at_bucket t' i))" for i
    using r unfolding b repr_def by (auto intro: distinct_map_filter)
  moreover have "distinct (map (snd \<circ> snd) (filter (\<lambda>e. P (snd (snd e))) es))" using r by (simp add: repr_def distinct_map_filter)
  moreover have "sorted_wrt (\<lambda>e f. pr (snd (snd f)) < pr (snd (snd e))) (filter (\<lambda>e. fst (snd e) = CONF_CLIENT) (filter (\<lambda>e. P (snd (snd e))) es))"
  proof -
    have "filter (\<lambda>e. fst (snd e) = CONF_CLIENT) (filter (\<lambda>e. P (snd (snd e))) es) =
        filter (\<lambda>e. P (snd (snd e))) (filter (\<lambda>e. fst (snd e) = CONF_CLIENT) es)" by (simp add: conj_commute)
    then show ?thesis using r by (simp add: repr_def sorted_wrt_filter del: filter_filter)
  qed
  ultimately show ?thesis using r p cf unfolding repr_def by auto
qed

lemma repr_del:
  assumes r: "repr host user pr t es"
  shows "repr host user pr (run_op host user (Del_conf c) t) (spec_op (Del_conf c) es)"
proof -
  let ?hv = "mask_bucket (host c) (parse_netmask (host c))"
  have d: "distinct (map ar_aconf (at_bucket t ?hv))" using r by (simp add: repr_def)
  have other: "ar_aconf x \<noteq> c" if xi: "x \<in> set (at_bucket t i)" "i \<noteq> ?hv" for x i
  proof
    assume c: "ar_aconf x = c"
    obtain e where e: "e \<in> set es" "snd (snd e) = c" "x = entry_rec host user pr e" using repr_confs [OF r xi(1)] c by auto
    have "rec_bucket x = ?hv" using e(2) unfolding e(3) by (simp add: entry_rec_def new_rec_bucket case_prod_beta)
    then show False using xi repr_table(1) [OF r] by (auto simp: table_ok_def)
  qed
  let ?t = "run_op host user (Del_conf c) t"
  have "at_bucket ?t i = filter (\<lambda>r. ar_aconf r \<noteq> c) (at_bucket t i)" for i
  proof (cases "i = ?hv")
    case True
    then show ?thesis using unlink_rec_set [OF d, of c]
      by (auto simp: delete_one_address_conf_def Let_def split: option.splits intro!: filter_True [symmetric])
  next
    case False
    then have "filter (\<lambda>r. ar_aconf r \<noteq> c) (at_bucket t i) = at_bucket t i" using other by (intro filter_True) auto
    then show ?thesis using False by (auto simp: delete_one_address_conf_def Let_def split: option.splits)
  qed
  moreover have "at_prec_value ?t = at_prec_value t" by (auto simp: delete_one_address_conf_def Let_def split: option.splits)
  moreover have "at_confs ?t d = at_confs t d" if "d \<noteq> c" for d
    using that by (auto simp: delete_one_address_conf_def Let_def drop_conf_other split: option.splits)
  ultimately show ?thesis using repr_filter [OF r, of ?t "\<lambda>d. d \<noteq> c"] by simp
qed

lemma repr_clear:
  assumes r: "repr host user pr t es"
    and keep: "\<And>cs cs' x. cs (ar_aconf x) = cs' (ar_aconf x) \<Longrightarrow> keep cs x = keep cs' x"
    and K: "\<And>e. e \<in> set es \<Longrightarrow> keep (at_confs t) (entry_rec host user pr e) = L e"
  shows "repr host user pr (clear_buckets keep t) (filter L es)"
proof -
  let ?P = "\<lambda>c. \<exists>e \<in> set es. snd (snd e) = c \<and> L e"
  note own = repr_table(3) [OF r] and ok = repr_table(1) [OF r]
  have c: "at_bucket (clear_buckets keep t) =
        (\<lambda>i. if i \<in> set (map of_nat [0..<unat ATABLE_SIZE]) then filter (keep (at_confs t)) (at_bucket t i) else at_bucket t i) \<and>
      (\<forall>c. (\<exists>i \<in> set (map of_nat [0..<unat ATABLE_SIZE]). \<exists>x \<in> set (at_bucket t i). ar_aconf x = c \<and> \<not> keep (at_confs t) x) \<or>
        at_confs (clear_buckets keep t) c = at_confs t c) \<and> at_prec_value (clear_buckets keep t) = at_prec_value t"
    unfolding clear_buckets_fold by (rule clear_fold [OF keep own])
  have inj: "e = f" if "e \<in> set es" "f \<in> set es" "snd (snd e) = snd (snd f)" for e f
    using r that by (metis (no_types, lifting) comp_apply distinct_map inj_onD repr_def)
  then have P: "?P (snd (snd e)) = L e" if "e \<in> set es" for e using that by blast
  have same: "keep (at_confs t) x = ?P (ar_aconf x)" if "x \<in> set (at_bucket t i)" for x i
    using repr_confs [OF r that] K P by force
  have "at_bucket (clear_buckets keep t) i = filter (\<lambda>x. ?P (ar_aconf x)) (at_bucket t i)" for i
  proof (cases "i < ATABLE_SIZE")
    case True
    have "filter (keep (at_confs t)) (at_bucket t i) = filter (\<lambda>x. ?P (ar_aconf x)) (at_bucket t i)"
      using same [of _ i] by (intro filter_cong) auto
    then show ?thesis using c all_buckets [OF True] by simp
  next
    case False
    then have "at_bucket t i = []" using ok rec_bucket_bound unfolding table_ok_def by (metis list.set_intros(1) neq_Nil_conv)
    then show ?thesis using c by simp
  qed
  moreover have "at_confs (clear_buckets keep t) (snd (snd e)) = at_confs t (snd (snd e))" if e: "e \<in> set es" "?P (snd (snd e))" for e
  proof (rule ccontr)
    assume "at_confs (clear_buckets keep t) (snd (snd e)) \<noteq> at_confs t (snd (snd e))"
    then obtain i x where x: "x \<in> set (at_bucket t i)" "ar_aconf x = snd (snd e)" "\<not> keep (at_confs t) x" using c by blast
    then show False using same [OF x(1)] e by simp
  qed
  moreover have "at_prec_value (clear_buckets keep t) = at_prec_value t" using c by simp
  ultimately have f: "repr host user pr (clear_buckets keep t) (filter (\<lambda>e. ?P (snd (snd e))) es)"
    by (intro repr_filter [OF r])
  have "filter (\<lambda>e. ?P (snd (snd e))) es = filter L es" by (rule filter_cong [OF refl P])
  then show ?thesis using f by simp
qed

lemma keep_cong: "cs (ar_aconf x) = cs' (ar_aconf x) \<Longrightarrow> is_temporary cs x = is_temporary cs' x"
  by (simp add: is_temporary_def)

lemma entry_temporary:
  assumes "repr host user pr t es" "e \<in> set es"
  shows "is_temporary (at_confs t) (entry_rec host user pr e) = fst e"
  using assms by (auto simp: repr_def is_temporary_def temporary_def split: option.splits)

lemma entry_type:
  assumes "repr host user pr t es" "e \<in> set es"
  shows "conf_type (entry_rec host user pr e) = fst (snd e)"
  using assms by (intro entry_rec_type) (simp add: repr_def)

lemma repr_clears:
  assumes r: "repr host user pr t es"
  shows "repr host user pr (run_op host user Clear_auth t) (spec_op Clear_auth es)"
    and "repr host user pr (run_op host user Clear_bans t) (spec_op Clear_bans es)"
  using entry_temporary [OF r] entry_type [OF r]
  by (auto simp: clear_out_address_conf_def clear_out_address_conf_bans_def is_auth_def intro!: repr_clear [OF r] dest: keep_cong)

definition added :: "addr_op list \<Rightarrow> conf list" where
  "added ops = concat (map (\<lambda>op. case op of Add_conf ty c it \<Rightarrow> [c] | _ \<Rightarrow> []) ops)"

definition op_fine :: "(conf \<Rightarrow> cstring) \<Rightarrow> addr_op \<Rightarrow> bool" where
  "op_fine host op = (case op of Add_conf ty c it \<Rightarrow> host_ok (host c) \<and> ty AND CONF_SKIPUSER = 0 | _ \<Rightarrow> True)"

lemma spec_op_confs: "(snd \<circ> snd) ` set (spec_op op es) \<subseteq> (snd \<circ> snd) ` set es \<union> set (added [op])"
  by (cases op) (auto simp: added_def)

lemma prec_clear: "at_prec_value (clear_buckets keep t) = at_prec_value t"
proof -
  have "at_prec_value (fold (one_bucket keep) is t) = at_prec_value t" for "is"
    by (induction "is" arbitrary: t) (simp_all add: one_bucket_def case_prod_beta)
  then show ?thesis by (simp add: clear_buckets_fold)
qed

lemma prec_run_op:
  assumes "0 < at_prec_value t"
  shows "unat (at_prec_value t) \<le> Suc (unat (at_prec_value (run_op host user op t)))"
proof (cases op)
  case (Add_conf ty c it)
  have "unat (at_prec_value t - 1) = unat (at_prec_value t) - 1" using assms by (intro unat_minus_one) auto
  then show ?thesis using Add_conf by (simp add: add_conf_by_address_def Let_def) linarith
qed (auto simp: delete_one_address_conf_def clear_out_address_conf_def clear_out_address_conf_bans_def prec_clear Let_def split: option.splits)

lemma repr_step:
  assumes "repr host user pr t es" "op_fine host op" "set (added [op]) \<inter> (snd \<circ> snd) ` set es = {}" "0 < at_prec_value t"
  shows "\<exists>pr'. repr host user pr' (run_op host user op t) (spec_op op es)"
proof (cases op)
  case (Add_conf ty c it)
  then show ?thesis using repr_add [OF assms(1), of c ty it] assms(2-4) by (auto simp: op_fine_def added_def)
next
  case (Del_conf c)
  then show ?thesis using repr_del [OF assms(1)] by blast
qed (use repr_clears [OF assms(1)] in blast)+

lemma repr_run:
  "repr host user pr t es \<Longrightarrow> \<forall>op \<in> set ops. op_fine host op \<Longrightarrow> distinct (added ops) \<Longrightarrow>
   set (added ops) \<inter> (snd \<circ> snd) ` set es = {} \<Longrightarrow> length ops < unat (at_prec_value t) \<Longrightarrow>
   \<exists>pr'. repr host user pr' (fold (run_op host user) ops t) (fold spec_op ops es)"
proof (induction ops arbitrary: pr t es)
  case (Cons op ops)
  have a: "added (op # ops) = added [op] @ added ops" by (simp add: added_def)
  have p: "0 < at_prec_value t" using Cons.prems(5) by (simp add: word_less_nat_alt)
  obtain pr1 where 1: "repr host user pr1 (run_op host user op t) (spec_op op es)"
  proof -
    have "op_fine host op" "set (added [op]) \<inter> (snd \<circ> snd) ` set es = {}" using Cons.prems(2,4) unfolding a by auto
    then show thesis using that repr_step [OF Cons.prems(1) _ _ p] by blast
  qed
  have "set (added ops) \<inter> (snd \<circ> snd) ` set (spec_op op es) = {}"
  proof -
    have "set (added [op]) \<inter> set (added ops) = {}" "set (added ops) \<inter> (snd \<circ> snd) ` set es = {}"
      using Cons.prems(3,4) unfolding a by auto
    then show ?thesis using spec_op_confs [of op es] by blast
  qed
  moreover have "length ops < unat (at_prec_value (run_op host user op t))"
    using prec_run_op [OF p, of host user op] Cons.prems(5) by simp
  ultimately show ?case using Cons.IH [OF 1] Cons.prems(2,3) unfolding a by simp
qed auto

lemma first_best:
  assumes S: "S = entry_rec host user pr ` {e \<in> set es. P e}" and b: "best_of S (v, c)"
    and sorted: "sorted_wrt (\<lambda>e f. pr (snd (snd f)) < pr (snd (snd e))) (filter (\<lambda>e. fst (snd e) = CONF_CLIENT) es)"
    and P: "\<And>e. e \<in> set es \<Longrightarrow> P e \<Longrightarrow> fst (snd e) = CONF_CLIENT \<and> 0 < pr (snd (snd e))"
  shows "c = map_option (snd \<circ> snd) (find P es)"
proof -
  let ?auths = "filter (\<lambda>e. fst (snd e) = CONF_CLIENT) es"
  have prec: "ar_precedence (entry_rec host user pr e) = pr (snd (snd e))" if "e \<in> set es" "P e" for e
    using P [OF that] by (cases e) (simp add: entry_rec_def new_rec_def)
  show ?thesis
  proof (cases "find P es")
    case None
    then have "S = {}" unfolding S by (auto simp: find_None_iff)
    then show ?thesis using b None by (auto simp: best_of_def split: if_splits)
  next
    case (Some e)
    then obtain i where i: "i < length es" "P (es ! i)" "e = es ! i" "\<forall>j < i. \<not> P (es ! j)" by (auto simp: find_Some_iff)
    then have e: "e \<in> set es" "P e" by auto
    then have eS: "entry_rec host user pr e \<in> S" unfolding S by auto
    have pe: "0 < pr (snd (snd e))" using P [OF e] by simp
    then have "c \<noteq> None" using b eS prec [OF e] by (auto simp: best_of_def split: if_splits)
    then obtain f where f: "f \<in> set es" "P f" "c = Some (snd (snd f))" "\<forall>s \<in> S. ar_precedence s \<le> pr (snd (snd f))"
      using b prec unfolding S best_of_def by (auto split: if_splits)
    have "f = e"
    proof (rule ccontr)
      assume "f \<noteq> e"
      have es: "es = take i es @ e # drop (Suc i) es" using i(1,3) id_take_nth_drop by blast
      have "f \<notin> set (take i es)" using i(4) f(2) by (auto simp: in_set_conv_nth)
      then have fd: "f \<in> set (drop (Suc i) es)" using f(1) \<open>f \<noteq> e\<close> by (subst (asm) es) simp
      have "?auths = filter (\<lambda>e. fst (snd e) = CONF_CLIENT) (take i es) @ e # filter (\<lambda>e. fst (snd e) = CONF_CLIENT) (drop (Suc i) es)"
        using P [OF e] by (subst es) simp
      then have "f \<in> set (filter (\<lambda>e. fst (snd e) = CONF_CLIENT) (drop (Suc i) es)) \<longrightarrow> pr (snd (snd f)) < pr (snd (snd e))"
        using sorted by (simp only: sorted_wrt_append sorted_wrt.simps) blast
      then have "pr (snd (snd f)) < pr (snd (snd e))" using fd P [OF f(1,2)] by simp
      then show False using f(4) eS prec [OF e] by (metis leD)
    qed
    then show ?thesis using f(3) Some by simp
  qed
qed

section \<open>Properties\<close>

definition no_confs :: address_table where
  "no_confs = \<lparr>at_bucket = (\<lambda>_. []), at_prec_value = 0xFFFFFFFF, at_confs = (\<lambda>_. None)\<rparr>"

abbreviation "run_ops host user ops \<equiv> fold (run_op host user) ops no_confs"

lemma repr_ops:
  assumes "\<forall>op \<in> set ops. op_fine host op" "distinct (added ops)" "length ops < 2 ^ 32 - 1"
  obtains pr where "repr host user pr (run_ops host user ops) (fold spec_op ops [])"
proof -
  have "repr host user (\<lambda>_. 0) no_confs []" by (simp add: repr_def no_confs_def)
  then show thesis using repr_run [of host user "\<lambda>_. 0" no_confs "[]" ops] assms that by (auto simp: no_confs_def)
qed

lemma auth_first:
  assumes "\<forall>op \<in> set ops. op_fine host op" "distinct (added ops)" "length ops < 2 ^ 32 - 1" "query_ok q"
  shows "auth_for (run_ops host user ops) q =
    map_option (snd \<circ> snd) (find (entry_applies host user CONF_CLIENT q) (fold spec_op ops []))"
proof -
  let ?t = "run_ops host user ops" and ?es = "fold spec_op ops []" and ?P = "entry_applies host user CONF_CLIENT q"
  obtain pr where r: "repr host user pr ?t ?es" by (rule repr_ops [OF assms(1-3)])
  have "{x \<in> recs ?t. applies CONF_CLIENT q x} = entry_rec host user pr ` {e \<in> set ?es. ?P e}"
    unfolding repr_table(2) [OF r] using applies_prec by auto
  moreover have "fst (snd e) = CONF_CLIENT \<and> 0 < pr (snd (snd e))" if e: "e \<in> set ?es" "?P e" for e
  proof -
    have "applies CONF_CLIENT q (entry_rec host user pr e)" using e(2) by (simp add: applies_prec)
    then have "conf_type (entry_rec host user pr e) = CONF_CLIENT" by (auto simp: applies_def ip_test_def host_test_def)
    then have c: "fst (snd e) = CONF_CLIENT" using entry_type [OF r e(1)] by simp
    then have "at_prec_value ?t < pr (snd (snd e))" using r e(1) by (simp add: repr_def)
    then show ?thesis using c by (metis le_less_trans word_zero_le)
  qed
  moreover obtain v where "best_of {x \<in> recs ?t. applies CONF_CLIENT q x} (v, auth_for ?t q)"
    using auth_for_best [OF repr_table(1) [OF r] assms(4)] by blast
  moreover have "sorted_wrt (\<lambda>e f. pr (snd (snd f)) < pr (snd (snd e))) (filter (\<lambda>e. fst (snd e) = CONF_CLIENT) ?es)"
    using r by (simp add: repr_def)
  ultimately show ?thesis by (intro first_best) auto
qed

lemma ban_iff:
  assumes "\<forall>op \<in> set ops. op_fine host op" "distinct (added ops)" "length ops < 2 ^ 32 - 1" "query_ok q"
  shows "(ban_for (run_ops host user ops) q type = None \<longleftrightarrow> (\<forall>e \<in> set (fold spec_op ops []). \<not> entry_applies host user type q e)) \<and>
    (\<forall>c. ban_for (run_ops host user ops) q type = Some c \<longrightarrow>
       (\<exists>e \<in> set (fold spec_op ops []). entry_applies host user type q e \<and> snd (snd e) = c))"
proof -
  let ?t = "run_ops host user ops"
  obtain pr where r: "repr host user pr ?t (fold spec_op ops [])" by (rule repr_ops [OF assms(1-3)])
  show ?thesis using ban_for_iff [OF repr_table(1) [OF r] assms(4), of type] unfolding repr_table(2) [OF r]
    by (auto simp: applies_prec)
qed

lemma applies_code [code]:
  "applies type q r =
     ((case qu_addr q of None \<Rightarrow> False
       | Some a \<Rightarrow> ip_test (if qu_fam q = AF_INET6 then HM_IPV6 else HM_IPV4) type a (str_or_empty (qu_user q)) r) \<or>
      (case qu_name q of None \<Rightarrow> False
       | Some n \<Rightarrow> host_test type (\<lambda>h. match h n \<or> get_mask_hash h = 0 \<and> host_hit n (qu_sockhost q) h) (str_or_empty (qu_user q)) r))"
  by (auto simp: applies_def split: option.splits)

definition some_hosts :: "conf \<Rightarrow> cstring" where
  "some_hosts c = (if c = 0 then ''*.example.org'' else if c = 1 then ''*'' else if c = 2 then ''10.0.0.0/8'' else ''10.*.0.1'')"

definition plain_conf :: conf_item where
  "plain_conf = \<lparr>cf_status = 0, cf_flags = 0, cf_clients = 0, cf_name = []\<rparr>"

definition some_ops :: "addr_op list" where
  "some_ops = [Add_conf CONF_CLIENT 0 plain_conf, Add_conf CONF_CLIENT 1 plain_conf, Add_conf CONF_KILL 2 plain_conf, Del_conf 0]"

definition some_query :: query where
  "some_query = \<lparr>qu_name = Some ''irc.example.org'', qu_sockhost = Some ''10.1.2.3'', qu_addr = Some (AF_INET, [10, 1, 2, 3]),
     qu_fam = AF_INET, qu_user = Some ''user''\<rparr>"

lemma some_ops_fine: "\<forall>op \<in> set some_ops. op_fine some_hosts op" "distinct (added some_ops)" "length some_ops < 2 ^ 32 - 1" "query_ok some_query"
proof -
  have "host_ok (some_hosts c)" for c unfolding some_hosts_def by (auto simp: host_ok_def nul_free_def) (code_simp+)
  then show "\<forall>op \<in> set some_ops. op_fine some_hosts op"
    by (simp add: some_ops_def op_fine_def CONF_CLIENT_def CONF_KILL_def CONF_SKIPUSER_def)
  show "distinct (added some_ops)" "length some_ops < 2 ^ 32 - 1" by (simp_all add: some_ops_def added_def)
  show "query_ok some_query" by (simp add: query_ok_def some_query_def nul_free_def ip_ok_def addr_len_def)
qed

text \<open>
  C16. After any sequence of additions, removals and rehashes \<open>find_auth\<close>, which looks into few buckets of the hash table
  only, finds exactly the first auth block, in the order of the configuration, whose mask applies to the client.
\<close>

theorem auth_block_first:
  assumes "\<forall>op \<in> set ops. op_fine host op" "distinct (added ops)" "length ops < 2 ^ 32 - 1" "query_ok q"
  shows "auth_for (run_ops host user ops) q =
    map_option (snd \<circ> snd) (find (entry_applies host user CONF_CLIENT q) (fold spec_op ops []))"
  using assms by (rule auth_first)

theorem auth_block_first_witness: "auth_for (run_ops some_hosts (\<lambda>_. Some ''*'') some_ops) some_query = Some 1"
proof -
  have "find (entry_applies some_hosts (\<lambda>_. Some ''*'') CONF_CLIENT some_query) (fold spec_op some_ops []) = Some (False, CONF_CLIENT, 1)"
    by code_simp
  then show ?thesis using auth_block_first [OF some_ops_fine, of "\<lambda>_. Some ''*''"] by simp
qed

text \<open>
  C26. \<open>find_conf_by_address\<close> finds a ban of the type asked for exactly if one applies to the client, and what it finds applies.
\<close>

theorem ban_found:
  assumes "\<forall>op \<in> set ops. op_fine host op" "distinct (added ops)" "length ops < 2 ^ 32 - 1" "query_ok q"
  shows "(ban_for (run_ops host user ops) q type = None \<longleftrightarrow> (\<forall>e \<in> set (fold spec_op ops []). \<not> entry_applies host user type q e)) \<and>
    (\<forall>c. ban_for (run_ops host user ops) q type = Some c \<longrightarrow>
       (\<exists>e \<in> set (fold spec_op ops []). entry_applies host user type q e \<and> snd (snd e) = c))"
  using assms by (rule ban_iff)

theorem ban_found_witness: "\<exists>c. ban_for (run_ops some_hosts (\<lambda>_. Some ''*'') some_ops) some_query CONF_KILL = Some c"
proof -
  have "find (entry_applies some_hosts (\<lambda>_. Some ''*'') CONF_KILL some_query) (fold spec_op some_ops []) \<noteq> None" by code_simp
  then show ?thesis using ban_found [OF some_ops_fine, of "\<lambda>_. Some ''*''" CONF_KILL] by (auto simp: find_None_iff)
qed

text \<open>
  C17. What \<open>find_address_conf\<close> decides: without an auth block that applies nothing is found; a client whose auth block is exempt
  from K-lines gets the block; any other client to which a K-line applies gets a K-line that applies.
\<close>

theorem kline_enforced:
  fixes user :: "conf \<Rightarrow> cstring option"
  assumes "\<forall>op \<in> set ops. op_fine host op" "distinct (added ops)" "length ops < 2 ^ 32 - 1" "query_ok q"
  defines "t \<equiv> run_ops host user ops" and "es \<equiv> fold spec_op ops []"
  shows "case find (entry_applies host user CONF_CLIENT q) es of
      None \<Rightarrow> find_address_conf cfg fam stack_in t (qu_name q) (qu_sockhost q) (qu_user q) (qu_addr q) (qu_fam q) = None
    | Some (b, ty, iconf) \<Rightarrow>
        if IsConfExemptKline (conf_of t iconf)
        then find_address_conf cfg fam stack_in t (qu_name q) (qu_sockhost q) (qu_user q) (qu_addr q) (qu_fam q) = Some iconf
        else (\<exists>e \<in> set es. entry_applies host user CONF_KILL q e) \<longrightarrow>
          (\<exists>e \<in> set es. entry_applies host user CONF_KILL q e \<and>
             find_address_conf cfg fam stack_in t (qu_name q) (qu_sockhost q) (qu_user q) (qu_addr q) (qu_fam q) = Some (snd (snd e)))"
proof -
  note a = auth_first [OF assms(1-4), of user, folded t_def es_def, unfolded auth_for_def]
  note k = ban_iff [OF assms(1-4), of user CONF_KILL, folded t_def es_def, unfolded ban_for_def]
  show ?thesis
  proof (cases "find (entry_applies host user CONF_CLIENT q) es")
    case None
    then show ?thesis using a by (simp add: find_address_conf_def)
  next
    case (Some e)
    obtain b ty i where e: "e = (b, ty, i)" by (cases e)
    have fa: "find_auth t (qu_name q) (qu_sockhost q) (qu_addr q) (qu_fam q) (qu_user q) = Some i" using a Some e by simp
    show ?thesis
    proof (cases "IsConfExemptKline (conf_of t i)")
      case True
      then show ?thesis using Some e fa by (simp add: find_address_conf_def)
    next
      case False
      have "\<exists>e \<in> set es. entry_applies host user CONF_KILL q e \<and>
          find_address_conf cfg fam stack_in t (qu_name q) (qu_sockhost q) (qu_user q) (qu_addr q) (qu_fam q) = Some (snd (snd e))"
        if ex: "\<exists>e \<in> set es. entry_applies host user CONF_KILL q e"
      proof -
        obtain c where c: "find_conf_by_address t (qu_name q) (qu_sockhost q) (qu_addr q) CONF_KILL (qu_fam q) (qu_user q) = Some c"
          using k ex by (metis option.exhaust)
        then have "find_address_conf cfg fam stack_in t (qu_name q) (qu_sockhost q) (qu_user q) (qu_addr q) (qu_fam q) = Some c"
          using fa False by (simp add: find_address_conf_def)
        then show ?thesis using k c by metis
      qed
      then show ?thesis using Some e False by simp
    qed
  qed
qed

theorem kline_enforced_witness:
  "\<exists>e \<in> set (fold spec_op some_ops []). entry_applies some_hosts (\<lambda>_. Some ''*'') CONF_KILL some_query e \<and>
     find_address_conf \<lparr>co_glines = False, co_ipv6_tun_remap = False\<rparr> False (AF_INET, [0, 0, 0, 0]) (run_ops some_hosts (\<lambda>_. Some ''*'') some_ops)
       (qu_name some_query) (qu_sockhost some_query) (qu_user some_query) (qu_addr some_query) (qu_fam some_query) = Some (snd (snd e))"
proof -
  have 1: "find (entry_applies some_hosts (\<lambda>_. Some ''*'') CONF_CLIENT some_query) (fold spec_op some_ops []) = Some (False, CONF_CLIENT, 1)"
    by code_simp
  have 2: "find (entry_applies some_hosts (\<lambda>_. Some ''*'') CONF_KILL some_query) (fold spec_op some_ops []) \<noteq> None" by code_simp
  have 3: "\<not> IsConfExemptKline (conf_of (run_ops some_hosts (\<lambda>_. Some ''*'') some_ops) 1)" by code_simp
  have 4: "\<exists>e \<in> set (fold spec_op some_ops []). entry_applies some_hosts (\<lambda>_. Some ''*'') CONF_KILL some_query e"
    using 2 by (auto simp: find_None_iff)
  show ?thesis
    using kline_enforced [OF some_ops_fine, where user = "\<lambda>_. Some ''*''" and cfg = "\<lparr>co_glines = False, co_ipv6_tun_remap = False\<rparr>"
      and fam = False and stack_in = "(AF_INET, [0, 0, 0, 0])"] 3 4 by (simp only: 1 option.case prod.case if_False not_False_eq_True simp_thms)
qed



end
