(* ===== verification/Exit.thy ===== *)
theory Exit
  imports ChanCmds Send
begin

unbundle bit_operations_syntax

text \<open>
  The tables that hold all clients, and how a client leaves them (\<open>exit_client\<close> of \<open>src/client.c\<close>). What is sent is recorded:
  a message in the form of \<open>World\<close>, or the call of the function of \<open>src/send.c\<close> or \<open>src/monitor.c\<close> that picks the receivers.
  The connection of a server that exits, and all clients behind it, are given by the event \<open>LinkExits\<close> only.
\<close>

section \<open>State\<close>

text \<open>\<open>CheckSplit\<close> is \<open>check_splitmode\<close> (\<open>ChanInfo\<close>), called while split mode is watched and off.\<close>

datatype nick_out =
    Out msg
  | Common cid cstring
  | Servers "cid option" "32 word" "32 word" cstring
  | KillServ "cid option" cid cstring
  | KillOne cid cid cstring
  | SignOn cstring
  | SignOff cstring
  | ClearMonitor cid
  | CountNet cid bool
  | CloseConnection cid
  | DelayExit cid cstring
  | Introduced "cid option" cid
  | ServiceCollision cid
  | Registers cid cid cstring
  | LinkExits cid cstring
  | CheckSplit

record nick_info =
  ni_tsinfo :: int
  ni_from :: cid
  ni_fake :: bool
  ni_killed :: bool
  ni_closing :: bool
  ni_dead :: bool
  ni_ioerror :: bool
  ni_delay_exit :: bool
  ni_socket :: bool
  ni_sent_user :: bool
  ni_last_nick_change :: int
  ni_nick_changes :: "32 word"
  ni_allow_list :: "cid list"
  ni_on_allow_list :: "cid list"
  ni_users :: "cid list"
  ni_hopcount :: "8 word"
  ni_umodes :: "32 word"
  ni_serv_caps :: "32 word"

record client_counts =
  ct_total :: int
  ct_max_tot :: int
  ct_invisi :: int
  ct_oper :: int
  ct_kill :: nat
  ct_save :: nat

text \<open>
  \<open>ns_env\<close> has the hash tables of nicks and UIDs and the nickname history; \<open>ns_next\<close> is the address of the next client.
\<close>

record nick_state =
  ns_world :: world
  ns_info :: "cid \<Rightarrow> nick_info"
  ns_env :: mode_env
  ns_hostname :: "cid hash_f"
  ns_nd :: "nat hash_f"
  ns_nd_list :: "(nat \<times> cstring) list"
  ns_global :: "cid list"
  ns_unknown :: "cid list"
  ns_lclient :: "cid list"
  ns_opers :: "cid list"
  ns_dead_list :: "cid list"
  ns_next :: cid
  ns_counts :: client_counts
  ns_out :: "nick_out list"

record nick_conf =
  nc_nicklen :: nat
  nc_nicklen_min :: nat
  nc_anti_nick_flood :: bool
  nc_max_nick_changes :: "32 word"
  nc_max_nick_time :: int
  nc_collision_fnc :: bool
  nc_hide_spoof_ips :: bool
  nc_resv_nick_list :: "cstring list"

abbreviation nclient :: "nick_state \<Rightarrow> cid \<Rightarrow> client" where "nclient s c \<equiv> client_of (ns_world s) c"

definition tell :: "nick_out \<Rightarrow> nick_state \<Rightarrow> nick_state" where
  "tell m s = s\<lparr>ns_out := ns_out s @ [m]\<rparr>"

definition upd_info :: "cid \<Rightarrow> (nick_info \<Rightarrow> nick_info) \<Rightarrow> nick_state \<Rightarrow> nick_state" where
  "upd_info c f s = s\<lparr>ns_info := (ns_info s)(c := f (ns_info s c))\<rparr>"

definition in_world :: "(world \<Rightarrow> world) \<Rightarrow> nick_state \<Rightarrow> nick_state" where
  "in_world f s = s\<lparr>ns_world := f (ns_world s)\<rparr>"

definition on_client_hash :: "(cid hash_f \<Rightarrow> cid hash_f) \<Rightarrow> nick_state \<Rightarrow> nick_state" where
  "on_client_hash f s = s\<lparr>ns_env := (ns_env s)\<lparr>me_hash_client := f (me_hash_client (ns_env s))\<rparr>\<rparr>"

definition on_id_hash :: "(cid hash_f \<Rightarrow> cid hash_f) \<Rightarrow> nick_state \<Rightarrow> nick_state" where
  "on_id_hash f s = s\<lparr>ns_env := (ns_env s)\<lparr>me_hash_id := f (me_hash_id (ns_env s))\<rparr>\<rparr>"

definition on_whowas :: "(wstate \<Rightarrow> wstate) \<Rightarrow> nick_state \<Rightarrow> nick_state" where
  "on_whowas f s = s\<lparr>ns_env := (ns_env s)\<lparr>me_whowas := f (me_whowas (ns_env s))\<rparr>\<rparr>"

definition on_counts :: "(client_counts \<Rightarrow> client_counts) \<Rightarrow> nick_state \<Rightarrow> nick_state" where
  "on_counts f s = s\<lparr>ns_counts := f (ns_counts s)\<rparr>"

definition add_history :: "cid \<Rightarrow> bool \<Rightarrow> nick_state \<Rightarrow> nick_state" where
  "add_history c online s = on_whowas (whowas_add_history (w_clients (ns_world s)) (w_time (ns_world s)) c online) s"

section \<open>Users on accept lists\<close>

definition from_on_allow_list :: "cid \<Rightarrow> cid \<Rightarrow> nick_state \<Rightarrow> nick_state" where
  "from_on_allow_list client_p target_p =
     upd_info target_p (\<lambda>i. i\<lparr>ni_on_allow_list := remove1 client_p (ni_on_allow_list i)\<rparr>)"

definition from_allow_list :: "cid \<Rightarrow> cid \<Rightarrow> nick_state \<Rightarrow> nick_state" where
  "from_allow_list client_p target_p =
     upd_info target_p (\<lambda>i. i\<lparr>ni_allow_list := remove1 client_p (ni_allow_list i)\<rparr>)"

definition leave_allow_lists :: "cid \<Rightarrow> nick_state \<Rightarrow> nick_state" where
  "leave_allow_lists client_p s =
     upd_info client_p (\<lambda>i. i\<lparr>ni_on_allow_list := []\<rparr>)
       (fold (from_allow_list client_p) (ni_on_allow_list (ns_info s client_p)) s)"

definition del_all_accepts :: "cid \<Rightarrow> nick_state \<Rightarrow> nick_state" where
  "del_all_accepts client_p s =
     leave_allow_lists client_p
       (if MyClient (nclient s client_p)
        then upd_info client_p (\<lambda>i. i\<lparr>ni_allow_list := []\<rparr>)
               (fold (from_on_allow_list client_p) (ni_allow_list (ns_info s client_p)) s)
        else s)"

section \<open>Leaving\<close>

definition update_client_exit_stats :: "cid \<Rightarrow> nick_state \<Rightarrow> nick_state" where
  "update_client_exit_stats c s =
     tell CheckSplit
     (if IsServer (nclient s c)
      then tell (Out (ToOpers (''Server '' @ cl_name (nclient s c) @ '' split from '' @ cl_name (nclient s (cl_servptr (nclient s c)))))) s
      else if IsClient (nclient s c)
      then on_counts (\<lambda>k. k\<lparr>ct_total := ct_total k - 1,
                            ct_oper := (if cl_oper (nclient s c) then ct_oper k - 1 else ct_oper k),
                            ct_invisi := (if cl_invisible (nclient s c) then ct_invisi k - 1 else ct_invisi k)\<rparr>) s
      else s)"

text \<open>A client whose links are both null is taken for one that is not in the list.\<close>

definition remove_client_from_list :: "cid \<Rightarrow> nick_state \<Rightarrow> nick_state" where
  "remove_client_from_list c s =
     (if c \<notin> set (ns_global s) \<or> ns_global s = [c] then s
      else update_client_exit_stats c (s\<lparr>ns_global := remove1 c (ns_global s)\<rparr>))"

definition userhost :: "client \<Rightarrow> cstring" where
  "userhost c = cl_name c @ ''!'' @ cl_username c @ ''@'' @ cl_host c"

definition exit_generic_client :: "cid \<Rightarrow> cstring \<Rightarrow> nick_state \<Rightarrow> nick_state" where
  "exit_generic_client source_p comment s0 =
     (let s1 = tell (Common source_p ('':'' @ userhost (nclient s0 source_p) @ '' QUIT :'' @ comment)) s0;
          s2 = del_all_accepts source_p (in_world (remove_user_from_channels source_p) s1);
          s3 = on_whowas (whowas_off_history source_p) (add_history source_p False s2);
          c = nclient s3 source_p;
          s4 = tell (CountNet source_p False) (tell (SignOff (cl_name c)) s3);
          s5 = (if has_id c then on_id_hash (hash_del (cl_id c) source_p) s4 else s4);
          s6 = s5\<lparr>ns_hostname := hash_del (cl_host c) source_p (ns_hostname s5)\<rparr>
      in remove_client_from_list source_p (on_client_hash (hash_del (cl_name c) source_p) s6))"

definition quit_to_servers :: "cid option \<Rightarrow> cid \<Rightarrow> cstring \<Rightarrow> nick_state \<Rightarrow> nick_state" where
  "quit_to_servers client_p source_p comment s =
     (if ni_killed (ns_info s source_p) then s
      else tell (Servers client_p 0 CAP_TS6 ('':'' @ cl_name (nclient s source_p) @ '' QUIT :'' @ comment))
             (tell (Servers client_p CAP_TS6 0 ('':'' @ use_id (nclient s source_p) @ '' QUIT :'' @ comment)) s))"

definition set_dead :: "cid \<Rightarrow> nick_state \<Rightarrow> nick_state" where
  "set_dead c s = upd_info c (\<lambda>i. i\<lparr>ni_dead := True\<rparr>) (s\<lparr>ns_dead_list := c # ns_dead_list s\<rparr>)"

definition leave_server :: "cid \<Rightarrow> cid \<Rightarrow> nick_state \<Rightarrow> nick_state" where
  "leave_server server c = upd_info server (\<lambda>i. i\<lparr>ni_users := remove1 c (ni_users i)\<rparr>)"

definition exit_remote_client :: "cid option \<Rightarrow> cid \<Rightarrow> cstring \<Rightarrow> nick_state \<Rightarrow> nick_state" where
  "exit_remote_client client_p source_p comment s =
     set_dead source_p
       (quit_to_servers client_p source_p comment
         (leave_server (cl_servptr (nclient s source_p)) source_p (exit_generic_client source_p comment s)))"

definition closing_text :: "nick_state \<Rightarrow> cid \<Rightarrow> cstring \<Rightarrow> cstring" where
  "closing_text s c comment =
     strlcpy (''Closing Link: '' @ (if cl_user (nclient s c) then cl_host (nclient s c) else ''127.0.0.1'') @ '' ('' @ comment @ '')'') REASONLEN"

text \<open>A client whose exit is delayed keeps its socket, unless it is broken. What is not a socket is freed or counted only.\<close>

definition close_connection :: "cid \<Rightarrow> nick_state \<Rightarrow> nick_state" where
  "close_connection c s =
     (if \<not> cl_myconnect (nclient s c) then s
      else in_world (upd_client c (\<lambda>x. x\<lparr>cl_myconnect := False\<rparr>))
             (upd_info c (\<lambda>i. i\<lparr>ni_socket := (ni_socket i \<and> ni_delay_exit i \<and> \<not> ni_ioerror i), ni_ioerror := True\<rparr>)
               (tell (CloseConnection c) s)))"

definition close_link :: "cid \<Rightarrow> cstring \<Rightarrow> cstring \<Rightarrow> nick_state \<Rightarrow> nick_state" where
  "close_link c reason delayed s =
     (let i = ns_info s c;
          s1 = (if \<not> ni_ioerror i \<and> \<not> ni_delay_exit i then tell (Out (ToOne c (''ERROR :'' @ reason))) s else s);
          s2 = close_connection c s1
      in if ni_delay_exit i \<and> ni_socket (ns_info s2 c)
         then upd_info c (\<lambda>i. i\<lparr>ni_socket := False\<rparr>) (tell (DelayExit c delayed) s2) else s2)"

definition exit_unknown_client :: "cid \<Rightarrow> cstring \<Rightarrow> nick_state \<Rightarrow> nick_state" where
  "exit_unknown_client source_p comment s0 =
     (let c = nclient s0 source_p;
          s1 = s0\<lparr>ns_unknown := remove1 source_p (ns_unknown s0)\<rparr>;
          s2 = close_link source_p (closing_text s1 source_p comment) comment s1;
          s3 = s2\<lparr>ns_hostname := hash_del (cl_host c) source_p (ns_hostname s2)\<rparr>
      in set_dead source_p (remove_client_from_list source_p (on_client_hash (hash_del (cl_name c) source_p) s3)))"

definition show_ip_opers :: "nick_conf \<Rightarrow> client \<Rightarrow> bool" where
  "show_ip_opers cfg c =
     (if cl_status c \<in> {STAT_SERVER, STAT_HANDSHAKE, STAT_CONNECTING} then False
      else if cl_ipspoof c then \<not> nc_hide_spoof_ips cfg else True)"

definition exit_local_client :: "nick_conf \<Rightarrow> cid option \<Rightarrow> cid \<Rightarrow> cstring \<Rightarrow> nick_state \<Rightarrow> nick_state" where
  "exit_local_client cfg client_p source_p comment s0 =
     (let s1 = tell (ClearMonitor source_p) (exit_generic_client source_p comment s0);
          s2 = leave_server me source_p (s1\<lparr>ns_lclient := remove1 source_p (ns_lclient s1)\<rparr>);
          s3 = (if cl_oper (nclient s2 source_p) then s2\<lparr>ns_opers := remove1 source_p (ns_opers s2)\<rparr> else s2);
          s4 = in_world (\<lambda>w. fold (\<lambda>ch. del_invite ch source_p) (cl_invited (client_of w source_p)) w) s3;
          c = nclient s4 source_p;
          ip = (if show_ip_opers cfg c then cl_sockhost c else ''255.255.255.255'');
          s5 = tell (Out (ToOpers (''Client exiting: '' @ cl_name c @ '' ('' @ cl_username c @ ''@'' @ cl_host c @ '') ['' @ comment @ ''] ['' @ ip @ '']''))) s4;
          s6 = tell (Out (ToOpers (''CLIEXIT '' @ cl_name c @ '' '' @ cl_username c @ '' '' @ cl_host c @ '' '' @ ip @ '' 0 '' @ comment))) s5;
          reason = closing_text s6 source_p comment
      in set_dead source_p (quit_to_servers client_p source_p comment (close_link source_p reason reason s6)))"

text \<open>The return value only tells whether the client that sent the command is gone.\<close>

definition exit_client :: "nick_conf \<Rightarrow> cid option \<Rightarrow> cid \<Rightarrow> cstring \<Rightarrow> nick_state \<Rightarrow> nick_state" where
  "exit_client cfg client_p source_p comment s0 =
     (if ni_closing (ns_info s0 source_p) then s0
      else
        let s = upd_info source_p (\<lambda>i. i\<lparr>ni_closing := True\<rparr>) s0; c = nclient s source_p in
        if cl_myconnect c then
          (if IsClient c then exit_local_client cfg client_p source_p comment s
           else if IsServer c then tell (LinkExits source_p comment) s
           else if cl_status c \<noteq> STAT_REJECT then exit_unknown_client source_p comment s
           else s)
        else if IsClient c then exit_remote_client client_p source_p comment s
        else if IsServer c then tell (LinkExits source_p comment) s
        else s)"

end
