(* ===== verification/Nick.thy ===== *)
theory Nick
  imports Exit Parse
begin

unbundle bit_operations_syntax

text \<open>
  \<open>modules/core/m_nick.c\<close>: NICK from clients and servers, UID, SAVE, and what happens when two clients have the same nick.
  A handler is \<open>None\<close> only if the loop of \<open>can_save\<close> does not end.
\<close>

definition CAP_SAVE :: "32 word" where "CAP_SAVE = 0x40000"
definition SAVE_NICKTS :: int where "SAVE_NICKTS = 100"

definition UMODE_WALLOP :: "32 word" where "UMODE_WALLOP = 0x0100"
definition UMODE_INVISIBLE :: "32 word" where "UMODE_INVISIBLE = 0x0400"
definition UMODE_SERVICE :: "32 word" where "UMODE_SERVICE = 0x40000"
definition UMODE_DEAF :: "32 word" where "UMODE_DEAF = 0x80000"
definition UMODE_OPER :: "32 word" where "UMODE_OPER = 0x100000"
definition UMODE_ADMIN :: "32 word" where "UMODE_ADMIN = 0x200000"

text \<open>
  \<open>UserModeBitmask(c) & SEND_UMODES\<close>; the other modes are not taken from servers. The check of \<open>S\<close> is compiled on request only.
\<close>

definition send_umode_bit :: "char \<Rightarrow> 32 word" where
  "send_umode_bit c =
     (if c = CHR ''D'' then UMODE_DEAF else if c = CHR ''S'' then UMODE_SERVICE else if c = CHR ''a'' then UMODE_ADMIN else if c = CHR ''i'' then UMODE_INVISIBLE
      else if c = CHR ''o'' then UMODE_OPER else if c = CHR ''w'' then UMODE_WALLOP else 0)"

section \<open>Checks\<close>

definition clean_nick :: "nick_conf \<Rightarrow> cstring \<Rightarrow> bool \<Rightarrow> bool" where
  "clean_nick cfg nick loc_client =
     (if nick = [] \<or> char_at nick 0 = CHR ''-'' then False
      else if loc_client \<and> IsDigit (char_at nick 0) then False
      else if \<not> list_all IsNickChar nick then False
      else if loc_client \<and> length nick < nc_nicklen_min cfg then False
      else length nick < nc_nicklen cfg)"

definition clean_username :: "cstring \<Rightarrow> bool" where
  "clean_username username = (list_all IsUserChar username \<and> length username \<le> USERLEN)"

definition clean_host :: "cstring \<Rightarrow> bool" where
  "clean_host host = (list_all IsHostChar host \<and> length host \<le> HOSTLEN)"

definition clean_uid :: "cstring \<Rightarrow> bool" where
  "clean_uid uid = (IsDigit (char_at uid 0) \<and> list_all IsIdChar (tl uid) \<and> length uid = IDLEN - 1)"

definition find_nick_resv :: "nick_conf \<Rightarrow> cstring \<Rightarrow> bool" where
  "find_nick_resv cfg name = list_ex (\<lambda>h. match_esc h name) (nc_resv_nick_list cfg)"

abbreviation nfind :: "nick_state \<Rightarrow> cstring \<Rightarrow> cid option" where
  "nfind s name \<equiv> find_client (ns_env s) name"

section \<open>Changing a nick\<close>

definition hash_rename :: "cid \<Rightarrow> cstring \<Rightarrow> nick_state \<Rightarrow> nick_state" where
  "hash_rename c nick s =
     on_client_hash (hash_add nick c)
       (in_world (upd_client c (\<lambda>x. x\<lparr>cl_name := nick\<rparr>)) (on_client_hash (hash_del (cl_name (nclient s c)) c) s))"

definition nick_to_servers :: "cid \<Rightarrow> cid \<Rightarrow> cstring \<Rightarrow> nick_state \<Rightarrow> nick_state" where
  "nick_to_servers client_p source_p nick s =
     (let c = nclient s source_p; ts = string_of_int (ni_tsinfo (ns_info s source_p))
      in tell (Servers (Some client_p) 0 CAP_TS6 ('':'' @ cl_name c @ '' NICK '' @ nick @ '' :'' @ ts))
           (tell (Servers (Some client_p) CAP_TS6 0 ('':'' @ use_id c @ '' NICK '' @ nick @ '' :'' @ ts)) s))"

definition same_nick :: "nick_state \<Rightarrow> cid \<Rightarrow> cstring \<Rightarrow> bool" where
  "same_nick s c nick = (irccmp (cl_name (nclient s c)) nick = 0)"

definition nick_too_fast :: "nick_conf \<Rightarrow> nick_state \<Rightarrow> cid \<Rightarrow> 32 word \<Rightarrow> bool" where
  "nick_too_fast cfg s source_p changes =
     (nc_anti_nick_flood cfg \<and> \<not> cl_oper (nclient s source_p) \<and> changes > nc_max_nick_changes cfg)"

text \<open>What is left of \<open>change_local_nick\<close> once the change is not refused.\<close>

definition do_local_nick :: "cid \<Rightarrow> cid \<Rightarrow> cstring \<Rightarrow> bool \<Rightarrow> nick_state \<Rightarrow> nick_state" where
  "do_local_nick client_p source_p nick dosend s1 =
     (let samenick = same_nick s1 source_p nick; now = w_time (ns_world s1); c = nclient s1 source_p;
          s2 = (if samenick then s1
                else in_world (\<lambda>w. if cl_user c then invalidate_bancache_user source_p w else w)
                       (tell (SignOff (cl_name c))
                         (upd_info source_p (\<lambda>i. i\<lparr>ni_tsinfo := (if ni_tsinfo i \<ge> now then ni_tsinfo i + 1 else now)\<rparr>) s1)));
          s3 = tell (Out (ToOpers (''Nick change: From '' @ cl_name c @ '' to '' @ nick @ '' ['' @ cl_username c @ ''@'' @ cl_host c @ '']''))) s2;
          s4 = tell (Common source_p ('':'' @ userhost c @ '' NICK :'' @ nick)) s3;
          s5 = (if cl_user c then
                  (let s = add_history source_p True s4
                   in if dosend then nick_to_servers client_p source_p nick s else s)
                else s4);
          s6 = hash_rename source_p nick s5;
          s7 = (if samenick then s6 else tell (SignOn nick) s6)
      in leave_allow_lists source_p s7)"

definition change_local_nick :: "nick_conf \<Rightarrow> cid \<Rightarrow> cid \<Rightarrow> cstring \<Rightarrow> bool \<Rightarrow> nick_state \<Rightarrow> nick_state" where
  "change_local_nick cfg client_p source_p nick dosend s =
     (if dosend then
        (let i = ns_info s source_p; now = w_time (ns_world s);
             changes = (if ni_last_nick_change i + nc_max_nick_time cfg < now then 0 else ni_nick_changes i);
             s1 = upd_info source_p (\<lambda>i. i\<lparr>ni_nick_changes := changes\<rparr>) s
         in if nick_too_fast cfg s source_p changes then
              tell (Out (Numeric source_p ''ERR_NICKTOOFAST'' [cl_name (nclient s source_p), nick, string_of_int (nc_max_nick_time cfg)])) s1
            else do_local_nick client_p source_p nick dosend
                   (upd_info source_p (\<lambda>i. i\<lparr>ni_last_nick_change := now, ni_nick_changes := changes + 1\<rparr>) s1))
      else do_local_nick client_p source_p nick dosend s)"

text \<open>An entry of the nick delay table goes when its nick is used.\<close>

definition free_nd_entry :: "nat \<Rightarrow> nick_state \<Rightarrow> nick_state" where
  "free_nd_entry ent s =
     (let name = (case map_of (ns_nd_list s) ent of Some n \<Rightarrow> n | None \<Rightarrow> [])
      in s\<lparr>ns_nd_list := filter (\<lambda>e. fst e \<noteq> ent) (ns_nd_list s), ns_nd := hash_del name ent (ns_nd s)\<rparr>)"

definition use_nick :: "cstring \<Rightarrow> nick_state \<Rightarrow> nick_state" where
  "use_nick nick s = (case hash_find_data (ns_nd s) nick of None \<Rightarrow> s | Some ent \<Rightarrow> free_nd_entry ent s)"

definition change_remote_nick :: "cid \<Rightarrow> cid \<Rightarrow> int \<Rightarrow> cstring \<Rightarrow> bool \<Rightarrow> nick_state \<Rightarrow> nick_state" where
  "change_remote_nick client_p source_p newts nick dosend s1 =
     (let samenick = same_nick s1 source_p nick; c = nclient s1 source_p;
          s2 = (if samenick then s1
                else tell (SignOff (cl_name c))
                       (upd_info source_p (\<lambda>i. i\<lparr>ni_tsinfo := (if newts \<noteq> 0 then newts else w_time (ns_world s1))\<rparr>) s1));
          s4 = tell (Common source_p ('':'' @ userhost c @ '' NICK :'' @ nick)) s2;
          s5 = (if cl_user c then
                  (let s = add_history source_p True s4
                   in if dosend then nick_to_servers client_p source_p nick s else s)
                else s4);
          s6 = on_client_hash (hash_del (cl_name c) source_p) s5;
          s7 = on_client_hash (hash_add nick source_p) (in_world (upd_client source_p (\<lambda>x. x\<lparr>cl_name := nick\<rparr>)) (use_nick nick s6));
          s8 = (if samenick then s7 else tell (SignOn nick) s7)
      in del_all_accepts source_p s8)"

section \<open>SAVE\<close>

text \<open>All servers on the way to a client must know SAVE.\<close>

partial_function (option) save_path :: "nick_state \<Rightarrow> cid \<Rightarrow> bool option" where
  "save_path s serv_p =
     (if serv_p = me then Some True
      else if ni_serv_caps (ns_info s serv_p) AND CAP_SAVE = 0 then Some False
      else save_path s (cl_servptr (nclient s serv_p)))"

definition can_save :: "nick_state \<Rightarrow> cid \<Rightarrow> bool option" where
  "can_save s target_p =
     (let c = nclient s target_p
      in if MyClient c then Some True
         else if \<not> has_id c then Some False
         else save_path s (if IsServer c then target_p else cl_servptr c))"

definition count_kill :: "nick_state \<Rightarrow> nick_state" where "count_kill = on_counts (\<lambda>k. k\<lparr>ct_kill := Suc (ct_kill k)\<rparr>)"
definition count_save :: "nick_state \<Rightarrow> nick_state" where "count_save = on_counts (\<lambda>k. k\<lparr>ct_save := Suc (ct_save k)\<rparr>)"

definition set_killed :: "cid \<Rightarrow> nick_state \<Rightarrow> nick_state" where
  "set_killed c = upd_info c (\<lambda>i. i\<lparr>ni_killed := True\<rparr>)"

definition my_reason :: "nick_state \<Rightarrow> cstring \<Rightarrow> cstring" where
  "my_reason s text = cl_name (nclient s me) @ '' '' @ text"

definition save_user :: "nick_conf \<Rightarrow> cid \<Rightarrow> cid \<Rightarrow> cid \<Rightarrow> nick_state \<Rightarrow> nick_state" where
  "save_user cfg client_p source_p target_p s =
     (let t = nclient s target_p; src = nclient s source_p; from = nclient s (ni_from (ns_info s target_p)) in
      if \<not> cl_myconnect t \<and> (\<not> has_id t \<or> \<not> IsCapable from CAP_SAVE) then
        exit_client cfg None target_p ''Nick collision (no SAVE support)''
          (set_killed target_p (count_kill
            (tell (KillServ None target_p (my_reason s ''(Nick collision (no SAVE support))''))
              (tell (Out (ToOpers (''Killed '' @ userhost t @ '' for nick collision detected by '' @ cl_name src @ '' ('' @ cl_name from @
                 '' does not support SAVE)''))) s))))
      else
        (let s1 = tell (Servers (Some client_p) 0 CAP_TS6 ('':'' @ cl_name t @ '' NICK '' @ cl_id t @ '' :100''))
                    (tell (Servers (Some client_p) CAP_TS6 CAP_SAVE ('':'' @ cl_id t @ '' NICK '' @ cl_id t @ '' :100''))
                      (tell (Servers (Some client_p) (CAP_SAVE OR CAP_TS6) 0
                              ('':'' @ cl_id src @ '' SAVE '' @ cl_id t @ '' '' @ string_of_int (ni_tsinfo (ns_info s target_p)))) s));
             s2 = (if IsMe (nclient s client_p) then s1
                   else tell (Out (ToOpers (''Received SAVE message for '' @ cl_name t @ '' from '' @ cl_name src))) s1)
         in if MyClient t then
              upd_info target_p (\<lambda>i. i\<lparr>ni_tsinfo := SAVE_NICKTS\<rparr>)
                (change_local_nick cfg target_p target_p (cl_id t) False (tell (Out (Numeric target_p ''RPL_SAVENICK'' [cl_id t])) s2))
            else change_remote_nick target_p target_p SAVE_NICKTS (cl_id t) False s2))"

section \<open>New clients\<close>

definition umode_step :: "cid \<Rightarrow> char \<Rightarrow> nick_state \<Rightarrow> nick_state" where
  "umode_step c m s =
     (let flag = send_umode_bit m; old = ni_umodes (ns_info s c);
          s1 = (if old AND UMODE_INVISIBLE = 0 \<and> flag AND UMODE_INVISIBLE \<noteq> 0
                then on_counts (\<lambda>k. k\<lparr>ct_invisi := ct_invisi k + 1\<rparr>) s else s);
          s2 = (if old AND UMODE_OPER = 0 \<and> flag AND UMODE_OPER \<noteq> 0
                then on_counts (\<lambda>k. k\<lparr>ct_oper := ct_oper k + 1\<rparr>) s1 else s1);
          new = old OR flag
      in in_world (upd_client c (\<lambda>x. x\<lparr>cl_invisible := new AND UMODE_INVISIBLE \<noteq> 0, cl_oper := new AND UMODE_OPER \<noteq> 0\<rparr>))
           (upd_info c (\<lambda>i. i\<lparr>ni_umodes := new\<rparr>) s2))"

text \<open>The client that \<open>register_client\<close> fills in before it looks for the server.\<close>

definition new_client :: "cstring \<Rightarrow> cstring list \<Rightarrow> cid \<Rightarrow> client" where
  "new_client nick parv server =
     \<lparr>cl_name = nick, cl_username = strlcpy (parv ! 5) (USERLEN + 1), cl_host = strlcpy (parv ! 6) (HOSTLEN + 1),
      cl_sockhost = (if length parv = 10 then strlcpy (parv ! 7) (HOSTIPLEN + 1) else []),
      cl_info = strlcpy (parv ! (if length parv = 10 then 9 else 8)) (REALLEN + 1),
      cl_id = (if length parv = 10 then strlcpy (parv ! 8) (IDLEN + 1) else []),
      cl_status = STAT_UNKNOWN, cl_myconnect = False, cl_servptr = server, cl_user = True, cl_channel = [], cl_invited = [],
      cl_invisible = False, cl_oper = False, cl_operspy = False, cl_exemptresv = False, cl_ipspoof = False, cl_caps = 0,
      cl_join_leave_count = 0, cl_last_join_time = 0, cl_last_leave_time = 0, cl_oper_warn_count_down = 0,
      cl_flood_done = False, cl_allow_read = 0, cl_sent_parsed = 0\<rparr>"

definition new_info :: "cid \<Rightarrow> int \<Rightarrow> 8 word \<Rightarrow> nick_info" where
  "new_info from newts hops =
     \<lparr>ni_tsinfo = newts, ni_from = from, ni_fake = False, ni_killed = False, ni_closing = False, ni_dead = False, ni_ioerror = False,
      ni_delay_exit = False, ni_socket = False, ni_sent_user = False, ni_last_nick_change = 0, ni_nick_changes = 0,
      ni_allow_list = [], ni_on_allow_list = [], ni_users = [], ni_hopcount = hops, ni_umodes = 0, ni_serv_caps = 0\<rparr>"

definition allocate_client :: "nick_info \<Rightarrow> client \<Rightarrow> nick_state \<Rightarrow> nick_state" where
  "allocate_client i c s =
     in_world (\<lambda>w. w\<lparr>w_clients := (w_clients w)(ns_next s := c)\<rparr>)
       (s\<lparr>ns_info := (ns_info s)(ns_next s := i), ns_next := Suc (ns_next s)\<rparr>)"

definition insert_client :: "cid \<Rightarrow> cid \<Rightarrow> cstring \<Rightarrow> nick_state \<Rightarrow> nick_state" where
  "insert_client c server nick s0 =
     (let s1 = s0\<lparr>ns_global := ns_global s0 @ [c]\<rparr>;
          s2 = use_nick nick (upd_info server (\<lambda>i. i\<lparr>ni_users := c # ni_users i\<rparr>) s1);
          s3 = on_client_hash (hash_add nick c) s2;
          s4 = s3\<lparr>ns_hostname := hash_add (cl_host (nclient s3 c)) c (ns_hostname s3)\<rparr>
      in tell (SignOn nick) (tell (CountNet c True) s4))"

definition wrong_direction :: "nick_conf \<Rightarrow> cid \<Rightarrow> cid \<Rightarrow> cid \<Rightarrow> nick_state \<Rightarrow> nick_state" where
  "wrong_direction cfg client_p srv c s =
     (let from = ni_from (ns_info s srv); via = cl_name (nclient s (ni_from (ns_info s from))); sname = cl_name (nclient s srv); x = nclient s c
      in exit_client cfg (Some c) c ''USER server wrong direction''
           (set_killed c
             (tell (KillOne client_p c (my_reason s (''(NICK from wrong direction ('' @ sname @ '' != '' @ via @ ''))'')))
               (tell (Out (ToOpers (''Bad User ['' @ cl_name (nclient s client_p) @ ''] :'' @ cl_name x @ '' USER '' @ cl_username x @ ''@'' @
                  cl_host x @ '' '' @ sname @ '', != '' @ cl_name (nclient s from) @ ''['' @ via @ '']''))) s))))"

definition register_user :: "nick_conf \<Rightarrow> cid \<Rightarrow> cid \<Rightarrow> cstring \<Rightarrow> int \<Rightarrow> cstring list \<Rightarrow> nick_state \<Rightarrow> nick_state" where
  "register_user cfg client_p srv nick newts parv s0 =
     (let c = ns_next s0;
          s1 = allocate_client (new_info client_p newts (word_of_int (atoi (parv ! 2)))) (new_client nick parv srv) s0;
          s2 = (if length parv = 10 then on_id_hash (hash_add (cl_id (nclient s1 c)) c) s1 else s1);
          s3 = insert_client c srv nick s2;
          s4 = fold (umode_step c) (drop 1 (parv ! 4)) s3;
          s5 = in_world (upd_client c (\<lambda>x. x\<lparr>cl_status := STAT_CLIENT\<rparr>)) s4;
          s6 = on_counts (\<lambda>k. k\<lparr>ct_total := ct_total k + 1, ct_max_tot := max (ct_max_tot k) (ct_total k + 1)\<rparr>) s5
      in if ni_from (ns_info s6 srv) \<noteq> client_p then wrong_direction cfg client_p srv c s6
         else tell (Introduced (Some client_p) c) s6)"

text \<open>Without a UID the user names its server; the client made for a user of no server is freed again.\<close>

definition register_client :: "nick_conf \<Rightarrow> cid \<Rightarrow> cid option \<Rightarrow> cstring \<Rightarrow> int \<Rightarrow> cstring list \<Rightarrow> nick_state \<Rightarrow> nick_state" where
  "register_client cfg client_p server nick newts parv s0 =
     (case (if length parv = 10 then server else find_server (ns_env s0) (ns_world s0) None (parv ! 7)) of
        None \<Rightarrow>
          tell (KillOne client_p (ns_next s0) (my_reason s0 ''(Server doesn't exist)''))
            (tell (Out (ToOpers (''Ghost killed: '' @ nick @ '' on invalid server '' @ parv ! 7))) s0)
      | Some srv \<Rightarrow> register_user cfg client_p srv nick newts parv s0)"

section \<open>Collisions\<close>

text \<open>\<open>sendto_one(client_p, \<dots>)\<close> of a KILL for a UID, and of a SAVE.\<close>

definition kill_uid :: "cid \<Rightarrow> cstring \<Rightarrow> nick_state \<Rightarrow> nick_state" where
  "kill_uid client_p uid s =
     tell (Out (ToOne client_p ('':'' @ cl_id (nclient s me) @ '' KILL '' @ uid @ '' :'' @ cl_name (nclient s me) @ '' (Nick collision (new))''))) s"

definition save_uid :: "cid \<Rightarrow> cstring \<Rightarrow> int \<Rightarrow> nick_state \<Rightarrow> nick_state" where
  "save_uid client_p uid newts s =
     tell (Out (ToOne client_p ('':'' @ cl_id (nclient s me) @ '' SAVE '' @ uid @ '' '' @ string_of_int newts))) s"

definition nick_collision :: "cid \<Rightarrow> nick_state \<Rightarrow> nick_state" where
  "nick_collision target_p s = tell (Out (Numeric target_p ''ERR_NICKCOLLISION'' [cl_name (nclient s target_p)])) s"

definition kill_target :: "nick_conf \<Rightarrow> cid option \<Rightarrow> cid option \<Rightarrow> cid \<Rightarrow> cstring \<Rightarrow> cstring \<Rightarrow> nick_state \<Rightarrow> nick_state" where
  "kill_target cfg butone client_p target_p killed comment s =
     exit_client cfg client_p target_p comment
       (set_killed target_p (count_kill (tell (KillServ butone target_p (my_reason s killed)) s)))"

definition collision_notice :: "nick_state \<Rightarrow> cid \<Rightarrow> cid \<Rightarrow> cstring \<Rightarrow> nick_state \<Rightarrow> nick_state" where
  "collision_notice s0 client_p target_p what s =
     tell (Out (ToOpers (''Nick collision on '' @ cl_name (nclient s0 target_p) @ ''('' @ cl_name (nclient s0 (ni_from (ns_info s0 target_p))) @
       '' <- '' @ cl_name (nclient s0 client_p) @ '')('' @ what @ '')''))) s"

definition action_name :: "bool \<Rightarrow> cstring" where
  "action_name use_save = (if use_save then ''saved'' else ''killed'')"

text \<open>Services are introduced again.\<close>

definition fake_survives :: "cid \<Rightarrow> nick_state \<Rightarrow> nick_state" where
  "fake_survives target_p s =
     tell (ServiceCollision target_p) (tell (Introduced None target_p)
       (tell (KillServ None target_p (my_reason s ''(Nickname collision (new))'')) s))"

definition opt_and :: "bool option \<Rightarrow> bool option \<Rightarrow> bool option" where
  "opt_and a b = (case a of None \<Rightarrow> None | Some False \<Rightarrow> Some False | Some True \<Rightarrow> b)"

definition no_ts :: "int \<Rightarrow> int \<Rightarrow> bool" where
  "no_ts newts oldts = (newts = 0 \<or> oldts = 0 \<or> newts = oldts)"

text \<open>The client that is there keeps its nick: it is older, or newer and of the same user.\<close>

definition old_one_stays :: "bool \<Rightarrow> int \<Rightarrow> int \<Rightarrow> bool" where
  "old_one_stays sameuser newts oldts = ((sameuser \<and> newts < oldts) \<or> (\<not> sameuser \<and> newts > oldts))"

definition nick_collides ::
  "nick_conf \<Rightarrow> cid \<Rightarrow> cid \<Rightarrow> cid \<Rightarrow> cstring list \<Rightarrow> int \<Rightarrow> cstring \<Rightarrow> cstring option \<Rightarrow> bool \<Rightarrow> nick_state \<Rightarrow> nick_state" where
  "nick_collides cfg source_p client_p target_p parv newts nick uid use_save s =
     (let t = nclient s target_p; tts = ni_tsinfo (ns_info s target_p); fake = ni_fake (ns_info s target_p);
          sameuser = (cl_user t \<and> irccmp (cl_username t) (parv ! 5) = 0 \<and> irccmp (cl_host t) (parv ! 6) = 0);
          id = (case uid of Some u \<Rightarrow> u | None \<Rightarrow> [])
      in if no_ts newts tts then
           (let s1 = collision_notice s client_p target_p (''both '' @ action_name use_save) s in
            if fake then fake_survives target_p s1
            else if use_save then
              register_client cfg client_p (Some source_p) id SAVE_NICKTS parv
                (save_uid client_p id newts (count_save (save_user cfg me me target_p s1)))
            else kill_target cfg None (Some client_p) target_p ''(Nick collision (new))'' ''Nick collision (new)''
                   (if uid \<noteq> None then kill_uid client_p id (nick_collision target_p s1) else nick_collision target_p s1))
         else if old_one_stays sameuser newts tts then
           (if use_save then register_client cfg client_p (Some source_p) id SAVE_NICKTS parv (save_uid client_p id newts s)
            else if uid \<noteq> None then kill_uid client_p id s
            else s)
         else
           (let s1 = collision_notice s client_p target_p ((if sameuser then ''older '' else ''newer '') @ action_name use_save) s in
            if fake then fake_survives target_p (count_kill s1)
            else register_client cfg client_p (if length parv = 10 then Some source_p else None) nick newts parv
                   (if use_save then save_user cfg me me target_p (count_save s1)
                    else kill_target cfg (Some client_p) (Some client_p) target_p ''(Nick collision (new))'' ''Nick collision''
                           (nick_collision target_p s1))))"

definition perform_nick_collides ::
  "nick_conf \<Rightarrow> cid \<Rightarrow> cid \<Rightarrow> cid \<Rightarrow> cstring list \<Rightarrow> int \<Rightarrow> cstring \<Rightarrow> cstring option \<Rightarrow> nick_state \<Rightarrow> nick_state option" where
  "perform_nick_collides cfg source_p client_p target_p parv newts nick uid s =
     map_option (\<lambda>use_save. nick_collides cfg source_p client_p target_p parv newts nick uid use_save s)
       (opt_and (if nc_collision_fnc cfg then can_save s target_p else Some False)
         (if uid \<noteq> None then can_save s source_p else Some False))"

text \<open>A user that is known here takes a nick that is in use.\<close>

definition change_notice :: "nick_state \<Rightarrow> cid \<Rightarrow> cid \<Rightarrow> cid \<Rightarrow> cstring \<Rightarrow> nick_state \<Rightarrow> nick_state" where
  "change_notice s0 source_p client_p target_p what s =
     tell (Out (ToOpers (''Nick change collision from '' @ cl_name (nclient s0 source_p) @ '' to '' @ cl_name (nclient s0 target_p) @ ''('' @
       cl_name (nclient s0 (ni_from (ns_info s0 target_p))) @ '' <- '' @ cl_name (nclient s0 client_p) @ '')('' @ what @ '')''))) s"

definition save_source :: "cid \<Rightarrow> cid \<Rightarrow> int \<Rightarrow> nick_state \<Rightarrow> nick_state" where
  "save_source client_p source_p newts s0 =
     (let id = cl_id (nclient s0 source_p); s = save_uid client_p id newts s0
      in if IsDigit (char_at (cl_name (nclient s source_p)) 0) then s
         else change_remote_nick client_p source_p SAVE_NICKTS id True s)"

definition both_collide :: "nick_conf \<Rightarrow> cid \<Rightarrow> cid \<Rightarrow> cid \<Rightarrow> int \<Rightarrow> bool \<Rightarrow> nick_state \<Rightarrow> nick_state" where
  "both_collide cfg source_p client_p target_p newts use_save s =
     (let s1 = change_notice s source_p client_p target_p (''both '' @ action_name use_save) s; fake = ni_fake (ns_info s target_p) in
      if use_save \<and> \<not> fake then
        save_source client_p source_p newts (save_user cfg me me target_p (count_save (count_save s1)))
      else
        (let s2 = count_kill s1;
             s3 = (if fake then fake_survives target_p s2
                   else tell (KillServ None source_p (my_reason s ''(Nick change collision)'')) (nick_collision target_p s2));
             s4 = kill_target cfg None None target_p ''(Nick change collision)'' ''Nick collision(new)'' s3
         in exit_client cfg (Some client_p) source_p ''Nick collision(old)'' (set_killed source_p s4)))"

definition source_loses :: "nick_conf \<Rightarrow> cid \<Rightarrow> cid \<Rightarrow> cid \<Rightarrow> bool \<Rightarrow> int \<Rightarrow> bool \<Rightarrow> nick_state \<Rightarrow> nick_state" where
  "source_loses cfg source_p client_p target_p sameuser newts use_save s =
     (let s1 = change_notice s source_p client_p target_p ((if sameuser then ''older '' else ''newer '') @ action_name use_save) s in
      if use_save then save_source client_p source_p newts (count_save s1)
      else kill_target cfg (Some client_p) (Some client_p) source_p ''(Nick change collision)''
             (if sameuser then ''Nick collision(old)'' else ''Nick collision(new)'') (nick_collision source_p s1))"

definition target_loses :: "nick_conf \<Rightarrow> cid \<Rightarrow> cid \<Rightarrow> bool \<Rightarrow> bool \<Rightarrow> nick_state \<Rightarrow> nick_state" where
  "target_loses cfg client_p target_p sameuser use_save s =
     (let s1 = collision_notice s client_p target_p ((if sameuser then ''older '' else ''newer '') @ action_name use_save) s in
      if use_save then save_user cfg me me target_p (count_save s1)
      else kill_target cfg (Some client_p) (Some client_p) target_p ''(Nick collision)'' ''Nick collision'' (nick_collision target_p s1))"

definition nickchange_collides ::
  "nick_conf \<Rightarrow> cid \<Rightarrow> cid \<Rightarrow> cid \<Rightarrow> int \<Rightarrow> cstring \<Rightarrow> bool \<Rightarrow> nick_state \<Rightarrow> nick_state" where
  "nickchange_collides cfg source_p client_p target_p newts nick use_save s =
     (let t = nclient s target_p; c = nclient s source_p; tts = ni_tsinfo (ns_info s target_p);
          sameuser = (irccmp (cl_username t) (cl_username c) = 0 \<and> irccmp (cl_host t) (cl_host c) = 0)
      in if no_ts newts tts \<or> \<not> cl_user c then both_collide cfg source_p client_p target_p newts use_save s
         else if old_one_stays sameuser newts tts then source_loses cfg source_p client_p target_p sameuser newts use_save s
         else change_remote_nick client_p source_p newts nick True (target_loses cfg client_p target_p sameuser use_save s))"

definition perform_nickchange_collides ::
  "nick_conf \<Rightarrow> cid \<Rightarrow> cid \<Rightarrow> cid \<Rightarrow> int \<Rightarrow> cstring \<Rightarrow> nick_state \<Rightarrow> nick_state option" where
  "perform_nickchange_collides cfg source_p client_p target_p newts nick s =
     map_option (\<lambda>use_save. nickchange_collides cfg source_p client_p target_p newts nick use_save s)
       (opt_and (if nc_collision_fnc cfg then can_save s target_p else Some False) (can_save s source_p))"

section \<open>Handlers\<close>

definition IsUnknown :: "client \<Rightarrow> bool" where "IsUnknown c = (cl_status c = STAT_UNKNOWN)"

definition num :: "cid \<Rightarrow> cstring \<Rightarrow> cstring list \<Rightarrow> nick_state \<Rightarrow> nick_state" where
  "num c n args = tell (Out (Numeric c n args))"

definition no_nick_given :: "cstring list \<Rightarrow> bool" where
  "no_nick_given parv = (length parv < 2 \<or> parv ! 1 = [] \<or> char_at (parv ! 1) 0 = CHR ''~'')"

definition up_to_tilde :: "cstring \<Rightarrow> cstring" where "up_to_tilde = takeWhile (\<lambda>c. c \<noteq> CHR ''~'')"

definition set_initial_nick :: "cid \<Rightarrow> cid \<Rightarrow> cstring \<Rightarrow> nick_state \<Rightarrow> nick_state" where
  "set_initial_nick client_p source_p nick s =
     (let s1 = upd_info source_p (\<lambda>i. i\<lparr>ni_tsinfo := w_time (ns_world s)\<rparr>) s; old = cl_name (nclient s source_p);
          s2 = (if old \<noteq> [] then on_client_hash (hash_del old source_p) s1 else s1);
          s3 = on_client_hash (hash_add nick source_p) (in_world (upd_client source_p (\<lambda>x. x\<lparr>cl_user := True, cl_name := nick\<rparr>)) s2)
      in if ni_sent_user (ns_info s source_p) then tell (Registers client_p source_p (cl_username (nclient s source_p))) s3 else s3)"

definition mr_nick :: "nick_conf \<Rightarrow> cid \<Rightarrow> cid \<Rightarrow> cstring list \<Rightarrow> nick_state \<Rightarrow> nick_state" where
  "mr_nick cfg client_p source_p parv s =
     (if no_nick_given parv then num source_p ''ERR_NONICKNAMEGIVEN'' [] s
      else
        let arg = up_to_tilde (parv ! 1); nick = strlcpy arg (nc_nicklen cfg) in
        if \<not> clean_nick cfg nick True then num source_p ''ERR_ERRONEUSNICKNAME'' [arg] s
        else if \<not> cl_exemptresv (nclient s source_p) \<and> find_nick_resv cfg nick then num source_p ''ERR_ERRONEUSNICKNAME'' [nick] s
        else if hash_find_data (ns_nd s) nick \<noteq> None then num source_p ''ERR_UNAVAILRESOURCE'' [nick] s
        else case nfind s nick of
               None \<Rightarrow> set_initial_nick client_p source_p nick s
             | Some target_p \<Rightarrow>
                 if source_p = target_p then in_world (upd_client source_p (\<lambda>x. x\<lparr>cl_name := nick\<rparr>)) s
                 else num source_p ''ERR_NICKNAMEINUSE'' [nick] s)"

definition m_nick :: "nick_conf \<Rightarrow> cid \<Rightarrow> cid \<Rightarrow> cstring list \<Rightarrow> nick_state \<Rightarrow> nick_state" where
  "m_nick cfg client_p source_p parv s0 =
     (if no_nick_given parv then num source_p ''ERR_NONICKNAMEGIVEN'' [] s0
      else
        let nick = strlcpy (up_to_tilde (parv ! 1)) (nc_nicklen cfg);
            s = (if \<not> cl_flood_done (nclient s0 source_p) then in_world (flood_endgrace source_p) s0 else s0) in
        if \<not> clean_nick cfg nick True then num source_p ''ERR_ERRONEUSNICKNAME'' [nick] s
        else if find_nick_resv cfg nick then num source_p ''ERR_ERRONEUSNICKNAME'' [nick] s
        else if hash_find_data (me_hash_client (ns_env s)) nick \<noteq> None then num source_p ''ERR_UNAVAILRESOURCE'' [nick] s
        else case nfind s nick of
               None \<Rightarrow> change_local_nick cfg client_p source_p nick True s
             | Some target_p \<Rightarrow>
                 if target_p = source_p then
                   (if cl_name (nclient s target_p) \<noteq> nick then change_local_nick cfg client_p source_p nick True s else s)
                 else if IsUnknown (nclient s target_p) then
                   change_local_nick cfg client_p source_p nick True (exit_client cfg None target_p ''Overridden'' s)
                 else num source_p ''ERR_NICKNAMEINUSE'' [nick] s)"

definition mc_nick :: "nick_conf \<Rightarrow> cid \<Rightarrow> cid \<Rightarrow> cstring list \<Rightarrow> nick_state \<Rightarrow> nick_state option" where
  "mc_nick cfg client_p source_p parv s =
     (let nick = parv ! 1; via = cl_name (nclient s client_p); sname = cl_name (nclient s (cl_servptr (nclient s source_p)));
          newts = strtol10 (parv ! 2) in
      if \<not> clean_nick cfg nick False then
        Some (exit_client cfg (Some client_p) source_p ''Bad Nickname''
          (set_killed source_p
            (tell (KillServ (Some client_p) source_p (my_reason s ''(Bad Nickname)''))
              (tell (Out (ToOne client_p ('':'' @ cl_name (nclient s me) @ '' KILL '' @ nick @ '' :'' @ cl_name (nclient s me) @ '' (Bad Nickname)'')))
                (tell (Out (ToOpers (''Bad Nick: '' @ nick @ '' From: '' @ sname @ ''(via '' @ via @ '')''))) (count_kill s))))))
      else case nfind s nick of
             None \<Rightarrow> Some (change_remote_nick client_p source_p newts nick True s)
           | Some target_p \<Rightarrow>
               if IsUnknown (nclient s target_p) then
                 Some (change_remote_nick client_p source_p newts nick True (exit_client cfg None target_p ''Overridden'' s))
               else if target_p = source_p then
                 Some (if cl_name (nclient s target_p) \<noteq> nick then change_remote_nick client_p source_p newts nick True s else s)
               else perform_nickchange_collides cfg source_p client_p target_p newts nick s)"

text \<open>A user that is refused: \<open>KILL\<close> for the nick or the UID back to the server that sent it.\<close>

definition refuse_user :: "cid \<Rightarrow> cstring \<Rightarrow> cstring \<Rightarrow> cstring \<Rightarrow> cstring \<Rightarrow> cstring \<Rightarrow> nick_state \<Rightarrow> nick_state" where
  "refuse_user client_p kind what from victim mine s =
     tell (Out (ToOne client_p ('':'' @ mine @ '' KILL '' @ victim @ '' :'' @ cl_name (nclient s me) @ '' (Bad '' @ kind @ '')'')))
       (tell (Out (ToOpers (what @ '' From: '' @ from @ ''(via '' @ cl_name (nclient s client_p) @ '')''))) (count_kill s))"

definition drop_server :: "nick_conf \<Rightarrow> cid \<Rightarrow> cstring \<Rightarrow> nat \<Rightarrow> cstring \<Rightarrow> nick_state \<Rightarrow> nick_state" where
  "drop_server cfg client_p cmd n expected s =
     exit_client cfg (Some client_p) client_p (''Excess parameters to '' @ cmd @ '' command'')
       (tell (Out (ToOpers (''Dropping server '' @ cl_name (nclient s client_p) @ '' due to (invalid) command '' @ CHR 0x27 # cmd @ CHR 0x27 # '' with '' @
          string_of_int (int n) @ '' arguments (expecting '' @ expected @ '')''))) s)"

definition ms_nick :: "nick_conf \<Rightarrow> cid \<Rightarrow> cid \<Rightarrow> cstring list \<Rightarrow> nick_state \<Rightarrow> nick_state option" where
  "ms_nick cfg client_p source_p parv0 s =
     (let nick = parv0 ! 1; my = cl_name (nclient s me) in
      if length parv0 \<noteq> 9 then Some (drop_server cfg client_p ''NICK'' (length parv0) ''9'' s)
      else if \<not> clean_nick cfg nick False then
        Some (refuse_user client_p ''Nickname'' (''Bad Nick: '' @ nick) (parv0 ! 7) nick my s)
      else if \<not> clean_username (parv0 ! 5) \<or> \<not> clean_host (parv0 ! 6) then
        Some (refuse_user client_p ''user@host'' (''Bad user@host: '' @ parv0 ! 5 @ ''@'' @ parv0 ! 6) (parv0 ! 7) nick my s)
      else
        let parv = (if length (parv0 ! 8) > REALLEN then parv0[8 := take REALLEN (parv0 ! 8)] else parv0); newts = strtol10 (parv ! 3)
        in case nfind s nick of
             None \<Rightarrow> Some (register_client cfg client_p None nick newts parv s)
           | Some target_p \<Rightarrow>
               if IsUnknown (nclient s target_p) then
                 Some (register_client cfg client_p None nick newts parv (exit_client cfg None target_p ''Overridden'' s))
               else if target_p = source_p then
                 Some (if cl_name (nclient s target_p) \<noteq> nick then register_client cfg client_p None nick newts parv s else s)
               else perform_nick_collides cfg source_p client_p target_p parv newts nick None s)"

definition ms_uid :: "nick_conf \<Rightarrow> cid \<Rightarrow> cid \<Rightarrow> cstring list \<Rightarrow> nick_state \<Rightarrow> nick_state option" where
  "ms_uid cfg client_p source_p parv0 s =
     (let nick = parv0 ! 1; my = cl_id (nclient s me); uid = parv0 ! 8; sname = cl_name (nclient s source_p) in
      if length parv0 \<noteq> 10 then Some (drop_server cfg client_p ''UID'' (length parv0) ''10'' s)
      else if \<not> clean_nick cfg nick False then
        Some (refuse_user client_p ''Nickname'' (''Bad Nick: '' @ nick) sname uid my s)
      else if \<not> clean_username (parv0 ! 5) \<or> \<not> clean_host (parv0 ! 6) then
        Some (refuse_user client_p ''user@host'' (''Bad user@host: '' @ parv0 ! 5 @ ''@'' @ parv0 ! 6) sname uid my s)
      else if \<not> clean_uid uid then Some (refuse_user client_p ''UID'' (''Bad UID: '' @ uid) sname uid my s)
      else
        let parv = (if length (parv0 ! 9) > REALLEN then parv0[9 := take REALLEN (parv0 ! 9)] else parv0); newts = strtol10 (parv ! 3)
        in case nfind s nick of
             None \<Rightarrow> Some (register_client cfg client_p (Some source_p) nick newts parv s)
           | Some target_p \<Rightarrow>
               if IsUnknown (nclient s target_p) then
                 Some (register_client cfg client_p (Some source_p) nick newts parv (exit_client cfg None target_p ''Overridden'' s))
               else perform_nick_collides cfg source_p client_p target_p parv newts nick (Some uid) s)"

definition ms_save :: "nick_conf \<Rightarrow> cid \<Rightarrow> cid \<Rightarrow> cstring list \<Rightarrow> nick_state \<Rightarrow> nick_state" where
  "ms_save cfg client_p source_p parv s =
     (case hash_find_data (me_hash_id (ns_env s)) (parv ! 1) of
        None \<Rightarrow> s
      | Some target_p \<Rightarrow>
          let t = nclient s target_p; from = cl_name t @ '' from '' @ cl_name (nclient s source_p) in
          if \<not> IsClient t then tell (Out (ToOpers (''Ignored SAVE message for non-person '' @ from))) s
          else if IsDigit (char_at (cl_name t) 0) then tell (Out (ToOpers (''Ignored noop SAVE message for '' @ from))) s
          else if ni_tsinfo (ns_info s target_p) = strtol10 (parv ! 2) then save_user cfg client_p source_p target_p s
          else tell (Out (ToOpers (''Ignored SAVE message for '' @ from))) s)"

end
