(* ===== verification/NickProps.thy ===== *)
theory NickProps
  imports Nick
begin

text \<open>
  What the commands of \<open>Nick\<close> do to the table of nicks. \<open>nv\<close> is the part of the state that matters: the table, who each client is,
  and who is about to be freed. Leaving, taking another nick and coming in are one step on it each; every command is a
  sequence of such steps.
\<close>

record who =
  wh_name :: cstring
  wh_id :: cstring
  wh_status :: client_status
  wh_myconnect :: bool

record nview =
  nv_hash :: "cid hash_f"
  nv_ids :: "cid hash_f"
  nv_who :: "cid \<Rightarrow> who"
  nv_closing :: "cid \<Rightarrow> bool"
  nv_next :: cid

definition whois_of :: "client \<Rightarrow> who" where
  "whois_of c = \<lparr>wh_name = cl_name c, wh_id = cl_id c, wh_status = cl_status c, wh_myconnect = cl_myconnect c\<rparr>"

definition nv :: "nick_state \<Rightarrow> nview" where
  "nv s = \<lparr>nv_hash = me_hash_client (ns_env s), nv_ids = me_hash_id (ns_env s), nv_who = (\<lambda>c. whois_of (nclient s c)), nv_closing = (\<lambda>c. ni_closing (ns_info s c)),
           nv_next = ns_next s\<rparr>"

definition nv_exit :: "cid \<Rightarrow> nview \<Rightarrow> nview" where
  "nv_exit c v =
     v\<lparr>nv_hash := hash_del (wh_name (nv_who v c)) c (nv_hash v),
       nv_ids := (if wh_id (nv_who v c) \<noteq> [] then hash_del (wh_id (nv_who v c)) c (nv_ids v) else nv_ids v),
       nv_closing := (nv_closing v)(c := True), nv_who := (nv_who v)(c := (nv_who v c)\<lparr>wh_myconnect := False\<rparr>)\<rparr>"

definition nv_rename :: "cid \<Rightarrow> cstring \<Rightarrow> nview \<Rightarrow> nview" where
  "nv_rename c nick v =
     v\<lparr>nv_hash := hash_add nick c (hash_del (wh_name (nv_who v c)) c (nv_hash v)),
       nv_who := (nv_who v)(c := (nv_who v c)\<lparr>wh_name := nick\<rparr>)\<rparr>"

definition nv_new :: "cstring \<Rightarrow> cstring \<Rightarrow> nview \<Rightarrow> nview" where
  "nv_new nick uid v =
     v\<lparr>nv_hash := hash_add nick (nv_next v) (nv_hash v),
       nv_ids := (if uid \<noteq> [] then hash_add uid (nv_next v) (nv_ids v) else nv_ids v),
       nv_who := (nv_who v)(nv_next v := \<lparr>wh_name = nick, wh_id = uid, wh_status = STAT_CLIENT, wh_myconnect = False\<rparr>),
       nv_closing := (nv_closing v)(nv_next v := False), nv_next := Suc (nv_next v)\<rparr>"

section \<open>What does not matter\<close>

named_theorems nv_simps

lemma nv_sel:
  "nv_hash (nv s) = me_hash_client (ns_env s)" "nv_ids (nv s) = me_hash_id (ns_env s)" "nv_who (nv s) c = whois_of (nclient s c)"
  "nv_closing (nv s) c = ni_closing (ns_info s c)" "nv_next (nv s) = ns_next s"
  by (simp_all add: nv_def)

lemma nv_tell [nv_simps]: "nv (tell m s) = nv s"
  and nv_counts [nv_simps]: "nv (on_counts f s) = nv s"
  and nv_whowas [nv_simps]: "nv (on_whowas h s) = nv s"
  and nv_history [nv_simps]: "nv (add_history c b s) = nv s"
  by (simp_all add: nv_def tell_def on_counts_def on_whowas_def add_history_def)

lemma nv_lists [nv_simps]:
  "nv (s\<lparr>ns_global := l\<rparr>) = nv s" "nv (s\<lparr>ns_unknown := l\<rparr>) = nv s" "nv (s\<lparr>ns_lclient := l\<rparr>) = nv s" "nv (s\<lparr>ns_opers := l\<rparr>) = nv s"
  "nv (s\<lparr>ns_dead_list := l\<rparr>) = nv s" "nv (s\<lparr>ns_hostname := hn\<rparr>) = nv s" "nv (s\<lparr>ns_nd := n\<rparr>) = nv s" "nv (s\<lparr>ns_nd_list := nl\<rparr>) = nv s"
  by (simp_all add: nv_def)

lemma nv_info: "(\<And>i. ni_closing (f i) = ni_closing i) \<Longrightarrow> nv (upd_info c f s) = nv s"
  by (auto simp: nv_def upd_info_def)

lemma nv_world: "(\<And>w x. whois_of (client_of (f w) x) = whois_of (client_of w x)) \<Longrightarrow> nv (in_world f s) = nv s"
  by (auto simp: nv_def in_world_def)

lemma nv_closing_set: "nv (upd_info c (\<lambda>i. i\<lparr>ni_closing := True\<rparr>) s) = (nv s)\<lparr>nv_closing := (nv_closing (nv s))(c := True)\<rparr>"
  by (auto simp: nv_def upd_info_def)

lemma nv_hash_op: "nv (on_client_hash f s) = (nv s)\<lparr>nv_hash := f (nv_hash (nv s))\<rparr>"
  by (simp add: nv_def on_client_hash_def)

lemma nv_id_op: "nv (on_id_hash f s) = (nv s)\<lparr>nv_ids := f (nv_ids (nv s))\<rparr>"
  by (simp add: nv_def on_id_hash_def)

lemma nv_name_set:
  "nv (in_world (upd_client c (\<lambda>x. x\<lparr>cl_name := nick\<rparr>)) s) = (nv s)\<lparr>nv_who := (nv_who (nv s))(c := (nv_who (nv s) c)\<lparr>wh_name := nick\<rparr>)\<rparr>"
  by (auto simp: nv_def in_world_def upd_client_def whois_of_def)

lemma nv_fold: "(\<And>x t. nv (f x t) = nv t) \<Longrightarrow> nv (fold f xs s) = nv s"
  by (induction xs arbitrary: s) auto

lemma who_upd_client: "(\<And>y. whois_of (f y) = whois_of y) \<Longrightarrow> whois_of (client_of (upd_client c f w) x) = whois_of (client_of w x)"
  by (simp add: upd_client_def)

lemma who_fold: "(\<And>a v x. whois_of (client_of (f a v) x) = whois_of (client_of v x)) \<Longrightarrow> whois_of (client_of (fold f as w) x) = whois_of (client_of w x)"
  by (induction as arbitrary: w) auto

lemma who_chan_mem [simp]: "whois_of (client_of (upd_chan ch f w) x) = whois_of (client_of w x)"
  "whois_of (client_of (upd_mem m g w) x) = whois_of (client_of w x)"
  by (simp_all add: upd_chan_def upd_mem_def)

lemma who_del_invite [simp]: "whois_of (client_of (del_invite ch y w) x) = whois_of (client_of w x)"
  unfolding del_invite_def by (subst who_upd_client) (simp_all add: whois_of_def)

lemma who_destroy [simp]: "whois_of (client_of (destroy_channel ch w) x) = whois_of (client_of w x)"
  unfolding destroy_channel_def Let_def by (simp add: who_fold)

lemma who_unlink [simp]: "whois_of (client_of (unlink_member c m w) x) = whois_of (client_of w x)"
  by (simp add: unlink_member_def Let_def)

lemma who_remove [simp]: "whois_of (client_of (remove_user_from_channels c w) x) = whois_of (client_of w x)"
  unfolding remove_user_from_channels_def by (subst who_upd_client) (simp_all add: who_fold, simp add: whois_of_def)

lemma who_bancache [simp]: "whois_of (client_of (invalidate_bancache_user c w) x) = whois_of (client_of w x)"
  by (simp add: invalidate_bancache_user_def who_fold)

lemma who_endgrace [simp]: "whois_of (client_of (flood_endgrace c w) x) = whois_of (client_of w x)"
  unfolding flood_endgrace_def by (subst who_upd_client) (simp_all add: whois_of_def)

section \<open>Leaving\<close>

lemma nv_leave_allow [nv_simps]: "nv (leave_allow_lists c s) = nv s"
  by (simp add: leave_allow_lists_def nv_info nv_fold from_allow_list_def)

lemma nv_del_accepts [nv_simps]: "nv (del_all_accepts c s) = nv s"
  by (simp add: del_all_accepts_def nv_simps nv_info nv_fold from_on_allow_list_def)

lemma nv_stats [nv_simps]: "nv (remove_client_from_list c s) = nv s"
  by (simp add: remove_client_from_list_def update_client_exit_stats_def nv_simps)

lemma nv_small [nv_simps]:
  "nv (leave_server sv c s) = nv s" "nv (set_dead c s) = nv s" "nv (quit_to_servers a c m s) = nv s"
  "nv (set_killed c s) = nv s" "nv (count_kill s) = nv s" "nv (count_save s) = nv s" "nv (num c n as s) = nv s"
  "nv (use_nick nick s) = nv s"
  by (simp_all add: leave_server_def set_dead_def quit_to_servers_def set_killed_def count_kill_def count_save_def
      num_def use_nick_def free_nd_entry_def nv_simps nv_info Let_def split: option.split)

lemma nv_close_link: "nv (close_link c r d s) = (nv s)\<lparr>nv_who := (nv_who (nv s))(c := (nv_who (nv s) c)\<lparr>wh_myconnect := False\<rparr>)\<rparr>"
proof -
  have 1: "nv (in_world (upd_client c (\<lambda>x. x\<lparr>cl_myconnect := False\<rparr>)) t) =
      (nv t)\<lparr>nv_who := (nv_who (nv t))(c := (nv_who (nv t) c)\<lparr>wh_myconnect := False\<rparr>)\<rparr>" for t
    by (auto simp: nv_def in_world_def upd_client_def whois_of_def)
  have 2: "nv t = (nv t)\<lparr>nv_who := (nv_who (nv t))(c := (nv_who (nv t) c)\<lparr>wh_myconnect := False\<rparr>)\<rparr>" if "\<not> cl_myconnect (nclient t c)" for t
    using that by (auto simp: nv_def whois_of_def fun_eq_iff)
  have "nv (close_connection c t) = (nv t)\<lparr>nv_who := (nv_who (nv t))(c := (nv_who (nv t) c)\<lparr>wh_myconnect := False\<rparr>)\<rparr>" for t
    using 2 [of t] by (simp add: close_connection_def 1 nv_simps nv_info)
  then show ?thesis by (simp add: close_link_def Let_def nv_simps nv_info)
qed

lemma nv_exit_generic:
  "nv (exit_generic_client c m s) =
     (nv s)\<lparr>nv_hash := hash_del (wh_name (nv_who (nv s) c)) c (nv_hash (nv s)),
            nv_ids := (if wh_id (nv_who (nv s) c) \<noteq> [] then hash_del (wh_id (nv_who (nv s) c)) c (nv_ids (nv s)) else nv_ids (nv s))\<rparr>"
proof -
  let ?s3 = "on_whowas (whowas_off_history c) (add_history c False
       (del_all_accepts c (in_world (remove_user_from_channels c) (tell (Common c ('':'' @ userhost (nclient s c) @ '' QUIT :'' @ m)) s))))"
  have 1: "nv ?s3 = nv s" by (simp add: nv_simps nv_world)
  have "cl_name (nclient ?s3 c) = wh_name (nv_who (nv ?s3) c)" "cl_id (nclient ?s3 c) = wh_id (nv_who (nv ?s3) c)"
    by (simp_all add: nv_sel whois_of_def)
  then have 2: "cl_name (nclient ?s3 c) = wh_name (nv_who (nv s) c)" "cl_id (nclient ?s3 c) = wh_id (nv_who (nv s) c)"
    by (simp_all only: 1)
  show ?thesis unfolding exit_generic_client_def Let_def has_id_def 2
    by (simp add: nv_simps nv_hash_op nv_id_op nv_world)
qed

lemma nv_exit_client:
  assumes "\<not> ni_closing (ns_info s c)" "cl_status (nclient s c) = STAT_CLIENT \<or> cl_status (nclient s c) = STAT_UNKNOWN \<and> cl_myconnect (nclient s c) \<and> cl_id (nclient s c) = []"
  shows "nv (exit_client cfg a c m s) = nv_exit c (nv s)"
proof -
  let ?s = "upd_info c (\<lambda>i. i\<lparr>ni_closing := True\<rparr>) s"
  have w: "wh_name (nv_who (nv ?s) c) = wh_name (nv_who (nv s) c)" by (simp add: nv_closing_set)
  have n: "nclient ?s c = nclient s c" by (simp add: upd_info_def)
  let ?v = "(nv s)\<lparr>nv_hash := hash_del (wh_name (nv_who (nv s) c)) c (nv_hash (nv s)),
       nv_ids := (if wh_id (nv_who (nv s) c) \<noteq> [] then hash_del (wh_id (nv_who (nv s) c)) c (nv_ids (nv s)) else nv_ids (nv s)),
       nv_closing := (nv_closing (nv s))(c := True)\<rparr>"
  have g: "nv (exit_generic_client c m ?s) = ?v" unfolding nv_exit_generic by (simp add: nv_closing_set)
  have l: "nv (exit_local_client cfg a c m ?s) = nv_exit c (nv s)"
    unfolding exit_local_client_def Let_def
    by (simp add: nv_simps nv_world who_fold g nv_close_link nv_exit_def)
  have u: "cl_id (nclient s c) = [] \<Longrightarrow> nv (exit_unknown_client c m ?s) = nv_exit c (nv s)"
    unfolding exit_unknown_client_def Let_def n
    by (simp add: nv_simps nv_hash_op nv_closing_set nv_close_link nv_exit_def nv_sel whois_of_def)
  have "nv_exit c (nv s) = ?v" if "\<not> cl_myconnect (nclient s c)"
    using that by (auto simp: nv_exit_def nv_sel whois_of_def fun_upd_idem_iff)
  then have r: "\<not> cl_myconnect (nclient s c) \<Longrightarrow> nv (exit_remote_client a c m ?s) = nv_exit c (nv s)"
    unfolding exit_remote_client_def by (simp add: nv_simps g)
  show ?thesis using assms l u r by (auto simp: exit_client_def Let_def n IsClient_def IsServer_def)
qed

text \<open>A client that is closing already, or a server: only the mark is set.\<close>

lemma nv_exit_other:
  assumes "ni_closing (ns_info s c) \<or> cl_status (nclient s c) = STAT_SERVER"
  shows "nv (exit_client cfg a c m s) = (nv s)\<lparr>nv_closing := (nv_closing (nv s))(c := True)\<rparr>"
proof (cases "ni_closing (ns_info s c)")
  case True
  then have "(nv_closing (nv s))(c := True) = nv_closing (nv s)" by (simp add: fun_upd_idem_iff nv_sel)
  then show ?thesis using True by (simp add: exit_client_def)
next
  case False
  moreover have "nclient (upd_info c f s) c = nclient s c" for f by (simp add: upd_info_def)
  ultimately show ?thesis using assms
    by (auto simp: exit_client_def Let_def IsClient_def IsServer_def nv_simps nv_closing_set)
qed

section \<open>Another nick\<close>

lemma nv_to_servers [nv_simps]: "nv (nick_to_servers a c nick s) = nv s"
  by (simp add: nick_to_servers_def nv_simps Let_def)

lemma nv_hash_rename: "nv (hash_rename c nick s) = nv_rename c nick (nv s)"
  unfolding hash_rename_def by (simp add: nv_hash_op nv_name_set nv_rename_def nv_sel whois_of_def)

lemma nv_do_local: "nv (do_local_nick a c nick b s) = nv_rename c nick (nv s)"
  unfolding do_local_nick_def Let_def
  by (simp add: nv_simps nv_hash_rename nv_info nv_world)

lemma nv_local_nick:
  "nv (change_local_nick cfg a c nick b s) =
     (if b \<and> nick_too_fast cfg s c (if ni_last_nick_change (ns_info s c) + nc_max_nick_time cfg < w_time (ns_world s) then 0
                                   else ni_nick_changes (ns_info s c))
      then nv s else nv_rename c nick (nv s))"
  by (simp add: change_local_nick_def Let_def nv_do_local nv_simps nv_info)

lemma nv_remote_nick: "nv (change_remote_nick a c ts nick b s) = nv_rename c nick (nv s)"
proof -
  have n: "cl_name (nclient s c) = wh_name (nv_who (nv s) c)" by (simp add: nv_sel whois_of_def)
  show ?thesis unfolding change_remote_nick_def Let_def n
    by (simp add: nv_simps nv_hash_op nv_name_set nv_rename_def nv_info)
qed

end
