(* ===== verification/NickTable.thy ===== *)
theory NickTable
  imports NickProps
begin

text \<open>
  The invariant of the tables of nicks and UIDs, and that each of the three steps of \<open>NickProps\<close> keeps it. Nicks that begin
  with a digit are UIDs (a user whose nick was taken away gets its UID as the nick); only servers may set them, and
  \<open>find_client\<close> looks for them in the other table, so their uniqueness is that of the UIDs.
\<close>

definition digit_name :: "cstring \<Rightarrow> bool" where "digit_name k = IsDigit (char_at k 0)"

definition who_ok :: "who \<Rightarrow> bool \<Rightarrow> bool" where
  "who_ok w closing =
     (if wh_status w = STAT_CLIENT then
        \<not> closing \<and> (wh_id w = [] \<or> digit_name (wh_id w)) \<and> nul_free (wh_id w) \<and> (wh_myconnect w \<longrightarrow> wh_id w \<noteq> [])
      else if wh_status w = STAT_UNKNOWN then \<not> closing \<and> wh_id w = [] \<and> wh_myconnect w
      else CHR ''.'' \<in> set (wh_name w))"

definition nick_ok :: "nview \<Rightarrow> (cstring \<times> cid) list \<Rightarrow> (cstring \<times> cid) list \<Rightarrow> bool" where
  "nick_ok v xs ys =
     (irc_rep (nv_hash v) xs \<and> distinct (map snd xs) \<and>
      distinct (map (\<lambda>e. irc_fold (fst e)) (filter (\<lambda>e. \<not> digit_name (fst e)) xs)) \<and>
      (\<forall>e \<in> set xs. irc_eq (fst e) (wh_name (nv_who v (snd e))) \<and> snd e < nv_next v \<and> who_ok (nv_who v (snd e)) (nv_closing v (snd e))) \<and>
      id_rep (nv_ids v) ys \<and> distinct (map snd ys) \<and>
      (\<forall>e \<in> set ys. snd e \<in> snd ` set xs \<and> fst e = wh_id (nv_who v (snd e))) \<and>
      (\<forall>e \<in> set xs. wh_status (nv_who v (snd e)) = STAT_CLIENT \<and> wh_id (nv_who v (snd e)) \<noteq> [] \<longrightarrow>
         (wh_id (nv_who v (snd e)), snd e) \<in> set ys))"

definition nick_free :: "cstring \<Rightarrow> (cstring \<times> cid) list \<Rightarrow> bool" where
  "nick_free nick xs = (digit_name nick \<or> (\<forall>e \<in> set xs. \<not> irc_eq nick (fst e)))"

definition person :: "who \<Rightarrow> bool" where "person w = (wh_status w = STAT_CLIENT \<or> wh_status w = STAT_UNKNOWN)"

abbreviation without :: "cid \<Rightarrow> (cstring \<times> cid) list \<Rightarrow> (cstring \<times> cid) list" where
  "without c xs \<equiv> filter (\<lambda>e. snd e \<noteq> c) xs"

section \<open>Names\<close>

lemma IsDigit_ToUpper: "IsDigit (ToUpper c) = IsDigit c"
proof -
  have "IsDigit (ToUpper c) = digit_code (of_char (ToUpper c))" by (simp add: IsDigit_iff)
  also have "\<dots> = digit_code (of_char c)" by (auto simp: of_char_ToUpper digit_code_def)
  finally show ?thesis by (simp add: IsDigit_iff)
qed

lemma digit_name_eq: "irc_eq k k' \<Longrightarrow> digit_name k = digit_name k'"
proof -
  assume "irc_eq k k'"
  then have "map ToUpper k = map ToUpper k'" by (simp add: irc_eq_def irc_fold_def)
  then show ?thesis
    by (cases k; cases k') (auto simp: digit_name_def char_at_def, (metis IsDigit_ToUpper)+)
qed

lemma irc_eq_sym: "irc_eq k k' = irc_eq k' k"
  by (auto simp: irc_eq_def)

lemma digit_not_eq: "digit_name k \<Longrightarrow> \<not> digit_name k' \<Longrightarrow> \<not> irc_eq k' k"
  using digit_name_eq by blast

lemma dot_eq: "irc_eq k k' \<Longrightarrow> CHR ''.'' \<in> set k \<longleftrightarrow> CHR ''.'' \<in> set k'"
proof -
  have d: "ToUpper c = CHR ''.'' \<longleftrightarrow> c = CHR ''.''" for c by (rule ToUpper_eq_fixed) simp
  then have d': "(CHR ''.'' = ToUpper c) = (CHR ''.'' = c)" for c by metis
  have "CHR ''.'' \<in> set l \<longleftrightarrow> CHR ''.'' \<in> set (map ToUpper l)" for l
    by (induction l) (simp_all only: list.set list.map insert_iff empty_iff d')
  then have l: "CHR ''.'' \<in> set l \<longleftrightarrow> CHR ''.'' \<in> set (map ToUpper l)" for l by blast
  assume "irc_eq k k'"
  then have m: "map ToUpper k = map ToUpper k'" by (simp only: irc_eq_def irc_fold_def)
  show ?thesis unfolding l [of k] l [of k'] m ..
qed

lemma clean_nickD:
  assumes "clean_nick cfg nick l"
  shows "nick \<noteq> []" "nul_free nick" "CHR ''.'' \<notin> set nick" "l \<Longrightarrow> \<not> digit_name nick"
proof -
  have 1: "nick \<noteq> []" "list_all IsNickChar nick" "l \<Longrightarrow> \<not> IsDigit (char_at nick 0)"
    using assms by (auto simp: clean_nick_def split: if_splits)
  have "\<not> IsNickChar NUL" "\<not> IsNickChar (CHR ''.'')" by code_simp+
  then show "nul_free nick" "CHR ''.'' \<notin> set nick" using 1(2) by (auto simp: nul_free_def list_all_iff)
  show "nick \<noteq> []" "l \<Longrightarrow> \<not> digit_name nick" using 1 by (auto simp: digit_name_def)
qed

section \<open>The three steps\<close>

lemma nick_okD:
  assumes "nick_ok v xs ys"
  shows "irc_rep (nv_hash v) xs" "distinct (map snd xs)" "id_rep (nv_ids v) ys" "distinct (map snd ys)"
    and "e \<in> set xs \<Longrightarrow> irc_eq (fst e) (wh_name (nv_who v (snd e)))" "e \<in> set xs \<Longrightarrow> snd e < nv_next v"
    and "e \<in> set xs \<Longrightarrow> who_ok (nv_who v (snd e)) (nv_closing v (snd e))" "e \<in> set ys \<Longrightarrow> snd e \<in> snd ` set xs"
    and "e \<in> set ys \<Longrightarrow> fst e = wh_id (nv_who v (snd e))"
    and "e \<in> set xs \<Longrightarrow> wh_status (nv_who v (snd e)) = STAT_CLIENT \<Longrightarrow> wh_id (nv_who v (snd e)) \<noteq> [] \<Longrightarrow>
      (wh_id (nv_who v (snd e)), snd e) \<in> set ys"
    and "distinct (map (\<lambda>e. irc_fold (fst e)) (filter (\<lambda>e. \<not> digit_name (fst e)) xs))"
  using assms by (auto simp: nick_ok_def)

lemma in_table:
  assumes "nick_ok v xs ys" "c \<in> snd ` set xs"
  shows "\<exists>k. (k, c) \<in> set xs \<and> irc_eq k (wh_name (nv_who v c))" "who_ok (nv_who v c) (nv_closing v c)" "c < nv_next v"
proof -
  obtain k where k: "(k, c) \<in> set xs" using assms(2) by auto
  then show "\<exists>k. (k, c) \<in> set xs \<and> irc_eq k (wh_name (nv_who v c))"
    using nick_okD(5) [OF assms(1) k] by (intro exI [of _ k]) simp
  show "who_ok (nv_who v c) (nv_closing v c)" "c < nv_next v"
    using nick_okD(6,7) [OF assms(1) k] by simp_all
qed

text \<open>A name that the table takes for the same has the same bucket.\<close>

lemma hash_del_same:
  assumes "irc_rep t xs" "irc_eq k k'"
  shows "hash_del k' p t = hash_del k p t"
proof -
  have t: "hf_cmptype t = CMP_IRCCMP" "func_matches t" using assms(1) by (simp_all add: irc_rep_def hash_rep_def)
  have eq: "key_index t k = key_index t k'"
    by (rule same_key_index) (use t assms(2) in \<open>simp_all add: same_key_def irc_eq_def\<close>)
  have "map ToUpper k = map ToUpper k'" using assms(2) by (simp only: irc_eq_def irc_fold_def)
  then have "length k = length k'" by (metis length_map)
  then have "k = [] \<longleftrightarrow> k' = []" by (cases k; cases k') simp_all
  then show ?thesis using eq by (simp add: hash_del_def hash_del_len_def key_index_def Let_def)
qed

lemma irc_rep_del:
  assumes ok: "nick_ok v xs ys" and c: "c \<in> snd ` set xs"
  shows "irc_rep (hash_del (wh_name (nv_who v c)) c (nv_hash v)) (without c xs)"
proof -
  obtain k where k: "(k, c) \<in> set xs" "irc_eq k (wh_name (nv_who v c))" using in_table(1) [OF ok c] by blast
  show ?thesis unfolding hash_del_same [OF nick_okD(1) [OF ok] k(2)]
    by (rule irc.rep_del [OF nick_okD(1,2) [OF ok] k(1)])
qed

lemma id_in_table:
  assumes ok: "nick_ok v xs ys" and c: "c \<in> snd ` set xs" "wh_status (nv_who v c) = STAT_CLIENT" "wh_id (nv_who v c) \<noteq> []"
  shows "(wh_id (nv_who v c), c) \<in> set ys"
proof -
  obtain k where k: "(k, c) \<in> set xs" using c(1) by auto
  show ?thesis using nick_okD(10) [OF ok k] c(2,3) by simp
qed

lemma ids_without:
  assumes ok: "nick_ok v xs ys" and c: "c \<in> snd ` set xs" "person (nv_who v c)"
  shows "id_rep (if wh_id (nv_who v c) \<noteq> [] then hash_del (wh_id (nv_who v c)) c (nv_ids v) else nv_ids v) (without c ys)"
proof (cases "wh_id (nv_who v c) = []")
  case True
  have "snd e \<noteq> c" if "e \<in> set ys" for e
    using nick_okD(9) [OF ok that] nick_okD(3) [OF ok] that True by (auto simp: id_rep_def hash_rep_def)
  then have "without c ys = ys" by (simp add: filter_id_conv)
  then show ?thesis using nick_okD(3) [OF ok] True by simp
next
  case False
  have "wh_status (nv_who v c) = STAT_CLIENT" using in_table(2) [OF ok c(1)] c(2) False by (auto simp: who_ok_def person_def)
  then have "(wh_id (nv_who v c), c) \<in> set ys" by (rule id_in_table [OF ok c(1) _ False])
  then show ?thesis using ids.rep_del [OF nick_okD(3,4) [OF ok]] False by simp
qed

lemma snd_without: "snd ` set (without c xs) = snd ` set xs - {c}"
  by force

lemma distinct_without: "distinct (map f (filter P xs)) \<Longrightarrow> distinct (map f (filter P (without c xs)))"
  using distinct_map_filter [of f "filter P xs" "\<lambda>e. snd e \<noteq> c"] by (simp add: conj_commute)

lemma nick_ok_exit:
  assumes ok: "nick_ok v xs ys" and c: "c \<in> snd ` set xs" "person (nv_who v c)"
  shows "nick_ok (nv_exit c v) (without c xs) (without c ys)"
proof -
  have "irc_rep (hash_del (wh_name (nv_who v c)) c (nv_hash v)) (without c xs)"
    by (rule irc_rep_del [OF ok c(1)])
  moreover note distinct_without [OF nick_okD(11) [OF ok], of c]
  moreover have "snd e \<in> snd ` set (without c xs)" if "e \<in> set (without c ys)" for e
    using nick_okD(8) [OF ok, of e] that unfolding snd_without by simp
  moreover have "distinct (map snd (without c xs))" "distinct (map snd (without c ys))"
    using distinct_map_filter nick_okD(2,4) [OF ok] by blast+
  ultimately show ?thesis using nick_okD(5-10) [OF ok] ids_without [OF ok c]
    unfolding nick_ok_def nv_exit_def by simp
qed

lemma nick_free_distinct:
  assumes "nick_free nick xs" "distinct (map (\<lambda>e. irc_fold (fst e)) (filter (\<lambda>e. \<not> digit_name (fst e)) xs))"
  shows "distinct (map (\<lambda>e. irc_fold (fst e)) (filter (\<lambda>e. \<not> digit_name (fst e)) ((nick, c) # xs)))"
  using assms by (auto simp: nick_free_def irc_eq_def)

lemma nick_ok_rename:
  assumes ok: "nick_ok v xs ys" and c: "c \<in> snd ` set xs" "person (nv_who v c)"
    and nick: "nick \<noteq> []" "nul_free nick" "nick_free nick (without c xs)"
  shows "nick_ok (nv_rename c nick v) ((nick, c) # without c xs) ys"
proof -
  have "irc_rep (hash_add nick c (hash_del (wh_name (nv_who v c)) c (nv_hash v))) ((nick, c) # without c xs)"
    by (rule irc.rep_add [OF irc_rep_del [OF ok c(1)] nick(2,1)])
  moreover have "distinct (map (\<lambda>e. irc_fold (fst e)) (filter (\<lambda>e. \<not> digit_name (fst e)) ((nick, c) # without c xs)))"
    by (rule nick_free_distinct [OF nick(3) distinct_without [OF nick_okD(11) [OF ok]]])
  moreover have "who_ok ((nv_who v c)\<lparr>wh_name := nick\<rparr>) (nv_closing v c)"
    using in_table(2) [OF ok c(1)] c(2) by (auto simp: who_ok_def person_def split: if_splits)
  moreover have "snd e \<in> snd ` set ((nick, c) # without c xs)" if "e \<in> set ys" for e
    using nick_okD(8) [OF ok that] unfolding list.set image_insert snd_without by simp
  moreover have "wh_status (nv_who v c) = STAT_CLIENT \<and> wh_id (nv_who v c) \<noteq> [] \<longrightarrow> (wh_id (nv_who v c), c) \<in> set ys"
    using id_in_table [OF ok c(1)] by blast
  moreover have "distinct (map snd (without c xs))" using distinct_map_filter nick_okD(2) [OF ok] by blast
  moreover have "c \<notin> snd ` set (without c xs)" by auto
  ultimately show ?thesis using nick_okD(3-10) [OF ok] in_table(3) [OF ok c(1)]
    unfolding nick_ok_def nv_rename_def by (simp add: irc.eqk_refl)
qed

lemma nick_ok_new:
  assumes ok: "nick_ok v xs ys" and nick: "nick \<noteq> []" "nul_free nick" "nick_free nick xs"
    and uid: "uid = [] \<or> digit_name uid \<and> nul_free uid"
  shows "nick_ok (nv_new nick uid v) ((nick, nv_next v) # xs) (if uid \<noteq> [] then (uid, nv_next v) # ys else ys)"
proof -
  have x: "snd e \<noteq> nv_next v" if "e \<in> set xs" for e using nick_okD(6) [OF ok that] by simp
  have fresh: "nv_next v \<notin> snd ` set xs"
  proof
    assume "nv_next v \<in> snd ` set xs"
    then obtain e where "e \<in> set xs" "nv_next v = snd e" by (rule imageE)
    then show False using x [of e] by simp
  qed
  have y: "snd e \<noteq> nv_next v" if "e \<in> set ys" for e
  proof
    assume "snd e = nv_next v"
    then show False using nick_okD(8) [OF ok that] fresh by simp
  qed
  have fresh': "nv_next v \<notin> snd ` set ys"
  proof
    assume "nv_next v \<in> snd ` set ys"
    then obtain e where "e \<in> set ys" "nv_next v = snd e" by (rule imageE)
    then show False using y [of e] by simp
  qed
  have "irc_rep (hash_add nick (nv_next v) (nv_hash v)) ((nick, nv_next v) # xs)"
    by (rule irc.rep_add [OF nick_okD(1) [OF ok] nick(2,1)])
  moreover have "uid \<noteq> [] \<Longrightarrow> id_rep (hash_add uid (nv_next v) (nv_ids v)) ((uid, nv_next v) # ys)"
    by (rule ids.rep_add [OF nick_okD(3) [OF ok]]) (use uid in auto)
  moreover note nick_free_distinct [OF nick(3) nick_okD(11) [OF ok], of "nv_next v"]
  moreover have "who_ok \<lparr>wh_name = nick, wh_id = uid, wh_status = STAT_CLIENT, wh_myconnect = False\<rparr> False"
    using uid by (auto simp: who_ok_def nul_free_def)
  ultimately show ?thesis using nick_okD(2-10) [OF ok] fresh fresh' x y
    unfolding nick_ok_def nv_new_def by (simp add: less_Suc_eq irc.eqk_refl)
qed

text \<open>A client without a name gets one, and a name is written in other letters.\<close>

definition nv_enter :: "cid \<Rightarrow> cstring \<Rightarrow> nview \<Rightarrow> nview" where
  "nv_enter c nick v = v\<lparr>nv_hash := hash_add nick c (nv_hash v), nv_who := (nv_who v)(c := (nv_who v c)\<lparr>wh_name := nick\<rparr>)\<rparr>"

definition nv_recase :: "cid \<Rightarrow> cstring \<Rightarrow> nview \<Rightarrow> nview" where
  "nv_recase c nick v = v\<lparr>nv_who := (nv_who v)(c := (nv_who v c)\<lparr>wh_name := nick\<rparr>)\<rparr>"

lemma nick_ok_enter:
  assumes ok: "nick_ok v xs ys" and c: "c \<notin> snd ` set xs" "c < nv_next v" "person (nv_who v c)" "who_ok (nv_who v c) (nv_closing v c)"
      "wh_id (nv_who v c) = []"
    and nick: "nick \<noteq> []" "nul_free nick" "nick_free nick xs"
  shows "nick_ok (nv_enter c nick v) ((nick, c) # xs) ys"
proof -
  have "irc_rep (hash_add nick c (nv_hash v)) ((nick, c) # xs)" by (rule irc.rep_add [OF nick_okD(1) [OF ok] nick(2,1)])
  moreover note nick_free_distinct [OF nick(3) nick_okD(11) [OF ok], of c]
  moreover have "who_ok ((nv_who v c)\<lparr>wh_name := nick\<rparr>) (nv_closing v c)"
    using c(3,4) by (auto simp: who_ok_def person_def split: if_splits)
  moreover have x: "snd e \<noteq> c" if "e \<in> set xs" for e using c(1) that by (metis imageI)
  moreover have "snd e \<noteq> c" if "e \<in> set ys" for e using nick_okD(8) [OF ok that] c(1) by metis
  ultimately show ?thesis using nick_okD(2-10) [OF ok] c(1,2,5)
    unfolding nick_ok_def nv_enter_def by (simp add: irc.eqk_refl)
qed

lemma nick_ok_recase:
  assumes ok: "nick_ok v xs ys" and c: "person (nv_who v c)" "irc_eq nick (wh_name (nv_who v c))"
  shows "nick_ok (nv_recase c nick v) xs ys"
proof -
  let ?w = "(nv_who v)(c := (nv_who v c)\<lparr>wh_name := nick\<rparr>)"
  have "irc_eq (fst e) (wh_name (?w (snd e)))" if "e \<in> set xs" for e
    using nick_okD(5) [OF ok that] c(2) by (cases "snd e = c") (auto simp: irc_eq_def)
  moreover have "who_ok (?w (snd e)) (nv_closing v (snd e))" if "e \<in> set xs" for e
    using nick_okD(7) [OF ok that] c(1) by (cases "snd e = c") (auto simp: who_ok_def person_def split: if_splits)
  moreover have "wh_id (?w x) = wh_id (nv_who v x)" "wh_status (?w x) = wh_status (nv_who v x)" for x by simp_all
  ultimately show ?thesis using nick_okD [OF ok]
    unfolding nick_ok_def nv_recase_def by (simp del: fun_upd_apply)
qed

end
