(* ===== verification/NickRules.thy ===== *)
theory NickRules
  imports NickTable
begin

text \<open>
  The commands as sequences of the steps of \<open>NickTable\<close>: \<open>nick_state_ok\<close> is kept by each of them.
\<close>

definition tab :: "nick_state \<Rightarrow> (cstring \<times> cid) list \<Rightarrow> bool" where
  "tab s xs = (\<exists>ys. nick_ok (nv s) xs ys)"

abbreviation who_is :: "nick_state \<Rightarrow> cid \<Rightarrow> who" where "who_is s c \<equiv> nv_who (nv s) c"

section \<open>Finding a nick\<close>

lemma nfind_name:
  assumes "nick_ok (nv s) xs ys" "nick \<noteq> []" "nul_free nick" "\<not> digit_name nick"
  shows "nfind s nick = map_option snd (find (\<lambda>e. irc_eq nick (fst e)) xs)"
  using irc.lookup_rep [OF nick_okD(1) [OF assms(1)] assms(3,2)] assms(2,4)
  by (simp add: find_client_def digit_name_def ix_lookup_def nv_sel)

lemma nfind_digit:
  assumes "nick_ok (nv s) xs ys" "nick \<noteq> []" "nul_free nick" "digit_name nick"
  shows "nfind s nick = map_option snd (find (\<lambda>e. nick = fst e) ys)"
  using ids.lookup_rep [OF nick_okD(3) [OF assms(1)] assms(3,2)] assms(2,4)
  by (simp add: find_client_def digit_name_def ix_lookup_def nv_sel)

lemma nfind_None:
  assumes ok: "nick_ok (nv s) xs ys" and nick: "nick \<noteq> []" "nul_free nick" and "nfind s nick = None"
  shows "nick_free nick xs"
proof (cases "digit_name nick")
  case False
  then have "find (\<lambda>e. irc_eq nick (fst e)) xs = None" using assms(4) nfind_name [OF ok nick] by simp
  then show ?thesis unfolding nick_free_def find_None_iff by auto
qed (simp add: nick_free_def)

lemma nfind_Some:
  assumes ok: "nick_ok (nv s) xs ys" and nick: "nick \<noteq> []" "nul_free nick" and t: "nfind s nick = Some t"
  shows "t \<in> snd ` set xs" "nick_free nick (without t xs)" "\<not> digit_name nick \<Longrightarrow> irc_eq nick (wh_name (nv_who (nv s) t))"
proof -
  have "t \<in> snd ` set xs \<and> nick_free nick (without t xs) \<and> (\<not> digit_name nick \<longrightarrow> irc_eq nick (wh_name (nv_who (nv s) t)))"
  proof (cases "digit_name nick")
    case True
    then obtain e where "find (\<lambda>e. nick = fst e) ys = Some e" "snd e = t" using t nfind_digit [OF ok nick] by auto
    then have "e \<in> set ys" "snd e = t" by (auto simp: find_Some_iff)
    then have "t \<in> snd ` set xs" using nick_okD(8) [OF ok] by blast
    then show ?thesis using True by (simp add: nick_free_def)
  next
    case False
    then obtain e where "find (\<lambda>e. irc_eq nick (fst e)) xs = Some e" "snd e = t" using t nfind_name [OF ok nick] by auto
    then have e: "e \<in> set xs" "snd e = t" "irc_eq nick (fst e)" by (auto simp: find_Some_iff)
    have ndig: "\<not> digit_name (fst e)" using digit_name_eq [OF e(3)] False by simp
    have "\<not> irc_eq nick (fst e')" if e': "e' \<in> set (without t xs)" for e'
    proof
      assume eq: "irc_eq nick (fst e')"
      then have "irc_fold (fst e') = irc_fold (fst e)" "\<not> digit_name (fst e')"
        using e(3) digit_name_eq [OF eq] False by (simp_all add: irc_eq_def)
      then have "e' = e" using nick_okD(11) [OF ok] e(1) e' ndig by (auto simp: distinct_map dest: inj_onD)
      then show False using e' e(2) by simp
    qed
    then have "nick_free nick (without t xs)" unfolding nick_free_def by blast
    moreover have "irc_eq nick (wh_name (nv_who (nv s) t))" using nick_okD(5) [OF ok e(1)] e(2,3) by (simp add: irc_eq_def)
    moreover have "t \<in> snd ` set xs" using e(1,2) by blast
    ultimately show ?thesis by simp
  qed
  then show "t \<in> snd ` set xs" "nick_free nick (without t xs)" "\<not> digit_name nick \<Longrightarrow> irc_eq nick (wh_name (nv_who (nv s) t))"
    by auto
qed

text \<open>A nick has no dot, and the names of servers have one.\<close>

lemma nfind_person:
  assumes ok: "nick_ok (nv s) xs ys" and c: "clean_nick cfg nick l" and t: "nfind s nick = Some t" and "\<not> digit_name nick"
  shows "person (nv_who (nv s) t)"
proof -
  note n = clean_nickD [OF c]
  have "irc_eq nick (wh_name (nv_who (nv s) t))" by (rule nfind_Some(3) [OF ok n(1,2) t assms(4)])
  then have "CHR ''.'' \<notin> set (wh_name (nv_who (nv s) t))" using n(3) dot_eq by blast
  then show ?thesis using in_table(2) [OF ok nfind_Some(1) [OF ok n(1,2) t]]
    by (auto simp: person_def who_ok_def split: if_splits)
qed

section \<open>Steps of the state\<close>

lemma tab_cong: "nv s' = nv s \<Longrightarrow> tab s' xs = tab s xs"
  by (simp add: tab_def)

lemma tabD:
  assumes "tab s xs"
  shows "distinct (map snd xs)" "c \<in> snd ` set xs \<Longrightarrow> who_ok (who_is s c) (nv_closing (nv s) c)"
    "c \<in> snd ` set xs \<Longrightarrow> c < nv_next (nv s)"
proof -
  obtain ys where ok: "nick_ok (nv s) xs ys" using assms by (auto simp: tab_def)
  show "distinct (map snd xs)" by (rule nick_okD(2) [OF ok])
  show "c \<in> snd ` set xs \<Longrightarrow> who_ok (who_is s c) (nv_closing (nv s) c)" "c \<in> snd ` set xs \<Longrightarrow> c < nv_next (nv s)"
    using in_table(2,3) [OF ok] by blast+
qed

lemma nv_exit_person:
  assumes "tab s xs" "c \<in> snd ` set xs" "person (who_is s c)"
  shows "nv (exit_client cfg a c m s) = nv_exit c (nv s)"
  by (rule nv_exit_client)
     (use tabD(2) [OF assms(1,2)] assms(3) in \<open>auto simp: who_ok_def person_def nv_sel whois_of_def split: if_splits\<close>)

lemma tab_nv_exit:
  assumes "tab s xs" "c \<in> snd ` set xs" "person (who_is s c)" "nv s' = nv_exit c (nv s)"
  shows "tab s' (without c xs)" "x \<noteq> c \<Longrightarrow> who_is s' x = who_is s x"
proof -
  obtain ys where "nick_ok (nv s) xs ys" using assms(1) by (auto simp: tab_def)
  from nick_ok_exit [OF this assms(2,3)] show "tab s' (without c xs)" unfolding tab_def assms(4) by blast
qed (simp add: assms(4) nv_exit_def)

lemma tab_exit:
  assumes "tab s xs" "c \<in> snd ` set xs" "person (who_is s c)"
  shows "tab (exit_client cfg a c m s) (without c xs)" "x \<noteq> c \<Longrightarrow> who_is (exit_client cfg a c m s) x = who_is s x"
  using tab_nv_exit [OF assms nv_exit_person [OF assms]] by blast+

lemma tab_nv_rename:
  assumes "tab s xs" "c \<in> snd ` set xs" "person (who_is s c)" "nick \<noteq> []" "nul_free nick" "nick_free nick (without c xs)"
    and "nv s' = nv_rename c nick (nv s)"
  shows "tab s' ((nick, c) # without c xs)" "x \<noteq> c \<Longrightarrow> who_is s' x = who_is s x" "person (who_is s' c)"
proof -
  obtain ys where "nick_ok (nv s) xs ys" using assms(1) by (auto simp: tab_def)
  from nick_ok_rename [OF this assms(2-6)] show "tab s' ((nick, c) # without c xs)" unfolding tab_def assms(7) by blast
  show "person (who_is s' c)" using assms(3) by (simp add: assms(7) nv_rename_def person_def)
qed (simp add: assms(7) nv_rename_def)

text \<open>In the form in which the commands meet it.\<close>

lemma nv_exit_same:
  assumes "tab s xs" "c \<in> snd ` set xs" "person (who_is s c)" "nv u = nv s"
  shows "nv (exit_client cfg a c m u) = nv_exit c (nv s)"
proof -
  have "tab u xs" "person (who_is u c)" using assms(1,3) by (simp_all add: tab_cong [OF assms(4)] assms(4))
  from nv_exit_person [OF this(1) assms(2) this(2), of cfg a m] show ?thesis unfolding assms(4) .
qed

lemma nick_free_without: "nick_free nick xs \<Longrightarrow> nick_free nick (without c xs)"
  by (auto simp: nick_free_def)

text \<open>\<open>SAVE\<close> of a user: it leaves, or its UID is its nick.\<close>

lemma tab_save:
  fixes cfg a src
  assumes ok: "tab s xs" "t \<in> snd ` set xs" "wh_status (who_is s t) = STAT_CLIENT"
  defines "s' \<equiv> save_user cfg a src t s"
  shows "\<exists>xs'. tab s' xs' \<and> without t xs' = without t xs \<and> (\<forall>k. (k, t) \<in> set xs' \<longrightarrow> digit_name k) \<and> (\<forall>x. x \<noteq> t \<longrightarrow> who_is s' x = who_is s x)"
proof -
  have p: "person (who_is s t)" using ok(3) by (simp add: person_def)
  define dead where "dead = (\<not> cl_myconnect (nclient s t) \<and> (\<not> has_id (nclient s t) \<or> \<not> IsCapable (nclient s (ni_from (ns_info s t))) CAP_SAVE))"
  show ?thesis
  proof (cases dead)
    case True
    have "nv s' = nv_exit t (nv s)"
      unfolding s'_def save_user_def Let_def dead_def [symmetric]
      by (simp only: True if_True) (rule nv_exit_same [OF ok(1,2) p], simp add: nv_simps)
    from tab_nv_exit [OF ok(1,2) p this]
    show ?thesis by (intro exI [of _ "without t xs"]) auto
  next
    case False
    let ?id = "wh_id (who_is s t)"
    have w: "who_ok (who_is s t) (nv_closing (nv s) t)" by (rule tabD(2) [OF ok(1,2)])
    then have id: "?id = [] \<or> digit_name ?id" "nul_free ?id" "wh_myconnect (who_is s t) \<longrightarrow> ?id \<noteq> []" using ok(3) by (simp_all add: who_ok_def)
    have ne: "?id \<noteq> []" using False id(3) by (auto simp: dead_def nv_sel whois_of_def has_id_def)
    then have d: "digit_name ?id" using id(1) by simp
    have "nv s' = nv_rename t ?id (nv s)"
      unfolding s'_def save_user_def Let_def dead_def [symmetric]
      by (simp add: False nv_simps nv_local_nick nv_remote_nick nv_info) (simp add: nv_sel whois_of_def)
    from tab_nv_rename [OF ok(1,2) p ne id(2) _ this] d
    show ?thesis by (intro exI [of _ "(?id, t) # without t xs"]) (auto simp: nick_free_def)
  qed
qed

end
