(* ===== verification/NickCollide.thy ===== *)
theory NickCollide
  imports NickRules
begin

text \<open>New users and collisions on the table of nicks.\<close>

section \<open>Registering\<close>

lemma nv_allocate:
  "nv (allocate_client i c s) =
     (nv s)\<lparr>nv_who := (nv_who (nv s))(ns_next s := whois_of c), nv_closing := (nv_closing (nv s))(ns_next s := ni_closing i),
            nv_next := Suc (ns_next s)\<rparr>"
  by (auto simp: nv_def allocate_client_def in_world_def)

lemma nv_insert: "nv (insert_client c sv nick s) = (nv s)\<lparr>nv_hash := hash_add nick c (nv_hash (nv s))\<rparr>"
  by (simp add: insert_client_def Let_def nv_simps nv_hash_op nv_info)

lemma nv_umode: "nv (umode_step c m s) = nv s"
proof -
  have "nv (in_world (upd_client c (\<lambda>x. x\<lparr>cl_invisible := i, cl_oper := oo\<rparr>)) t) = nv t" for t i oo
    by (rule nv_world, rule who_upd_client) (simp add: whois_of_def)
  then show ?thesis by (simp add: umode_step_def Let_def nv_simps nv_info)
qed

lemma nv_status: "nv (in_world (upd_client c (\<lambda>x. x\<lparr>cl_status := st\<rparr>)) s) = (nv s)\<lparr>nv_who := (nv_who (nv s))(c := (nv_who (nv s) c)\<lparr>wh_status := st\<rparr>)\<rparr>"
  by (auto simp: nv_def in_world_def upd_client_def whois_of_def)

definition new_uid :: "cstring list \<Rightarrow> cstring" where
  "new_uid parv = (if length parv = 10 then strlcpy (parv ! 8) (IDLEN + 1) else [])"

definition uid_ok :: "cstring list \<Rightarrow> bool" where
  "uid_ok parv = (length parv = 10 \<longrightarrow> new_uid parv \<noteq> [] \<and> digit_name (new_uid parv) \<and> nul_free (new_uid parv))"

lemma register_user_form:
  assumes "length parv = 10 \<longrightarrow> new_uid parv \<noteq> []"
  shows "\<exists>u. nv u = nv_new nick (new_uid parv) (nv s) \<and>
     register_user cfg client_p srv nick newts parv s =
       (if ni_from (ns_info u srv) \<noteq> client_p then wrong_direction cfg client_p srv (ns_next s) u else tell (Introduced (Some client_p) (ns_next s)) u)"
proof -
  let ?s1 = "allocate_client (new_info client_p newts (word_of_int (atoi (parv ! 2)))) (new_client nick parv srv) s"
  let ?s2 = "if length parv = 10 then on_id_hash (hash_add (cl_id (nclient ?s1 (ns_next s))) (ns_next s)) ?s1 else ?s1"
  have id: "cl_id (nclient ?s1 (ns_next s)) = new_uid parv"
    by (simp add: allocate_client_def in_world_def new_client_def new_uid_def)
  have 2: "nv ?s2 = (nv s)\<lparr>nv_ids := (if new_uid parv \<noteq> [] then hash_add (new_uid parv) (ns_next s) (nv_ids (nv s)) else nv_ids (nv s)),
       nv_who := (nv_who (nv s))(ns_next s := \<lparr>wh_name = nick, wh_id = new_uid parv, wh_status = STAT_UNKNOWN, wh_myconnect = False\<rparr>),
       nv_closing := (nv_closing (nv s))(ns_next s := False), nv_next := Suc (ns_next s)\<rparr>"
    using assms unfolding id
    by (simp add: nv_allocate nv_id_op new_info_def whois_of_def new_client_def) (simp add: new_uid_def)
  show ?thesis unfolding register_user_def Let_def
    by (rule exI, rule conjI [rotated], rule refl)
       (simp add: nv_simps nv_status nv_fold nv_umode nv_insert 2 nv_new_def nv_sel)
qed

lemma register_user_tab:
  assumes ok: "tab s xs" and nick: "nick \<noteq> []" "nul_free nick" "nick_free nick xs" and uid: "uid_ok parv"
  shows "\<exists>xs'. tab (register_user cfg client_p srv nick newts parv s) xs' \<and> snd ` set xs' \<subseteq> insert (nv_next (nv s)) (snd ` set xs)"
proof -
  let ?r = "register_user cfg client_p srv nick newts parv s"
  obtain u where u: "nv u = nv_new nick (new_uid parv) (nv s)"
    "?r = (if ni_from (ns_info u srv) \<noteq> client_p then wrong_direction cfg client_p srv (ns_next s) u else tell (Introduced (Some client_p) (ns_next s)) u)"
    using register_user_form uid unfolding uid_ok_def by blast
  obtain ys where ys: "nick_ok (nv s) xs ys" using ok by (auto simp: tab_def)
  have n: "ns_next s = nv_next (nv s)" by (simp add: nv_sel)
  have "new_uid parv = [] \<or> digit_name (new_uid parv) \<and> nul_free (new_uid parv)"
    using uid by (auto simp: uid_ok_def new_uid_def)
  from nick_ok_new [OF ys nick this] have t: "tab u ((nick, ns_next s) # xs)" unfolding tab_def u(1) n by blast
  have p: "person (who_is u (ns_next s))" by (simp add: u(1) n nv_new_def person_def)
  have "nv (wrong_direction cfg client_p srv (ns_next s) u) = nv_exit (ns_next s) (nv u)"
    unfolding wrong_direction_def Let_def by (rule nv_exit_same [OF t _ p]) (simp_all add: nv_simps)
  from tab_nv_exit(1) [OF t _ p this]
  have w: "tab (wrong_direction cfg client_p srv (ns_next s) u) (without (ns_next s) ((nick, ns_next s) # xs))" by simp
  show ?thesis
  proof (cases "ni_from (ns_info u srv) \<noteq> client_p")
    case True
    then have "tab ?r (without (ns_next s) ((nick, ns_next s) # xs))" using w u(2) by simp
    moreover have "snd ` set (without (ns_next s) ((nick, ns_next s) # xs)) \<subseteq> insert (nv_next (nv s)) (snd ` set xs)"
      unfolding snd_without by (auto simp: n)
    ultimately show ?thesis by (intro exI conjI)
  next
    case False
    then have "tab ?r ((nick, ns_next s) # xs)" using t u(2) by (simp add: tab_def nv_simps)
    moreover have "snd ` set ((nick, ns_next s) # xs) \<subseteq> insert (nv_next (nv s)) (snd ` set xs)" by (simp add: n)
    ultimately show ?thesis by (intro exI conjI)
  qed
qed

lemma register_tab:
  assumes "tab s xs" "nick \<noteq> []" "nul_free nick" "nick_free nick xs" "uid_ok parv"
  shows "\<exists>xs'. tab (register_client cfg client_p srv nick newts parv s) xs' \<and> snd ` set xs' \<subseteq> insert (nv_next (nv s)) (snd ` set xs)"
proof (cases "if length parv = 10 then srv else find_server (ns_env s) (ns_world s) None (parv ! 7)")
  case None
  then have "nv (register_client cfg client_p srv nick newts parv s) = nv s" by (simp add: register_client_def nv_simps)
  from tab_cong [OF this] have "tab (register_client cfg client_p srv nick newts parv s) xs" using assms(1) by simp
  then show ?thesis by (intro exI conjI) auto
next
  case (Some sv)
  then show ?thesis using register_user_tab [OF assms] by (simp add: register_client_def)
qed

section \<open>Collisions\<close>

lemma nv_notices [nv_simps]:
  "nv (collision_notice s0 c t w s) = nv s" "nv (change_notice s0 x c t w s) = nv s" "nv (nick_collision t s) = nv s"
  "nv (kill_uid c u s) = nv s" "nv (save_uid c u ts s) = nv s" "nv (fake_survives t s) = nv s"
  by (simp_all add: collision_notice_def change_notice_def nick_collision_def kill_uid_def save_uid_def fake_survives_def nv_simps)

lemma nv_kill_target:
  assumes "tab s xs" "t \<in> snd ` set xs" "person (who_is s t)" "nv u = nv s"
  shows "nv (kill_target cfg b a t k m u) = nv_exit t (nv s)"
  unfolding kill_target_def by (rule nv_exit_same [OF assms(1-3)]) (simp add: nv_simps assms(4))

text \<open>\<open>t\<close> gives up its nick: it is saved or killed.\<close>

definition given_up :: "cid \<Rightarrow> nick_state \<Rightarrow> (cstring \<times> cid) list \<Rightarrow> nick_state \<Rightarrow> bool" where
  "given_up t s xs s' =
     (\<exists>xs'. tab s' xs' \<and> without t xs' = without t xs \<and> (\<forall>k. (k, t) \<in> set xs' \<longrightarrow> digit_name k) \<and> (\<forall>x. x \<noteq> t \<longrightarrow> who_is s' x = who_is s x))"

lemma given_up_exit:
  assumes "tab s xs" "t \<in> snd ` set xs" "person (who_is s t)" "nv s' = nv_exit t (nv s)"
  shows "given_up t s xs s'"
  unfolding given_up_def using tab_nv_exit [OF assms] by (intro exI [of _ "without t xs"]) simp

lemma given_up_save:
  assumes "tab s xs" "t \<in> snd ` set xs" "wh_status (who_is s t) = STAT_CLIENT" "nv u = nv s"
  shows "given_up t s xs (save_user cfg a src t u)"
proof -
  have "tab u xs" "wh_status (who_is u t) = STAT_CLIENT" using assms(1,3) by (simp_all add: tab_cong [OF assms(4)] assms(4))
  from tab_save [OF this(1) assms(2) this(2), of cfg a src] show ?thesis unfolding given_up_def assms(4) .
qed

lemma given_up_free:
  assumes "given_up t s xs s'" "nick_free nick (without t xs)"
  shows "\<exists>xs'. tab s' xs' \<and> without t xs' = without t xs \<and> nick_free nick xs'"
proof -
  obtain xs' where x: "tab s' xs'" "without t xs' = without t xs" "\<forall>k. (k, t) \<in> set xs' \<longrightarrow> digit_name k"
    using assms(1) by (auto simp: given_up_def)
  have "\<not> irc_eq nick (fst e)" if "e \<in> set xs'" "\<not> digit_name nick" for e
  proof (cases "snd e = t")
    case True
    then have "digit_name (fst e)" using x(3) that(1) by (metis prod.collapse)
    then show ?thesis using digit_not_eq that(2) by blast
  next
    case False
    then have "e \<in> set (without t xs)" using that(1) x(2) [symmetric] by simp
    then show ?thesis using assms(2) that(2) unfolding nick_free_def by blast
  qed
  then have "nick_free nick xs'" unfolding nick_free_def by blast
  then show ?thesis using x(1,2) by blast
qed

lemma register_after:
  assumes "given_up t s xs s'" "nick_free nick (without t xs)" "nick \<noteq> []" "nul_free nick" "uid_ok parv" "nv u = nv s'"
  shows "\<exists>xs'. tab (register_client cfg client_p srv nick newts parv u) xs'"
proof -
  obtain xs' where "tab s' xs'" "nick_free nick xs'" using given_up_free [OF assms(1,2)] by blast
  then have "tab u xs'" by (simp add: tab_cong [OF assms(6)])
  from register_tab [OF this assms(3,4) \<open>nick_free nick xs'\<close> assms(5)] show ?thesis by blast
qed

lemma given_up_tab: "given_up t s xs s' \<Longrightarrow> nv u = nv s' \<Longrightarrow> \<exists>xs'. tab u xs'"
  unfolding given_up_def using tab_cong by blast

lemma nick_collides_tab:
  assumes ok: "tab s xs" "t \<in> snd ` set xs" "wh_status (who_is s t) = STAT_CLIENT"
    and nick: "nick \<noteq> []" "nul_free nick" "nick_free nick (without t xs)" and uid: "uid_ok parv"
    and u: "uid = (if length parv = 10 then Some (new_uid parv) else None)" and save: "save \<longrightarrow> uid \<noteq> None"
  shows "\<exists>xs'. tab (nick_collides cfg source_p client_p t parv newts nick uid save s) xs'"
proof -
  have p: "person (who_is s t)" using ok(3) by (simp add: person_def)
  let ?id = "case uid of Some u \<Rightarrow> u | None \<Rightarrow> []"
  have id: "?id \<noteq> []" "nul_free ?id" "nick_free ?id zs" if save for zs
    using save that uid u by (auto simp: uid_ok_def nick_free_def split: if_splits)
  note kill = given_up_exit [OF ok(1,2) p nv_kill_target [OF ok(1,2) p]] and saved = given_up_save [OF ok]
  note after = register_after [OF _ nick(3,1,2) uid]
  define sameuser where "sameuser = (cl_user (nclient s t) \<and> irccmp (cl_username (nclient s t)) (parv ! 5) = 0 \<and>
    irccmp (cl_host (nclient s t)) (parv ! 6) = 0)"
  consider (both) "no_ts newts (ni_tsinfo (ns_info s t))"
    | (stays) "\<not> no_ts newts (ni_tsinfo (ns_info s t))" "old_one_stays sameuser newts (ni_tsinfo (ns_info s t))"
    | (goes) "\<not> no_ts newts (ni_tsinfo (ns_info s t))" "\<not> old_one_stays sameuser newts (ni_tsinfo (ns_info s t))" by blast
  then show ?thesis
  proof cases
    case both
    show ?thesis
    proof (cases "ni_fake (ns_info s t)")
      case True
      then show ?thesis using ok(1) both by (auto simp: nick_collides_def Let_def tab_def nv_simps)
    next
      case False
      show ?thesis
      proof (cases save)
        case True
        show ?thesis unfolding nick_collides_def Let_def
          by (simp only: both False True if_True if_False)
             (rule register_after [OF saved id(3) id(1,2) uid], simp_all add: nv_simps True)
      next
        case nsave: False
        show ?thesis unfolding nick_collides_def Let_def
          by (simp only: both False nsave if_True if_False) (rule given_up_tab [OF kill], simp_all add: nv_simps)
      qed
    qed
  next
    case stays
    have nv: "nv (save_uid client_p ?id newts s) = nv s" by (simp add: nv_simps)
    have "\<exists>xs'. tab (register_client cfg client_p (Some source_p) ?id SAVE_NICKTS parv (save_uid client_p ?id newts s)) xs'" if save
      using register_tab [OF _ id(1,2,3) uid] ok(1) that by (metis nv tab_cong)
    then show ?thesis using ok(1) stays
      by (cases save) (auto simp: nick_collides_def Let_def sameuser_def tab_def nv_simps)
  next
    case goes
    show ?thesis
    proof (cases "ni_fake (ns_info s t)")
      case True
      then show ?thesis using ok(1) goes by (auto simp: nick_collides_def Let_def tab_def nv_simps sameuser_def)
    next
      case False
      show ?thesis
      proof (cases save)
        case True
        show ?thesis unfolding nick_collides_def Let_def sameuser_def [symmetric]
          by (simp only: goes False True if_True if_False) (rule after [OF saved], simp_all add: nv_simps)
      next
        case nsave: False
        show ?thesis unfolding nick_collides_def Let_def sameuser_def [symmetric]
          by (simp only: goes False nsave if_True if_False) (rule after [OF kill], simp_all add: nv_simps)
      qed
    qed
  qed
qed

section \<open>Collisions of a change\<close>

lemma given_up_others:
  assumes "given_up t s xs s'" "c \<in> snd ` set xs" "c \<noteq> t" "nick_free nick (without t xs)"
  shows "\<exists>xs'. tab s' xs' \<and> c \<in> snd ` set xs' \<and> nick_free nick xs' \<and> who_is s' c = who_is s c"
proof -
  obtain xs' where x: "tab s' xs'" "without t xs' = without t xs" "nick_free nick xs'" using given_up_free [OF assms(1,4)] by blast
  have "c \<in> snd ` set (without t xs)" unfolding snd_without using assms(2,3) by simp
  then have "c \<in> snd ` set xs'" unfolding x(2) [symmetric] snd_without by simp
  moreover have "who_is s' c = who_is s c" using assms(1,3) by (auto simp: given_up_def)
  ultimately show ?thesis using x by blast
qed

lemma can_save_id:
  assumes "tab s xs" "c \<in> snd ` set xs" "wh_status (who_is s c) = STAT_CLIENT" "can_save s c = Some True"
  shows "wh_id (who_is s c) \<noteq> []"
  using tabD(2) [OF assms(1,2)] assms(3,4)
  by (auto simp: can_save_def Let_def who_ok_def nv_sel whois_of_def MyClient_def has_id_def split: if_splits)

lemma save_source_tab:
  assumes "tab s xs" "c \<in> snd ` set xs" "wh_status (who_is s c) = STAT_CLIENT" "wh_id (who_is s c) \<noteq> []" "nv u = nv s"
  shows "\<exists>xs'. tab (save_source a c ts u) xs'"
proof -
  let ?id = "wh_id (who_is s c)"
  have p: "person (who_is s c)" using assms(3) by (simp add: person_def)
  have id: "digit_name ?id" "nul_free ?id" using tabD(2) [OF assms(1,2)] assms(3,4) by (simp_all add: who_ok_def)
  have "cl_id (nclient u c) = wh_id (who_is u c)" by (simp add: nv_sel whois_of_def)
  then have cid: "cl_id (nclient u c) = ?id" by (simp add: assms(5))
  have "nv (save_source a c ts u) = nv s \<or> nv (save_source a c ts u) = nv_rename c ?id (nv s)"
    unfolding save_source_def Let_def cid by (simp add: nv_remote_nick nv_simps assms(5))
  then show ?thesis
  proof
    assume "nv (save_source a c ts u) = nv s"
    then show ?thesis using assms(1) tab_cong by blast
  next
    assume r: "nv (save_source a c ts u) = nv_rename c ?id (nv s)"
    have "nick_free ?id (without c xs)" using id(1) by (simp add: nick_free_def)
    from tab_nv_rename(1) [OF assms(1,2) p assms(4) id(2) this r] show ?thesis by blast
  qed
qed

lemma both_collide_tab:
  assumes ok: "tab s xs" and t: "t \<in> snd ` set xs" "wh_status (who_is s t) = STAT_CLIENT"
    and c: "c \<in> snd ` set xs" "wh_status (who_is s c) = STAT_CLIENT" "c \<noteq> t" and save: "save \<Longrightarrow> wh_id (who_is s c) \<noteq> []"
  shows "\<exists>xs'. tab (both_collide cfg c a t ts save s) xs'"
proof -
  have p: "person (who_is s t)" using t(2) by (simp add: person_def)
  have "digit_name ''0''" by code_simp
  then have free: "nick_free ''0'' (without t xs)" by (simp add: nick_free_def)
  show ?thesis
  proof (cases "save \<and> \<not> ni_fake (ns_info s t)")
    case True
    let ?s = "save_user cfg me me t (count_save (count_save (change_notice s c a t (''both '' @ action_name save) s)))"
    have "given_up t s xs ?s" by (rule given_up_save [OF ok t]) (simp add: nv_simps)
    from given_up_others [OF this c(1,3) free] obtain xs' where x: "tab ?s xs'" "c \<in> snd ` set xs'" "who_is ?s c = who_is s c" by blast
    have st: "wh_status (who_is ?s c) = STAT_CLIENT" "wh_id (who_is ?s c) \<noteq> []" unfolding x(3) using c(2) save True by blast+
    from save_source_tab [OF x(1,2) st refl] have "\<exists>xs''. tab (save_source a c ts ?s) xs''" .
    then show ?thesis unfolding both_collide_def Let_def by (simp only: True simp_thms if_True)
  next
    case False
    let ?s2 = "count_kill (change_notice s c a t (''both '' @ action_name save) s)"
    let ?s3 = "if ni_fake (ns_info s t) then fake_survives t ?s2
       else tell (KillServ None c (my_reason s ''(Nick change collision)'')) (nick_collision t ?s2)"
    let ?s4 = "kill_target cfg None None t ''(Nick change collision)'' ''Nick collision(new)'' ?s3"
    have nv: "nv ?s4 = nv_exit t (nv s)" by (rule nv_kill_target [OF ok t(1) p]) (simp add: nv_simps)
    from given_up_others [OF given_up_exit [OF ok t(1) p this] c(1,3) free]
    obtain xs' where x: "tab ?s4 xs'" "c \<in> snd ` set xs'" "who_is ?s4 c = who_is s c" by blast
    have pc: "person (who_is ?s4 c)" unfolding x(3) using c(2) by (simp add: person_def)
    have "nv (exit_client cfg (Some a) c ''Nick collision(old)'' (set_killed c ?s4)) = nv_exit c (nv ?s4)"
      by (rule nv_exit_same [OF x(1,2) pc]) (simp add: nv_simps)
    from tab_nv_exit(1) [OF x(1,2) pc this] show ?thesis
      unfolding both_collide_def Let_def using False by (simp only: if_False) blast
  qed
qed

lemma source_loses_tab:
  assumes ok: "tab s xs" and c: "c \<in> snd ` set xs" "wh_status (who_is s c) = STAT_CLIENT" and save: "save \<Longrightarrow> wh_id (who_is s c) \<noteq> []"
  shows "\<exists>xs'. tab (source_loses cfg c a t same ts save s) xs'"
proof (cases save)
  case True
  show ?thesis unfolding source_loses_def Let_def
    by (simp only: True if_True) (rule save_source_tab [OF ok c], use save True in \<open>simp_all add: nv_simps\<close>)
next
  case False
  have p: "person (who_is s c)" using c(2) by (simp add: person_def)
  show ?thesis unfolding source_loses_def Let_def
    by (simp only: False if_False) (rule given_up_tab [OF given_up_exit [OF ok c(1) p nv_kill_target [OF ok c(1) p]]], simp_all add: nv_simps)
qed

lemma given_up_target_loses:
  assumes ok: "tab s xs" "t \<in> snd ` set xs" "wh_status (who_is s t) = STAT_CLIENT"
  shows "given_up t s xs (target_loses cfg a t same save s)"
proof -
  have p: "person (who_is s t)" using ok(3) by (simp add: person_def)
  show ?thesis
  proof (cases save)
    case True
    show ?thesis unfolding target_loses_def Let_def
      by (simp only: True if_True) (rule given_up_save [OF ok], simp add: nv_simps)
  next
    case False
    show ?thesis unfolding target_loses_def Let_def
      by (simp only: False if_False) (rule given_up_exit [OF ok(1,2) p nv_kill_target [OF ok(1,2) p]], simp add: nv_simps)
  qed
qed

lemma nickchange_collides_tab:
  assumes ok: "tab s xs" and t: "t \<in> snd ` set xs" "wh_status (who_is s t) = STAT_CLIENT"
    and c: "c \<in> snd ` set xs" "wh_status (who_is s c) = STAT_CLIENT" "c \<noteq> t" and save: "save \<Longrightarrow> wh_id (who_is s c) \<noteq> []"
    and nick: "nick \<noteq> []" "nul_free nick" "nick_free nick (without t xs)"
  shows "\<exists>xs'. tab (nickchange_collides cfg c a t ts nick save s) xs'"
proof -
  have "\<exists>xs'. tab (change_remote_nick a c ts nick True (target_loses cfg a t same save s)) xs'" for same
  proof -
    let ?u = "target_loses cfg a t same save s"
    obtain xs' where x: "tab ?u xs'" "c \<in> snd ` set xs'" "nick_free nick xs'" "who_is ?u c = who_is s c"
      using given_up_others [OF given_up_target_loses [OF ok t] c(1,3) nick(3)] by blast
    have "person (who_is ?u c)" unfolding x(4) using c(2) by (simp add: person_def)
    from tab_nv_rename(1) [OF x(1,2) this nick(1,2) nick_free_without [OF x(3)] nv_remote_nick] show ?thesis by blast
  qed
  then show ?thesis
    using both_collide_tab [OF ok t c save] source_loses_tab [OF ok c(1,2) save] by (simp add: nickchange_collides_def Let_def)
qed

end
