(* ===== verification/NickTheorems.thy ===== *)
theory NickTheorems
  imports NickCollide
begin

text \<open>
  Every command keeps the table of nicks in order, the decisions in a collision, and what NICK does not do.
\<close>

section \<open>The commands\<close>

text \<open>The invariant: nobody is in the table twice, a nick has one owner, and who is in it is alive.\<close>

definition nicks_ok :: "nick_state \<Rightarrow> bool" where "nicks_ok s = (\<exists>xs. tab s xs)"

text \<open>The client is in a bucket of the table.\<close>

definition listed :: "nick_state \<Rightarrow> cid \<Rightarrow> bool" where
  "listed s c = (\<exists>i. case hf_htable (me_hash_client (ns_env s)) i of None \<Rightarrow> False | Some b \<Rightarrow> c \<in> hn_data ` set b)"

lemma listed_iff:
  assumes "tab s xs"
  shows "listed s c \<longleftrightarrow> c \<in> snd ` set xs"
proof -
  let ?H = "me_hash_client (ns_env s)"
  obtain ys where ok: "nick_ok (nv s) xs ys" using assms by (auto simp: tab_def)
  have "irc_rep ?H xs" using nick_okD(1) [OF ok] by (simp add: nv_sel)
  then have b: "hf_htable ?H i = opt_bucket (map (node_of ?H) (filter (\<lambda>e. key_index ?H (fst e) = i) xs))" for i
    by (simp add: irc_rep_def hash_rep_def)
  show ?thesis
  proof
    assume "listed s c"
    then show "c \<in> snd ` set xs" unfolding listed_def b
      by (force simp: opt_bucket_def node_of_def split: if_splits)
  next
    assume "c \<in> snd ` set xs"
    then obtain e where e: "e \<in> set xs" "snd e = c" by auto
    then have "filter (\<lambda>d. key_index ?H (fst d) = key_index ?H (fst e)) xs \<noteq> []" by (auto simp: filter_empty_conv)
    moreover have "c \<in> hn_data ` set (map (node_of ?H) (filter (\<lambda>d. key_index ?H (fst d) = key_index ?H (fst e)) xs))"
      using e by (auto simp: node_of_def image_image intro!: image_eqI [of _ _ e])
    ultimately show "listed s c" unfolding listed_def b
      by (intro exI [of _ "key_index ?H (fst e)"]) (simp add: opt_bucket_def)
  qed
qed

lemma nicks_okI: "tab s xs \<Longrightarrow> nicks_ok s"
  by (auto simp: nicks_ok_def)

lemma nicks_ok_cong: "nv s' = nv s \<Longrightarrow> nicks_ok s \<Longrightarrow> nicks_ok s'"
  by (simp add: nicks_ok_def tab_def)

section \<open>Who may be found\<close>

text \<open>A nick that is a UID may be found as the user with this UID; a server with such an id is no user.\<close>

definition no_server_nick :: "nick_state \<Rightarrow> cstring \<Rightarrow> bool" where
  "no_server_nick s nick = (digit_name nick \<longrightarrow> (\<forall>t. nfind s nick = Some t \<longrightarrow> IsClient (nclient s t) \<or> IsUnknown (nclient s t)))"

lemma nfind_target:
  assumes ok: "tab s xs" and c: "clean_nick cfg nick l" "no_server_nick s nick" and t: "nfind s nick = Some t"
  shows "t \<in> snd ` set xs" "nick_free nick (without t xs)" "person (who_is s t)"
    "\<not> IsUnknown (nclient s t) \<Longrightarrow> wh_status (who_is s t) = STAT_CLIENT"
proof -
  obtain ys where ys: "nick_ok (nv s) xs ys" using ok by (auto simp: tab_def)
  note n = clean_nickD [OF c(1)]
  show "t \<in> snd ` set xs" "nick_free nick (without t xs)" by (rule nfind_Some(1,2) [OF ys n(1,2) t])+
  show p: "person (who_is s t)"
  proof (cases "digit_name nick")
    case True
    then show ?thesis using c(2) t by (auto simp: no_server_nick_def person_def IsClient_def IsUnknown_def nv_sel whois_of_def)
  next
    case False
    then show ?thesis using nfind_person [OF ys c(1) t] by simp
  qed
  show "wh_status (who_is s t) = STAT_CLIENT" if "\<not> IsUnknown (nclient s t)"
    using p that by (auto simp: person_def IsUnknown_def nv_sel whois_of_def)
qed

lemma nfind_nobody:
  assumes "tab s xs" "clean_nick cfg nick l" "nfind s nick = None"
  shows "nick_free nick xs"
proof -
  obtain ys where ys: "nick_ok (nv s) xs ys" using assms(1) by (auto simp: tab_def)
  show ?thesis by (rule nfind_None [OF ys clean_nickD(1,2) [OF assms(2)] assms(3)])
qed

section \<open>Handlers\<close>

lemma rename_ok:
  assumes ok: "tab s xs" and c: "c \<in> snd ` set xs" "person (who_is s c)" and nick: "clean_nick cfg nick l" "nick_free nick (without c xs)"
    and s': "nv s' = nv_rename c nick (nv s) \<or> nv s' = nv s"
  shows "nicks_ok s'"
  using s'
proof
  assume "nv s' = nv s"
  then show ?thesis using nicks_ok_cong nicks_okI [OF ok] by blast
next
  assume r: "nv s' = nv_rename c nick (nv s)"
  show ?thesis by (rule nicks_okI [OF tab_nv_rename(1) [OF ok c clean_nickD(1,2) [OF nick(1)] nick(2) r]])
qed

text \<open>An unregistered client that has the nick leaves, and another client takes it.\<close>

lemma overridden:
  assumes ok: "tab s xs" and t: "t \<in> snd ` set xs" "person (who_is s t)" and c: "c \<in> snd ` set xs" "c \<noteq> t" "person (who_is s c)"
    and nick: "clean_nick cf nick l" "nick_free nick (without t xs)"
    and s': "nv s' = nv_rename c nick (nv (exit_client cfg None t m s)) \<or> nv s' = nv (exit_client cfg None t m s)"
  shows "nicks_ok s'"
proof (rule rename_ok [OF tab_exit(1) [OF ok t] _ _ nick(1) _ s'])
  show "c \<in> snd ` set (without t xs)" unfolding snd_without using c(1,2) by simp
  show "person (who_is (exit_client cfg None t m s) c)" unfolding tab_exit(2) [OF ok t c(2)] by (rule c(3))
  show "nick_free nick (without c (without t xs))" by (rule nick_free_without [OF nick(2)])
qed

definition alive :: "nick_state \<Rightarrow> cid \<Rightarrow> bool" where
  "alive s c = (IsClient (nclient s c) \<and> listed s c)"

lemma aliveD:
  assumes "tab s xs" "alive s c"
  shows "c \<in> snd ` set xs" "wh_status (who_is s c) = STAT_CLIENT" "person (who_is s c)"
  using assms listed_iff [OF assms(1)] by (auto simp: alive_def IsClient_def person_def nv_sel whois_of_def)

lemma nv_end_grace: "nv (if b then in_world (flood_endgrace c) s else s) = nv s"
  by (simp add: nv_world)

lemma m_nick_ok:
  assumes "nicks_ok s" "alive s c"
  shows "nicks_ok (m_nick cfg a c parv s)"
proof -
  obtain xs where ok: "tab s xs" using assms(1) by (auto simp: nicks_ok_def)
  note c = aliveD [OF ok assms(2)]
  let ?nick = "strlcpy (up_to_tilde (parv ! 1)) (nc_nicklen cfg)"
  let ?s = "if \<not> cl_flood_done (nclient s c) then in_world (flood_endgrace c) s else s"
  have nv: "nv ?s = nv s" by (rule nv_end_grace)
  have ok': "tab ?s xs" using ok by (simp only: tab_cong [OF nv])
  have same: "nicks_ok ?s" "nicks_ok (num c e as ?s)" "nicks_ok (num c e as s)" for e as
    using nicks_okI [OF ok'] assms(1) by (auto intro: nicks_ok_cong simp: nv_simps)
  have "nicks_ok (change_local_nick cfg a c ?nick True ?s)" if "clean_nick cfg ?nick True" "hash_find_data (me_hash_client (ns_env ?s)) ?nick = None"
  proof -
    note n = clean_nickD [OF that(1)]
    have "nfind ?s ?nick = None" using n(1,4) that(2) by (simp add: find_client_def digit_name_def)
    then have f: "nick_free ?nick xs" by (rule nfind_nobody [OF ok' that(1)])
    show ?thesis
      by (rule rename_ok [OF ok' c(1) _ that(1) nick_free_without [OF f]]) (use c(3) in \<open>simp_all add: nv nv_local_nick\<close>)
  qed
  moreover have "nfind ?s ?nick = None" if "clean_nick cfg ?nick True" "hash_find_data (me_hash_client (ns_env ?s)) ?nick = None"
    using clean_nickD [OF that(1)] that(2) by (simp add: find_client_def digit_name_def)
  ultimately show ?thesis using same unfolding m_nick_def Let_def by (simp split: option.split)
qed

lemma nv_name_user:
  "nv (in_world (upd_client c (\<lambda>x. x\<lparr>cl_user := True, cl_name := nick\<rparr>)) s) = (nv s)\<lparr>nv_who := (nv_who (nv s))(c := (nv_who (nv s) c)\<lparr>wh_name := nick\<rparr>)\<rparr>"
  by (auto simp: nv_def in_world_def upd_client_def whois_of_def)

lemma mr_nick_ok:
  assumes "nicks_ok s" and c: "IsUnknown (nclient s c)" "cl_myconnect (nclient s c)" "cl_id (nclient s c) = []" "\<not> ni_closing (ns_info s c)"
    "c < ns_next s" and named: "cl_name (nclient s c) \<noteq> [] \<longleftrightarrow> listed s c"
  shows "nicks_ok (mr_nick cfg a c parv s)"
proof -
  obtain xs where ok: "tab s xs" using assms(1) by (auto simp: nicks_ok_def)
  then obtain ys where ys: "nick_ok (nv s) xs ys" by (auto simp: tab_def)
  let ?nick = "strlcpy (up_to_tilde (parv ! 1)) (nc_nicklen cfg)"
  have p: "person (who_is s c)" "wh_id (who_is s c) = []" "who_ok (who_is s c) (nv_closing (nv s) c)" "c < nv_next (nv s)"
    using c by (simp_all add: person_def IsUnknown_def nv_sel whois_of_def who_ok_def)
  have "nicks_ok (set_initial_nick a c ?nick s)" if cl: "clean_nick cfg ?nick True" and none: "nfind s ?nick = None"
  proof -
    have f: "nick_free ?nick xs" by (rule nfind_nobody [OF ok cl none])
    have n: "cl_name (nclient s c) = wh_name (who_is s c)" by (simp add: nv_sel whois_of_def)
    show ?thesis
    proof (cases "cl_name (nclient s c) = []")
      case True
      then have out: "c \<notin> snd ` set xs" using named listed_iff [OF ok] by blast
      have "nv (set_initial_nick a c ?nick s) = nv_enter c ?nick (nv s)"
        using True by (simp add: set_initial_nick_def Let_def nv_simps nv_hash_op nv_name_user nv_info nv_enter_def)
      with nick_ok_enter [OF ys out p(4,1,3,2) clean_nickD(1,2) [OF cl] f] show ?thesis by (auto simp: nicks_ok_def tab_def)
    next
      case False
      then have "c \<in> snd ` set xs" using named listed_iff [OF ok] by blast
      moreover have "nv (set_initial_nick a c ?nick s) = nv_rename c ?nick (nv s)"
        using False unfolding n by (simp add: set_initial_nick_def Let_def n nv_simps nv_hash_op nv_name_user nv_info nv_rename_def)
      ultimately show ?thesis using rename_ok [OF ok _ p(1) cl nick_free_without [OF f]] by blast
    qed
  qed
  moreover have "nicks_ok (in_world (upd_client c (\<lambda>x. x\<lparr>cl_name := ?nick\<rparr>)) s)"
    if cl: "clean_nick cfg ?nick True" and t: "nfind s ?nick = Some c"
  proof -
    note n = clean_nickD [OF cl]
    have "irc_eq ?nick (wh_name (who_is s c))" by (rule nfind_Some(3) [OF ys n(1,2) t]) (use n(4) in simp)
    from nick_ok_recase [OF ys p(1) this] show ?thesis
      by (auto simp: nicks_ok_def tab_def nv_name_set nv_recase_def)
  qed
  moreover have "nicks_ok (num c e as s)" for e as by (rule nicks_ok_cong [OF _ assms(1)]) (simp add: nv_simps)
  ultimately show ?thesis unfolding mr_nick_def Let_def by (auto split: option.split)
qed

lemma opt_andD: "opt_and x y = Some True \<Longrightarrow> x = Some True \<and> y = Some True"
  by (cases x; cases "the x") (auto simp: opt_and_def)

lemma mc_nick_ok:
  assumes "nicks_ok s" "alive s c" "no_server_nick s (parv ! 1)" and r: "mc_nick cfg a c parv s = Some s'"
  shows "nicks_ok s'"
proof -
  obtain xs where ok: "tab s xs" using assms(1) by (auto simp: nicks_ok_def)
  note c = aliveD [OF ok assms(2)]
  let ?nick = "parv ! 1"
  let ?change = "change_remote_nick a c (strtol10 (parv ! 2)) ?nick True"
  show ?thesis
  proof (cases "clean_nick cfg ?nick False")
    case False
    obtain u m where u: "s' = exit_client cfg (Some a) c m u" "nv u = nv s"
      using r False unfolding mc_nick_def Let_def by (auto simp: nv_simps)
    show ?thesis unfolding u(1) by (rule nicks_okI [OF tab_nv_exit(1) [OF ok c(1,3) nv_exit_same [OF ok c(1,3) u(2)]]])
  next
    case cl: True
    show ?thesis
    proof (cases "nfind s ?nick")
      case None
      then have "s' = ?change s" using r cl by (simp add: mc_nick_def Let_def)
      then show ?thesis
        using rename_ok [OF ok c(1,3) cl nick_free_without [OF nfind_nobody [OF ok cl None]]] nv_remote_nick by blast
    next
      case (Some t)
      note t = nfind_target [OF ok cl assms(3) Some]
      consider (unknown) "IsUnknown (nclient s t)" | (same) "\<not> IsUnknown (nclient s t)" "t = c" | (other) "\<not> IsUnknown (nclient s t)" "t \<noteq> c" by blast
      then show ?thesis
      proof cases
        case unknown
        then have "c \<noteq> t" using c(2) by (auto simp: IsUnknown_def nv_sel whois_of_def)
        moreover have "s' = ?change (exit_client cfg None t ''Overridden'' s)" using r cl Some unknown by (simp add: mc_nick_def Let_def)
        ultimately show ?thesis using overridden [OF ok t(1,3) c(1) _ c(3) cl t(2)] nv_remote_nick by blast
      next
        case same
        then have "s' = ?change s \<or> s' = s" using r cl Some by (auto simp: mc_nick_def Let_def split: if_splits)
        then show ?thesis using rename_ok [OF ok c(1,3) cl t(2) [unfolded same(2)]] nv_remote_nick by blast
      next
        case other
        then have "perform_nickchange_collides cfg c a t (strtol10 (parv ! 2)) ?nick s = Some s'"
          using r cl Some by (simp add: mc_nick_def Let_def)
        then obtain save where save: "s' = nickchange_collides cfg c a t (strtol10 (parv ! 2)) ?nick save s"
            "opt_and (if nc_collision_fnc cfg then can_save s t else Some False) (can_save s c) = Some save"
          by (auto simp: perform_nickchange_collides_def)
        have "wh_id (who_is s c) \<noteq> []" if save
        proof -
          have "opt_and (if nc_collision_fnc cfg then can_save s t else Some False) (can_save s c) = Some True" using save(2) that by simp
          from opt_andD [OF this] show ?thesis by (intro can_save_id [OF ok c(1,2)]) blast
        qed
        from nickchange_collides_tab [OF ok t(1) t(4) [OF other(1)] c(1,2) _ this clean_nickD(1,2) [OF cl] t(2)] other(2) save(1)
        show ?thesis by (auto simp: nicks_ok_def)
      qed
    qed
  qed
qed

text \<open>A server that is dropped is only marked.\<close>

lemma marked_ok:
  assumes "nicks_ok s" "IsServer (nclient s c)" "nv u = nv s"
  shows "nicks_ok (exit_client cfg b c m u)"
proof -
  obtain xs ys where ok: "nick_ok (nv s) xs ys" using assms(1) by (auto simp: nicks_ok_def tab_def)
  have st: "wh_status (who_is s c) = STAT_SERVER" using assms(2) by (simp add: IsServer_def nv_sel whois_of_def)
  then have "wh_status (who_is u c) = STAT_SERVER" by (simp only: assms(3))
  then have "cl_status (nclient u c) = STAT_SERVER" by (simp add: nv_sel whois_of_def)
  then have nv: "nv (exit_client cfg b c m u) = (nv s)\<lparr>nv_closing := (nv_closing (nv s))(c := True)\<rparr>"
    using nv_exit_other [of u c cfg b m] by (simp add: assms(3))
  have "who_ok (who_is s (snd e)) (((nv_closing (nv s))(c := True)) (snd e))" if "e \<in> set xs" for e
    using nick_okD(7) [OF ok that] st by (cases "snd e = c") (simp_all add: who_ok_def)
  then have "nick_ok ((nv s)\<lparr>nv_closing := (nv_closing (nv s))(c := True)\<rparr>) xs ys"
    using nick_okD [OF ok] unfolding nick_ok_def by (simp del: fun_upd_apply)
  then show ?thesis by (auto simp: nicks_ok_def tab_def nv)
qed

lemma drop_server_ok:
  "nicks_ok s \<Longrightarrow> IsServer (nclient s c) \<Longrightarrow> nicks_ok (drop_server cfg c cmd n e s)"
  unfolding drop_server_def by (rule marked_ok) (simp_all add: nv_simps)

lemma refuse_user_ok: "nicks_ok s \<Longrightarrow> nicks_ok (refuse_user c k w f v m s)"
  by (rule nicks_ok_cong) (simp_all add: refuse_user_def nv_simps)

lemma register_ok:
  assumes "tab s xs" "clean_nick cf nick l" "nick_free nick xs" "uid_ok parv"
  shows "nicks_ok (register_client cfg a srv nick ts parv s)"
  using register_tab [OF assms(1) clean_nickD(1,2) [OF assms(2)] assms(3,4)] unfolding nicks_ok_def by blast

text \<open>What NICK and UID from a server have in common.\<close>

lemma introduced_ok:
  assumes ok: "nicks_ok s" and cl: "clean_nick cfg nick False" "no_server_nick s nick" and uid: "uid_ok parv"
    and r: "case nfind s nick of None \<Rightarrow> s' = register_client cfg a srv nick ts parv s
      | Some t \<Rightarrow> if IsUnknown (nclient s t) then s' = register_client cfg a srv nick ts parv (exit_client cfg None t m s)
                  else perform_nick_collides cfg b a t parv ts nick (if length parv = 10 then Some (new_uid parv) else None) s = Some s'"
  shows "nicks_ok s'"
proof -
  obtain xs where ok: "tab s xs" using ok by (auto simp: nicks_ok_def)
  show ?thesis
  proof (cases "nfind s nick")
    case None
    then show ?thesis using register_ok [OF ok cl(1) nfind_nobody [OF ok cl(1) None] uid] r by simp
  next
    case (Some t)
    note t = nfind_target [OF ok cl Some]
    show ?thesis
    proof (cases "IsUnknown (nclient s t)")
      case True
      then have "s' = register_client cfg a srv nick ts parv (exit_client cfg None t m s)" using r Some by simp
      then show ?thesis using register_ok [OF tab_exit(1) [OF ok t(1,3)] cl(1) t(2) uid] by simp
    next
      case False
      then have "perform_nick_collides cfg b a t parv ts nick (if length parv = 10 then Some (new_uid parv) else None) s = Some s'"
        using r Some by simp
      then obtain save where save: "s' = nick_collides cfg b a t parv ts nick (if length parv = 10 then Some (new_uid parv) else None) save s"
          "save \<longrightarrow> length parv = 10"
        by (auto simp: perform_nick_collides_def opt_and_def split: option.splits bool.splits if_splits)
      have "save \<longrightarrow> (if length parv = 10 then Some (new_uid parv) else None) \<noteq> None" using save(2) by simp
      from nick_collides_tab [OF ok t(1) t(4) [OF False] clean_nickD(1,2) [OF cl(1)] t(2) uid refl this]
      show ?thesis unfolding save(1) nicks_ok_def .
    qed
  qed
qed

lemma ms_nick_ok:
  assumes ok: "nicks_ok s" and a: "IsServer (nclient s a)" "IsServer (nclient s b)" "no_server_nick s (parv ! 1)"
    and r: "ms_nick cfg a b parv s = Some s'"
  shows "nicks_ok s'"
proof (cases "length parv = 9 \<and> clean_nick cfg (parv ! 1) False \<and> clean_username (parv ! 5) \<and> clean_host (parv ! 6)")
  case False
  then show ?thesis using r drop_server_ok [OF ok a(1)] refuse_user_ok [OF ok] by (auto simp: ms_nick_def Let_def split: if_splits)
next
  case True
  let ?parv = "if length (parv ! 8) > REALLEN then parv[8 := take REALLEN (parv ! 8)] else parv"
  have len: "length ?parv \<noteq> 10" using True by simp
  then have uid: "uid_ok ?parv" by (simp add: uid_ok_def)
  have me: "t \<noteq> b \<or> IsUnknown (nclient s t)" if t: "nfind s (parv ! 1) = Some t" for t
  proof -
    obtain xs where tab: "tab s xs" using ok by (auto simp: nicks_ok_def)
    have "person (who_is s t)" using nfind_target(3) [OF tab _ a(3) t] True by blast
    then show ?thesis using a(2) by (auto simp: person_def IsServer_def IsUnknown_def nv_sel whois_of_def)
  qed
  show ?thesis
    by (rule introduced_ok [OF ok _ a(3) uid, of cfg s' a None "strtol10 (?parv ! 3)" "''Overridden''" b])
       (use True r me len in \<open>auto simp: ms_nick_def Let_def split: option.split if_splits\<close>)
qed

lemma ms_uid_ok:
  assumes ok: "nicks_ok s" and a: "IsServer (nclient s a)" "no_server_nick s (parv ! 1)" and r: "ms_uid cfg a b parv s = Some s'"
  shows "nicks_ok s'"
proof (cases "length parv = 10 \<and> clean_nick cfg (parv ! 1) False \<and> clean_username (parv ! 5) \<and> clean_host (parv ! 6) \<and> clean_uid (parv ! 8)")
  case False
  then show ?thesis using r drop_server_ok [OF ok a(1)] refuse_user_ok [OF ok] by (auto simp: ms_uid_def Let_def split: if_splits)
next
  case True
  let ?parv = "if length (parv ! 9) > REALLEN then parv[9 := take REALLEN (parv ! 9)] else parv"
  have len: "length ?parv = 10" and u: "clean_uid (parv ! 8)" using True by simp_all
  have id: "new_uid ?parv = parv ! 8" using len u by (simp add: new_uid_def clean_uid_def strlcpy_def IDLEN_def)
  have "\<not> IsIdChar NUL" "\<not> IsDigit NUL" by code_simp+
  then have "parv ! 8 \<noteq> [] \<and> digit_name (parv ! 8) \<and> nul_free (parv ! 8)"
    using u by (cases "parv ! 8") (auto simp: clean_uid_def digit_name_def nul_free_def list_all_iff char_at_def)
  then have uid: "uid_ok ?parv" by (simp add: uid_ok_def id)
  have form: "case nfind s (parv ! 1) of
      None \<Rightarrow> s' = register_client cfg a (Some b) (parv ! 1) (strtol10 (?parv ! 3)) ?parv s
    | Some t \<Rightarrow> if IsUnknown (nclient s t)
        then s' = register_client cfg a (Some b) (parv ! 1) (strtol10 (?parv ! 3)) ?parv (exit_client cfg None t ''Overridden'' s)
        else perform_nick_collides cfg b a t ?parv (strtol10 (?parv ! 3)) (parv ! 1) (if length ?parv = 10 then Some (new_uid ?parv) else None) s = Some s'"
    unfolding id len
    using True r by (auto simp: ms_uid_def Let_def split: option.split if_splits)
  show ?thesis by (rule introduced_ok [OF ok _ a(2) uid form]) (use True in blast)
qed

lemma ms_save_ok:
  assumes ok: "nicks_ok s" and n: "nul_free (parv ! 1)"
  shows "nicks_ok (ms_save cfg a b parv s)"
proof -
  obtain xs ys where ys: "nick_ok (nv s) xs ys" using ok by (auto simp: nicks_ok_def tab_def)
  then have tab: "tab s xs" by (auto simp: tab_def)
  have "nicks_ok (save_user cfg a b t s)" if t: "hash_find_data (me_hash_id (ns_env s)) (parv ! 1) = Some t" "IsClient (nclient s t)" for t
  proof -
    have "parv ! 1 \<noteq> []" using t(1) by (auto simp: hash_find_data_def)
    then have "ix_lookup (=) (parv ! 1) ys = Some t"
      using ids.lookup_rep [OF nick_okD(3) [OF ys] n] t(1) by (simp add: nv_sel)
    then obtain e where e: "find (\<lambda>e. parv ! 1 = fst e) ys = Some e" "snd e = t" by (auto simp: ix_lookup_def)
    then have "e \<in> set ys" by (auto simp: find_Some_iff)
    then have "t \<in> snd ` set ys" using e(2) by blast
    then have "t \<in> snd ` set xs" using nick_okD(8) [OF ys] by auto
    moreover have "wh_status (who_is s t) = STAT_CLIENT" using t(2) by (simp add: IsClient_def nv_sel whois_of_def)
    ultimately show ?thesis using tab_save [OF tab, of t cfg a b] by (auto simp: nicks_ok_def)
  qed
  moreover have "nicks_ok (tell m s)" for m by (rule nicks_ok_cong [OF _ ok]) (simp add: nv_simps)
  ultimately show ?thesis using ok by (auto simp: ms_save_def Let_def split: option.split)
qed

section \<open>Reachable states\<close>

text \<open>
  A connection of a client is accepted (\<open>make_client\<close>), and a client that has its nick is registered (\<open>register_local_user\<close>); of these
  only the effect on the tables is here.
\<close>

definition connects :: "nick_info \<Rightarrow> client \<Rightarrow> bool" where
  "connects i c = (cl_name c = [] \<and> cl_id c = [] \<and> cl_status c = STAT_UNKNOWN \<and> cl_myconnect c \<and> \<not> ni_closing i)"

definition registered :: "cid \<Rightarrow> cstring \<Rightarrow> nick_state \<Rightarrow> nick_state" where
  "registered c uid s =
     on_id_hash (hash_add uid c) (in_world (upd_client c (\<lambda>x. x\<lparr>cl_status := STAT_CLIENT, cl_id := uid\<rparr>)) s)"

inductive nick_step :: "nick_conf \<Rightarrow> nick_state \<Rightarrow> nick_state \<Rightarrow> bool" for cfg :: nick_conf where
  connect: "connects i c \<Longrightarrow> nick_step cfg s (allocate_client i c s)"
| register: "IsUnknown (nclient s c) \<Longrightarrow> listed s c \<Longrightarrow> digit_name uid \<Longrightarrow> nul_free uid \<Longrightarrow> nick_step cfg s (registered c uid s)"
| mr_nick: "IsUnknown (nclient s c) \<Longrightarrow> cl_myconnect (nclient s c) \<Longrightarrow> cl_id (nclient s c) = [] \<Longrightarrow> \<not> ni_closing (ns_info s c) \<Longrightarrow>
    c < ns_next s \<Longrightarrow> (cl_name (nclient s c) \<noteq> [] \<longleftrightarrow> listed s c) \<Longrightarrow> nick_step cfg s (mr_nick cfg a c parv s)"
| m_nick: "alive s c \<Longrightarrow> nick_step cfg s (m_nick cfg a c parv s)"
| mc_nick: "alive s c \<Longrightarrow> no_server_nick s (parv ! 1) \<Longrightarrow> mc_nick cfg a c parv s = Some s' \<Longrightarrow> nick_step cfg s s'"
| ms_nick: "IsServer (nclient s a) \<Longrightarrow> IsServer (nclient s b) \<Longrightarrow> no_server_nick s (parv ! 1) \<Longrightarrow> ms_nick cfg a b parv s = Some s' \<Longrightarrow>
    nick_step cfg s s'"
| ms_uid: "IsServer (nclient s a) \<Longrightarrow> no_server_nick s (parv ! 1) \<Longrightarrow> ms_uid cfg a b parv s = Some s' \<Longrightarrow> nick_step cfg s s'"
| ms_save: "nul_free (parv ! 1) \<Longrightarrow> nick_step cfg s (ms_save cfg a b parv s)"
| exits: "alive s c \<or> IsUnknown (nclient s c) \<and> listed s c \<Longrightarrow> nick_step cfg s (exit_client cfg a c m s)"

lemma connect_ok:
  assumes "nicks_ok s" "connects i c"
  shows "nicks_ok (allocate_client i c s)"
proof -
  obtain xs ys where ok: "nick_ok (nv s) xs ys" using assms(1) by (auto simp: nicks_ok_def tab_def)
  have n: "nv_next (nv s) = ns_next s" by (simp add: nv_sel)
  have x: "snd e \<noteq> ns_next s" if "e \<in> set xs" for e using nick_okD(6) [OF ok that] by (simp add: n)
  have y: "snd e \<noteq> ns_next s" if e: "e \<in> set ys" for e
  proof -
    obtain d where "d \<in> set xs" "snd d = snd e" using nick_okD(8) [OF ok e] by auto
    then show ?thesis using x [of d] by simp
  qed
  have "nick_ok (nv (allocate_client i c s)) xs ys"
    unfolding nick_ok_def nv_allocate using nick_okD [OF ok] x y by (simp add: less_SucI n)
  then show ?thesis by (auto simp: nicks_ok_def tab_def)
qed

lemma register_step_ok:
  assumes "nicks_ok s" and c: "IsUnknown (nclient s c)" "listed s c" and uid: "digit_name uid" "nul_free uid"
  shows "nicks_ok (registered c uid s)"
proof -
  obtain xs ys where ok: "nick_ok (nv s) xs ys" using assms(1) by (auto simp: nicks_ok_def tab_def)
  then have tab: "tab s xs" by (auto simp: tab_def)
  have cx: "c \<in> snd ` set xs" using c(2) listed_iff [OF tab] by simp
  have st: "wh_status (who_is s c) = STAT_UNKNOWN" using c(1) by (simp add: IsUnknown_def nv_sel whois_of_def)
  then have w: "wh_id (who_is s c) = []" "\<not> nv_closing (nv s) c" using in_table(2) [OF ok cx] by (simp_all add: who_ok_def)
  have n: "irc_eq (fst e) (wh_name (who_is s c))" if "e \<in> set xs" "snd e = c" for e using nick_okD(5) [OF ok that(1)] that(2) by simp
  have u: "uid \<noteq> []" using uid(1) by (auto simp: digit_name_def char_at_def) code_simp
  let ?w = "(who_is s c)\<lparr>wh_status := STAT_CLIENT, wh_id := uid\<rparr>"
  have nv: "nv (registered c uid s) = (nv s)\<lparr>nv_ids := hash_add uid c (nv_ids (nv s)), nv_who := (nv_who (nv s))(c := ?w)\<rparr>"
    unfolding registered_def nv_id_op by (auto simp: nv_def in_world_def upd_client_def whois_of_def)
  have y: "snd e \<noteq> c" if e: "e \<in> set ys" for e
    using nick_okD(9) [OF ok e] nick_okD(3) [OF ok] e w(1) by (auto simp: id_rep_def hash_rep_def)
  have "id_rep (hash_add uid c (nv_ids (nv s))) ((uid, c) # ys)" by (rule ids.rep_add [OF nick_okD(3) [OF ok] uid(2) u])
  moreover have "who_ok ?w (nv_closing (nv s) c)" using uid u w(2) by (simp add: who_ok_def)
  moreover have "c \<notin> snd ` set ys"
  proof
    assume "c \<in> snd ` set ys"
    then obtain e where "e \<in> set ys" "c = snd e" by (rule imageE)
    then show False using y [of e] by simp
  qed
  ultimately have "nick_ok (nv (registered c uid s)) xs ((uid, c) # ys)"
    unfolding nick_ok_def nv using nick_okD [OF ok] y cx n by simp
  then show ?thesis by (auto simp: nicks_ok_def tab_def)
qed

lemma exits_ok:
  assumes "nicks_ok s" "alive s c \<or> IsUnknown (nclient s c) \<and> listed s c"
  shows "nicks_ok (exit_client cfg a c m s)"
proof -
  obtain xs where ok: "tab s xs" using assms(1) by (auto simp: nicks_ok_def)
  have "c \<in> snd ` set xs" "person (who_is s c)"
    using assms(2) listed_iff [OF ok] by (auto simp: alive_def person_def IsClient_def IsUnknown_def nv_sel whois_of_def)
  from nicks_okI [OF tab_exit(1) [OF ok this]] show ?thesis .
qed

lemma nick_step_ok: "nick_step cfg s s' \<Longrightarrow> nicks_ok s \<Longrightarrow> nicks_ok s'"
proof (induction rule: nick_step.cases)
  case (mr_nick s c a parv) then show ?case using mr_nick_ok by simp
qed (auto intro: connect_ok register_step_ok m_nick_ok mc_nick_ok ms_nick_ok ms_uid_ok ms_save_ok exits_ok)

lemma nick_steps_ok: "(nick_step cfg)\<^sup>*\<^sup>* s s' \<Longrightarrow> nicks_ok s \<Longrightarrow> nicks_ok s'"
  by (induction rule: rtranclp_induct) (auto intro: nick_step_ok)

end
