(* ===== verification/NickClaims.thy ===== *)
theory NickClaims
  imports NickTheorems ModeTheorems
begin

text \<open>
  The properties of \<open>Nick\<close>: nicks have one owner, both servers decide a collision alike, and what goes wrong.
\<close>

section \<open>One owner\<close>

lemma nul_free_eq: "irc_eq k k' \<Longrightarrow> nul_free k \<Longrightarrow> nul_free k'"
proof -
  have n: "ToUpper c = NUL \<longleftrightarrow> c = NUL" for c by (rule ToUpper_eq_fixed) simp
  then have n': "NUL = ToUpper c \<longleftrightarrow> NUL = c" for c by metis
  have "NUL \<in> set l \<longleftrightarrow> NUL \<in> set (map ToUpper l)" for l
    by (induction l) (simp_all only: list.set list.map insert_iff empty_iff n')
  then have l: "nul_free l \<longleftrightarrow> NUL \<notin> set (map ToUpper l)" for l by (auto simp only: nul_free_def)
  assume "irc_eq k k'" "nul_free k"
  then show ?thesis unfolding l irc_eq_def irc_fold_def by simp
qed

lemma owner_found:
  assumes "nicks_ok s" "listed s c" "\<not> digit_name nick" "irc_eq nick (cl_name (nclient s c))"
  shows "nfind s nick = Some c"
proof -
  obtain xs ys where ok: "nick_ok (nv s) xs ys" using assms(1) by (auto simp: nicks_ok_def tab_def)
  have "tab s xs" using ok by (auto simp: tab_def)
  then have "c \<in> snd ` set xs" using assms(2) listed_iff by blast
  then obtain k where k: "(k, c) \<in> set xs" "irc_eq k (wh_name (who_is s c))" using in_table(1) [OF ok] by blast
  have nk: "irc_eq nick k" using k(2) assms(4) by (simp add: irc_eq_def nv_sel whois_of_def)
  have ke: "k \<noteq> []" "nul_free k" using nick_okD(1) [OF ok] k(1) by (auto simp: irc_rep_def hash_rep_def)
  have kn: "irc_eq k nick" using nk by (simp add: irc_eq_def)
  then have "nick \<noteq> []" using ke(1) by (auto simp: irc_eq_def irc_fold_def)
  then have n: "nick \<noteq> []" "nul_free nick" using nul_free_eq [OF kn ke(2)] by simp_all
  have used: "\<not> nick_free nick zs" if "(k, c) \<in> set zs" for zs
  proof -
    have "\<exists>e \<in> set zs. irc_eq nick (fst e)" by (rule bexI [OF _ that]) (simp add: nk)
    then show ?thesis using assms(3) unfolding nick_free_def by blast
  qed
  have "nfind s nick \<noteq> None" using nfind_None [OF ok n] used [OF k(1)] by blast
  then obtain t where t: "nfind s nick = Some t" by blast
  have "nick_free nick (without t xs)" by (rule nfind_Some(2) [OF ok n t])
  then have "(k, c) \<notin> set (without t xs)" using used by blast
  then show ?thesis using t k(1) by simp
qed

definition nick_start :: "nick_state \<Rightarrow> bool" where
  "nick_start s = (init_hash ! 0 = Some (me_hash_client (ns_env s)) \<and> init_hash ! 1 = Some (me_hash_id (ns_env s)))"

lemma nick_start_ok: "nick_start s \<Longrightarrow> nicks_ok s"
proof -
  assume "nick_start s"
  then have h: "hash_create ''NICK'' CMP_IRCCMP 17 0 = Some (nv_hash (nv s))" "hash_create ''ID'' CMP_STRCMP 17 0 = Some (nv_ids (nv s))"
    by (simp_all add: nick_start_def init_hash_def init_hash_args_def nv_sel)
  have "irc_rep (nv_hash (nv s)) []" using hash_create_rep [OF h(1)] by (simp add: irc_rep_def)
  moreover have "id_rep (nv_ids (nv s)) []" using hash_create_rep [OF h(2)] by (simp add: id_rep_def)
  ultimately have "nick_ok (nv s) [] []" by (simp add: nick_ok_def)
  then show ?thesis by (auto simp: nicks_ok_def tab_def)
qed

section \<open>Examples\<close>

definition small_nick_conf :: nick_conf where
  "small_nick_conf = \<lparr>nc_nicklen = 10, nc_nicklen_min = 1, nc_anti_nick_flood = False, nc_max_nick_changes = 5, nc_max_nick_time = 20,
     nc_collision_fnc = False, nc_hide_spoof_ips = False, nc_resv_nick_list = []\<rparr>"

definition nick_base :: nick_state where
  "nick_base = \<lparr>ns_world = small_world, ns_info = (\<lambda>_. new_info me 5 0), ns_env = small_env, ns_hostname = the (hash_create ''Host'' CMP_IRCCMP 17 30),
     ns_nd = the (hash_create ''ND'' CMP_IRCCMP 17 0), ns_nd_list = [], ns_global = [], ns_unknown = [], ns_lclient = [], ns_opers = [],
     ns_dead_list = [], ns_next = 1, ns_counts = \<lparr>ct_total = 0, ct_max_tot = 0, ct_invisi = 0, ct_oper = 0, ct_kill = 0, ct_save = 0\<rparr>, ns_out = []\<rparr>"

definition caller :: client where
  "caller = (user_named [])\<lparr>cl_status := STAT_UNKNOWN, cl_user := False\<rparr>"

text \<open>Two users, \<open>pal\<close> (1) and \<open>bob\<close> (2).\<close>

definition user_with_id :: "cstring \<Rightarrow> cstring \<Rightarrow> client" where
  "user_with_id nick uid = (user_named nick)\<lparr>cl_id := uid\<rparr>"

definition two_users :: "int \<Rightarrow> bool \<Rightarrow> nick_state" where
  "two_users ts fake =
     nick_base\<lparr>ns_world := small_world\<lparr>w_clients := (\<lambda>c. if c = 1 then user_with_id ''pal'' ''0AAAAAAAB'' else user_with_id ''bob'' ''0AAAAAAAC'')\<rparr>,
       ns_info := (\<lambda>c. (new_info me ts 0)\<lparr>ni_fake := fake\<rparr>),
       ns_env := small_env\<lparr>me_hash_client := hash_add ''bob'' 2 (hash_add ''pal'' 1 (me_hash_client small_env)),
         me_hash_id := hash_add ''0AAAAAAAC'' 2 (hash_add ''0AAAAAAAB'' 1 (me_hash_id small_env))\<rparr>,
       ns_next := 3\<rparr>"

lemma nick_base_start: "nick_start nick_base"
  by (simp add: nick_start_def nick_base_def small_env_def init_hash_def init_hash_args_def hash_create_def)

lemma two_users_tab: "tab (two_users ts fake) [(''bob'', 2), (''pal'', 1)]"
proof -
  have b: "nick_ok (nv nick_base) [] []"
    using hash_create_rep [of "''NICK''" CMP_IRCCMP 17 0] hash_create_rep [of "''ID''" CMP_STRCMP 17 0]
    by (simp add: nick_ok_def nv_sel nick_base_def small_env_def irc_rep_def id_rep_def hash_create_def)
  have n: "nul_free ''pal''" "nul_free ''bob''" "nul_free ''0AAAAAAAB''" "nul_free ''0AAAAAAAC''" by (simp_all add: nul_free_def)
  have d: "digit_name ''0AAAAAAAB''" "digit_name ''0AAAAAAAC''" "\<not> digit_name ''pal''" "\<not> digit_name ''bob''" "irc_fold ''pal'' \<noteq> irc_fold ''bob''"
    by code_simp+
  have h: "me_hash_client (ns_env nick_base) = me_hash_client small_env" "me_hash_id (ns_env nick_base) = me_hash_id small_env"
    by (simp_all add: nick_base_def)
  have "irc_rep (hash_add ''bob'' 2 (hash_add ''pal'' 1 (me_hash_client small_env))) [(''bob'', 2), (''pal'', 1 :: cid)]"
    by (intro irc.rep_add) (use nick_okD(1) [OF b] n in \<open>simp_all add: nv_sel h\<close>)
  moreover have "id_rep (hash_add ''0AAAAAAAC'' 2 (hash_add ''0AAAAAAAB'' 1 (me_hash_id small_env))) [(''0AAAAAAAC'', 2), (''0AAAAAAAB'', 1 :: cid)]"
    by (intro ids.rep_add) (use nick_okD(3) [OF b] n in \<open>simp_all add: nv_sel h\<close>)
  ultimately have "nick_ok (nv (two_users ts fake)) [(''bob'', 2), (''pal'', 1)] [(''0AAAAAAAC'', 2), (''0AAAAAAAB'', 1)]"
    using d n by (simp add: nick_ok_def nv_sel two_users_def whois_of_def user_with_id_def user_named_def who_ok_def new_info_def irc.eqk_refl)
  then show ?thesis by (auto simp: tab_def)
qed

lemma two_users_ok: "nicks_ok (two_users ts fake)" by (rule nicks_okI [OF two_users_tab])

lemma two_users_sel:
  "nclient (two_users ts fake) 1 = user_with_id ''pal'' ''0AAAAAAAB''" "nclient (two_users ts fake) 2 = user_with_id ''bob'' ''0AAAAAAAC''"
  "nclient (two_users ts fake) (Suc 0) = user_with_id ''pal'' ''0AAAAAAAB''"
  "ns_info (two_users ts fake) c = (new_info me ts 0)\<lparr>ni_fake := fake\<rparr>"
  by (simp_all add: two_users_def nick_base_def)

lemma two_users_alive: "alive (two_users ts fake) 1" "alive (two_users ts fake) 2"
  using listed_iff [OF two_users_tab] by (simp_all add: alive_def two_users_sel user_with_id_def user_named_def IsClient_def)

lemma pal_clean: "clean_nick small_nick_conf ''pal'' False" "clean_nick small_nick_conf ''pal'' True" "\<not> digit_name ''pal''"
  by code_simp+

lemma two_users_find: "nfind (two_users ts fake) ''pal'' = Some 1"
  by (rule owner_found [OF two_users_ok])
     (use two_users_alive in \<open>simp_all add: alive_def pal_clean two_users_sel user_with_id_def user_named_def irc.eqk_refl\<close>)

section \<open>Nicks\<close>


lemma initial_nick:
  "cl_name (nclient s c) = [] \<Longrightarrow> me_hash_client (ns_env (set_initial_nick a c nick s)) = hash_add nick c (me_hash_client (ns_env s))"
  "cl_name (nclient (set_initial_nick a c nick s) c) = nick"
  by (simp_all add: set_initial_nick_def Let_def on_client_hash_def in_world_def upd_info_def upd_client_def tell_def)

lemma listed_add: "me_hash_client (ns_env s) = hash_add k c H \<Longrightarrow> k \<noteq> [] \<Longrightarrow> listed s c"
  unfolding listed_def by (rule exI) (auto simp: hash_add_def hash_add_len_def Let_def set_bucket_def)

lemma two_steps: "nick_step cfg a b \<Longrightarrow> nick_step cfg b c \<Longrightarrow> (nick_step cfg)\<^sup>*\<^sup>* a c"
  by auto


section \<open>Collisions\<close>

lemma nfind_cong: "nv s' = nv s \<Longrightarrow> nfind s' nick = nfind s nick"
proof -
  assume "nv s' = nv s"
  then have "me_hash_client (ns_env s') = me_hash_client (ns_env s)" "me_hash_id (ns_env s') = me_hash_id (ns_env s)"
    using nv_sel(1,2) [of s] nv_sel(1,2) [of s'] by simp_all
  then show ?thesis by (simp add: find_client_def)
qed

text \<open>Without \<open>SAVE\<close> the user here keeps the nick, or it is gone.\<close>

lemma collision_outcome:
  fixes cfg b a uid and newts :: int
  assumes ok: "nicks_ok s" and cl: "clean_nick cf nick l" "no_server_nick s nick" and t: "nfind s nick = Some t" "IsClient (nclient s t)"
    and uid: "uid_ok parv" and fake: "\<not> ni_fake (ns_info s t)"
  defines "same \<equiv> cl_user (nclient s t) \<and> irccmp (cl_username (nclient s t)) (parv ! 5) = 0 \<and> irccmp (cl_host (nclient s t)) (parv ! 6) = 0"
    and "r \<equiv> nick_collides cfg b a t parv newts nick uid False s"
  shows "nfind r nick = Some t \<longleftrightarrow> \<not> no_ts newts (ni_tsinfo (ns_info s t)) \<and> old_one_stays same newts (ni_tsinfo (ns_info s t))"
proof -
  obtain xs where tab: "tab s xs" using ok by (auto simp: nicks_ok_def)
  have "\<not> IsUnknown (nclient s t)" using t(2) by (simp add: IsUnknown_def IsClient_def)
  note t' = nfind_target [OF tab cl t(1)] and nick = clean_nickD(1,2) [OF cl(1)]
  have gone: "nfind u nick \<noteq> Some t" if "tab u xs'" "t \<notin> snd ` set xs'" for u xs'
    using that nfind_Some(1) [OF _ nick] unfolding tab_def by blast
  have k: "nv (kill_target cfg x y t k m u) = nv_exit t (nv s)" if "nv u = nv s" for x y k m u
    by (rule nv_kill_target [OF tab t'(1,3) that])
  have killed: "nfind u nick \<noteq> Some t" if "nv u = nv_exit t (nv s)" for u
    by (rule gone [OF tab_nv_exit(1) [OF tab t'(1,3) that]]) (simp add: snd_without del: set_filter)
  have new: "nfind (register_client cfg a srv nick newts parv u) nick \<noteq> Some t" if u: "nv u = nv_exit t (nv s)" for srv u
  proof -
    have n: "nv_next (nv u) = nv_next (nv s)" by (simp add: u nv_exit_def)
    obtain xs' where x: "tab (register_client cfg a srv nick newts parv u) xs'" "snd ` set xs' \<subseteq> insert (nv_next (nv u)) (snd ` set (without t xs))"
      using register_tab [OF tab_nv_exit(1) [OF tab t'(1,3) u] nick t'(2) uid] by blast
    have "t \<noteq> nv_next (nv u)" using tabD(3) [OF tab t'(1)] by (simp add: n)
    then have "t \<notin> snd ` set xs'" using x(2) unfolding snd_without by blast
    then show ?thesis by (rule gone [OF x(1)])
  qed
  show ?thesis
  proof (cases "no_ts newts (ni_tsinfo (ns_info s t))")
    case True
    then have "nv r = nv_exit t (nv s)"
      unfolding r_def nick_collides_def Let_def by (simp only: fake if_True if_False) (rule k, simp add: nv_simps)
    from killed [OF this] show ?thesis using True by simp
  next
    case ts: False
    show ?thesis
    proof (cases "old_one_stays same newts (ni_tsinfo (ns_info s t))")
      case True
      then have "nv r = nv s" unfolding r_def nick_collides_def Let_def same_def using ts by (simp add: nv_simps)
      from nfind_cong [OF this] show ?thesis using t(1) True ts by simp
    next
      case False
      have "nfind r nick \<noteq> Some t" unfolding r_def nick_collides_def Let_def same_def [symmetric]
        by (simp only: fake ts False if_True if_False) (rule new, rule k, simp add: nv_simps)
      then show ?thesis using False by simp
    qed
  qed
qed

text \<open>What one server tells another of its user.\<close>

definition tells_of :: "nick_state \<Rightarrow> cid \<Rightarrow> cstring list \<Rightarrow> int \<Rightarrow> bool" where
  "tells_of s t parv newts =
     (parv ! 5 = cl_username (nclient s t) \<and> parv ! 6 = cl_host (nclient s t) \<and> newts = ni_tsinfo (ns_info s t) \<and>
      nul_free (parv ! 5) \<and> nul_free (parv ! 6) \<and> newts \<noteq> 0)"


section \<open>What goes wrong\<close>

text \<open>
  C38: \<open>m_nick\<close> looks into the table of nicks where it means the table of delayed nicks: any nick that is in use is refused as temporarily
  unavailable, also the user's own nick in other letters or one of a client that is not registered; any other nick is taken at once, delayed or
  not. The three answers behind the test (a change of letters, overriding an unregistered client, ERR_NICKNAMEINUSE) are never given.
\<close>

theorem m_nick_wrong_table:
  fixes cfg :: nick_conf and parv :: "cstring list" and s :: nick_state and c :: cid
  defines "nick \<equiv> strlcpy (up_to_tilde (parv ! 1)) (nc_nicklen cfg)"
    and "u \<equiv> (if \<not> cl_flood_done (nclient s c) then in_world (flood_endgrace c) s else s)"
  assumes "\<not> no_nick_given parv" "clean_nick cfg nick True" "\<not> find_nick_resv cfg nick"
  shows "m_nick cfg a c parv s =
    (if hash_find_data (me_hash_client (ns_env s)) nick \<noteq> None then num c ''ERR_UNAVAILRESOURCE'' [nick] u
     else change_local_nick cfg a c nick True u)"
proof -
  have n: "nick \<noteq> []" "\<not> IsDigit (char_at nick 0)" using clean_nickD [OF assms(4)] by (simp_all add: digit_name_def)
  have e: "ns_env u = ns_env s" by (simp add: u_def in_world_def)
  have "nfind u nick = hash_find_data (me_hash_client (ns_env s)) nick" using n by (simp add: find_client_def e)
  then show ?thesis using assms(3-5) e unfolding m_nick_def Let_def nick_def [symmetric] u_def [symmetric] by simp
qed

text \<open>The messages about users to other servers.\<close>

definition for_servers :: "nick_out \<Rightarrow> bool" where
  "for_servers m = (case m of KillServ b c t \<Rightarrow> True | Servers b x y t \<Rightarrow> True | Introduced b x \<Rightarrow> True | _ \<Rightarrow> False)"

definition loud :: "nick_state \<Rightarrow> nick_out list" where "loud s = filter for_servers (ns_out s)"

named_theorems loud_simps

lemma loud_same [loud_simps]:
  "loud (upd_info c f s) = loud s" "loud (in_world g s) = loud s" "loud (on_client_hash h s) = loud s" "loud (on_id_hash h s) = loud s"
  "loud (on_counts k s) = loud s" "loud (on_whowas w s) = loud s" "loud (add_history c b s) = loud s"
  "loud (tell m s) = (if for_servers m then loud s @ [m] else loud s)"
  by (simp_all add: loud_def upd_info_def in_world_def on_client_hash_def on_id_hash_def on_counts_def on_whowas_def add_history_def tell_def)

lemma loud_lists [loud_simps]:
  "loud (s\<lparr>ns_global := l\<rparr>) = loud s" "loud (s\<lparr>ns_unknown := l\<rparr>) = loud s" "loud (s\<lparr>ns_lclient := l\<rparr>) = loud s"
  "loud (s\<lparr>ns_opers := l\<rparr>) = loud s" "loud (s\<lparr>ns_dead_list := l\<rparr>) = loud s" "loud (s\<lparr>ns_hostname := hn\<rparr>) = loud s"
  by (simp_all add: loud_def)

lemma loud_kinds [loud_simps]:
  "for_servers (KillServ x d m)" "for_servers (Servers x y z m)" "\<not> for_servers (Out o')" "\<not> for_servers (Common d m)"
  "\<not> for_servers (SignOff m)" "\<not> for_servers (CountNet d b)" "\<not> for_servers CheckSplit" "\<not> for_servers (ClearMonitor d)"
  "\<not> for_servers (CloseConnection d)" "\<not> for_servers (DelayExit d m)" "\<not> for_servers (LinkExits d m)" "for_servers (Introduced x d)"
  "\<not> for_servers (ServiceCollision d)"
  by (simp_all add: for_servers_def)

lemma loud_fold: "(\<And>x t. loud (f x t) = loud t) \<Longrightarrow> loud (fold f xs s) = loud s"
  by (induction xs arbitrary: s) auto

lemma loud_small [loud_simps]:
  "loud (del_all_accepts c s) = loud s" "loud (remove_client_from_list c s) = loud s" "loud (close_link c r d s) = loud s"
  "loud (leave_server sv c s) = loud s" "loud (set_dead c s) = loud s" "loud (set_killed c s) = loud s" "loud (count_kill s) = loud s"
  by (simp_all add: del_all_accepts_def leave_allow_lists_def from_allow_list_def from_on_allow_list_def loud_fold
      remove_client_from_list_def update_client_exit_stats_def close_link_def close_connection_def Let_def leave_server_def set_dead_def set_killed_def count_kill_def
      loud_simps)

lemma loud_generic [loud_simps]: "loud (exit_generic_client c m s) = loud s" "loud (exit_unknown_client c m s) = loud s"
  by (simp_all add: exit_generic_client_def exit_unknown_client_def Let_def loud_simps)

abbreviation kl :: "nick_state \<Rightarrow> cid \<Rightarrow> bool" where "kl s c \<equiv> ni_killed (ns_info s c)"

named_theorems kl_simps

lemma kl_info: "(\<And>i. ni_killed (f i) = ni_killed i) \<Longrightarrow> kl (upd_info d f s) c = kl s c"
  by (simp add: upd_info_def)

lemma kl_same [kl_simps]:
  "kl (in_world g s) c = kl s c" "kl (on_client_hash h s) c = kl s c" "kl (on_id_hash h s) c = kl s c" "kl (on_counts k s) c = kl s c"
  "kl (on_whowas w s) c = kl s c" "kl (add_history d b s) c = kl s c" "kl (tell m s) c = kl s c"
  by (simp_all add: in_world_def on_client_hash_def on_id_hash_def on_counts_def on_whowas_def add_history_def tell_def)

lemma kl_lists [kl_simps]:
  "kl (s\<lparr>ns_global := l\<rparr>) c = kl s c" "kl (s\<lparr>ns_lclient := l\<rparr>) c = kl s c" "kl (s\<lparr>ns_opers := l\<rparr>) c = kl s c"
  "kl (s\<lparr>ns_hostname := hn\<rparr>) c = kl s c"
  by simp_all

lemma kl_fold: "(\<And>x t. kl (f x t) c = kl t c) \<Longrightarrow> kl (fold f xs s) c = kl s c"
  by (induction xs arbitrary: s) auto

lemma kl_accepts [kl_simps]: "kl (del_all_accepts d s) c = kl s c"
  by (simp add: del_all_accepts_def leave_allow_lists_def kl_simps kl_info kl_fold from_allow_list_def from_on_allow_list_def)

lemma kl_exit_generic [kl_simps]: "kl (exit_generic_client d m s) c = kl s c"
  unfolding exit_generic_client_def Let_def remove_client_from_list_def update_client_exit_stats_def
  by (simp add: kl_simps)

lemma kl_small [kl_simps]: "kl (leave_server sv d s) c = kl s c" "kl (close_link d r t s) c = kl s c"
  by (simp_all add: leave_server_def close_link_def close_connection_def Let_def kl_simps kl_info)

lemma loud_killed:
  assumes "kl s c"
  shows "loud (exit_client cfg a c m s) = loud s"
proof -
  let ?s = "upd_info c (\<lambda>i. i\<lparr>ni_closing := True\<rparr>) s"
  have q: "loud (quit_to_servers a c m t) = loud t" if "kl t c" for t using that by (simp add: quit_to_servers_def)
  have k: "kl ?s c" using assms by (simp add: kl_info)
  have r: "loud (exit_remote_client a c m ?s) = loud s"
    unfolding exit_remote_client_def by (simp add: loud_simps q kl_simps k)
  have l: "loud (exit_local_client cfg a c m ?s) = loud s"
    unfolding exit_local_client_def Let_def by (simp add: loud_simps q kl_simps k)
  show ?thesis using r l by (simp add: exit_client_def Let_def loud_simps)
qed


section \<open>Witnesses\<close>


theorem m_nick_wrong_table_witness:
  "\<exists>u. m_nick small_nick_conf 1 1 [[], ''PAL''] (two_users 5 False) = num 1 ''ERR_UNAVAILRESOURCE'' [''PAL''] u"
proof -
  have arg: "\<not> no_nick_given [[], ''PAL'']" "strlcpy (up_to_tilde ''PAL'') (nc_nicklen small_nick_conf) = ''PAL''" "\<not> find_nick_resv small_nick_conf ''PAL''"
    by (simp_all add: no_nick_given_def char_at_def up_to_tilde_def strlcpy_def small_nick_conf_def find_nick_resv_def)
  have cl: "clean_nick small_nick_conf ''PAL'' True" "\<not> digit_name ''PAL''" "irc_eq ''PAL'' ''pal''" by code_simp+
  have "nfind (two_users 5 False) ''PAL'' = Some 1"
    by (rule owner_found [OF two_users_ok])
       (use two_users_alive cl in \<open>simp_all add: alive_def two_users_sel user_with_id_def user_named_def\<close>)
  then have "hash_find_data (me_hash_client (ns_env (two_users 5 False))) ''PAL'' \<noteq> None"
    using cl(2) by (simp add: find_client_def digit_name_def)
  then show ?thesis
    using m_nick_wrong_table [of "[[], ''PAL'']" small_nick_conf 1 1 "two_users 5 False"] arg cl(1) by auto
qed


end
