(* ===== verification/Spec2Isabelle.thy ===== *)
theory Spec2Isabelle
  imports Prelude Chars Match Masks Inet Dlink Hash World Channel Bans ChanInfo Whowas WhowasProps
    Mode ModeProps BanMasks ModeTheorems Parse ParseProps Linebuf LinebufProps LineStream
    Packet PacketProps Join JoinProps SjoinProps JoinTheorems JoinRound
    ChanCmds ChanCmdsProps Send SendProps Patricia PatriciaProps PatriciaSearch PatriciaInsert
    PatriciaLookup PatriciaRemove PatriciaTheorems Reject RejectProps DlineProps Hostmask HostmaskProps HostmaskTheorems
    Exit Nick NickProps NickTable NickRules NickCollide NickTheorems NickClaims
begin

text \<open>
  A verification of the channel core of ircd-ratbox, an IRC daemon in C.

  \<^bold>\<open>The program.\<close> The daemon keeps tables of clients and channels, found by name through one
  generic hash table (\<open>src/hash.c\<close>). A client's presence on a channel is a \<open>struct membership\<close>
  that is linked into the channel's lists and the client's list; all lists are the intrusive
  doubly linked lists of \<open>libratbox/include/rb_tools.h\<close>. Bytes read from a connection are cut
  into lines by the line buffers (\<open>libratbox/src/linebuf.c\<close>) and wait in a receive queue; flood
  control (\<open>src/packet.c\<close>) hands them to the parser (\<open>src/parse.c\<close>), which finds the sender and
  the command, splits the parameters and calls a function of \<open>modules/\<close>; that changes the tables
  and sends messages, which wait in the line buffers of their receivers. Who may do what on a channel is decided by the flags of
  the membership and by lists of ban masks, which are compared with a client's
  \<open>nick!user@host\<close> by the wildcard matcher of \<open>src/match.c\<close>. Clients that changed their nick
  or left are remembered in the nickname history (\<open>src/whowas.c\<close>), through which MODE and KILL
  chase a nick.

  \<^bold>\<open>The theories\<close>, in the order of their dependence, with the sources they model:
  \<^item> \<open>Prelude\<close>: C strings (a string is the list of its bytes before the NUL, \<open>char_at\<close> reads
    the NUL behind it), \<open>strlcpy\<close> (\<open>libratbox/src/tools.c\<close>), searches, collections of simp rules.
  \<^item> \<open>Chars\<close>: the tables \<open>ToLowerTab\<close>, \<open>ToUpperTab\<close>, \<open>CharAttrs\<close> of \<open>src/match.c\<close>, the character
    classes of \<open>include/match.h\<close>, \<open>irccmp\<close>.
  \<^item> \<open>Match\<close>: \<open>match\<close> and \<open>mask_match\<close>; \<open>Masks\<close>: \<open>match_esc\<close>, \<open>comp_with_mask\<close>, \<open>collapse\<close>,
    \<open>collapse_esc\<close>, \<open>valid_hostname\<close>, \<open>valid_username\<close>, \<open>valid_servername\<close> (\<open>src/match.c\<close>).
  \<^item> \<open>Inet\<close>: \<open>inetntoa\<close>, \<open>inet_pton4\<close>, \<open>inet_pton6\<close> (\<open>libratbox/src/commio.c\<close>), \<open>match_ips\<close>,
    \<open>match_cidr\<close> (\<open>src/match.c\<close>).
  \<^item> \<open>Dlink\<close>: the linked lists of \<open>rb_tools.h\<close>, on a heap of nodes.
  \<^item> \<open>Hash\<close>: \<open>src/hash.c\<close>, FNV hashing on 32 bit words included.
  \<^item> \<open>World\<close>: clients, channels, memberships and the state of the daemon (\<open>include/struct.h\<close>,
    \<open>include/client.h\<close>, \<open>include/channel.h\<close>); addresses are numbers, a freed object is \<open>None\<close>.
  \<^item> \<open>Channel\<close>: membership, creation and destruction of channels, invitations, topics
    (\<open>src/channel.c\<close>, \<open>get_or_create_channel\<close> of \<open>modules/core/m_join.c\<close>, \<open>add_invite\<close> of
    \<open>modules/m_invite.c\<close>).
  \<^item> \<open>Bans\<close>: \<open>allocate_ban\<close>, \<open>is_banned\<close> and its cache, \<open>can_send\<close>, \<open>hash_find_resv\<close>.
  \<^item> \<open>ChanInfo\<close>: replies to NAMES and MODE queries, capability combinations, the spambot check,
    split mode (\<open>src/channel.c\<close>).
  \<^item> \<open>Whowas\<close>, \<open>WhowasProps\<close>: \<open>src/whowas.c\<close>.
  \<^item> \<open>Mode\<close>: \<open>modules/core/m_mode.c\<close> as a whole, \<open>send_cap_mode_changes\<close> of \<open>src/channel.c\<close> and
    \<open>find_client\<close>, \<open>find_person\<close>, \<open>find_chasing\<close> of \<open>src/client.c\<close>; \<open>ModeProps\<close>, \<open>BanMasks\<close>,
    \<open>ModeTheorems\<close>: what is proved of it.
  \<^item> \<open>Join\<close>: \<open>modules/core/m_join.c\<close> as a whole, JOIN, JOIN 0 and SJOIN; \<open>JoinProps\<close>, \<open>SjoinProps\<close>:
    the steps of JOIN and SJOIN keep the channels consistent; \<open>JoinTheorems\<close>, \<open>JoinRound\<close>: the
    properties.
  \<^item> \<open>ChanCmds\<close>: PART, KICK, TOPIC, INVITE and KNOCK (\<open>modules/core/m_part.c\<close>, \<open>modules/core/m_kick.c\<close>,
    \<open>modules/m_topic.c\<close>, \<open>modules/m_invite.c\<close>, \<open>modules/m_knock.c\<close>); \<open>ChanCmdsProps\<close>: the properties.
  \<^item> \<open>Send\<close>: the functions of \<open>src/send.c\<close> that choose the queues a message goes into, \<open>dead_link\<close> of
    \<open>src/client.c\<close>; \<open>SendProps\<close>: the properties.
  \<^item> \<open>Patricia\<close>: the radix trees of \<open>libratbox/src/patricia.c\<close> on a heap of nodes;
    \<open>PatriciaProps\<close> (the shape of a tree as a recursive tree of node addresses), \<open>PatriciaSearch\<close>,
    \<open>PatriciaInsert\<close>, \<open>PatriciaLookup\<close>, \<open>PatriciaRemove\<close>: each operation; \<open>PatriciaTheorems\<close>:
    the properties.
  \<^item> \<open>Reject\<close>: \<open>src/reject.c\<close> (rejected addresses, throttle, D-lines, counts per address) and
    \<open>parse_netmask\<close> of \<open>src/hostmask.c\<close>; \<open>RejectProps\<close>, \<open>DlineProps\<close>: the properties.
  \<^item> \<open>Hostmask\<close>: the rest of \<open>src/hostmask.c\<close> (auth blocks, K-lines and G-lines in a hash table of masks),
    \<open>src/ipv4_from_ipv6.c\<close>; \<open>HostmaskProps\<close>: the lookups against a search through all records;
    \<open>HostmaskTheorems\<close>: every sequence of changes, and the properties.
  \<^item> \<open>Exit\<close>: the tables of all clients and \<open>exit_client\<close> of \<open>src/client.c\<close> with what it calls for clients that are
    not servers; \<open>Nick\<close>: \<open>modules/core/m_nick.c\<close>, NICK, UID, SAVE and the collisions; \<open>NickProps\<close>: the part of their state that
    the table of nicks depends on, \<open>nv\<close>, and what each operation does to it; \<open>NickTable\<close>: the invariant of this part;
    \<open>NickRules\<close>, \<open>NickCollide\<close>, \<open>NickTheorems\<close>: the commands keep it; \<open>NickClaims\<close>: the properties.
  \<^item> \<open>Parse\<close>: \<open>rb_string_to_array\<close> (\<open>libratbox/src/tools.c\<close>), \<open>src/parse.c\<close> as a whole and
    \<open>find_any_client\<close>, \<open>find_server\<close> of \<open>src/client.c\<close>; a handler is a value, calling it a result.
    \<open>ParseProps\<close>: what is proved of it.
  \<^item> \<open>Linebuf\<close>: \<open>libratbox/src/linebuf.c\<close> on a store of reference counted lines; \<open>LinebufProps\<close>:
    the books and the send queues; \<open>LineStream\<close>: receiving.
  \<^item> \<open>Packet\<close>, \<open>PacketProps\<close>: \<open>src/packet.c\<close>; the effect of parsing a line is a parameter.

  \<^bold>\<open>What is shown.\<close>
  \<^item> Matching: a reported match is one (against the recursive \<open>glob\<close>), within the limit of
    \<open>MATCH_MAX_CALLS\<close> steps the answer is exact, the cursors stay inside their strings, and a
    mask that \<open>mask_match\<close> says covers another does.
  \<^item> Containers: the linked lists implement sequences and the hash tables implement a list of
    entries searched up to IRC case, both under every sequence of operations.
  \<^item> Channels: from a world without channels every sequence of joins, parts, quits, creations,
    invitations and topic changes keeps all lists and pointers consistent; a channel dies with
    its last member; the batch removal of a quitting client equals one removal at a time.
  \<^item> Bans: the answer of \<open>can_send\<close> never depends on the ban cache.
  \<^item> Modes: no handler lets a client without operator status change anything; every command
    keeps the channels consistent and touches one channel; the number of changes per command;
    \<open>pretty_mask\<close> gives canonical masks; setting and removing a ban is a round trip.
  \<^item> Joining: every JOIN and SJOIN keeps the channels consistent; \<open>can_join\<close> decides who gets in;
    the older time stamp wins, nobody becomes operator of an older channel, and servers that
    receive the same SJOINs in any order agree on the modes; modes survive being sent as text.
  \<^item> Channel commands: PART, KICK, TOPIC and INVITE keep the channels consistent; kicks and
    invitations that are recorded need operator status; knocks are limited in time.
  \<^item> Delivery: a message to a channel goes into no queue twice and towards every member that is to
    have it; a change of nick reaches every local client that shares a channel exactly once.
  \<^item> Networks: a radix tree implements a set of networks under every sequence of insertions and
    removals, its nodes do not move, and the best match is the longest network; the reject cache
    keeps its list and tree in step; the throttle counts exactly; exemptions come before D-lines.
  \<^item> Host masks: the hashed lookups find exactly what a search through all auth blocks, in the order of
    the configuration, or all bans finds; a client a K-line applies to is not let in by a block that is not exempt.
  \<^item> Nicks: however clients come, change their nicks, collide and leave, a nick has one owner, and two servers whose users collide
    keep the same one. Nicks that begin with a digit (UIDs) are looked up in another table and are left out.
  \<^item> Nickname history: it implements one list, newest first; no pointer to a client that left.
  \<^item> Parsing: a handler runs only for a sender behind the link its line came from and with the
    parameters it asked for; parameters survive joining and cutting; arrays are not overrun.
  \<^item> Line buffers: what was written and what is still queued is what was put into a queue, for
    any results of the writes; shared lines are freed exactly with their last reference; the
    lines received do not depend on how the stream is cut into reads.
  \<^item> Flood control: at most the allowance and two lines a second; every queued line is handled
    in time; the loops end; the receive queue is bounded.
  \<^item> Faults that the model has because the code has them: a null pointer and a buffer overflow
    in MODE, duplicate channels under names of maximal length, bans that cannot be removed, a
    matcher that gives up, address and escape parsers that accept too much, scans before the
    start of a line buffer, a command removed with the wrong module, operators that keep their
    status when their channel loses its time stamp, IPv4 networks that match IPv6 addresses,
    D-lines lost with a duplicate,
    K-lines on address text that are not looked up, NICK asking the wrong table, services killed after they were
    introduced again.

  \<^bold>\<open>Interfaces.\<close> \<open>node_list\<close> (Dlink), \<open>name_index\<close> (Hash), \<open>mode_handlers\<close> (ModeProps),
  \<open>merging\<close> (JoinTheorems) and \<open>net_table\<close> (PatriciaTheorems) are locales with the laws their clients use; each is interpreted on the definitions of the model.

  \<^bold>\<open>Bounds.\<close> The matcher's fuel is the source's own \<open>MATCH_MAX_CALLS\<close>. The loops of flood
  control and of the radix trees are partial functions with values in \<open>option\<close>, and are proved to return. All other loops
  are structural or have a termination proof. Bit sets, hash values and the ban serial are 32 bit
  words; lengths are natural numbers, for no string in the daemon approaches the width of
  \<open>size_t\<close>. The writes that the code does not bound, in MODE and SJOIN, are checked against the size of
  their buffers and fault behind them.

  \<^bold>\<open>Not modelled.\<close> The default build without \<open>ENABLE_SERVICES\<close> is modelled. Left out are the
  event loop, sockets and the \<open>select\<close> back ends, TLS, the resolver, ssld, bandb and the SQL
  database it embeds, the configuration parser, logging and statistics, and the modules other
  than those named above. The commands return the messages they send as values; \<open>Send\<close> takes up from there, up
  to the writing of the queues (\<open>send_queued\<close>), which is given by its outcome. Of the
  parser the hex dump after a failed handler and the repair of corked connections are left out;
  what \<open>rb_vsnprintf\<close> formats is a parameter, as are the return values of system calls. Of the exits those of servers are left out, with all clients behind them
  (the event \<open>LinkExits\<close>), and the registration of local clients is the event \<open>Registers\<close>. \<open>change_nick\<close> is the
  part of \<open>change_local_nick\<close> that concerns the ban cache.
\<close>

end
